(* ===== verification/Prelude.thy ===== *)
theory Prelude
  imports Complex_Main "HOL-Library.AList"
begin

text \<open>
  What the components share. JavaScript values are read as follows: an optional field or an
  \<open>undefined\<close> result is an \<open>option\<close>; \<open>xs[i]\<close> is \<open>nth_opt\<close> (out of range and negative indices
  give \<open>None\<close>, as JavaScript gives \<open>undefined\<close>); \<open>a ?? b\<close> is \<open>nullish\<close>; a \<open>Map\<close> is an
  association list kept in insertion order, with \<open>map_of\<close> as \<open>get\<close>, \<open>AList.update\<close> as \<open>set\<close>
  (an existing key keeps its place, a new one goes last) and \<open>AList.delete\<close> as \<open>delete\<close>; a
  string is a list of characters, one per UTF-16 code unit below 256.

  The locale \<open>frame_machine\<close> is the interface every stateful component offers: a step, the
  frames it admits and an invariant every admitted step keeps.
\<close>

named_theorems lookup_simps \<open>reads after writes on the model's maps and lists\<close>

section \<open>Optional values and indexed reads\<close>

definition nullish :: "'a option \<Rightarrow> 'a \<Rightarrow> 'a" where
  "nullish x d = (case x of None \<Rightarrow> d | Some v \<Rightarrow> v)"

lemma nullish_simps [simp]: "nullish None d = d" "nullish (Some v) d = v"
  by (simp_all add: nullish_def)

definition nth_opt :: "'a list \<Rightarrow> int \<Rightarrow> 'a option" where
  "nth_opt xs i = (if 0 \<le> i \<and> i < int (length xs) then Some (xs ! nat i) else None)"

lemma nth_opt_Nil [simp]: "nth_opt [] i = None"
  by (simp add: nth_opt_def)

lemma nth_opt_length [simp]: "nth_opt xs (int (length xs)) = None"
  by (simp add: nth_opt_def)

lemma nth_opt_int [simp]: "nth_opt xs (int n) = (if n < length xs then Some (xs ! n) else None)"
  by (simp add: nth_opt_def)

lemma nth_opt_append_left:
  "i < int (length xs) \<Longrightarrow> nth_opt (xs @ ys) i = nth_opt xs i"
  by (auto simp: nth_opt_def nth_append)

lemma nth_opt_snoc [simp]: "nth_opt (xs @ [x]) (int (length xs)) = Some x"
  by (simp add: nth_opt_def)

lemma nth_opt_SomeD: "nth_opt xs i = Some x \<Longrightarrow> x \<in> set xs"
  by (auto simp: nth_opt_def split: if_splits)

lemma nth_opt_Some_bounds: "nth_opt xs i = Some x \<Longrightarrow> 0 \<le> i \<and> i < int (length xs)"
  by (auto simp: nth_opt_def split: if_splits)

text \<open>\<open>findIndex\<close>, with \<open>None\<close> for the \<open>-1\<close> of a search that found nothing.\<close>

fun find_index :: "('a \<Rightarrow> bool) \<Rightarrow> 'a list \<Rightarrow> nat option" where
  "find_index P [] = None"
| "find_index P (x # xs) = (if P x then Some 0 else map_option Suc (find_index P xs))"

lemma find_index_Some:
  "find_index P xs = Some i \<Longrightarrow> i < length xs \<and> P (xs ! i) \<and> (\<forall>j < i. \<not> P (xs ! j))"
proof (induction xs arbitrary: i)
  case (Cons x xs)
  show ?case
  proof (cases "P x")
    case False
    with Cons.prems obtain k where k: "find_index P xs = Some k" "i = Suc k" by auto
    with Cons.IH[OF k(1)] False show ?thesis
      by (auto simp: less_Suc_eq_0_disj)
  qed (use Cons.prems in auto)
qed simp

lemma find_index_None: "find_index P xs = None \<longleftrightarrow> (\<forall>x\<in>set xs. \<not> P x)"
  by (induction xs) auto

text \<open>\<open>indexOf\<close>.\<close>

definition index_of :: "'a \<Rightarrow> 'a list \<Rightarrow> nat option" where
  "index_of x xs = find_index (\<lambda>y. y = x) xs"

lemma index_of_simps [simp]:
  "index_of x [] = None"
  "index_of x (y # ys) = (if y = x then Some 0 else map_option Suc (index_of x ys))"
  by (simp_all add: index_of_def)

lemma index_of_Some: "index_of x xs = Some i \<Longrightarrow> i < length xs \<and> xs ! i = x"
  unfolding index_of_def by (drule find_index_Some) auto

lemma index_of_None [simp]: "index_of x xs = None \<longleftrightarrow> x \<notin> set xs"
  by (auto simp: index_of_def find_index_None)

lemma index_of_split:
  "index_of x xs = Some i \<Longrightarrow> xs = take i xs @ x # drop (Suc i) xs"
  by (metis id_take_nth_drop index_of_Some)

lemma index_of_first:
  assumes "index_of x xs = Some i" shows "x \<notin> set (take i xs)"
proof
  assume "x \<in> set (take i xs)"
  then obtain j where "j < i" "xs ! j = x" by (auto simp: in_set_conv_nth)
  then show False using find_index_Some[OF assms[unfolded index_of_def]] by blast
qed

section \<open>Maps in insertion order\<close>

abbreviation keys :: "('k \<times> 'v) list \<Rightarrow> 'k list" where
  "keys m \<equiv> map fst m"

lemma map_of_update [lookup_simps]:
  "map_of (AList.update k v m) j = (if j = k then Some v else map_of m j)"
  by (simp add: AList.update_conv')

lemma map_of_delete_if [lookup_simps]:
  "map_of (AList.delete k m) j = (if j = k then None else map_of m j)"
  by (simp add: AList.delete_conv')

lemma keys_update [lookup_simps]: "set (keys (AList.update k v m)) = insert k (set (keys m))"
  by (induction m) auto

lemma keys_delete [lookup_simps]: "set (keys (AList.delete k m)) = set (keys m) - {k}"
  by (induction m) auto

lemma distinct_keys_delete: "distinct (keys m) \<Longrightarrow> distinct (keys (AList.delete k m))"
  by (simp add: AList.delete_keys distinct_removeAll)

lemma update_fresh: "k \<notin> set (keys m) \<Longrightarrow> AList.update k v m = m @ [(k, v)]"
  by (induction m) auto

lemma map_of_in_keys: "map_of m k = Some v \<Longrightarrow> k \<in> set (keys m)"
  by (auto dest!: map_of_SomeD simp: image_iff) force

lemma keys_map_of: "k \<in> set (keys m) \<longleftrightarrow> (\<exists>v. map_of m k = Some v)"
  by (metis map_of_eq_None_iff not_None_eq set_map)

lemma map_of_in_set: "map_of m k = Some v \<Longrightarrow> (k, v) \<in> set m"
  by (rule map_of_SomeD)

lemma in_set_map_of: "distinct (keys m) \<Longrightarrow> (k, v) \<in> set m \<longleftrightarrow> map_of m k = Some v"
  by (auto dest: map_of_SomeD)

section \<open>Lists\<close>

lemma foldl_invariant:
  assumes "I s" and "\<And>s x. x \<in> set xs \<Longrightarrow> I s \<Longrightarrow> I (f s x)"
  shows "I (foldl f s xs)"
  using assms by (induction xs arbitrary: s) auto

lemma filter_shorter: "(\<exists>x\<in>set xs. \<not> P x) \<longleftrightarrow> length (filter P xs) \<noteq> length xs"
  by (metis filter_id_conv filter_True length_filter_less less_irrefl)

lemma filter_same_length: "length (filter P xs) = length xs \<Longrightarrow> filter P xs = xs"
  by (metis filter_id_conv filter_shorter)

text \<open>\<open>trim\<close>: the white space among the first 256 code units.\<close>

definition js_space :: "char \<Rightarrow> bool" where
  "js_space c = (of_char c \<in> {9, 10, 11, 12, 13, 32, 160 :: nat})"

definition js_trim :: "string \<Rightarrow> string" where
  "js_trim s = rev (dropWhile js_space (rev (dropWhile js_space s)))"

lemma js_trim_Nil [simp]: "js_trim [] = []"
  by (simp add: js_trim_def)

lemma js_trim_Cons_nospace: "\<not> js_space c \<Longrightarrow> js_trim (c # s) \<noteq> []"
  by (simp add: js_trim_def dropWhile_append)

text \<open>\<open>s.split(sep)\<close> on one character or code unit, and its inverse.\<close>

fun split_on :: "'a \<Rightarrow> 'a list \<Rightarrow> 'a list list" where
  "split_on sep [] = [[]]"
| "split_on sep (c # s) =
     (if c = sep then [] # split_on sep s
      else case split_on sep s of
             [] \<Rightarrow> [[c]]
           | seg # segs \<Rightarrow> (c # seg) # segs)"

fun join_on :: "'a \<Rightarrow> 'a list list \<Rightarrow> 'a list" where
  "join_on sep [] = []"
| "join_on sep [s] = s"
| "join_on sep (s # t # ss) = s @ sep # join_on sep (t # ss)"

lemma split_on_nonempty: "split_on sep s \<noteq> []"
  by (induction s) (auto split: list.splits)

lemma split_on_plain: "sep \<notin> set s \<Longrightarrow> split_on sep s = [s]"
  by (induction s) auto

lemma split_on_append: "sep \<notin> set a \<Longrightarrow> split_on sep (a @ sep # b) = a # split_on sep b"
  by (induction a) (auto simp: split_on_nonempty split: list.splits)

lemma split_join_on: "ss \<noteq> [] \<Longrightarrow> \<forall>s\<in>set ss. sep \<notin> set s \<Longrightarrow> split_on sep (join_on sep ss) = ss"
  by (induction sep ss rule: join_on.induct) (auto simp: split_on_plain split_on_append)

text \<open>\<open>String(n)\<close> of a natural number.\<close>

fun number_text :: "nat \<Rightarrow> string" where
  "number_text n = (if n < 10 then [char_of (48 + n)] else number_text (n div 10) @ [char_of (48 + n mod 10)])"

declare number_text.simps [simp del]

section \<open>The interface of a stateful component\<close>

locale frame_machine =
  fixes step :: "'s \<Rightarrow> 'f \<Rightarrow> 's"
    and ok :: "'f \<Rightarrow> bool"
    and inv :: "'s \<Rightarrow> bool"
  assumes step_inv: "inv s \<Longrightarrow> ok f \<Longrightarrow> inv (step s f)"
begin

lemma run_inv: "inv s \<Longrightarrow> list_all ok fs \<Longrightarrow> inv (foldl step s fs)"
  by (induction fs arbitrary: s) (auto intro: step_inv)

lemma run_prefix_inv: "inv s \<Longrightarrow> list_all ok (fs @ gs) \<Longrightarrow> inv (foldl step s fs)"
  by (auto intro: run_inv)

end

text \<open>An interface whose repeated frames change nothing: a stream that replays is harmless.\<close>

locale replay_safe =
  fixes step :: "'s \<Rightarrow> 'f \<Rightarrow> 's"
    and replayable :: "'f \<Rightarrow> bool"
  assumes step_twice: "replayable f \<Longrightarrow> step (step s f) f = step s f"
begin

lemma replay_any: "replayable f \<Longrightarrow> foldl step s (replicate (Suc n) f) = step s f"
  by (induction n) (auto simp: step_twice)

end

end
