(* ===== verification/Wire.thy ===== *)
theory Wire
  imports Prelude
begin

text \<open>
  The wire vocabulary the client's logic branches on (static-src/wire/types.gen.ts), with the
  generated unions as datatypes and the generated interfaces as records; an optional field is an
  \<open>option\<close>. An entry's payload is a tagged union: the generated decoder has validated it against
  the entry's \<open>kind\<close>, so the kind is read off the payload (\<open>entry_kind_of\<close>).
  The metadata blocks no modelled code looks into (a checkpoint, a denial, a disclosed document,
  a truncation record, a tool's input) are carried whole.
\<close>

section \<open>Enumerations\<close>

datatype entry_kind =
    K_turn_open | K_turn_bind | K_text | K_thinking | K_tool_call | K_tool_result | K_steer
  | K_steer_ack | K_plan | K_compaction | K_compaction_failed | K_safety_blocked
  | K_model_switched | K_mode_switched | K_turn_revert | K_reconciled | K_turn_close

datatype mode_switch_source = Mode_user | Mode_agent

datatype plan_status = Plan_pending | Plan_in_progress | Plan_completed

datatype run_node_status =
  N_pending | N_running | N_paused | N_completed | N_failed | N_aborted | N_skipped

datatype run_status = R_running | R_paused | R_completed | R_failed | R_aborted | R_cancelled

datatype steer_origin = From_user | From_agent

datatype steer_reason = Reason_restart | Reason_boundary | Reason_deleted

datatype steer_row_state = Row_queued | Row_unsent | Row_removed

datatype steer_state = Steer_read | Steer_dropped

datatype tab_kind =
    Tab_chat | Tab_editor | Tab_run | Tab_subagent | Tab_settings | Tab_git | Tab_files
  | Tab_history | Tab_docs | Tab_spec | Tab_web

datatype tool_kind =
    TK_execute | TK_shell | TK_read | TK_search | TK_fetch | TK_edit | TK_think | TK_hook
  | TK_write | TK_delete | TK_move | TK_command | TK_browser | TK_switch_mode | TK_mcp | TK_other

datatype tool_status = TS_pending | TS_in_progress | TS_completed | TS_failed | TS_aborted

datatype turn_open_source =
    Src_prompt | Src_local_shell | Src_wire_turn_start | Src_empty_retry | Src_event | Src_revert
  | Src_workflow_step

datatype turn_outcome =
    O_running | O_completed | O_cancelled | O_interrupted | O_failed | O_refused | O_unknown
  | O_empty

datatype turn_revert_cause = Cause_rewind

datatype turn_severity = Sev_running | Sev_clean | Sev_stopped | Sev_broken

section \<open>Domain shapes\<close>

record text_span =
  span_start :: int
  span_end :: int
  span_fg :: int
  span_bg :: int
  span_attrs :: int

record tool_diff =
  diff_path :: string
  diff_old_text :: "string option"
  diff_new_text :: string

record tool_location =
  loc_path :: string
  loc_line :: "int option"

record tool_checkpoint =
  cp_original :: "string option"
  cp_modified :: "string option"
  cp_local :: "string option"

record tool_denial_rule =
  rule_capability :: string
  rule_effect :: string
  rule_match :: "string list option"
  rule_exclude :: "string list option"

record tool_denial =
  den_rule :: "tool_denial_rule option"
  den_capability :: string
  den_resource :: string
  den_scope :: string
  den_source :: string

record tool_disclosed =
  dis_type :: string
  dis_display_name :: string
  dis_uri :: string

record tool_truncation =
  trunc_output_bytes :: "int option"
  trunc_input_bytes :: "int option"
  trunc_diff_bytes :: "int option"
  trunc_diff_count :: "int option"

record file_change =
  fc_lines_added :: int
  fc_lines_removed :: int
  fc_is_new_file :: "bool option"

record code_reference =
  cr_license_name :: string
  cr_repository :: "string option"
  cr_url :: "string option"

record refusal_info =
  ref_category :: "string option"
  ref_explanation :: "string option"
  ref_recommended_model :: "string option"

record attachment =
  att_path :: string
  att_name :: string

record metering_item =
  met_unit_singular :: string
  met_unit_plural :: string
  met_value :: rat

record usage =
  us_metering_items :: "metering_item list option"
  us_context_pct :: rat
  us_summarization_threshold_pct :: "rat option"
  us_truncation_threshold_pct :: "rat option"
  us_context_size :: int
  us_credits :: rat
  us_last_turn_ms :: int
  us_has_real_data :: bool

record effort_level =
  eff_id :: string
  eff_name :: "string option"

record subject_stamp =
  st_kind :: string
  st_ref :: string
  st_version :: string
  st_epoch :: "string option"

text \<open>\<open>ToolCall\<close> and \<open>EntryToolCall\<close> declare the same fields and the code uses one for the other.\<close>

record tool_call =
  tc_id :: string
  tc_title :: string
  tc_kind :: tool_kind
  tc_status :: tool_status
  tc_output :: "string option"
  tc_agent_subtask_id :: "string option"
  tc_workflow_id :: "string option"
  tc_terminal_id :: "string option"
  tc_checkpoint :: "tool_checkpoint option"
  tc_disclosed :: "tool_disclosed option"
  tc_denial :: "tool_denial option"
  tc_truncated :: "tool_truncation option"
  tc_input :: "string option"
  tc_locations :: "tool_location list option"
  tc_diffs :: "tool_diff list option"
  tc_output_spans :: "text_span list option"
  tc_ts :: int
  tc_duration_ms :: "int option"
  tc_output_bytes :: "int option"
  tc_has_full :: "bool option"
  tc_declined :: "bool option"

record tool_result =
  tr_checkpoint :: "tool_checkpoint option"
  tr_disclosed :: "tool_disclosed option"
  tr_denial :: "tool_denial option"
  tr_truncated :: "tool_truncation option"
  tr_title :: "string option"
  tr_kind :: "tool_kind option"
  tr_status :: tool_status
  tr_output :: "string option"
  tr_terminal_id :: "string option"
  tr_workflow_id :: "string option"
  tr_output_spans :: "text_span list option"
  tr_diffs :: "tool_diff list option"
  tr_locations :: "tool_location list option"
  tr_duration_ms :: "int option"
  tr_output_bytes :: "int option"
  tr_has_full :: "bool option"
  tr_declined :: "bool option"

record tool_progress =
  tp_checkpoint :: "tool_checkpoint option"
  tp_disclosed :: "tool_disclosed option"
  tp_denial :: "tool_denial option"
  tp_turn :: string
  tp_tool_call_id :: string
  tp_title :: "string option"
  tp_kind :: "tool_kind option"
  tp_status :: "tool_status option"
  tp_output_delta :: "string option"
  tp_terminal_id :: "string option"
  tp_agent_subtask_id :: "string option"
  tp_workflow_id :: "string option"
  tp_output_spans :: "text_span list option"
  tp_diffs_appended :: "tool_diff list option"
  tp_locations :: "tool_location list option"
  tp_duration_ms :: "int option"
  tp_output_replace :: "bool option"
  tp_declined :: "bool option"

section \<open>The entry log's payloads\<close>

record prompt =
  pr_id :: string
  pr_text :: string
  pr_attachments :: "attachment list option"
  pr_resends :: "string list option"

record turn_open =
  to_prompt :: "prompt option"
  to_source :: turn_open_source
  to_run :: "string option"
  to_node_path :: "string option"
  to_session_id :: "string option"
  to_n :: int

record steer =
  sr_text :: string
  sr_origin :: steer_origin
  sr_state :: steer_state
  sr_reason :: "steer_reason option"
  sr_severity :: "string option"
  sr_origin_run :: "string option"
  sr_resends :: "string list option"
  sr_produced_ts :: "int option"

record turn_revert =
  rv_from :: string
  rv_through :: string
  rv_kas_message_id :: string
  rv_cause :: turn_revert_cause
  rv_from_n :: int

record turn_close =
  cl_changed_files :: "(string \<times> file_change) list option"
  cl_refusal :: "refusal_info option"
  cl_outcome :: turn_outcome
  cl_stop_reason_raw :: "string option"
  cl_failure_reason :: "string option"
  cl_model :: "string option"
  cl_code_references :: "code_reference list option"
  cl_credits :: "rat option"
  cl_elapsed_ms :: "int option"
  cl_truncated :: "bool option"

record model_switch =
  ms_from :: string
  ms_to :: string
  ms_effort :: "string option"

record plan_entry =
  pl_content :: string
  pl_priority :: string
  pl_status :: plan_status

datatype payload =
    P_turn_open turn_open
  | P_turn_bind string string
  | P_text string
  | P_thinking string
  | P_tool_call tool_call
  | P_tool_result tool_result
  | P_steer steer
  | P_steer_ack string string
  | P_plan "plan_entry list"
  | P_compaction string
  | P_compaction_failed string
  | P_safety_blocked "string list"
  | P_model_switched model_switch
  | P_mode_switched string string mode_switch_source
  | P_turn_revert turn_revert
  | P_reconciled "string option" "string option"
  | P_turn_close turn_close

fun payload_kind :: "payload \<Rightarrow> entry_kind" where
  "payload_kind (P_turn_open _) = K_turn_open"
| "payload_kind (P_turn_bind _ _) = K_turn_bind"
| "payload_kind (P_text _) = K_text"
| "payload_kind (P_thinking _) = K_thinking"
| "payload_kind (P_tool_call _) = K_tool_call"
| "payload_kind (P_tool_result _) = K_tool_result"
| "payload_kind (P_steer _) = K_steer"
| "payload_kind (P_steer_ack _ _) = K_steer_ack"
| "payload_kind (P_plan _) = K_plan"
| "payload_kind (P_compaction _) = K_compaction"
| "payload_kind (P_compaction_failed _) = K_compaction_failed"
| "payload_kind (P_safety_blocked _) = K_safety_blocked"
| "payload_kind (P_model_switched _) = K_model_switched"
| "payload_kind (P_mode_switched _ _ _) = K_mode_switched"
| "payload_kind (P_turn_revert _) = K_turn_revert"
| "payload_kind (P_reconciled _ _) = K_reconciled"
| "payload_kind (P_turn_close _) = K_turn_close"

text \<open>One sealed line of the log. \<open>e_seq\<close> counts from 0 inside a turn, \<open>e_ts\<close> is never compared.\<close>

record entry =
  e_id :: string
  e_turn :: string
  e_lane :: "string option"
  e_payload :: payload
  e_seq :: int
  e_ts :: int

definition entry_kind_of :: "entry \<Rightarrow> entry_kind" where
  "entry_kind_of e = payload_kind (e_payload e)"

text \<open>\<open>e.lane ?? ""\<close>: the empty lane is the agent that owns the turn.\<close>

definition lane_of :: "entry \<Rightarrow> string" where
  "lane_of e = nullish (e_lane e) ''''"

text \<open>A lane's open entry coalesces either kind of prose, and no other kind.\<close>

datatype open_kind = Open_text | Open_thinking

record open_entry =
  oe_turn :: string
  oe_id :: string
  oe_lane :: "string option"
  oe_kind :: open_kind
  oe_text :: string
  oe_n :: int

fun prose_payload :: "open_kind \<Rightarrow> string \<Rightarrow> payload" where
  "prose_payload Open_text s = P_text s"
| "prose_payload Open_thinking s = P_thinking s"

section \<open>Reading an entry by kind\<close>

text \<open>\<open>isEntryKind\<close> and \<open>payloadOf\<close>, one reader per kind the logic asks for.\<close>

definition is_entry_kind :: "entry \<Rightarrow> entry_kind \<Rightarrow> bool" where
  "is_entry_kind e k = (entry_kind_of e = k)"

definition payload_turn_open :: "entry \<Rightarrow> turn_open option" where
  "payload_turn_open e = (case e_payload e of P_turn_open p \<Rightarrow> Some p | _ \<Rightarrow> None)"

definition payload_turn_close :: "entry \<Rightarrow> turn_close option" where
  "payload_turn_close e = (case e_payload e of P_turn_close p \<Rightarrow> Some p | _ \<Rightarrow> None)"

definition payload_tool_call :: "entry \<Rightarrow> tool_call option" where
  "payload_tool_call e = (case e_payload e of P_tool_call p \<Rightarrow> Some p | _ \<Rightarrow> None)"

definition payload_tool_result :: "entry \<Rightarrow> tool_result option" where
  "payload_tool_result e = (case e_payload e of P_tool_result p \<Rightarrow> Some p | _ \<Rightarrow> None)"

definition payload_text :: "entry \<Rightarrow> string option" where
  "payload_text e = (case e_payload e of P_text p \<Rightarrow> Some p | _ \<Rightarrow> None)"

definition payload_steer :: "entry \<Rightarrow> steer option" where
  "payload_steer e = (case e_payload e of P_steer p \<Rightarrow> Some p | _ \<Rightarrow> None)"

definition payload_turn_revert :: "entry \<Rightarrow> turn_revert option" where
  "payload_turn_revert e = (case e_payload e of P_turn_revert p \<Rightarrow> Some p | _ \<Rightarrow> None)"

definition payload_model_switched :: "entry \<Rightarrow> model_switch option" where
  "payload_model_switched e = (case e_payload e of P_model_switched p \<Rightarrow> Some p | _ \<Rightarrow> None)"

lemmas payload_readers =
  payload_turn_open_def payload_turn_close_def payload_tool_call_def payload_tool_result_def
  payload_text_def payload_steer_def payload_turn_revert_def payload_model_switched_def

lemma kind_of_payload:
  "entry_kind_of e = K_turn_open \<longleftrightarrow> (\<exists>p. e_payload e = P_turn_open p)"
  "entry_kind_of e = K_turn_close \<longleftrightarrow> (\<exists>p. e_payload e = P_turn_close p)"
  "entry_kind_of e = K_tool_call \<longleftrightarrow> (\<exists>p. e_payload e = P_tool_call p)"
  "entry_kind_of e = K_tool_result \<longleftrightarrow> (\<exists>p. e_payload e = P_tool_result p)"
  "entry_kind_of e = K_text \<longleftrightarrow> (\<exists>p. e_payload e = P_text p)"
  "entry_kind_of e = K_steer \<longleftrightarrow> (\<exists>p. e_payload e = P_steer p)"
  "entry_kind_of e = K_turn_revert \<longleftrightarrow> (\<exists>p. e_payload e = P_turn_revert p)"
  "entry_kind_of e = K_plan \<longleftrightarrow> (\<exists>p. e_payload e = P_plan p)"
  "entry_kind_of e = K_compaction \<longleftrightarrow> (\<exists>p. e_payload e = P_compaction p)"
  by (cases "e_payload e"; simp add: entry_kind_of_def)+

lemma payload_reader_None:
  "payload_turn_open e = None \<longleftrightarrow> entry_kind_of e \<noteq> K_turn_open"
  "payload_turn_close e = None \<longleftrightarrow> entry_kind_of e \<noteq> K_turn_close"
  "payload_tool_call e = None \<longleftrightarrow> entry_kind_of e \<noteq> K_tool_call"
  "payload_tool_result e = None \<longleftrightarrow> entry_kind_of e \<noteq> K_tool_result"
  "payload_text e = None \<longleftrightarrow> entry_kind_of e \<noteq> K_text"
  "payload_steer e = None \<longleftrightarrow> entry_kind_of e \<noteq> K_steer"
  "payload_turn_revert e = None \<longleftrightarrow> entry_kind_of e \<noteq> K_turn_revert"
  by (cases "e_payload e"; simp add: payload_readers entry_kind_of_def)+

lemma payload_reader_Some:
  "payload_turn_open e = Some a \<longleftrightarrow> e_payload e = P_turn_open a"
  "payload_turn_close e = Some b \<longleftrightarrow> e_payload e = P_turn_close b"
  "payload_tool_call e = Some c \<longleftrightarrow> e_payload e = P_tool_call c"
  "payload_tool_result e = Some d \<longleftrightarrow> e_payload e = P_tool_result d"
  "payload_text e = Some f \<longleftrightarrow> e_payload e = P_text f"
  "payload_steer e = Some g \<longleftrightarrow> e_payload e = P_steer g"
  "payload_turn_revert e = Some h \<longleftrightarrow> e_payload e = P_turn_revert h"
  by (cases "e_payload e"; simp add: payload_readers)+

end
