(* ===== verification/TurnSeverity.thy ===== *)
theory TurnSeverity
  imports Wire
begin

text \<open>
  How badly a turn ended (static-src/turn-severity.ts): the one table that grades an outcome,
  its two display tables and the sentence that stands in for a missing failure reason. An absent
  outcome is \<open>None\<close>.
\<close>

fun severity_of :: "turn_outcome option \<Rightarrow> turn_severity" where
  "severity_of (Some O_running) = Sev_running"
| "severity_of (Some O_completed) = Sev_clean"
| "severity_of (Some O_cancelled) = Sev_stopped"
| "severity_of (Some O_unknown) = Sev_stopped"
| "severity_of (Some O_empty) = Sev_stopped"
| "severity_of (Some O_interrupted) = Sev_broken"
| "severity_of (Some O_failed) = Sev_broken"
| "severity_of (Some O_refused) = Sev_broken"
| "severity_of None = Sev_stopped"

definition is_broken :: "turn_outcome option \<Rightarrow> bool" where
  "is_broken o1 = (severity_of o1 = Sev_broken)"

fun outcome_label :: "turn_outcome \<Rightarrow> string" where
  "outcome_label O_running = ''Running''"
| "outcome_label O_completed = ''Completed''"
| "outcome_label O_cancelled = ''Cancelled''"
| "outcome_label O_interrupted = ''Interrupted''"
| "outcome_label O_refused = ''Refused''"
| "outcome_label O_unknown = ''Unknown''"
| "outcome_label O_failed = ''Failed''"
| "outcome_label O_empty = ''Empty''"

definition turn_outcome_values :: "turn_outcome list" where
  "turn_outcome_values =
     [O_running, O_completed, O_cancelled, O_interrupted, O_refused, O_unknown, O_failed, O_empty]"

fun outcome_tooltip :: "turn_outcome \<Rightarrow> string" where
  "outcome_tooltip O_running = ''This turn is still running''"
| "outcome_tooltip O_completed = ''This turn finished normally''"
| "outcome_tooltip O_cancelled = ''You stopped this turn''"
| "outcome_tooltip O_interrupted = ''This turn was interrupted before it finished''"
| "outcome_tooltip O_refused = ''The model declined to continue''"
| "outcome_tooltip O_unknown = ''This turn's end could not be read''"
| "outcome_tooltip O_failed = ''This turn failed''"
| "outcome_tooltip O_empty = ''The agent ended this turn without answering''"

fun default_failure_reason :: "turn_outcome option \<Rightarrow> string" where
  "default_failure_reason (Some O_failed) =
     ''The agent reported an error and the turn stopped.''"
| "default_failure_reason (Some O_interrupted) =
     ''The turn was interrupted before the agent finished.''"
| "default_failure_reason (Some O_refused) = ''The model declined to continue.''"
| "default_failure_reason (Some O_unknown) =
     ''The turn ended for a reason marotte could not read.''"
| "default_failure_reason (Some O_cancelled) = ''''"
| "default_failure_reason (Some O_completed) = ''''"
| "default_failure_reason (Some O_running) = ''''"
| "default_failure_reason (Some O_empty) = ''''"
| "default_failure_reason None = ''''"

lemma turn_outcome_values_all: "x \<in> set turn_outcome_values"
  by (cases x) (simp_all add: turn_outcome_values_def)

lemma severity_running [simp]: "severity_of o1 = Sev_running \<longleftrightarrow> o1 = Some O_running"
  by (cases o1 rule: severity_of.cases) simp_all

lemma severity_clean [simp]: "severity_of o1 = Sev_clean \<longleftrightarrow> o1 = Some O_completed"
  by (cases o1 rule: severity_of.cases) simp_all

lemma severity_broken [simp]:
  "severity_of o1 = Sev_broken \<longleftrightarrow> o1 \<in> {Some O_interrupted, Some O_failed, Some O_refused}"
  by (cases o1 rule: severity_of.cases) simp_all

lemma broken_has_default_reason: "is_broken o1 \<Longrightarrow> default_failure_reason o1 \<noteq> ''''"
  by (cases o1 rule: severity_of.cases) (simp_all add: is_broken_def)

lemma default_reason_silent:
  "default_failure_reason o1 = ''''
   \<longleftrightarrow> o1 \<in> {None, Some O_completed, Some O_running, Some O_empty, Some O_cancelled}"
  by (cases o1 rule: severity_of.cases) simp_all

end
