(* ===== verification/EntryIds.thy ===== *)
theory EntryIds
  imports Wire "HOL-Library.Sublist"
begin

text \<open>
  The entry-id formats that pair a settled value with what it settles (static-src/entry-ids.ts),
  and the stage-shaped tool-call ids of a subagent pipeline (static-src/subagent-slice.ts). The
  locale \<open>id_codec\<close> is what the pairing relies on: an id format whose inverse recovers the id.
\<close>

section \<open>Suffixes\<close>

definition ends_with :: "string \<Rightarrow> string \<Rightarrow> bool" where
  "ends_with s suf = (length suf \<le> length s \<and> drop (length s - length suf) s = suf)"

definition starts_with :: "string \<Rightarrow> string \<Rightarrow> bool" where
  "starts_with s pre = (take (length pre) s = pre)"

lemma ends_with_append [simp]: "ends_with (s @ suf) suf"
  by (simp add: ends_with_def)

lemma ends_with_split: "ends_with s suf \<longleftrightarrow> (\<exists>p. s = p @ suf)"
  unfolding ends_with_def by (metis append_take_drop_id diff_add_inverse2 drop_append
    length_append le_add2 diff_self_eq_0 drop0 drop_all append_Nil order_refl)

lemma starts_with_append [simp]: "starts_with (pre @ s) pre"
  by (simp add: starts_with_def)

lemma starts_with_split: "starts_with s pre \<longleftrightarrow> (\<exists>t. s = pre @ t)"
  unfolding starts_with_def by (metis append_take_drop_id append_eq_conv_conj)

definition result_suffix :: string where
  "result_suffix = '':result''"

definition ack_suffix :: string where
  "ack_suffix = '':ack''"

definition tool_result_id :: "string \<Rightarrow> string" where
  "tool_result_id call_id = call_id @ result_suffix"

definition call_id_of_tool_result :: "string \<Rightarrow> string option" where
  "call_id_of_tool_result entry_id =
     (if ends_with entry_id result_suffix
      then Some (take (length entry_id - length result_suffix) entry_id) else None)"

definition steer_ack_id :: "string \<Rightarrow> string" where
  "steer_ack_id steer_id = steer_id @ ack_suffix"

section \<open>The pairing as an interface\<close>

locale id_codec =
  fixes enc :: "'a \<Rightarrow> 'b"
    and dec :: "'b \<Rightarrow> 'a option"
  assumes dec_enc: "dec (enc x) = Some x"
    and dec_sound: "dec y = Some x \<Longrightarrow> enc x = y"
begin

lemma enc_inj: "enc x = enc y \<Longrightarrow> x = y"
  by (metis dec_enc option.inject)

lemma dec_iff: "dec y = Some x \<longleftrightarrow> y = enc x"
  by (metis dec_enc dec_sound)

lemma dec_None: "dec y = None \<longleftrightarrow> y \<notin> range enc"
  by (metis dec_iff not_Some_eq rangeE rangeI)

end

interpretation result_id: id_codec tool_result_id call_id_of_tool_result
proof
  show "call_id_of_tool_result (tool_result_id x) = Some x" for x
    by (simp add: call_id_of_tool_result_def tool_result_id_def)
  show "tool_result_id x = y" if "call_id_of_tool_result y = Some x" for x y
    using that by (auto simp: call_id_of_tool_result_def tool_result_id_def ends_with_split
      split: if_splits)
qed

lemmas call_id_simps = result_id.dec_enc result_id.dec_iff

section \<open>Stage-shaped tool-call ids\<close>

definition stage_prefix :: string where
  "stage_prefix = ''invoke_subagent_''"

definition stage_sep :: string where
  "stage_sep = ''_stage_''"

text \<open>\<open>indexOf\<close> of a substring.\<close>

fun index_of_sub :: "string \<Rightarrow> string \<Rightarrow> nat option" where
  "index_of_sub [] pat = (if pat = [] then Some 0 else None)"
| "index_of_sub (c # s) pat =
     (if starts_with (c # s) pat then Some 0 else map_option Suc (index_of_sub s pat))"

definition pipeline_of :: "string \<Rightarrow> string" where
  "pipeline_of tool_call_id =
     (if \<not> starts_with tool_call_id stage_prefix then ''''
      else let rest = drop (length stage_prefix) tool_call_id
           in case index_of_sub rest stage_sep of
                None \<Rightarrow> ''''
              | Some sep \<Rightarrow>
                  if sep = 0 \<or> sep + length stage_sep \<ge> length rest then ''''
                  else take sep rest)"

definition stage_name :: "string \<Rightarrow> string" where
  "stage_name tool_call_id =
     (if pipeline_of tool_call_id = '''' then ''''
      else let rest = drop (length stage_prefix) tool_call_id
           in case index_of_sub rest stage_sep of
                None \<Rightarrow> ''''
              | Some sep \<Rightarrow> drop (sep + length stage_sep) rest)"

lemma index_of_sub_Some:
  "index_of_sub s pat = Some i \<Longrightarrow> i + length pat \<le> length s \<and> s = take i s @ pat @ drop (i + length pat) s"
proof (induction s arbitrary: i)
  case (Cons c s)
  show ?case
  proof (cases "starts_with (c # s) pat")
    case True
    with Cons.prems have "i = 0" by simp
    moreover obtain t where t: "c # s = pat @ t" using True by (auto simp: starts_with_split)
    moreover have "length pat \<le> length (c # s)" unfolding t by simp
    ultimately show ?thesis by simp
  next
    case False
    with Cons.prems obtain k where "index_of_sub s pat = Some k" "i = Suc k" by auto
    with Cons.IH[OF this(1)] show ?thesis by simp
  qed
qed (auto split: if_splits)

lemma stage_id_rebuilt:
  assumes "pipeline_of id1 \<noteq> ''''"
  shows "id1 = stage_prefix @ pipeline_of id1 @ stage_sep @ stage_name id1"
    and "stage_name id1 \<noteq> ''''"
proof -
  from assms have pre: "starts_with id1 stage_prefix"
    by (auto simp: pipeline_of_def split: if_splits)
  then obtain rest where id1: "id1 = stage_prefix @ rest" by (auto simp: starts_with_split)
  then have rest: "drop (length stage_prefix) id1 = rest" by simp
  from assms pre rest obtain i where i: "index_of_sub rest stage_sep = Some i"
      "i \<noteq> 0" "i + length stage_sep < length rest"
    by (auto simp: pipeline_of_def Let_def split: option.splits if_splits)
  then have p: "pipeline_of id1 = take i rest"
    and n: "stage_name id1 = drop (i + length stage_sep) rest"
    using pre rest assms by (auto simp: pipeline_of_def stage_name_def Let_def)
  show "id1 = stage_prefix @ pipeline_of id1 @ stage_sep @ stage_name id1"
    using index_of_sub_Some[OF i(1)] id1 p n by simp
  show "stage_name id1 \<noteq> ''''" using n i(3) by simp
qed

end
