(* ===== verification/Turns.thy ===== *)
theory Turns
  imports TurnSeverity EntryIds
begin

text \<open>
  The turn projection (static-src/turns.ts): the store's state per turn read into the turns the
  transcript renders, the ledger a turn's footer shows, and the reads the fold and the rail share.
\<close>

section \<open>A turn's client state\<close>

text \<open>
  \<open>TurnState\<close> (static-src/types.ts): the sealed entries, the open entry of each lane, and the
  cached index of the \<open>turn_close\<close>.
\<close>

record turn_state =
  ts_entries :: "entry list"
  ts_open :: "(string \<times> open_entry) list"
  ts_close_at :: "int option"

fun turn_open_of_entries :: "entry list \<Rightarrow> turn_open option" where
  "turn_open_of_entries [] = None"
| "turn_open_of_entries (e # _) = payload_turn_open e"

definition turn_open_of :: "turn_state \<Rightarrow> turn_open option" where
  "turn_open_of t = turn_open_of_entries (ts_entries t)"

fun first_close :: "entry list \<Rightarrow> turn_close option" where
  "first_close [] = None"
| "first_close (e # es) =
     (case payload_turn_close e of Some c \<Rightarrow> Some c | None \<Rightarrow> first_close es)"

text \<open>The backward scan over a body.\<close>

definition close_of_body :: "entry list \<Rightarrow> turn_close option" where
  "close_of_body body = first_close (rev body)"

definition turn_close_of :: "turn_state \<Rightarrow> turn_close option" where
  "turn_close_of t =
     (case ts_close_at t of
        None \<Rightarrow> close_of_body (ts_entries t)
      | Some at1 \<Rightarrow>
          (case nth_opt (ts_entries t) at1 of
             Some e \<Rightarrow> payload_turn_close e
           | None \<Rightarrow> close_of_body (ts_entries t)))"

section \<open>Which turns are drawn\<close>

definition drawn_skip :: "entry_kind \<Rightarrow> bool" where
  "drawn_skip k = (k \<in> {K_turn_bind, K_tool_result, K_turn_close, K_reconciled})"

text \<open>The loop over the entries after the \<open>turn_open\<close>, with its plan counter.\<close>

fun drawn_scan :: "nat \<Rightarrow> entry list \<Rightarrow> bool" where
  "drawn_scan plans [] = False"
| "drawn_scan plans (e # es) =
     (if lane_of e \<noteq> '''' then drawn_scan plans es
      else if drawn_skip (entry_kind_of e) then drawn_scan plans es
      else if entry_kind_of e = K_plan \<and> Suc plans > 1 then drawn_scan (Suc plans) es
      else True)"

definition turn_is_drawn :: "turn_state \<Rightarrow> bool" where
  "turn_is_drawn t =
     (case turn_open_of t of
        None \<Rightarrow> False
      | Some op \<Rightarrow>
          if to_source op \<in> {Src_prompt, Src_local_shell, Src_empty_retry} then True
          else if map_of (ts_open t) '''' \<noteq> None then True
          else drawn_scan 0 (drop 1 (ts_entries t)))"

section \<open>The projection\<close>

record turn_source =
  src_turns :: "(string \<times> turn_state) list"
  src_order :: "string list"

record turn =
  t_id :: string
  t_n :: int
  t_trigger :: "prompt option"
  t_body :: "entry list"
  t_open_entries :: "(string \<times> open_entry) list"
  t_ts :: int
  t_outcome :: turn_outcome
  t_rewind_to :: "prompt option"

definition turn_of :: "string \<Rightarrow> turn_state \<Rightarrow> turn_open \<Rightarrow> prompt option \<Rightarrow> turn" where
  "turn_of id1 st op rewind =
     (let body = drop 1 (ts_entries st)
      in \<lparr>t_id = id1, t_n = to_n op, t_trigger = to_prompt op, t_body = body,
          t_open_entries = ts_open st,
          t_ts = (case ts_entries st of [] \<Rightarrow> 0 | e # _ \<Rightarrow> e_ts e),
          t_outcome = (case close_of_body body of None \<Rightarrow> O_running | Some c \<Rightarrow> cl_outcome c),
          t_rewind_to = rewind\<rparr>)"

text \<open>The first pass: the drawn turns in file order, each with no rewind target yet.\<close>

fun drawn_turns :: "(string \<times> turn_state) list \<Rightarrow> string list \<Rightarrow> turn list" where
  "drawn_turns m [] = []"
| "drawn_turns m (id1 # ids) =
     (case map_of m id1 of
        None \<Rightarrow> drawn_turns m ids
      | Some st \<Rightarrow>
          (case turn_open_of st of
             None \<Rightarrow> drawn_turns m ids
           | Some op \<Rightarrow>
               if \<not> turn_is_drawn st then drawn_turns m ids
               else turn_of id1 st op None # drawn_turns m ids))"

text \<open>The second pass: each turn's rewind target is the next turn's trigger.\<close>

fun link_rewinds :: "turn list \<Rightarrow> turn list" where
  "link_rewinds [] = []"
| "link_rewinds (t # ts) =
     t\<lparr>t_rewind_to := (case ts of [] \<Rightarrow> None | u # _ \<Rightarrow> t_trigger u)\<rparr> # link_rewinds ts"

definition project_turns :: "turn_source \<Rightarrow> turn list" where
  "project_turns src = link_rewinds (drawn_turns (src_turns src) (src_order src))"

text \<open>The trigger of the first drawn turn after a position: \<open>nextTrigger\<close>.\<close>

fun next_trigger :: "(string \<times> turn_state) list \<Rightarrow> string list \<Rightarrow> prompt option" where
  "next_trigger m [] = None"
| "next_trigger m (id1 # ids) =
     (case map_of m id1 of
        None \<Rightarrow> next_trigger m ids
      | Some st \<Rightarrow>
          if \<not> turn_is_drawn st then next_trigger m ids
          else (case turn_open_of st of None \<Rightarrow> None | Some op \<Rightarrow> to_prompt op))"

definition project_turn :: "turn_source \<Rightarrow> string \<Rightarrow> turn option" where
  "project_turn src turn_id =
     (case index_of turn_id (src_order src) of
        None \<Rightarrow> None
      | Some at1 \<Rightarrow>
          (case map_of (src_turns src) turn_id of
             None \<Rightarrow> None
           | Some st \<Rightarrow>
               (case turn_open_of st of
                  None \<Rightarrow> None
                | Some op \<Rightarrow>
                    if \<not> turn_is_drawn st then None
                    else Some (turn_of turn_id st op
                           (next_trigger (src_turns src) (drop (Suc at1) (src_order src)))))))"

section \<open>The ledger\<close>

record turn_ledger =
  led_credits :: rat
  led_elapsed_ms :: int
  led_changed_files :: "(string \<times> file_change) list"
  led_models :: "string list"
  led_tool_ms :: int
  led_kind_counts :: "(tool_kind \<times> nat) list"
  led_delegate_count :: nat
  led_delegate_ms :: int
  led_started_at :: int
  led_ended_at :: int
  led_stop_reason_raw :: string
  led_truncated :: bool

definition command_kinds :: "tool_kind set" where
  "command_kinds = {TK_execute, TK_shell, TK_command}"

definition note_model :: "string \<Rightarrow> turn_ledger \<Rightarrow> turn_ledger" where
  "note_model m led =
     (if m \<noteq> '''' \<and> m \<notin> set (led_models led)
      then led\<lparr>led_models := led_models led @ [m]\<rparr> else led)"

definition count_call :: "tool_call \<Rightarrow> turn_ledger \<Rightarrow> turn_ledger" where
  "count_call call led =
     led\<lparr>led_kind_counts :=
           AList.update (tc_kind call)
             (nullish (map_of (led_kind_counts led) (tc_kind call)) 0 + 1) (led_kind_counts led),
         led_delegate_count :=
           (if nullish (tc_agent_subtask_id call) '''' \<noteq> ''''
            then led_delegate_count led + 1 else led_delegate_count led)\<rparr>"

definition count_result ::
    "string \<Rightarrow> tool_result \<Rightarrow> string list \<Rightarrow> turn_ledger \<Rightarrow> turn_ledger" where
  "count_result entry_id result delegate_calls led =
     (let ms = nullish (tr_duration_ms result) 0;
          led' = led\<lparr>led_tool_ms := led_tool_ms led + ms\<rparr>
      in case call_id_of_tool_result entry_id of
           Some call_id \<Rightarrow>
             if call_id \<in> set delegate_calls
             then led'\<lparr>led_delegate_ms := led_delegate_ms led' + ms\<rparr> else led'
         | None \<Rightarrow> led')"

text \<open>One turn of the ledger's loop; the pair carries the delegate calls seen so far.\<close>

definition ledger_step ::
    "turn_ledger \<times> string list \<Rightarrow> entry \<Rightarrow> turn_ledger \<times> string list" where
  "ledger_step acc e =
     (case acc of (led, delegate_calls) \<Rightarrow>
        (case payload_tool_call e of
           Some call \<Rightarrow>
             (count_call call led,
              if nullish (tc_agent_subtask_id call) '''' \<noteq> ''''
              then tc_id call # delegate_calls else delegate_calls)
         | None \<Rightarrow>
             (case payload_tool_result e of
                Some result \<Rightarrow> (count_result (e_id e) result delegate_calls led, delegate_calls)
              | None \<Rightarrow>
                  (case payload_model_switched e of
                     Some sw \<Rightarrow> (note_model (ms_to sw) (note_model (ms_from sw) led), delegate_calls)
                   | None \<Rightarrow> (led, delegate_calls)))))"

definition ledger_init :: "turn \<Rightarrow> turn_ledger" where
  "ledger_init t =
     (let close = close_of_body (t_body t)
      in \<lparr>led_credits = (case close of None \<Rightarrow> 0 | Some c \<Rightarrow> nullish (cl_credits c) 0),
          led_elapsed_ms = (case close of None \<Rightarrow> 0 | Some c \<Rightarrow> nullish (cl_elapsed_ms c) 0),
          led_changed_files =
            (case close of None \<Rightarrow> [] | Some c \<Rightarrow> nullish (cl_changed_files c) []),
          led_models = [], led_tool_ms = 0, led_kind_counts = [], led_delegate_count = 0,
          led_delegate_ms = 0, led_started_at = t_ts t,
          led_ended_at = (if t_body t = [] then 0 else e_ts (last (t_body t))),
          led_stop_reason_raw =
            (case close of None \<Rightarrow> '''' | Some c \<Rightarrow> nullish (cl_stop_reason_raw c) ''''),
          led_truncated =
            (case close of None \<Rightarrow> False | Some c \<Rightarrow> nullish (cl_truncated c) False)\<rparr>)"

definition turn_ledger_of :: "turn \<Rightarrow> turn_ledger" where
  "turn_ledger_of t =
     note_model
       (case close_of_body (t_body t) of None \<Rightarrow> '''' | Some c \<Rightarrow> nullish (cl_model c) '''')
       (fst (foldl ledger_step (ledger_init t, []) (t_body t)))"

section \<open>Reads the renderer and the rail share\<close>

definition fold_hiding_kind :: "entry_kind \<Rightarrow> bool" where
  "fold_hiding_kind k =
     (k \<in> {K_tool_call, K_thinking, K_plan, K_compaction, K_compaction_failed, K_safety_blocked,
           K_model_switched, K_mode_switched})"

fun fold_scan :: "nat \<Rightarrow> entry list \<Rightarrow> bool" where
  "fold_scan texts [] = (texts > 1)"
| "fold_scan texts (e # es) =
     (if lane_of e \<noteq> '''' then True
      else if fold_hiding_kind (entry_kind_of e) then True
      else if entry_kind_of e = K_text \<and> js_trim (nullish (payload_text e) '''') \<noteq> ''''
      then fold_scan (Suc texts) es
      else fold_scan texts es)"

definition turn_fold_hides :: "turn \<Rightarrow> bool" where
  "turn_fold_hides t = fold_scan 0 (t_body t)"

fun face_scan :: "entry list \<Rightarrow> string" where
  "face_scan [] = ''''"
| "face_scan (e # es) =
     (if lane_of e \<noteq> '''' then face_scan es
      else let txt = js_trim (nullish (payload_text e) '''')
           in if txt \<noteq> '''' then txt else face_scan es)"

definition turn_face_prose :: "turn \<Rightarrow> string" where
  "turn_face_prose t = face_scan (rev (t_body t))"

definition turn_failure_text :: "turn \<Rightarrow> string" where
  "turn_failure_text t =
     (let sev = severity_of (Some (t_outcome t))
      in if sev = Sev_clean \<or> sev = Sev_running then ''''
         else if t_outcome t = O_cancelled then ''''
         else let reason = js_trim
                    (case close_of_body (t_body t) of
                       None \<Rightarrow> '''' | Some c \<Rightarrow> nullish (cl_failure_reason c) '''')
              in if reason \<noteq> '''' then reason
                 else default_failure_reason (Some (t_outcome t)))"

end
