(* ===== verification/TurnFacts.thy ===== *)
theory TurnFacts
  imports Turns
begin

text \<open>
  What the turn projection guarantees: the keyed read of one turn agrees with the whole pass, the
  ledger counts each call and each settled duration once, and a turn that offers no fold loses
  nothing when it is folded.
\<close>

section \<open>The keyed read and the whole pass\<close>

lemma turn_is_drawn_open: "turn_is_drawn st \<Longrightarrow> \<exists>op. turn_open_of st = Some op"
  by (auto simp: turn_is_drawn_def split: option.splits)

lemma turn_of_fields [simp]:
  "t_id (turn_of id1 st op r) = id1"
  "t_trigger (turn_of id1 st op r) = to_prompt op"
  "t_n (turn_of id1 st op r) = to_n op"
  "(turn_of id1 st op r)\<lparr>t_rewind_to := r'\<rparr> = turn_of id1 st op r'"
  by (simp_all add: turn_of_def Let_def)

lemma next_trigger_drawn:
  "next_trigger m ids = (case drawn_turns m ids of [] \<Rightarrow> None | u # _ \<Rightarrow> t_trigger u)"
  by (induction ids) (auto split: option.splits dest: turn_is_drawn_open)

lemma link_rewinds_ids [simp]: "map t_id (link_rewinds ts) = map t_id ts"
  by (induction ts) auto

lemma drawn_turns_ids: "set (map t_id (drawn_turns m ids)) \<subseteq> set ids"
  by (induction ids) (auto split: option.splits)

lemma find_absent: "x \<notin> set (map t_id ts) \<Longrightarrow> List.find (\<lambda>t. t_id t = x) ts = None"
  by (induction ts) auto

lemma link_rewinds_absent:
  assumes "x \<notin> set ids"
  shows "List.find (\<lambda>t. t_id t = x) (link_rewinds (drawn_turns m ids)) = None"
  using assms drawn_turns_ids[of m ids] by (intro find_absent) auto

definition keyed_read ::
    "(string \<times> turn_state) list \<Rightarrow> string list \<Rightarrow> string \<Rightarrow> turn option" where
  "keyed_read m ids x =
     (case index_of x ids of
        None \<Rightarrow> None
      | Some at1 \<Rightarrow>
          (case map_of m x of
             None \<Rightarrow> None
           | Some st \<Rightarrow>
               (case turn_open_of st of
                  None \<Rightarrow> None
                | Some op \<Rightarrow>
                    if \<not> turn_is_drawn st then None
                    else Some (turn_of x st op (next_trigger m (drop (Suc at1) ids))))))"

lemma keyed_read_Cons_other:
  "x \<noteq> y \<Longrightarrow> keyed_read m (y # ids) x = keyed_read m ids x"
  by (auto simp: keyed_read_def index_of_def split: option.splits)

lemma keyed_read_pass:
  "distinct ids \<Longrightarrow>
   keyed_read m ids x = List.find (\<lambda>t. t_id t = x) (link_rewinds (drawn_turns m ids))"
proof (induction ids)
  case Nil
  then show ?case by (simp add: keyed_read_def)
next
  case (Cons y ids)
  show ?case
  proof (cases "x = y")
    case True
    with Cons.prems have none:
      "List.find (\<lambda>t. t_id t = y) (link_rewinds (drawn_turns m ids)) = None"
      by (intro link_rewinds_absent) auto
    have at0: "index_of y (y # ids) = Some 0" by (simp add: index_of_def)
    show ?thesis
      unfolding True keyed_read_def at0
      by (auto simp: none next_trigger_drawn split: option.splits dest: turn_is_drawn_open)
  next
    case False
    with Cons show ?thesis
      by (auto simp: keyed_read_Cons_other split: option.splits)
  qed
qed

lemma project_turn_keyed: "project_turn src x = keyed_read (src_turns src) (src_order src) x"
  by (simp add: project_turn_def keyed_read_def)

section \<open>The ledger\<close>

definition calls_of_kind :: "tool_kind \<Rightarrow> entry list \<Rightarrow> entry list" where
  "calls_of_kind k es =
     filter (\<lambda>e. case payload_tool_call e of Some c \<Rightarrow> tc_kind c = k | None \<Rightarrow> False) es"

definition settled_ms :: "entry \<Rightarrow> int" where
  "settled_ms e =
     (case payload_tool_result e of None \<Rightarrow> 0 | Some r \<Rightarrow> nullish (tr_duration_ms r) 0)"

definition opens_delegate :: "entry \<Rightarrow> bool" where
  "opens_delegate e =
     (case payload_tool_call e of
        None \<Rightarrow> False | Some c \<Rightarrow> nullish (tc_agent_subtask_id c) '''' \<noteq> '''')"

lemma note_model_fields [simp]:
  "led_kind_counts (note_model m led) = led_kind_counts led"
  "led_tool_ms (note_model m led) = led_tool_ms led"
  "led_delegate_count (note_model m led) = led_delegate_count led"
  "led_delegate_ms (note_model m led) = led_delegate_ms led"
  "distinct (led_models led) \<Longrightarrow> distinct (led_models (note_model m led))"
  by (simp_all add: note_model_def)

lemma count_result_fields [simp]:
  "led_kind_counts (count_result i r d led) = led_kind_counts led"
  "led_tool_ms (count_result i r d led) = led_tool_ms led + nullish (tr_duration_ms r) 0"
  "led_delegate_count (count_result i r d led) = led_delegate_count led"
  "led_models (count_result i r d led) = led_models led"
  by (simp_all add: count_result_def Let_def split: option.splits)

lemma call_and_result_exclusive:
  "payload_tool_call e = Some c \<Longrightarrow> payload_tool_result e = None"
  by (auto simp: payload_readers split: payload.splits)

lemma ledger_fold_kind:
  "nullish (map_of (led_kind_counts (fst (foldl ledger_step (led, d) es))) k) 0
   = nullish (map_of (led_kind_counts led) k) 0 + length (calls_of_kind k es)"
proof (induction es arbitrary: led d)
  case (Cons e es)
  have step: "nullish (map_of (led_kind_counts (fst (ledger_step (led, d) e))) k) 0
      = nullish (map_of (led_kind_counts led) k) 0 + length (calls_of_kind k [e])"
    by (auto simp: ledger_step_def count_call_def calls_of_kind_def map_of_update
        split: option.splits)
  obtain led' d' where s: "ledger_step (led, d) e = (led', d')" by fastforce
  show ?case using step Cons.IH[of led' d'] by (simp add: s calls_of_kind_def)
qed (simp add: calls_of_kind_def)

lemma ledger_fold_ms:
  "led_tool_ms (fst (foldl ledger_step (led, d) es)) = led_tool_ms led + sum_list (map settled_ms es)"
proof (induction es arbitrary: led d)
  case (Cons e es)
  have step: "led_tool_ms (fst (ledger_step (led, d) e)) = led_tool_ms led + settled_ms e"
    by (auto simp: ledger_step_def count_call_def settled_ms_def call_and_result_exclusive
        split: option.splits)
  obtain led' d' where s: "ledger_step (led, d) e = (led', d')" by fastforce
  show ?case using step Cons.IH[of led' d'] by (simp add: s)
qed simp

lemma ledger_fold_delegates:
  "led_delegate_count (fst (foldl ledger_step (led, d) es))
   = led_delegate_count led + length (filter opens_delegate es)"
proof (induction es arbitrary: led d)
  case (Cons e es)
  have step: "led_delegate_count (fst (ledger_step (led, d) e))
      = led_delegate_count led + (if opens_delegate e then 1 else 0)"
    by (auto simp: ledger_step_def count_call_def opens_delegate_def split: option.splits)
  obtain led' d' where s: "ledger_step (led, d) e = (led', d')" by fastforce
  show ?case using step Cons.IH[of led' d'] by (simp add: s)
qed simp

lemma ledger_fold_models:
  "distinct (led_models led) \<Longrightarrow> distinct (led_models (fst (foldl ledger_step (led, d) es)))"
proof (induction es arbitrary: led d)
  case (Cons e es)
  have step: "distinct (led_models (fst (ledger_step (led, d) e)))"
    using Cons.prems by (auto simp: ledger_step_def count_call_def split: option.splits)
  obtain led' d' where s: "ledger_step (led, d) e = (led', d')" by fastforce
  show ?case using step Cons.IH[of led' d'] by (simp add: s)
qed simp

lemma ledger_init_fields [simp]:
  "led_models (ledger_init t) = []" "led_tool_ms (ledger_init t) = 0"
  "led_kind_counts (ledger_init t) = []" "led_delegate_count (ledger_init t) = 0"
  by (simp_all add: ledger_init_def Let_def)

lemmas ledger_folds = ledger_fold_kind ledger_fold_ms ledger_fold_delegates ledger_fold_models

section \<open>The fold and the face\<close>

definition nonblank_text :: "entry \<Rightarrow> bool" where
  "nonblank_text e = (js_trim (nullish (payload_text e) '''') \<noteq> '''')"

lemma nonblank_iff:
  "entry_kind_of e = K_text \<and> js_trim (nullish (payload_text e) '''') \<noteq> '''' \<longleftrightarrow> nonblank_text e"
  by (cases "e_payload e") (auto simp: nonblank_text_def payload_readers entry_kind_of_def)

lemma fold_scan_Cons:
  "fold_scan n (e # es) =
     (if lane_of e \<noteq> '''' then True
      else if fold_hiding_kind (entry_kind_of e) then True
      else if nonblank_text e then fold_scan (Suc n) es else fold_scan n es)"
  unfolding fold_scan.simps nonblank_iff ..

lemma fold_scan_False:
  "\<not> fold_scan n es \<Longrightarrow>
   (\<forall>e\<in>set es. lane_of e = '''' \<and> \<not> fold_hiding_kind (entry_kind_of e))
   \<and> n + length (filter nonblank_text es) \<le> 1"
proof (induction es arbitrary: n)
  case (Cons e es)
  from Cons.prems have "lane_of e = ''''" "\<not> fold_hiding_kind (entry_kind_of e)"
    and "\<not> fold_scan (if nonblank_text e then Suc n else n) es"
    unfolding fold_scan_Cons by (auto split: if_splits)
  with Cons.IH[of "if nonblank_text e then Suc n else n"] show ?case by auto
qed simp

lemma face_scan_first:
  "\<forall>e\<in>set es. lane_of e = '''' \<Longrightarrow>
   face_scan es = (case filter nonblank_text es of
     [] \<Rightarrow> '''' | e # _ \<Rightarrow> js_trim (nullish (payload_text e) ''''))"
  by (induction es) (auto simp: nonblank_text_def Let_def)

lemma filter_singleton:
  assumes "length (filter P xs) \<le> 1" and "x \<in> set xs" and "P x"
  shows "filter P xs = [x]"
proof -
  from assms have "x \<in> set (filter P xs)" by simp
  with assms(1) show ?thesis by (cases "filter P xs") auto
qed

text \<open>A turn for the witnesses: a prompt, one prose entry, a clean close.\<close>

definition sample_entry :: "string \<Rightarrow> int \<Rightarrow> payload \<Rightarrow> entry" where
  "sample_entry i n p = \<lparr>e_id = i, e_turn = ''t1'', e_lane = None, e_payload = p, e_seq = n, e_ts = n\<rparr>"

definition sample_turn_state :: turn_state where
  "sample_turn_state =
     \<lparr>ts_entries = [sample_entry ''a'' 0 (P_turn_open \<lparr>to_prompt = None, to_source = Src_prompt,
                      to_run = None, to_node_path = None, to_session_id = None, to_n = 1\<rparr>),
                    sample_entry ''b'' 1 (P_text ''Done'')],
      ts_open = [], ts_close_at = None\<rparr>"

definition sample_source :: turn_source where
  "sample_source = \<lparr>src_turns = [(''t1'', sample_turn_state)], src_order = [''t1'']\<rparr>"

section \<open>Properties\<close>

text \<open>
  C14. Reading one turn by its id gives exactly the turn the whole projection holds under that id,
  its rewind target included: the keyed pass a per-frame tool update takes and the full pass a
  repaint takes cannot disagree.
\<close>

theorem project_turn_is_projection:
  assumes "distinct (src_order src)"
  shows "project_turn src x = List.find (\<lambda>t. t_id t = x) (project_turns src)"
  unfolding project_turn_keyed project_turns_def using assms by (rule keyed_read_pass)

theorem project_turn_is_projection_witness:
  "project_turn sample_source ''t1'' = List.find (\<lambda>t. t_id t = ''t1'') (project_turns sample_source)"
  by (rule project_turn_is_projection) (simp add: sample_source_def)

text \<open>
  The ledger counts each tool call once under its own kind, adds each settled duration once,
  counts one delegate per call that opens one, and names each model once.
\<close>

theorem turn_ledger_counts:
  shows "nullish (map_of (led_kind_counts (turn_ledger_of t)) k) 0
           = length (calls_of_kind k (t_body t))
       \<and> led_tool_ms (turn_ledger_of t) = sum_list (map settled_ms (t_body t))
       \<and> led_delegate_count (turn_ledger_of t) = length (filter opens_delegate (t_body t))
       \<and> distinct (led_models (turn_ledger_of t))"
  by (simp add: turn_ledger_of_def ledger_folds)

text \<open>
  A turn that offers no fold loses nothing by one: every entry of its body is the agent's own
  and of a kind the face keeps, and its only prose, if it has any, is the prose the face shows.
\<close>

theorem no_fold_hides_nothing:
  assumes "\<not> turn_fold_hides t" and "e \<in> set (t_body t)"
  shows "lane_of e = '''' \<and> \<not> fold_hiding_kind (entry_kind_of e)
         \<and> (nonblank_text e \<longrightarrow> turn_face_prose t = js_trim (nullish (payload_text e) ''''))"
proof -
  from fold_scan_False[of 0 "t_body t"] assms(1) have
    all: "\<forall>e\<in>set (t_body t). lane_of e = '''' \<and> \<not> fold_hiding_kind (entry_kind_of e)"
    and one: "length (filter nonblank_text (rev (t_body t))) \<le> 1"
    by (auto simp: turn_fold_hides_def rev_filter[symmetric])
  have "turn_face_prose t = js_trim (nullish (payload_text e) '''')" if "nonblank_text e"
    using face_scan_first[of "rev (t_body t)"] all assms(2)
      filter_singleton[OF one, of e] that
    by (simp add: turn_face_prose_def)
  with all assms(2) show ?thesis by blast
qed

theorem no_fold_hides_nothing_witness:
  "turn_face_prose (turn_of ''t1'' sample_turn_state
     \<lparr>to_prompt = None, to_source = Src_prompt, to_run = None, to_node_path = None,
      to_session_id = None, to_n = 1\<rparr> None) = js_trim ''Done''"
  using no_fold_hides_nothing[of "turn_of ''t1'' sample_turn_state
     \<lparr>to_prompt = None, to_source = Src_prompt, to_run = None, to_node_path = None,
      to_session_id = None, to_n = 1\<rparr> None" "sample_entry ''b'' 1 (P_text ''Done'')"]
  by (simp add: turn_fold_hides_def turn_of_def sample_turn_state_def sample_entry_def lane_of_def
      entry_kind_of_def fold_hiding_kind_def nonblank_text_def payload_text_def Let_def
      js_trim_Cons_nospace js_space_def)

end
