(* ===== verification/RenderCause.thy ===== *)
theory RenderCause
  imports Prelude
begin

text \<open>
  Why a chat's transcript version moved (static-src/store.ts, the messages-reactivity block): the
  cause lattice, the per-chat accumulator, the synchronous bump and the bump parked on a
  microtask. A microtask is a frame of its own here, because nothing orders it against the frames
  of the same tick.
\<close>

datatype render_cause = Chunk | Tool | Fact | Shape | Load

fun cause_rank :: "render_cause \<Rightarrow> nat" where
  "cause_rank Chunk = 0"
| "cause_rank Tool = 1"
| "cause_rank Fact = 2"
| "cause_rank Shape = 3"
| "cause_rank Load = 4"

lemma cause_rank_inj: "cause_rank a = cause_rank b \<Longrightarrow> a = b"
  by (cases a; cases b; simp)

instantiation render_cause :: linorder
begin

definition less_eq_render_cause :: "render_cause \<Rightarrow> render_cause \<Rightarrow> bool" where
  "less_eq_render_cause a b \<longleftrightarrow> cause_rank a \<le> cause_rank b"

definition less_render_cause :: "render_cause \<Rightarrow> render_cause \<Rightarrow> bool" where
  "less_render_cause a b \<longleftrightarrow> cause_rank a < cause_rank b"

instance
  by standard (auto simp: less_eq_render_cause_def less_render_cause_def dest: cause_rank_inj)

end

type_synonym pending = "render_cause \<times> string option"

section \<open>The accumulator\<close>

text \<open>\<open>mergeCause\<close> on one chat's slot.\<close>

definition merge_cause :: "pending option \<Rightarrow> render_cause \<Rightarrow> string option \<Rightarrow> pending" where
  "merge_cause cur cause turn_id =
     (case cur of
        None \<Rightarrow> (cause, turn_id)
      | Some (c, t) \<Rightarrow>
          if cause = Tool \<and> c = Tool then (if t \<noteq> turn_id then (Shape, None) else (c, t))
          else if cause_rank cause > cause_rank c then (cause, turn_id)
          else (c, t))"

record cause_state =
  cs_pending :: "(string \<times> pending) list"
  cs_flushed :: "(string \<times> pending) list"
  cs_versions :: "(string \<times> int) list"
  cs_scheduled :: "string list"

definition merge_at :: "cause_state \<Rightarrow> string \<Rightarrow> render_cause \<Rightarrow> string option \<Rightarrow> cause_state" where
  "merge_at st chat cause turn_id =
     st\<lparr>cs_pending := AList.update chat
           (merge_cause (map_of (cs_pending st) chat) cause turn_id) (cs_pending st)\<rparr>"

definition messages_version_of :: "cause_state \<Rightarrow> string \<Rightarrow> int" where
  "messages_version_of st chat = nullish (map_of (cs_versions st) chat) 0"

definition render_cause_of :: "cause_state \<Rightarrow> string \<Rightarrow> pending" where
  "render_cause_of st chat = nullish (map_of (cs_flushed st) chat) (Shape, None)"

definition flush_cause :: "cause_state \<Rightarrow> string \<Rightarrow> cause_state" where
  "flush_cause st chat =
     (case map_of (cs_pending st) chat of
        None \<Rightarrow> st
      | Some merged \<Rightarrow>
          st\<lparr>cs_pending := AList.delete chat (cs_pending st),
             cs_scheduled := removeAll chat (cs_scheduled st),
             cs_flushed := AList.update chat merged (cs_flushed st),
             cs_versions := AList.update chat (messages_version_of st chat + 1) (cs_versions st)\<rparr>)"

definition bump_messages :: "cause_state \<Rightarrow> string \<Rightarrow> render_cause \<Rightarrow> cause_state" where
  "bump_messages st chat cause = flush_cause (merge_at st chat cause None) chat"

definition schedule_messages ::
    "cause_state \<Rightarrow> string \<Rightarrow> render_cause \<Rightarrow> string option \<Rightarrow> cause_state" where
  "schedule_messages st chat cause turn_id =
     (let st' = merge_at st chat cause turn_id
      in if chat \<in> set (cs_scheduled st') then st'
         else st'\<lparr>cs_scheduled := cs_scheduled st' @ [chat]\<rparr>)"

text \<open>The queued callback: it flushes only a chat still marked, and unmarks it first.\<close>

definition run_microtask :: "cause_state \<Rightarrow> string \<Rightarrow> cause_state" where
  "run_microtask st chat =
     (if chat \<in> set (cs_scheduled st)
      then flush_cause (st\<lparr>cs_scheduled := removeAll chat (cs_scheduled st)\<rparr>) chat
      else st)"

text \<open>What removing or evicting a chat drops.\<close>

definition forget_causes :: "cause_state \<Rightarrow> string \<Rightarrow> cause_state" where
  "forget_causes st chat =
     st\<lparr>cs_scheduled := removeAll chat (cs_scheduled st),
        cs_pending := AList.delete chat (cs_pending st),
        cs_flushed := AList.delete chat (cs_flushed st),
        cs_versions := AList.delete chat (cs_versions st)\<rparr>"

text \<open>The cause an entry's arrival earns, from its lane alone.\<close>

definition entry_cause :: "string option \<Rightarrow> render_cause" where
  "entry_cause lane = (if nullish lane '''' = '''' then Shape else Chunk)"

section \<open>Merging is an upper bound\<close>

definition covers :: "pending \<Rightarrow> pending \<Rightarrow> bool" where
  "covers p q = (fst q < fst p \<or> (fst q = fst p \<and> (fst q = Tool \<longrightarrow> snd q = snd p)))"

lemmas cause_order = less_eq_render_cause_def less_render_cause_def

lemma covers_refl [simp]: "covers p p"
  by (simp add: covers_def)

lemma covers_trans: "covers p q \<Longrightarrow> covers q r \<Longrightarrow> covers p r"
  by (auto simp: covers_def)

lemma merge_covers_new: "covers (merge_cause cur c t) (c, t)"
  by (cases cur; cases c; cases "fst (the cur)")
     (auto simp: merge_cause_def covers_def cause_order split: if_splits)

lemma merge_covers_old: "covers (merge_cause (Some p) c t) p"
  by (cases p; cases "fst p"; cases c) (auto simp: merge_cause_def covers_def cause_order)

definition merge_all :: "pending option \<Rightarrow> pending list \<Rightarrow> pending option" where
  "merge_all cur qs = foldl (\<lambda>a (c, t). Some (merge_cause a c t)) cur qs"

lemma merge_all_covers:
  "merge_all cur qs = Some p \<Longrightarrow>
   (\<forall>q\<in>set qs. covers p q) \<and> (\<forall>r. cur = Some r \<longrightarrow> covers p r)"
proof (induction qs arbitrary: cur)
  case (Cons q qs)
  obtain c t where q: "q = (c, t)" by fastforce
  from Cons.prems have "merge_all (Some (merge_cause cur c t)) qs = Some p"
    by (simp add: merge_all_def q)
  from Cons.IH[OF this] have
    rest: "\<forall>q\<in>set qs. covers p q" and here: "covers p (merge_cause cur c t)" by auto
  from covers_trans[OF here] merge_covers_new merge_covers_old rest
  show ?case by (auto simp: q)
qed (auto simp: merge_all_def)

section \<open>No repaint is lost\<close>

datatype cause_frame =
    F_bump string render_cause
  | F_schedule string render_cause "string option"
  | F_microtask string
  | F_forget string

fun cause_step :: "cause_state \<Rightarrow> cause_frame \<Rightarrow> cause_state" where
  "cause_step st (F_bump chat c) = bump_messages st chat c"
| "cause_step st (F_schedule chat c t) = schedule_messages st chat c t"
| "cause_step st (F_microtask chat) = run_microtask st chat"
| "cause_step st (F_forget chat) = forget_causes st chat"

definition no_lost_repaint :: "cause_state \<Rightarrow> bool" where
  "no_lost_repaint st =
     (\<forall>chat. chat \<in> set (cs_scheduled st) \<longleftrightarrow> map_of (cs_pending st) chat \<noteq> None)"

definition cause_init :: cause_state where
  "cause_init = \<lparr>cs_pending = [], cs_flushed = [], cs_versions = [], cs_scheduled = []\<rparr>"

lemma flush_pending [lookup_simps]:
  "map_of (cs_pending (flush_cause st chat)) c =
     (if c = chat then None else map_of (cs_pending st) c)"
  by (auto simp: flush_cause_def map_of_delete_if split: option.splits)

lemma flush_scheduled:
  "map_of (cs_pending st) chat \<noteq> None \<Longrightarrow>
   cs_scheduled (flush_cause st chat) = removeAll chat (cs_scheduled st)"
  by (auto simp: flush_cause_def)

lemma merge_at_fields [simp]:
  "cs_scheduled (merge_at st chat c t) = cs_scheduled st"
  "cs_flushed (merge_at st chat c t) = cs_flushed st"
  "cs_versions (merge_at st chat c t) = cs_versions st"
  "map_of (cs_pending (merge_at st chat c t)) d =
     (if d = chat then Some (merge_cause (map_of (cs_pending st) chat) c t)
      else map_of (cs_pending st) d)"
  by (simp_all add: merge_at_def map_of_update)

interpretation causes: frame_machine cause_step "\<lambda>_. True" no_lost_repaint
proof
  fix st f assume "no_lost_repaint st"
  then show "no_lost_repaint (cause_step st f)"
    by (cases f)
       (auto simp: no_lost_repaint_def bump_messages_def schedule_messages_def run_microtask_def
          forget_causes_def flush_scheduled lookup_simps Let_def)
qed

lemma no_lost_repaint_init: "no_lost_repaint cause_init"
  by (simp add: no_lost_repaint_def cause_init_def)

section \<open>Properties\<close>

text \<open>
  The pass a chat is repainted with covers every cause that was merged into it since the last
  flush: nothing that earned a wider pass is painted by a narrower one, and a keyed tool pass
  survives only where every tool update named that one turn.
\<close>

theorem flushed_cause_covers_all:
  assumes "merge_all None qs = Some p" and "q \<in> set qs"
  shows "covers p q"
  using merge_all_covers[OF assms(1)] assms(2) by blast

theorem flushed_cause_covers_all_witness:
  "merge_all None [(Chunk, None), (Tool, Some ''t1''), (Tool, Some ''t2'')] = Some (Shape, None)
   \<and> covers (Shape, None) (Tool, Some ''t1'')"
proof -
  have h: "merge_all None [(Chunk, None), (Tool, Some ''t1''), (Tool, Some ''t2'')]
      = Some (Shape, None)"
    by (simp add: merge_all_def merge_cause_def)
  show ?thesis using h flushed_cause_covers_all[OF h, of "(Tool, Some ''t1'')"] by simp
qed

text \<open>
  C15. After any interleaving of bumps, parked bumps, microtasks and chat removals, a chat has a
  cause waiting exactly when a flush is parked for it: no repaint is lost, and no parked flush
  can mint a version for a chat that went away.
\<close>

theorem repaint_never_lost:
  "chat \<in> set (cs_scheduled (foldl cause_step cause_init fs))
   \<longleftrightarrow> map_of (cs_pending (foldl cause_step cause_init fs)) chat \<noteq> None"
  using causes.run_inv[OF no_lost_repaint_init, of fs]
  by (auto simp: no_lost_repaint_def list_all_iff)

end
