(* ===== verification/ToolCalls.thy ===== *)
theory ToolCalls
  imports Turns RenderCause
begin

text \<open>
  Tool-call values (static-src/store.ts): the fold of a live progress frame, the join of a call with
  its settled result, the comparison that decides whether a mounted card would paint the same, and
  the publication of a call at the card showing it. The cell registry of the reactive library is
  read as a partial function from call ids to the value the mounted card shows.
\<close>

definition replaced :: "'a option \<Rightarrow> 'a option \<Rightarrow> 'a option" where
  "replaced new old = (case new of None \<Rightarrow> old | Some v \<Rightarrow> Some v)"

lemma replaced_simps [simp]:
  "replaced None old = old" "replaced (Some v) old = Some v" "replaced x (replaced x y) = replaced x y"
  "replaced x x = x"
  by (auto simp: replaced_def split: option.splits)

section \<open>The live fold\<close>

definition folded_output :: "tool_call \<Rightarrow> tool_progress \<Rightarrow> string option" where
  "folded_output prev d =
     (if tp_output_replace d = Some True then Some (nullish (tp_output_delta d) '''')
      else case tp_output_delta d of
             None \<Rightarrow> tc_output prev
           | Some delta \<Rightarrow> Some (nullish (tc_output prev) '''' @ delta))"

definition folded_diffs :: "tool_call \<Rightarrow> tool_progress \<Rightarrow> tool_diff list option" where
  "folded_diffs prev d =
     (case tp_diffs_appended d of
        None \<Rightarrow> tc_diffs prev
      | Some ds \<Rightarrow> Some (nullish (tc_diffs prev) [] @ ds))"

definition fold_tool_call_delta :: "tool_call \<Rightarrow> tool_progress \<Rightarrow> tool_call" where
  "fold_tool_call_delta prev d =
     prev\<lparr>tc_title := nullish (tp_title d) (tc_title prev),
          tc_kind := nullish (tp_kind d) (tc_kind prev),
          tc_status := nullish (tp_status d) (tc_status prev),
          tc_output := replaced (folded_output prev d) (tc_output prev),
          tc_output_spans := replaced (tp_output_spans d) (tc_output_spans prev),
          tc_diffs := replaced (folded_diffs prev d) (tc_diffs prev),
          tc_locations := replaced (tp_locations d) (tc_locations prev),
          tc_duration_ms := replaced (tp_duration_ms d) (tc_duration_ms prev),
          tc_terminal_id := replaced (tp_terminal_id d) (tc_terminal_id prev),
          tc_agent_subtask_id := replaced (tp_agent_subtask_id d) (tc_agent_subtask_id prev),
          tc_workflow_id := replaced (tp_workflow_id d) (tc_workflow_id prev),
          tc_checkpoint := replaced (tp_checkpoint d) (tc_checkpoint prev),
          tc_disclosed := replaced (tp_disclosed d) (tc_disclosed prev),
          tc_denial := replaced (tp_denial d) (tc_denial prev),
          tc_declined := (if tp_declined d = Some True then Some True else tc_declined prev)\<rparr>"

section \<open>The settled value\<close>

definition settled_tool_call :: "tool_call \<Rightarrow> tool_result option \<Rightarrow> tool_call" where
  "settled_tool_call call result =
     (case result of
        None \<Rightarrow> call
      | Some r \<Rightarrow>
          call\<lparr>tc_status := tr_status r,
               tc_title := nullish (tr_title r) (tc_title call),
               tc_kind := nullish (tr_kind r) (tc_kind call),
               tc_output := replaced (tr_output r) (tc_output call),
               tc_output_spans := replaced (tr_output_spans r) (tc_output_spans call),
               tc_diffs := replaced (tr_diffs r) (tc_diffs call),
               tc_locations := replaced (tr_locations r) (tc_locations call),
               tc_duration_ms := replaced (tr_duration_ms r) (tc_duration_ms call),
               tc_terminal_id := replaced (tr_terminal_id r) (tc_terminal_id call),
               tc_workflow_id := replaced (tr_workflow_id r) (tc_workflow_id call),
               tc_checkpoint := replaced (tr_checkpoint r) (tc_checkpoint call),
               tc_disclosed := replaced (tr_disclosed r) (tc_disclosed call),
               tc_denial := replaced (tr_denial r) (tc_denial call),
               tc_declined := (if tr_declined r = Some True then Some True else tc_declined call)\<rparr>)"

section \<open>Whether a mounted card would paint the same\<close>

fun same_spans_list :: "text_span list \<Rightarrow> text_span list \<Rightarrow> bool" where
  "same_spans_list [] [] = True"
| "same_spans_list (s # xs) (t # ys) =
     (span_start s = span_start t \<and> span_end s = span_end t \<and> span_fg s = span_fg t
      \<and> span_bg s = span_bg t \<and> span_attrs s = span_attrs t \<and> same_spans_list xs ys)"
| "same_spans_list _ _ = False"

definition same_spans :: "text_span list option \<Rightarrow> text_span list option \<Rightarrow> bool" where
  "same_spans a b = same_spans_list (nullish a []) (nullish b [])"

fun same_diffs_list :: "tool_diff list \<Rightarrow> tool_diff list \<Rightarrow> bool" where
  "same_diffs_list [] [] = True"
| "same_diffs_list (d # xs) (e # ys) =
     (diff_path d = diff_path e \<and> diff_old_text d = diff_old_text e
      \<and> diff_new_text d = diff_new_text e \<and> same_diffs_list xs ys)"
| "same_diffs_list _ _ = False"

definition same_diffs :: "tool_diff list option \<Rightarrow> tool_diff list option \<Rightarrow> bool" where
  "same_diffs a b = same_diffs_list (nullish a []) (nullish b [])"

definition paints_the_same :: "tool_call \<Rightarrow> tool_call \<Rightarrow> bool" where
  "paints_the_same shown next =
     (tc_title shown = tc_title next
      \<and> tc_status shown = tc_status next
      \<and> tc_duration_ms shown = tc_duration_ms next
      \<and> tc_output shown = tc_output next
      \<and> tc_terminal_id shown = tc_terminal_id next
      \<and> same_spans (tc_output_spans shown) (tc_output_spans next)
      \<and> same_diffs (tc_diffs shown) (tc_diffs next))"

section \<open>Publishing a call at its card\<close>

type_synonym cells = "string \<Rightarrow> tool_call option"

text \<open>\<open>republishToolCall\<close>: the new cells, and the bump it schedules.\<close>

definition republish_tool_call ::
    "cells \<Rightarrow> string \<Rightarrow> tool_call \<Rightarrow> cells \<times> pending" where
  "republish_tool_call shown turn_id call =
     (case shown (tc_id call) of
        Some _ \<Rightarrow> (shown(tc_id call \<mapsto> call), (Tool, Some turn_id))
      | None \<Rightarrow> (shown, (entry_cause (tc_agent_subtask_id call), None)))"

fun held_tool_call :: "entry list \<Rightarrow> string \<Rightarrow> tool_call option" where
  "held_tool_call [] call_id = None"
| "held_tool_call (e # es) call_id =
     (case payload_tool_call e of
        Some call \<Rightarrow> if tc_id call = call_id then Some call else held_tool_call es call_id
      | None \<Rightarrow> held_tool_call es call_id)"

text \<open>\<open>applyToolProgress\<close> on a held turn: \<open>None\<close> where the window holds no such call.\<close>

definition apply_tool_progress ::
    "cells \<Rightarrow> entry list \<Rightarrow> string \<Rightarrow> tool_progress
     \<Rightarrow> (tool_call \<times> cells \<times> pending) option" where
  "apply_tool_progress shown entries turn_id p =
     (case (case shown (tp_tool_call_id p) of
              Some c \<Rightarrow> Some c | None \<Rightarrow> held_tool_call entries (tp_tool_call_id p)) of
        None \<Rightarrow> None
      | Some prev \<Rightarrow>
          (let next = fold_tool_call_delta prev p;
               (shown', bump) = republish_tool_call shown turn_id next
           in Some (next, shown', bump)))"

text \<open>The settled results of one turn, keyed by the call they settle.\<close>

fun settled_results :: "entry list \<Rightarrow> (string \<times> tool_result) list \<Rightarrow> (string \<times> tool_result) list"
  where
  "settled_results [] acc = acc"
| "settled_results (e # es) acc =
     (case payload_tool_result e of
        None \<Rightarrow> settled_results es acc
      | Some r \<Rightarrow>
          (case call_id_of_tool_result (e_id e) of
             None \<Rightarrow> settled_results es acc
           | Some call_id \<Rightarrow> settled_results es (AList.update call_id r acc)))"

text \<open>One turn of \<open>republishWindowToolCalls\<close>: a card already painting the value is skipped.\<close>

fun republish_calls ::
    "(string \<times> tool_result) list \<Rightarrow> string \<Rightarrow> entry list \<Rightarrow> cells \<Rightarrow> cells \<times> pending list" where
  "republish_calls settled turn_id [] shown = (shown, [])"
| "republish_calls settled turn_id (e # es) shown =
     (case payload_tool_call e of
        None \<Rightarrow> republish_calls settled turn_id es shown
      | Some call \<Rightarrow>
          (let next = settled_tool_call call (map_of settled (e_id e))
           in case shown (tc_id next) of
                Some cell \<Rightarrow>
                  if paints_the_same cell next then republish_calls settled turn_id es shown
                  else (let (shown', bump) = republish_tool_call shown turn_id next;
                            (shown'', bumps) = republish_calls settled turn_id es shown'
                        in (shown'', bump # bumps))
              | None \<Rightarrow>
                  (let (shown', bump) = republish_tool_call shown turn_id next;
                       (shown'', bumps) = republish_calls settled turn_id es shown'
                   in (shown'', bump # bumps))))"

fun republish_window_tool_calls ::
    "(string \<times> turn_state) list \<Rightarrow> string list \<Rightarrow> cells \<Rightarrow> cells \<times> pending list" where
  "republish_window_tool_calls turns [] shown = (shown, [])"
| "republish_window_tool_calls turns (turn_id # ids) shown =
     (case map_of turns turn_id of
        None \<Rightarrow> republish_window_tool_calls turns ids shown
      | Some st \<Rightarrow>
          (let (shown', b1) = republish_calls (settled_results (ts_entries st) []) turn_id
                                (ts_entries st) shown;
               (shown'', b2) = republish_window_tool_calls turns ids shown'
           in (shown'', b1 @ b2)))"

section \<open>The comparison is an equivalence\<close>

lemma same_spans_list_eq [simp]: "same_spans_list xs ys \<longleftrightarrow> xs = ys"
  by (induction xs ys rule: same_spans_list.induct) auto

lemma same_diffs_list_eq [simp]: "same_diffs_list xs ys \<longleftrightarrow> xs = ys"
  by (induction xs ys rule: same_diffs_list.induct) auto

lemma paints_the_same_iff:
  "paints_the_same a b \<longleftrightarrow>
     tc_title a = tc_title b \<and> tc_status a = tc_status b \<and> tc_duration_ms a = tc_duration_ms b
     \<and> tc_output a = tc_output b \<and> tc_terminal_id a = tc_terminal_id b
     \<and> nullish (tc_output_spans a) [] = nullish (tc_output_spans b) []
     \<and> nullish (tc_diffs a) [] = nullish (tc_diffs b) []"
  by (auto simp: paints_the_same_def same_spans_def same_diffs_def)

lemma paints_refl [simp]: "paints_the_same c c"
  by (simp add: paints_the_same_iff)

lemma paints_trans: "paints_the_same a b \<Longrightarrow> paints_the_same b c \<Longrightarrow> paints_the_same a c"
  by (simp add: paints_the_same_iff)

section \<open>Settling twice is settling once\<close>

lemma settled_id [simp]: "tc_id (settled_tool_call c r) = tc_id c"
  by (simp add: settled_tool_call_def split: option.splits)

lemma settled_twice: "settled_tool_call (settled_tool_call c r) r = settled_tool_call c r"
  by (cases r) (simp_all add: settled_tool_call_def nullish_def split: option.splits)

interpretation settle: replay_safe settled_tool_call "\<lambda>_. True"
  by unfold_locales (rule settled_twice)

section \<open>What a fetched window leaves on screen\<close>

lemma republish_keeps_mounted:
  "fst (republish_tool_call shown t c) i \<noteq> None \<longleftrightarrow> shown i \<noteq> None"
  by (auto simp: republish_tool_call_def split: option.splits)

lemma republish_other:
  "i \<noteq> tc_id c \<Longrightarrow> fst (republish_tool_call shown t c) i = shown i"
  by (auto simp: republish_tool_call_def split: option.splits)

lemma republish_own:
  "shown (tc_id c) \<noteq> None \<Longrightarrow> fst (republish_tool_call shown t c) (tc_id c) = Some c"
  by (auto simp: republish_tool_call_def)

definition call_ids :: "entry list \<Rightarrow> string list" where
  "call_ids es = map tc_id (List.map_filter payload_tool_call es)"

lemma call_ids_Nil [simp]: "call_ids [] = []"
  by (simp add: call_ids_def List.map_filter_simps)

lemma call_ids_Cons [simp]:
  "call_ids (e # es) = (case payload_tool_call e of None \<Rightarrow> call_ids es
                        | Some c \<Rightarrow> tc_id c # call_ids es)"
  by (simp add: call_ids_def List.map_filter_simps split: option.splits)

text \<open>The cells after one call of the loop.\<close>

definition card_after :: "(string \<times> tool_result) list \<Rightarrow> string \<Rightarrow> entry \<Rightarrow> tool_call \<Rightarrow> cells \<Rightarrow> cells"
  where
  "card_after settled t f c shown =
     (let next = settled_tool_call c (map_of settled (e_id f))
      in case shown (tc_id c) of
           Some cell \<Rightarrow> if paints_the_same cell next then shown
                        else fst (republish_tool_call shown t next)
         | None \<Rightarrow> fst (republish_tool_call shown t next))"

lemma republish_calls_unfold:
  "fst (republish_calls settled t (f # es) shown) =
     fst (republish_calls settled t es
            (case payload_tool_call f of None \<Rightarrow> shown | Some c \<Rightarrow> card_after settled t f c shown))"
  by (auto simp: card_after_def Let_def split: option.splits prod.splits)

lemma card_after_other: "i \<noteq> tc_id c \<Longrightarrow> card_after settled t f c shown i = shown i"
  by (simp add: card_after_def Let_def republish_other split: option.splits)

lemma card_after_mounted: "card_after settled t f c shown i \<noteq> None \<longleftrightarrow> shown i \<noteq> None"
  using republish_keeps_mounted[of shown t "settled_tool_call c (map_of settled (e_id f))" i]
  unfolding card_after_def Let_def by (simp split: option.splits)

lemma card_after_own:
  assumes "shown (tc_id c) \<noteq> None"
  shows "\<exists>cell. card_after settled t f c shown (tc_id c) = Some cell
           \<and> paints_the_same cell (settled_tool_call c (map_of settled (e_id f)))"
  using assms republish_own[of shown "settled_tool_call c (map_of settled (e_id f))" t]
  by (auto simp: card_after_def Let_def split: option.splits)

lemma republish_calls_other:
  "i \<notin> set (call_ids es) \<Longrightarrow> fst (republish_calls settled t es shown) i = shown i"
proof (induction es arbitrary: shown)
  case (Cons f es)
  then show ?case
    by (simp only: republish_calls_unfold) (auto simp: card_after_other split: option.splits)
qed simp

lemma republish_calls_paint:
  assumes "distinct (call_ids es)" and "e \<in> set es" and "payload_tool_call e = Some call"
    and "shown (tc_id call) \<noteq> None"
  shows "\<exists>cell. fst (republish_calls settled t es shown) (tc_id call) = Some cell
           \<and> paints_the_same cell (settled_tool_call call (map_of settled (e_id e)))"
  using assms
proof (induction es arbitrary: shown)
  case (Cons f es)
  show ?case
  proof (cases "e = f")
    case True
    with Cons.prems have "tc_id call \<notin> set (call_ids es)" by auto
    with True Cons.prems show ?thesis
      unfolding republish_calls_unfold by (simp add: republish_calls_other card_after_own)
  next
    case False
    with Cons.prems have e: "e \<in> set es" by simp
    let ?shown = "case payload_tool_call f of None \<Rightarrow> shown | Some c \<Rightarrow> card_after settled t f c shown"
    have "?shown (tc_id call) \<noteq> None"
      using Cons.prems(4) card_after_mounted by (cases "payload_tool_call f") simp_all
    with Cons.IH[of ?shown] Cons.prems e show ?thesis
      unfolding republish_calls_unfold by (auto split: option.splits)
  qed
qed simp

section \<open>Live folds\<close>

definition fold_frames :: "tool_call \<Rightarrow> tool_progress list \<Rightarrow> tool_call" where
  "fold_frames c fs = foldl fold_tool_call_delta c fs"

definition latched_growth :: "tool_call \<Rightarrow> tool_call \<Rightarrow> bool" where
  "latched_growth c0 c \<longleftrightarrow>
     tc_id c = tc_id c0
     \<and> (tc_declined c0 = Some True \<longrightarrow> tc_declined c = Some True)
     \<and> prefix (nullish (tc_diffs c0) []) (nullish (tc_diffs c) [])"

interpretation live_fold: frame_machine fold_tool_call_delta "\<lambda>_. True" "latched_growth c0" for c0
proof
  fix c d assume "latched_growth c0 c"
  then show "latched_growth c0 (fold_tool_call_delta c d)"
    by (auto simp: latched_growth_def fold_tool_call_delta_def folded_diffs_def replaced_def
        split: option.splits)
qed

lemma append_only_output:
  assumes "\<forall>f\<in>set fs. tp_output_replace f \<noteq> Some True"
  shows "nullish (tc_output (fold_frames c fs)) '''' =
           nullish (tc_output c) '''' @ concat (map (\<lambda>f. nullish (tp_output_delta f) '''') fs)"
  using assms
proof (induction fs arbitrary: c)
  case (Cons f fs)
  have "nullish (tc_output (fold_tool_call_delta c f)) ''''
      = nullish (tc_output c) '''' @ nullish (tp_output_delta f) ''''"
    using Cons.prems
    by (auto simp: fold_tool_call_delta_def folded_output_def split: option.splits)
  with Cons show ?case by (simp add: fold_frames_def)
qed (simp add: fold_frames_def)

section \<open>Properties\<close>

text \<open>
  Publishing a fetched turn leaves every mounted card painting its call's settled value: a
  card is skipped only where it already paints exactly that, so the skip is invisible.
\<close>

theorem republished_cards_are_settled:
  assumes "distinct (call_ids (ts_entries st))" and "e \<in> set (ts_entries st)"
    and "payload_tool_call e = Some call" and "shown (tc_id call) \<noteq> None"
  shows "\<exists>cell. fst (republish_calls (settled_results (ts_entries st) []) turn_id
                       (ts_entries st) shown) (tc_id call) = Some cell
           \<and> paints_the_same cell
               (settled_tool_call call (map_of (settled_results (ts_entries st) []) (e_id e)))"
  using assms by (rule republish_calls_paint)

definition sample_call :: tool_call where
  "sample_call =
     \<lparr>tc_id = ''c1'', tc_title = ''Run'', tc_kind = TK_execute, tc_status = TS_in_progress,
      tc_output = None, tc_agent_subtask_id = None, tc_workflow_id = None, tc_terminal_id = None,
      tc_checkpoint = None, tc_disclosed = None, tc_denial = None, tc_truncated = None,
      tc_input = None, tc_locations = None, tc_diffs = None, tc_output_spans = None, tc_ts = 0,
      tc_duration_ms = None, tc_output_bytes = None, tc_has_full = None, tc_declined = Some True\<rparr>"

definition sample_call_entry :: entry where
  "sample_call_entry = \<lparr>e_id = ''c1'', e_turn = ''t1'', e_lane = None,
     e_payload = P_tool_call sample_call, e_seq = 1, e_ts = 0\<rparr>"

lemma sample_call_fields [simp]:
  "tc_id sample_call = ''c1''" "e_id sample_call_entry = ''c1''"
  "payload_tool_call sample_call_entry = Some sample_call"
  "payload_tool_result sample_call_entry = None"
  by (simp_all add: sample_call_def sample_call_entry_def payload_readers)

theorem republished_cards_are_settled_witness:
  "\<exists>cell. fst (republish_calls (settled_results [sample_call_entry] []) ''t1''
       [sample_call_entry] (\<lambda>i. if i = ''c1'' then Some sample_call else None)) ''c1'' = Some cell
     \<and> paints_the_same cell
         (settled_tool_call sample_call (map_of (settled_results [sample_call_entry] []) ''c1''))"
  using republished_cards_are_settled[of "\<lparr>ts_entries = [sample_call_entry], ts_open = [], ts_close_at = None\<rparr>"
      sample_call_entry sample_call "\<lambda>i. if i = ''c1'' then Some sample_call else None" "''t1''"]
  by simp

text \<open>
  Over any run of progress frames a call keeps its identity, a decline is never taken back
  and the diffs already shown are only appended to; a run that replaces nothing shows the old
  output followed by the frames' deltas in order.
\<close>

theorem progress_only_grows:
  "tc_id (fold_frames c fs) = tc_id c
   \<and> (tc_declined c = Some True \<longrightarrow> tc_declined (fold_frames c fs) = Some True)
   \<and> prefix (nullish (tc_diffs c) []) (nullish (tc_diffs (fold_frames c fs)) [])
   \<and> ((\<forall>f\<in>set fs. tp_output_replace f \<noteq> Some True) \<longrightarrow>
        nullish (tc_output (fold_frames c fs)) '''' =
          nullish (tc_output c) '''' @ concat (map (\<lambda>f. nullish (tp_output_delta f) '''') fs))"
  using live_fold.run_inv[of c c fs] append_only_output[of fs c]
  by (auto simp: latched_growth_def fold_frames_def list_all_iff)

theorem progress_only_grows_witness:
  "tc_declined (fold_frames sample_call
     [\<lparr>tp_checkpoint = None, tp_disclosed = None, tp_denial = None, tp_turn = ''t1'',
       tp_tool_call_id = ''c1'', tp_title = None, tp_kind = None, tp_status = None,
       tp_output_delta = Some ''ok'', tp_terminal_id = None, tp_agent_subtask_id = None,
       tp_workflow_id = None, tp_output_spans = None, tp_diffs_appended = None, tp_locations = None,
       tp_duration_ms = None, tp_output_replace = None, tp_declined = None\<rparr>]) = Some True"
  using progress_only_grows[of sample_call] by (simp add: sample_call_def)

end
