(* ===== verification/Session.thy ===== *)
theory Session
  imports Turns RenderCause
begin

text \<open>
  A chat's client row (static-src/types.ts \<open>Session\<close>) and the header operations on it
  (static-src/store.ts). An operation takes the row it looked up and returns the new row with the
  effects it had, in order: the session signal fired by the collection's \<open>update\<close>, the version bumps,
  the calls into other modules. A chat the store does not hold is every operation's first early
  return (\<open>with_chat\<close>).
\<close>

record pending_steer =
  ps_id :: string
  ps_text :: string
  ps_origin :: steer_origin
  ps_pending :: bool
  ps_compacted :: bool
  ps_kas :: "string option"
  ps_unsent :: bool

datatype residency = Res_loaded | Res_evicted | Res_partial | Res_load_failed

record session =
  s_id :: string
  s_name :: string
  s_model :: string
  s_acp_session_id :: string
  s_current_mode_id :: string
  s_effort_levels :: "effort_level list option"
  s_effort_active :: "string option"
  s_usage :: usage
  s_turns :: "(string \<times> turn_state) list"
  s_turn_order :: "string list"
  s_turn_count :: int
  s_reverted :: "string list option"
  s_has_more :: bool
  s_thinking :: bool
  s_turn_open :: "bool option"
  s_working_label :: string
  s_agent_status :: "string option"
  s_last_turn_outcome :: "turn_outcome option"
  s_updated_at :: "int option"
  s_steers :: "pending_steer list option"
  s_pending_model :: "string option"
  s_supervised_mode :: "bool option"
  s_effort :: "string option"
  s_draft :: "string option"
  s_attachments :: "string list option"
  s_compaction_watermark :: "string option"
  s_residency :: "residency option"
  s_provisional :: bool

datatype effect =
    Notify
  | Bump render_cause
  | Schedule render_cause "string option"
  | Stamp_activity
  | Repair string "int option"
  | Abort_reads "string list"
  | Clear_signals "string list"
  | Ensure_text string string string
  | Write_text string string string string
  | Clear_text string string
  | Bump_lane string string
  | Publish_call string tool_call
  | Drop_live_facts
  | Forget_causes
  | Forget_view
  | Republish_calls "string list"
  | Observe_stamp subject_stamp
  | Retint

type_synonym outcome_of_op = "session \<times> effect list"

definition with_chat :: "session option \<Rightarrow> (session \<Rightarrow> outcome_of_op) \<Rightarrow> session option \<times> effect list" where
  "with_chat row f =
     (case row of None \<Rightarrow> (None, []) | Some s \<Rightarrow> (case f s of (s', es) \<Rightarrow> (Some s', es)))"

section \<open>Header reads\<close>

record chat_header =
  h_id :: string
  h_name :: string
  h_model :: "string option"
  h_acp_session_id :: "string option"
  h_current_mode_id :: "string option"
  h_effort :: "string option"
  h_last_turn_outcome :: "turn_outcome option"
  h_effort_active :: "string option"
  h_pending_model :: "string option"
  h_effort_levels :: "effort_level list option"
  h_compaction_watermark :: "string option"
  h_prior_acp_session_ids :: "string list option"
  h_usage :: usage
  h_created_at :: int
  h_updated_at :: int
  h_turn_count :: int
  h_supervised_mode :: "bool option"

definition derived_has_more :: "int \<Rightarrow> nat \<Rightarrow> bool" where
  "derived_has_more turn_count resident_count = (turn_count > int resident_count)"

text \<open>\<open>upsertHeader\<close> on a chat the store holds.\<close>

definition upsert_existing :: "chat_header \<Rightarrow> session \<Rightarrow> outcome_of_op" where
  "upsert_existing h s =
     (s\<lparr>s_name := h_name h,
        s_model := (case h_model h of
                      Some m \<Rightarrow> if m \<noteq> '''' then m else s_model s | None \<Rightarrow> s_model s),
        s_acp_session_id := nullish (h_acp_session_id h) '''',
        s_current_mode_id := nullish (h_current_mode_id h) '''',
        s_supervised_mode := Some (nullish (h_supervised_mode h) False),
        s_effort := Some (nullish (h_effort h) ''''),
        s_effort_levels := Some (nullish (h_effort_levels h) (nullish (s_effort_levels s) [])),
        s_effort_active := Some (nullish (h_effort_active h) (nullish (s_effort_active s) '''')),
        s_usage := h_usage h,
        s_turn_count := max (s_turn_count s) (h_turn_count h),
        s_pending_model := Some (nullish (h_pending_model h) ''''),
        s_compaction_watermark := h_compaction_watermark h,
        s_last_turn_outcome := h_last_turn_outcome h,
        s_updated_at := Some (h_updated_at h)\<rparr>,
      [Notify])"

text \<open>The row built for a chat the store does not hold, prepended to the collection.\<close>

definition row_of_header :: "chat_header \<Rightarrow> session" where
  "row_of_header h =
     \<lparr>s_id = h_id h, s_name = h_name h, s_model = nullish (h_model h) '''',
      s_acp_session_id = nullish (h_acp_session_id h) '''',
      s_current_mode_id = nullish (h_current_mode_id h) '''',
      s_effort_levels = Some (nullish (h_effort_levels h) []),
      s_effort_active = Some (nullish (h_effort_active h) ''''),
      s_usage = h_usage h, s_turns = [], s_turn_order = [], s_turn_count = h_turn_count h,
      s_reverted = None, s_has_more = derived_has_more (h_turn_count h) 0,
      s_thinking = False, s_turn_open = None, s_working_label = ''Thinking'',
      s_agent_status = None, s_last_turn_outcome = h_last_turn_outcome h,
      s_updated_at = Some (h_updated_at h), s_steers = None,
      s_pending_model = Some (nullish (h_pending_model h) ''''),
      s_supervised_mode = Some (nullish (h_supervised_mode h) False),
      s_effort = Some (nullish (h_effort h) ''''),
      s_draft = None, s_attachments = None,
      s_compaction_watermark = h_compaction_watermark h,
      s_residency = None, s_provisional = False\<rparr>"

definition upsert_header :: "chat_header \<Rightarrow> session option \<Rightarrow> outcome_of_op" where
  "upsert_header h row =
     (case row of Some s \<Rightarrow> upsert_existing h s | None \<Rightarrow> (row_of_header h, [Notify]))"

section \<open>Single-field writes\<close>

definition set_thinking :: "bool \<Rightarrow> session \<Rightarrow> outcome_of_op" where
  "set_thinking v s =
     (let s1 = s\<lparr>s_thinking := v, s_working_label := (if v then s_working_label s else ''Thinking'')\<rparr>;
          s2 = (if v then s1\<lparr>s_agent_status := None, s_turn_open := None\<rparr> else s1)
      in (s2, [Stamp_activity, Notify, Schedule Fact None]))"

definition set_turn_open :: "bool \<Rightarrow> session \<Rightarrow> outcome_of_op" where
  "set_turn_open op s =
     (if s_turn_open s = Some op then (s, [])
      else (s\<lparr>s_turn_open := Some op\<rparr>, [Notify, Schedule Fact None]))"

definition set_agent_status :: "string \<Rightarrow> session \<Rightarrow> outcome_of_op" where
  "set_agent_status status s =
     (if nullish (s_agent_status s) '''' = status then (s, [])
      else (s\<lparr>s_agent_status := (if status = '''' then None else Some status)\<rparr>, [Notify]))"

definition set_working_label :: "string \<Rightarrow> session \<Rightarrow> outcome_of_op" where
  "set_working_label label s =
     (if s_working_label s = label then (s, [])
      else (s\<lparr>s_working_label := label\<rparr>, [Notify, Schedule Fact None]))"

definition set_current_mode :: "string \<Rightarrow> session \<Rightarrow> outcome_of_op" where
  "set_current_mode mode_id s =
     (if s_current_mode_id s = mode_id then (s, [])
      else (s\<lparr>s_current_mode_id := mode_id\<rparr>, [Notify]))"

definition set_supervised_mode :: "bool \<Rightarrow> session \<Rightarrow> outcome_of_op" where
  "set_supervised_mode enabled s =
     (if s_supervised_mode s = Some enabled then (s, [])
      else (s\<lparr>s_supervised_mode := Some enabled\<rparr>, [Notify]))"

definition set_effort :: "string \<Rightarrow> session \<Rightarrow> outcome_of_op" where
  "set_effort effort s =
     (if nullish (s_effort s) '''' = effort then (s, [])
      else (s\<lparr>s_effort := Some effort\<rparr>, [Notify]))"

text \<open>\<open>contextSizeFor\<close> reads the catalog of model context sizes.\<close>

definition context_size_for :: "(string \<times> int) list \<Rightarrow> string \<Rightarrow> int" where
  "context_size_for sizes model_id = nullish (map_of sizes model_id) 0"

definition set_model :: "(string \<times> int) list \<Rightarrow> string \<Rightarrow> session \<Rightarrow> outcome_of_op" where
  "set_model sizes model s =
     (s\<lparr>s_model := model,
        s_usage := (s_usage s)\<lparr>us_context_size := context_size_for sizes model\<rparr>\<rparr>, [Notify])"

definition set_name :: "string \<Rightarrow> session \<Rightarrow> outcome_of_op" where
  "set_name name s = (s\<lparr>s_name := name\<rparr>, [Notify])"

definition default_usage :: usage where
  "default_usage =
     \<lparr>us_metering_items = None, us_context_pct = 0, us_summarization_threshold_pct = None,
      us_truncation_threshold_pct = None, us_context_size = 0, us_credits = 0,
      us_last_turn_ms = 0, us_has_real_data = False\<rparr>"

section \<open>The window's bookkeeping\<close>

definition note_resident_mutation :: "session \<Rightarrow> session" where
  "note_resident_mutation s =
     (if s_residency s = Some Res_evicted then s\<lparr>s_residency := Some Res_partial\<rparr> else s)"

definition mark_window_stale :: "session \<Rightarrow> session" where
  "mark_window_stale s =
     (if s_residency s = Some Res_loaded then s\<lparr>s_residency := Some Res_partial\<rparr> else s)"

text \<open>\<open>viewStale("chat", id)\<close> is the version map's answer, passed in.\<close>

definition transcript_stale :: "bool \<Rightarrow> session \<Rightarrow> bool" where
  "transcript_stale view_stale s = (s_residency s \<noteq> Some Res_loaded \<or> view_stale)"

definition is_empty_chat :: "session option \<Rightarrow> bool" where
  "is_empty_chat row =
     (case row of None \<Rightarrow> True | Some s \<Rightarrow> s_turn_count s = 0 \<and> s_turn_order s = [])"

text \<open>Whether a resident turn was opened by the prompt with this message id.\<close>

definition turn_has_message :: "string \<Rightarrow> turn_state \<Rightarrow> bool" where
  "turn_has_message message_id st =
     (case turn_open_of st of
        None \<Rightarrow> False
      | Some op \<Rightarrow> (case to_prompt op of None \<Rightarrow> False | Some p \<Rightarrow> pr_id p = message_id))"

definition has_message :: "session option \<Rightarrow> string \<Rightarrow> bool" where
  "has_message row message_id =
     (case row of
        None \<Rightarrow> False
      | Some s \<Rightarrow> list_ex (\<lambda>(k, st). turn_has_message message_id st) (s_turns s))"

section \<open>Eviction\<close>

definition evict_idle_ms :: int where
  "evict_idle_ms = 30 * 60 * 1000"

text \<open>
  \<open>evictable\<close>: the active chat, the activity stamps and the registered exemptions are module state,
  passed in.
\<close>

definition evictable ::
    "string \<Rightarrow> (string \<Rightarrow> int option) \<Rightarrow> (string \<Rightarrow> bool) list \<Rightarrow> int \<Rightarrow> session \<Rightarrow> bool" where
  "evictable active_id last_activity exemptions now s =
     (if s_turn_order s = [] then False
      else if s_id s = active_id then False
      else if s_thinking s then False
      else case last_activity (s_id s) of
             None \<Rightarrow> False
           | Some at1 \<Rightarrow>
               if now - at1 < evict_idle_ms then False
               else \<not> list_ex (\<lambda>f. f (s_id s)) exemptions)"

definition evict_chat_messages :: "session \<Rightarrow> outcome_of_op" where
  "evict_chat_messages s =
     (s\<lparr>s_turns := [], s_turn_order := [],
        s_has_more := derived_has_more (s_turn_count s) 0,
        s_residency := Some Res_evicted\<rparr>,
      [Clear_signals (keys (s_turns s)), Drop_live_facts, Forget_causes, Forget_view])"

text \<open>One sweep over the collection's rows; a hidden document reclaims nothing.\<close>

definition sweep_evictions ::
    "bool \<Rightarrow> string \<Rightarrow> (string \<Rightarrow> int option) \<Rightarrow> (string \<Rightarrow> bool) list \<Rightarrow> int \<Rightarrow> session list
     \<Rightarrow> session list" where
  "sweep_evictions hidden active_id last_activity exemptions now rows =
     (if hidden then rows
      else map (\<lambda>s. if evictable active_id last_activity exemptions now s
                    then fst (evict_chat_messages s) else s) rows)"

section \<open>Rows leaving and coming back\<close>

text \<open>\<open>removeChat\<close>: the next active id, read off the collection's order before the removal.\<close>

definition active_after_remove :: "string list \<Rightarrow> string \<Rightarrow> string \<Rightarrow> string" where
  "active_after_remove order active_id doomed =
     (if active_id = doomed
      then (case filter (\<lambda>x. x \<noteq> doomed) order of [] \<Rightarrow> '''' | x # _ \<Rightarrow> x)
      else active_id)"

definition remove_chat ::
    "string \<Rightarrow> session list \<Rightarrow> string \<Rightarrow> session list \<times> string \<times> effect list" where
  "remove_chat active_id rows doomed =
     (case List.find (\<lambda>s. s_id s = doomed) rows of
        None \<Rightarrow> (rows, active_id, [])
      | Some row \<Rightarrow>
          (filter (\<lambda>s. s_id s \<noteq> doomed) rows,
           active_after_remove (map s_id rows) active_id doomed,
           [Drop_live_facts, Clear_signals (keys (s_turns row)), Forget_causes, Forget_view]))"

text \<open>\<open>reinsertSession\<close>: the order handed to the collection.\<close>

definition reinsert_session :: "session list \<Rightarrow> session \<Rightarrow> int option \<Rightarrow> session list" where
  "reinsert_session rows s at_index =
     (if list_ex (\<lambda>r. s_id r = s_id s) rows then rows
      else let target = (case at_index of
                           None \<Rightarrow> 0 | Some i \<Rightarrow> nat (max 0 (min i (int (length rows)))))
           in take target rows @ s # drop target rows)"

section \<open>Facts\<close>

lemma upsert_existing_window [simp]:
  "s_turns (fst (upsert_existing h s)) = s_turns s"
  "s_turn_order (fst (upsert_existing h s)) = s_turn_order s"
  "s_steers (fst (upsert_existing h s)) = s_steers s"
  "s_thinking (fst (upsert_existing h s)) = s_thinking s"
  "s_residency (fst (upsert_existing h s)) = s_residency s"
  "s_turn_open (fst (upsert_existing h s)) = s_turn_open s"
  "s_agent_status (fst (upsert_existing h s)) = s_agent_status s"
  "s_reverted (fst (upsert_existing h s)) = s_reverted s"
  by (simp_all add: upsert_existing_def)

lemma mark_window_stale_fields [simp]:
  "s_turns (mark_window_stale s) = s_turns s"
  "s_turn_order (mark_window_stale s) = s_turn_order s"
  "s_steers (mark_window_stale s) = s_steers s"
  "s_turn_count (mark_window_stale s) = s_turn_count s"
  "s_reverted (mark_window_stale s) = s_reverted s"
  by (simp_all add: mark_window_stale_def)

lemma note_resident_fields [simp]:
  "s_turns (note_resident_mutation s) = s_turns s"
  "s_turn_order (note_resident_mutation s) = s_turn_order s"
  "s_steers (note_resident_mutation s) = s_steers s"
  "s_turn_count (note_resident_mutation s) = s_turn_count s"
  "s_reverted (note_resident_mutation s) = s_reverted s"
  by (simp_all add: note_resident_mutation_def)

lemma stale_after_mark [simp]: "transcript_stale v (mark_window_stale s)"
  by (simp add: transcript_stale_def mark_window_stale_def)

lemma sweep_keeps_ids:
  "map s_id (sweep_evictions hid act la ex now rows) = map s_id rows"
  by (simp add: sweep_evictions_def evict_chat_messages_def comp_def if_distrib cong: if_cong)

end
