(* ===== verification/RunStatus.thy ===== *)
theory RunStatus
  imports Wire
begin

text \<open>
  Workflow-run statuses as read off the wire (static-src/run-status.ts): a value outside the
  vocabulary is kept as \<open>unknown\<close>, an absent or empty one as no status at all.
\<close>

datatype 'a classified = Known 'a | Unknown

fun run_status_name :: "run_status \<Rightarrow> string" where
  "run_status_name R_running = ''running''"
| "run_status_name R_paused = ''paused''"
| "run_status_name R_completed = ''completed''"
| "run_status_name R_failed = ''failed''"
| "run_status_name R_aborted = ''aborted''"
| "run_status_name R_cancelled = ''cancelled''"

fun run_node_status_name :: "run_node_status \<Rightarrow> string" where
  "run_node_status_name N_pending = ''pending''"
| "run_node_status_name N_running = ''running''"
| "run_node_status_name N_paused = ''paused''"
| "run_node_status_name N_completed = ''completed''"
| "run_node_status_name N_failed = ''failed''"
| "run_node_status_name N_aborted = ''aborted''"
| "run_node_status_name N_skipped = ''skipped''"

definition run_status_members :: "run_status list" where
  "run_status_members = [R_running, R_paused, R_completed, R_failed, R_aborted, R_cancelled]"

definition run_node_status_members :: "run_node_status list" where
  "run_node_status_members =
     [N_pending, N_running, N_paused, N_completed, N_failed, N_aborted, N_skipped]"

definition member_named :: "('a \<Rightarrow> string) \<Rightarrow> 'a list \<Rightarrow> string \<Rightarrow> 'a classified" where
  "member_named name members value1 =
     (case List.find (\<lambda>m. name m = value1) members of None \<Rightarrow> Unknown | Some m \<Rightarrow> Known m)"

definition classify_run_status :: "string option \<Rightarrow> run_status classified option" where
  "classify_run_status status =
     (case status of
        None \<Rightarrow> None
      | Some v \<Rightarrow> if v = '''' then None
                  else Some (member_named run_status_name run_status_members v))"

definition classify_run_node_status :: "string \<Rightarrow> run_node_status classified" where
  "classify_run_node_status v = member_named run_node_status_name run_node_status_members v"

fun run_status_terminal :: "run_status classified \<Rightarrow> bool" where
  "run_status_terminal (Known R_completed) = True"
| "run_status_terminal (Known R_failed) = True"
| "run_status_terminal (Known R_aborted) = True"
| "run_status_terminal (Known R_cancelled) = True"
| "run_status_terminal (Known R_running) = False"
| "run_status_terminal (Known R_paused) = False"
| "run_status_terminal Unknown = False"

fun run_status_active :: "run_status classified \<Rightarrow> bool" where
  "run_status_active (Known R_running) = True"
| "run_status_active (Known R_paused) = True"
| "run_status_active Unknown = True"
| "run_status_active (Known R_completed) = False"
| "run_status_active (Known R_failed) = False"
| "run_status_active (Known R_aborted) = False"
| "run_status_active (Known R_cancelled) = False"

lemma active_iff_not_terminal: "run_status_active c \<longleftrightarrow> \<not> run_status_terminal c"
  by (cases c rule: run_status_active.cases) auto

lemma classify_known: "classify_run_status (Some (run_status_name m)) = Some (Known m)"
  by (cases m) (simp_all add: classify_run_status_def member_named_def run_status_members_def)

lemma member_named_Known:
  "member_named name members v = Known m \<Longrightarrow> name m = v"
  by (auto simp: member_named_def find_Some_iff split: option.splits)

lemma classify_node_known: "classify_run_node_status (run_node_status_name m) = Known m"
  by (cases m)
     (simp_all add: classify_run_node_status_def member_named_def run_node_status_members_def)

end
