(* ===== verification/Status.thy ===== *)
theory Status
  imports Session RunStatus
begin

text \<open>
  Whether a chat's turn is running, and the dot each tab paints (static-src/store.ts): liveness is
  read off the log, the verdict off the header's last finished turn, and one precedence serves
  chats, workflow runs and subagents. The settle predicate of static-src/chat-settled.ts and the
  notification sentence of static-src/handlers/turn.ts read the same facts.
\<close>

datatype tab_dot = Dot_none | Dot_input | Dot_failed | Dot_working | Dot_waiting | Dot_done | Dot_idle

section \<open>Liveness\<close>

definition has_open_turn :: "session \<Rightarrow> bool" where
  "has_open_turn s = list_ex (\<lambda>(k, st). ts_close_at st = None) (s_turns s)"

definition states_no_liveness :: "session \<Rightarrow> bool" where
  "states_no_liveness s = s_provisional s"

definition turn_live :: "session \<Rightarrow> bool" where
  "turn_live s = (has_open_turn s \<or> s_turn_open s = Some True \<or> states_no_liveness s)"

definition chat_holding_turn :: "session list \<Rightarrow> string \<Rightarrow> string" where
  "chat_holding_turn rows turn_id =
     (case List.find (\<lambda>s. map_of (s_turns s) turn_id \<noteq> None) rows of
        None \<Rightarrow> '''' | Some s \<Rightarrow> s_id s)"

text \<open>\<open>chatTurnLive\<close>: a chat this client holds no row for reads live.\<close>

definition chat_turn_live :: "session option \<Rightarrow> bool" where
  "chat_turn_live row = (case row of None \<Rightarrow> True | Some s \<Rightarrow> turn_live s)"

section \<open>The dots\<close>

definition outcome_latch :: "turn_outcome option \<Rightarrow> tab_dot" where
  "outcome_latch o1 =
     (case o1 of
        None \<Rightarrow> Dot_none
      | Some _ \<Rightarrow>
          (case severity_of o1 of
             Sev_clean \<Rightarrow> Dot_done
           | Sev_stopped \<Rightarrow> Dot_done
           | Sev_broken \<Rightarrow> Dot_failed
           | Sev_running \<Rightarrow> Dot_none))"

definition tab_status_for :: "session option \<Rightarrow> bool \<Rightarrow> tab_dot" where
  "tab_status_for row pending_ask =
     (case row of
        None \<Rightarrow> Dot_none
      | Some s \<Rightarrow>
          if pending_ask then Dot_input
          else let live = turn_live s; latch = outcome_latch (s_last_turn_outcome s)
               in if \<not> live \<and> latch = Dot_failed then Dot_failed
                  else if live then Dot_working
                  else if s_agent_status s = Some ''waiting_on_user'' then Dot_waiting
                  else if latch = Dot_done then Dot_done else Dot_idle)"

datatype run_pause_class = Pause_none | Pause_need_input

fun run_status_dot :: "run_status classified option \<Rightarrow> run_pause_class \<Rightarrow> tab_dot" where
  "run_status_dot None pause = Dot_none"
| "run_status_dot (Some (Known R_running)) pause = Dot_working"
| "run_status_dot (Some (Known R_paused)) pause =
     (if pause = Pause_need_input then Dot_input else Dot_waiting)"
| "run_status_dot (Some (Known R_failed)) pause = Dot_failed"
| "run_status_dot (Some (Known R_aborted)) pause = Dot_failed"
| "run_status_dot (Some (Known R_completed)) pause = Dot_done"
| "run_status_dot (Some (Known R_cancelled)) pause = Dot_done"
| "run_status_dot (Some Unknown) pause = Dot_none"

definition run_status_for :: "run_status classified option \<Rightarrow> bool \<Rightarrow> run_pause_class \<Rightarrow> tab_dot" where
  "run_status_for status pending_ask pause =
     (if pending_ask then Dot_input else run_status_dot status pause)"

definition delegate_status_for :: "tool_status \<Rightarrow> bool \<Rightarrow> tool_status" where
  "delegate_status_for status live =
     (if status = TS_in_progress \<and> \<not> live then TS_aborted else status)"

fun tool_status_dot :: "tool_status \<Rightarrow> tab_dot" where
  "tool_status_dot TS_pending = Dot_working"
| "tool_status_dot TS_in_progress = Dot_working"
| "tool_status_dot TS_completed = Dot_done"
| "tool_status_dot TS_aborted = Dot_done"
| "tool_status_dot TS_failed = Dot_failed"

definition subagent_status_for :: "tool_status option \<Rightarrow> bool \<Rightarrow> tab_dot" where
  "subagent_status_for status live =
     (case status of None \<Rightarrow> Dot_none | Some st \<Rightarrow> tool_status_dot (delegate_status_for st live))"

section \<open>Settled chats\<close>

text \<open>\<open>runs\<close> and \<open>asks\<close> are the run inventory's and the decision dock's answers.\<close>

record chat_outstanding =
  out_turn :: bool
  out_runs :: nat
  out_asks :: bool

definition chat_outstanding_of :: "session option \<Rightarrow> string list \<Rightarrow> bool \<Rightarrow> chat_outstanding" where
  "chat_outstanding_of row live_runs pending_decision =
     \<lparr>out_turn = (case row of None \<Rightarrow> False | Some s \<Rightarrow> turn_live s),
      out_runs = length live_runs, out_asks = pending_decision\<rparr>"

definition chat_settled :: "session option \<Rightarrow> string list \<Rightarrow> bool \<Rightarrow> bool" where
  "chat_settled row live_runs pending_decision =
     (let outstanding = chat_outstanding_of row live_runs pending_decision
      in \<not> out_turn outstanding \<and> out_runs outstanding = 0 \<and> \<not> out_asks outstanding)"

definition notify_body_for :: "turn_outcome option \<Rightarrow> string \<Rightarrow> string" where
  "notify_body_for o1 name =
     (case severity_of o1 of
        Sev_clean \<Rightarrow> name @ '': Agent finished''
      | Sev_broken \<Rightarrow> name @ '': '' @ default_failure_reason o1
      | Sev_stopped \<Rightarrow> ''''
      | Sev_running \<Rightarrow> '''')"

section \<open>Facts\<close>

lemma outcome_latch_idle: "outcome_latch o1 = Dot_none \<longleftrightarrow> o1 = None \<or> o1 = Some O_running"
  by (cases o1 rule: severity_of.cases) (simp_all add: outcome_latch_def)

lemma outcome_latch_cases: "outcome_latch o1 \<in> {Dot_none, Dot_done, Dot_failed}"
  by (cases o1 rule: severity_of.cases) (simp_all add: outcome_latch_def)

lemma outcome_latch_failed: "outcome_latch o1 = Dot_failed \<longleftrightarrow> is_broken o1"
  by (cases o1 rule: severity_of.cases) (simp_all add: outcome_latch_def is_broken_def)

section \<open>Properties\<close>

text \<open>
  The chat dot's precedence, complete: a pending ask shows as input whatever else holds; a
  running turn shows as working and never as the previous turn's failure or success; a chat at
  rest shows failed exactly for a broken last turn; and the hollow idle ring is shown only for a
  chat at rest whose record names no finished turn.
\<close>

theorem tab_dot_precedence:
  fixes s :: session
  shows "(tab_status_for (Some s) ask = Dot_input \<longleftrightarrow> ask)
       \<and> (tab_status_for (Some s) ask = Dot_working \<longleftrightarrow> \<not> ask \<and> turn_live s)
       \<and> (tab_status_for (Some s) ask = Dot_failed
            \<longleftrightarrow> \<not> ask \<and> \<not> turn_live s \<and> is_broken (s_last_turn_outcome s))
       \<and> (tab_status_for (Some s) ask = Dot_idle
            \<longleftrightarrow> \<not> ask \<and> \<not> turn_live s \<and> s_agent_status s \<noteq> Some ''waiting_on_user''
                \<and> s_last_turn_outcome s \<in> {None, Some O_running})
       \<and> tab_status_for (Some s) ask \<noteq> Dot_none"
  using outcome_latch_cases[of "s_last_turn_outcome s"]
    outcome_latch_idle[of "s_last_turn_outcome s"]
    outcome_latch_failed[of "s_last_turn_outcome s"]
  by (auto simp: tab_status_for_def Let_def)

text \<open>
  A finished-turn cue waits for the chat's work and speaks only for a verdict: a settled chat
  has no live turn, no live run and no open ask; and the sentence is empty exactly when the turn
  neither finished cleanly nor broke.
\<close>

theorem cue_waits_for_work:
  "(chat_settled row runs asked \<longleftrightarrow>
      (case row of None \<Rightarrow> True | Some s \<Rightarrow> \<not> turn_live s) \<and> runs = [] \<and> \<not> asked)
   \<and> (notify_body_for o1 name = '''' \<longleftrightarrow> severity_of o1 \<in> {Sev_stopped, Sev_running})"
  by (cases "severity_of o1")
     (auto simp: chat_settled_def chat_outstanding_of_def notify_body_for_def Let_def
        split: option.splits)

end
