(* ===== verification/Dock.thy ===== *)
theory Dock
  imports Session
begin

text \<open>
  The dock of steers the agent has not read (static-src/store.ts, "Mid-turn steers"): the optimistic
  row of a POST, the adoption of the server's frames, the batch ids, the clear and its rollback, and
  the retirement of a row by the steer entry that settles it.
\<close>

section \<open>Operations\<close>

definition steer_id_for :: "string \<Rightarrow> string" where
  "steer_id_for message_id = ''steer-'' @ message_id"

definition dock :: "session \<Rightarrow> pending_steer list" where
  "dock s = nullish (s_steers s) []"

definition steer_count :: "session option \<Rightarrow> nat" where
  "steer_count row = (case row of None \<Rightarrow> 0 | Some s \<Rightarrow> length (dock s))"

definition with_steers :: "session \<Rightarrow> pending_steer list \<Rightarrow> session" where
  "with_steers s steers = s\<lparr>s_steers := (if steers = [] then None else Some steers)\<rparr>"

definition steer_repaint :: "effect list" where
  "steer_repaint = [Notify, Schedule Fact None]"

definition record_steer_sent :: "string \<Rightarrow> string \<Rightarrow> session \<Rightarrow> outcome_of_op" where
  "record_steer_sent message_id text s =
     (if message_id = '''' then (s, [])
      else
        let row = \<lparr>ps_id = steer_id_for message_id, ps_text = text, ps_origin = From_user,
                   ps_pending = True, ps_compacted = False, ps_kas = None, ps_unsent = False\<rparr>;
            existing = dock s;
            next = (case find_index (\<lambda>e. ps_id e = ps_id row) existing of
                      Some at1 \<Rightarrow> existing[at1 := row]
                    | None \<Rightarrow> existing @ [row])
        in (s\<lparr>s_steers := Some next\<rparr>, steer_repaint))"

definition forget_steer :: "string \<Rightarrow> session \<Rightarrow> outcome_of_op" where
  "forget_steer steer_id s =
     (case s_steers s of
        None \<Rightarrow> (s, [])
      | Some steers \<Rightarrow>
          let rest = filter (\<lambda>e. ps_id e \<noteq> steer_id) steers
          in if length rest = length steers then (s, [])
             else (with_steers s rest, steer_repaint))"

definition steer_entry_settles :: "entry \<Rightarrow> string \<Rightarrow> string option \<Rightarrow> bool" where
  "steer_entry_settles entry row_id kas =
     (if e_id entry = row_id \<or> (kas \<noteq> None \<and> kas = Some (e_id entry)) then True
      else case payload_steer entry of
             None \<Rightarrow> False
           | Some p \<Rightarrow> (case sr_resends p of None \<Rightarrow> False | Some ids \<Rightarrow> row_id \<in> set ids))"

definition holds_steer_entry :: "session \<Rightarrow> string \<Rightarrow> bool" where
  "holds_steer_entry s steer_id =
     list_ex (\<lambda>(k, state). list_ex (\<lambda>e. entry_kind_of e = K_steer
                                      \<and> steer_entry_settles e steer_id None) (ts_entries state))
       (s_turns s)"

definition adopt_steer_batch :: "session \<Rightarrow> string \<Rightarrow> string list \<Rightarrow> outcome_of_op" where
  "adopt_steer_batch s batch_id members =
     (case s_steers s of
        None \<Rightarrow> (s, [])
      | Some steers \<Rightarrow>
          if holds_steer_entry s batch_id then
            (let rest = filter (\<lambda>e. ps_id e \<notin> set members) steers
             in if length rest \<noteq> length steers then (with_steers s rest, steer_repaint) else (s, []))
          else if \<not> list_ex (\<lambda>e. ps_id e \<in> set members \<and> ps_kas e \<noteq> Some batch_id) steers
            then (s, [])
          else (with_steers s (map (\<lambda>e. if ps_id e \<in> set members
                                        then e\<lparr>ps_kas := Some batch_id\<rparr> else e) steers), [Notify]))"

text \<open>The argument of \<open>recordSteerQueued\<close>.\<close>

record steer_frame =
  sf_id :: string
  sf_text :: string
  sf_origin :: steer_origin
  sf_replaces :: "string list option"
  sf_state :: "steer_row_state option"

definition adopt_at :: "steer_frame \<Rightarrow> pending_steer list \<Rightarrow> nat option" where
  "adopt_at f existing =
     (case find_index (\<lambda>e. ps_id e = sf_id f) existing of
        Some at1 \<Rightarrow> Some at1
      | None \<Rightarrow> find_index (\<lambda>e. ps_pending e \<and> ps_text e = sf_text f) existing)"

definition queued_row :: "steer_frame \<Rightarrow> pending_steer option \<Rightarrow> pending_steer" where
  "queued_row f prev =
     \<lparr>ps_id = sf_id f, ps_text = sf_text f, ps_origin = sf_origin f, ps_pending = False,
      ps_compacted = (case prev of None \<Rightarrow> False | Some p \<Rightarrow> ps_compacted p),
      ps_kas = (case prev of None \<Rightarrow> None | Some p \<Rightarrow> ps_kas p),
      ps_unsent = (sf_state f = Some Row_unsent)\<rparr>"

definition record_steer_queued :: "steer_frame \<Rightarrow> session \<Rightarrow> outcome_of_op" where
  "record_steer_queued f s =
     (if sf_id f = '''' then (s, [])
      else if nullish (sf_replaces f) [] \<noteq> []
        then adopt_steer_batch s (sf_id f) (nullish (sf_replaces f) [])
      else if sf_state f = Some Row_removed \<or> holds_steer_entry s (sf_id f)
        then forget_steer (sf_id f) s
      else
        let existing = dock s;
            next = (case adopt_at f existing of
                      Some i \<Rightarrow> existing[i := queued_row f (Some (existing ! i))]
                    | None \<Rightarrow> existing @ [queued_row f None])
        in (s\<lparr>s_steers := Some next\<rparr>, steer_repaint))"

text \<open>The second component is the snapshot the rollback restores from.\<close>

definition drop_confirmed_steers :: "session \<Rightarrow> outcome_of_op \<times> pending_steer list" where
  "drop_confirmed_steers s =
     (case s_steers s of
        None \<Rightarrow> ((s, []), [])
      | Some prev \<Rightarrow>
          let rest = filter ps_pending prev
          in if length rest = length prev then ((s, []), [])
             else ((with_steers s rest, steer_repaint), prev))"

definition mark_steers_compacted :: "session \<Rightarrow> outcome_of_op" where
  "mark_steers_compacted s =
     (case s_steers s of
        None \<Rightarrow> (s, [])
      | Some steers \<Rightarrow>
          if list_all ps_compacted steers then (s, [])
          else (with_steers s (map (\<lambda>e. e\<lparr>ps_compacted := True\<rparr>) steers), steer_repaint))"

definition restore_steers :: "pending_steer list \<Rightarrow> session \<Rightarrow> outcome_of_op" where
  "restore_steers prev s =
     (if prev = [] then (s, []) else (with_steers s prev, steer_repaint))"

definition forget_steers :: "session \<Rightarrow> outcome_of_op" where
  "forget_steers s =
     (case s_steers s of None \<Rightarrow> (s, []) | Some _ \<Rightarrow> (with_steers s [], steer_repaint))"

text \<open>No bump of its own: the caller publishes.\<close>

definition retire_steer_rows :: "entry \<Rightarrow> session \<Rightarrow> outcome_of_op" where
  "retire_steer_rows entry s =
     (case s_steers s of
        None \<Rightarrow> (s, [])
      | Some steers \<Rightarrow>
          let rest = filter (\<lambda>e. \<not> steer_entry_settles entry (ps_id e) (ps_kas e)) steers
          in if length rest \<noteq> length steers then (with_steers s rest, [Notify]) else (s, []))"

section \<open>Facts\<close>

lemma dock_with_steers [simp]: "dock (with_steers s l) = l"
  by (simp add: dock_def with_steers_def)

lemma dock_update [simp]: "dock (s\<lparr>s_steers := Some l\<rparr>) = l"
  by (simp add: dock_def)

lemma dock_None: "s_steers s = None \<Longrightarrow> dock s = []"
  by (simp add: dock_def)

lemma dock_Some: "s_steers s = Some l \<Longrightarrow> dock s = l"
  by (simp add: dock_def)

lemma with_steers_fields [simp]:
  "s_turns (with_steers s l) = s_turns s" "s_turn_order (with_steers s l) = s_turn_order s"
  "s_turn_count (with_steers s l) = s_turn_count s" "s_reverted (with_steers s l) = s_reverted s"
  "s_residency (with_steers s l) = s_residency s" "s_has_more (with_steers s l) = s_has_more s"
  by (simp_all add: with_steers_def)

lemma dock_forget [simp]: "dock (fst (forget_steer i s)) = filter (\<lambda>e. ps_id e \<noteq> i) (dock s)"
proof (cases "s_steers s")
  case (Some l)
  then show ?thesis by (simp add: forget_steer_def Let_def dock_Some filter_same_length)
qed (simp add: forget_steer_def dock_None)

lemma dock_retire [simp]:
  "dock (fst (retire_steer_rows e s)) =
     filter (\<lambda>r. \<not> steer_entry_settles e (ps_id r) (ps_kas r)) (dock s)"
proof (cases "s_steers s")
  case (Some l)
  then show ?thesis by (simp add: retire_steer_rows_def Let_def dock_Some filter_same_length)
qed (simp add: retire_steer_rows_def dock_None)

lemma retire_fields [simp]:
  "s_turns (fst (retire_steer_rows e s)) = s_turns s"
  "s_turn_order (fst (retire_steer_rows e s)) = s_turn_order s"
  "s_turn_count (fst (retire_steer_rows e s)) = s_turn_count s"
  "s_reverted (fst (retire_steer_rows e s)) = s_reverted s"
  "s_residency (fst (retire_steer_rows e s)) = s_residency s"
  "s_has_more (fst (retire_steer_rows e s)) = s_has_more s"
  by (simp_all add: retire_steer_rows_def Let_def split: option.splits)

end
