(* ===== verification/DockFacts.thy ===== *)
theory DockFacts
  imports Dock
begin

text \<open>
  The dock over a run of frames: a row is never held twice, the empty dock is the absent field, a
  step brings back no row the log shows delivered (the run with the log's own frames is in
  EntryFacts), the server's frame for an optimistic row adopts it in place, and what a clear's
  rollback restores.
\<close>

section \<open>The dock's frames\<close>

datatype dock_frame =
    D_sent string string
  | D_queued steer_frame
  | D_forget string
  | D_drop
  | D_restore "pending_steer list"
  | D_compacted
  | D_clear
  | D_entry entry

fun dock_step :: "session \<Rightarrow> dock_frame \<Rightarrow> session" where
  "dock_step s (D_sent m t) = fst (record_steer_sent m t s)"
| "dock_step s (D_queued f) = fst (record_steer_queued f s)"
| "dock_step s (D_forget i) = fst (forget_steer i s)"
| "dock_step s D_drop = fst (fst (drop_confirmed_steers s))"
| "dock_step s (D_restore prev) = fst (restore_steers prev s)"
| "dock_step s D_compacted = fst (mark_steers_compacted s)"
| "dock_step s D_clear = fst (forget_steers s)"
| "dock_step s (D_entry e) = fst (retire_steer_rows e s)"

definition dock_ids :: "session \<Rightarrow> string list" where
  "dock_ids s = map ps_id (dock s)"

definition dock_ok :: "session \<Rightarrow> bool" where
  "dock_ok s = (distinct (dock_ids s) \<and> s_steers s \<noteq> Some [])"

fun restores_ok :: "dock_frame \<Rightarrow> bool" where
  "restores_ok (D_restore prev) = distinct (map ps_id prev)"
| "restores_ok _ = True"

section \<open>Each operation on the rows\<close>

lemma dock_drop [simp]: "dock (fst (fst (drop_confirmed_steers s))) = filter ps_pending (dock s)"
proof (cases "s_steers s")
  case (Some l)
  then show ?thesis by (simp add: drop_confirmed_steers_def Let_def dock_Some filter_same_length)
qed (simp add: drop_confirmed_steers_def dock_None)

lemma dock_compacted [simp]:
  "map ps_id (dock (fst (mark_steers_compacted s))) = map ps_id (dock s)"
proof (cases "s_steers s")
  case (Some l)
  then show ?thesis by (simp add: mark_steers_compacted_def dock_Some comp_def)
qed (simp add: mark_steers_compacted_def dock_None)

lemma dock_cleared [simp]: "dock (fst (forget_steers s)) = []"
  by (cases "s_steers s") (simp_all add: forget_steers_def dock_None)

lemma dock_restored: "dock (fst (restore_steers prev s)) = (if prev = [] then dock s else prev)"
  by (simp add: restore_steers_def)

lemma dock_sent:
  "m \<noteq> '''' \<Longrightarrow> dock (fst (record_steer_sent m t s)) =
     (let row = \<lparr>ps_id = steer_id_for m, ps_text = t, ps_origin = From_user, ps_pending = True,
                 ps_compacted = False, ps_kas = None, ps_unsent = False\<rparr>
      in case find_index (\<lambda>e. ps_id e = steer_id_for m) (dock s) of
           Some i \<Rightarrow> (dock s)[i := row] | None \<Rightarrow> dock s @ [row])"
  by (simp add: record_steer_sent_def Let_def split: option.splits)

lemma adopt_batch_ids:
  "\<exists>P. map ps_id (dock (fst (adopt_steer_batch s b ms))) = map ps_id (filter P (dock s))"
proof (cases "s_steers s")
  case None
  then show ?thesis by (auto simp: adopt_steer_batch_def dock_None)
next
  case (Some l)
  have same: "map ps_id (map (\<lambda>e. if ps_id e \<in> set ms then e\<lparr>ps_kas := Some b\<rparr> else e) l)
      = map ps_id (filter (\<lambda>_. True) l)" by simp
  show ?thesis
  proof (cases "holds_steer_entry s b")
    case True
    with Some show ?thesis
      by (auto simp: adopt_steer_batch_def Let_def dock_Some intro: exI[of _ "\<lambda>e. ps_id e \<notin> set ms"])
        (metis filter_same_length)
  next
    case False
    have "map ps_id (dock (fst (adopt_steer_batch s b ms))) = map ps_id (filter (\<lambda>_. True) (dock s))"
      using Some False by (simp add: adopt_steer_batch_def dock_Some)
    then show ?thesis by blast
  qed
qed

lemma distinct_ids_filter: "distinct (map f xs) \<Longrightarrow> distinct (map f (filter P xs))"
  by (induction xs) auto

lemma distinct_ids_upd:
  assumes "distinct (map f xs)" and "i < length xs"
    and "f x = f (xs ! i) \<or> f x \<notin> set (map f xs)"
  shows "distinct (map f (xs[i := x]))"
proof (cases "f x = f (xs ! i)")
  case True
  then have "map f (xs[i := x]) = map f xs"
    using assms(2) by (simp add: map_update list_update_same_conv)
  with assms(1) show ?thesis by simp
next
  case False
  with assms have "f x \<notin> set (map f xs)" by simp
  then show ?thesis
    using assms(1) by (simp add: map_update distinct_list_update)
qed

lemma adopt_at_Some:
  "adopt_at f rows = Some i \<Longrightarrow>
   i < length rows \<and> (ps_id (rows ! i) = sf_id f \<or> sf_id f \<notin> set (map ps_id rows))"
  by (auto simp: adopt_at_def find_index_None dest: find_index_Some split: option.splits)

lemma adopt_at_None: "adopt_at f rows = None \<Longrightarrow> sf_id f \<notin> set (map ps_id rows)"
  by (auto simp: adopt_at_def find_index_None split: option.splits)

lemma queued_row_fields [simp]:
  "ps_id (queued_row f p) = sf_id f" "ps_text (queued_row f p) = sf_text f"
  "ps_pending (queued_row f p) = False"
  by (simp_all add: queued_row_def)

lemma find_index_fresh: "i \<notin> set (map f xs) \<Longrightarrow> find_index (\<lambda>e. f e = i) xs = None"
  by (force simp: find_index_None)

lemma find_index_append:
  "find_index P (xs @ ys) = (case find_index P xs of Some i \<Rightarrow> Some i
     | None \<Rightarrow> map_option (\<lambda>i. i + length xs) (find_index P ys))"
  by (induction xs) (auto simp: option.map_comp comp_def option.map_ident split: option.splits
      intro!: option.map_cong)

lemma adopt_at_last:
  assumes "sf_id f \<notin> set (map ps_id rows)"
    and "sf_id f = ps_id row
         \<or> (ps_pending row \<and> ps_text row = sf_text f
            \<and> (\<forall>r\<in>set rows. ps_pending r \<longrightarrow> ps_text r \<noteq> sf_text f))"
  shows "adopt_at f (rows @ [row]) = Some (length rows)"
proof -
  have a: "find_index (\<lambda>e. ps_id e = sf_id f) rows = None"
    using assms(1) by (rule find_index_fresh)
  show ?thesis
  proof (cases "sf_id f = ps_id row")
    case False
    with assms(2) have "find_index (\<lambda>e. ps_pending e \<and> ps_text e = sf_text f) rows = None"
      by (auto simp: find_index_None)
    with a assms(2) False show ?thesis by (simp add: adopt_at_def find_index_append)
  qed (use a in \<open>simp add: adopt_at_def find_index_append\<close>)
qed

section \<open>The dock invariant\<close>

lemma ok_with_steers: "distinct (map ps_id l) \<Longrightarrow> dock_ok (with_steers s l)"
  by (simp add: dock_ok_def dock_ids_def) (simp add: with_steers_def)

lemma ok_Some: "l \<noteq> [] \<Longrightarrow> distinct (map ps_id l) \<Longrightarrow> dock_ok (s\<lparr>s_steers := Some l\<rparr>)"
  by (simp add: dock_ok_def dock_ids_def)

lemma ok_distinct: "dock_ok s \<Longrightarrow> distinct (map ps_id (dock s))"
  by (simp add: dock_ok_def dock_ids_def)

lemma ok_Some_distinct: "dock_ok s \<Longrightarrow> s_steers s = Some l \<Longrightarrow> distinct (map ps_id l)"
  by (simp add: dock_ok_def dock_ids_def dock_Some)

lemma ok_forget: "dock_ok s \<Longrightarrow> dock_ok (fst (forget_steer i s))"
  by (auto simp: forget_steer_def Let_def ok_with_steers distinct_ids_filter ok_Some_distinct
      split: option.splits)

lemma ok_retire: "dock_ok s \<Longrightarrow> dock_ok (fst (retire_steer_rows e s))"
  by (auto simp: retire_steer_rows_def Let_def ok_with_steers distinct_ids_filter ok_Some_distinct
      split: option.splits)

lemma ok_drop: "dock_ok s \<Longrightarrow> dock_ok (fst (fst (drop_confirmed_steers s)))"
  by (auto simp: drop_confirmed_steers_def Let_def ok_with_steers distinct_ids_filter
      ok_Some_distinct split: option.splits)

lemma ok_compacted: "dock_ok s \<Longrightarrow> dock_ok (fst (mark_steers_compacted s))"
  by (auto simp: mark_steers_compacted_def ok_with_steers ok_Some_distinct comp_def
      split: option.splits)

lemma ok_cleared: "dock_ok s \<Longrightarrow> dock_ok (fst (forget_steers s))"
  by (auto simp: forget_steers_def ok_with_steers split: option.splits)

lemma ok_restored: "dock_ok s \<Longrightarrow> distinct (map ps_id prev) \<Longrightarrow> dock_ok (fst (restore_steers prev s))"
  by (simp add: restore_steers_def ok_with_steers)

lemma ok_sent: "dock_ok s \<Longrightarrow> dock_ok (fst (record_steer_sent m t s))"
proof -
  assume ok: "dock_ok s"
  let ?row = "\<lparr>ps_id = steer_id_for m, ps_text = t, ps_origin = From_user, ps_pending = True,
               ps_compacted = False, ps_kas = None, ps_unsent = False\<rparr>"
  have "dock_ok (s\<lparr>s_steers := Some
      (case find_index (\<lambda>e. ps_id e = steer_id_for m) (dock s) of
         Some i \<Rightarrow> (dock s)[i := ?row] | None \<Rightarrow> dock s @ [?row])\<rparr>)"
    using ok_distinct[OF ok]
    by (force dest!: find_index_Some simp: find_index_None intro!: ok_Some distinct_ids_upd
        split: option.splits)
  with ok show ?thesis by (simp add: record_steer_sent_def Let_def)
qed

lemma ok_batch: "dock_ok s \<Longrightarrow> dock_ok (fst (adopt_steer_batch s b ms))"
  by (auto simp: adopt_steer_batch_def Let_def ok_with_steers distinct_ids_filter ok_Some_distinct
      comp_def if_distrib cong: if_cong split: option.splits)

lemma ok_queued: "dock_ok s \<Longrightarrow> dock_ok (fst (record_steer_queued f s))"
proof -
  assume ok: "dock_ok s"
  have plain: "dock_ok (s\<lparr>s_steers := Some
      (case adopt_at f (dock s) of Some i \<Rightarrow> (dock s)[i := queued_row f (Some (dock s ! i))]
       | None \<Rightarrow> dock s @ [queued_row f None])\<rparr>)"
    using ok_distinct[OF ok]
    by (auto dest!: adopt_at_Some adopt_at_None intro!: ok_Some distinct_ids_upd split: option.splits)
  show ?thesis
    using ok plain by (simp add: record_steer_queued_def ok_batch ok_forget Let_def)
qed

interpretation dock: frame_machine dock_step restores_ok dock_ok
proof
  fix s f assume "dock_ok s" "restores_ok f"
  then show "dock_ok (dock_step s f)"
    by (cases f) (simp_all add: ok_sent ok_queued ok_forget ok_drop ok_restored ok_compacted
        ok_cleared ok_retire)
qed

section \<open>A delivered steer\<close>

fun not_resent :: "string \<Rightarrow> dock_frame \<Rightarrow> bool" where
  "not_resent i (D_restore prev) = (i \<notin> set (map ps_id prev))"
| "not_resent i (D_sent m t) = (steer_id_for m \<noteq> i)"
| "not_resent i _ = True"

lemma holds_turns: "s_turns s' = s_turns s \<Longrightarrow> holds_steer_entry s' i = holds_steer_entry s i"
  by (simp add: holds_steer_entry_def)

lemma dock_step_turns [simp]: "s_turns (dock_step s f) = s_turns s"
  by (cases f)
     (auto simp: record_steer_sent_def record_steer_queued_def forget_steer_def Let_def
        adopt_steer_batch_def drop_confirmed_steers_def restore_steers_def mark_steers_compacted_def
        forget_steers_def split: option.splits)

lemma set_upd_subset: "x \<in> set (map f (xs[i := y])) \<Longrightarrow> x = f y \<or> x \<in> set (map f xs)"
  by (auto simp: map_update dest: set_update_subset_insert[THEN subsetD])

lemma set_filter_ids: "x \<in> set (map f (filter P xs)) \<Longrightarrow> x \<in> set (map f xs)"
  by auto

lemma sent_ids:
  "x \<in> set (dock_ids (fst (record_steer_sent m t s))) \<Longrightarrow> x \<in> set (dock_ids s) \<or> x = steer_id_for m"
  by (cases "m = ''''")
     (auto simp: dock_ids_def dock_sent Let_def record_steer_sent_def simp del: set_map
        dest!: set_upd_subset split: option.splits)

lemma queued_ids:
  assumes "x \<in> set (dock_ids (fst (record_steer_queued f s)))"
  shows "x \<in> set (dock_ids s) \<or> (x = sf_id f \<and> \<not> holds_steer_entry s (sf_id f))"
proof -
  obtain P where P: "map ps_id (dock (fst (adopt_steer_batch s (sf_id f) (nullish (sf_replaces f) []))))
      = map ps_id (filter P (dock s))"
    using adopt_batch_ids[of s "sf_id f" "nullish (sf_replaces f) []"] by auto
  show ?thesis
  proof (cases "sf_id f = '''' \<or> nullish (sf_replaces f) [] \<noteq> []
                \<or> sf_state f = Some Row_removed \<or> holds_steer_entry s (sf_id f)")
    case True
    then have "dock_ids (fst (record_steer_queued f s)) = dock_ids s
        \<or> dock_ids (fst (record_steer_queued f s)) = map ps_id (filter P (dock s))
        \<or> dock_ids (fst (record_steer_queued f s))
            = map ps_id (filter (\<lambda>e. ps_id e \<noteq> sf_id f) (dock s))"
      by (elim disjE) (simp_all add: record_steer_queued_def dock_ids_def P del: map_eq_conv)
    with assms show ?thesis by (metis dock_ids_def set_filter_ids)
  next
    case False
    then have "dock_ids (fst (record_steer_queued f s)) =
        map ps_id (case adopt_at f (dock s) of
           Some i \<Rightarrow> (dock s)[i := queued_row f (Some (dock s ! i))]
         | None \<Rightarrow> dock s @ [queued_row f None])"
      by (simp add: record_steer_queued_def dock_ids_def Let_def)
    with assms False show ?thesis
      by (auto simp: dock_ids_def simp del: set_map dest!: set_upd_subset split: option.splits)
  qed
qed

lemma shrinking_ids:
  "x \<in> set (dock_ids (fst (forget_steer i s))) \<Longrightarrow> x \<in> set (dock_ids s)"
  "x \<in> set (dock_ids (fst (fst (drop_confirmed_steers s)))) \<Longrightarrow> x \<in> set (dock_ids s)"
  "x \<in> set (dock_ids (fst (mark_steers_compacted s))) \<Longrightarrow> x \<in> set (dock_ids s)"
  "x \<in> set (dock_ids (fst (forget_steers s))) \<Longrightarrow> x \<in> set (dock_ids s)"
  "x \<in> set (dock_ids (fst (retire_steer_rows e s))) \<Longrightarrow> x \<in> set (dock_ids s)"
  unfolding dock_ids_def dock_compacted by auto

lemma restored_ids:
  "x \<in> set (dock_ids (fst (restore_steers prev s))) \<Longrightarrow>
   x \<in> set (dock_ids s) \<or> x \<in> set (map ps_id prev)"
  by (auto simp: dock_ids_def dock_restored split: if_splits)

lemma dock_step_ids:
  assumes "x \<in> set (dock_ids (dock_step s f))"
  shows "x \<in> set (dock_ids s) \<or> \<not> not_resent x f
         \<or> (\<exists>g. f = D_queued g \<and> x = sf_id g \<and> \<not> holds_steer_entry s x)"
proof (cases f)
  case (D_sent m t)
  with assms sent_ids[of x m t s] show ?thesis by auto
next
  case (D_queued g)
  with assms queued_ids[of x g s] show ?thesis by auto
next
  case (D_restore prev)
  with assms restored_ids[of x prev s] show ?thesis by auto
qed (use assms in \<open>auto dest: shrinking_ids\<close>)

section \<open>Sample values\<close>

definition sample_frame :: steer_frame where
  "sample_frame = \<lparr>sf_id = ''steer-m1'', sf_text = ''go'', sf_origin = From_user,
                   sf_replaces = None, sf_state = None\<rparr>"

definition sample_session :: session where
  "sample_session = row_of_header
     \<lparr>h_id = ''c1'', h_name = ''Chat'', h_model = None, h_acp_session_id = None,
      h_current_mode_id = None, h_effort = None, h_last_turn_outcome = None,
      h_effort_active = None, h_pending_model = None, h_effort_levels = None,
      h_compaction_watermark = None, h_prior_acp_session_ids = None, h_usage = default_usage,
      h_created_at = 0, h_updated_at = 0, h_turn_count = 0, h_supervised_mode = None\<rparr>"

definition sample_steer_entry :: entry where
  "sample_steer_entry =
     \<lparr>e_id = ''steer-m1'', e_turn = ''t1'', e_lane = None,
      e_payload = P_steer \<lparr>sr_text = ''go'', sr_origin = From_user, sr_state = Steer_read,
        sr_reason = None, sr_severity = None, sr_origin_run = None, sr_resends = None,
        sr_produced_ts = None\<rparr>,
      e_seq = 0, e_ts = 0\<rparr>"

lemma sample_session_fields [simp]:
  "s_steers sample_session = None" "s_turns sample_session = []" "dock sample_session = []"
  by (simp_all add: sample_session_def row_of_header_def dock_def)

section \<open>Properties\<close>

text \<open>
  Whatever frames, sends, clears, rollbacks and entries arrive and in whatever order, the dock
  never holds two rows under one id, and an empty dock is always the absent field, as the value
  comparison of the badge needs.
\<close>

theorem dock_rows_unique:
  assumes "dock_ok s" and "list_all restores_ok fs"
  shows "distinct (dock_ids (foldl dock_step s fs)) \<and> s_steers (foldl dock_step s fs) \<noteq> Some []"
  using dock.run_inv[OF assms] by (simp add: dock_ok_def)

theorem dock_rows_unique_witness:
  "distinct (dock_ids (foldl dock_step sample_session [D_sent ''m1'' ''go'', D_queued sample_frame]))
   \<and> s_steers (foldl dock_step sample_session [D_sent ''m1'' ''go'', D_queued sample_frame]) \<noteq> Some []"
  by (rule dock_rows_unique) (simp_all add: dock_ok_def dock_ids_def)

text \<open>
  The server's frame for a message this device just sent adopts the optimistic row in place: one
  row, at the end where it was drawn, confirmed and carrying the server's words, whether the frame
  names the derived id or another id with the same text.
\<close>

theorem optimistic_steer_adopted:
  assumes "m \<noteq> ''''" and "steer_id_for m \<notin> set (dock_ids s)"
    and "sf_id f \<noteq> ''''" and "nullish (sf_replaces f) [] = []" and "sf_state f \<noteq> Some Row_removed"
    and "\<not> holds_steer_entry s (sf_id f)" and "sf_id f \<notin> set (dock_ids s)"
    and "sf_id f = steer_id_for m
         \<or> (sf_text f = t \<and> (\<forall>r\<in>set (dock s). ps_pending r \<longrightarrow> ps_text r \<noteq> t))"
  shows "dock (fst (record_steer_queued f (fst (record_steer_sent m t s))))
           = dock s @ [queued_row f None]"
proof -
  let ?row = "\<lparr>ps_id = steer_id_for m, ps_text = t, ps_origin = From_user, ps_pending = True,
               ps_compacted = False, ps_kas = None, ps_unsent = False\<rparr>"
  have "find_index (\<lambda>e. ps_id e = steer_id_for m) (dock s) = None"
    using assms(2) by (simp add: find_index_fresh dock_ids_def)
  then have sent: "fst (record_steer_sent m t s) = s\<lparr>s_steers := Some (dock s @ [?row])\<rparr>"
    using assms(1) by (simp add: record_steer_sent_def)
  have at1: "adopt_at f (dock s @ [?row]) = Some (length (dock s))"
    using assms(7,8) by (intro adopt_at_last) (auto simp: dock_ids_def)
  have "\<not> holds_steer_entry (s\<lparr>s_steers := Some (dock s @ [?row])\<rparr>) (sf_id f)"
    using assms(6) by (simp add: holds_steer_entry_def)
  with sent at1 assms(3-5) show ?thesis
    by (simp add: record_steer_queued_def) (simp add: queued_row_def)
qed

theorem optimistic_steer_adopted_witness:
  "dock (fst (record_steer_queued sample_frame (fst (record_steer_sent ''m1'' ''go'' sample_session))))
     = dock sample_session @ [queued_row sample_frame None]"
  by (rule optimistic_steer_adopted)
     (simp_all add: sample_frame_def steer_id_for_def dock_ids_def holds_steer_entry_def)

text \<open>
  A refused clear puts back the exact rows it took, in their order; but it puts back nothing
  else: a steer sent between the clear and its refusal is overwritten by the snapshot and leaves
  the dock until a frame names it again.
\<close>

theorem refused_clear_restores:
  assumes "prev = snd (drop_confirmed_steers s)" and "prev \<noteq> []"
  shows "dock (fst (restore_steers prev (fst (fst (drop_confirmed_steers s))))) = dock s
       \<and> dock (fst (restore_steers prev
           (fst (record_steer_sent m t (fst (fst (drop_confirmed_steers s))))))) = dock s"
proof -
  have "prev = dock s"
    using assms by (auto simp: drop_confirmed_steers_def Let_def dock_Some split: option.splits if_splits)
  with assms(2) show ?thesis by (simp add: dock_restored)
qed

theorem refused_clear_restores_witness:
  "dock (fst (restore_steers [queued_row sample_frame None]
      (fst (fst (drop_confirmed_steers (with_steers sample_session [queued_row sample_frame None]))))))
   = dock (with_steers sample_session [queued_row sample_frame None])
   \<and> dock (fst (restore_steers [queued_row sample_frame None]
      (fst (record_steer_sent ''m2'' ''more''
        (fst (fst (drop_confirmed_steers (with_steers sample_session [queued_row sample_frame None]))))))))
   = dock (with_steers sample_session [queued_row sample_frame None])"
  by (rule refused_clear_restores)
     (simp_all add: drop_confirmed_steers_def with_steers_def)

end
