(* ===== verification/EntryLog.thy ===== *)
theory EntryLog
  imports Dock ToolCalls
begin

text \<open>
  The entry log: the operations over a chat's turns (static-src/store.ts, "The entry log"). A
  value whose position does not fit is a hole: the window is marked stale and the one range read
  that closes it is asked for. Operations answer with the new row and their effects in order; a
  chat the store does not hold is \<open>with_chat\<close>'s early return.
\<close>

section \<open>Holes and publication\<close>

definition mark_hole :: "string \<Rightarrow> int option \<Rightarrow> session \<Rightarrow> outcome_of_op" where
  "mark_hole turn_id after_seq s = (mark_window_stale s, [Repair turn_id after_seq])"

definition publish_entry :: "render_cause \<Rightarrow> effect list" where
  "publish_entry cause = (if cause = Shape then [Bump cause] else [Schedule cause None])"

section \<open>Turns opening and leaving\<close>

definition fresh_turn :: "entry \<Rightarrow> turn_state" where
  "fresh_turn e = \<lparr>ts_entries = [e], ts_open = [], ts_close_at = None\<rparr>"

definition recount :: "int \<Rightarrow> session \<Rightarrow> session" where
  "recount n s = s\<lparr>s_turn_count := n, s_has_more := derived_has_more n (length (s_turn_order s))\<rparr>"

definition open_turn :: "entry \<Rightarrow> session \<Rightarrow> outcome_of_op" where
  "open_turn e s =
     (if map_of (s_turns s) (e_turn e) \<noteq> None then (s, [])
      else
        let s1 = note_resident_mutation s;
            s2 = s1\<lparr>s_turns := AList.update (e_turn e) (fresh_turn e) (s_turns s1),
                    s_turn_order := s_turn_order s1 @ [e_turn e]\<rparr>;
            n = (case payload_turn_open e of None \<Rightarrow> 0 | Some p \<Rightarrow> to_n p)
        in (recount (max (s_turn_count s2) n) s2, [Stamp_activity, Bump Shape]))"

definition held_ordinal :: "turn_state option \<Rightarrow> int option" where
  "held_ordinal state =
     (case state of
        None \<Rightarrow> None
      | Some st \<Rightarrow>
          (case nth_opt (ts_entries st) 0 of
             None \<Rightarrow> None
           | Some e \<Rightarrow>
               if entry_kind_of e \<noteq> K_turn_open then None
               else map_option to_n (payload_turn_open e)))"

definition takes_turn :: "int \<Rightarrow> entry \<Rightarrow> (string \<times> turn_state) list \<Rightarrow> string \<Rightarrow> bool" where
  "takes_turn from_n e turns id1 =
     (id1 \<noteq> e_turn e
      \<and> (case held_ordinal (map_of turns id1) of None \<Rightarrow> False | Some n \<Rightarrow> n \<ge> from_n))"

fun dropped_ids :: "int \<Rightarrow> entry \<Rightarrow> (string \<times> turn_state) list \<Rightarrow> string list \<Rightarrow> string list" where
  "dropped_ids from_n e turns [] = []"
| "dropped_ids from_n e turns (id1 # ids) =
     (let rest = dropped_ids from_n e turns ids
      in if takes_turn from_n e turns id1 then id1 # filter (\<lambda>x. x \<noteq> id1) rest else rest)"

definition drop_turns :: "string list \<Rightarrow> session \<Rightarrow> session" where
  "drop_turns dropped s =
     s\<lparr>s_turns := filter (\<lambda>(k, st). k \<notin> set dropped) (s_turns s),
       s_turn_order := filter (\<lambda>x. x \<notin> set dropped) (s_turn_order s),
       s_reverted := Some (nullish (s_reverted s) []
                           @ filter (\<lambda>x. x \<notin> set (nullish (s_reverted s) [])) dropped)\<rparr>"

definition apply_revert :: "entry \<Rightarrow> session \<Rightarrow> outcome_of_op" where
  "apply_revert e s =
     (case payload_turn_revert e of
        None \<Rightarrow> (s, [])
      | Some r \<Rightarrow>
          let dropped = dropped_ids (rv_from_n r) e (s_turns s) (s_turn_order s);
              s1 = (if dropped = [] then s else drop_turns dropped s);
              carrier = nullish (held_ordinal (map_of (s_turns s1) (e_turn e))) 0
          in (recount (max (rv_from_n r - 1) carrier) s1,
              (if dropped = [] then [] else [Clear_signals dropped]) @ [Abort_reads dropped]))"

section \<open>Appending a sealed entry\<close>

definition publish_settled_call :: "turn_state \<Rightarrow> entry \<Rightarrow> effect list" where
  "publish_settled_call st e =
     (case (call_id_of_tool_result (e_id e), payload_tool_result e) of
        (Some call_id, Some result) \<Rightarrow>
          (case held_tool_call (ts_entries st) call_id of
             None \<Rightarrow> []
           | Some call \<Rightarrow> [Publish_call (e_turn e) (settled_tool_call call (Some result))])
      | _ \<Rightarrow> [])"

definition seat_entry :: "entry \<Rightarrow> turn_state \<Rightarrow> turn_state" where
  "seat_entry e st =
     st\<lparr>ts_entries := ts_entries st @ [e],
        ts_close_at := (if entry_kind_of e = K_turn_close then Some (e_seq e) else ts_close_at st)\<rparr>"

definition append_in_turn :: "entry \<Rightarrow> turn_state \<Rightarrow> session \<Rightarrow> outcome_of_op" where
  "append_in_turn e st s =
     (let st' = seat_entry e st;
          s1 = (note_resident_mutation s)\<lparr>s_turns := AList.update (e_turn e) st' (s_turns s)\<rparr>;
          (s2, retired) = (if entry_kind_of e = K_steer then retire_steer_rows e s1 else (s1, []));
          settled = (if entry_kind_of e = K_tool_result then publish_settled_call st' e else []);
          (s3, reverted) = (if entry_kind_of e = K_turn_revert then apply_revert e s2 else (s2, []))
      in (s3, [Stamp_activity] @ retired @ settled @ reverted
              @ [Bump_lane (e_turn e) (lane_of e)] @ publish_entry (entry_cause (e_lane e))))"

definition append_entry :: "entry \<Rightarrow> session \<Rightarrow> outcome_of_op" where
  "append_entry e s =
     (case map_of (s_turns s) (e_turn e) of
        None \<Rightarrow>
          if entry_kind_of e = K_turn_revert
          then (let (s1, es) = apply_revert e s in (s1, es @ publish_entry Shape))
          else mark_hole (e_turn e) None s
      | Some st \<Rightarrow>
          if e_seq e \<noteq> int (length (ts_entries st))
          then (if map_option e_id (nth_opt (ts_entries st) (e_seq e)) = Some (e_id e) then (s, [])
                else mark_hole (e_turn e) (Some (int (length (ts_entries st)) - 1)) s)
          else append_in_turn e st s)"

section \<open>A lane's open entry\<close>

definition with_turn :: "string \<Rightarrow> turn_state \<Rightarrow> session \<Rightarrow> session" where
  "with_turn t st s = s\<lparr>s_turns := AList.update t st (s_turns s)\<rparr>"

definition open_lane_entry :: "open_entry \<Rightarrow> session \<Rightarrow> outcome_of_op" where
  "open_lane_entry oe s =
     (case map_of (s_turns s) (oe_turn oe) of
        None \<Rightarrow> mark_hole (oe_turn oe) None s
      | Some st \<Rightarrow>
          let lane = nullish (oe_lane oe) '''';
              st' = st\<lparr>ts_open := AList.update lane (oe\<lparr>oe_lane := Some lane\<rparr>) (ts_open st)\<rparr>
          in (with_turn (oe_turn oe) st' s,
              [Stamp_activity, Ensure_text (oe_turn oe) (oe_id oe) (oe_text oe),
               Bump_lane (oe_turn oe) lane] @ publish_entry (entry_cause (Some lane))))"

text \<open>
  \<open>painted\<close> is \<open>writeEntryText\<close>'s answer: whether a cell exists to carry the delta. The first
  argument of \<open>entry_cause\<close> is the lane in every case.
\<close>

definition apply_delta ::
    "bool \<Rightarrow> string \<Rightarrow> string \<Rightarrow> string \<Rightarrow> int \<Rightarrow> string \<Rightarrow> session \<Rightarrow> outcome_of_op" where
  "apply_delta painted turn entry_id lane n delta s =
     (case map_of (s_turns s) turn of
        None \<Rightarrow> mark_hole turn None s
      | Some st \<Rightarrow>
          let hole = mark_hole turn (Some (int (length (ts_entries st)) - 1)) s
          in case map_of (ts_open st) lane of
               None \<Rightarrow> hole
             | Some oe \<Rightarrow>
                 if oe_id oe \<noteq> entry_id \<or> n \<noteq> oe_n oe + 1 then hole
                 else let full = oe_text oe @ delta;
                          st' = st\<lparr>ts_open := AList.update lane (oe\<lparr>oe_text := full, oe_n := n\<rparr>)
                                                (ts_open st)\<rparr>
                      in (with_turn turn st' s,
                          [Stamp_activity, Write_text turn entry_id full delta, Bump_lane turn lane]
                          @ publish_entry (if painted then Chunk else entry_cause (Some lane))))"

definition sealed_entry :: "open_entry \<Rightarrow> string \<Rightarrow> string \<Rightarrow> int \<Rightarrow> int \<Rightarrow> entry" where
  "sealed_entry oe turn lane seq ts =
     \<lparr>e_id = oe_id oe, e_turn = turn, e_lane = Some lane,
      e_payload = prose_payload (oe_kind oe) (oe_text oe), e_seq = seq, e_ts = ts\<rparr>"

definition seal_entry ::
    "string \<Rightarrow> string \<Rightarrow> string \<Rightarrow> int \<Rightarrow> int \<Rightarrow> int \<Rightarrow> session \<Rightarrow> outcome_of_op" where
  "seal_entry turn entry_id lane seq ts n s =
     (case map_of (s_turns s) turn of
        None \<Rightarrow> mark_hole turn None s
      | Some st \<Rightarrow>
          let hole = mark_hole turn (Some (int (length (ts_entries st)) - 1)) s
          in case map_of (ts_open st) lane of
               None \<Rightarrow> hole
             | Some oe \<Rightarrow>
                 if oe_id oe \<noteq> entry_id \<or> n \<noteq> oe_n oe then hole
                 else let st' = st\<lparr>ts_open := AList.delete lane (ts_open st)\<rparr>;
                          (s', es) = append_entry (sealed_entry oe turn lane seq ts)
                                       (with_turn turn st' s)
                      in (s', Clear_text turn entry_id # es))"

section \<open>The live facts of a turn that has not closed\<close>

type_synonym 'a per_turn = "(string \<times> (string \<times> 'a) list) list"

text \<open>\<open>liveCodeRefs\<close> replaces; \<open>liveRefusals\<close> keeps the first.\<close>

definition set_code_references ::
    "string \<Rightarrow> string \<Rightarrow> code_reference list \<Rightarrow> session option
     \<Rightarrow> code_reference list per_turn \<Rightarrow> code_reference list per_turn \<times> effect list" where
  "set_code_references chat turn_id refs row m =
     (case row of
        None \<Rightarrow> (m, [])
      | Some s \<Rightarrow>
          if map_of (s_turns s) turn_id = None then (m, [])
          else (AList.update chat
                  (AList.update turn_id refs (nullish (map_of m chat) [])) m,
                [Schedule Fact None]))"

definition live_fact_for :: "string \<Rightarrow> string \<Rightarrow> 'a per_turn \<Rightarrow> 'a option" where
  "live_fact_for chat turn_id m =
     (case map_of m chat of None \<Rightarrow> None | Some by_turn \<Rightarrow> map_of by_turn turn_id)"

definition set_live_refusal ::
    "string \<Rightarrow> string \<Rightarrow> refusal_info \<Rightarrow> session option
     \<Rightarrow> refusal_info per_turn \<Rightarrow> refusal_info per_turn \<times> effect list" where
  "set_live_refusal chat turn_id refusal row m =
     (case row of
        None \<Rightarrow> (m, [])
      | Some s \<Rightarrow>
          if map_of (s_turns s) turn_id = None then (m, [])
          else let by_turn = nullish (map_of m chat) []
               in if map_of by_turn turn_id \<noteq> None then (m, [])
                  else (AList.update chat (AList.update turn_id refusal by_turn) m, [Bump Shape]))"

definition clear_live_turn_facts :: "string \<Rightarrow> 'a per_turn \<Rightarrow> 'a per_turn" where
  "clear_live_turn_facts chat m = AList.delete chat m"

end
