(* ===== verification/EntryFacts.thy ===== *)
theory EntryFacts
  imports EntryLog DockFacts
begin

text \<open>
  What the entry log keeps: every window the operations can reach is well formed (positions are the
  indices, each turn starts with its \<open>turn_open\<close>, the cached close is the scan's answer, the count
  covers every held ordinal), an entry is appended only where it fits, a replay changes nothing, a
  streamed entry is sealed as the text that was streamed, a revert removes exactly the turns at
  or past its cut, and a steer the log shows delivered stays out of the dock.
\<close>

section \<open>Well-formed turns\<close>

definition seqs_fit :: "string \<Rightarrow> entry list \<Rightarrow> bool" where
  "seqs_fit k es = (map (\<lambda>e. (e_seq e, e_turn e)) es = map (\<lambda>i. (int i, k)) [0..<length es])"

fun last_close :: "entry list \<Rightarrow> int option" where
  "last_close [] = None"
| "last_close (e # es) =
     (case last_close es of
        Some i \<Rightarrow> Some (i + 1)
      | None \<Rightarrow> if entry_kind_of e = K_turn_close then Some 0 else None)"

definition starts_open :: "entry list \<Rightarrow> bool" where
  "starts_open es = (case es of [] \<Rightarrow> False | e # _ \<Rightarrow> entry_kind_of e = K_turn_open)"

definition wf_turn :: "string \<Rightarrow> turn_state \<Rightarrow> bool" where
  "wf_turn k st =
     (seqs_fit k (ts_entries st) \<and> starts_open (ts_entries st)
      \<and> ts_close_at st = last_close (ts_entries st)
      \<and> list_all (\<lambda>(l, oe). oe_turn oe = k \<and> oe_lane oe = Some l) (ts_open st)
      \<and> distinct (keys (ts_open st)))"

definition wf_turns :: "(string \<times> turn_state) list \<Rightarrow> bool" where
  "wf_turns m = (distinct (keys m) \<and> list_all (\<lambda>(k, st). wf_turn k st) m)"

definition ordinal_of :: "turn_state \<Rightarrow> int" where
  "ordinal_of st = nullish (held_ordinal (Some st)) 0"

definition wf_window :: "session \<Rightarrow> bool" where
  "wf_window s =
     (wf_turns (s_turns s) \<and> distinct (s_turn_order s)
      \<and> set (s_turn_order s) = set (keys (s_turns s))
      \<and> list_all (\<lambda>(k, st). ordinal_of st \<le> s_turn_count s) (s_turns s)
      \<and> 0 \<le> s_turn_count s)"

section \<open>Positions\<close>

lemma seqs_fit_snoc:
  "seqs_fit k (es @ [e]) \<longleftrightarrow> seqs_fit k es \<and> e_seq e = int (length es) \<and> e_turn e = k"
  by (auto simp: seqs_fit_def)

lemma seqs_fit_nth:
  assumes "seqs_fit k es" and "i < length es"
  shows "e_seq (es ! i) = int i \<and> e_turn (es ! i) = k"
proof -
  have "map (\<lambda>e. (e_seq e, e_turn e)) es ! i = map (\<lambda>i. (int i, k)) [0..<length es] ! i"
    using assms(1) by (simp add: seqs_fit_def)
  then show ?thesis using assms(2) by simp
qed

lemma last_close_snoc:
  "last_close (es @ [e]) =
     (if entry_kind_of e = K_turn_close then Some (int (length es)) else last_close es)"
  by (induction es) auto

lemma last_close_None: "last_close es = None \<longleftrightarrow> (\<forall>e\<in>set es. entry_kind_of e \<noteq> K_turn_close)"
  by (induction es) (auto split: option.splits)

lemma last_close_Some:
  "last_close es = Some i \<Longrightarrow>
   0 \<le> i \<and> nat i < length es \<and> close_of_body es = payload_turn_close (es ! nat i)"
proof (induction es arbitrary: i rule: rev_induct)
  case (snoc e es)
  show ?case
  proof (cases "entry_kind_of e = K_turn_close")
    case True
    with snoc.prems show ?thesis
      by (auto simp: last_close_snoc close_of_body_def kind_of_payload payload_turn_close_def
          nth_append split: option.splits)
  next
    case False
    with snoc.prems have "last_close es = Some i" by (simp add: last_close_snoc)
    from snoc.IH[OF this] False show ?thesis
      by (auto simp: close_of_body_def payload_reader_None nth_append split: option.splits)
         (metis payload_reader_None(2) option.distinct(1))
  qed
qed simp

lemma starts_open_snoc: "starts_open (es @ [e]) \<longleftrightarrow> (if es = [] then entry_kind_of e = K_turn_open else starts_open es)"
  by (cases es) (auto simp: starts_open_def)

lemma held_ordinal_None [simp]: "held_ordinal None = None"
  by (simp add: held_ordinal_def)

lemma held_ordinal_first:
  "starts_open (ts_entries st) \<Longrightarrow> held_ordinal (Some st) = map_option to_n (turn_open_of st)"
  by (cases "ts_entries st")
     (auto simp: held_ordinal_def starts_open_def nth_opt_def turn_open_of_def)

lemma held_ordinal_seat:
  "ts_entries st \<noteq> [] \<Longrightarrow> held_ordinal (Some (seat_entry e st)) = held_ordinal (Some st)"
  by (auto simp: held_ordinal_def seat_entry_def nth_opt_def nth_append)

lemma held_ordinal_open [simp]:
  "held_ordinal (Some (st\<lparr>ts_open := m\<rparr>)) = held_ordinal (Some st)"
  by (simp add: held_ordinal_def)

lemma wf_turn_nonempty: "wf_turn k st \<Longrightarrow> ts_entries st \<noteq> []"
  by (auto simp: wf_turn_def starts_open_def)

lemma wf_turn_fresh:
  "entry_kind_of e = K_turn_open \<Longrightarrow> e_seq e = 0 \<Longrightarrow> e_turn e = k \<Longrightarrow> wf_turn k (fresh_turn e)"
  by (simp add: wf_turn_def fresh_turn_def seqs_fit_def starts_open_def)

lemma wf_turn_seat:
  assumes "wf_turn k st" and "e_seq e = int (length (ts_entries st))" and "e_turn e = k"
  shows "wf_turn k (seat_entry e st)"
  using assms wf_turn_nonempty[OF assms(1)]
  by (simp add: wf_turn_def seat_entry_def seqs_fit_snoc starts_open_snoc last_close_snoc)

lemma wf_turn_open_set:
  assumes "wf_turn k st" and "oe_turn oe = k" and "oe_lane oe = Some l"
  shows "wf_turn k (st\<lparr>ts_open := AList.update l oe (ts_open st)\<rparr>)"
proof -
  have "list_all (\<lambda>(l, oe). oe_turn oe = k \<and> oe_lane oe = Some l) (AList.update l oe m)"
    if "list_all (\<lambda>(l, oe). oe_turn oe = k \<and> oe_lane oe = Some l) m" for m
    using that assms(2,3) by (induction m) auto
  with assms show ?thesis by (simp add: wf_turn_def distinct_update)
qed

lemma wf_turn_open_delete: "wf_turn k st \<Longrightarrow> wf_turn k (st\<lparr>ts_open := AList.delete l (ts_open st)\<rparr>)"
proof -
  have "list_all P (AList.delete l m)" if "list_all P m" for m :: "(string \<times> open_entry) list" and P
    using that by (induction m) auto
  then show "wf_turn k st \<Longrightarrow> ?thesis" by (simp add: wf_turn_def distinct_keys_delete)
qed

lemma wf_turns_lookup: "wf_turns m \<Longrightarrow> map_of m k = Some st \<Longrightarrow> wf_turn k st"
  by (auto simp: wf_turns_def list_all_iff dest!: map_of_SomeD)

lemma list_all_update:
  "list_all (\<lambda>(k, v). P k v) m \<Longrightarrow> P k v \<Longrightarrow> list_all (\<lambda>(k, v). P k v) (AList.update k v m)"
  by (induction m) auto

lemma wf_turns_update: "wf_turns m \<Longrightarrow> wf_turn k st \<Longrightarrow> wf_turns (AList.update k st m)"
  by (simp add: wf_turns_def distinct_update list_all_update)

section \<open>Each operation keeps the window well formed\<close>

lemma wf_window_same:
  assumes "s_turns s' = s_turns s" "s_turn_order s' = s_turn_order s" "s_turn_count s' = s_turn_count s"
  shows "wf_window s' = wf_window s"
  using assms by (simp add: wf_window_def)

lemma wf_stale [simp]: "wf_window (mark_window_stale s) = wf_window s"
  by (rule wf_window_same) simp_all

lemma wf_hole [simp]: "wf_window (fst (mark_hole t a s)) = wf_window s"
  by (simp add: mark_hole_def)

lemma wf_window_turn:
  assumes "wf_window s" and "map_of (s_turns s) k = Some st" and "wf_turn k st'"
    and "ordinal_of st' = ordinal_of st"
    and "s_turns s' = AList.update k st' (s_turns s)" "s_turn_order s' = s_turn_order s"
      "s_turn_count s' = s_turn_count s"
  shows "wf_window s'"
proof -
  have "ordinal_of st \<le> s_turn_count s"
    using assms(1,2) by (auto simp: wf_window_def list_all_iff dest!: map_of_SomeD)
  then have "list_all (\<lambda>(k, st). ordinal_of st \<le> s_turn_count s) (AList.update k st' (s_turns s))"
    using assms(1,4) by (intro list_all_update) (auto simp: wf_window_def)
  moreover have "k \<in> set (keys (s_turns s))" using assms(2) by (rule map_of_in_keys)
  ultimately show ?thesis
    using assms by (simp add: wf_window_def wf_turns_update keys_update insert_absorb del: set_map)
qed

lemma wf_open_turn:
  assumes "wf_window s" and "entry_kind_of e = K_turn_open" and "e_seq e = 0"
  shows "wf_window (fst (open_turn e s))"
proof (cases "map_of (s_turns s) (e_turn e)")
  case None
  obtain p where p: "payload_turn_open e = Some p"
    using assms(2) payload_reader_None(1) by (metis not_None_eq)
  have new: "e_turn e \<notin> set (keys (s_turns s))"
    using None by (simp add: map_of_eq_None_iff)
  have ord: "ordinal_of (fresh_turn e) = to_n p"
    using p assms(2) by (simp add: ordinal_of_def held_ordinal_def fresh_turn_def nth_opt_def)
  have "list_all (\<lambda>(k, st). ordinal_of st \<le> max (s_turn_count s) (to_n p)) (s_turns s)"
    using assms(1) by (auto simp: wf_window_def list_all_iff)
  with assms new ord None p show ?thesis
    by (simp add: open_turn_def recount_def Let_def wf_window_def wf_turns_update wf_turn_fresh
        keys_update list_all_update le_max_iff_disj del: set_map)
qed (use assms in \<open>simp add: open_turn_def\<close>)

lemma dropped_ids_subset: "set (dropped_ids n e m ids) \<subseteq> set ids"
  by (induction ids) (auto simp: Let_def)

lemma dropped_ids_set:
  "set (dropped_ids n e m ids) = {x \<in> set ids. takes_turn n e m x}"
  by (induction ids) (auto simp: Let_def)

lemma dropped_ids_distinct: "distinct (dropped_ids n e m ids)"
  by (induction ids) (auto simp: Let_def)

lemma filter_keys: "keys (filter (\<lambda>(k, v). P k) m) = filter P (keys m)"
  by (induction m) auto

lemma map_of_filter_keys:
  "map_of (filter (\<lambda>(k, v). P k) m) x = (if P x then map_of m x else None)"
  by (induction m) auto

lemma wf_turns_filter: "wf_turns m \<Longrightarrow> wf_turns (filter (\<lambda>(k, st). P k) m)"
  by (auto simp: wf_turns_def filter_keys list_all_iff)

lemma held_ordinal_wf:
  assumes "wf_turn k st" obtains n where "held_ordinal (Some st) = Some n" "ordinal_of st = n"
proof -
  have "starts_open (ts_entries st)" using assms by (simp add: wf_turn_def)
  then obtain e es where "ts_entries st = e # es" "entry_kind_of e = K_turn_open"
    by (cases "ts_entries st") (auto simp: starts_open_def)
  moreover then obtain p where "payload_turn_open e = Some p"
    using payload_reader_None(1) by (metis not_None_eq)
  ultimately have "held_ordinal (Some st) = Some (to_n p)"
    by (simp add: held_ordinal_def nth_opt_def)
  with that show ?thesis by (simp add: ordinal_of_def)
qed

lemma wf_revert:
  assumes wf: "wf_window s" and pos: "payload_turn_revert e = Some r" "rv_from_n r \<ge> 1"
  shows "wf_window (fst (apply_revert e s))"
proof -
  define d where "d = dropped_ids (rv_from_n r) e (s_turns s) (s_turn_order s)"
  define s1 where "s1 = (if d = [] then s else drop_turns d s)"
  have turns1: "s_turns s1 = filter (\<lambda>(k, st). k \<notin> set d) (s_turns s)"
    and order1: "s_turn_order s1 = filter (\<lambda>x. x \<notin> set d) (s_turn_order s)"
    by (auto simp: s1_def drop_turns_def)
  let ?n = "max (rv_from_n r - 1) (nullish (held_ordinal (map_of (s_turns s1) (e_turn e))) 0)"
  have "ordinal_of st \<le> ?n" if "(k, st) \<in> set (s_turns s1)" for k st
  proof -
    from that have kst: "map_of (s_turns s) k = Some st" "k \<notin> set d"
      using wf map_of_is_SomeI[of "s_turns s" k st]
      by (simp_all add: turns1 wf_window_def wf_turns_def)
    then have wft: "wf_turn k st" using wf wf_turns_lookup by (auto simp: wf_window_def)
    obtain n where n: "held_ordinal (Some st) = Some n" "ordinal_of st = n"
      by (rule held_ordinal_wf[OF wft])
    show ?thesis
    proof (cases "k = e_turn e")
      case True
      with kst n show ?thesis by (simp add: turns1 map_of_filter_keys)
    next
      case False
      have "k \<in> set (s_turn_order s)"
        using wf map_of_in_keys[OF kst(1)] by (simp add: wf_window_def)
      with kst False n have "n < rv_from_n r"
        by (auto simp: d_def dropped_ids_set takes_turn_def)
      with n show ?thesis by simp
    qed
  qed
  then have "list_all (\<lambda>(k, st). ordinal_of st \<le> ?n) (s_turns s1)" by (auto simp: list_all_iff)
  moreover have "set (s_turn_order s1) = set (keys (s_turns s1))"
    using wf by (auto simp: turns1 order1 filter_keys wf_window_def)
  moreover have "fst (apply_revert e s) = recount ?n s1"
    using pos(1) by (simp add: apply_revert_def Let_def d_def s1_def)
  ultimately show ?thesis
    using wf pos(2) by (auto simp: wf_window_def recount_def turns1 order1 wf_turns_filter)
qed

lemma wf_retire [simp]: "wf_window (fst (retire_steer_rows e s)) = wf_window s"
  by (rule wf_window_same) simp_all

definition revert_cut_ok :: "entry \<Rightarrow> bool" where
  "revert_cut_ok e = (case payload_turn_revert e of None \<Rightarrow> True | Some r \<Rightarrow> rv_from_n r \<ge> 1)"

lemma wf_revert_any: "wf_window s \<Longrightarrow> revert_cut_ok e \<Longrightarrow> wf_window (fst (apply_revert e s))"
proof (cases "payload_turn_revert e")
  case (Some r)
  then show "wf_window s \<Longrightarrow> revert_cut_ok e \<Longrightarrow> ?thesis"
    by (intro wf_revert) (simp_all add: revert_cut_ok_def)
qed (simp add: apply_revert_def)

lemma wf_append_in_turn:
  assumes "wf_window s" and "map_of (s_turns s) (e_turn e) = Some st"
    and "e_seq e = int (length (ts_entries st))" and "revert_cut_ok e"
  shows "wf_window (fst (append_in_turn e st s))"
proof -
  define s1 where
    "s1 = (note_resident_mutation s)\<lparr>s_turns := AList.update (e_turn e) (seat_entry e st) (s_turns s)\<rparr>"
  have wft: "wf_turn (e_turn e) st"
    using assms(1,2) wf_turns_lookup by (auto simp: wf_window_def)
  have "wf_window s1"
    using assms(1,2) by (rule wf_window_turn)
      (use wft assms(3) in \<open>simp_all add: wf_turn_seat ordinal_of_def held_ordinal_seat
         wf_turn_nonempty s1_def\<close>)
  then show ?thesis
    using assms(4) wf_revert_any[of s1 e]
    by (simp add: append_in_turn_def Let_def s1_def[symmetric] split_def)
qed

lemma wf_append:
  assumes "wf_window s" and "revert_cut_ok e"
  shows "wf_window (fst (append_entry e s))"
proof (cases "map_of (s_turns s) (e_turn e)")
  case None
  with assms wf_revert_any[OF assms] show ?thesis by (simp add: append_entry_def split_def Let_def)
next
  case (Some st)
  with assms wf_append_in_turn[OF assms(1) Some] show ?thesis by (simp add: append_entry_def)
qed

lemma wf_open_lane:
  assumes "wf_window s" shows "wf_window (fst (open_lane_entry oe s))"
proof (cases "map_of (s_turns s) (oe_turn oe)")
  case (Some st)
  have "wf_turn (oe_turn oe) st"
    using assms Some wf_turns_lookup by (auto simp: wf_window_def)
  then have "wf_turn (oe_turn oe) (st\<lparr>ts_open := AList.update (nullish (oe_lane oe) [])
      (oe\<lparr>oe_lane := Some (nullish (oe_lane oe) [])\<rparr>) (ts_open st)\<rparr>)"
    by (rule wf_turn_open_set) simp_all
  from wf_window_turn[OF assms Some this] Some show ?thesis
    by (simp add: open_lane_entry_def Let_def with_turn_def ordinal_of_def)
qed (use assms in \<open>simp add: open_lane_entry_def\<close>)

lemma wf_open_lookup:
  "wf_turn k st \<Longrightarrow> map_of (ts_open st) l = Some oe \<Longrightarrow> oe_turn oe = k \<and> oe_lane oe = Some l"
  by (auto simp: wf_turn_def list_all_iff dest!: map_of_SomeD)

lemma wf_delta:
  assumes "wf_window s" shows "wf_window (fst (apply_delta p t i l n d s))"
proof (cases "map_of (s_turns s) t")
  case (Some st)
  have wft: "wf_turn t st"
    using assms Some wf_turns_lookup by (auto simp: wf_window_def)
  show ?thesis
  proof (cases "map_of (ts_open st) l")
    case (Some oe)
    from wf_open_lookup[OF wft this] have o1: "oe_turn oe = t" "oe_lane oe = Some l" by simp_all
    have "wf_turn t (st\<lparr>ts_open := AList.update l (oe\<lparr>oe_text := oe_text oe @ d, oe_n := n\<rparr>) (ts_open st)\<rparr>)"
      using wft by (rule wf_turn_open_set) (simp_all add: o1)
    from wf_window_turn[OF assms \<open>map_of (s_turns s) t = Some st\<close> this] Some assms
      \<open>map_of (s_turns s) t = Some st\<close> show ?thesis
      by (simp add: apply_delta_def Let_def with_turn_def ordinal_of_def)
  qed (use assms Some in \<open>simp add: apply_delta_def Let_def\<close>)
qed (use assms in \<open>simp add: apply_delta_def\<close>)

lemma sealed_no_revert [simp]: "revert_cut_ok (sealed_entry oe t l q ts)"
  by (cases "oe_kind oe") (simp_all add: revert_cut_ok_def sealed_entry_def payload_turn_revert_def)

lemma wf_seal:
  assumes "wf_window s" shows "wf_window (fst (seal_entry t i l q ts n s))"
proof (cases "map_of (s_turns s) t")
  case (Some st)
  have "wf_turn t (st\<lparr>ts_open := AList.delete l (ts_open st)\<rparr>)"
    using assms Some wf_turns_lookup wf_turn_open_delete by (auto simp: wf_window_def)
  from wf_window_turn[OF assms Some this]
  have "wf_window (with_turn t (st\<lparr>ts_open := AList.delete l (ts_open st)\<rparr>) s)"
    by (simp add: with_turn_def ordinal_of_def)
  with Some assms show ?thesis
    by (auto simp: seal_entry_def Let_def split_def wf_append split: option.splits)
qed (use assms in \<open>simp add: seal_entry_def\<close>)

section \<open>The window over a run of frames\<close>

datatype window_frame =
    W_open entry
  | W_append entry
  | W_open_entry open_entry
  | W_delta bool string string string int string
  | W_seal string string string int int int

fun window_step :: "session \<Rightarrow> window_frame \<Rightarrow> session" where
  "window_step s (W_open e) = fst (open_turn e s)"
| "window_step s (W_append e) = fst (append_entry e s)"
| "window_step s (W_open_entry oe) = fst (open_lane_entry oe s)"
| "window_step s (W_delta p t i l n d) = fst (apply_delta p t i l n d s)"
| "window_step s (W_seal t i l q ts n) = fst (seal_entry t i l q ts n s)"

text \<open>
  What the server's frames promise: \<open>turn_opened\<close> carries the turn's \<open>turn_open\<close>, its first entry,
  and a revert cuts at an ordinal, which counts from 1. Nothing is promised of order or of gaps.
\<close>

fun window_frame_ok :: "window_frame \<Rightarrow> bool" where
  "window_frame_ok (W_open e) = (entry_kind_of e = K_turn_open \<and> e_seq e = 0)"
| "window_frame_ok (W_append e) = revert_cut_ok e"
| "window_frame_ok _ = True"

interpretation window: frame_machine window_step window_frame_ok wf_window
proof
  fix s f assume "wf_window s" "window_frame_ok f"
  then show "wf_window (window_step s f)"
    by (cases f) (simp_all add: wf_open_turn wf_append wf_open_lane wf_delta wf_seal)
qed

section \<open>Replayed entries\<close>

lemma stale_twice [simp]: "mark_window_stale (mark_window_stale s) = mark_window_stale s"
  by (simp add: mark_window_stale_def)

lemma drop_turns_twice:
  "dropped_ids n e (filter (\<lambda>(k, st). k \<notin> set (dropped_ids n e m ids)) m)
     (filter (\<lambda>x. x \<notin> set (dropped_ids n e m ids)) ids) = []"
proof -
  have "x \<notin> set (dropped_ids n e (filter (\<lambda>(k, st). k \<notin> set (dropped_ids n e m ids)) m)
      (filter (\<lambda>x. x \<notin> set (dropped_ids n e m ids)) ids))" for x
    by (auto simp: dropped_ids_set takes_turn_def map_of_filter_keys split: if_splits option.splits)
  then show ?thesis by (metis list.set_intros(1) neq_Nil_conv)
qed

lemma revert_fields [simp]:
  "s_residency (fst (apply_revert e s)) = s_residency s"
  "s_steers (fst (apply_revert e s)) = s_steers s"
  by (simp_all add: apply_revert_def recount_def drop_turns_def Let_def split: option.splits)

lemma revert_turns:
  "payload_turn_revert e = Some r \<Longrightarrow>
   s_turns (fst (apply_revert e s)) =
     filter (\<lambda>(k, st). k \<notin> set (dropped_ids (rv_from_n r) e (s_turns s) (s_turn_order s))) (s_turns s)"
  by (auto simp: apply_revert_def recount_def drop_turns_def Let_def)

lemma revert_order:
  "payload_turn_revert e = Some r \<Longrightarrow>
   s_turn_order (fst (apply_revert e s)) =
     filter (\<lambda>x. x \<notin> set (dropped_ids (rv_from_n r) e (s_turns s) (s_turn_order s))) (s_turn_order s)"
  by (auto simp: apply_revert_def recount_def drop_turns_def Let_def)

lemma revert_count:
  "payload_turn_revert e = Some r \<Longrightarrow>
   s_turn_count (fst (apply_revert e s)) = max (rv_from_n r - 1)
     (nullish (held_ordinal (map_of (s_turns (fst (apply_revert e s))) (e_turn e))) 0)"
  by (simp add: apply_revert_def recount_def Let_def)

lemma revert_twice: "fst (apply_revert e (fst (apply_revert e s))) = fst (apply_revert e s)"
proof (cases "payload_turn_revert e")
  case (Some r)
  let ?s = "fst (apply_revert e s)"
  have none: "dropped_ids (rv_from_n r) e (s_turns ?s) (s_turn_order ?s) = []"
    unfolding revert_turns[OF Some] revert_order[OF Some] by (rule drop_turns_twice)
  have keep: "?s = recount (max (rv_from_n r - 1)
      (nullish (held_ordinal (map_of (s_turns ?s) (e_turn e))) 0)) ?s"
    using Some by (simp add: apply_revert_def Let_def recount_def)
  have "fst (apply_revert e ?s) = recount (max (rv_from_n r - 1)
      (nullish (held_ordinal (map_of (s_turns ?s) (e_turn e))) 0)) ?s"
    using Some none by (simp add: apply_revert_def[of e ?s] Let_def)
  with keep show ?thesis by simp
qed (simp add: apply_revert_def)

lemma carrier_kept:
  "map_of (s_turns (fst (apply_revert e s))) (e_turn e) = map_of (s_turns s) (e_turn e)"
  by (cases "payload_turn_revert e")
     (simp_all add: revert_turns map_of_filter_keys dropped_ids_set takes_turn_def,
      simp add: apply_revert_def)

lemma append_seated:
  assumes "map_of (s_turns s) (e_turn e) = Some st" and "e_seq e = int (length (ts_entries st))"
  shows "map_of (s_turns (fst (append_entry e s))) (e_turn e) = Some (seat_entry e st)"
  using assms
  by (simp add: append_entry_def append_in_turn_def Let_def split_def carrier_kept map_of_update)

lemma append_twice: "fst (append_entry e (fst (append_entry e s))) = fst (append_entry e s)"
proof (cases "map_of (s_turns s) (e_turn e)")
  case None
  show ?thesis
  proof (cases "entry_kind_of e = K_turn_revert")
    case True
    have "fst (append_entry e s) = fst (apply_revert e s)"
      using None True by (simp add: append_entry_def split_def Let_def)
    then show ?thesis
      using None True by (simp add: append_entry_def[of e "fst (apply_revert e s)"] carrier_kept
          split_def Let_def revert_twice)
  next
    case False
    with None show ?thesis by (simp add: append_entry_def mark_hole_def)
  qed
next
  case (Some st)
  show ?thesis
  proof (cases "e_seq e = int (length (ts_entries st))")
    case True
    have "map_option e_id (nth_opt (ts_entries (seat_entry e st)) (e_seq e)) = Some (e_id e)"
      using True by (simp add: seat_entry_def)
    moreover have "e_seq e \<noteq> int (length (ts_entries (seat_entry e st)))"
      using True by (simp add: seat_entry_def)
    ultimately show ?thesis
      using append_seated[OF Some True]
      by (simp add: append_entry_def[of e "fst (append_entry e s)"])
  next
    case False
    with Some show ?thesis by (simp add: append_entry_def mark_hole_def)
  qed
qed

interpretation entry_log: replay_safe "\<lambda>s e. fst (append_entry e s)" "\<lambda>_. True"
  by unfold_locales (rule append_twice)

section \<open>A streamed entry\<close>

fun delta_frames :: "string \<Rightarrow> string \<Rightarrow> string \<Rightarrow> int \<Rightarrow> (bool \<times> string) list \<Rightarrow> window_frame list" where
  "delta_frames t i l n [] = []"
| "delta_frames t i l n ((p, d) # ds) = W_delta p t i l (n + 1) d # delta_frames t i l (n + 1) ds"

text \<open>What the deltas change: the lane's open entry, and nothing sealed.\<close>

definition lane_holds :: "string \<Rightarrow> string \<Rightarrow> open_entry \<Rightarrow> entry list \<Rightarrow> session \<Rightarrow> bool" where
  "lane_holds t l oe es s =
     (case map_of (s_turns s) t of
        None \<Rightarrow> False | Some st \<Rightarrow> ts_entries st = es \<and> map_of (ts_open st) l = Some oe)"

lemma lane_holds_unfold:
  "lane_holds t l oe es s \<longleftrightarrow>
   (\<exists>st. map_of (s_turns s) t = Some st \<and> ts_entries st = es \<and> map_of (ts_open st) l = Some oe)"
  by (auto simp: lane_holds_def split: option.splits)

lemma lane_after_open:
  assumes "map_of (s_turns s) (oe_turn oe) = Some st" and "nullish (oe_lane oe) '''' = l"
  shows "lane_holds (oe_turn oe) l (oe\<lparr>oe_lane := Some l\<rparr>) (ts_entries st)
           (window_step s (W_open_entry oe))"
  using assms by (simp add: lane_holds_def open_lane_entry_def Let_def with_turn_def map_of_update)

lemma lane_after_delta:
  assumes "lane_holds t l oe es s" and "oe_id oe = i"
  shows "lane_holds t l (oe\<lparr>oe_text := oe_text oe @ d, oe_n := oe_n oe + 1\<rparr>) es
           (window_step s (W_delta p t i l (oe_n oe + 1) d))"
  using assms
  by (auto simp: lane_holds_unfold apply_delta_def Let_def with_turn_def map_of_update)

lemma lane_after_deltas:
  assumes "lane_holds t l oe es s" and "oe_id oe = i"
  shows "lane_holds t l (oe\<lparr>oe_text := oe_text oe @ concat (map snd ds),
                           oe_n := oe_n oe + int (length ds)\<rparr>) es
           (foldl window_step s (delta_frames t i l (oe_n oe) ds))"
  using assms
proof (induction ds arbitrary: s oe)
  case (Cons pd ds)
  obtain p d where pd: "pd = (p, d)" by fastforce
  let ?oe = "oe\<lparr>oe_text := oe_text oe @ d, oe_n := oe_n oe + 1\<rparr>"
  have "lane_holds t l ?oe es (window_step s (W_delta p t i l (oe_n oe + 1) d))"
    using Cons.prems by (rule lane_after_delta)
  from Cons.IH[OF this] Cons.prems(2) show ?case by (simp add: pd algebra_simps)
qed simp

lemma lane_after_seal:
  assumes "lane_holds t l oe es s" and "oe_id oe = i" and "oe_n oe = n" and "q = int (length es)"
  shows "\<exists>st. map_of (s_turns (window_step s (W_seal t i l q ts n))) t = Some st
           \<and> ts_entries st = es @ [sealed_entry oe t l q ts] \<and> map_of (ts_open st) l = None"
proof -
  obtain st where st: "map_of (s_turns s) t = Some st" "ts_entries st = es"
    "map_of (ts_open st) l = Some oe" using assms(1) by (auto simp: lane_holds_unfold)
  let ?st = "st\<lparr>ts_open := AList.delete l (ts_open st)\<rparr>"
  have turn: "e_turn (sealed_entry oe t l q ts) = t" by (simp add: sealed_entry_def)
  have "map_of (s_turns (with_turn t ?st s)) (e_turn (sealed_entry oe t l q ts)) = Some ?st"
    by (simp add: with_turn_def map_of_update turn)
  from append_seated[OF this] have
    "map_of (s_turns (fst (append_entry (sealed_entry oe t l q ts) (with_turn t ?st s)))) t
       = Some (seat_entry (sealed_entry oe t l q ts) ?st)"
    using assms(4) st(2) by (simp add: turn) (simp add: sealed_entry_def)
  with st assms show ?thesis
    by (simp add: seal_entry_def Let_def split_def seat_entry_def map_of_delete_if)
qed

section \<open>The dock beside the log\<close>

text \<open>
  A chat's dock and its entry log over one sequence of frames. A row the log settles stays out of
  the dock as long as the turn that holds its entry stays: the log's frames only append to a turn or
  let a revert take it, and they only take rows out of the dock.
\<close>

datatype chat_frame =
    C_dock dock_frame
  | C_log window_frame

fun chat_step :: "session \<Rightarrow> chat_frame \<Rightarrow> session" where
  "chat_step s (C_dock f) = dock_step s f"
| "chat_step s (C_log f) = window_step s f"

definition settled_in :: "string \<Rightarrow> int option \<Rightarrow> string \<Rightarrow> session \<Rightarrow> bool" where
  "settled_in t n i s =
     (case map_of (s_turns s) t of
        None \<Rightarrow> False
      | Some st \<Rightarrow> held_ordinal (Some st) = n
          \<and> list_ex (\<lambda>e. entry_kind_of e = K_steer \<and> steer_entry_settles e i None) (ts_entries st))"

definition cut_spares :: "string \<Rightarrow> int option \<Rightarrow> entry \<Rightarrow> bool" where
  "cut_spares t n e =
     (case payload_turn_revert e of
        None \<Rightarrow> True
      | Some r \<Rightarrow> e_turn e = t \<or> (case n of None \<Rightarrow> True | Some k \<Rightarrow> k < rv_from_n r))"

fun brings_back :: "string \<Rightarrow> string \<Rightarrow> int option \<Rightarrow> chat_frame \<Rightarrow> bool" where
  "brings_back i t n (C_dock f) = (\<not> not_resent i f)"
| "brings_back i t n (C_log (W_append e)) = (\<not> cut_spares t n e)"
| "brings_back i t n (C_log _) = False"

definition turn_grows :: "string \<Rightarrow> session \<Rightarrow> session \<Rightarrow> bool" where
  "turn_grows t s s' =
     (case map_of (s_turns s) t of
        None \<Rightarrow> True
      | Some st \<Rightarrow> (case map_of (s_turns s') t of
                     None \<Rightarrow> False
                   | Some st' \<Rightarrow> take (length (ts_entries st)) (ts_entries st') = ts_entries st))"

lemma turn_grows_same: "s_turns s' = s_turns s \<Longrightarrow> turn_grows t s s'"
  by (simp add: turn_grows_def split: option.splits)

lemma turn_grows_trans: "turn_grows t s s' \<Longrightarrow> turn_grows t s' s'' \<Longrightarrow> turn_grows t s s''"
  by (auto simp: turn_grows_def split: option.splits) (metis length_take min.absorb_iff2 nle_le take_all take_take)

lemma turn_grows_update:
  assumes "map_of (s_turns s) k = Some st" and "take (length (ts_entries st)) (ts_entries st') = ts_entries st"
    and "s_turns s' = AList.update k st' (s_turns s)"
  shows "turn_grows t s s'"
  using assms by (auto simp: turn_grows_def map_of_update split: option.splits)

lemma turn_grows_lane:
  "map_of (s_turns s) k = Some st \<Longrightarrow>
   turn_grows t s (s\<lparr>s_turns := AList.update k (st\<lparr>ts_open := x\<rparr>) (s_turns s)\<rparr>)"
  "map_of (s_turns s) k = Some st \<Longrightarrow> turn_grows t s (with_turn k (st\<lparr>ts_open := x\<rparr>) s)"
  by (rule turn_grows_update[of s k st]; simp add: with_turn_def)+

lemma settled_in_grows:
  assumes "settled_in t n i s" and "turn_grows t s s'"
  shows "settled_in t n i s'"
proof -
  obtain st where st: "map_of (s_turns s) t = Some st" "held_ordinal (Some st) = n"
    "list_ex (\<lambda>e. entry_kind_of e = K_steer \<and> steer_entry_settles e i None) (ts_entries st)"
    using assms(1) by (auto simp: settled_in_def split: option.splits)
  then obtain st' where st': "map_of (s_turns s') t = Some st'"
    "take (length (ts_entries st)) (ts_entries st') = ts_entries st"
    using assms(2) by (auto simp: turn_grows_def split: option.splits)
  then obtain ys where ys: "ts_entries st' = ts_entries st @ ys" by (metis append_take_drop_id)
  obtain e es where "ts_entries st = e # es" using st(3) by (cases "ts_entries st") auto
  then have "held_ordinal (Some st') = held_ordinal (Some st)"
    by (simp add: held_ordinal_def ys nth_opt_def)
  with st st' ys show ?thesis by (simp add: settled_in_def)
qed

lemma revert_spares:
  assumes "settled_in t n i s" and "cut_spares t n e"
  shows "turn_grows t s (fst (apply_revert e s))"
proof (cases "payload_turn_revert e")
  case (Some r)
  have "\<not> takes_turn (rv_from_n r) e (s_turns s) t"
    using assms Some by (auto simp: settled_in_def cut_spares_def takes_turn_def split: option.splits)
  then have "map_of (s_turns (fst (apply_revert e s))) t = map_of (s_turns s) t"
    by (simp add: revert_turns[OF Some] map_of_filter_keys dropped_ids_set)
  then show ?thesis by (simp add: turn_grows_def split: option.splits)
qed (simp add: apply_revert_def turn_grows_same)

lemma append_in_turn_grows:
  assumes "settled_in t n i s" and "cut_spares t n e" and "map_of (s_turns s) (e_turn e) = Some st"
  shows "turn_grows t s (fst (append_in_turn e st s))"
proof -
  let ?s1 = "(note_resident_mutation s)\<lparr>s_turns := AList.update (e_turn e) (seat_entry e st) (s_turns s)\<rparr>"
  have g1: "turn_grows t s ?s1"
    using assms(3) by (rule turn_grows_update) (simp_all add: seat_entry_def)
  then have "settled_in t n i ?s1" by (rule settled_in_grows[OF assms(1)])
  then have "turn_grows t ?s1 (fst (apply_revert e ?s1))" using assms(2) by (rule revert_spares)
  with g1 have "turn_grows t s (fst (apply_revert e ?s1))" by (rule turn_grows_trans)
  moreover have "turn_grows t s (fst (retire_steer_rows e ?s1))"
    using g1 turn_grows_same[OF retire_fields(1)] by (rule turn_grows_trans)
  ultimately show ?thesis using g1 by (auto simp: append_in_turn_def Let_def split_def)
qed

lemma append_entry_grows:
  assumes "settled_in t n i s" and "cut_spares t n e"
  shows "turn_grows t s (fst (append_entry e s))"
  using append_in_turn_grows[OF assms] revert_spares[OF assms]
  by (auto simp: append_entry_def Let_def split_def mark_hole_def turn_grows_same split: option.splits)

lemma sealed_spares [simp]: "cut_spares t n (sealed_entry oe k l q ts)"
  by (cases "oe_kind oe") (simp_all add: cut_spares_def sealed_entry_def payload_turn_revert_def)

lemma window_step_grows:
  assumes "settled_in t n i s" and "\<not> brings_back i t n (C_log f)"
  shows "turn_grows t s (window_step s f)"
proof (cases f)
  case (W_open e)
  then show ?thesis
    by (auto simp: open_turn_def Let_def recount_def turn_grows_def map_of_update split: option.splits)
next
  case (W_append e)
  with assms show ?thesis by (simp add: append_entry_grows)
next
  case (W_open_entry oe)
  then show ?thesis
    by (auto simp: open_lane_entry_def Let_def mark_hole_def turn_grows_same turn_grows_lane split: option.splits)
next
  case (W_delta p k j l m d)
  then show ?thesis
    by (auto simp: apply_delta_def Let_def mark_hole_def turn_grows_same turn_grows_lane split: option.splits)
next
  case (W_seal k j l q ts m)
  note one = turn_grows_lane(2)[where s = s and k = k]
  have "turn_grows t s (fst (append_entry (sealed_entry oe k l q ts) (with_turn k (st\<lparr>ts_open := x\<rparr>) s)))"
    if "map_of (s_turns s) k = Some st" for st x oe
    by (rule turn_grows_trans[OF one[OF that] append_entry_grows[OF settled_in_grows[OF assms(1) one[OF that]]]])
       simp
  with W_seal show ?thesis
    by (auto simp: seal_entry_def Let_def split_def mark_hole_def turn_grows_same split: option.splits)
qed

lemma revert_dock [simp]: "dock (fst (apply_revert e s)) = dock s"
  by (simp add: dock_def)

lemma note_resident_dock [simp]: "dock (note_resident_mutation s) = dock s"
  by (simp add: dock_def note_resident_mutation_def)

lemma stale_dock [simp]: "dock (mark_window_stale s) = dock s"
  by (simp add: dock_def)

lemma with_turn_dock [simp]: "dock (with_turn t st s) = dock s" "dock (s\<lparr>s_turns := m\<rparr>) = dock s"
  by (simp_all add: dock_def with_turn_def)

lemma append_ids: "x \<in> set (dock_ids (fst (append_entry e s))) \<Longrightarrow> x \<in> set (dock_ids s)"
  by (auto simp: append_entry_def append_in_turn_def Let_def split_def mark_hole_def dock_ids_def
      split: option.splits if_splits)

lemma window_step_ids:
  assumes "x \<in> set (dock_ids (window_step s f))" shows "x \<in> set (dock_ids s)"
proof (cases f)
  case (W_open e)
  have "dock (fst (open_turn e s)) = dock s"
    by (simp add: open_turn_def Let_def recount_def dock_def note_resident_mutation_def)
  with assms W_open show ?thesis by (simp add: dock_ids_def)
next
  case (W_seal k j l q ts m)
  have "x \<in> set (dock_ids s)"
    if "x \<in> set (dock_ids (fst (append_entry (sealed_entry oe k l q ts) (with_turn k st s))))" for oe st
    using append_ids[OF that] by (simp add: dock_ids_def)
  moreover have "dock_ids (mark_window_stale s) = dock_ids s" by (simp add: dock_ids_def)
  ultimately show ?thesis
    using assms W_seal by (auto simp: seal_entry_def Let_def split_def mark_hole_def split: option.splits if_splits)
next
  case (W_append e)
  with assms append_ids[of x e s] show ?thesis by simp
qed (use assms in \<open>auto simp: open_lane_entry_def apply_delta_def Let_def mark_hole_def dock_ids_def
      split: option.splits if_splits\<close>)

lemma settled_holds: "settled_in t n i s \<Longrightarrow> holds_steer_entry s i"
  by (auto simp: settled_in_def holds_steer_entry_def list_ex_iff split: option.splits dest!: map_of_SomeD)

definition delivered_in :: "string \<Rightarrow> int option \<Rightarrow> string \<Rightarrow> session \<Rightarrow> bool" where
  "delivered_in t n i s = (settled_in t n i s \<and> i \<notin> set (dock_ids s))"

interpretation read_steer: frame_machine chat_step "\<lambda>f. \<not> brings_back i t n f" "delivered_in t n i" for i t n
proof
  fix s f assume d: "delivered_in t n i s" and ok: "\<not> brings_back i t n f"
  show "delivered_in t n i (chat_step s f)"
  proof (cases f)
    case (C_dock g)
    have "i \<notin> set (dock_ids (dock_step s g))"
      using d ok C_dock dock_step_ids[of i s g] settled_holds unfolding delivered_in_def by fastforce
    with d C_dock show ?thesis by (simp add: delivered_in_def settled_in_def)
  next
    case (C_log g)
    with d ok window_step_grows[of t n i s g] settled_in_grows[of t n i s] window_step_ids[of i s g]
    show ?thesis by (auto simp: delivered_in_def)
  qed
qed

section \<open>Sample values\<close>

definition sample_open :: "string \<Rightarrow> int \<Rightarrow> entry" where
  "sample_open t n =
     \<lparr>e_id = t @ ''-open'', e_turn = t, e_lane = None,
      e_payload = P_turn_open \<lparr>to_prompt = None, to_source = Src_prompt, to_run = None,
        to_node_path = None, to_session_id = None, to_n = n\<rparr>,
      e_seq = 0, e_ts = 0\<rparr>"

definition sample_revert :: "string \<Rightarrow> int \<Rightarrow> int \<Rightarrow> entry" where
  "sample_revert t q n =
     \<lparr>e_id = t @ ''-revert'', e_turn = t, e_lane = None,
      e_payload = P_turn_revert \<lparr>rv_from = ''t2'', rv_through = ''t2'', rv_kas_message_id = ''k'',
        rv_cause = Cause_rewind, rv_from_n = n\<rparr>,
      e_seq = q, e_ts = 0\<rparr>"

definition sample_window :: session where
  "sample_window = foldl window_step sample_session [W_open (sample_open ''t1'' 1), W_open (sample_open ''t2'' 2)]"

lemma sample_open_fields [simp]:
  "e_turn (sample_open t n) = t" "e_seq (sample_open t n) = 0"
  "entry_kind_of (sample_open t n) = K_turn_open" "payload_turn_revert (sample_open t n) = None"
  by (simp_all add: sample_open_def entry_kind_of_def payload_turn_revert_def)

lemma sample_turns [simp]:
  "s_turns sample_window = [(''t1'', fresh_turn (sample_open ''t1'' 1)), (''t2'', fresh_turn (sample_open ''t2'' 2))]"
  "s_turn_order sample_window = [''t1'', ''t2'']" "s_turn_count sample_window = 2"
  by (simp_all add: sample_window_def open_turn_def Let_def recount_def sample_session_def
      row_of_header_def note_resident_mutation_def sample_open_def payload_turn_open_def)

lemma wf_sample: "wf_window sample_window"
  unfolding sample_window_def
  by (rule window.run_inv)
     (simp_all add: wf_window_def wf_turns_def sample_session_def row_of_header_def)

section \<open>Properties\<close>

text \<open>
  C1. Whatever entry frames arrive, in order or not, once or repeatedly, each turn the window holds
  stays readable by position: an entry's \<open>seq\<close> is its index, the cached close answers what a scan of
  the entries would and is absent exactly for a turn without a \<open>turn_close\<close>, the chat's turn count
  covers the turn's ordinal, and the turn is in the order.
\<close>

theorem reachable_window:
  assumes "wf_window s" and "list_all window_frame_ok fs"
    and "map_of (s_turns (foldl window_step s fs)) k = Some st"
  shows "(\<forall>i < length (ts_entries st). e_seq (ts_entries st ! i) = int i \<and> e_turn (ts_entries st ! i) = k)
       \<and> turn_close_of st = close_of_body (ts_entries st)
       \<and> (ts_close_at st = None \<longleftrightarrow> (\<forall>e\<in>set (ts_entries st). entry_kind_of e \<noteq> K_turn_close))
       \<and> ordinal_of st \<le> s_turn_count (foldl window_step s fs)
       \<and> k \<in> set (s_turn_order (foldl window_step s fs))"
proof -
  let ?s = "foldl window_step s fs"
  have wf: "wf_window ?s" using window.run_inv[OF assms(1,2)] .
  then have t: "wf_turn k st" using assms(3) wf_turns_lookup by (auto simp: wf_window_def)
  have seqs: "\<forall>i < length (ts_entries st). e_seq (ts_entries st ! i) = int i \<and> e_turn (ts_entries st ! i) = k"
    using t seqs_fit_nth[of k "ts_entries st"] by (simp add: wf_turn_def)
  have "turn_close_of st = close_of_body (ts_entries st)"
    using t last_close_Some[of "ts_entries st"]
    by (auto simp: turn_close_of_def wf_turn_def nth_opt_def split: option.splits)
  moreover have "ordinal_of st \<le> s_turn_count ?s"
    using wf assms(3) by (auto simp: wf_window_def list_all_iff dest!: map_of_SomeD)
  moreover have "k \<in> set (s_turn_order ?s)"
    using wf map_of_in_keys[OF assms(3)] by (simp add: wf_window_def)
  ultimately show ?thesis using seqs t by (simp add: wf_turn_def last_close_None)
qed

theorem reachable_window_witness:
  "ordinal_of (fresh_turn (sample_open ''t1'' 1)) \<le> s_turn_count (foldl window_step sample_window [])"
  using reachable_window[OF wf_sample, of "[]" "''t1''" "fresh_turn (sample_open ''t1'' 1)"] by simp

text \<open>
  An entry for a held turn is seated exactly when its \<open>seq\<close> is the turn's next index; a frame
  redelivered under the same id changes nothing and asks for nothing; any other position leaves the
  turn as it was, marks the window stale and asks for the range after the last held entry.
\<close>

theorem append_only_where_it_fits:
  assumes "map_of (s_turns s) (e_turn e) = Some st"
  shows "map_of (s_turns (fst (append_entry e s))) (e_turn e)
           = Some (if e_seq e = int (length (ts_entries st)) then seat_entry e st else st)
       \<and> (Repair (e_turn e) (Some (int (length (ts_entries st)) - 1)) \<in> set (snd (append_entry e s))
            \<longleftrightarrow> e_seq e \<noteq> int (length (ts_entries st))
              \<and> map_option e_id (nth_opt (ts_entries st) (e_seq e)) \<noteq> Some (e_id e))
       \<and> (e_seq e \<noteq> int (length (ts_entries st)) \<longrightarrow>
            fst (append_entry e s) =
              (if map_option e_id (nth_opt (ts_entries st) (e_seq e)) = Some (e_id e) then s
               else mark_window_stale s))"
proof (cases "e_seq e = int (length (ts_entries st))")
  case True
  have no_repair: "Repair t a \<notin> set (snd (append_in_turn e st s))" for t a
    by (auto simp: append_in_turn_def Let_def split_def retire_steer_rows_def steer_repaint_def
        publish_settled_call_def apply_revert_def publish_entry_def split: option.splits)
  show ?thesis using True assms append_seated[OF assms True] no_repair
    by (simp add: append_entry_def)
next
  case False
  with assms show ?thesis by (simp add: append_entry_def mark_hole_def)
qed

theorem append_only_where_it_fits_witness:
  "fst (append_entry (sample_revert ''t1'' 7 2) sample_window) = mark_window_stale sample_window"
  using append_only_where_it_fits[of sample_window "sample_revert ''t1'' 7 2" "fresh_turn (sample_open ''t1'' 1)"]
  by (simp add: sample_revert_def fresh_turn_def nth_opt_def)

text \<open>
  Appending is idempotent over any number of replays of the frame, whatever its kind, its
  position and the state it meets: a reconnect that redelivers entries leaves the window as it was.
\<close>

theorem replayed_entry_changes_nothing:
  "foldl (\<lambda>s e. fst (append_entry e s)) s (replicate (Suc n) e) = fst (append_entry e s)"
  by (rule entry_log.replay_any) simp

text \<open>
  A streamed entry lands as the text that was streamed: opening a lane's entry, any number of
  deltas numbered from the open's count, and the seal at the turn's next index leave the sealed
  entries followed by one entry holding the opened text and the deltas in order, under the lane and
  the id that streamed it, and the lane closed.
\<close>

theorem streamed_text_is_sealed:
  assumes "map_of (s_turns s) t = Some st" and "oe_turn oe = t" and "oe_lane oe = Some l"
    and "q = int (length (ts_entries st))"
  shows "\<exists>st'. map_of (s_turns (foldl window_step s
             (W_open_entry oe # delta_frames t (oe_id oe) l (oe_n oe) ds
              @ [W_seal t (oe_id oe) l q ts (oe_n oe + int (length ds))]))) t = Some st'
         \<and> ts_entries st' = ts_entries st
             @ [\<lparr>e_id = oe_id oe, e_turn = t, e_lane = Some l,
                 e_payload = prose_payload (oe_kind oe) (oe_text oe @ concat (map snd ds)),
                 e_seq = q, e_ts = ts\<rparr>]
         \<and> map_of (ts_open st') l = None"
proof -
  let ?oe = "oe\<lparr>oe_lane := Some l\<rparr>"
  have "lane_holds t l ?oe (ts_entries st) (window_step s (W_open_entry oe))"
    using lane_after_open[of s oe st l] assms by simp
  from lane_after_deltas[OF this, of "oe_id oe" ds] have
    "lane_holds t l (?oe\<lparr>oe_text := oe_text oe @ concat (map snd ds), oe_n := oe_n oe + int (length ds)\<rparr>)
       (ts_entries st)
       (foldl window_step (window_step s (W_open_entry oe)) (delta_frames t (oe_id oe) l (oe_n oe) ds))"
    by simp
  from lane_after_seal[OF this _ _ assms(4), of "oe_id oe" "oe_n oe + int (length ds)" ts]
  show ?thesis by (simp add: sealed_entry_def)
qed

theorem streamed_text_is_sealed_witness:
  "\<exists>st'. map_of (s_turns (foldl window_step sample_window
       (W_open_entry \<lparr>oe_turn = ''t2'', oe_id = ''e1'', oe_lane = Some [], oe_kind = Open_text,
                      oe_text = ''He'', oe_n = 1\<rparr>
        # delta_frames ''t2'' ''e1'' [] 1 [(True, ''ll''), (True, ''o'')]
        @ [W_seal ''t2'' ''e1'' [] 1 5 3]))) ''t2'' = Some st'
     \<and> map (\<lambda>e. nullish (payload_text e) '''') (ts_entries st') = ['''', ''Hello'']
     \<and> map_of (ts_open st') [] = None"
  using streamed_text_is_sealed[of sample_window "''t2''" "fresh_turn (sample_open ''t2'' 2)"
      "\<lparr>oe_turn = ''t2'', oe_id = ''e1'', oe_lane = Some [], oe_kind = Open_text,
        oe_text = ''He'', oe_n = 1\<rparr>" "[]" 1 "[(True, ''ll''), (True, ''o'')]" 5]
  by (auto simp: fresh_turn_def sample_open_def payload_text_def)

text \<open>
  C2. A revert takes exactly the turns at or past its cut, by ordinal and not by position. The
  carrier, the turn the revert belongs to, stays whatever its ordinal and gains the revert as its
  last entry, its open lanes and its close as they were; every other turn below the cut keeps its
  whole state, and no turn appears. The order loses exactly the turns that left, and the count
  becomes the ordinal below the cut, or the carrier's where that is higher. It is stated of a revert
  that fits: its position is the carrier's next, or the carrier is not held.
\<close>

theorem revert_takes_exactly_the_cut:
  assumes "wf_window s" and "payload_turn_revert e = Some r"
    and "case map_of (s_turns s) (e_turn e) of None \<Rightarrow> True
         | Some st \<Rightarrow> e_seq e = int (length (ts_entries st))"
  shows "map_of (s_turns (fst (append_entry e s))) k
           = (case map_of (s_turns s) k of None \<Rightarrow> None
              | Some st \<Rightarrow> if k = e_turn e then Some (st\<lparr>ts_entries := ts_entries st @ [e]\<rparr>)
                          else if rv_from_n r \<le> ordinal_of st then None else Some st)
       \<and> s_turn_order (fst (append_entry e s))
           = filter (\<lambda>x. map_of (s_turns (fst (append_entry e s))) x \<noteq> None) (s_turn_order s)
       \<and> s_turn_count (fst (append_entry e s))
           = max (rv_from_n r - 1)
               (case map_of (s_turns s) (e_turn e) of None \<Rightarrow> 0 | Some st \<Rightarrow> ordinal_of st)"
proof -
  define s1 where "s1 = (case map_of (s_turns s) (e_turn e) of None \<Rightarrow> s
    | Some st \<Rightarrow> (note_resident_mutation s)\<lparr>s_turns := AList.update (e_turn e) (seat_entry e st) (s_turns s)\<rparr>)"
  have kind: "entry_kind_of e = K_turn_revert" using assms(2) payload_reader_None(7)[of e] by auto
  have app: "fst (append_entry e s) = fst (apply_revert e s1)"
    using assms(3) kind
    by (auto simp: append_entry_def append_in_turn_def s1_def Let_def split_def split: option.splits)
  have wfk: "wf_turn k st" if "map_of (s_turns s) k = Some st" for k st
    using assms(1) that wf_turns_lookup by (auto simp: wf_window_def)
  have same: "map_of (s_turns s1) x = map_of (s_turns s) x" if "x \<noteq> e_turn e" for x
    using that by (simp add: s1_def map_of_update split: option.splits)
  have order1: "s_turn_order s1 = s_turn_order s" by (simp add: s1_def split: option.splits)
  let ?d = "dropped_ids (rv_from_n r) e (s_turns s1) (s_turn_order s1)"
  have in_order: "x \<in> set (s_turn_order s)" if "map_of (s_turns s) x = Some st" for x st
    using assms(1) map_of_in_keys[OF that] by (simp add: wf_window_def)
  have d: "x \<in> set ?d \<longleftrightarrow> x \<noteq> e_turn e \<and> (\<exists>st. map_of (s_turns s) x = Some st \<and> rv_from_n r \<le> ordinal_of st)" for x
  proof (cases "x = e_turn e")
    case False
    show ?thesis
    proof (cases "map_of (s_turns s) x")
      case (Some st)
      obtain n where "held_ordinal (Some st) = Some n" "ordinal_of st = n"
        by (rule held_ordinal_wf[OF wfk[OF Some]])
      with False Some same[OF False] in_order[OF Some] show ?thesis
        by (simp add: dropped_ids_set takes_turn_def order1)
    qed (use False same in \<open>simp add: dropped_ids_set takes_turn_def held_ordinal_def\<close>)
  qed (simp add: dropped_ids_set takes_turn_def)
  have turns: "s_turns (fst (append_entry e s)) = filter (\<lambda>(k, st). k \<notin> set ?d) (s_turns s1)"
    unfolding app by (rule revert_turns[OF assms(2)])
  have order: "s_turn_order (fst (append_entry e s)) = filter (\<lambda>x. x \<notin> set ?d) (s_turn_order s)"
    unfolding app revert_order[OF assms(2)] order1 ..
  have key: "map_of (s_turns (fst (append_entry e s))) k
      = (case map_of (s_turns s) k of None \<Rightarrow> None
         | Some st \<Rightarrow> if k = e_turn e then Some (st\<lparr>ts_entries := ts_entries st @ [e]\<rparr>)
                     else if rv_from_n r \<le> ordinal_of st then None else Some st)"
    unfolding turns map_of_filter_keys d using same[of k] kind
    by (auto simp: s1_def map_of_update seat_entry_def split: option.splits)
  have held: "x \<notin> set ?d \<longleftrightarrow> map_of (s_turns (fst (append_entry e s))) x \<noteq> None"
    if "x \<in> set (s_turn_order s)" for x
  proof -
    have "\<exists>st. map_of (s_turns s) x = Some st"
      using that assms(1) by (simp add: wf_window_def flip: keys_map_of)
    then have "map_of (s_turns s1) x \<noteq> None"
      using same[of x] by (cases "x = e_turn e") (auto simp: s1_def map_of_update)
    then show ?thesis unfolding turns map_of_filter_keys by simp
  qed
  have "map_of (s_turns (fst (apply_revert e s1))) (e_turn e) = map_of (s_turns s1) (e_turn e)"
    by (rule carrier_kept)
  moreover have "nullish (held_ordinal (map_of (s_turns s1) (e_turn e))) 0
      = (case map_of (s_turns s) (e_turn e) of None \<Rightarrow> 0 | Some st \<Rightarrow> ordinal_of st)"
  proof (cases "map_of (s_turns s) (e_turn e)")
    case (Some st)
    then show ?thesis using wf_turn_nonempty[OF wfk[OF Some]]
      by (simp add: s1_def map_of_update ordinal_of_def held_ordinal_seat)
  qed (simp add: s1_def)
  ultimately have "s_turn_count (fst (append_entry e s)) = max (rv_from_n r - 1)
      (case map_of (s_turns s) (e_turn e) of None \<Rightarrow> 0 | Some st \<Rightarrow> ordinal_of st)"
    unfolding app using revert_count[OF assms(2), of s1] by simp
  moreover have "s_turn_order (fst (append_entry e s))
      = filter (\<lambda>x. map_of (s_turns (fst (append_entry e s))) x \<noteq> None) (s_turn_order s)"
    unfolding order by (rule filter_cong) (simp_all add: held)
  ultimately show ?thesis using key by simp
qed

theorem revert_takes_exactly_the_cut_witness:
  "map_of (s_turns (fst (append_entry (sample_revert ''t1'' 1 2) sample_window))) ''t2'' = None
   \<and> map_of (s_turns (fst (append_entry (sample_revert ''t1'' 1 2) sample_window))) ''t1''
       = Some ((fresh_turn (sample_open ''t1'' 1))\<lparr>ts_entries := [sample_open ''t1'' 1, sample_revert ''t1'' 1 2]\<rparr>)
   \<and> s_turn_count (fst (append_entry (sample_revert ''t1'' 1 2) sample_window)) = 1"
proof -
  let ?r = "\<lparr>rv_from = ''t2'', rv_through = ''t2'', rv_kas_message_id = ''k'', rv_cause = Cause_rewind,
        rv_from_n = 2\<rparr>"
  have r: "payload_turn_revert (sample_revert ''t1'' 1 2) = Some ?r"
    by (simp add: sample_revert_def payload_turn_revert_def)
  have fits: "case map_of (s_turns sample_window) (e_turn (sample_revert ''t1'' 1 2)) of None \<Rightarrow> True
      | Some st \<Rightarrow> e_seq (sample_revert ''t1'' 1 2) = int (length (ts_entries st))"
    by (simp add: sample_revert_def fresh_turn_def)
  show ?thesis
    using revert_takes_exactly_the_cut[OF wf_sample r fits, of "''t2''"]
      revert_takes_exactly_the_cut[OF wf_sample r fits, of "''t1''"]
    by (simp add: sample_revert_def fresh_turn_def ordinal_of_def
        held_ordinal_def nth_opt_def sample_open_def payload_turn_open_def entry_kind_of_def)
qed

text \<open>
  C13. A steer the log shows delivered never returns to the dock. Once a turn of the window holds a
  steer entry that settles an id the dock does not hold, no sequence of the chat's frames brings the
  row back: queued frames replayed under that id, batches, removals, compactions, clears and new
  sends of other messages on the dock's side; turns opening, entries appended, streamed, sealed or
  replayed, and reverts of later turns on the log's. Excluded are exactly the three frames that
  mean it: a send of that very message id, a rollback whose snapshot names the row, and a revert
  that takes the turn holding the entry. Pages and the eviction of the whole window are not frames
  of this machine.
\<close>

theorem delivered_steer_never_returns:
  assumes "map_of (s_turns s) t = Some st"
    and "list_ex (\<lambda>e. entry_kind_of e = K_steer \<and> steer_entry_settles e i None) (ts_entries st)"
    and "i \<notin> set (dock_ids s)"
    and "list_all (\<lambda>f. \<not> brings_back i t (held_ordinal (Some st)) f) fs"
  shows "i \<notin> set (dock_ids (foldl chat_step s fs)) \<and> holds_steer_entry (foldl chat_step s fs) i"
  using read_steer.run_inv[of t "held_ordinal (Some st)" i s fs] assms settled_holds
  by (auto simp: delivered_in_def settled_in_def)

theorem delivered_steer_never_returns_witness:
  "''steer-m1'' \<notin> set (dock_ids (foldl chat_step
      (fst (append_entry (sample_steer_entry\<lparr>e_seq := 1\<rparr>) sample_window))
      [C_dock (D_queued sample_frame), C_log (W_append (sample_revert ''t1'' 2 2)),
       C_log (W_open (sample_open ''t3'' 2)), C_dock D_compacted, C_dock (D_queued sample_frame)]))"
proof -
  have held: "map_of (s_turns (fst (append_entry (sample_steer_entry\<lparr>e_seq := 1\<rparr>) sample_window))) ''t1''
      = Some (seat_entry (sample_steer_entry\<lparr>e_seq := 1\<rparr>) (fresh_turn (sample_open ''t1'' 1)))"
    using append_seated[of sample_window "sample_steer_entry\<lparr>e_seq := 1\<rparr>" "fresh_turn (sample_open ''t1'' 1)"]
    by (simp add: sample_steer_entry_def fresh_turn_def)
  have out: "''steer-m1'' \<notin> set (dock_ids (fst (append_entry (sample_steer_entry\<lparr>e_seq := 1\<rparr>) sample_window)))"
    using append_ids[of "''steer-m1''" "sample_steer_entry\<lparr>e_seq := 1\<rparr>" sample_window]
    by (auto simp: dock_ids_def sample_window_def open_turn_def Let_def recount_def dock_def
        note_resident_mutation_def sample_session_def row_of_header_def)
  show ?thesis
    by (rule delivered_steer_never_returns[OF held _ out, THEN conjunct1])
       (simp_all add: seat_entry_def fresh_turn_def sample_steer_entry_def entry_kind_of_def
          steer_entry_settles_def cut_spares_def sample_revert_def payload_turn_revert_def
          sample_open_def held_ordinal_def nth_opt_def payload_turn_open_def)
qed

end
