(* ===== verification/PageLoad.thy ===== *)
theory PageLoad
  imports EntryLog Status
begin

text \<open>
  What a fetched answer does to a chat's window (static-src/store-load.ts): the walk that builds a
  page's turns, the merge with the turns the store holds, the commit of a page load, the repair of
  one turn's range, the rebuild of the rows from the chat list and the list's retry ladder. The
  requests themselves are outside; each definition takes the decoded answer.
\<close>

section \<open>The page walk\<close>

record page_turns =
  pg_turns :: "(string \<times> turn_state) list"
  pg_order :: "string list"
  pg_holes :: "(string \<times> int option) list"

definition note_close :: "entry \<Rightarrow> turn_state \<Rightarrow> turn_state" where
  "note_close e st = (if entry_kind_of e = K_turn_close then st\<lparr>ts_close_at := Some (e_seq e)\<rparr> else st)"

definition push_entry :: "entry \<Rightarrow> turn_state \<Rightarrow> turn_state" where
  "push_entry e st = note_close e (st\<lparr>ts_entries := ts_entries st @ [e]\<rparr>)"

definition page_step :: "page_turns \<Rightarrow> entry \<Rightarrow> page_turns" where
  "page_step p e =
     (if entry_kind_of e = K_turn_open then
        (if map_of (pg_turns p) (e_turn e) = None
         then p\<lparr>pg_turns := AList.update (e_turn e) (fresh_turn e) (pg_turns p),
                pg_order := pg_order p @ [e_turn e]\<rparr>
         else p)
      else case map_of (pg_turns p) (e_turn e) of
             None \<Rightarrow> p\<lparr>pg_holes := AList.update (e_turn e) None (pg_holes p)\<rparr>
           | Some st \<Rightarrow>
               if e_seq e \<noteq> int (length (ts_entries st)) then
                 (if map_of (pg_holes p) (e_turn e) = None
                  then p\<lparr>pg_holes := AList.update (e_turn e) (Some (int (length (ts_entries st)) - 1))
                                      (pg_holes p)\<rparr>
                  else p)
               else p\<lparr>pg_turns := AList.update (e_turn e) (push_entry e st) (pg_turns p)\<rparr>)"

definition seat_tail :: "open_entry \<Rightarrow> turn_state \<Rightarrow> turn_state" where
  "seat_tail oe st =
     (let lane = nullish (oe_lane oe) ''''
      in st\<lparr>ts_open := AList.update lane (oe\<lparr>oe_lane := Some lane\<rparr>) (ts_open st)\<rparr>)"

definition seat_open_entry :: "page_turns \<Rightarrow> open_entry \<Rightarrow> page_turns" where
  "seat_open_entry p oe =
     (case map_of (pg_turns p) (oe_turn oe) of
        None \<Rightarrow> p\<lparr>pg_holes := AList.update (oe_turn oe) None (pg_holes p)\<rparr>
      | Some st \<Rightarrow> p\<lparr>pg_turns := AList.update (oe_turn oe) (seat_tail oe st) (pg_turns p)\<rparr>)"

definition seat_open_entries :: "page_turns \<Rightarrow> open_entry list \<Rightarrow> page_turns" where
  "seat_open_entries p os = foldl seat_open_entry p os"

definition empty_page :: page_turns where
  "empty_page = \<lparr>pg_turns = [], pg_order = [], pg_holes = []\<rparr>"

definition build_page_turns :: "entry list \<Rightarrow> open_entry list \<Rightarrow> page_turns" where
  "build_page_turns entries os = seat_open_entries (foldl page_step empty_page entries) os"

section \<open>Merging with what the store holds\<close>

text \<open>The contiguous run of entries past the end, from index \<open>i\<close>.\<close>

fun push_contiguous :: "int \<Rightarrow> entry list \<Rightarrow> turn_state \<Rightarrow> turn_state" where
  "push_contiguous i [] st = st"
| "push_contiguous i (e # es) st =
     (if e_seq e \<noteq> i then st else push_contiguous (i + 1) es (push_entry e st))"

definition keep_tail :: "entry list \<Rightarrow> turn_state \<Rightarrow> string \<times> open_entry \<Rightarrow> turn_state" where
  "keep_tail sealed st lane_open =
     (case lane_open of (lane, oe) \<Rightarrow>
        if oe_id oe \<in> e_id ` set sealed then st
        else case map_of (ts_open st) lane of
               None \<Rightarrow> st\<lparr>ts_open := AList.update lane oe (ts_open st)\<rparr>
             | Some page_oe \<Rightarrow>
                 if oe_id page_oe = oe_id oe \<and> oe_n oe > oe_n page_oe
                 then st\<lparr>ts_open := AList.update lane oe (ts_open st)\<rparr> else st)"

definition merge_turn :: "turn_state \<Rightarrow> turn_state \<Rightarrow> turn_state" where
  "merge_turn page held =
     (let n = length (ts_entries page);
          merged = push_contiguous (int n) (drop n (ts_entries held)) page
      in foldl (keep_tail (ts_entries merged)) merged (ts_open held))"

section \<open>Committing a page\<close>

definition set_all :: "(string \<times> turn_state) list \<Rightarrow> (string \<times> turn_state) list \<Rightarrow> string list
    \<Rightarrow> (string \<times> turn_state) list" where
  "set_all acc source ids =
     foldl (\<lambda>m id1. case map_of source id1 of None \<Rightarrow> m | Some st \<Rightarrow> AList.update id1 st m) acc ids"

definition prepend_page :: "page_turns \<Rightarrow> session \<Rightarrow> session" where
  "prepend_page page s =
     (let fresh = filter (\<lambda>id1. map_of (s_turns s) id1 = None) (pg_order page)
      in s\<lparr>s_turns := set_all (s_turns s) (pg_turns page) fresh,
           s_turn_order := fresh @ s_turn_order s\<rparr>)"

definition kept_before :: "string list \<Rightarrow> string list \<Rightarrow> string list" where
  "kept_before page_order held_order =
     (case page_order of
        [] \<Rightarrow> []
      | oldest # _ \<Rightarrow>
          (case index_of oldest held_order of None \<Rightarrow> [] | Some anchor \<Rightarrow> take anchor held_order))"

definition arrived_after ::
    "(string \<times> turn_state) list \<Rightarrow> string list \<Rightarrow> string list \<Rightarrow> string list \<Rightarrow> string list" where
  "arrived_after page_turns1 page_order held_at_request held_order =
     (case rev page_order of
        [] \<Rightarrow> []
      | newest # _ \<Rightarrow>
          (case index_of newest held_order of
             None \<Rightarrow> []
           | Some tail \<Rightarrow>
               filter (\<lambda>id1. map_of page_turns1 id1 = None \<and> id1 \<notin> set held_at_request)
                 (drop (Suc tail) held_order)))"

definition set_merged :: "(string \<times> turn_state) list \<Rightarrow> (string \<times> turn_state) list
    \<Rightarrow> (string \<times> turn_state) list \<Rightarrow> string list \<Rightarrow> (string \<times> turn_state) list" where
  "set_merged acc page held ids =
     foldl (\<lambda>m id1. case map_of page id1 of
              None \<Rightarrow> m
            | Some st \<Rightarrow>
                AList.update id1 (case map_of held id1 of None \<Rightarrow> st | Some prev \<Rightarrow> merge_turn st prev) m)
       acc ids"

definition replace_page :: "page_turns \<Rightarrow> string list \<Rightarrow> session \<Rightarrow> session" where
  "replace_page page held_at_request s =
     (let held = s_turns s;
          kept = kept_before (pg_order page) (s_turn_order s);
          arrived = arrived_after (pg_turns page) (pg_order page) held_at_request (s_turn_order s);
          t1 = set_all [] held kept;
          t2 = set_merged t1 (pg_turns page) held (pg_order page);
          t3 = set_all t2 held arrived
      in s\<lparr>s_turns := t3,
           s_turn_order := filter (\<lambda>id1. map_of t3 id1 \<noteq> None) (kept @ pg_order page @ arrived)\<rparr>)"

definition apply_page :: "session \<Rightarrow> page_turns \<Rightarrow> bool \<Rightarrow> string list \<Rightarrow> session \<times> bool" where
  "apply_page s page older held_at_request =
     (if older then (prepend_page page s, True)
      else (replace_page page held_at_request s,
            kept_before (pg_order page) (s_turn_order s) = []))"

section \<open>The load's commit\<close>

record page_answer =
  pa_turn_count :: int
  pa_entries :: "entry list"
  pa_open :: "open_entry list"
  pa_has_more :: bool
  pa_live :: "bool option"
  pa_draft :: string
  pa_subject :: "subject_stamp list"

definition clear_turn_state :: "session \<Rightarrow> outcome_of_op" where
  "clear_turn_state s = (case set_thinking False s of (s', es) \<Rightarrow> (s', es @ [Retint]))"

text \<open>
  The liveness write. \<open>setTurnOpen\<close> replaces the row in the collection when it writes, so the
  commit's own reference is the row no longer: \<open>residency\<close>, written through that reference next,
  reaches the collection only where nothing was replaced.
\<close>

definition commit_liveness :: "bool option \<Rightarrow> session \<Rightarrow> outcome_of_op" where
  "commit_liveness live s =
     (case live of
        None \<Rightarrow> (s\<lparr>s_turn_open := None, s_residency := Some Res_loaded\<rparr>, [])
      | Some v \<Rightarrow>
          (let (s', es) = set_turn_open v s;
               replaced_row = (s_turn_open s \<noteq> Some v)
           in (if replaced_row then s' else s'\<lparr>s_residency := Some Res_loaded\<rparr>, es)))"

definition commit_counts :: "page_answer \<Rightarrow> bool \<Rightarrow> session \<Rightarrow> session" where
  "commit_counts a starts_window s =
     s\<lparr>s_turn_count := pa_turn_count a,
       s_has_more := (if starts_window then pa_has_more a
                      else derived_has_more (pa_turn_count a) (length (s_turn_order s)))\<rparr>"

definition commit_holes :: "(string \<times> int option) list \<Rightarrow> session \<Rightarrow> outcome_of_op" where
  "commit_holes holes s =
     (if holes = [] then (s, [])
      else (mark_window_stale s, map (\<lambda>(turn_id, after). Repair turn_id after) holes))"

definition load_messages_commit ::
    "page_answer \<Rightarrow> bool \<Rightarrow> string list \<Rightarrow> session \<Rightarrow> outcome_of_op" where
  "load_messages_commit a older held_at_request s =
     (let page = build_page_turns (pa_entries a) (pa_open a);
          (s1, starts_window) = apply_page s page older held_at_request;
          republish = (if older then [] else [Republish_calls (pg_order page)]);
          s2 = commit_counts a starts_window s1;
          (s3, es3) = (if older then (s2, [])
                       else commit_liveness (pa_live a) (s2\<lparr>s_draft := Some (pa_draft a)\<rparr>));
          (s4, es4) = commit_holes (pg_holes page) s3;
          (s5, es5) = (if older then (s4, [])
                       else let stamps = map Observe_stamp (pa_subject a)
                            in if pa_live a = Some False
                               then (case clear_turn_state s4 of (s', es) \<Rightarrow> (s', stamps @ es))
                               else (s4, stamps))
      in (s5, republish @ es3 @ es4 @ [Bump Load] @ es5))"

text \<open>
  The three ways a load ends without a commit: superseded, unanswered, or answered for a row that
  left. Only an unanswered newest page writes, and it writes that the load failed.
\<close>

datatype 'a answer = Aborted | No_answer | Answered 'a

definition load_messages ::
    "page_answer answer \<Rightarrow> bool \<Rightarrow> string list \<Rightarrow> session option \<Rightarrow> session option \<times> effect list \<times> bool"
  where
  "load_messages ans older held_at_request row =
     (case ans of
        Aborted \<Rightarrow> (row, [], False)
      | No_answer \<Rightarrow>
          ((case row of
              None \<Rightarrow> None
            | Some s \<Rightarrow> Some (if older then s else s\<lparr>s_residency := Some Res_load_failed\<rparr>)), [], False)
      | Answered a \<Rightarrow>
          (case row of
             None \<Rightarrow> (None, [], False)
           | Some s \<Rightarrow>
               (case load_messages_commit a older held_at_request s of
                  (s', es) \<Rightarrow> (Some s', es, True))))"

section \<open>The range read of one turn\<close>

text \<open>The turn after the contiguous prefix of the answer, and how many entries that was.\<close>

fun push_range :: "entry list \<Rightarrow> turn_state \<Rightarrow> turn_state \<times> nat" where
  "push_range [] st = (st, 0)"
| "push_range (e # es) st =
     (if e_seq e \<noteq> int (length (ts_entries st)) then (st, 0)
      else case push_range es (push_entry e st) of (st', k) \<Rightarrow> (st', Suc k))"

definition max_safe_integer :: int where
  "max_safe_integer = 9007199254740991"

definition turn_ordinal :: "turn_state \<Rightarrow> int" where
  "turn_ordinal st = nullish (held_ordinal (Some st)) max_safe_integer"

definition insert_turn_by_ordinal :: "string \<Rightarrow> turn_state \<Rightarrow> session \<Rightarrow> session" where
  "insert_turn_by_ordinal turn_id st s =
     (let turns = AList.update turn_id st (s_turns s);
          later = (\<lambda>id1. case map_of turns id1 of
                           None \<Rightarrow> False | Some other \<Rightarrow> turn_ordinal other > turn_ordinal st)
      in s\<lparr>s_turns := turns,
           s_turn_order :=
             (case find_index later (s_turn_order s) of
                None \<Rightarrow> s_turn_order s @ [turn_id]
              | Some i \<Rightarrow> take i (s_turn_order s) @ turn_id # drop i (s_turn_order s))\<rparr>)"

definition tails_of :: "string \<Rightarrow> open_entry list \<Rightarrow> turn_state \<Rightarrow> turn_state" where
  "tails_of turn_id os st =
     foldl (\<lambda>st oe. if oe_turn oe = turn_id then seat_tail oe st else st) (st\<lparr>ts_open := []\<rparr>) os"

text \<open>\<open>repairs_pending\<close> is whether another repair of this chat is still out.\<close>

definition apply_turn_range ::
    "bool \<Rightarrow> string \<Rightarrow> entry list \<Rightarrow> open_entry list \<Rightarrow> session \<Rightarrow> outcome_of_op" where
  "apply_turn_range repairs_pending turn_id entries os s =
     (if turn_id \<in> set (nullish (s_reverted s) []) then (s, [])
      else
        let held = map_of (s_turns s) turn_id;
            (st, applied) = push_range entries
              (nullish held \<lparr>ts_entries = [], ts_open = [], ts_close_at = None\<rparr>)
        in if ts_entries st = [] then (s, [])
           else
             let st' = tails_of turn_id os st;
                 s1 = (if held = None then insert_turn_by_ordinal turn_id st' s
                       else with_turn turn_id st' s)
             in if applied < length entries
                then (s1, (if applied > 0
                           then [Repair turn_id (Some (int (length (ts_entries st')) - 1))] else [])
                          @ [Bump Load])
                else (if s_residency s1 = Some Res_partial \<and> \<not> repairs_pending
                      then s1\<lparr>s_residency := Some Res_loaded\<rparr> else s1,
                      [Bump Load]))"

section \<open>Does this chat exist?\<close>

datatype chat_verdict = V_exists | V_gone | V_unresolved

definition id_char :: "char \<Rightarrow> bool" where
  "id_char c =
     (c \<in> {CHR ''_'', CHR ''-''}
      \<or> (48 \<le> (of_char c :: nat) \<and> (of_char c :: nat) \<le> 57)
      \<or> (65 \<le> (of_char c :: nat) \<and> (of_char c :: nat) \<le> 90)
      \<or> (97 \<le> (of_char c :: nat) \<and> (of_char c :: nat) \<le> 122))"

definition chat_id_shaped :: "string \<Rightarrow> bool" where
  "chat_id_shaped id1 = (id1 \<noteq> '''' \<and> length id1 \<le> 128 \<and> list_all id_char id1)"

definition says_the_chat_is_gone :: "int \<Rightarrow> string \<Rightarrow> bool" where
  "says_the_chat_is_gone status chat_id =
     (status = 404 \<or> (status = 400 \<and> \<not> chat_id_shaped chat_id))"

text \<open>\<open>Some h\<close>: a 2xx with a decodable header, which is adopted.\<close>

definition confirm_chat_exists ::
    "chat_header option \<Rightarrow> int \<Rightarrow> string \<Rightarrow> session option \<Rightarrow> session option \<times> chat_verdict" where
  "confirm_chat_exists header status chat_id row =
     (case header of
        Some h \<Rightarrow> (Some (fst (upsert_header h row)), V_exists)
      | None \<Rightarrow> (row, if says_the_chat_is_gone status chat_id then V_gone else V_unresolved))"

end
