(* ===== verification/ListLoad.thy ===== *)
theory ListLoad
  imports PageLoad EntryFacts
begin

text \<open>
  The reads in flight and the chat list (static-src/store-load.ts): the repairs and page loads a
  revert aborts, the rows rebuilt from the list with what a rebuild carries over, and the bounded
  ladder behind a list load that failed.
\<close>

section \<open>Reads in flight\<close>

text \<open>\<open>msgControllers\<close>: the page load per chat, and whether it reads the newest page. \<open>turnRepairs\<close>:
  the range reads out, keyed by chat and turn.\<close>

record reads =
  rd_loads :: "(string \<times> bool) list"
  rd_repairs :: "(string \<times> string) list"

definition request_turn_range :: "string \<Rightarrow> string \<Rightarrow> reads \<Rightarrow> reads \<times> bool" where
  "request_turn_range chat turn_id r =
     (if (chat, turn_id) \<in> set (rd_repairs r) then (r, False)
      else (r\<lparr>rd_repairs := rd_repairs r @ [(chat, turn_id)]\<rparr>, True))"

definition settle_turn_range :: "string \<Rightarrow> string \<Rightarrow> reads \<Rightarrow> reads" where
  "settle_turn_range chat turn_id r =
     r\<lparr>rd_repairs := filter (\<lambda>k. k \<noteq> (chat, turn_id)) (rd_repairs r)\<rparr>"

definition repairs_pending :: "string \<Rightarrow> reads \<Rightarrow> bool" where
  "repairs_pending chat r = list_ex (\<lambda>(c, t). c = chat) (rd_repairs r)"

text \<open>The second component: whether the newest page is asked for again.\<close>

definition abort_reads_for_revert :: "string \<Rightarrow> string list \<Rightarrow> reads \<Rightarrow> reads \<times> bool" where
  "abort_reads_for_revert chat turn_ids r =
     (let reissue = (map_of (rd_loads r) chat = Some True);
          loads = AList.delete chat (rd_loads r);
          loads' = (if reissue then AList.update chat True loads else loads)
      in (r\<lparr>rd_loads := loads',
            rd_repairs := filter (\<lambda>(c, t). \<not> (c = chat \<and> t \<in> set turn_ids)) (rd_repairs r)\<rparr>,
          reissue))"

section \<open>Rows from the list\<close>

text \<open>The row rebuilt from one header over the row the store held for it, if any.\<close>

definition list_row :: "chat_header \<Rightarrow> session option \<Rightarrow> session" where
  "list_row h existing =
     (row_of_header h)
       \<lparr>s_effort_levels := Some (nullish (h_effort_levels h)
          (case existing of None \<Rightarrow> [] | Some s \<Rightarrow> nullish (s_effort_levels s) [])),
        s_effort_active := Some (nullish (h_effort_active h)
          (case existing of None \<Rightarrow> '''' | Some s \<Rightarrow> nullish (s_effort_active s) '''')),
        s_turns := (case existing of None \<Rightarrow> [] | Some s \<Rightarrow> s_turns s),
        s_turn_order := (case existing of None \<Rightarrow> [] | Some s \<Rightarrow> s_turn_order s),
        s_has_more := derived_has_more (h_turn_count h)
          (case existing of None \<Rightarrow> 0 | Some s \<Rightarrow> length (s_turn_order s)),
        s_thinking := (case existing of None \<Rightarrow> False | Some s \<Rightarrow> s_thinking s),
        s_working_label := (case existing of None \<Rightarrow> ''Thinking'' | Some s \<Rightarrow> s_working_label s),
        s_steers := (case existing of None \<Rightarrow> None | Some s \<Rightarrow> s_steers s),
        s_agent_status := (case existing of None \<Rightarrow> None | Some s \<Rightarrow> s_agent_status s),
        s_residency := (case existing of None \<Rightarrow> None | Some s \<Rightarrow> s_residency s),
        s_pending_model := h_pending_model h\<rparr>"

definition find_row :: "string \<Rightarrow> session list \<Rightarrow> session option" where
  "find_row id1 rows = List.find (\<lambda>s. s_id s = id1) rows"

text \<open>\<open>knownBefore\<close> is read when the request leaves, \<open>current\<close> when the answer lands.\<close>

definition list_rows :: "string list \<Rightarrow> chat_header list \<Rightarrow> session list \<Rightarrow> session list" where
  "list_rows known_before chats current =
     (let next = map (\<lambda>h. list_row h (find_row (h_id h) current)) chats
      in next @ filter (\<lambda>s. s_id s \<notin> set known_before \<and> s_id s \<notin> set (map s_id next)
                            \<and> \<not> s_provisional s) current)"

section \<open>The retry ladder\<close>

datatype list_reach = Reach_unknown | Reachable | Unreachable

record ladder =
  ld_attempts :: nat
  ld_timer :: "nat option"
  ld_reach :: list_reach
  ld_loaded :: bool

definition list_retry_limit :: nat where
  "list_retry_limit = 3"

definition list_retry_base_ms :: nat where
  "list_retry_base_ms = 1000"

definition cancel_list_retry :: "ladder \<Rightarrow> ladder" where
  "cancel_list_retry l = l\<lparr>ld_timer := None, ld_attempts := 0\<rparr>"

definition arm_list_retry :: "ladder \<Rightarrow> ladder" where
  "arm_list_retry l =
     (if ld_attempts l \<ge> list_retry_limit then l\<lparr>ld_attempts := 0\<rparr>
      else l\<lparr>ld_timer := Some (list_retry_base_ms * 2 ^ ld_attempts l),
             ld_attempts := Suc (ld_attempts l)\<rparr>)"

definition schedule_list_retry :: "ladder \<Rightarrow> ladder" where
  "schedule_list_retry l =
     (if ld_reach l \<noteq> Unreachable then l else arm_list_retry (cancel_list_retry l))"

definition server_may_answer :: "ladder \<Rightarrow> bool" where
  "server_may_answer l = (ld_loaded l \<or> ld_reach l \<noteq> Unreachable)"

text \<open>What a list load's answer writes. An aborted load writes nothing.\<close>

definition list_settles :: "chat_header list answer \<Rightarrow> ladder \<Rightarrow> ladder \<times> bool" where
  "list_settles ans l =
     (case ans of
        Aborted \<Rightarrow> (l, False)
      | No_answer \<Rightarrow> (l\<lparr>ld_reach := Unreachable\<rparr>, False)
      | Answered _ \<Rightarrow> (cancel_list_retry (l\<lparr>ld_loaded := True, ld_reach := Reachable\<rparr>), True))"

text \<open>The rung's own continuation: the timer fires, the load settles, and a failure arms the next.\<close>

definition rung_fires :: "chat_header list answer \<Rightarrow> ladder \<Rightarrow> ladder" where
  "rung_fires ans l =
     (case list_settles ans (l\<lparr>ld_timer := None\<rparr>) of
        (l', ok) \<Rightarrow> if \<not> ok \<and> ld_reach l' = Unreachable then arm_list_retry l' else l')"

text \<open>The delays the ladder sleeps while every load finds no answer, at most \<open>fuel\<close> rungs of them.\<close>

fun ladder_delays :: "nat \<Rightarrow> ladder \<Rightarrow> nat list" where
  "ladder_delays 0 l = []"
| "ladder_delays (Suc fuel) l =
     (case ld_timer l of None \<Rightarrow> [] | Some d \<Rightarrow> d # ladder_delays fuel (rung_fires No_answer l))"

section \<open>Facts\<close>

lemma list_row_id [simp]: "s_id (list_row h r) = h_id h"
  by (simp add: list_row_def row_of_header_def)

lemma list_row_window [simp]:
  "s_turns (list_row h (Some s)) = s_turns s" "s_turn_order (list_row h (Some s)) = s_turn_order s"
  "s_steers (list_row h (Some s)) = s_steers s" "s_residency (list_row h (Some s)) = s_residency s"
  "s_thinking (list_row h (Some s)) = s_thinking s"
  "s_agent_status (list_row h (Some s)) = s_agent_status s"
  "s_working_label (list_row h (Some s)) = s_working_label s"
  "s_reverted (list_row h r) = None" "s_turn_open (list_row h r) = None"
  "s_draft (list_row h r) = None" "\<not> s_provisional (list_row h r)"
  "s_turn_count (list_row h r) = h_turn_count h"
  by (simp_all add: list_row_def row_of_header_def)

lemma find_row_id: "find_row i rows = Some s \<Longrightarrow> s_id s = i \<and> s \<in> set rows"
  by (auto simp: find_row_def find_Some_iff)

lemma ladder_fresh_rung:
  assumes "ld_reach l = Unreachable"
  shows "schedule_list_retry l = l\<lparr>ld_timer := Some 1000, ld_attempts := 1\<rparr>"
  using assms by (simp add: schedule_list_retry_def arm_list_retry_def cancel_list_retry_def
      list_retry_limit_def list_retry_base_ms_def)

lemma push_entry_entries [simp]: "ts_entries (push_entry e st) = ts_entries st @ [e]"
  by (simp add: push_entry_def note_close_def)

lemma push_range_keeps: "ts_entries st \<noteq> [] \<Longrightarrow> ts_entries (fst (push_range es st)) \<noteq> []"
  by (induction es arbitrary: st) (auto simp: split_def)

section \<open>Properties\<close>

text \<open>
  The ladder behind a dead list is bounded: after a failed load it sleeps one, two and four
  seconds and then stops, however long the server stays silent, and a load superseded by another
  is no evidence that starts one.
\<close>

theorem list_ladder_is_bounded:
  "ladder_delays (3 + k) (schedule_list_retry (l\<lparr>ld_reach := Unreachable\<rparr>)) = [1000, 2000, 4000]
   \<and> list_settles Aborted l = (l, False)
   \<and> (schedule_list_retry (l\<lparr>ld_reach := Reachable\<rparr>) = l\<lparr>ld_reach := Reachable\<rparr>)"
proof -
  have "ladder_delays (Suc (Suc (Suc k))) (schedule_list_retry (l\<lparr>ld_reach := Unreachable\<rparr>))
      = [1000, 2000, 4000]"
    by (cases k) (simp_all add: ladder_fresh_rung rung_fires_def list_settles_def arm_list_retry_def
        list_retry_limit_def list_retry_base_ms_def)
  then show ?thesis by (simp add: list_settles_def schedule_list_retry_def numeral_3_eq_3)
qed

text \<open>
  A list that lands leaves one row per chat it named, in its order, each over the window, the
  steers and the residency the store held for it; then the chats that appeared while it was out,
  and no hinted row it did not name.
\<close>

theorem list_rows_are_the_servers:
  "map s_id (take (length chats) (list_rows known chats current)) = map h_id chats
   \<and> (\<forall>s \<in> set (drop (length chats) (list_rows known chats current)).
        s \<in> set current \<and> s_id s \<notin> set known \<and> s_id s \<notin> h_id ` set chats \<and> \<not> s_provisional s)
   \<and> (\<forall>h \<in> set chats. \<forall>s. find_row (h_id h) current = Some s \<longrightarrow>
        (\<exists>r \<in> set (list_rows known chats current). s_id r = h_id h \<and> s_turns r = s_turns s
           \<and> s_turn_order r = s_turn_order s \<and> s_steers r = s_steers s \<and> s_residency r = s_residency s))"
proof -
  define rebuilt where "rebuilt = map (\<lambda>h. list_row h (find_row (h_id h) current)) chats"
  define added where
    "added = filter (\<lambda>s. s_id s \<notin> set known \<and> s_id s \<notin> set (map s_id rebuilt) \<and> \<not> s_provisional s) current"
  have rows: "list_rows known chats current = rebuilt @ added"
    by (simp only: list_rows_def Let_def rebuilt_def added_def)
  have len: "length rebuilt = length chats" and ids: "map s_id rebuilt = map h_id chats"
    by (simp_all add: rebuilt_def comp_def)
  have "\<exists>r \<in> set (list_rows known chats current). s_id r = h_id h \<and> s_turns r = s_turns s
           \<and> s_turn_order r = s_turn_order s \<and> s_steers r = s_steers s \<and> s_residency r = s_residency s"
    if "h \<in> set chats" "find_row (h_id h) current = Some s" for h s
    using that unfolding rows
    by (intro bexI[of _ "list_row h (Some s)"]) (force simp: rebuilt_def image_iff)+
  moreover have "s_id ` set rebuilt = h_id ` set chats" using arg_cong[OF ids, of set] by simp
  ultimately show ?thesis by (simp add: rows len ids) (auto simp: added_def)
qed

definition sample_header :: chat_header where
  "sample_header =
     \<lparr>h_id = ''c1'', h_name = ''Chat'', h_model = None, h_acp_session_id = None,
      h_current_mode_id = None, h_effort = None, h_last_turn_outcome = None,
      h_effort_active = None, h_pending_model = None, h_effort_levels = None,
      h_compaction_watermark = None, h_prior_acp_session_ids = None, h_usage = default_usage,
      h_created_at = 0, h_updated_at = 0, h_turn_count = 0, h_supervised_mode = None\<rparr>"

theorem list_rows_are_the_servers_witness:
  "\<exists>r \<in> set (list_rows [] [sample_header] [row_of_header sample_header]). s_id r = ''c1''"
  using list_rows_are_the_servers[of "[sample_header]" "[]" "[row_of_header sample_header]"]
  by (auto simp: find_row_def row_of_header_def sample_header_def)

text \<open>
  A range answer for a turn a revert took is refused by the row that recorded the revert; the row
  the list rebuilds over it has no such record, so the same answer, landing after a list load, seats
  the reverted turn again.
\<close>

theorem list_rebuild_forgets_revert:
  assumes "turn_id \<in> set (nullish (s_reverted s) [])" and "map_of (s_turns s) turn_id = None"
    and "e_seq e = 0"
  shows "apply_turn_range pending turn_id (e # es) os s = (s, [])
       \<and> map_of (s_turns (fst (apply_turn_range pending turn_id (e # es) os (list_row h (Some s)))))
           turn_id \<noteq> None"
proof -
  obtain st k where k: "push_range es
      (push_entry e \<lparr>ts_entries = [], ts_open = [], ts_close_at = None\<rparr>) = (st, k)" by fastforce
  have "ts_entries st \<noteq> []"
    using push_range_keeps[of "push_entry e \<lparr>ts_entries = [], ts_open = [], ts_close_at = None\<rparr>" es]
    by (auto simp: k)
  with assms k show ?thesis
    by (simp add: apply_turn_range_def Let_def insert_turn_by_ordinal_def map_of_update split_def)
qed

theorem list_rebuild_forgets_revert_witness:
  "map_of (s_turns (fst (apply_turn_range False ''t9'' [sample_open ''t9'' 9] []
     (list_row sample_header (Some ((row_of_header sample_header)\<lparr>s_reverted := Some [''t9'']\<rparr>)))))) ''t9'' \<noteq> None"
  using list_rebuild_forgets_revert[of "''t9''" "(row_of_header sample_header)\<lparr>s_reverted := Some [''t9'']\<rparr>"
      "sample_open ''t9'' 9" False "[]" "[]" sample_header]
  by (simp add: row_of_header_def)

end
