(* ===== verification/PageFacts.thy ===== *)
theory PageFacts
  imports ListLoad
begin

text \<open>
  What a fetched answer leaves: the page walk builds the turns live frames would have built, a merge
  keeps everything newer than the answer, a committed newest page is the server's window plus what
  arrived, a repaired turn is the turn in-order delivery would have made, and a repaired turn is
  seated in ordinal order.
\<close>

section \<open>The page walk against the live frames\<close>

definition replay_entry :: "session \<Rightarrow> entry \<Rightarrow> session" where
  "replay_entry s e =
     (if entry_kind_of e = K_turn_open then fst (open_turn e s) else fst (append_entry e s))"

lemma push_is_seat: "push_entry e st = seat_entry e st"
  by (simp add: push_entry_def note_close_def seat_entry_def)

lemma append_no_revert:
  assumes "entry_kind_of e \<noteq> K_turn_revert"
  shows "s_turns (fst (append_entry e s)) =
           (case map_of (s_turns s) (e_turn e) of
              None \<Rightarrow> s_turns s
            | Some st \<Rightarrow> if e_seq e = int (length (ts_entries st))
                          then AList.update (e_turn e) (seat_entry e st) (s_turns s) else s_turns s)"
    and "s_turn_order (fst (append_entry e s)) = s_turn_order s"
  using assms
  by (auto simp: append_entry_def append_in_turn_def mark_hole_def Let_def split_def split: option.splits)

lemma open_turn_turns:
  "s_turns (fst (open_turn e s)) =
     (if map_of (s_turns s) (e_turn e) = None
      then AList.update (e_turn e) (fresh_turn e) (s_turns s) else s_turns s)"
  "s_turn_order (fst (open_turn e s)) =
     (if map_of (s_turns s) (e_turn e) = None then s_turn_order s @ [e_turn e] else s_turn_order s)"
  by (simp_all add: open_turn_def Let_def recount_def)

text \<open>
  A revert inside a page took its turns before the page was read, so none of those it names is on
  the page before it; the carrier, which it never takes, may be. \<open>page_holds\<close> is what the walk keeps:
  a turn's entries are entries read so far, of that turn.
\<close>

definition spent_revert :: "entry list \<Rightarrow> entry \<Rightarrow> bool" where
  "spent_revert seen e =
     (case payload_turn_revert e of
        None \<Rightarrow> True
      | Some r \<Rightarrow> list_all (\<lambda>p. e_turn p = e_turn e
          \<or> (case payload_turn_open p of None \<Rightarrow> True | Some q \<Rightarrow> to_n q < rv_from_n r)) seen)"

fun spent_reverts :: "entry list \<Rightarrow> entry list \<Rightarrow> bool" where
  "spent_reverts seen [] = True"
| "spent_reverts seen (e # es) = (spent_revert seen e \<and> spent_reverts (seen @ [e]) es)"

definition page_holds :: "entry list \<Rightarrow> (string \<times> turn_state) list \<Rightarrow> bool" where
  "page_holds seen m =
     list_all (\<lambda>(k, st). list_all (\<lambda>e. e \<in> set seen \<and> e_turn e = k) (ts_entries st)) m"

lemma page_holds_update:
  "page_holds seen m \<Longrightarrow> list_all (\<lambda>e. e \<in> set seen \<and> e_turn e = k) (ts_entries st) \<Longrightarrow>
   page_holds seen (AList.update k st m)"
  unfolding page_holds_def by (rule list_all_update)

lemma page_holds_more: "page_holds seen m \<Longrightarrow> page_holds (seen @ [e]) m"
  by (auto simp: page_holds_def list_all_iff)

lemma page_holds_lookup:
  "page_holds seen m \<Longrightarrow> map_of m k = Some st \<Longrightarrow> list_all (\<lambda>e. e \<in> set seen \<and> e_turn e = k) (ts_entries st)"
  by (auto simp: page_holds_def list_all_iff dest!: map_of_SomeD)

lemma page_step_holds: "page_holds seen (pg_turns p) \<Longrightarrow> page_holds (seen @ [e]) (pg_turns (page_step p e))"
  by (auto simp: page_step_def push_is_seat seat_entry_def fresh_turn_def page_holds_more split: option.splits
      intro!: page_holds_update dest: page_holds_more[THEN page_holds_lookup])

lemma spent_takes_nothing:
  assumes "page_holds (seen @ [e]) m" and "spent_revert seen e" and "payload_turn_revert e = Some r"
  shows "\<not> takes_turn (rv_from_n r) e m x"
proof
  assume t: "takes_turn (rv_from_n r) e m x"
  then obtain st n where st: "x \<noteq> e_turn e" "map_of m x = Some st" "held_ordinal (Some st) = Some n" "rv_from_n r \<le> n"
    by (auto simp: takes_turn_def held_ordinal_def split: option.splits)
  then obtain p q where p: "p \<in> set (ts_entries st)" "payload_turn_open p = Some q" "n = to_n q"
    by (auto simp: held_ordinal_def split: option.splits if_splits dest: nth_opt_SomeD)
  then have "p \<in> set (seen @ [e])" "e_turn p = x"
    using page_holds_lookup[OF assms(1) st(2)] by (auto simp: list_all_iff)
  then have "to_n q < rv_from_n r" using assms(2,3) p(2) st(1) by (auto simp: spent_revert_def list_all_iff)
  with st(4) p(3) show False by simp
qed

lemma revert_takes_nothing:
  assumes "\<And>r x. payload_turn_revert e = Some r \<Longrightarrow> \<not> takes_turn (rv_from_n r) e (s_turns s) x"
  shows "s_turns (fst (apply_revert e s)) = s_turns s" and "s_turn_order (fst (apply_revert e s)) = s_turn_order s"
proof -
  have "dropped_ids (rv_from_n r) e (s_turns s) ids = []" if "payload_turn_revert e = Some r" for r ids
    using assms[OF that] by (induction ids) simp_all
  then show "s_turns (fst (apply_revert e s)) = s_turns s" "s_turn_order (fst (apply_revert e s)) = s_turn_order s"
    by (auto simp: apply_revert_def recount_def Let_def split: option.splits)
qed

lemma append_spent:
  assumes "page_holds seen (s_turns s)" and "spent_revert seen e"
  shows "s_turns (fst (append_entry e s)) =
           (case map_of (s_turns s) (e_turn e) of
              None \<Rightarrow> s_turns s
            | Some st \<Rightarrow> if e_seq e = int (length (ts_entries st))
                          then AList.update (e_turn e) (seat_entry e st) (s_turns s) else s_turns s)"
    and "s_turn_order (fst (append_entry e s)) = s_turn_order s"
proof -
  have none: "\<not> takes_turn (rv_from_n r) e m x" if "page_holds (seen @ [e]) m" "payload_turn_revert e = Some r" for r m x
    using spent_takes_nothing[OF that(1) assms(2) that(2)] .
  have held: "page_holds (seen @ [e]) (s_turns s)" using assms(1) by (rule page_holds_more)
  have seated: "page_holds (seen @ [e]) (AList.update (e_turn e) (seat_entry e st) (s_turns s))"
    if "map_of (s_turns s) (e_turn e) = Some st" for st
    using page_holds_update[OF held, of "e_turn e" "seat_entry e st"] page_holds_lookup[OF held that]
    by (simp add: seat_entry_def)
  note quiet = revert_takes_nothing[OF none]
  show "s_turns (fst (append_entry e s)) =
           (case map_of (s_turns s) (e_turn e) of
              None \<Rightarrow> s_turns s
            | Some st \<Rightarrow> if e_seq e = int (length (ts_entries st))
                          then AList.update (e_turn e) (seat_entry e st) (s_turns s) else s_turns s)"
    "s_turn_order (fst (append_entry e s)) = s_turn_order s"
    using quiet[of s] held seated quiet
    by (auto simp: append_entry_def append_in_turn_def mark_hole_def Let_def split_def split: option.splits)
qed

lemma page_step_replays:
  assumes "pg_turns p = s_turns s" "pg_order p = s_turn_order s" "page_holds seen (s_turns s)" "spent_revert seen e"
  shows "pg_turns (page_step p e) = s_turns (replay_entry s e)
       \<and> pg_order (page_step p e) = s_turn_order (replay_entry s e)"
  using assms(1,2) append_spent[OF assms(3,4)]
  by (auto simp: page_step_def replay_entry_def open_turn_turns push_is_seat split: option.splits)

lemma page_walk_replays:
  assumes "pg_turns p = s_turns s" "pg_order p = s_turn_order s"
    and "page_holds seen (pg_turns p)" and "spent_reverts seen es"
  shows "pg_turns (foldl page_step p es) = s_turns (foldl replay_entry s es)
       \<and> pg_order (foldl page_step p es) = s_turn_order (foldl replay_entry s es)"
  using assms
proof (induction es arbitrary: p s seen)
  case (Cons e es)
  have "pg_turns (page_step p e) = s_turns (replay_entry s e)"
       "pg_order (page_step p e) = s_turn_order (replay_entry s e)"
    using page_step_replays[OF Cons.prems(1,2), of seen e] Cons.prems(1,3,4) by simp_all
  from Cons.IH[OF this page_step_holds[OF Cons.prems(3)]] Cons.prems(4) show ?case by simp
qed simp

definition replay_tail :: "session \<Rightarrow> open_entry \<Rightarrow> session" where
  "replay_tail s oe = fst (open_lane_entry oe s)"

lemma tails_replay:
  assumes "pg_turns p = s_turns s" "pg_order p = s_turn_order s"
  shows "pg_turns (seat_open_entries p os) = s_turns (foldl replay_tail s os)
       \<and> pg_order (seat_open_entries p os) = s_turn_order (foldl replay_tail s os)"
  using assms
proof (induction os arbitrary: p s)
  case (Cons oe os)
  have "pg_turns (seat_open_entry p oe) = s_turns (replay_tail s oe)"
       "pg_order (seat_open_entry p oe) = s_turn_order (replay_tail s oe)"
    using Cons.prems
    by (auto simp: seat_open_entry_def replay_tail_def open_lane_entry_def mark_hole_def with_turn_def seat_tail_def Let_def
        split: option.splits)
  from Cons.IH[OF this] show ?case by (simp add: seat_open_entries_def)
qed (simp add: seat_open_entries_def)

section \<open>The page walk keeps turns well formed\<close>

definition page_wf :: "page_turns \<Rightarrow> bool" where
  "page_wf p =
     (wf_turns (pg_turns p) \<and> distinct (pg_order p) \<and> set (pg_order p) = set (keys (pg_turns p)))"

definition page_entry_ok :: "entry \<Rightarrow> bool" where
  "page_entry_ok e = (entry_kind_of e = K_turn_open \<longrightarrow> e_seq e = 0)"

interpretation page_walk: frame_machine page_step page_entry_ok page_wf
proof
  fix p e assume wf: "page_wf p" and ok: "page_entry_ok e"
  show "page_wf (page_step p e)"
  proof (cases "entry_kind_of e = K_turn_open")
    case True
    have fresh: "wf_turn (e_turn e) (fresh_turn e)"
      using True ok by (simp add: page_entry_ok_def wf_turn_fresh)
    have "e_turn e \<notin> set (pg_order p)" if "map_of (pg_turns p) (e_turn e) = None"
      using that wf by (simp add: page_wf_def map_of_eq_None_iff)
    with wf True fresh show ?thesis
      by (auto simp: page_step_def page_wf_def wf_turns_update keys_update simp del: set_map)
  next
    case False
    show ?thesis
    proof (cases "map_of (pg_turns p) (e_turn e)")
      case (Some st)
      have st: "wf_turn (e_turn e) st" using wf Some wf_turns_lookup by (auto simp: page_wf_def)
      have "e_turn e \<in> set (keys (pg_turns p))" using Some by (rule map_of_in_keys)
      then have "page_wf (p\<lparr>pg_turns := AList.update (e_turn e) (push_entry e st) (pg_turns p)\<rparr>)"
        if "e_seq e = int (length (ts_entries st))"
        using that wf st
        by (simp add: page_wf_def push_is_seat wf_turns_update wf_turn_seat keys_update insert_absorb
            del: set_map)
      with wf Some False show ?thesis by (auto simp: page_step_def page_wf_def)
    qed (use wf False in \<open>simp add: page_step_def page_wf_def\<close>)
  qed
qed

lemma wf_turn_seat_tail: "wf_turn k st \<Longrightarrow> oe_turn oe = k \<Longrightarrow> wf_turn k (seat_tail oe st)"
  by (simp add: seat_tail_def Let_def wf_turn_open_set)

interpretation page_tails: frame_machine seat_open_entry "\<lambda>_. True" page_wf
proof
  fix p :: page_turns and oe :: open_entry assume wf: "page_wf p"
  show "page_wf (seat_open_entry p oe)"
  proof (cases "map_of (pg_turns p) (oe_turn oe)")
    case (Some st)
    have "wf_turn (oe_turn oe) (seat_tail oe st)"
      using wf Some wf_turns_lookup by (intro wf_turn_seat_tail) (auto simp: page_wf_def)
    moreover have "oe_turn oe \<in> set (keys (pg_turns p))" using Some by (rule map_of_in_keys)
    ultimately show ?thesis
      using wf Some
      by (simp add: seat_open_entry_def page_wf_def wf_turns_update keys_update insert_absorb
          del: set_map)
  qed (use wf in \<open>simp add: seat_open_entry_def page_wf_def\<close>)
qed

lemma build_page_wf: "list_all page_entry_ok es \<Longrightarrow> page_wf (build_page_turns es os)"
proof -
  assume ok: "list_all page_entry_ok es"
  have "page_wf empty_page" by (simp add: page_wf_def empty_page_def wf_turns_def)
  from page_walk.run_inv[OF this ok] have "page_wf (foldl page_step empty_page es)" .
  from page_tails.run_inv[OF this, of os] show ?thesis
    by (simp add: build_page_turns_def seat_open_entries_def list_all_iff)
qed

section \<open>Merging\<close>

lemma push_contiguous_fits:
  assumes "map e_seq es = map (\<lambda>j. i + int j) [0..<length es]"
  shows "push_contiguous i es st = foldl (\<lambda>s e. push_entry e s) st es"
  using assms
proof (induction es arbitrary: i st)
  case (Cons e es)
  have "map e_seq es = map (\<lambda>j. (i + 1) + int j) [0..<length es]"
    using Cons.prems by (simp add: upt_conv_Cons map_Suc_upt[symmetric] del: upt_Suc)
  with Cons show ?case by (simp add: upt_conv_Cons del: upt_Suc)
qed simp

lemma foldl_push_entries:
  "ts_entries (foldl (\<lambda>s e. push_entry e s) st es) = ts_entries st @ es"
  by (induction es arbitrary: st) simp_all

lemma keep_tail_entries [simp]:
  "ts_entries (keep_tail sealed st x) = ts_entries st" "ts_close_at (keep_tail sealed st x) = ts_close_at st"
  by (auto simp: keep_tail_def split: prod.splits option.splits)

lemma keep_tails_entries [simp]:
  "ts_entries (foldl (keep_tail sealed) st xs) = ts_entries st"
  "ts_close_at (foldl (keep_tail sealed) st xs) = ts_close_at st"
  by (induction xs arbitrary: st) simp_all

lemma seqs_fit_drop:
  "seqs_fit k es \<Longrightarrow> map e_seq (drop n es) = map (\<lambda>j. int n + int j) [0..<length (drop n es)]"
  by (rule nth_equalityI) (auto simp: seqs_fit_nth)

lemma merge_entries:
  assumes "wf_turn k held"
  shows "ts_entries (merge_turn page held)
           = ts_entries page @ drop (length (ts_entries page)) (ts_entries held)"
proof -
  have "seqs_fit k (ts_entries held)" using assms by (simp add: wf_turn_def)
  from push_contiguous_fits[OF seqs_fit_drop[OF this, of "length (ts_entries page)"]]
  show ?thesis by (simp add: merge_turn_def Let_def foldl_push_entries)
qed

text \<open>A tail the store holds survives unless the answer sealed it or carries a later copy.\<close>

lemma keep_tail_other: "l \<noteq> fst x \<Longrightarrow> map_of (ts_open (keep_tail sealed st x)) l = map_of (ts_open st) l"
  by (auto simp: keep_tail_def map_of_update split: prod.splits option.splits)

lemma keep_tails_other:
  "l \<notin> set (keys xs) \<Longrightarrow> map_of (ts_open (foldl (keep_tail sealed) st xs)) l = map_of (ts_open st) l"
  by (induction xs arbitrary: st) (auto simp: keep_tail_other)

lemma keep_tails_at:
  assumes "distinct (keys xs)" and "(l, oe) \<in> set xs"
  shows "map_of (ts_open (foldl (keep_tail sealed) st xs)) l
           = map_of (ts_open (keep_tail sealed st (l, oe))) l"
  using assms
proof (induction xs arbitrary: st)
  case (Cons x xs)
  show ?case
  proof (cases "x = (l, oe)")
    case True
    with Cons.prems show ?thesis by (auto intro: keep_tails_other)
  next
    case False
    with Cons.prems have in_xs: "(l, oe) \<in> set xs" and d: "distinct (keys xs)" "l \<noteq> fst x"
      by (auto simp: image_iff)
    have "map_of (ts_open (foldl (keep_tail sealed) (keep_tail sealed st x) xs)) l
        = map_of (ts_open (keep_tail sealed (keep_tail sealed st x) (l, oe))) l"
      using Cons.IH[OF d(1) in_xs] .
    also have "\<dots> = map_of (ts_open (keep_tail sealed st (l, oe))) l"
      using keep_tail_other[OF d(2), of sealed st]
      by (simp add: keep_tail_def map_of_update split: option.splits)
    finally show ?thesis by simp
  qed
qed simp

lemma wf_push: "wf_turn k st \<Longrightarrow> e_turn e = k \<Longrightarrow> e_seq e = int (length (ts_entries st)) \<Longrightarrow>
    wf_turn k (push_entry e st)"
  by (simp add: push_is_seat wf_turn_seat)

lemma wf_push_contiguous:
  assumes "wf_turn k st" and "int (length (ts_entries st)) = i" and "\<forall>e\<in>set es. e_turn e = k"
  shows "wf_turn k (push_contiguous i es st)"
  using assms by (induction es arbitrary: i st) (auto simp: wf_push)

lemma wf_keep_tail:
  "wf_turn k st \<Longrightarrow> oe_turn oe = k \<Longrightarrow> oe_lane oe = Some l \<Longrightarrow> wf_turn k (keep_tail sealed st (l, oe))"
  by (auto simp: keep_tail_def wf_turn_open_set split: option.splits)

lemma wf_merge:
  assumes "wf_turn k page" and "wf_turn k held"
  shows "wf_turn k (merge_turn page held)"
proof -
  have turns: "\<forall>e\<in>set (drop n (ts_entries held)). e_turn e = k" for n
    using assms(2) seqs_fit_nth by (fastforce simp: wf_turn_def in_set_conv_nth)
  have "wf_turn k (push_contiguous (int (length (ts_entries page)))
      (drop (length (ts_entries page)) (ts_entries held)) page)" (is "wf_turn k ?m")
    using assms(1) turns by (intro wf_push_contiguous) simp_all
  moreover have "list_all (\<lambda>(l, oe). oe_turn oe = k \<and> oe_lane oe = Some l) (ts_open held)"
    using assms(2) by (simp add: wf_turn_def)
  ultimately have "wf_turn k (foldl (keep_tail sealed) ?m (ts_open held))" for sealed
    by (intro foldl_invariant[where I = "wf_turn k"])
       (auto simp: list_all_iff intro!: wf_keep_tail)
  then show ?thesis by (simp add: merge_turn_def Let_def)
qed

section \<open>Committing\<close>

lemma map_of_set_all:
  "map_of (set_all acc src ids) x =
     (if x \<in> set ids \<and> map_of src x \<noteq> None then map_of src x else map_of acc x)"
proof (induction ids arbitrary: acc)
  case (Cons i ids)
  have "set_all acc src (i # ids) =
      set_all (case map_of src i of None \<Rightarrow> acc | Some st \<Rightarrow> AList.update i st acc) src ids"
    by (simp add: set_all_def)
  with Cons show ?case by (auto simp: map_of_update split: option.splits)
qed (simp add: set_all_def)

definition merged_with :: "(string \<times> turn_state) list \<Rightarrow> string \<Rightarrow> turn_state \<Rightarrow> turn_state" where
  "merged_with held x st = (case map_of held x of None \<Rightarrow> st | Some prev \<Rightarrow> merge_turn st prev)"

lemma map_of_set_merged:
  "map_of (set_merged acc page held ids) x =
     (if x \<in> set ids \<and> map_of page x \<noteq> None
      then map_option (merged_with held x) (map_of page x) else map_of acc x)"
proof (induction ids arbitrary: acc)
  case (Cons i ids)
  have "set_merged acc page held (i # ids) =
      set_merged (case map_of page i of None \<Rightarrow> acc
        | Some st \<Rightarrow> AList.update i (merged_with held i st) acc) page held ids"
    by (cases "map_of page i") (simp_all add: set_merged_def merged_with_def)
  with Cons show ?case by (auto simp: map_of_update split: option.splits)
qed (simp add: set_merged_def)

lemma kept_in_held: "set (kept_before po ho) \<subseteq> set ho" and arrived_in_held:
  "set (arrived_after pt po h0 ho) \<subseteq> set ho"
  by (auto simp: kept_before_def arrived_after_def dest: in_set_takeD in_set_dropD
      split: list.splits option.splits)

lemma kept_distinct: "distinct ho \<Longrightarrow> distinct (kept_before po ho)"
  by (auto simp: kept_before_def split: list.splits option.splits)

lemma arrived_distinct: "distinct ho \<Longrightarrow> distinct (arrived_after pt po h0 ho)"
  by (auto simp: arrived_after_def split: list.splits option.splits)

lemma arrived_fresh:
  "x \<in> set (arrived_after pt po h0 ho) \<Longrightarrow> map_of pt x = None \<and> x \<notin> set h0"
  by (auto simp: arrived_after_def split: list.splits option.splits)

text \<open>A turn kept before the page's oldest is not one that arrived after the page's newest.\<close>

lemma kept_arrived_disjoint:
  assumes "distinct ho" and "set (kept_before po ho) \<inter> set po = {}"
  shows "set (kept_before po ho) \<inter> set (arrived_after pt po h0 ho) = {}"
proof (cases po)
  case (Cons oldest rest)
  show ?thesis
  proof (cases "index_of oldest ho")
    case (Some a)
    obtain newest more where r: "rev po = newest # more" using Cons by (cases "rev po") auto
    show ?thesis
    proof (cases "index_of newest ho")
      case (Some b)
      have kept: "kept_before po ho = take a ho" by (simp add: kept_before_def Cons \<open>index_of oldest ho = Some a\<close>)
      have "newest \<in> set po" using r by (metis list.set_intros(1) set_rev)
      with assms(2) have "newest \<notin> set (take a ho)" by (auto simp: kept)
      moreover have "ho ! b = newest" "b < length ho" using index_of_Some[OF Some] by auto
      ultimately have "a \<le> b" by (metis in_set_conv_nth length_take min_less_iff_conj not_le nth_take)
      then have "set (take a ho) \<inter> set (drop (Suc b) ho) = {}"
        using assms(1) by (intro set_take_disj_set_drop_if_distinct) simp_all
      then show ?thesis by (auto simp: kept arrived_after_def r Some)
    qed (simp add: arrived_after_def r del: index_of_None)
  qed (simp add: kept_before_def Cons del: index_of_None)
qed (simp add: kept_before_def)

lemma replace_page_lookup:
  assumes "wf_window s" and "page_wf p"
    and "set (kept_before (pg_order p) (s_turn_order s)) \<inter> set (pg_order p) = {}"
  shows "map_of (s_turns (replace_page p h0 s)) x =
     (if x \<in> set (pg_order p) then map_option (merged_with (s_turns s) x) (map_of (pg_turns p) x)
      else if x \<in> set (kept_before (pg_order p) (s_turn_order s))
              \<or> x \<in> set (arrived_after (pg_turns p) (pg_order p) h0 (s_turn_order s))
      then map_of (s_turns s) x else None)"
proof -
  have page_held: "x \<in> set (pg_order p) \<longleftrightarrow> map_of (pg_turns p) x \<noteq> None" for x
    using assms(2) by (metis keys_map_of not_None_eq page_wf_def)
  have held: "map_of (s_turns s) x \<noteq> None" if "x \<in> set (s_turn_order s)" for x
    using assms(1) that by (metis keys_map_of option.distinct(1) wf_window_def)
  show ?thesis
    using arrived_fresh[of x "pg_turns p" "pg_order p" h0 "s_turn_order s"] page_held[of x]
      held[of x] kept_in_held[of "pg_order p" "s_turn_order s"]
      arrived_in_held[of "pg_turns p" "pg_order p" h0 "s_turn_order s"]
    by (auto simp: replace_page_def Let_def map_of_set_all map_of_set_merged)
qed

lemma replace_page_order:
  assumes "wf_window s" and "page_wf p"
    and "set (kept_before (pg_order p) (s_turn_order s)) \<inter> set (pg_order p) = {}"
  shows "s_turn_order (replace_page p h0 s) =
     kept_before (pg_order p) (s_turn_order s) @ pg_order p
       @ arrived_after (pg_turns p) (pg_order p) h0 (s_turn_order s)"
proof -
  have "map_of (s_turns (replace_page p h0 s)) x \<noteq> None"
    if "x \<in> set (kept_before (pg_order p) (s_turn_order s)) \<or> x \<in> set (pg_order p)
        \<or> x \<in> set (arrived_after (pg_turns p) (pg_order p) h0 (s_turn_order s))" for x
  proof (cases "x \<in> set (pg_order p)")
    case True
    then have "map_of (pg_turns p) x \<noteq> None"
      using assms(2) by (metis keys_map_of option.distinct(1) page_wf_def)
    with True show ?thesis by (auto simp: replace_page_lookup[OF assms])
  next
    case False
    with that have "x \<in> set (s_turn_order s)"
      using kept_in_held arrived_in_held by blast
    then have "map_of (s_turns s) x \<noteq> None"
      using assms(1) by (metis keys_map_of option.distinct(1) wf_window_def)
    with that False show ?thesis by (auto simp: replace_page_lookup[OF assms])
  qed
  then show ?thesis
    by (simp add: replace_page_def Let_def)
qed

section \<open>A repaired turn\<close>

definition fits_from :: "nat \<Rightarrow> string \<Rightarrow> entry list \<Rightarrow> bool" where
  "fits_from n k es =
     (map (\<lambda>e. (e_seq e, e_turn e)) es = map (\<lambda>j. (int (n + j), k)) [0..<length es])"

lemma fits_from_Cons:
  "fits_from n k (e # es) \<longleftrightarrow> e_seq e = int n \<and> e_turn e = k \<and> fits_from (Suc n) k es"
  by (auto simp: fits_from_def upt_conv_Cons map_Suc_upt[symmetric] simp del: upt_Suc)

lemma push_range_fits:
  "fits_from (length (ts_entries st)) k es \<Longrightarrow>
   push_range es st = (foldl (\<lambda>s e. push_entry e s) st es, length es)"
  by (induction es arbitrary: st) (auto simp: fits_from_Cons)

lemma append_run:
  assumes "map_of (s_turns s) k = Some st" and "fits_from (length (ts_entries st)) k es"
  shows "map_of (s_turns (foldl (\<lambda>s e. fst (append_entry e s)) s es)) k
           = Some (foldl (\<lambda>s e. push_entry e s) st es)"
  using assms
proof (induction es arbitrary: s st)
  case (Cons e es)
  then have e: "e_seq e = int (length (ts_entries st))" "e_turn e = k"
    and rest: "fits_from (length (ts_entries (push_entry e st))) k es"
    by (simp_all add: fits_from_Cons)
  have "map_of (s_turns (fst (append_entry e s))) k = Some (push_entry e st)"
    using append_seated[of s e st] Cons.prems(1) e by (simp add: push_is_seat)
  from Cons.IH[OF this rest] show ?case by simp
qed simp

lemma seat_tail_entries [simp]:
  "ts_entries (seat_tail oe st) = ts_entries st" "ts_close_at (seat_tail oe st) = ts_close_at st"
  by (simp_all add: seat_tail_def Let_def)

lemma tails_entries [simp]:
  "ts_entries (tails_of t os st) = ts_entries st" "ts_close_at (tails_of t os st) = ts_close_at st"
proof -
  have "ts_entries (foldl (\<lambda>st oe. if oe_turn oe = t then seat_tail oe st else st) st0 os) = ts_entries st0
      \<and> ts_close_at (foldl (\<lambda>st oe. if oe_turn oe = t then seat_tail oe st else st) st0 os) = ts_close_at st0"
    for st0 by (induction os arbitrary: st0) simp_all
  then show "ts_entries (tails_of t os st) = ts_entries st" "ts_close_at (tails_of t os st) = ts_close_at st"
    by (simp_all add: tails_of_def)
qed

lemma sample_reverted [simp]: "s_reverted sample_window = None"
  by (simp add: sample_window_def open_turn_def Let_def recount_def sample_session_def
      row_of_header_def note_resident_mutation_def)

section \<open>Seating by ordinal\<close>

lemma find_index_cong: "(\<And>x. x \<in> set xs \<Longrightarrow> P x = Q x) \<Longrightarrow> find_index P xs = find_index Q xs"
  by (induction xs) auto


definition by_ordinal :: "session \<Rightarrow> bool" where
  "by_ordinal s =
     (list_all (\<lambda>x. map_of (s_turns s) x \<noteq> None) (s_turn_order s)
      \<and> sorted (map (\<lambda>x. turn_ordinal (the (map_of (s_turns s) x))) (s_turn_order s)))"

lemma sorted_insert_at:
  assumes "sorted (map f xs)"
  shows "sorted (map f (case find_index (\<lambda>x. f x > f y) xs of
     None \<Rightarrow> xs @ [y] | Some i \<Rightarrow> take i xs @ y # drop i xs))"
proof (cases "find_index (\<lambda>x. f x > f y) xs")
  case None
  then have "\<forall>x\<in>set xs. f x \<le> f y" by (auto simp: find_index_None not_less)
  with assms None show ?thesis by (simp only: option.case) (simp add: sorted_append)
next
  case (Some i)
  have i: "i < length xs" "f (xs ! i) > f y" "\<forall>j<i. f (xs ! j) \<le> f y"
    using find_index_Some[OF Some] by (auto simp: not_less)
  have "sorted (map f (take i xs) @ map f (drop i xs))"
    using assms by (metis append_take_drop_id map_append)
  then have srt: "sorted (map f (take i xs))" "sorted (map f (drop i xs))"
    "\<forall>a\<in>set (take i xs). \<forall>b\<in>set (drop i xs). f a \<le> f b"
    unfolding sorted_append by simp_all
  have "f a \<le> f y" if "a \<in> set (take i xs)" for a
    using that i(1,3) by (auto simp: in_set_conv_nth)
  moreover have "f y \<le> f b" if b: "b \<in> set (drop i xs)" for b
  proof -
    obtain m where m: "m < length (drop i xs)" "b = drop i xs ! m"
      using b by (metis in_set_conv_nth)
    then have j: "i + m < length xs" "b = xs ! (i + m)" using i(1) by simp_all
    have "map f xs ! i \<le> map f xs ! (i + m)"
      by (rule sorted_nth_mono[OF assms]) (use j in simp_all)
    with i(1,2) j show ?thesis by simp
  qed
  ultimately show ?thesis using srt by (auto simp: Some sorted_append)
qed

section \<open>Properties\<close>

text \<open>
  C16. The page walk and the live frames build the same turns: from a window that holds no turn, the
  turns and their order that a page's entries and open tails are read into are those that opening
  and appending the same entries one by one, then opening the tails, would have left; in any order
  of the entries, with any gaps and whatever is repeated. A page may hold reverts, as long as they
  are spent: a turn at or past the cut is not opened on the page before the revert, unless it is the
  revert's own. The page walk itself never takes a turn.
\<close>

theorem page_walk_is_live_replay:
  assumes "s_turns s = []" and "s_turn_order s = []" and "spent_reverts [] es"
  shows "pg_turns (build_page_turns es os) = s_turns (foldl replay_tail (foldl replay_entry s es) os)
       \<and> pg_order (build_page_turns es os) = s_turn_order (foldl replay_tail (foldl replay_entry s es) os)"
  using page_walk_replays[of empty_page s "[]" es] assms
    tails_replay[of "foldl page_step empty_page es" "foldl replay_entry s es" os]
  by (simp add: build_page_turns_def empty_page_def page_holds_def)

theorem page_walk_is_live_replay_witness:
  "pg_turns (build_page_turns [sample_open ''t1'' 1, sample_open ''t2'' 2, sample_revert ''t2'' 1 2]
       [\<lparr>oe_turn = ''t2'', oe_id = ''e1'', oe_lane = None, oe_kind = Open_text, oe_text = ''He'', oe_n = 1\<rparr>])
     = s_turns (foldl replay_tail
         (foldl replay_entry sample_session [sample_open ''t1'' 1, sample_open ''t2'' 2, sample_revert ''t2'' 1 2])
       [\<lparr>oe_turn = ''t2'', oe_id = ''e1'', oe_lane = None, oe_kind = Open_text, oe_text = ''He'', oe_n = 1\<rparr>])"
proof -
  have "spent_reverts [] [sample_open ''t1'' 1, sample_open ''t2'' 2, sample_revert ''t2'' 1 2]"
    by (simp add: spent_revert_def) (simp add: sample_revert_def sample_open_def payload_turn_revert_def payload_turn_open_def)
  from page_walk_is_live_replay[OF _ _ this, of sample_session] show ?thesis
    by (simp add: sample_session_def row_of_header_def)
qed

text \<open>
  C17. A newest page becomes the window, when no turn of the page is held before the page's oldest:
  the order is the older turns already paged in, then the page's turns, then the turns that arrived
  while it was out, each once, and the turns held are exactly these. A page turn the store held is
  the merge of the two, the served entries with every held entry past their end; one it did not hold
  is the page's; an older turn and one that arrived keep their whole state; every other turn is
  gone, among them each one held when the page was asked for that the answer neither carries nor
  precedes. Every turn left is well formed; the chat's count is the commit's to set, not the page's.
\<close>

theorem newest_page_is_the_window:
  assumes "wf_window s" and "list_all page_entry_ok es"
    and "p = build_page_turns es os"
    and "set (kept_before (pg_order p) (s_turn_order s)) \<inter> set (pg_order p) = {}"
    and "s' = fst (apply_page s p False h0)"
  shows "s_turn_order s' = kept_before (pg_order p) (s_turn_order s) @ pg_order p
           @ arrived_after (pg_turns p) (pg_order p) h0 (s_turn_order s)
       \<and> distinct (s_turn_order s')
       \<and> (\<forall>x. x \<in> set (s_turn_order s') \<longleftrightarrow> map_of (s_turns s') x \<noteq> None)
       \<and> (\<forall>x st. map_of (s_turns s') x = Some st \<longrightarrow> wf_turn x st)
       \<and> (\<forall>x. map_of (s_turns s') x =
            (if x \<in> set (pg_order p)
             then map_option (\<lambda>st. case map_of (s_turns s) x of None \<Rightarrow> st | Some prev \<Rightarrow> merge_turn st prev)
                    (map_of (pg_turns p) x)
             else if x \<in> set (kept_before (pg_order p) (s_turn_order s))
                     \<union> set (arrived_after (pg_turns p) (pg_order p) h0 (s_turn_order s))
             then map_of (s_turns s) x else None))
       \<and> (\<forall>x \<in> set (pg_order p). \<forall>st prev. map_of (pg_turns p) x = Some st \<and> map_of (s_turns s) x = Some prev
            \<longrightarrow> map_option ts_entries (map_of (s_turns s') x)
                  = Some (ts_entries st @ drop (length (ts_entries st)) (ts_entries prev)))
       \<and> (\<forall>x \<in> set h0. x \<notin> set (pg_order p) \<and> x \<notin> set (kept_before (pg_order p) (s_turn_order s))
            \<longrightarrow> map_of (s_turns s') x = None)"
proof -
  have p: "page_wf p" using assms(2,3) build_page_wf by simp
  note lookup = replace_page_lookup[OF assms(1) p assms(4), of h0]
  have s': "s' = replace_page p h0 s" using assms(5) by (simp add: apply_page_def)
  have order: "s_turn_order s' = kept_before (pg_order p) (s_turn_order s) @ pg_order p
      @ arrived_after (pg_turns p) (pg_order p) h0 (s_turn_order s)"
    unfolding s' by (rule replace_page_order[OF assms(1) p assms(4)])
  have dist: "distinct (s_turn_order s)" using assms(1) by (simp add: wf_window_def)
  have page_held: "x \<in> set (pg_order p) \<longleftrightarrow> map_of (pg_turns p) x \<noteq> None" for x
    using p by (metis keys_map_of not_None_eq page_wf_def)
  have "distinct (s_turn_order s')"
  proof -
    have "set (pg_order p) \<inter> set (arrived_after (pg_turns p) (pg_order p) h0 (s_turn_order s)) = {}"
      using page_held arrived_fresh[of _ "pg_turns p" "pg_order p" h0 "s_turn_order s"] by blast
    moreover have "distinct (pg_order p)" using p by (simp add: page_wf_def)
    ultimately show ?thesis
      using kept_arrived_disjoint[OF dist assms(4), of "pg_turns p" h0] assms(4)
      unfolding order by (simp add: kept_distinct[OF dist] arrived_distinct[OF dist] Int_Un_distrib)
  qed
  moreover have in_order: "x \<in> set (s_turn_order s') \<longleftrightarrow> map_of (s_turns s') x \<noteq> None" for x
  proof -
    have "map_of (s_turns s) x \<noteq> None" if "x \<in> set (s_turn_order s)"
      using assms(1) that by (metis keys_map_of option.distinct(1) wf_window_def)
    then show ?thesis
      using kept_in_held[of "pg_order p" "s_turn_order s"] page_held[of x]
        arrived_in_held[of "pg_turns p" "pg_order p" h0 "s_turn_order s"]
      unfolding order unfolding s' lookup by auto
  qed
  moreover have "wf_turn x st" if "map_of (s_turns s') x = Some st" for x st
  proof (cases "x \<in> set (pg_order p)")
    case True
    then obtain st0 where st0: "map_of (pg_turns p) x = Some st0" using page_held by auto
    have "wf_turn x st0" using p st0 wf_turns_lookup by (auto simp: page_wf_def)
    moreover have "wf_turn x prev" if "map_of (s_turns s) x = Some prev" for prev
      using assms(1) that wf_turns_lookup by (auto simp: wf_window_def)
    ultimately show ?thesis
      using that True st0 unfolding s' lookup
      by (auto simp: merged_with_def intro: wf_merge split: option.splits)
  next
    case False
    with that have "map_of (s_turns s) x = Some st" unfolding s' lookup by (auto split: if_splits)
    then show ?thesis using assms(1) wf_turns_lookup by (auto simp: wf_window_def)
  qed
  moreover have "map_option ts_entries (map_of (s_turns s') x)
      = Some (ts_entries st @ drop (length (ts_entries st)) (ts_entries prev))"
    if "x \<in> set (pg_order p)" "map_of (pg_turns p) x = Some st" "map_of (s_turns s) x = Some prev"
    for x st prev
  proof -
    have "wf_turn x prev" using assms(1) that(3) wf_turns_lookup by (auto simp: wf_window_def)
    then show ?thesis
      unfolding s' lookup using that by (simp add: merged_with_def merge_entries)
  qed
  moreover have "map_of (s_turns s') x = None"
    if "x \<in> set h0" "x \<notin> set (pg_order p)" "x \<notin> set (kept_before (pg_order p) (s_turn_order s))" for x
    using that arrived_fresh unfolding s' lookup by auto
  moreover have "map_of (s_turns s') x =
      (if x \<in> set (pg_order p)
       then map_option (\<lambda>st. case map_of (s_turns s) x of None \<Rightarrow> st | Some prev \<Rightarrow> merge_turn st prev)
              (map_of (pg_turns p) x)
       else if x \<in> set (kept_before (pg_order p) (s_turn_order s))
               \<union> set (arrived_after (pg_turns p) (pg_order p) h0 (s_turn_order s))
       then map_of (s_turns s) x else None)" for x
    unfolding s' lookup merged_with_def by simp
  ultimately show ?thesis using order by blast
qed

theorem newest_page_is_the_window_witness:
  "s_turn_order (fst (apply_page sample_window (build_page_turns [sample_open ''t2'' 2] []) False
      [''t1'', ''t2''])) = [''t1'', ''t2'']"
proof -
  have p: "pg_order (build_page_turns [sample_open ''t2'' 2] []) = [''t2'']"
    by (simp add: build_page_turns_def seat_open_entries_def page_step_def empty_page_def)
  show ?thesis
    using newest_page_is_the_window[OF wf_sample, of "[sample_open ''t2'' 2]"
        "build_page_turns [sample_open ''t2'' 2] []" "[]" _ "[''t1'', ''t2'']", OF _ refl _ refl]
    by (simp add: p page_entry_ok_def kept_before_def arrived_after_def)
qed

text \<open>
  C18. An entry sealed while the page that shows it open is in flight is held twice. Whenever a turn of
  the newest page has a lane open under an id that the store holds sealed past the end of the page's entries,
  the committed window holds that entry sealed and the lane still open under the same id, whatever else the
  store held in its lanes: the merge looks for sealed ids only among the tails the store held.
\<close>

theorem sealed_while_read_stays_open:
  assumes "wf_window s" and "list_all page_entry_ok es" and "p = build_page_turns es os"
    and "set (kept_before (pg_order p) (s_turn_order s)) \<inter> set (pg_order p) = {}"
    and "map_of (pg_turns p) k = Some page" and "map_of (ts_open page) l = Some oe"
    and "map_of (s_turns s) k = Some held"
    and "e \<in> set (drop (length (ts_entries page)) (ts_entries held))" and "e_id e = oe_id oe"
  shows "\<exists>st. map_of (s_turns (fst (apply_page s p False h0))) k = Some st
       \<and> e \<in> set (ts_entries st) \<and> map_of (ts_open st) l = Some oe"
proof -
  have p: "page_wf p" using assms(2,3) build_page_wf by simp
  have k: "k \<in> set (pg_order p)" using p map_of_in_keys[OF assms(5)] by (simp add: page_wf_def)
  have at: "map_of (s_turns (fst (apply_page s p False h0))) k = Some (merge_turn page held)"
    using replace_page_lookup[OF assms(1) p assms(4), of h0 k] k assms(5,7)
    by (simp add: apply_page_def merged_with_def)
  have wf: "wf_turn k held" using assms(1,7) wf_turns_lookup by (auto simp: wf_window_def)
  have e: "e \<in> set (ts_entries (merge_turn page held))" using assms(8) by (simp add: merge_entries[OF wf])
  let ?m = "push_contiguous (int (length (ts_entries page))) (drop (length (ts_entries page)) (ts_entries held)) page"
  have m: "merge_turn page held = foldl (keep_tail (ts_entries ?m)) ?m (ts_open held)"
    by (simp add: merge_turn_def Let_def)
  have id: "oe_id oe \<in> e_id ` set (ts_entries ?m)" using e assms(9) by (metis imageI keep_tails_entries(1) m)
  have "map_of (ts_open (foldl (keep_tail (ts_entries ?m)) st xs)) l = Some oe"
    if "map_of (ts_open st) l = Some oe" for st xs
    using that
  proof (induction xs arbitrary: st)
    case (Cons x xs)
    have "map_of (ts_open (keep_tail (ts_entries ?m) st x)) l = Some oe"
      using Cons.prems id by (auto simp: keep_tail_def map_of_update split: prod.splits option.splits)
    then show ?case using Cons.IH by simp
  qed simp
  moreover have "ts_open (push_contiguous i xs st) = ts_open st" for i xs st
    by (induction xs arbitrary: i st) (simp_all add: push_is_seat seat_entry_def)
  ultimately show ?thesis using at e assms(6) m by auto
qed

definition streaming_tail :: open_entry where
  "streaming_tail = \<lparr>oe_turn = ''t2'', oe_id = ''e1'', oe_lane = Some [], oe_kind = Open_text, oe_text = ''He'', oe_n = 1\<rparr>"

theorem sealed_while_read_stays_open_witness:
  "\<exists>st. map_of (s_turns (fst (apply_page
        (foldl window_step sample_window [W_open_entry streaming_tail, W_seal ''t2'' ''e1'' [] 1 5 1])
        (build_page_turns [sample_open ''t2'' 2] [streaming_tail]) False [''t1'', ''t2'']))) ''t2'' = Some st
     \<and> sealed_entry streaming_tail ''t2'' [] 1 5 \<in> set (ts_entries st) \<and> map_of (ts_open st) [] = Some streaming_tail"
proof -
  let ?s = "foldl window_step sample_window [W_open_entry streaming_tail, W_seal ''t2'' ''e1'' [] 1 5 1]"
  let ?p = "build_page_turns [sample_open ''t2'' 2] [streaming_tail]"
  have wf: "wf_window ?s" by (rule window.run_inv[OF wf_sample]) simp
  have lane: "lane_holds ''t2'' [] streaming_tail [sample_open ''t2'' 2] (window_step sample_window (W_open_entry streaming_tail))"
    using lane_after_open[of sample_window streaming_tail "fresh_turn (sample_open ''t2'' 2)" "[]"]
    by (simp add: streaming_tail_def fresh_turn_def)
  obtain held where held: "map_of (s_turns ?s) ''t2'' = Some held"
      "ts_entries held = [sample_open ''t2'' 2, sealed_entry streaming_tail ''t2'' [] 1 5]"
    using lane_after_seal[OF lane, of "''e1''" 1 1 5] by (auto simp: streaming_tail_def)
  have page: "map_of (pg_turns ?p) ''t2'' = Some (seat_tail streaming_tail (fresh_turn (sample_open ''t2'' 2)))" "pg_order ?p = [''t2'']"
    by (simp_all add: build_page_turns_def seat_open_entries_def seat_open_entry_def page_step_def empty_page_def streaming_tail_def)
  have order: "s_turn_order ?s = [''t1'', ''t2'']"
    using append_no_revert(2)[of "sealed_entry streaming_tail ''t2'' [] 1 5"]
    by (simp add: open_lane_entry_def seal_entry_def with_turn_def mark_hole_def Let_def split_def streaming_tail_def sealed_entry_def
        fresh_turn_def entry_kind_of_def)
  have "kept_before (pg_order ?p) (s_turn_order ?s) = [''t1'']" unfolding page(2) order by (simp add: kept_before_def)
  then have kept: "set (kept_before (pg_order ?p) (s_turn_order ?s)) \<inter> set (pg_order ?p) = {}" unfolding page(2) by simp
  have ok: "list_all page_entry_ok [sample_open ''t2'' 2]" by (simp add: page_entry_ok_def)
  have tail: "map_of (ts_open (seat_tail streaming_tail (fresh_turn (sample_open ''t2'' 2)))) [] = Some streaming_tail"
    by (simp add: seat_tail_def fresh_turn_def streaming_tail_def)
  show ?thesis
    by (rule sealed_while_read_stays_open[OF wf ok refl kept page(1) tail held(1)])
      (simp_all add: held(2) seat_tail_def fresh_turn_def, simp_all add: streaming_tail_def sealed_entry_def)
qed

text \<open>
  C19. A gap's repair leaves the turn in-order delivery would have left: a range answer that continues
  the held turn seats every entry, the same entries and the same cached close as appending them one
  by one, asks for nothing more, and gives the window back its trust when no other repair is out.
\<close>

theorem repair_is_in_order_delivery:
  assumes "map_of (s_turns s) k = Some st" and "wf_turn k st"
    and "fits_from (length (ts_entries st)) k es" and "k \<notin> set (nullish (s_reverted s) [])"
  shows "map_option (\<lambda>t. (ts_entries t, ts_close_at t))
           (map_of (s_turns (fst (apply_turn_range pending k es os s))) k)
         = map_option (\<lambda>t. (ts_entries t, ts_close_at t))
             (map_of (s_turns (foldl (\<lambda>s e. fst (append_entry e s)) s es)) k)
       \<and> snd (apply_turn_range pending k es os s) = [Bump Load]
       \<and> s_residency (fst (apply_turn_range pending k es os s))
           = (if s_residency s = Some Res_partial \<and> \<not> pending then Some Res_loaded else s_residency s)"
proof -
  have "ts_entries (foldl (\<lambda>s e. push_entry e s) st es) \<noteq> []"
    using wf_turn_nonempty[OF assms(2)] by (simp add: foldl_push_entries)
  then show ?thesis
    using assms push_range_fits[OF assms(3)] append_run[OF assms(1,3)]
    by (simp add: apply_turn_range_def Let_def with_turn_def map_of_update)
qed

theorem repair_is_in_order_delivery_witness:
  "snd (apply_turn_range False ''t1'' [sample_revert ''t1'' 1 2] [] sample_window) = [Bump Load]"
  using repair_is_in_order_delivery[of sample_window "''t1''" "fresh_turn (sample_open ''t1'' 1)"
      "[sample_revert ''t1'' 1 2]" False "[]"] wf_turn_fresh[of "sample_open ''t1'' 1" "''t1''"]
  by (simp add: fits_from_def sample_revert_def fresh_turn_def sample_reverted)

text \<open>
  A repaired turn the store did not hold is seated where its ordinal belongs: a window in
  ordinal order stays in ordinal order, and holds the new turn besides the ones it held.
\<close>

theorem repaired_turn_keeps_the_order:
  assumes "by_ordinal s" and "map_of (s_turns s) k = None" and "k \<notin> set (s_turn_order s)"
  shows "by_ordinal (insert_turn_by_ordinal k st s)
       \<and> set (s_turn_order (insert_turn_by_ordinal k st s)) = insert k (set (s_turn_order s))"
proof -
  let ?turns = "AList.update k st (s_turns s)"
  let ?f = "\<lambda>x. turn_ordinal (the (map_of ?turns x))"
  let ?later = "\<lambda>id1. case map_of ?turns id1 of None \<Rightarrow> False
    | Some other \<Rightarrow> turn_ordinal other > turn_ordinal st"
  have held: "map_of ?turns x \<noteq> None" if "x \<in> set (s_turn_order s)" for x
    using assms(1) that by (auto simp: by_ordinal_def list_all_iff map_of_update)
  have same: "map ?f (s_turn_order s) = map (\<lambda>x. turn_ordinal (the (map_of (s_turns s) x))) (s_turn_order s)"
    using assms(3) by (auto simp: map_of_update)
  have later: "find_index ?later (s_turn_order s) = find_index (\<lambda>x. ?f x > ?f k) (s_turn_order s)"
  proof (intro find_index_cong)
    fix x assume "x \<in> set (s_turn_order s)"
    then obtain o1 where "map_of ?turns x = Some o1" using held by blast
    then show "?later x = (?f x > ?f k)" by (simp add: map_of_update)
  qed
  let ?order = "case find_index (\<lambda>x. ?f x > ?f k) (s_turn_order s) of
     None \<Rightarrow> s_turn_order s @ [k] | Some i \<Rightarrow> take i (s_turn_order s) @ k # drop i (s_turn_order s)"
  have srt: "sorted (map ?f ?order)"
  proof (rule sorted_insert_at)
    show "sorted (map ?f (s_turn_order s))"
      unfolding same using assms(1) by (simp add: by_ordinal_def)
  qed
  have members: "set ?order = insert k (set (s_turn_order s))"
    by (auto split: option.splits dest: in_set_takeD in_set_dropD)
       (metis UnE append_take_drop_id set_append)
  have order: "s_turn_order (insert_turn_by_ordinal k st s) = ?order"
    unfolding later[symmetric] by (simp add: insert_turn_by_ordinal_def Let_def)
  have turns: "s_turns (insert_turn_by_ordinal k st s) = ?turns"
    by (simp add: insert_turn_by_ordinal_def Let_def)
  have "list_all (\<lambda>x. map_of ?turns x \<noteq> None) ?order"
    unfolding list_all_iff members using held by (auto simp: map_of_update)
  with srt members show ?thesis unfolding by_ordinal_def order turns by blast
qed

theorem repaired_turn_keeps_the_order_witness:
  "by_ordinal (insert_turn_by_ordinal ''t3'' (fresh_turn (sample_open ''t3'' 3)) sample_window)"
  using repaired_turn_keeps_the_order[of sample_window "''t3''" "fresh_turn (sample_open ''t3'' 3)"]
  by (simp add: by_ordinal_def turn_ordinal_def held_ordinal_def fresh_turn_def nth_opt_def
      sample_open_def payload_turn_open_def entry_kind_of_def)

lemma page_fields [simp]:
  "s_residency (fst (apply_page s p older h0)) = s_residency s"
  "s_turn_open (fst (apply_page s p older h0)) = s_turn_open s"
  by (simp_all add: apply_page_def prepend_page_def replace_page_def Let_def)

lemma counts_fields [simp]:
  "s_residency (commit_counts a b s) = s_residency s" "s_turn_open (commit_counts a b s) = s_turn_open s"
  by (simp_all add: commit_counts_def)

lemma clear_fields [simp]: "s_residency (fst (clear_turn_state s)) = s_residency s"
  by (simp add: clear_turn_state_def set_thinking_def Let_def)

text \<open>
  A gapless newest page makes the window trusted only when its liveness statement is absent or is
  the one the row already held: a statement that changes the row replaces it, so the write of
  \<open>loaded\<close> goes to the replaced row and the window keeps the residency it had, to be fetched again at
  the next activation although the answer was committed in full.
\<close>

theorem loaded_only_where_liveness_stands:
  assumes "pg_holes (build_page_turns (pa_entries a) (pa_open a)) = []"
  shows "s_residency (fst (load_messages_commit a False h0 s)) =
           (if pa_live a = None \<or> pa_live a = s_turn_open s then Some Res_loaded else s_residency s)"
  using assms
  by (auto simp: load_messages_commit_def Let_def split_def commit_liveness_def set_turn_open_def
      commit_holes_def split: option.splits)

theorem loaded_only_where_liveness_stands_witness:
  "s_residency (fst (load_messages_commit
      \<lparr>pa_turn_count = 1, pa_entries = [sample_open ''t1'' 1], pa_open = [], pa_has_more = False,
       pa_live = Some False, pa_draft = [], pa_subject = []\<rparr> False [] sample_session)) = None"
  using loaded_only_where_liveness_stands[of
      "\<lparr>pa_turn_count = 1, pa_entries = [sample_open ''t1'' 1], pa_open = [], pa_has_more = False,
       pa_live = Some False, pa_draft = [], pa_subject = []\<rparr>" "[]" sample_session]
  by (simp add: build_page_turns_def seat_open_entries_def page_step_def empty_page_def
      sample_session_def row_of_header_def)

end
