(* ===== verification/BlockWindow.thy ===== *)
theory BlockWindow
  imports Turns
begin

text \<open>
  Residency (static-src/block-window.ts): which entries of which turns a paint may mount, as one
  contiguous window of the turns' \<open>seq\<close> space grown around the reader's position under two budgets.
  A position is a natural number: 0 is the turn's own \<open>turn_open\<close>, position \<open>i + 1\<close> is \<open>body[i]\<close>.
\<close>

section \<open>Positions and what renders\<close>

record turn_cost =
  tco_entries :: nat
  tco_tool_calls :: nat

definition resident_entries :: nat where
  "resident_entries = 320"

definition resident_tool_calls :: nat where
  "resident_tool_calls = 96"

definition default_budget :: turn_cost where
  "default_budget = \<lparr>tco_entries = resident_entries, tco_tool_calls = resident_tool_calls\<rparr>"

record entry_range =
  er_from :: nat
  er_to :: nat

record residency_anchor =
  an_turn :: string
  an_at :: int

definition entry_at :: "turn \<Rightarrow> nat \<Rightarrow> entry option" where
  "entry_at t seq = (if seq = 0 then None else nth_opt (t_body t) (int seq - 1))"

definition turn_span :: "turn \<Rightarrow> nat" where
  "turn_span t = length (t_body t) + 1"

definition entry_renders :: "entry \<Rightarrow> string \<Rightarrow> int \<Rightarrow> bool" where
  "entry_renders e lane first_plan =
     (if entry_kind_of e = K_steer then lane = ''''
      else if lane_of e \<noteq> lane then False
      else case entry_kind_of e of
             K_turn_open \<Rightarrow> False
           | K_turn_close \<Rightarrow> False
           | K_turn_bind \<Rightarrow> False
           | K_tool_result \<Rightarrow> False
           | K_reconciled \<Rightarrow> False
           | K_plan \<Rightarrow> first_plan = e_seq e
           | _ \<Rightarrow> True)"

fun first_plan_in :: "entry list \<Rightarrow> string \<Rightarrow> int" where
  "first_plan_in [] lane = -1"
| "first_plan_in (e # es) lane =
     (if entry_kind_of e = K_plan \<and> lane_of e = lane then e_seq e else first_plan_in es lane)"

definition first_plan_seq :: "turn \<Rightarrow> string \<Rightarrow> int" where
  "first_plan_seq t lane = first_plan_in (t_body t) lane"

section \<open>Run cards\<close>

type_synonym run_results = "(string \<times> string) list"

definition note_run_result :: "run_results \<Rightarrow> entry \<Rightarrow> run_results" where
  "note_run_result out e =
     (case payload_tool_result e of
        None \<Rightarrow> out
      | Some r \<Rightarrow>
          let run_id = nullish (tr_workflow_id r) ''''
          in if run_id \<noteq> '''' then AList.update (e_id e) run_id out else out)"

definition run_results_of :: "turn \<Rightarrow> run_results" where
  "run_results_of t = foldl note_run_result [] (t_body t)"

definition effective_run_id :: "entry \<Rightarrow> run_results \<Rightarrow> string" where
  "effective_run_id e results =
     (let own = (case payload_tool_call e of None \<Rightarrow> '''' | Some c \<Rightarrow> nullish (tc_workflow_id c) '''')
      in if own \<noteq> '''' then own else nullish (map_of results (tool_result_id (e_id e))) '''')"

definition internal_tool_titles :: "string set" where
  "internal_tool_titles = {''Fetching your cloud config''}"

definition is_internal_tool_title :: "string \<Rightarrow> bool" where
  "is_internal_tool_title title = (title \<in> internal_tool_titles)"

definition note_run_owner ::
    "string \<Rightarrow> run_results \<Rightarrow> (string \<times> string) list \<Rightarrow> entry \<Rightarrow> (string \<times> string) list" where
  "note_run_owner lane results out e =
     (case (if lane_of e = lane then payload_tool_call e else None) of
        None \<Rightarrow> out
      | Some call \<Rightarrow>
          if is_internal_tool_title (tc_title call) then out
          else let run_id = effective_run_id e results
               in if run_id \<noteq> '''' \<and> map_of out run_id = None
                  then AList.update run_id (e_id e) out else out)"

definition run_card_owners :: "turn list \<Rightarrow> string \<Rightarrow> (string \<times> string) list" where
  "run_card_owners turns lane =
     foldl (\<lambda>out t. foldl (note_run_owner lane (run_results_of t)) out (t_body t)) [] turns"

section \<open>Prices\<close>

definition charge :: "string \<Rightarrow> int \<Rightarrow> turn_cost \<Rightarrow> entry \<Rightarrow> turn_cost" where
  "charge lane first_plan c e =
     (if \<not> entry_renders e lane first_plan then c
      else \<lparr>tco_entries = Suc (tco_entries c),
            tco_tool_calls = (if entry_kind_of e = K_tool_call then Suc (tco_tool_calls c)
                              else tco_tool_calls c)\<rparr>)"

definition turn_cost_of :: "turn \<Rightarrow> string \<Rightarrow> turn_cost" where
  "turn_cost_of t lane =
     foldl (charge lane (first_plan_seq t lane)) \<lparr>tco_entries = 0, tco_tool_calls = 0\<rparr> (t_body t)"

fun renders_nothing_scan :: "string \<Rightarrow> int \<Rightarrow> entry list \<Rightarrow> bool" where
  "renders_nothing_scan lane first_plan [] = True"
| "renders_nothing_scan lane first_plan (e # es) =
     (let fp = (if first_plan < 0 \<and> entry_kind_of e = K_plan \<and> lane_of e = lane then e_seq e
                else first_plan)
      in if entry_renders e lane fp then False else renders_nothing_scan lane fp es)"

definition renders_nothing :: "turn \<Rightarrow> string \<Rightarrow> bool" where
  "renders_nothing t lane = renders_nothing_scan lane (-1) (t_body t)"

definition turn_ordinal_of :: "turn \<Rightarrow> string option \<Rightarrow> int option" where
  "turn_ordinal_of t entry_id =
     (if nullish entry_id '''' = '''' then Some 0
      else map_option e_seq (List.find (\<lambda>e. e_id e = nullish entry_id '''') (t_body t)))"

section \<open>Prose runs\<close>

definition in_prose_run :: "turn \<Rightarrow> nat \<Rightarrow> string \<Rightarrow> int \<Rightarrow> bool" where
  "in_prose_run t seq lane first_plan =
     (case entry_at t seq of
        None \<Rightarrow> False
      | Some e \<Rightarrow> entry_kind_of e = K_text \<and> entry_renders e lane first_plan)"

text \<open>The loop of \<open>runStart\<close> from position \<open>i\<close> down to 1, and of \<open>runEnd\<close> over the \<open>k\<close> positions from \<open>i\<close> up.\<close>

fun run_start_scan :: "turn \<Rightarrow> string \<Rightarrow> int \<Rightarrow> nat \<Rightarrow> nat \<Rightarrow> nat" where
  "run_start_scan t lane fp 0 first1 = first1"
| "run_start_scan t lane fp (Suc i) first1 =
     (case entry_at t (Suc i) of
        None \<Rightarrow> first1
      | Some e \<Rightarrow>
          if in_prose_run t (Suc i) lane fp then run_start_scan t lane fp i (Suc i)
          else if entry_renders e lane fp then first1
          else run_start_scan t lane fp i first1)"

definition run_start :: "turn \<Rightarrow> nat \<Rightarrow> string \<Rightarrow> int \<Rightarrow> nat" where
  "run_start t seq lane fp =
     (if \<not> in_prose_run t seq lane fp then seq else run_start_scan t lane fp (seq - 1) seq)"

fun run_end_scan :: "turn \<Rightarrow> string \<Rightarrow> int \<Rightarrow> nat \<Rightarrow> nat \<Rightarrow> nat \<Rightarrow> nat" where
  "run_end_scan t lane fp 0 i last1 = last1"
| "run_end_scan t lane fp (Suc k) i last1 =
     (case entry_at t i of
        None \<Rightarrow> last1
      | Some e \<Rightarrow>
          if in_prose_run t i lane fp then run_end_scan t lane fp k (Suc i) i
          else if entry_renders e lane fp then last1
          else run_end_scan t lane fp k (Suc i) last1)"

definition run_end :: "turn \<Rightarrow> nat \<Rightarrow> string \<Rightarrow> int \<Rightarrow> nat" where
  "run_end t seq lane fp =
     (if \<not> in_prose_run t seq lane fp then seq
      else run_end_scan t lane fp (turn_span t - Suc seq) (Suc seq) seq)"

definition prose_run_at :: "turn \<Rightarrow> nat \<Rightarrow> string \<Rightarrow> int \<Rightarrow> entry_range option" where
  "prose_run_at t seq lane fp =
     (if \<not> in_prose_run t seq lane fp then None
      else Some \<lparr>er_from = run_start t seq lane fp, er_to = run_end t seq lane fp + 1\<rparr>)"

definition slice_turn :: "turn \<Rightarrow> entry_range \<Rightarrow> string \<Rightarrow> int option \<Rightarrow> entry_range" where
  "slice_turn t range1 lane first_plan =
     (let span = turn_span t;
          from1 = min (er_from range1) span;
          to1 = min (max (er_to range1) from1) span
      in if from1 \<ge> to1 then \<lparr>er_from = from1, er_to = to1\<rparr>
         else let plan = nullish first_plan (first_plan_seq t lane)
              in \<lparr>er_from = run_start t from1 lane plan, er_to = run_end t (to1 - 1) lane plan + 1\<rparr>)"

section \<open>Growing the window\<close>

definition free_at :: "turn \<Rightarrow> string \<Rightarrow> int \<Rightarrow> nat \<Rightarrow> bool" where
  "free_at t lane fp seq =
     (case entry_at t seq of None \<Rightarrow> True | Some e \<Rightarrow> \<not> entry_renders e lane fp)"

definition tool_at :: "turn \<Rightarrow> string \<Rightarrow> int \<Rightarrow> nat \<Rightarrow> bool" where
  "tool_at t lane fp seq =
     (\<not> free_at t lane fp seq
      \<and> (case entry_at t seq of None \<Rightarrow> False | Some e \<Rightarrow> entry_kind_of e = K_tool_call))"

text \<open>One flag pair per ordinal: free, and a tool call.\<close>

definition turn_flags :: "string \<Rightarrow> turn \<Rightarrow> (bool \<times> bool) list" where
  "turn_flags lane t =
     (let fp = first_plan_seq t lane
      in map (\<lambda>seq. (free_at t lane fp seq, tool_at t lane fp seq)) [0..<turn_span t])"

definition window_flags :: "string \<Rightarrow> turn list \<Rightarrow> (bool \<times> bool) list" where
  "window_flags lane turns = concat (map (turn_flags lane) turns)"

fun turn_bases :: "nat \<Rightarrow> turn list \<Rightarrow> nat list" where
  "turn_bases base [] = []"
| "turn_bases base (t # ts) = base # turn_bases (base + turn_span t) ts"

definition clamp_anchor :: "nat \<Rightarrow> nat \<Rightarrow> nat \<Rightarrow> int \<Rightarrow> nat" where
  "clamp_anchor n_all base width at1 =
     (if width = 0 then min base (n_all - 1) else base + nat (min (max at1 0) (int width - 1)))"

definition seed_at :: "turn list \<Rightarrow> nat \<Rightarrow> residency_anchor option \<Rightarrow> nat" where
  "seed_at turns n_all anchor =
     (case anchor of
        None \<Rightarrow> n_all - 1
      | Some a \<Rightarrow>
          (case find_index (\<lambda>t. t_id t = an_turn a) turns of
             None \<Rightarrow> n_all - 1
           | Some i \<Rightarrow>
               clamp_anchor n_all (turn_bases 0 turns ! i) (turn_span (turns ! i)) (an_at a)))"

record grow_state =
  g_lo :: nat
  g_hi :: nat
  g_entries :: nat
  g_tools :: nat
  g_head_latched :: bool
  g_tail_latched :: bool
  g_head :: bool

text \<open>
  \<open>isFree[next] === true\<close> and \<open>isTool[next] === true\<close>: an index outside the sequence reads false.
\<close>

definition flag_free :: "(bool \<times> bool) list \<Rightarrow> nat \<Rightarrow> bool" where
  "flag_free flags i = (i < length flags \<and> fst (flags ! i))"

definition flag_tool :: "(bool \<times> bool) list \<Rightarrow> nat \<Rightarrow> bool" where
  "flag_tool flags i = (i < length flags \<and> snd (flags ! i))"

definition over_budget :: "(bool \<times> bool) list \<Rightarrow> turn_cost \<Rightarrow> nat \<Rightarrow> nat \<Rightarrow> nat \<Rightarrow> bool" where
  "over_budget flags budget entries tools i =
     (\<not> flag_free flags i
      \<and> (entries + 1 > tco_entries budget
         \<or> tools + (if flag_tool flags i then 1 else 0) > tco_tool_calls budget))"

text \<open>
  One pass of the loop body. \<open>hi\<close> never passes the end while the tail is unlatched, so \<open>length flags \<le> hi + 1\<close>
  is the source's \<open>hi === total\<close> after the increment.
\<close>

definition grow_step :: "(bool \<times> bool) list \<Rightarrow> turn_cost \<Rightarrow> grow_state \<Rightarrow> grow_state" where
  "grow_step flags budget g =
     (let acted =
        (if (if g_head g then \<not> g_head_latched g else \<not> g_tail_latched g) then
           (let i = (if g_head g then g_lo g - 1 else g_hi g)
            in if over_budget flags budget (g_entries g) (g_tools g) i then
                 (if g_head g then g\<lparr>g_head_latched := True\<rparr> else g\<lparr>g_tail_latched := True\<rparr>)
               else
                 let g1 = g\<lparr>g_entries := (if flag_free flags i then g_entries g else g_entries g + 1),
                           g_tools := g_tools g + (if flag_tool flags i then 1 else 0)\<rparr>
                 in if g_head g then g1\<lparr>g_lo := i, g_head_latched := (i = 0)\<rparr>
                    else g1\<lparr>g_hi := i + 1, g_tail_latched := (length flags \<le> i + 1)\<rparr>)
         else g)
      in acted\<lparr>g_head := \<not> g_head g\<rparr>)"

definition grow_measure :: "(bool \<times> bool) list \<Rightarrow> grow_state \<Rightarrow> nat" where
  "grow_measure flags g =
     2 * (g_lo g + (length flags - g_hi g)
          + (if g_head_latched g then 0 else 1) + (if g_tail_latched g then 0 else 1))
     + (if (if g_head g then g_head_latched g else g_tail_latched g) then 1 else 0)"

lemma grow_measure_step:
  assumes "\<not> g_head_latched g \<or> \<not> g_tail_latched g"
  shows "grow_measure flags (grow_step flags budget g) < grow_measure flags g"
  using assms
  by (cases "g_head g"; cases "g_head_latched g"; cases "g_tail_latched g")
     (auto simp: grow_measure_def grow_step_def Let_def)

function grow_window :: "(bool \<times> bool) list \<Rightarrow> turn_cost \<Rightarrow> grow_state \<Rightarrow> grow_state" where
  "grow_window flags budget g =
     (if \<not> g_head_latched g \<or> \<not> g_tail_latched g
      then grow_window flags budget (grow_step flags budget g) else g)"
  by pat_completeness auto

termination
  by (relation "measure (\<lambda>(flags, budget, g). grow_measure flags g)")
     (auto simp: grow_measure_step)

declare grow_window.simps [simp del]

definition grow_seed :: "(bool \<times> bool) list \<Rightarrow> nat \<Rightarrow> grow_state" where
  "grow_seed flags at1 =
     \<lparr>g_lo = at1, g_hi = at1 + 1,
      g_entries = (if flag_free flags at1 then 0 else 1),
      g_tools = (if flag_tool flags at1 then 1 else 0),
      g_head_latched = (at1 = 0), g_tail_latched = (at1 + 1 = length flags), g_head = True\<rparr>"

definition clip_to_turn :: "nat \<Rightarrow> nat \<Rightarrow> string \<Rightarrow> (string \<times> entry_range) list \<Rightarrow> turn \<times> nat
    \<Rightarrow> (string \<times> entry_range) list" where
  "clip_to_turn lo hi lane plan tb =
     (case tb of (t, base) \<Rightarrow>
        let from1 = max lo base; to1 = min hi (base + turn_span t)
        in if from1 < to1
           then AList.update (t_id t)
                  (slice_turn t \<lparr>er_from = from1 - base, er_to = to1 - base\<rparr> lane
                     (Some (first_plan_seq t lane))) plan
           else plan)"

definition plan_residency ::
    "turn list \<Rightarrow> residency_anchor option \<Rightarrow> string \<Rightarrow> turn_cost \<Rightarrow> (string \<times> entry_range) list" where
  "plan_residency turns anchor lane budget =
     (let flags = window_flags lane turns
      in if flags = [] then []
         else let g = grow_window flags budget
                        (grow_seed flags (seed_at turns (length flags) anchor))
              in foldl (clip_to_turn (g_lo g) (g_hi g) lane) [] (zip turns (turn_bases 0 turns)))"

end
