(* ===== verification/BlockWindowFacts.thy ===== *)
theory BlockWindowFacts
  imports BlockWindow TurnFacts
begin

text \<open>
  What the residency window guarantees: the bodyless test agrees with the price, the window holds the
  reader's position, is one interval, charges exactly what it draws, stays inside both budgets past
  its seed and stops only where the next drawn ordinal would break one; and where its edges fall on
  drawn ordinals the snap never cuts a prose run.
\<close>

section \<open>The price and the existence test\<close>

definition would_render :: "string \<Rightarrow> entry \<Rightarrow> bool" where
  "would_render lane e = entry_renders e lane (e_seq e)"

lemma renders_would: "entry_renders e lane fp \<Longrightarrow> would_render lane e"
  by (auto simp: entry_renders_def would_render_def split: entry_kind.splits if_splits)

lemma would_renders_other:
  "would_render lane e \<Longrightarrow> \<not> (entry_kind_of e = K_plan \<and> lane_of e = lane) \<Longrightarrow> entry_renders e lane fp"
  by (auto simp: entry_renders_def would_render_def split: entry_kind.splits if_splits)

lemma plan_would_render: "entry_kind_of e = K_plan \<Longrightarrow> lane_of e = lane \<Longrightarrow> would_render lane e"
  by (simp add: would_render_def entry_renders_def)

lemma scan_would:
  "fp < 0 \<Longrightarrow> renders_nothing_scan lane fp es \<longleftrightarrow> (\<forall>e\<in>set es. \<not> would_render lane e)"
proof (induction es)
  case (Cons e es)
  show ?case
  proof (cases "entry_kind_of e = K_plan \<and> lane_of e = lane")
    case True
    with Cons.prems show ?thesis by (auto simp: would_render_def Let_def entry_renders_def)
  next
    case False
    then have "entry_renders e lane fp \<longleftrightarrow> would_render lane e"
      using renders_would would_renders_other by blast
    with False Cons show ?thesis by (auto simp: Let_def)
  qed
qed simp

lemma first_plan_renders:
  "e \<in> set es \<Longrightarrow> entry_kind_of e = K_plan \<Longrightarrow> lane_of e = lane \<Longrightarrow>
   \<exists>e0\<in>set es. entry_renders e0 lane (first_plan_in es lane)"
proof (induction es)
  case (Cons x es)
  show ?case
  proof (cases "entry_kind_of x = K_plan \<and> lane_of x = lane")
    case True
    then have "entry_renders x lane (first_plan_in (x # es) lane)" by (simp add: entry_renders_def)
    then show ?thesis by simp
  next
    case False
    with Cons obtain e0 where "e0 \<in> set es" "entry_renders e0 lane (first_plan_in es lane)" by auto
    then have "entry_renders e0 lane (first_plan_in (x # es) lane)" using False by auto
    with \<open>e0 \<in> set es\<close> show ?thesis by (meson list.set_intros(2))
  qed
qed simp

lemma some_renders:
  "(\<exists>e\<in>set es. entry_renders e lane (first_plan_in es lane)) \<longleftrightarrow> (\<exists>e\<in>set es. would_render lane e)"
proof
  assume "\<exists>e\<in>set es. would_render lane e"
  then obtain e where e: "e \<in> set es" "would_render lane e" by blast
  show "\<exists>e\<in>set es. entry_renders e lane (first_plan_in es lane)"
  proof (cases "entry_kind_of e = K_plan \<and> lane_of e = lane")
    case True
    with e(1) first_plan_renders show ?thesis by blast
  next
    case False
    with e would_renders_other show ?thesis by blast
  qed
qed (use renders_would in blast)

lemma charge_entries:
  "tco_entries (foldl (charge lane fp) c es) = tco_entries c + length (filter (\<lambda>e. entry_renders e lane fp) es)"
  by (induction es arbitrary: c) (simp_all add: charge_def)

section \<open>Prose runs\<close>

text \<open>Two prose entries of one run: nothing between them that this view draws ends it.\<close>

definition joined :: "turn \<Rightarrow> string \<Rightarrow> int \<Rightarrow> nat \<Rightarrow> nat \<Rightarrow> bool" where
  "joined t lane fp a b =
     (a < b \<and> in_prose_run t a lane fp \<and> in_prose_run t b lane fp
      \<and> list_all (\<lambda>c. in_prose_run t c lane fp \<or> free_at t lane fp c) [Suc a..<b])"

lemma joined_between:
  "joined t lane fp a b \<Longrightarrow> a < c \<Longrightarrow> c < b \<Longrightarrow> in_prose_run t c lane fp \<or> free_at t lane fp c"
  by (auto simp: joined_def list_all_iff)

lemma joined_shorten:
  "joined t lane fp a b \<Longrightarrow> a < c \<Longrightarrow> c < b \<Longrightarrow> in_prose_run t c lane fp \<Longrightarrow>
   joined t lane fp a c \<and> joined t lane fp c b"
  by (auto simp: joined_def list_all_iff)

lemma prose_pos: "in_prose_run t c lane fp \<Longrightarrow> 0 < c \<and> c < turn_span t"
  by (auto simp: in_prose_run_def entry_at_def turn_span_def nth_opt_def split: option.splits if_splits)

lemma prose_not_free: "in_prose_run t c lane fp \<Longrightarrow> \<not> free_at t lane fp c"
  by (auto simp: in_prose_run_def free_at_def split: option.splits)

lemma entry_at_inside: "0 < c \<Longrightarrow> c < turn_span t \<Longrightarrow> entry_at t c \<noteq> None"
  by (auto simp: entry_at_def turn_span_def nth_opt_def)

lemma free_iff: "entry_at t c = Some e \<Longrightarrow> free_at t lane fp c \<longleftrightarrow> \<not> entry_renders e lane fp"
  by (simp add: free_at_def)

lemma run_start_scan_first:
  assumes "in_prose_run t f lane fp" and "i < f"
    and "\<forall>c. i < c \<and> c < f \<longrightarrow> free_at t lane fp c"
  shows "in_prose_run t (run_start_scan t lane fp i f) lane fp
       \<and> run_start_scan t lane fp i f \<le> f
       \<and> (\<forall>a. \<not> joined t lane fp a (run_start_scan t lane fp i f))"
  using assms
proof (induction i arbitrary: f)
  case 0
  have "\<not> joined t lane fp a f" for a
  proof
    assume j: "joined t lane fp a f"
    then have "0 < a" "a < f" using prose_pos by (auto simp: joined_def)
    with 0 have "free_at t lane fp a" by simp
    with j show False using prose_not_free by (auto simp: joined_def)
  qed
  with 0 show ?case by simp
next
  case (Suc i)
  obtain e where e: "entry_at t (Suc i) = Some e"
    using entry_at_inside[of "Suc i" t] prose_pos[OF Suc.prems(1)] Suc.prems(2) by fastforce
  consider (prose) "in_prose_run t (Suc i) lane fp"
    | (stop) "\<not> in_prose_run t (Suc i) lane fp" "entry_renders e lane fp"
    | (free) "\<not> in_prose_run t (Suc i) lane fp" "\<not> entry_renders e lane fp" by blast
  then show ?case
  proof cases
    case prose
    have "\<forall>c. i < c \<and> c < Suc i \<longrightarrow> free_at t lane fp c" by auto
    from Suc.IH[OF prose _ this] e prose Suc.prems(2) show ?thesis by auto
  next
    case stop
    have "\<not> joined t lane fp a f" for a
    proof
      assume j: "joined t lane fp a f"
      then have "a < f" "in_prose_run t a lane fp" by (simp_all add: joined_def)
      with Suc.prems(3) prose_not_free have "a \<le> Suc i" by (meson not_le)
      with stop(1) \<open>in_prose_run t a lane fp\<close> have "a < Suc i" by (cases "a = Suc i") auto
      with joined_between[OF j this Suc.prems(2)] stop e show False by (simp add: free_iff)
    qed
    with stop e Suc.prems(1) show ?thesis by simp
  next
    case free
    have "\<forall>c. i < c \<and> c < f \<longrightarrow> free_at t lane fp c"
      using Suc.prems(3) free(2) e free_iff by (metis Suc_lessI)
    from Suc.IH[OF Suc.prems(1) _ this] e free Suc.prems(2) show ?thesis by simp
  qed
qed

lemma run_start_first:
  assumes "in_prose_run t s lane fp"
  shows "in_prose_run t (run_start t s lane fp) lane fp \<and> run_start t s lane fp \<le> s
       \<and> (\<forall>a. \<not> joined t lane fp a (run_start t s lane fp))"
proof -
  have "\<forall>c. s - 1 < c \<and> c < s \<longrightarrow> free_at t lane fp c" by auto
  from run_start_scan_first[OF assms _ this] prose_pos[OF assms] assms show ?thesis
    by (simp add: run_start_def)
qed

lemma run_end_scan_last:
  assumes "in_prose_run t l lane fp" and "l < i" and "i + k = turn_span t"
    and "\<forall>c. l < c \<and> c < i \<longrightarrow> free_at t lane fp c"
  shows "in_prose_run t (run_end_scan t lane fp k i l) lane fp
       \<and> l \<le> run_end_scan t lane fp k i l
       \<and> (\<forall>b. \<not> joined t lane fp (run_end_scan t lane fp k i l) b)"
  using assms
proof (induction k arbitrary: i l)
  case 0
  have "\<not> joined t lane fp l b" for b
  proof
    assume j: "joined t lane fp l b"
    then have "l < b" "b < i" using prose_pos 0(3) by (auto simp: joined_def)
    with 0(4) j show False using prose_not_free by (auto simp: joined_def)
  qed
  with 0 show ?case by simp
next
  case (Suc k)
  obtain e where e: "entry_at t i = Some e"
    using entry_at_inside[of i t] Suc.prems(2,3) by fastforce
  consider (prose) "in_prose_run t i lane fp"
    | (stop) "\<not> in_prose_run t i lane fp" "entry_renders e lane fp"
    | (free) "\<not> in_prose_run t i lane fp" "\<not> entry_renders e lane fp" by blast
  then show ?case
  proof cases
    case prose
    have "\<forall>c. i < c \<and> c < Suc i \<longrightarrow> free_at t lane fp c" by auto
    from Suc.IH[OF prose _ _ this] e prose Suc.prems(2,3) show ?thesis by auto
  next
    case stop
    have "\<not> joined t lane fp l b" for b
    proof
      assume j: "joined t lane fp l b"
      then have "l < b" "in_prose_run t b lane fp" by (simp_all add: joined_def)
      with Suc.prems(4) prose_not_free have "i \<le> b" by (meson not_le)
      with stop(1) \<open>in_prose_run t b lane fp\<close> have "i < b" by (cases "b = i") auto
      with joined_between[OF j Suc.prems(2) this] stop e show False by (simp add: free_iff)
    qed
    with stop e Suc.prems(1) show ?thesis by simp
  next
    case free
    have "\<forall>c. l < c \<and> c < Suc i \<longrightarrow> free_at t lane fp c"
      using Suc.prems(4) free(2) e free_iff by (metis less_SucE)
    from Suc.IH[OF Suc.prems(1) _ _ this] e free Suc.prems(2,3) show ?thesis by simp
  qed
qed

lemma run_end_last:
  assumes "in_prose_run t s lane fp"
  shows "in_prose_run t (run_end t s lane fp) lane fp \<and> s \<le> run_end t s lane fp
       \<and> (\<forall>b. \<not> joined t lane fp (run_end t s lane fp) b)"
proof -
  have "\<forall>c. s < c \<and> c < Suc s \<longrightarrow> free_at t lane fp c" by auto
  from run_end_scan_last[OF assms _ _ this, of "turn_span t - Suc s"] prose_pos[OF assms] assms
  show ?thesis by (simp add: run_end_def)
qed

definition edge_ok :: "turn \<Rightarrow> string \<Rightarrow> int \<Rightarrow> nat \<Rightarrow> bool" where
  "edge_ok t lane fp c = (c = 0 \<or> c = turn_span t - 1 \<or> \<not> free_at t lane fp c)"

lemma run_start_edge:
  assumes "edge_ok t lane fp s" and "s < turn_span t" and "joined t lane fp a b"
  shows "\<not> (a < run_start t s lane fp \<and> run_start t s lane fp \<le> b)"
proof
  let ?f = "run_start t s lane fp"
  assume cut: "a < ?f \<and> ?f \<le> b"
  show False
  proof (cases "in_prose_run t s lane fp")
    case True
    from run_start_first[OF True] have f: "in_prose_run t ?f lane fp" "\<And>a. \<not> joined t lane fp a ?f"
      by auto
    with assms(3) cut joined_shorten[OF assms(3), of ?f] show False by (cases "?f = b") auto
  next
    case False
    then have f: "?f = s" by (simp add: run_start_def)
    have b: "in_prose_run t b lane fp" "b < turn_span t" using assms(3) prose_pos by (auto simp: joined_def)
    with cut f False have "a < s" "s < b" by (cases "s = b"; simp)+
    with joined_between[OF assms(3)] False have "free_at t lane fp s" by blast
    with assms(1) \<open>a < s\<close> \<open>s < b\<close> b(2) show False by (auto simp: edge_ok_def)
  qed
qed

lemma run_end_edge:
  assumes "edge_ok t lane fp s" and "s < turn_span t" and "joined t lane fp a b"
  shows "\<not> (a \<le> run_end t s lane fp \<and> run_end t s lane fp < b)"
proof
  let ?l = "run_end t s lane fp"
  assume cut: "a \<le> ?l \<and> ?l < b"
  show False
  proof (cases "in_prose_run t s lane fp")
    case True
    from run_end_last[OF True] have l: "in_prose_run t ?l lane fp" "\<And>b. \<not> joined t lane fp ?l b"
      by auto
    with assms(3) cut joined_shorten[OF assms(3), of ?l] show False by (cases "?l = a") auto
  next
    case False
    then have l: "?l = s" by (simp add: run_end_def)
    have a: "in_prose_run t a lane fp" "0 < a" and "b < turn_span t"
      using assms(3) prose_pos by (auto simp: joined_def)
    with cut l False have "a < s" "s < b" by (cases "s = a"; simp)+
    with joined_between[OF assms(3)] False have "free_at t lane fp s" by blast
    with assms(1) \<open>a < s\<close> \<open>s < b\<close> \<open>b < turn_span t\<close> show False by (auto simp: edge_ok_def)
  qed
qed

section \<open>The growing window\<close>

definition drawn_in :: "(bool \<times> bool) list \<Rightarrow> nat \<Rightarrow> nat \<Rightarrow> nat" where
  "drawn_in flags lo hi = length (filter (\<lambda>i. \<not> flag_free flags i) [lo..<hi])"

definition tools_in :: "(bool \<times> bool) list \<Rightarrow> nat \<Rightarrow> nat \<Rightarrow> nat" where
  "tools_in flags lo hi = length (filter (\<lambda>i. flag_tool flags i) [lo..<hi])"

lemma upt_down: "0 < lo \<Longrightarrow> lo \<le> hi \<Longrightarrow> [lo - 1..<hi] = (lo - 1) # [lo..<hi]"
  by (cases lo) (simp_all add: upt_conv_Cons)

lemma counts_down:
  "0 < lo \<Longrightarrow> lo \<le> hi \<Longrightarrow> drawn_in flags (lo - 1) hi
     = (if flag_free flags (lo - 1) then drawn_in flags lo hi else drawn_in flags lo hi + 1)"
  "0 < lo \<Longrightarrow> lo \<le> hi \<Longrightarrow> tools_in flags (lo - 1) hi
     = tools_in flags lo hi + (if flag_tool flags (lo - 1) then 1 else 0)"
  by (simp_all only: drawn_in_def tools_in_def upt_down) simp_all

lemma counts_up:
  "lo \<le> hi \<Longrightarrow> drawn_in flags lo (hi + 1)
     = (if flag_free flags hi then drawn_in flags lo hi else drawn_in flags lo hi + 1)"
  "lo \<le> hi \<Longrightarrow> tools_in flags lo (hi + 1) = tools_in flags lo hi + (if flag_tool flags hi then 1 else 0)"
  by (simp_all add: drawn_in_def tools_in_def)

text \<open>A side stopped for the budget stays over it, because the charges only grow.\<close>

lemma over_mono:
  "over_budget flags b e t i \<Longrightarrow> e \<le> e' \<Longrightarrow> t \<le> t' \<Longrightarrow> over_budget flags b e' t' i"
  by (auto simp: over_budget_def split: if_splits)

definition grow_inv :: "(bool \<times> bool) list \<Rightarrow> turn_cost \<Rightarrow> nat \<Rightarrow> grow_state \<Rightarrow> bool" where
  "grow_inv flags b at1 g =
     (g_lo g \<le> at1 \<and> at1 < g_hi g \<and> g_hi g \<le> length flags
      \<and> g_entries g = drawn_in flags (g_lo g) (g_hi g)
      \<and> g_tools g = tools_in flags (g_lo g) (g_hi g)
      \<and> g_entries g \<le> max 1 (tco_entries b) \<and> g_tools g \<le> max 1 (tco_tool_calls b)
      \<and> (if g_head_latched g
         then g_lo g = 0 \<or> over_budget flags b (g_entries g) (g_tools g) (g_lo g - 1) else 0 < g_lo g)
      \<and> (if g_tail_latched g
         then g_hi g = length flags \<or> over_budget flags b (g_entries g) (g_tools g) (g_hi g)
         else g_hi g < length flags))"

definition flags_wf :: "(bool \<times> bool) list \<Rightarrow> bool" where
  "flags_wf flags = list_all (\<lambda>(f, t). t \<longrightarrow> \<not> f) flags"

lemma tool_not_free: "flags_wf flags \<Longrightarrow> flag_tool flags i \<Longrightarrow> \<not> flag_free flags i"
  by (auto simp: flags_wf_def flag_tool_def flag_free_def list_all_length split_def)

lemma grow_inv_seed:
  assumes "at1 < length flags"
  shows "grow_inv flags b at1 (grow_seed flags at1)"
  using assms by (simp add: grow_inv_def grow_seed_def drawn_in_def tools_in_def)

lemma take_within:
  assumes "flags_wf flags" and "\<not> over_budget flags b e t i" and "e \<le> max 1 (tco_entries b)"
    and "t \<le> max 1 (tco_tool_calls b)"
  shows "(if flag_free flags i then e else e + 1) \<le> max 1 (tco_entries b)"
    and "t + (if flag_tool flags i then 1 else 0) \<le> max 1 (tco_tool_calls b)"
  using assms tool_not_free[OF assms(1), of i] by (auto simp: over_budget_def split: if_splits)

lemma grow_inv_head:
  assumes inv: "grow_inv flags b at1 g" and wf: "flags_wf flags"
    and h: "g_head g" "\<not> g_head_latched g"
  shows "grow_inv flags b at1 (grow_step flags b g)"
proof (cases "over_budget flags b (g_entries g) (g_tools g) (g_lo g - 1)")
  case True
  with inv h show ?thesis by (auto simp: grow_step_def grow_inv_def Let_def split: if_splits)
next
  case False
  let ?i = "g_lo g - 1"
  have lo: "0 < g_lo g" "g_lo g \<le> g_hi g" using inv h by (auto simp: grow_inv_def)
  have b: "g_entries g \<le> max 1 (tco_entries b)" "g_tools g \<le> max 1 (tco_tool_calls b)"
    using inv by (simp_all add: grow_inv_def)
  note within = take_within[OF wf False b]
  have step: "grow_step flags b g = g\<lparr>g_entries := (if flag_free flags ?i then g_entries g else g_entries g + 1),
      g_tools := g_tools g + (if flag_tool flags ?i then 1 else 0), g_lo := ?i,
      g_head_latched := (?i = 0), g_head := False\<rparr>"
    using h False by (simp add: grow_step_def Let_def)
  have tail: "over_budget flags b (if flag_free flags ?i then g_entries g else g_entries g + 1)
      (g_tools g + (if flag_tool flags ?i then 1 else 0)) (g_hi g)"
    if "over_budget flags b (g_entries g) (g_tools g) (g_hi g)"
    using that by (rule over_mono) simp_all
  show ?thesis
    using inv lo within tail counts_down[OF lo, of flags]
    unfolding step by (auto simp: grow_inv_def split: if_splits)
qed

lemma grow_inv_tail:
  assumes inv: "grow_inv flags b at1 g" and wf: "flags_wf flags"
    and h: "\<not> g_head g" "\<not> g_tail_latched g"
  shows "grow_inv flags b at1 (grow_step flags b g)"
proof (cases "over_budget flags b (g_entries g) (g_tools g) (g_hi g)")
  case True
  with inv h show ?thesis by (auto simp: grow_step_def grow_inv_def Let_def split: if_splits)
next
  case False
  let ?i = "g_hi g"
  have lo: "g_lo g \<le> g_hi g" and hi: "g_hi g < length flags" using inv h by (auto simp: grow_inv_def)
  have b: "g_entries g \<le> max 1 (tco_entries b)" "g_tools g \<le> max 1 (tco_tool_calls b)"
    using inv by (simp_all add: grow_inv_def)
  note within = take_within[OF wf False b]
  have step: "grow_step flags b g = g\<lparr>g_entries := (if flag_free flags ?i then g_entries g else g_entries g + 1),
      g_tools := g_tools g + (if flag_tool flags ?i then 1 else 0), g_hi := ?i + 1,
      g_tail_latched := (length flags \<le> ?i + 1), g_head := True\<rparr>"
    using h False by (simp add: grow_step_def Let_def)
  have head: "over_budget flags b (if flag_free flags ?i then g_entries g else g_entries g + 1)
      (g_tools g + (if flag_tool flags ?i then 1 else 0)) (g_lo g - 1)"
    if "over_budget flags b (g_entries g) (g_tools g) (g_lo g - 1)"
    using that by (rule over_mono) simp_all
  show ?thesis
    using inv lo hi within head counts_up[OF lo, of flags]
    unfolding step by (auto simp: grow_inv_def split: if_splits)
qed

lemma grow_inv_step:
  assumes "grow_inv flags b at1 g" and "flags_wf flags"
  shows "grow_inv flags b at1 (grow_step flags b g)"
proof (cases "if g_head g then g_head_latched g else g_tail_latched g")
  case True
  then have "grow_step flags b g = g\<lparr>g_head := \<not> g_head g\<rparr>"
    by (cases "g_head g") (simp_all add: grow_step_def)
  moreover have "grow_inv flags b at1 (g\<lparr>g_head := x\<rparr>) = grow_inv flags b at1 g" for x
    unfolding grow_inv_def by simp
  ultimately show ?thesis using assms(1) by simp
next
  case False
  with assms grow_inv_head grow_inv_tail show ?thesis by (auto split: if_splits)
qed

interpretation growing: frame_machine "\<lambda>g _. grow_step flags b g" "\<lambda>_::unit. flags_wf flags"
    "grow_inv flags b at1" for flags b at1
  by unfold_locales (rule grow_inv_step)

lemma grow_window_inv:
  "grow_inv flags b at1 g \<Longrightarrow> flags_wf flags \<Longrightarrow>
   grow_inv flags b at1 (grow_window flags b g)
   \<and> g_head_latched (grow_window flags b g) \<and> g_tail_latched (grow_window flags b g)"
proof (induction flags b g rule: grow_window.induct)
  case (1 flags b g)
  show ?case
  proof (cases "\<not> g_head_latched g \<or> \<not> g_tail_latched g")
    case True
    from "1.IH"[OF True grow_inv_step[OF "1.prems"] "1.prems"(2)] True show ?thesis
      by (subst (1 2 3) grow_window.simps) simp
  next
    case False
    with "1.prems"(1) show ?thesis by (subst (1 2 3) grow_window.simps) simp
  qed
qed

lemma grow_inv_done:
  assumes "grow_inv flags b at1 g" and "g_head_latched g" and "g_tail_latched g"
  shows "g_lo g \<le> at1 \<and> at1 < g_hi g \<and> g_hi g \<le> length flags
       \<and> drawn_in flags (g_lo g) (g_hi g) \<le> max 1 (tco_entries b)
       \<and> tools_in flags (g_lo g) (g_hi g) \<le> max 1 (tco_tool_calls b)
       \<and> (g_lo g = 0 \<or> over_budget flags b (drawn_in flags (g_lo g) (g_hi g))
                          (tools_in flags (g_lo g) (g_hi g)) (g_lo g - 1))
       \<and> (g_hi g = length flags \<or> over_budget flags b (drawn_in flags (g_lo g) (g_hi g))
                          (tools_in flags (g_lo g) (g_hi g)) (g_hi g))"
  using assms unfolding grow_inv_def by metis

section \<open>The window over turns\<close>

lemma window_flags_wf: "flags_wf (window_flags lane turns)"
  by (auto simp: flags_wf_def window_flags_def turn_flags_def tool_at_def Let_def list_all_iff)

lemma window_flags_length: "length (window_flags lane turns) = sum_list (map turn_span turns)"
  by (induction turns) (simp_all add: window_flags_def turn_flags_def Let_def)

lemma turn_bases_nth:
  "i < length turns \<Longrightarrow> turn_bases base turns ! i = base + sum_list (map turn_span (take i turns))"
  by (induction base turns arbitrary: i rule: turn_bases.induct) (auto simp: nth_Cons' take_Cons')

lemma turn_end_in_sum:
  "i < length turns \<Longrightarrow>
   sum_list (map turn_span (take i turns)) + turn_span (turns ! i) \<le> sum_list (map turn_span turns)"
proof (induction turns arbitrary: i)
  case (Cons t ts)
  then show ?case by (cases i) auto
qed simp

lemma seed_in_window:
  assumes "turns \<noteq> []"
  shows "seed_at turns (length (window_flags lane turns)) anchor < length (window_flags lane turns)"
proof -
  have pos: "0 < length (window_flags lane turns)"
    using assms by (cases turns) (simp_all add: window_flags_length turn_span_def)
  show ?thesis
  proof (cases anchor)
    case None
    with pos show ?thesis by (simp add: seed_at_def)
  next
    case (Some a)
    show ?thesis
    proof (cases "find_index (\<lambda>t. t_id t = an_turn a) turns")
      case None
      with pos Some show ?thesis by (simp add: seed_at_def)
    next
      case (Some i)
      then have i: "i < length turns" using find_index_Some by blast
      have "nat (min (max (an_at a) 0) (int (turn_span (turns ! i)) - 1)) < turn_span (turns ! i)"
        by (simp add: turn_span_def nat_less_iff)
      then show ?thesis
        using \<open>anchor = Some a\<close> Some turn_end_in_sum[OF i] turn_bases_nth[OF i, of 0]
        by (simp add: seed_at_def clamp_anchor_def turn_span_def window_flags_length)
    qed
  qed
qed

section \<open>Properties\<close>

text \<open>
  The test that says a turn draws nothing and the price that counts what it draws are one
  statement: the early answer at the first drawn entry, with the lane's first plan resolved on
  arrival, is empty exactly when the full count, with the plan looked up in advance, is zero.
\<close>

theorem bodyless_is_free:
  "renders_nothing t lane \<longleftrightarrow> tco_entries (turn_cost_of t lane) = 0"
  using some_renders[of "t_body t" lane]
  by (auto simp: renders_nothing_def scan_would turn_cost_of_def charge_entries first_plan_seq_def
      filter_empty_conv)

text \<open>
  C20. The residency plan is one interval of the turns' ordinals: it holds the reader's position, it
  draws no more than either budget allows beyond the seed itself, each side ends at the sequence's
  end or at a drawn ordinal the budget cannot take, and every turn's range is that interval clipped
  to the turn and snapped.
\<close>

theorem residency_window:
  assumes "turns \<noteq> []"
  shows "\<exists>lo hi. (let flags = window_flags lane turns; seed = seed_at turns (length flags) anchor
       in lo \<le> seed \<and> seed < hi \<and> hi \<le> length flags
        \<and> drawn_in flags lo hi \<le> max 1 (tco_entries b)
        \<and> tools_in flags lo hi \<le> max 1 (tco_tool_calls b)
        \<and> (lo = 0 \<or> over_budget flags b (drawn_in flags lo hi) (tools_in flags lo hi) (lo - 1))
        \<and> (hi = length flags \<or> over_budget flags b (drawn_in flags lo hi) (tools_in flags lo hi) hi))
        \<and> plan_residency turns anchor lane b
            = foldl (clip_to_turn lo hi lane) [] (zip turns (turn_bases 0 turns))"
proof -
  define flags where "flags = window_flags lane turns"
  define seed where "seed = seed_at turns (length flags) anchor"
  define g where "g = grow_window flags b (grow_seed flags seed)"
  have inv: "grow_inv flags b seed g" "g_head_latched g" "g_tail_latched g"
    using grow_window_inv[OF grow_inv_seed window_flags_wf, of seed lane turns b]
      seed_in_window[OF assms, of lane anchor]
    by (simp_all add: flags_def seed_def g_def)
  have "flags \<noteq> []" using seed_in_window[OF assms, of lane anchor] by (auto simp: flags_def)
  then have "plan_residency turns anchor lane b
      = foldl (clip_to_turn (g_lo g) (g_hi g) lane) [] (zip turns (turn_bases 0 turns))"
    by (simp add: plan_residency_def Let_def flags_def seed_def g_def)
  with grow_inv_done[OF inv] show ?thesis
    unfolding Let_def flags_def[symmetric] seed_def[symmetric] by blast
qed

text \<open>A turn for the witnesses: prose, an entry drawn nowhere, prose again.\<close>

definition split_prose_turn :: turn where
  "split_prose_turn =
     \<lparr>t_id = ''t1'', t_n = 1, t_trigger = None,
      t_body = [sample_entry ''a'' 1 (P_text ''one''),
                sample_entry ''b'' 2 (P_turn_bind ''s'' ''k''),
                sample_entry ''c'' 3 (P_text ''two'')],
      t_open_entries = [], t_ts = 0, t_outcome = O_running, t_rewind_to = None\<rparr>"

lemma split_prose [simp]:
  "turn_span split_prose_turn = 4"
  "in_prose_run split_prose_turn 1 [] (-1)" "in_prose_run split_prose_turn 3 [] (-1)"
  "\<not> in_prose_run split_prose_turn 2 [] (-1)" "free_at split_prose_turn [] (-1) 2"
  "\<not> free_at split_prose_turn [] (-1) 1" "\<not> free_at split_prose_turn [] (-1) 3"
  by (simp_all add: split_prose_turn_def turn_span_def in_prose_run_def free_at_def entry_at_def
      nth_opt_def sample_entry_def entry_kind_of_def entry_renders_def lane_of_def)

lemma split_prose_joined: "joined split_prose_turn [] (-1) 1 3"
proof -
  have "[Suc 1..<3] = [2::nat]" by code_simp
  then show ?thesis by (simp add: joined_def del: One_nat_def)
qed

theorem residency_window_witness:
  "\<exists>lo hi. plan_residency [split_prose_turn] None [] default_budget
     = foldl (clip_to_turn lo hi []) [] (zip [split_prose_turn] (turn_bases 0 [split_prose_turn]))"
  using residency_window[of "[split_prose_turn]" "[]" None default_budget] by blast

text \<open>
  A slice whose edges fall on ordinals this view draws covers what it was asked for and never cuts
  a prose run: two entries of one run are both inside or both outside.
\<close>

theorem slice_keeps_runs_whole:
  assumes "er_from r < er_to r" and "er_to r \<le> turn_span t"
    and "edge_ok t lane fp (er_from r)" and "edge_ok t lane fp (er_to r - 1)"
    and "joined t lane fp a b"
  shows "er_from (slice_turn t r lane (Some fp)) \<le> er_from r
       \<and> er_to r \<le> er_to (slice_turn t r lane (Some fp))
       \<and> (er_from (slice_turn t r lane (Some fp)) \<le> a \<and> a < er_to (slice_turn t r lane (Some fp))
          \<longleftrightarrow> er_from (slice_turn t r lane (Some fp)) \<le> b \<and> b < er_to (slice_turn t r lane (Some fp)))"
proof -
  have s: "slice_turn t r lane (Some fp) =
      \<lparr>er_from = run_start t (er_from r) lane fp, er_to = run_end t (er_to r - 1) lane fp + 1\<rparr>"
    using assms(1,2) by (simp add: slice_turn_def Let_def)
  have "run_start t (er_from r) lane fp \<le> er_from r"
    using run_start_first by (cases "in_prose_run t (er_from r) lane fp") (auto simp: run_start_def)
  moreover have "er_to r - 1 \<le> run_end t (er_to r - 1) lane fp"
    using run_end_last by (cases "in_prose_run t (er_to r - 1) lane fp") (auto simp: run_end_def)
  moreover have "a < b" using assms(5) by (simp add: joined_def)
  moreover have edge: "er_from r < turn_span t" "er_to r - 1 < turn_span t"
    using assms(1,2) by linarith+
  ultimately show ?thesis
    using run_start_edge[OF assms(3) edge(1) assms(5)] run_end_edge[OF assms(4) edge(2) assms(5)]
    by (auto simp: s)
qed

theorem slice_keeps_runs_whole_witness:
  "er_to (slice_turn split_prose_turn \<lparr>er_from = 1, er_to = 4\<rparr> [] (Some (-1))) \<ge> 4"
  using slice_keeps_runs_whole[OF _ _ _ _ split_prose_joined, of "\<lparr>er_from = 1, er_to = 4\<rparr>"]
  by (simp add: edge_ok_def del: One_nat_def)

text \<open>
  An edge on an ordinal nothing is drawn at is not snapped: where a prose run continues on both
  sides of such an ordinal, a slice starting there keeps the later part of the run and leaves the
  earlier part out, so the run is cut.
\<close>

theorem free_edge_cuts_the_run:
  assumes "joined t lane fp a b" and "a < er_from r" and "er_from r < b" and "b < er_to r"
    and "er_to r \<le> turn_span t" and "free_at t lane fp (er_from r)"
  shows "\<not> (er_from (slice_turn t r lane (Some fp)) \<le> a)
       \<and> er_from (slice_turn t r lane (Some fp)) \<le> b \<and> b < er_to (slice_turn t r lane (Some fp))"
proof -
  have "\<not> in_prose_run t (er_from r) lane fp" using assms(6) prose_not_free by blast
  then have s: "slice_turn t r lane (Some fp) =
      \<lparr>er_from = er_from r, er_to = run_end t (er_to r - 1) lane fp + 1\<rparr>"
    using assms(3-5) by (simp add: slice_turn_def Let_def run_start_def)
  have "er_to r - 1 \<le> run_end t (er_to r - 1) lane fp"
    using run_end_last by (cases "in_prose_run t (er_to r - 1) lane fp") (auto simp: run_end_def)
  with assms s show ?thesis by simp
qed

theorem free_edge_cuts_the_run_witness:
  "plan_residency [split_prose_turn] None [] \<lparr>tco_entries = 1, tco_tool_calls = 1\<rparr>
     = [(''t1'', \<lparr>er_from = 2, er_to = 4\<rparr>)]
   \<and> \<not> er_from (slice_turn split_prose_turn \<lparr>er_from = 2, er_to = 4\<rparr> [] (Some (-1))) \<le> 1"
proof -
  have "plan_residency [split_prose_turn] None [] \<lparr>tco_entries = 1, tco_tool_calls = 1\<rparr>
     = [(''t1'', \<lparr>er_from = 2, er_to = 4\<rparr>)]"
    by code_simp
  then show ?thesis
    using free_edge_cuts_the_run[OF split_prose_joined, of "\<lparr>er_from = 2, er_to = 4\<rparr>"] by simp
qed

end
