(* ===== verification/BlockHeights.thy ===== *)
theory BlockHeights
  imports BlockWindow
begin

text \<open>
  What a range of a turn's entries is worth in pixels (static-src/block-heights.ts): the estimate per
  mounted shape, the measured heights of dropped rows, and the height of the spacer standing in for
  the entries a window leaves out. The pointer tier is a parameter; the two height maps are a record.
\<close>

record entry_estimates =
  est_text :: int
  est_empty_text :: int
  est_thinking :: int
  est_run_card :: int
  est_tool_card :: int
  est_subagent_card :: int
  est_plan_card :: int
  est_steer_note :: int
  est_row :: int

datatype pointer_tier = Fine | Coarse

fun entry_estimate_px :: "pointer_tier \<Rightarrow> entry_estimates" where
  "entry_estimate_px Fine =
     \<lparr>est_text = 48, est_empty_text = 0, est_thinking = 25, est_run_card = 71, est_tool_card = 38,
      est_subagent_card = 71, est_plan_card = 70, est_steer_note = 62, est_row = 48\<rparr>"
| "entry_estimate_px Coarse =
     \<lparr>est_text = 48, est_empty_text = 0, est_thinking = 44, est_run_card = 91, est_tool_card = 46,
      est_subagent_card = 91, est_plan_card = 70, est_steer_note = 70, est_row = 48\<rparr>"

definition row_gap_px :: int where
  "row_gap_px = 12"

text \<open>\<open>entryHeights\<close> and \<open>rowHeights\<close>.\<close>

record heights =
  ht_entries :: "(string \<times> (nat \<times> int) list) list"
  ht_rows :: "(string \<times> (nat \<times> (entry_range \<times> int)) list) list"

definition is_pipeline_driver :: "tool_call \<Rightarrow> bool" where
  "is_pipeline_driver call = (tc_title call = ''Orchestrate Sub-agent'')"

definition call_estimate :: "entry \<Rightarrow> tool_call \<Rightarrow> entry_estimates \<Rightarrow> run_results \<Rightarrow> int" where
  "call_estimate e call est results =
     (if effective_run_id e results \<noteq> '''' then est_run_card est
      else if is_pipeline_driver call then est_subagent_card est
      else if nullish (tc_agent_subtask_id call) '''' \<noteq> '''' then
        (if pipeline_of (tc_id call) = '''' then est_subagent_card est else 0)
      else est_tool_card est)"

definition estimate_of :: "entry \<Rightarrow> entry_estimates \<Rightarrow> run_results \<Rightarrow> int" where
  "estimate_of e est results =
     (case entry_kind_of e of
        K_text \<Rightarrow> if nullish (payload_text e) '''' = '''' then est_empty_text est else est_text est
      | K_thinking \<Rightarrow> est_thinking est
      | K_tool_call \<Rightarrow>
          (case payload_tool_call e of
             None \<Rightarrow> est_tool_card est
           | Some call \<Rightarrow> call_estimate e call est results)
      | K_plan \<Rightarrow> est_plan_card est
      | K_steer \<Rightarrow> est_steer_note est
      | K_steer_ack \<Rightarrow> est_text est
      | _ \<Rightarrow> est_row est)"

definition gaps_between :: "nat \<Rightarrow> int" where
  "gaps_between n = max 0 (int n - 1) * row_gap_px"

definition record_entry_height :: "string \<Rightarrow> nat \<Rightarrow> int \<Rightarrow> heights \<Rightarrow> heights" where
  "record_entry_height turn_id seq px h =
     h\<lparr>ht_entries := AList.update turn_id
          (AList.update seq px (nullish (map_of (ht_entries h) turn_id) [])) (ht_entries h)\<rparr>"

definition record_row_height :: "string \<Rightarrow> entry_range \<Rightarrow> int \<Rightarrow> heights \<Rightarrow> heights" where
  "record_row_height turn_id range1 px h =
     h\<lparr>ht_rows := AList.update turn_id
          (AList.update (er_from range1) (range1, px) (nullish (map_of (ht_rows h) turn_id) []))
          (ht_rows h)\<rparr>"

definition forget_heights :: "string list \<Rightarrow> heights \<Rightarrow> heights" where
  "forget_heights turn_ids h =
     foldl (\<lambda>h id1. h\<lparr>ht_entries := AList.delete id1 (ht_entries h),
                      ht_rows := AList.delete id1 (ht_rows h)\<rparr>) h turn_ids"

section \<open>The spacer\<close>

datatype side = Head | Tail

fun stood_range :: "turn \<Rightarrow> entry_range \<Rightarrow> side \<Rightarrow> entry_range" where
  "stood_range t r Head = \<lparr>er_from = 0, er_to = min (er_from r) (turn_span t)\<rparr>"
| "stood_range t r Tail = \<lparr>er_from = min (er_to r) (turn_span t), er_to = turn_span t\<rparr>"

text \<open>A prose run's row: the measured height only where it was measured over that whole run.\<close>

definition row_price :: "turn \<Rightarrow> string \<Rightarrow> int \<Rightarrow> entry_estimates \<Rightarrow> run_results
    \<Rightarrow> (nat \<times> (entry_range \<times> int)) list \<Rightarrow> nat \<Rightarrow> entry \<Rightarrow> int" where
  "row_price t lane fp est results rows seq e =
     (let run = slice_turn t \<lparr>er_from = seq, er_to = seq + 1\<rparr> lane (Some fp)
      in case map_of rows seq of
           None \<Rightarrow> estimate_of e est results
         | Some (range1, px) \<Rightarrow>
             if er_from range1 = er_from run \<and> er_to range1 = er_to run then px
             else estimate_of e est results)"

definition entry_price :: "entry_estimates \<Rightarrow> run_results \<Rightarrow> (nat \<times> int) list \<Rightarrow> nat \<Rightarrow> entry \<Rightarrow> int" where
  "entry_price est results per seq e = nullish (map_of per seq) (estimate_of e est results)"

record spacer_walk =
  sw_px :: int
  sw_boxes :: nat
  sw_in_run :: bool

definition add_box :: "int \<Rightarrow> spacer_walk \<Rightarrow> spacer_walk" where
  "add_box own w =
     w\<lparr>sw_px := sw_px w + own, sw_boxes := (if own > 0 then Suc (sw_boxes w) else sw_boxes w)\<rparr>"

definition spacer_step :: "turn \<Rightarrow> string \<Rightarrow> int \<Rightarrow> entry_estimates \<Rightarrow> run_results
    \<Rightarrow> (nat \<times> int) list \<Rightarrow> (nat \<times> (entry_range \<times> int)) list \<Rightarrow> spacer_walk \<Rightarrow> nat \<Rightarrow> spacer_walk" where
  "spacer_step t lane fp est results per rows w seq =
     (case entry_at t seq of
        None \<Rightarrow> w
      | Some e \<Rightarrow>
          if \<not> entry_renders e lane fp then w
          else if entry_kind_of e = K_text then
            (if sw_in_run w then w
             else add_box (row_price t lane fp est results rows seq e) (w\<lparr>sw_in_run := True\<rparr>))
          else add_box (entry_price est results per seq e) (w\<lparr>sw_in_run := False\<rparr>))"

definition spacer_height :: "pointer_tier \<Rightarrow> heights \<Rightarrow> turn \<Rightarrow> entry_range \<Rightarrow> side \<Rightarrow> string \<Rightarrow> int" where
  "spacer_height tier h t range1 side1 lane =
     (let stood = stood_range t range1 side1
      in if er_from stood \<ge> er_to stood then 0
         else
           let w = foldl (spacer_step t lane (first_plan_seq t lane) (entry_estimate_px tier)
                            (run_results_of t) (nullish (map_of (ht_entries h) (t_id t)) [])
                            (nullish (map_of (ht_rows h) (t_id t)) []))
                     \<lparr>sw_px = 0, sw_boxes = 0, sw_in_run = False\<rparr> [er_from stood..<er_to stood]
           in if sw_boxes w = 0 then sw_px w
              else sw_px w + gaps_between (sw_boxes w) + row_gap_px)"

section \<open>The boxes a spacer stands for\<close>

text \<open>
  The prices of the boxes among some positions, one per drawn entry and one per prose run: the
  reference the walk is compared with.
\<close>

fun box_prices :: "turn \<Rightarrow> string \<Rightarrow> int \<Rightarrow> entry_estimates \<Rightarrow> run_results
    \<Rightarrow> (nat \<times> int) list \<Rightarrow> (nat \<times> (entry_range \<times> int)) list \<Rightarrow> bool \<Rightarrow> nat list \<Rightarrow> int list" where
  "box_prices t lane fp est results per rows in_run [] = []"
| "box_prices t lane fp est results per rows in_run (seq # seqs) =
     (if free_at t lane fp seq then box_prices t lane fp est results per rows in_run seqs
      else if in_prose_run t seq lane fp then
        (if in_run then [] else [row_price t lane fp est results rows seq (the (entry_at t seq))])
        @ box_prices t lane fp est results per rows True seqs
      else entry_price est results per seq (the (entry_at t seq))
           # box_prices t lane fp est results per rows False seqs)"

lemma spacer_walk_boxes:
  "sw_px (foldl (spacer_step t lane fp est res per rows) w seqs)
     = sw_px w + sum_list (box_prices t lane fp est res per rows (sw_in_run w) seqs)
   \<and> sw_boxes (foldl (spacer_step t lane fp est res per rows) w seqs)
     = sw_boxes w + length (filter (\<lambda>p. p > 0) (box_prices t lane fp est res per rows (sw_in_run w) seqs))"
proof (induction seqs arbitrary: w)
  case (Cons seq seqs)
  show ?case
  proof (cases "entry_at t seq")
    case None
    then show ?thesis using Cons[of w] by (simp add: spacer_step_def free_at_def)
  next
    case (Some e)
    then show ?thesis
      using Cons[of w] Cons[of "add_box (row_price t lane fp est res rows seq e) (w\<lparr>sw_in_run := True\<rparr>)"]
        Cons[of "add_box (entry_price est res per seq e) (w\<lparr>sw_in_run := False\<rparr>)"]
      by (auto simp: spacer_step_def free_at_def in_prose_run_def add_box_def)
  qed
qed simp

lemma estimate_nonneg: "0 \<le> estimate_of e (entry_estimate_px tier) res"
  by (cases tier; cases "entry_kind_of e")
     (auto simp: estimate_of_def call_estimate_def split: option.splits)

section \<open>Properties\<close>

text \<open>
  A spacer is worth the boxes it stands for and one gap for each that has a height: one price per
  drawn entry and one per prose run, whatever mix of measurements and estimates they come from.
\<close>

theorem spacer_is_its_boxes:
  "spacer_height tier h t r sd lane =
     (let prices = box_prices t lane (first_plan_seq t lane) (entry_estimate_px tier) (run_results_of t)
                     (nullish (map_of (ht_entries h) (t_id t)) []) (nullish (map_of (ht_rows h) (t_id t)) [])
                     False [er_from (stood_range t r sd)..<er_to (stood_range t r sd)]
      in sum_list prices + row_gap_px * int (length (filter (\<lambda>p. p > 0) prices)))"
  using spacer_walk_boxes[of t lane "first_plan_seq t lane" "entry_estimate_px tier" "run_results_of t"
      "nullish (map_of (ht_entries h) (t_id t)) []" "nullish (map_of (ht_rows h) (t_id t)) []"
      "\<lparr>sw_px = 0, sw_boxes = 0, sw_in_run = False\<rparr>"
      "[er_from (stood_range t r sd)..<er_to (stood_range t r sd)]"]
  by (auto simp: spacer_height_def Let_def gaps_between_def row_gap_px_def)

end
