(* ===== verification/UriCodec.thy ===== *)
theory UriCodec
  imports Prelude
begin

text \<open>
  \<open>encodeURIComponent\<close>, \<open>decodeURIComponent\<close>, \<open>split\<close> and \<open>join\<close> as the routes use them. A string here
  is the list of its Unicode scalar values: the codec works on UTF-8 bytes, so a code unit per
  character would not do. Decoding a malformed sequence is \<open>None\<close>, where the source catches the throw.
\<close>

type_synonym codes = "nat list"

definition scalar :: "nat \<Rightarrow> bool" where
  "scalar c = (c < 55296 \<or> (57344 \<le> c \<and> c \<le> 1114111))"

section \<open>UTF-8\<close>

definition utf8 :: "nat \<Rightarrow> nat list" where
  "utf8 c =
     (if c < 128 then [c]
      else if c < 2048 then [192 + c div 64, 128 + c mod 64]
      else if c < 65536 then [224 + c div 4096, 128 + c div 64 mod 64, 128 + c mod 64]
      else [240 + c div 262144, 128 + c div 4096 mod 64, 128 + c div 64 mod 64, 128 + c mod 64])"

definition continuation :: "nat \<Rightarrow> bool" where
  "continuation b = (128 \<le> b \<and> b < 192)"

text \<open>The number of continuation bytes a lead byte asks for; \<open>None\<close> for a byte that leads nothing.\<close>

definition tail_count :: "nat \<Rightarrow> nat option" where
  "tail_count b =
     (if b < 128 then Some 0
      else if 192 \<le> b \<and> b < 224 then Some 1
      else if 224 \<le> b \<and> b < 240 then Some 2
      else if 240 \<le> b \<and> b < 248 then Some 3
      else None)"

fun utf8_value :: "nat list \<Rightarrow> nat option" where
  "utf8_value [b] = (if b < 128 then Some b else None)"
| "utf8_value [b, x] =
     (let v = (b - 192) * 64 + (x - 128) in if v < 128 then None else Some v)"
| "utf8_value [b, x, y] =
     (let v = (b - 224) * 4096 + (x - 128) * 64 + (y - 128)
      in if v < 2048 \<or> \<not> scalar v then None else Some v)"
| "utf8_value [b, x, y, z] =
     (let v = (b - 240) * 262144 + (x - 128) * 4096 + (y - 128) * 64 + (z - 128)
      in if v < 65536 \<or> \<not> scalar v then None else Some v)"
| "utf8_value _ = None"

section \<open>Percent encoding\<close>

definition hex_digit :: "nat \<Rightarrow> nat" where
  "hex_digit d = (if d < 10 then 48 + d else 55 + d)"

definition hex_value :: "nat \<Rightarrow> nat option" where
  "hex_value c =
     (if 48 \<le> c \<and> c \<le> 57 then Some (c - 48)
      else if 65 \<le> c \<and> c \<le> 70 then Some (c - 55)
      else if 97 \<le> c \<and> c \<le> 102 then Some (c - 87)
      else None)"

definition percent :: "nat \<Rightarrow> codes" where
  "percent b = [37, hex_digit (b div 16), hex_digit (b mod 16)]"

text \<open>Letters, digits and \<open>- _ . ! ~ * ' ( )\<close>.\<close>

definition unreserved :: "nat \<Rightarrow> bool" where
  "unreserved c =
     ((48 \<le> c \<and> c \<le> 57) \<or> (65 \<le> c \<and> c \<le> 90) \<or> (97 \<le> c \<and> c \<le> 122)
      \<or> c \<in> {45, 95, 46, 33, 126, 42, 39, 40, 41})"

definition encode_code :: "nat \<Rightarrow> codes" where
  "encode_code c = (if unreserved c then [c] else concat (map percent (utf8 c)))"

definition encode_uri_component :: "codes \<Rightarrow> codes" where
  "encode_uri_component s = concat (map encode_code s)"

text \<open>One percent triple off the front.\<close>

fun take_percent :: "codes \<Rightarrow> (nat \<times> codes) option" where
  "take_percent (c # h # l # rest) =
     (if c \<noteq> 37 then None
      else case (hex_value h, hex_value l) of
             (Some a, Some b) \<Rightarrow> Some (16 * a + b, rest)
           | _ \<Rightarrow> None)"
| "take_percent _ = None"

fun take_tail :: "nat \<Rightarrow> codes \<Rightarrow> (nat list \<times> codes) option" where
  "take_tail 0 s = Some ([], s)"
| "take_tail (Suc n) s =
     (case take_percent s of
        None \<Rightarrow> None
      | Some (b, rest) \<Rightarrow>
          if \<not> continuation b then None
          else map_option (\<lambda>(bs, s'). (b # bs, s')) (take_tail n rest))"

definition take_sequence :: "codes \<Rightarrow> (nat \<times> codes) option" where
  "take_sequence s =
     (case take_percent s of
        None \<Rightarrow> None
      | Some (b, rest) \<Rightarrow>
          (case tail_count b of
             None \<Rightarrow> None
           | Some n \<Rightarrow>
               (case take_tail n rest of
                  None \<Rightarrow> None
                | Some (bs, s') \<Rightarrow> map_option (\<lambda>v. (v, s')) (utf8_value (b # bs)))))"

lemma take_percent_shorter: "take_percent s = Some (b, rest) \<Longrightarrow> length rest < length s"
  by (cases s rule: take_percent.cases) (auto split: if_splits option.splits)

lemma take_tail_shorter: "take_tail n s = Some (bs, rest) \<Longrightarrow> length rest \<le> length s"
  by (induction n arbitrary: s bs)
     (auto split: option.splits if_splits dest!: take_percent_shorter, fastforce)

lemma take_sequence_shorter: "take_sequence s = Some (v, rest) \<Longrightarrow> length rest < length s"
  by (auto simp: take_sequence_def split: option.splits dest!: take_percent_shorter take_tail_shorter)

function decode_uri_component :: "codes \<Rightarrow> codes option" where
  "decode_uri_component [] = Some []"
| "decode_uri_component (c # s) =
     (if c \<noteq> 37 then map_option ((#) c) (decode_uri_component s)
      else case take_sequence (c # s) of
             None \<Rightarrow> None
           | Some (v, rest) \<Rightarrow> map_option ((#) v) (decode_uri_component rest))"
  by pat_completeness auto

termination
  by (relation "measure length") (auto dest: take_sequence_shorter)

definition safe_decode :: "codes \<Rightarrow> codes" where
  "safe_decode s = nullish (decode_uri_component s) s"

section \<open>Segments\<close>

fun split_slash :: "codes \<Rightarrow> codes list" where
  "split_slash [] = [[]]"
| "split_slash (c # s) =
     (case split_slash s of
        [] \<Rightarrow> [[c]]
      | seg # segs \<Rightarrow> if c = 47 then [] # seg # segs else (c # seg) # segs)"

fun join_slash :: "codes list \<Rightarrow> codes" where
  "join_slash [] = []"
| "join_slash [s] = s"
| "join_slash (s # t # ss) = s @ 47 # join_slash (t # ss)"

definition strip_slashes :: "codes \<Rightarrow> codes" where
  "strip_slashes s = rev (dropWhile (\<lambda>c. c = 47) (rev (dropWhile (\<lambda>c. c = 47) s)))"

definition encode_path :: "codes \<Rightarrow> codes" where
  "encode_path p = join_slash (map encode_uri_component (split_slash p))"

section \<open>The codec's round trip\<close>

lemma hex_round: "d < 16 \<Longrightarrow> hex_value (hex_digit d) = Some d"
  by (auto simp: hex_digit_def hex_value_def)

lemma take_percent_round: "b < 256 \<Longrightarrow> take_percent (percent b @ s) = Some (b, s)"
proof -
  assume "b < 256"
  then have "b div 16 < 16" by (simp add: less_mult_imp_div_less)
  then show ?thesis by (simp add: percent_def hex_round)
qed

lemma take_tail_round:
  "\<forall>b\<in>set bs. continuation b \<Longrightarrow> take_tail (length bs) (concat (map percent bs) @ s) = Some (bs, s)"
  by (induction bs) (auto simp: take_percent_round continuation_def)

lemma three_bytes:
  fixes x y z :: nat
  assumes "c = x * 4096 + y * 64 + z" and "x < 16" "y < 64" "z < 64"
    and "2048 \<le> c" and "scalar c"
  shows "tail_count (224 + x) = Some 2 \<and> continuation (128 + y) \<and> continuation (128 + z)
    \<and> utf8_value [224 + x, 128 + y, 128 + z] = Some c"
proof -
  have "tail_count (224 + x) = Some 2" using assms(2) by (simp add: tail_count_def)
  moreover have "continuation (128 + y)" "continuation (128 + z)"
    using assms(3,4) by (simp_all add: continuation_def)
  moreover have "utf8_value [224 + x, 128 + y, 128 + z] = (if c < 2048 \<or> \<not> scalar c then None else Some c)"
    unfolding utf8_value.simps Let_def by (simp add: assms(1))
  ultimately show ?thesis using assms(5,6) by simp
qed

lemma four_bytes:
  fixes w x y z :: nat
  assumes "c = w * 262144 + x * 4096 + y * 64 + z" and "w < 8" "x < 64" "y < 64" "z < 64"
    and "65536 \<le> c" and "scalar c"
  shows "tail_count (240 + w) = Some 3 \<and> continuation (128 + x) \<and> continuation (128 + y)
    \<and> continuation (128 + z) \<and> utf8_value [240 + w, 128 + x, 128 + y, 128 + z] = Some c"
proof -
  have "tail_count (240 + w) = Some 3" using assms(2) by (simp add: tail_count_def)
  moreover have "continuation (128 + x)" "continuation (128 + y)" "continuation (128 + z)"
    using assms(3-5) by (simp_all add: continuation_def)
  moreover have "utf8_value [240 + w, 128 + x, 128 + y, 128 + z]
      = (if c < 65536 \<or> \<not> scalar c then None else Some c)"
    unfolding utf8_value.simps Let_def by (simp add: assms(1))
  ultimately show ?thesis using assms(6,7) by simp
qed

lemma base_64: "(c::nat) = c div 4096 * 4096 + c div 64 mod 64 * 64 + c mod 64"
proof -
  have "c div 64 div 64 = c div 4096" by (simp add: div_mult2_eq[symmetric])
  then have "c div 64 = c div 4096 * 64 + c div 64 mod 64"
    using div_mult_mod_eq[of "c div 64" 64] by simp
  then show ?thesis using div_mult_mod_eq[of c 64] by linarith
qed

lemma base_64_4: "(c::nat) = c div 262144 * 262144 + c div 4096 mod 64 * 4096 + c div 64 mod 64 * 64 + c mod 64"
proof -
  have "c div 4096 div 64 = c div 262144" by (simp add: div_mult2_eq[symmetric])
  then have "c div 4096 = c div 262144 * 64 + c div 4096 mod 64"
    using div_mult_mod_eq[of "c div 4096" 64] by simp
  with base_64[of c] show ?thesis by linarith
qed

lemma utf8_shape:
  assumes "scalar c"
  shows "\<exists>b bs. utf8 c = b # bs \<and> b < 256 \<and> tail_count b = Some (length bs)
           \<and> (\<forall>x\<in>set bs. continuation x) \<and> utf8_value (b # bs) = Some c"
proof -
  have top: "c \<le> 1114111" using assms unfolding scalar_def by linarith
  consider "c < 128" | "128 \<le> c" "c < 2048" | "2048 \<le> c" "c < 65536" | "65536 \<le> c"
    by linarith
  then show ?thesis
  proof cases
    case 1
    then show ?thesis by (simp add: utf8_def tail_count_def)
  next
    case 2
    then have d: "2 \<le> c div 64" "c div 64 < 32" by linarith+
    then have "tail_count (192 + c div 64) = Some 1" "continuation (128 + c mod 64)"
      by (simp_all add: tail_count_def continuation_def)
    moreover have "utf8_value [192 + c div 64, 128 + c mod 64] = Some c"
      using 2 unfolding utf8_value.simps Let_def by simp
    ultimately show ?thesis using 2 d by (simp add: utf8_def)
  next
    case 3
    have "c div 4096 < 16" using 3 by linarith
    from three_bytes[OF base_64 this _ _ _ assms] this 3
    show ?thesis by (simp add: utf8_def del: utf8_value.simps)
  next
    case 4
    have "c div 262144 < 8" using top by linarith
    from four_bytes[OF base_64_4 this _ _ _ _ assms] this 4
    show ?thesis by (simp add: utf8_def del: utf8_value.simps)
  qed
qed

lemma take_sequence_round:
  "scalar c \<Longrightarrow> take_sequence (concat (map percent (utf8 c)) @ s) = Some (c, s)"
proof -
  assume "scalar c"
  from utf8_shape[OF this] obtain b bs where b: "utf8 c = b # bs" "b < 256"
    "tail_count b = Some (length bs)" "\<forall>x\<in>set bs. continuation x" "utf8_value (b # bs) = Some c" by blast
  then show ?thesis
    by (simp add: take_sequence_def take_percent_round take_tail_round)
qed

lemma percent_first: "percent b = 37 # tl (percent b)"
  by (simp add: percent_def)

lemma decode_code:
  assumes "scalar c"
  shows "decode_uri_component (encode_code c @ s) = map_option ((#) c) (decode_uri_component s)"
proof (cases "unreserved c")
  case True
  then have "c \<noteq> 37" by (auto simp: unreserved_def)
  with True show ?thesis by (simp add: encode_code_def)
next
  case False
  obtain b bs where "utf8 c = b # bs" using utf8_shape[OF assms] by blast
  then obtain r where r: "concat (map percent (utf8 c)) @ s = 37 # r"
    by (simp add: percent_def)
  from take_sequence_round[OF assms, of s] have "take_sequence (37 # r) = Some (c, s)"
    unfolding r .
  with False r show ?thesis by (simp add: encode_code_def)
qed

lemma decode_append:
  assumes "list_all scalar s"
  shows "decode_uri_component (encode_uri_component s @ r) = map_option ((@) s) (decode_uri_component r)"
  using assms
proof (induction s)
  case (Cons c s)
  then show ?case
    by (simp add: encode_uri_component_def decode_code option.map_comp comp_def)
next
  case Nil
  then show ?case by (cases "decode_uri_component r") (simp_all add: encode_uri_component_def)
qed

lemma decode_encode: "list_all scalar s \<Longrightarrow> decode_uri_component (encode_uri_component s) = Some s"
  using decode_append[of s "[]"] by simp

lemma safe_decode_encode [simp]:
  "list_all scalar s \<Longrightarrow> safe_decode (encode_uri_component s) = s"
  by (simp add: safe_decode_def decode_encode)

section \<open>What an encoded segment contains\<close>

definition segment_safe :: "nat \<Rightarrow> bool" where
  "segment_safe c = (unreserved c \<or> c = 37)"

lemma hex_safe: "d < 16 \<Longrightarrow> segment_safe (hex_digit d)"
  by (auto simp: hex_digit_def segment_safe_def unreserved_def)

lemma encode_code_safe:
  assumes "scalar c" shows "list_all segment_safe (encode_code c)"
proof (cases "unreserved c")
  case False
  have "b < 256" if "b \<in> set (utf8 c)" for b
    using utf8_shape[OF assms] that by (fastforce simp: continuation_def)
  then have "list_all segment_safe (percent b)" if "b \<in> set (utf8 c)" for b
    using that by (simp add: percent_def hex_safe less_mult_imp_div_less) (simp add: segment_safe_def)
  with False show ?thesis by (auto simp: encode_code_def list_all_iff)
qed (simp add: encode_code_def segment_safe_def)

lemma encode_safe: "list_all scalar s \<Longrightarrow> list_all segment_safe (encode_uri_component s)"
  by (induction s) (auto simp: encode_uri_component_def encode_code_safe)

lemma safe_chars: "segment_safe c \<Longrightarrow> c \<noteq> 47 \<and> c \<noteq> 35"
  by (auto simp: segment_safe_def unreserved_def)

lemma encode_nonempty: "s \<noteq> [] \<Longrightarrow> list_all scalar s \<Longrightarrow> encode_uri_component s \<noteq> []"
  using decode_encode[of s] by (metis decode_uri_component.simps(1) option.inject)

lemma split_no_slash: "47 \<notin> set s \<Longrightarrow> split_slash s = [s]"
  by (induction s) auto

lemma split_nonempty: "split_slash s \<noteq> []"
  by (induction s) (auto split: list.splits)

lemma split_append: "47 \<notin> set a \<Longrightarrow> split_slash (a @ 47 # b) = a # split_slash b"
  by (induction a) (auto simp: split_nonempty split: list.splits)

lemma join_split: "join_slash (split_slash s) = s"
proof (induction s)
  case (Cons c s)
  obtain seg segs where split: "split_slash s = seg # segs"
    using split_nonempty by (cases "split_slash s") auto
  with Cons show ?case by (cases segs) auto
qed simp

lemma split_join: "ss \<noteq> [] \<Longrightarrow> \<forall>s\<in>set ss. 47 \<notin> set s \<Longrightarrow> split_slash (join_slash ss) = ss"
  by (induction ss rule: join_slash.induct) (auto simp: split_no_slash split_append)

lemma split_parts: "x \<in> set (split_slash s) \<Longrightarrow> set x \<subseteq> set s \<and> 47 \<notin> set x"
proof (induction s arbitrary: x)
  case (Cons c s)
  obtain seg segs where split: "split_slash s = seg # segs"
    using split_nonempty by (cases "split_slash s") auto
  then have "set seg \<subseteq> set s \<and> 47 \<notin> set seg" "y \<in> set segs \<Longrightarrow> set y \<subseteq> set s \<and> 47 \<notin> set y" for y
    using Cons.IH by simp_all
  with Cons.prems split show ?case by (auto split: if_splits)
qed simp

lemma decode_path:
  assumes "\<forall>s\<in>set ss. list_all scalar s" and "ss \<noteq> []"
  shows "decode_uri_component (join_slash (map encode_uri_component ss)) = Some (join_slash ss)"
  using assms
proof (induction ss rule: join_slash.induct)
  case (3 s t ss)
  then show ?case by (simp add: decode_append)
qed (simp_all add: decode_encode)

lemma encode_path_decode: "list_all scalar p \<Longrightarrow> safe_decode (encode_path p) = p"
proof -
  assume p: "list_all scalar p"
  have "\<forall>s\<in>set (split_slash p). list_all scalar s"
    using p split_parts by (fastforce simp: list_all_iff)
  from decode_path[OF this split_nonempty] show ?thesis
    by (simp add: safe_decode_def encode_path_def join_split)
qed

end
