(* ===== verification/RoutePath.thy ===== *)
theory RoutePath
  imports UriCodec
begin

text \<open>
  \<open>route-path.ts\<close>: the URL vocabulary. \<open>Route\<close> is the datatype \<open>route\<close> (an optional field is an
  \<open>option\<close>), \<open>parseRoute\<close> is \<open>parse_route\<close>, \<open>buildPath\<close> is \<open>build_path\<close>. The browser's reading of a
  URL, everything before the first \<open>#\<close> as \<open>pathname\<close> and the rest as \<open>hash\<close>, is \<open>open_url\<close>.
\<close>

section \<open>The routes\<close>

datatype settings_tab = S_general | S_tools | S_permissions | S_instructions
datatype git_tab = G_changes | G_prs | G_sources
datatype docs_tab = D_steering | D_skills | D_agents | D_specs | D_hooks | D_workflows
datatype history_tab = H_chats | H_runs

datatype route =
    R_chat codes
  | R_git git_tab "codes option"
  | R_files codes
  | R_web codes
  | R_file codes "nat option"
  | R_history "history_tab option"
  | R_docs docs_tab
  | R_run codes "codes option"
  | R_subagent codes codes
  | R_spec codes
  | R_settings settings_tab

definition codes_of :: "string \<Rightarrow> codes" where
  "codes_of s = map of_char s"

lemma codes_of_simps [simp]:
  "codes_of [] = []" "codes_of (c # s) = of_char c # codes_of s"
  by (simp_all add: codes_of_def)

text \<open>\<open>startsWith\<close>, and the rest of the string after the prefix.\<close>

fun after_prefix :: "codes \<Rightarrow> codes \<Rightarrow> codes option" where
  "after_prefix [] s = Some s"
| "after_prefix (p # ps) (c # s) = (if c = p then after_prefix ps s else None)"
| "after_prefix (p # ps) [] = None"

lemma after_prefix_append [simp]: "after_prefix p (p @ s) = Some s"
  by (induction p) auto

lemma after_prefix_Some: "after_prefix p s = Some r \<longleftrightarrow> s = p @ r"
  by (induction p s rule: after_prefix.induct) auto

section \<open>Reading a URL\<close>

definition parse_settings_tab :: "codes option \<Rightarrow> settings_tab" where
  "parse_settings_tab seg =
     (if seg = Some (codes_of ''tools'') then S_tools
      else if seg = Some (codes_of ''permissions'') then S_permissions
      else if seg = Some (codes_of ''instructions'') then S_instructions
      else S_general)"

definition parse_docs_tab :: "codes option \<Rightarrow> docs_tab" where
  "parse_docs_tab seg =
     (if seg = Some (codes_of ''skills'') then D_skills
      else if seg = Some (codes_of ''agents'') then D_agents
      else if seg = Some (codes_of ''specs'') then D_specs
      else if seg = Some (codes_of ''hooks'') then D_hooks
      else if seg = Some (codes_of ''workflows'') then D_workflows
      else D_steering)"

definition parse_git_tab :: "codes option \<Rightarrow> git_tab" where
  "parse_git_tab seg =
     (if seg = Some (codes_of ''prs'') then G_prs
      else if seg = Some (codes_of ''sources'') then G_sources
      else G_changes)"

definition parse_history_tab :: "codes option \<Rightarrow> history_tab" where
  "parse_history_tab seg = (if seg = Some (codes_of ''runs'') then H_runs else H_chats)"

text \<open>
  \<open>parseInt\<close> of a run of decimal digits: the double nearest to the number (ties to even), \<open>None\<close>
  where that is \<open>Infinity\<close>.
\<close>

definition digit :: "nat \<Rightarrow> bool" where
  "digit c = (48 \<le> c \<and> c \<le> 57)"

definition digits_value :: "codes \<Rightarrow> nat" where
  "digits_value s = foldl (\<lambda>a c. a * 10 + (c - 48)) 0 s"

fun bit_length :: "nat \<Rightarrow> nat" where
  "bit_length n = (if n = 0 then 0 else Suc (bit_length (n div 2)))"

declare bit_length.simps [simp del]

definition nearest_double :: "nat \<Rightarrow> nat option" where
  "nearest_double n =
     (if n < 2 ^ 53 then Some n
      else let e = bit_length n - 53;
               q = n div 2 ^ e;
               r = 2 * (n mod 2 ^ e);
               v = (if 2 ^ e < r \<or> (r = 2 ^ e \<and> odd q) then q + 1 else q) * 2 ^ e
           in if 2 ^ 1024 \<le> v then None else Some v)"

definition parse_hash_line :: "codes \<Rightarrow> nat option" where
  "parse_hash_line hash =
     (case after_prefix (codes_of ''#L'') hash of
        None \<Rightarrow> None
      | Some rest \<Rightarrow>
          (let ds = takeWhile digit rest in
           if ds = [] then None
           else case nearest_double (digits_value ds) of
                  None \<Rightarrow> None
                | Some n \<Rightarrow> if 0 < n then Some n else None))"

text \<open>\<open>(.*)$\<close>: the dot does not match a line terminator.\<close>

definition line_terminator :: "nat \<Rightarrow> bool" where
  "line_terminator c = (c = 10 \<or> c = 13 \<or> c = 8232 \<or> c = 8233)"

definition parse_hash_value :: "codes \<Rightarrow> codes \<Rightarrow> codes option" where
  "parse_hash_value prefix hash =
     (case after_prefix prefix hash of
        None \<Rightarrow> None
      | Some rest \<Rightarrow>
          if list_ex line_terminator rest then None
          else let v = safe_decode rest in if v = [] then None else Some v)"

definition parse_hash_node :: "codes \<Rightarrow> codes option" where
  "parse_hash_node hash = parse_hash_value (codes_of ''#node='') hash"

definition parse_hash_pr :: "codes \<Rightarrow> codes option" where
  "parse_hash_pr hash = parse_hash_value (codes_of ''#pr='') hash"

definition segment :: "codes list \<Rightarrow> nat \<Rightarrow> codes option" where
  "segment ss i = (if i < length ss then Some (ss ! i) else None)"

definition rest_of_path :: "codes list \<Rightarrow> nat \<Rightarrow> codes" where
  "rest_of_path ss i = safe_decode (join_slash (drop i ss))"

definition strip_front :: "codes \<Rightarrow> codes" where
  "strip_front s = dropWhile (\<lambda>c. c = 47) s"

definition parse_route :: "codes \<Rightarrow> codes \<Rightarrow> route" where
  "parse_route pathname hash =
     (let segments = split_slash (strip_slashes pathname);
          head = nullish (segment segments 0) [];
          empty = R_chat []
      in if head = codes_of ''git'' then
           (let tab = parse_git_tab (segment segments 1)
            in R_git tab (if tab = G_prs then parse_hash_pr hash else None))
         else if head = codes_of ''history'' then
           (if parse_history_tab (segment segments 1) = H_chats then R_history None
            else R_history (Some (parse_history_tab (segment segments 1))))
         else if head = codes_of ''docs'' then R_docs (parse_docs_tab (segment segments 1))
         else if head = codes_of ''run'' then
           (let i = safe_decode (nullish (segment segments 1) [])
            in if i \<noteq> [] then R_run i (parse_hash_node hash) else empty)
         else if head = codes_of ''spec'' then
           (let dir = safe_decode (nullish (segment segments 1) [])
            in if length segments = 2 \<and> dir \<noteq> [] then R_spec dir else empty)
         else if head = codes_of ''settings'' then
           R_settings (parse_settings_tab (segment segments 1))
         else if head = codes_of ''chat'' then
           (let i = safe_decode (nullish (segment segments 1) []);
                subtask = rest_of_path segments 3
            in if i = [] then empty
               else if segment segments 2 = Some (codes_of ''subagent'') \<and> subtask \<noteq> []
               then R_subagent i subtask
               else R_chat i)
         else if head = codes_of ''files'' then
           (if length segments \<le> 1 then R_files [47]
            else let raw = strip_front (rest_of_path segments 1)
                 in R_files (if raw = [] \<or> raw = [46] then [47] else 47 # raw))
         else if head = codes_of ''web'' then
           (let raw = strip_front (rest_of_path segments 1)
            in if raw \<noteq> [] then R_web (47 # raw) else empty)
         else if head = codes_of ''file'' then
           (if length segments \<le> 1 \<or> rest_of_path segments 1 = [] then empty
            else R_file (rest_of_path segments 1) (parse_hash_line hash))
         else empty)"

section \<open>Writing a URL\<close>

text \<open>\<open>String(n)\<close> of a line number.\<close>

fun decimal :: "nat \<Rightarrow> codes" where
  "decimal n = (if n < 10 then [48 + n] else decimal (n div 10) @ [48 + n mod 10])"

declare decimal.simps [simp del]

fun build_path :: "route \<Rightarrow> codes" where
  "build_path (R_chat i) =
     (if i = [] then codes_of ''/'' else codes_of ''/chat/'' @ encode_uri_component i)"
| "build_path (R_git tab pr) =
     (case (tab, pr) of
        (G_prs, Some (c # p)) \<Rightarrow> codes_of ''/git/prs#pr='' @ encode_uri_component (c # p)
      | (G_changes, _) \<Rightarrow> codes_of ''/git''
      | (G_prs, _) \<Rightarrow> codes_of ''/git/prs''
      | (G_sources, _) \<Rightarrow> codes_of ''/git/sources'')"
| "build_path (R_history tab) =
     (if tab = Some H_runs then codes_of ''/history/runs'' else codes_of ''/history'')"
| "build_path (R_docs tab) =
     (case tab of
        D_steering \<Rightarrow> codes_of ''/docs''
      | D_skills \<Rightarrow> codes_of ''/docs/skills''
      | D_agents \<Rightarrow> codes_of ''/docs/agents''
      | D_specs \<Rightarrow> codes_of ''/docs/specs''
      | D_hooks \<Rightarrow> codes_of ''/docs/hooks''
      | D_workflows \<Rightarrow> codes_of ''/docs/workflows'')"
| "build_path (R_run i node) =
     codes_of ''/run/'' @ encode_uri_component i @
     (case node of
        Some (c # n) \<Rightarrow> codes_of ''#node='' @ encode_uri_component (c # n)
      | _ \<Rightarrow> [])"
| "build_path (R_subagent chat i) =
     codes_of ''/chat/'' @ encode_uri_component chat @ codes_of ''/subagent/'' @ encode_uri_component i"
| "build_path (R_spec dir) = codes_of ''/spec/'' @ encode_uri_component dir"
| "build_path (R_files path) =
     (if path = [47] \<or> path = [46] \<or> path = [] then codes_of ''/files''
      else codes_of ''/files/'' @ encode_path (strip_front path))"
| "build_path (R_file path line) =
     codes_of ''/file/'' @ encode_path path @
     (case line of
        Some n \<Rightarrow> if 0 < n then codes_of ''#L'' @ decimal n else []
      | None \<Rightarrow> [])"
| "build_path (R_web path) = codes_of ''/web/'' @ encode_path (strip_front path)"
| "build_path (R_settings tab) =
     (case tab of
        S_general \<Rightarrow> codes_of ''/settings''
      | S_tools \<Rightarrow> codes_of ''/settings/tools''
      | S_permissions \<Rightarrow> codes_of ''/settings/permissions''
      | S_instructions \<Rightarrow> codes_of ''/settings/instructions'')"

definition open_url :: "codes \<Rightarrow> route" where
  "open_url url =
     (let fragment = dropWhile (\<lambda>c. c \<noteq> 35) url
      in parse_route (takeWhile (\<lambda>c. c \<noteq> 35) url) (if fragment = [35] then [] else fragment))"

end
