(* ===== verification/RouteFacts.thy ===== *)
theory RouteFacts
  imports RoutePath
begin

text \<open>
  \<open>route-path.ts\<close>: \<open>buildPath\<close> and \<open>parseRoute\<close> are inverse on the routes the application writes
  (\<open>canonical\<close>), and one reading settles a URL: what was parsed and written again is read back as it
  was, except where an escaped slash ends a file path.
\<close>

section \<open>The routes a URL can carry\<close>

definition plain_path :: "codes \<Rightarrow> bool" where
  "plain_path s = (s \<noteq> [] \<and> hd s \<noteq> 47 \<and> last s \<noteq> 47)"

definition rooted_path :: "codes \<Rightarrow> bool" where
  "rooted_path p = (p \<noteq> [] \<and> hd p = 47 \<and> plain_path (tl p))"

fun canonical :: "route \<Rightarrow> bool" where
  "canonical (R_chat i) = True"
| "canonical (R_git tab pr) = (pr = None \<or> (tab = G_prs \<and> pr \<noteq> Some []))"
| "canonical (R_files p) = (p = [47] \<or> (rooted_path p \<and> tl p \<noteq> [46]))"
| "canonical (R_web p) = rooted_path p"
| "canonical (R_file p line) =
     (p \<noteq> [] \<and> last p \<noteq> 47
      \<and> (case line of None \<Rightarrow> True | Some n \<Rightarrow> 0 < n \<and> n < 2 ^ 53))"
| "canonical (R_history tab) = (tab \<noteq> Some H_chats)"
| "canonical (R_docs tab) = True"
| "canonical (R_run i node) = (i \<noteq> [] \<and> node \<noteq> Some [])"
| "canonical (R_subagent chat i) = (chat \<noteq> [] \<and> i \<noteq> [])"
| "canonical (R_spec dir) = (dir \<noteq> [])"
| "canonical (R_settings tab) = True"

text \<open>Every string of a route is a sequence of Unicode scalar values.\<close>

fun route_scalars :: "route \<Rightarrow> bool" where
  "route_scalars (R_chat i) = list_all scalar i"
| "route_scalars (R_git tab pr) = list_all scalar (nullish pr [])"
| "route_scalars (R_files p) = list_all scalar p"
| "route_scalars (R_web p) = list_all scalar p"
| "route_scalars (R_file p line) = list_all scalar p"
| "route_scalars (R_history tab) = True"
| "route_scalars (R_docs tab) = True"
| "route_scalars (R_run i node) = (list_all scalar i \<and> list_all scalar (nullish node []))"
| "route_scalars (R_subagent chat i) = (list_all scalar chat \<and> list_all scalar i)"
| "route_scalars (R_spec dir) = list_all scalar dir"
| "route_scalars (R_settings tab) = True"

section \<open>Segments and fragments of a written URL\<close>

lemma strip_slashes_plain: "plain_path s \<Longrightarrow> strip_slashes (47 # s) = s"
proof -
  assume s: "plain_path s"
  then have "dropWhile (\<lambda>c. c = 47) (rev s) = rev s"
    by (cases s rule: rev_cases) (auto simp: plain_path_def)
  moreover have "dropWhile (\<lambda>c. c = 47) s = s"
    using s by (cases s) (auto simp: plain_path_def)
  ultimately show ?thesis by (simp add: strip_slashes_def)
qed

lemma join_plain:
  "ss \<noteq> [] \<Longrightarrow> \<forall>s\<in>set ss. 47 \<notin> set s \<Longrightarrow> hd ss \<noteq> [] \<Longrightarrow> last ss \<noteq> []
   \<Longrightarrow> plain_path (join_slash ss)"
proof (induction ss rule: join_slash.induct)
  case (2 s)
  then have "hd s \<in> set s" "last s \<in> set s" by simp_all
  with 2 have "hd s \<noteq> 47" "last s \<noteq> 47" by (auto simp del: hd_in_set last_in_set)
  with 2 show ?case by (simp add: plain_path_def)
next
  case (3 s t ss)
  have "join_slash (t # ss) \<noteq> [] \<and> last (join_slash (t # ss)) \<noteq> 47"
  proof (cases "t = []")
    case False
    with 3 show ?thesis by (auto simp: plain_path_def)
  next
    case True
    have "last (join_slash us) \<noteq> 47 \<and> join_slash us \<noteq> []"
      if "us \<noteq> []" "\<forall>s\<in>set us. 47 \<notin> set s" "last us \<noteq> []" for us
      using that
    proof (induction us rule: join_slash.induct)
      case (2 s)
      then show ?case by (auto simp: in_set_conv_decomp dest: last_in_set)
    qed auto
    from this[of "t # ss"] 3 show ?thesis by auto
  qed
  moreover have "hd s \<noteq> 47" "s \<noteq> []" using 3 by (cases s; auto)+
  ultimately show ?case by (simp add: plain_path_def)
qed simp

lemma path_segments:
  assumes "ss \<noteq> []" "\<forall>s\<in>set ss. 47 \<notin> set s" "hd ss \<noteq> []" "last ss \<noteq> []"
  shows "split_slash (strip_slashes (47 # join_slash ss)) = ss"
  by (simp add: strip_slashes_plain[OF join_plain[OF assms]] split_join assms)

lemma hash_split:
  assumes "35 \<notin> set p"
  shows "takeWhile (\<lambda>c. c \<noteq> 35) (p @ s) = p @ takeWhile (\<lambda>c. c \<noteq> 35) s"
    "dropWhile (\<lambda>c. c \<noteq> 35) (p @ s) = dropWhile (\<lambda>c. c \<noteq> 35) s"
  using assms by (induction p) auto

lemma open_path:
  assumes "35 \<notin> set p"
  shows "open_url p = parse_route p []"
proof -
  have "open_url (p @ []) = parse_route (p @ []) []"
    unfolding open_url_def hash_split[OF assms] by simp
  then show ?thesis by simp
qed

lemma open_fragment:
  "35 \<notin> set p \<Longrightarrow> h \<noteq> [] \<Longrightarrow> open_url (p @ 35 # h) = parse_route p (35 # h)"
  using hash_split[of p "35 # h"] by (simp add: open_url_def)

lemma encoded_chars:
  assumes "list_all scalar s"
  shows "47 \<notin> set (encode_uri_component s)" "35 \<notin> set (encode_uri_component s)"
    "list_ex line_terminator (encode_uri_component s) = False"
proof -
  have safe: "segment_safe c" if "c \<in> set (encode_uri_component s)" for c
    using encode_safe[OF assms] that by (simp add: list_all_iff)
  then show "47 \<notin> set (encode_uri_component s)" "35 \<notin> set (encode_uri_component s)"
    using safe_chars by blast+
  show "list_ex line_terminator (encode_uri_component s) = False"
    using safe by (fastforce simp: list_ex_iff line_terminator_def segment_safe_def unreserved_def)
qed

lemma encode_eq_Nil [simp]:
  "list_all scalar s \<Longrightarrow> encode_uri_component s = [] \<longleftrightarrow> s = []"
  using encode_nonempty by (auto simp: encode_uri_component_def)

lemma hash_value_round:
  assumes "list_all scalar v" and "v \<noteq> []"
  shows "parse_hash_value prefix (prefix @ encode_uri_component v) = Some v"
  using assms by (simp add: parse_hash_value_def encoded_chars(3))

lemma segment_0 [simp]: "segment (s # ss) 0 = Some s"
  by (simp add: segment_def)

lemma segment_Suc [simp]: "segment (s # ss) (Suc i) = segment ss i"
  by (simp add: segment_def)

lemma segment_Nil [simp]: "segment [] i = None"
  by (simp add: segment_def)

lemma segment_1 [simp]: "segment (s # ss) 1 = segment ss 0"
  by (simp add: segment_def)

lemma segment_2 [simp]: "segment (s # t # ss) 2 = segment ss 0"
  by (simp add: segment_def)

section \<open>Line numbers\<close>

lemma decimal_digits: "list_all digit (decimal n) \<and> decimal n \<noteq> []"
proof (induction n rule: decimal.induct)
  case (1 n)
  have "n mod 10 < 10" by simp
  then have "digit (48 + n mod 10)" by (simp add: digit_def)
  moreover have "n < 10 \<Longrightarrow> digit (48 + n)" by (simp add: digit_def)
  ultimately show ?case using 1 decimal.simps[of n] by auto
qed

lemma digits_snoc: "digits_value (ds @ [c]) = digits_value ds * 10 + (c - 48)"
  by (simp add: digits_value_def)

lemma digits_decimal: "digits_value (decimal n) = n"
proof (induction n rule: decimal.induct)
  case (1 n)
  show ?case
  proof (cases "n < 10")
    case True
    then show ?thesis by (subst decimal.simps) (simp add: digits_value_def)
  next
    case False
    then have "digits_value (decimal n) = n div 10 * 10 + n mod 10"
      using 1 by (subst decimal.simps) (simp add: digits_snoc)
    then show ?thesis by simp
  qed
qed

lemma hash_line_round:
  assumes "0 < n" and "n < 2 ^ 53"
  shows "parse_hash_line (codes_of ''#L'' @ decimal n) = Some n"
proof -
  have whole: "takeWhile digit (decimal n) = decimal n"
    using decimal_digits[of n] by (subst takeWhile_eq_all_conv) (simp add: list_all_iff)
  have "nearest_double n = Some n" using assms by (simp add: nearest_double_def)
  then show ?thesis
    using assms(1) decimal_digits[of n]
    unfolding parse_hash_line_def after_prefix_append option.case whole Let_def digits_decimal
    by simp
qed

lemma decimal_no_hash: "35 \<notin> set (decimal n)"
  using decimal_digits[of n] by (auto simp: list_all_iff digit_def)


section \<open>What is written is read back\<close>

definition written :: "codes list \<Rightarrow> bool" where
  "written ss =
     (ss \<noteq> [] \<and> (\<forall>s\<in>set ss. 47 \<notin> set s \<and> 35 \<notin> set s) \<and> hd ss \<noteq> [] \<and> last ss \<noteq> [])"

lemma written_chars: "written ss \<Longrightarrow> 35 \<notin> set (47 # join_slash ss)"
proof -
  assume "written ss"
  moreover have "set (join_slash ss) \<subseteq> {47} \<union> (\<Union>s\<in>set ss. set s)"
    by (induction ss rule: join_slash.induct) auto
  ultimately show ?thesis by (auto simp: written_def)
qed

lemma read_segments:
  assumes "written ss"
  shows "open_url (47 # join_slash ss) = parse_route (47 # join_slash ss) []"
    "h \<noteq> [] \<Longrightarrow> open_url (47 # join_slash ss @ 35 # h) = parse_route (47 # join_slash ss) (35 # h)"
    "split_slash (strip_slashes (47 # join_slash ss)) = ss"
proof -
  show "open_url (47 # join_slash ss) = parse_route (47 # join_slash ss) []"
    by (rule open_path[OF written_chars[OF assms]])
  show "h \<noteq> [] \<Longrightarrow> open_url (47 # join_slash ss @ 35 # h) = parse_route (47 # join_slash ss) (35 # h)"
    using open_fragment[OF written_chars[OF assms]] by simp
  show "split_slash (strip_slashes (47 # join_slash ss)) = ss"
    by (rule path_segments) (use assms in \<open>auto simp: written_def\<close>)
qed

lemma chat_round:
  assumes "list_all scalar i" and "i \<noteq> []"
  shows "open_url (codes_of ''/chat/'' @ encode_uri_component i) = R_chat i"
proof -
  let ?ss = "[codes_of ''chat'', encode_uri_component i]"
  have w: "written ?ss" using assms encoded_chars[OF assms(1)] by (simp add: written_def)
  have "codes_of ''/chat/'' @ encode_uri_component i = 47 # join_slash ?ss" by simp
  with read_segments(1,3)[OF w] assms show ?thesis by (simp add: parse_route_def Let_def)
qed

lemma subagent_round:
  assumes "list_all scalar chat" "chat \<noteq> []" "list_all scalar i" "i \<noteq> []"
  shows "open_url (build_path (R_subagent chat i)) = R_subagent chat i"
proof -
  let ?ss = "[codes_of ''chat'', encode_uri_component chat, codes_of ''subagent'', encode_uri_component i]"
  have w: "written ?ss"
    using assms encoded_chars[OF assms(1)] encoded_chars[OF assms(3)] by (simp add: written_def)
  have "build_path (R_subagent chat i) = 47 # join_slash ?ss" by simp
  with read_segments(1,3)[OF w] assms show ?thesis
    by (simp add: parse_route_def Let_def rest_of_path_def del: build_path.simps)
qed

lemma spec_round:
  assumes "list_all scalar dir" "dir \<noteq> []"
  shows "open_url (build_path (R_spec dir)) = R_spec dir"
proof -
  let ?ss = "[codes_of ''spec'', encode_uri_component dir]"
  have w: "written ?ss" using assms encoded_chars[OF assms(1)] by (simp add: written_def)
  have "build_path (R_spec dir) = 47 # join_slash ?ss" by simp
  with read_segments(1,3)[OF w] assms show ?thesis
    by (simp add: parse_route_def Let_def del: build_path.simps)
qed

lemma run_round:
  assumes "list_all scalar i" "i \<noteq> []" "list_all scalar (nullish node [])" "node \<noteq> Some []"
  shows "open_url (build_path (R_run i node)) = R_run i node"
proof -
  let ?ss = "[codes_of ''run'', encode_uri_component i]"
  have w: "written ?ss" using assms(2) encoded_chars[OF assms(1)] assms(1) by (simp add: written_def)
  show ?thesis
  proof (cases node)
    case None
    have "build_path (R_run i None) = 47 # join_slash ?ss" by simp
    with read_segments(1,3)[OF w] assms None show ?thesis
      by (simp add: parse_route_def Let_def parse_hash_node_def parse_hash_value_def del: build_path.simps)
  next
    case (Some n)
    with assms(3,4) have n: "list_all scalar n" "n \<noteq> []" by auto
    let ?h = "codes_of ''node='' @ encode_uri_component n"
    have "build_path (R_run i node) = 47 # join_slash ?ss @ 35 # ?h"
      using Some n(2) by (cases n) auto
    moreover have "parse_hash_node (35 # ?h) = node"
      using hash_value_round[OF n, where prefix = "codes_of ''#node=''"] Some by (simp add: parse_hash_node_def)
    ultimately show ?thesis
      using read_segments(2)[OF w, of ?h] read_segments(3)[OF w] assms(1,2)
      by (simp add: parse_route_def Let_def del: build_path.simps)
  qed
qed

lemma git_round:
  assumes "list_all scalar (nullish pr [])" "pr = None \<or> (tab = G_prs \<and> pr \<noteq> Some [])"
  shows "open_url (build_path (R_git tab pr)) = R_git tab pr"
proof (cases pr)
  case None
  have "open_url (build_path (R_git t None)) = R_git t None" for t
    by (induct t) code_simp+
  with None show ?thesis by simp
next
  case (Some p)
  with assms have p: "list_all scalar p" "p \<noteq> []" "tab = G_prs" by auto
  let ?ss = "[codes_of ''git'', codes_of ''prs'']"
  let ?h = "codes_of ''pr='' @ encode_uri_component p"
  have w: "written ?ss" by (simp add: written_def)
  have "build_path (R_git tab pr) = 47 # join_slash ?ss @ 35 # ?h"
    using Some p by (cases p) auto
  moreover have "parse_hash_pr (35 # ?h) = pr"
    using hash_value_round[OF p(1,2), where prefix = "codes_of ''#pr=''"] Some by (simp add: parse_hash_pr_def)
  ultimately show ?thesis
    using read_segments(2)[OF w, of ?h] read_segments(3)[OF w] p(3)
    by (simp add: parse_route_def Let_def parse_git_tab_def del: build_path.simps)
qed

section \<open>File paths\<close>

lemma last_split: "s \<noteq> [] \<Longrightarrow> last s \<noteq> 47 \<Longrightarrow> last (split_slash s) \<noteq> []"
proof (induction s)
  case (Cons c s)
  obtain seg segs where split: "split_slash s = seg # segs"
    using split_nonempty by (cases "split_slash s") auto
  with Cons show ?case by (cases "s = []") (auto split: if_splits)
qed simp

lemma written_path:
  assumes "list_all scalar p" "p \<noteq> []" "last p \<noteq> 47"
    and "k \<noteq> []" "47 \<notin> set k" "35 \<notin> set k"
  shows "written (k # map encode_uri_component (split_slash p))"
    "join_slash (k # map encode_uri_component (split_slash p)) = k @ 47 # encode_path p"
proof -
  have s: "list_all scalar s" if "s \<in> set (split_slash p)" for s
    using split_parts[OF that] assms(1) by (auto simp: list_all_iff)
  moreover have "last (split_slash p) \<in> set (split_slash p)" by (simp add: split_nonempty)
  ultimately have "encode_uri_component (last (split_slash p)) \<noteq> []"
    using last_split[OF assms(2,3)] by simp
  then show "written (k # map encode_uri_component (split_slash p))"
    using s assms(4-6) encoded_chars by (auto simp: written_def last_map split_nonempty)
  show "join_slash (k # map encode_uri_component (split_slash p)) = k @ 47 # encode_path p"
    using split_nonempty[of p] by (cases "split_slash p") (auto simp: encode_path_def)
qed

lemma rest_of_encoded:
  "list_all scalar p \<Longrightarrow> rest_of_path (k # map encode_uri_component (split_slash p)) 1 = p"
  using encode_path_decode[of p] by (simp add: rest_of_path_def encode_path_def)

lemma more_segments: "\<not> length (k # map encode_uri_component (split_slash p)) \<le> 1"
  using split_nonempty[of p] by (cases "split_slash p") auto

lemma strip_front_plain: "plain_path s \<Longrightarrow> strip_front s = s \<and> strip_front (47 # s) = s"
  by (cases s) (auto simp: plain_path_def strip_front_def)

lemma rooted_path_iff: "rooted_path p \<longleftrightarrow> (\<exists>q. p = 47 # q \<and> plain_path q)"
  by (cases p) (auto simp: rooted_path_def)

lemma file_round:
  assumes "list_all scalar p" "p \<noteq> []" "last p \<noteq> 47"
    and "case line of None \<Rightarrow> True | Some n \<Rightarrow> 0 < n \<and> n < 2 ^ 53"
  shows "open_url (build_path (R_file p line)) = R_file p line"
proof -
  let ?ss = "codes_of ''file'' # map encode_uri_component (split_slash p)"
  note w = written_path[OF assms(1-3), of "codes_of ''file''"]
  have read: "parse_route (47 # join_slash ?ss) h = R_file p (parse_hash_line h)" for h
    using read_segments(3)[of ?ss] w(1) rest_of_encoded[OF assms(1)] more_segments assms(2)
    unfolding parse_route_def by (simp add: Let_def)
  show ?thesis
  proof (cases line)
    case None
    then have "build_path (R_file p line) = 47 # join_slash ?ss" using w(2) by simp
    with read_segments(1)[of ?ss] w(1) read None show ?thesis
      by (simp add: parse_hash_line_def del: build_path.simps)
  next
    case (Some n)
    let ?h = "codes_of ''L'' @ decimal n"
    have "build_path (R_file p line) = 47 # join_slash ?ss @ 35 # ?h"
      using w(2) Some assms(4) by simp
    moreover have "parse_hash_line (35 # ?h) = line"
      using hash_line_round[of n] Some assms(4) by simp
    ultimately show ?thesis
      using read_segments(2)[of ?ss ?h] w(1) read by (simp del: build_path.simps)
  qed
qed

lemma web_round:
  assumes "list_all scalar p" "rooted_path p"
  shows "open_url (build_path (R_web p)) = R_web p"
proof -
  from assms(2) obtain q where p: "p = 47 # q" "plain_path q" by (auto simp: rooted_path_iff)
  let ?ss = "codes_of ''web'' # map encode_uri_component (split_slash q)"
  have q: "list_all scalar q" "q \<noteq> []" "last q \<noteq> 47"
    using assms(1) p by (auto simp: plain_path_def)
  note w = written_path[OF q, of "codes_of ''web''"]
  have "build_path (R_web p) = 47 # join_slash ?ss"
    using w(2) strip_front_plain[OF p(2)] p(1) by simp
  moreover have "parse_route (47 # join_slash ?ss) [] = R_web p"
    using read_segments(3)[of ?ss] w(1) rest_of_encoded[OF q(1)] strip_front_plain[OF p(2)] q(2) p(1)
    unfolding parse_route_def by (simp add: Let_def)
  ultimately show ?thesis using read_segments(1)[of ?ss] w(1) by (simp del: build_path.simps)
qed

lemma files_round:
  assumes "list_all scalar p" "p = [47] \<or> (rooted_path p \<and> tl p \<noteq> [46])"
  shows "open_url (build_path (R_files p)) = R_files p"
proof (cases "p = [47]")
  case True
  have "open_url (build_path (R_files [47])) = R_files [47]" by code_simp
  with True show ?thesis by simp
next
  case False
  with assms(2) have rooted: "rooted_path p" and dot: "tl p \<noteq> [46]" by simp_all
  from rooted obtain q where "p = 47 # q" "plain_path q" unfolding rooted_path_iff by blast
  with dot have p: "p = 47 # q" "plain_path q" "q \<noteq> [46]" by simp_all
  let ?ss = "codes_of ''files'' # map encode_uri_component (split_slash q)"
  have q: "list_all scalar q" "q \<noteq> []" "last q \<noteq> 47"
    using assms(1) p by (auto simp: plain_path_def)
  note w = written_path[OF q, of "codes_of ''files''"]
  have "build_path (R_files p) = 47 # join_slash ?ss"
    using w(2) strip_front_plain[OF p(2)] p(1) q(2) by simp
  moreover have "parse_route (47 # join_slash ?ss) [] = R_files p"
    using read_segments(3)[of ?ss] w(1) rest_of_encoded[OF q(1)] strip_front_plain[OF p(2)] q(2) p(1,3)
      more_segments[of "codes_of ''files''" q]
    unfolding parse_route_def by (simp add: Let_def)
  ultimately show ?thesis using read_segments(1)[of ?ss] w(1) by (simp del: build_path.simps)
qed

section \<open>What is read is canonical\<close>

lemma take_percent_scalars:
  "take_percent s = Some (b, rest) \<Longrightarrow> list_all scalar s \<Longrightarrow> list_all scalar rest"
  by (cases s rule: take_percent.cases) (auto split: if_splits option.splits)

lemma take_tail_scalars:
  "take_tail n s = Some (bs, rest) \<Longrightarrow> list_all scalar s
   \<Longrightarrow> list_all scalar rest \<and> length bs = n \<and> (\<forall>b\<in>set bs. continuation b)"
  by (induction n arbitrary: s bs)
     (auto split: option.splits if_splits dest: take_percent_scalars, (fastforce dest: take_percent_scalars)+)

lemma utf8_value_scalar:
  assumes "utf8_value (b # bs) = Some v" "tail_count b = Some (length bs)" "\<forall>x\<in>set bs. continuation x"
  shows "scalar v"
  using assms
  by (cases "b # bs" rule: utf8_value.cases)
     (auto simp: Let_def scalar_def tail_count_def continuation_def split: if_splits)

lemma take_sequence_scalars:
  "take_sequence s = Some (v, rest) \<Longrightarrow> list_all scalar s \<Longrightarrow> scalar v \<and> list_all scalar rest"
  by (auto simp: take_sequence_def split: option.splits dest!: take_percent_scalars take_tail_scalars
      intro: utf8_value_scalar)

lemma decode_scalars:
  "decode_uri_component s = Some t \<Longrightarrow> list_all scalar s \<Longrightarrow> list_all scalar t"
  by (induction s arbitrary: t rule: decode_uri_component.induct)
     (auto split: if_splits option.splits dest: take_sequence_scalars)

lemma safe_decode_scalars: "list_all scalar s \<Longrightarrow> list_all scalar (safe_decode s)"
  by (cases "decode_uri_component s") (auto simp: safe_decode_def dest: decode_scalars)

lemma split_scalars: "list_all scalar s \<Longrightarrow> x \<in> set (split_slash s) \<Longrightarrow> list_all scalar x"
  using split_parts by (fastforce simp: list_all_iff)

lemma join_scalars: "\<forall>s\<in>set ss. list_all scalar s \<Longrightarrow> list_all scalar (join_slash ss)"
  by (induction ss rule: join_slash.induct) (auto simp: scalar_def)

lemma strip_scalars:
  assumes "list_all scalar s"
  shows "list_all scalar (strip_slashes s)" "list_all scalar (strip_front s)"
  using assms by (auto simp: list_all_iff strip_slashes_def strip_front_def dest!: set_dropWhileD)

lemma after_prefix_scalars: "after_prefix p s = Some r \<Longrightarrow> list_all scalar s \<Longrightarrow> list_all scalar r"
  by (auto simp: after_prefix_Some)

lemma hash_value_scalars:
  assumes "list_all scalar h"
  shows "list_all scalar (nullish (parse_hash_value prefix h) [])" "parse_hash_value prefix h \<noteq> Some []"
  using assms
  by (auto simp: parse_hash_value_def Let_def safe_decode_scalars after_prefix_scalars split: option.splits)

lemma strip_front_root: "strip_front s \<noteq> [] \<Longrightarrow> last s \<noteq> 47 \<Longrightarrow> plain_path (strip_front s)"
  unfolding strip_front_def
  by (induction s) (auto simp: plain_path_def split: if_splits)

lemma strip_front_last: "strip_front s \<noteq> [] \<Longrightarrow> last (strip_front s) = last s"
  unfolding strip_front_def by (induction s) (auto split: if_splits)

text \<open>A file path ends in a slash only where the URL escaped it: \<open>parseRoute\<close> strips the others.\<close>

fun escaped_slash :: "route \<Rightarrow> bool" where
  "escaped_slash (R_files p) = (p \<noteq> [47] \<and> last p = 47)"
| "escaped_slash (R_web p) = (last p = 47)"
| "escaped_slash (R_file p line) = (last p = 47)"
| "escaped_slash _ = False"

text \<open>Every value \<open>parse_route\<close> can return.\<close>

lemma parse_route_elim:
  assumes empty: "P (R_chat [])"
    and git: "\<And>tab. P (R_git tab (if tab = G_prs then parse_hash_pr hash else None))"
    and history: "P (R_history None)" "P (R_history (Some H_runs))"
    and docs: "\<And>tab. P (R_docs tab)"
    and settings: "\<And>tab. P (R_settings tab)"
    and run: "\<And>i. i \<noteq> [] \<Longrightarrow> i = safe_decode (nullish (segment ss 1) []) \<Longrightarrow> P (R_run i (parse_hash_node hash))"
    and spec: "\<And>i. i \<noteq> [] \<Longrightarrow> i = safe_decode (nullish (segment ss 1) []) \<Longrightarrow> P (R_spec i)"
    and chat: "\<And>i. i \<noteq> [] \<Longrightarrow> i = safe_decode (nullish (segment ss 1) []) \<Longrightarrow> P (R_chat i)"
    and subagent: "\<And>i j. i \<noteq> [] \<Longrightarrow> i = safe_decode (nullish (segment ss 1) []) \<Longrightarrow> j \<noteq> []
          \<Longrightarrow> j = rest_of_path ss 3 \<Longrightarrow> P (R_subagent i j)"
    and files: "P (R_files [47])"
      "\<And>p. p = strip_front (rest_of_path ss 1) \<Longrightarrow> p \<noteq> [] \<Longrightarrow> p \<noteq> [46] \<Longrightarrow> P (R_files (47 # p))"
    and web: "\<And>p. p = strip_front (rest_of_path ss 1) \<Longrightarrow> p \<noteq> [] \<Longrightarrow> P (R_web (47 # p))"
    and document: "\<And>p. p = rest_of_path ss 1 \<Longrightarrow> p \<noteq> [] \<Longrightarrow> P (R_file p (parse_hash_line hash))"
    and ss: "ss = split_slash (strip_slashes pathname)"
  shows "P (parse_route pathname hash)"
proof -
  have tab: "t \<noteq> H_chats \<Longrightarrow> P (R_history (Some t))" for t using history(2) by (cases t) auto
  have choose: "(c \<Longrightarrow> P x) \<Longrightarrow> (\<not> c \<Longrightarrow> P y) \<Longrightarrow> P (if c then x else y)" for c x y by simp
  show ?thesis
    unfolding parse_route_def Let_def ss[symmetric]
    by (intro choose) (use empty git history docs settings run spec chat subagent files web document tab in
      \<open>auto simp del: codes_of_simps One_nat_def\<close>)
qed

lemma canonical_parse:
  assumes "\<forall>n. parse_hash_line hash = Some n \<longrightarrow> n < 2 ^ 53"
    and "list_all scalar hash"
  shows "canonical (parse_route pathname hash) \<or> escaped_slash (parse_route pathname hash)"
proof (rule parse_route_elim[OF _ _ _ _ _ _ _ _ _ _ _ _ _ _ refl])
  fix p
  assume "p = rest_of_path (split_slash (strip_slashes pathname)) 1" "p \<noteq> []"
  moreover have "case parse_hash_line hash of None \<Rightarrow> True | Some n \<Rightarrow> 0 < n \<and> n < 2 ^ 53"
    using assms(1) by (auto simp: parse_hash_line_def Let_def split: option.splits if_splits)
  ultimately show "canonical (R_file p (parse_hash_line hash)) \<or> escaped_slash (R_file p (parse_hash_line hash))"
    by simp
qed (use hash_value_scalars(2)[OF assms(2)] strip_front_root strip_front_last in
    \<open>auto simp: parse_hash_pr_def parse_hash_node_def rooted_path_def\<close>)

lemma scalars_parse:
  assumes "list_all scalar pathname" "list_all scalar hash"
  shows "route_scalars (parse_route pathname hash)"
proof -
  let ?ss = "split_slash (strip_slashes pathname)"
  have ss: "\<forall>s\<in>set ?ss. list_all scalar s" using split_scalars strip_scalars(1)[OF assms(1)] by blast
  then have rest: "list_all scalar (rest_of_path ?ss k)" for k
    unfolding rest_of_path_def by (intro safe_decode_scalars join_scalars) (auto dest: in_set_dropD)
  have seg: "list_all scalar (safe_decode (nullish (segment ?ss k) []))" for k
    using ss by (cases "segment ?ss k") (auto simp: segment_def safe_decode_scalars split: if_splits)
  have hash: "list_all scalar (nullish (parse_hash_pr hash) [])" "list_all scalar (nullish (parse_hash_node hash) [])"
    using hash_value_scalars(1)[OF assms(2)] by (simp_all add: parse_hash_pr_def parse_hash_node_def)
  have slash: "scalar 47" by (simp add: scalar_def)
  show ?thesis
    by (rule parse_route_elim[OF _ _ _ _ _ _ _ _ _ _ _ _ _ _ refl])
       (use rest seg hash strip_scalars(2)[OF rest] slash in auto)
qed

section \<open>The properties\<close>

lemma canonical_round:
  assumes "canonical r" and "route_scalars r"
  shows "open_url (build_path r) = r"
proof (cases r)
  case (R_chat i)
  have "open_url (codes_of ''/'') = R_chat []" by code_simp
  with R_chat assms(2) chat_round[of i] show ?thesis by simp
next
  case (R_history tab)
  have "open_url (build_path (R_history None)) = R_history None"
    "open_url (build_path (R_history (Some H_runs))) = R_history (Some H_runs)" by code_simp+
  with R_history assms(1) show ?thesis by (cases tab; cases "the tab"; simp)
next
  case (R_docs tab)
  have "open_url (build_path (R_docs t)) = R_docs t" for t by (induct t) code_simp+
  with R_docs show ?thesis by simp
next
  case (R_settings tab)
  have "open_url (build_path (R_settings t)) = R_settings t" for t by (induct t) code_simp+
  with R_settings show ?thesis by simp
qed (use assms git_round files_round web_round file_round run_round subagent_round spec_round in
  \<open>simp_all del: build_path.simps\<close>)

section \<open>The properties\<close>

text \<open>
  C21. \<open>buildPath\<close> and \<open>parseRoute\<close> are inverse: the URL written for a canonical route, opened, is that route.
  Ids, directories, pull-request identities, node paths and file paths are any Unicode strings, slashes,
  hashes and percent signs included.
\<close>

theorem route_reads_back:
  assumes "canonical r" and "route_scalars r"
  shows "open_url (build_path r) = r"
  by (rule canonical_round[OF assms])

theorem route_reads_back_witness:
  "open_url (build_path (R_file [97, 47, 35, 233, 98] (Some 12))) = R_file [97, 47, 35, 233, 98] (Some 12)
   \<and> open_url (build_path (R_git G_prs (Some [103, 58, 47, 114, 35, 55])))
       = R_git G_prs (Some [103, 58, 47, 114, 35, 55])"
  by (intro conjI route_reads_back) (simp_all add: scalar_def)

text \<open>
  Reading settles a URL: the route parsed from any location, whatever was typed or pasted into it, is
  written as a URL that is read back as the same route, so a page that rewrites its own location does
  not drift. The one exception is a file path ending in a slash that the URL had escaped.
\<close>

theorem reading_settles:
  assumes "list_all scalar pathname" and "list_all scalar hash"
    and "\<forall>n. parse_hash_line hash = Some n \<longrightarrow> n < 2 ^ 53"
    and "\<not> escaped_slash (parse_route pathname hash)"
  shows "open_url (build_path (parse_route pathname hash)) = parse_route pathname hash"
proof -
  have "canonical (parse_route pathname hash)"
    using canonical_parse[OF assms(3,2)] assms(4) by blast
  from canonical_round[OF this scalars_parse[OF assms(1,2)]] show ?thesis .
qed

theorem reading_settles_witness:
  "open_url (build_path (parse_route (codes_of ''/files//a%2Fb%zz/'') (codes_of ''#L7'')))
     = parse_route (codes_of ''/files//a%2Fb%zz/'') (codes_of ''#L7'')
   \<and> parse_route (codes_of ''/files//a%2Fb%zz/'') (codes_of ''#L7'') = R_files (codes_of ''/a%2Fb%zz'')"
proof -
  have parsed: "parse_route (codes_of ''/files//a%2Fb%zz/'') (codes_of ''#L7'') = R_files (codes_of ''/a%2Fb%zz'')"
    by (simp add: parse_route_def strip_slashes_def rest_of_path_def join_slash.simps safe_decode_def
        take_sequence_def hex_value_def tail_count_def strip_front_def Let_def)
  moreover have "\<not> escaped_slash (R_files (codes_of ''/a%2Fb%zz''))" by code_simp
  moreover have "list_all scalar (codes_of ''/files//a%2Fb%zz/'')" "list_all scalar (codes_of ''#L7'')"
    by (simp_all add: scalar_def)
  moreover have "parse_hash_line (codes_of ''#L7'') = Some 7"
    by (simp add: parse_hash_line_def digit_def digits_value_def nearest_double_def Let_def)
  ultimately show ?thesis
    using reading_settles[of "codes_of ''/files//a%2Fb%zz/''" "codes_of ''#L7''"] by simp
qed

end
