(* ===== verification/PushSubject.thy ===== *)
theory PushSubject
  imports RouteFacts
begin

text \<open>
  \<open>push-subject.ts\<close>: what a notification is about. \<open>PushTarget\<close> is the datatype \<open>push_target\<close>; the
  wire pair (\<open>chatId\<close>, \<open>subject\<close>) is parsed into it, and the target gives both the destination route and
  the tray tag. The facts show that parsing makes only addressable targets, that the URL the worker
  writes for one opens the route the page makes of it, and that two targets share a tray slot only
  when they are the same.
\<close>

datatype push_target = T_chat codes | T_pr codes | T_run codes | T_workspace

definition pr_subject_prefix :: codes where
  "pr_subject_prefix = codes_of ''pr:''"

definition run_subject_prefix :: codes where
  "run_subject_prefix = codes_of ''run:''"

definition run_target :: "codes \<Rightarrow> push_target" where
  "run_target workflow = (if workflow = [] then T_workspace else T_run workflow)"

definition chat_target :: "codes \<Rightarrow> push_target" where
  "chat_target chat =
     (case after_prefix run_subject_prefix chat of
        Some workflow \<Rightarrow> run_target workflow
      | None \<Rightarrow> if chat = [] then T_workspace else T_chat chat)"

definition ask_target :: "codes \<Rightarrow> codes option \<Rightarrow> push_target" where
  "ask_target chat run =
     (case run of
        Some (c # r) \<Rightarrow> run_target (c # r)
      | _ \<Rightarrow> chat_target chat)"

definition parse_push_target :: "codes \<Rightarrow> codes \<Rightarrow> push_target" where
  "parse_push_target chat subject =
     (case after_prefix pr_subject_prefix subject of
        Some identity \<Rightarrow> if identity = [] then T_workspace else T_pr identity
      | None \<Rightarrow>
          (case after_prefix run_subject_prefix subject of
             Some workflow \<Rightarrow> run_target workflow
           | None \<Rightarrow> chat_target chat))"

fun push_target_route :: "push_target \<Rightarrow> route" where
  "push_target_route (T_chat chat) = R_chat chat"
| "push_target_route (T_pr identity) = R_git G_prs (Some identity)"
| "push_target_route (T_run workflow) = R_run workflow None"
| "push_target_route T_workspace = R_chat []"

fun push_target_tag :: "push_target \<Rightarrow> codes" where
  "push_target_tag (T_chat chat) = codes_of ''marotte:'' @ chat"
| "push_target_tag (T_pr identity) = codes_of ''marotte:'' @ pr_subject_prefix @ identity"
| "push_target_tag (T_run workflow) = codes_of ''marotte:'' @ run_subject_prefix @ workflow"
| "push_target_tag T_workspace = codes_of ''marotte''"

definition settleable_tag :: "codes \<Rightarrow> bool" where
  "settleable_tag tag =
     (after_prefix (codes_of ''marotte:'') tag \<noteq> None
      \<and> after_prefix (codes_of ''marotte:'' @ pr_subject_prefix) tag = None)"

definition pr_identity :: "codes \<Rightarrow> codes \<Rightarrow> nat \<Rightarrow> codes" where
  "pr_identity forge repo number = forge @ codes_of '':'' @ repo @ codes_of ''#'' @ decimal number"

section \<open>The targets parsing makes\<close>

fun addressable :: "push_target \<Rightarrow> bool" where
  "addressable (T_chat chat) = (chat \<noteq> [] \<and> after_prefix run_subject_prefix chat = None)"
| "addressable (T_pr identity) = (identity \<noteq> [])"
| "addressable (T_run workflow) = (workflow \<noteq> [])"
| "addressable T_workspace = True"

lemma addressable_run [simp]: "addressable (run_target workflow)"
  by (simp add: run_target_def)

lemma addressable_chat [simp]: "addressable (chat_target chat)"
  by (simp add: chat_target_def split: option.split)

lemma addressable_ask: "addressable (ask_target chat run)"
  by (simp add: ask_target_def split: option.split list.split)

lemma addressable_parse: "addressable (parse_push_target chat subject)"
  by (simp add: parse_push_target_def split: option.split)

fun target_scalars :: "push_target \<Rightarrow> bool" where
  "target_scalars (T_chat chat) = list_all scalar chat"
| "target_scalars (T_pr identity) = list_all scalar identity"
| "target_scalars (T_run workflow) = list_all scalar workflow"
| "target_scalars T_workspace = True"

lemma run_scalars: "list_all scalar workflow \<Longrightarrow> target_scalars (run_target workflow)"
  by (simp add: run_target_def)

lemma chat_scalars: "list_all scalar chat \<Longrightarrow> target_scalars (chat_target chat)"
  by (auto simp: chat_target_def run_scalars dest: after_prefix_scalars split: option.split)

lemma parse_scalars:
  "list_all scalar chat \<Longrightarrow> list_all scalar subject \<Longrightarrow> target_scalars (parse_push_target chat subject)"
  by (auto simp: parse_push_target_def run_scalars chat_scalars dest: after_prefix_scalars split: option.split)

lemma addressable_canonical:
  "addressable target \<Longrightarrow> target_scalars target
   \<Longrightarrow> canonical (push_target_route target) \<and> route_scalars (push_target_route target)"
  by (cases target) auto

text \<open>A chat whose id spells a pull request's subject would take that pull request's tray slot.\<close>

fun names_a_pull_request :: "push_target \<Rightarrow> bool" where
  "names_a_pull_request (T_chat chat) = (after_prefix pr_subject_prefix chat \<noteq> None)"
| "names_a_pull_request _ = False"

lemma tag_settles:
  "addressable target \<Longrightarrow> \<not> names_a_pull_request target
   \<Longrightarrow> settleable_tag (push_target_tag target) = (case target of
         T_chat _ \<Rightarrow> True | T_run _ \<Rightarrow> True | T_pr _ \<Rightarrow> False | T_workspace \<Rightarrow> False)"
  by (cases target) (auto simp: settleable_tag_def pr_subject_prefix_def run_subject_prefix_def
      split: if_splits)

lemma tag_injective:
  assumes "addressable a" "addressable b" "\<not> names_a_pull_request a" "\<not> names_a_pull_request b"
    and "push_target_tag a = push_target_tag b"
  shows "a = b"
  using assms
  by (cases a; cases b) (auto simp: pr_subject_prefix_def run_subject_prefix_def split: if_splits)

text \<open>
  A push opens the place it is about: for every notification, the URL the service worker writes for
  its subject is read by the page as the route that subject has. A pull request's or a run's subject
  wins over the envelope's chat, and a subject with nothing after its prefix leads to the workspace.
\<close>

theorem push_opens_its_subject:
  assumes "list_all scalar chat" and "list_all scalar subject"
  shows "open_url (build_path (push_target_route (parse_push_target chat subject)))
       = push_target_route (parse_push_target chat subject)
     \<and> parse_push_target chat (codes_of ''pr:'' @ c # identity) = T_pr (c # identity)
     \<and> parse_push_target chat (codes_of ''run:'' @ c # workflow) = T_run (c # workflow)
     \<and> parse_push_target chat (codes_of ''pr:'') = T_workspace
     \<and> parse_push_target chat (codes_of ''run:'') = T_workspace"
  using canonical_round addressable_canonical[OF addressable_parse parse_scalars[OF assms]]
  by (simp add: parse_push_target_def pr_subject_prefix_def run_subject_prefix_def run_target_def)

theorem push_opens_its_subject_witness:
  "open_url (build_path (push_target_route (parse_push_target [99] (codes_of ''pr:gh:o/r#7''))))
     = R_git G_prs (Some (codes_of ''gh:o/r#7''))"
  using push_opens_its_subject[of "[99]" "codes_of ''pr:gh:o/r#7''"]
  by (simp add: scalar_def parse_push_target_def pr_subject_prefix_def)

text \<open>
  One tray slot per subject: two targets made from notifications or asks have the same tag only when
  they are the same target, so no banner replaces another subject's, and the tags a pending set may
  settle are exactly those of chats and runs. Chat ids that spell a pull request's subject are
  excluded; the server mints none.
\<close>

theorem one_slot_per_subject:
  assumes "a \<in> {parse_push_target chat subject, ask_target chat' run}"
    and "b \<in> {parse_push_target chat2 subject2, ask_target chat2' run2}"
    and "\<not> names_a_pull_request a" and "\<not> names_a_pull_request b"
  shows "(push_target_tag a = push_target_tag b) = (a = b)
     \<and> settleable_tag (push_target_tag a) = (case a of
         T_chat _ \<Rightarrow> True | T_run _ \<Rightarrow> True | T_pr _ \<Rightarrow> False | T_workspace \<Rightarrow> False)"
proof -
  have "addressable a" "addressable b" using assms(1,2) addressable_parse addressable_ask by auto
  then show ?thesis using tag_injective tag_settles assms(3,4) by blast
qed

theorem one_slot_per_subject_witness:
  "push_target_tag (ask_target [99] (Some [119])) \<noteq> push_target_tag (ask_target [99] None)
   \<and> settleable_tag (push_target_tag (ask_target [99] None))"
proof -
  have targets: "ask_target [99] (Some [119]) = T_run [119]" "ask_target [99] None = T_chat [99]"
    by (simp_all add: ask_target_def run_target_def chat_target_def run_subject_prefix_def)
  from one_slot_per_subject[of "ask_target [99] None" "[]" "[]" "[99]" None
      "ask_target [99] (Some [119])" "[]" "[]" "[99]" "Some [119]"]
  show ?thesis by (simp add: targets pr_subject_prefix_def)
qed

end
