(* ===== verification/FoldState.thy ===== *)
theory FoldState
  imports Turns
begin

text \<open>
  \<open>per-chat-store.ts\<close> and \<open>fold-state.ts\<close>: which turns are open. \<open>fold_state\<close> is the module's state
  (\<open>overrides\<close>, \<open>searchOpened\<close>, \<open>loaded\<close>) with the one \<open>localStorage\<close> value it keeps; a stored value is a
  JSON tree, \<open>None\<close> where the key is absent or its text does not parse. A write that storage refuses
  (quota, disabled) is the argument \<open>writable\<close>. Object keys keep insertion order, as JavaScript keeps
  keys that are not array indices, which chat and turn ids are not.

  \<open>entry_codec\<close> is the contract of \<open>readPerChat\<close>: a validator that accepts what the writer encodes.
\<close>

section \<open>A map per chat, bounded by chats\<close>

datatype json = J_bool bool | J_object "(string \<times> json) list" | J_other

definition max_chats :: nat where
  "max_chats = 100"

fun read_entries :: "(json \<Rightarrow> 'a option) \<Rightarrow> (string \<times> json) list \<Rightarrow> (string \<times> 'a) list \<Rightarrow> (string \<times> 'a) list" where
  "read_entries valid [] out = out"
| "read_entries valid ((chat, v) # rest) out =
     (if chat = '''' then read_entries valid rest out
      else case valid v of
             Some ok \<Rightarrow> read_entries valid rest (AList.update chat ok out)
           | None \<Rightarrow> read_entries valid rest out)"

definition read_per_chat :: "json option \<Rightarrow> (json \<Rightarrow> 'a option) \<Rightarrow> (string \<times> 'a) list" where
  "read_per_chat raw valid =
     (case raw of
        Some (J_object entries) \<Rightarrow> read_entries valid entries []
      | _ \<Rightarrow> [])"

text \<open>The document written, \<open>None\<close> where the call returns before it.\<close>

definition write_per_chat :: "(string \<times> 'a) list \<Rightarrow> string \<Rightarrow> 'a option \<Rightarrow> (string \<times> 'a) list option" where
  "write_per_chat doc chat value =
     (if chat = '''' then None
      else let kept = filter (\<lambda>(c, _). c \<noteq> chat) doc
                      @ (case value of Some v \<Rightarrow> [(chat, v)] | None \<Rightarrow> [])
           in Some (drop (length kept - max_chats) kept))"

definition to_json :: "('a \<Rightarrow> json) \<Rightarrow> (string \<times> 'a) list \<Rightarrow> json" where
  "to_json enc doc = J_object (map (\<lambda>(c, v). (c, enc v)) doc)"

section \<open>Fold state\<close>

type_synonym fold_overrides = "(string \<times> bool) list"

record fold_state =
  fs_overrides :: "(string \<times> fold_overrides) list"
  fs_search :: "(string \<times> string list) list"
  fs_loaded :: bool
  fs_storage :: "json option"

definition fold_state_empty :: fold_state where
  "fold_state_empty = \<lparr>fs_overrides = [], fs_search = [], fs_loaded = False, fs_storage = None\<rparr>"

definition open_tail :: nat where
  "open_tail = 1"

fun valid_turns :: "(string \<times> json) list \<Rightarrow> fold_overrides \<Rightarrow> fold_overrides" where
  "valid_turns [] out = out"
| "valid_turns ((turn, v) # rest) out =
     (case v of
        J_bool b \<Rightarrow> valid_turns rest (if turn \<noteq> '''' then AList.update turn b out else out)
      | _ \<Rightarrow> valid_turns rest out)"

definition valid_overrides :: "json \<Rightarrow> fold_overrides option" where
  "valid_overrides v =
     (case v of
        J_object entries \<Rightarrow> (let out = valid_turns entries [] in if out \<noteq> [] then Some out else None)
      | _ \<Rightarrow> None)"

definition load_folds :: "fold_state \<Rightarrow> fold_state" where
  "load_folds st =
     (if fs_loaded st then st
      else st\<lparr>fs_loaded := True,
              fs_overrides := fold (\<lambda>(c, by_turn). AList.update c by_turn)
                                (read_per_chat (fs_storage st) valid_overrides) (fs_overrides st)\<rparr>)"

definition folds_json :: "(string \<times> fold_overrides) list \<Rightarrow> json" where
  "folds_json doc = to_json (to_json J_bool) doc"

definition persist_folds :: "bool \<Rightarrow> string \<Rightarrow> fold_state \<Rightarrow> fold_state" where
  "persist_folds writable chat st =
     (let value = (case map_of (fs_overrides st) chat of
                     Some by_turn \<Rightarrow> if by_turn \<noteq> [] then Some by_turn else None
                   | None \<Rightarrow> None)
      in case write_per_chat (fs_overrides st) chat value of
           Some doc \<Rightarrow> if writable then st\<lparr>fs_storage := Some (folds_json doc)\<rparr> else st
         | None \<Rightarrow> st)"

definition explicit_fold :: "fold_state \<Rightarrow> string \<Rightarrow> string \<Rightarrow> bool option" where
  "explicit_fold st chat turn = map_of (nullish (map_of (fs_overrides st) chat) []) turn"

definition search_opened :: "fold_state \<Rightarrow> string \<Rightarrow> string \<Rightarrow> bool" where
  "search_opened st chat turn = (turn \<in> set (nullish (map_of (fs_search st) chat) []))"

text \<open>The answer with the state \<open>load\<close> leaves.\<close>

definition is_turn_open :: "fold_state \<Rightarrow> string \<Rightarrow> turn \<Rightarrow> int \<Rightarrow> int \<Rightarrow> bool \<times> fold_state" where
  "is_turn_open st0 chat t index count =
     (let st = load_folds st0 in
      (if t_outcome t = O_running then True
       else if count - int open_tail \<le> index then True
       else case explicit_fold st chat (t_id t) of
              Some explicit \<Rightarrow> explicit
            | None \<Rightarrow>
                if search_opened st chat (t_id t) then True
                else severity_of (Some (t_outcome t)) = Sev_broken,
       st))"

definition fold_set_turn_open :: "bool \<Rightarrow> string \<Rightarrow> string \<Rightarrow> bool \<Rightarrow> fold_state \<Rightarrow> fold_state" where
  "fold_set_turn_open writable chat turn opened st0 =
     (let st = load_folds st0;
          by_turn = nullish (map_of (fs_overrides st) chat) []
      in persist_folds writable chat
           (st\<lparr>fs_overrides := AList.update chat (AList.update turn opened by_turn) (fs_overrides st)\<rparr>))"

definition is_turn_revealed :: "fold_state \<Rightarrow> string \<Rightarrow> string \<Rightarrow> bool \<times> fold_state" where
  "is_turn_revealed st0 chat turn =
     (let st = load_folds st0
      in (explicit_fold st chat turn = Some True \<or> search_opened st chat turn, st))"

definition open_for_search :: "string \<Rightarrow> string \<Rightarrow> fold_state \<Rightarrow> fold_state" where
  "open_for_search chat turn st =
     (let opened = nullish (map_of (fs_search st) chat) []
      in st\<lparr>fs_search := AList.update chat (List.insert turn opened) (fs_search st)\<rparr>)"

definition clear_search_opened :: "string \<Rightarrow> fold_state \<Rightarrow> bool \<times> fold_state" where
  "clear_search_opened chat st =
     (if nullish (map_of (fs_search st) chat) [] = [] then (False, st)
      else (True, st\<lparr>fs_search := AList.delete chat (fs_search st)\<rparr>))"

definition reset_fold_state :: "fold_state \<Rightarrow> fold_state" where
  "reset_fold_state st = st\<lparr>fs_overrides := [], fs_search := [], fs_loaded := False\<rparr>"

section \<open>What is read back\<close>

locale entry_codec =
  fixes enc :: "'a \<Rightarrow> json" and valid :: "json \<Rightarrow> 'a option" and good :: "'a \<Rightarrow> bool"
  assumes accepts: "good v \<Longrightarrow> valid (enc v) = Some v"
begin

lemma read_entries_written:
  "\<forall>(c, v)\<in>set doc. c \<noteq> '''' \<and> good v \<Longrightarrow> distinct (map fst (out @ doc))
   \<Longrightarrow> read_entries valid (map (\<lambda>(c, v). (c, enc v)) doc) out = out @ doc"
proof (induction doc arbitrary: out)
  case (Cons e doc)
  obtain c v where e: "e = (c, v)" by (cases e)
  have "AList.update c v out = out @ [(c, v)]"
    using Cons.prems(2) e by (induction out) auto
  with Cons e show ?case by (simp add: accepts)
qed simp

lemma read_written:
  assumes "\<forall>(c, v)\<in>set doc. c \<noteq> '''' \<and> good v" and "distinct (map fst doc)"
  shows "read_per_chat (Some (to_json enc doc)) valid = doc"
  using read_entries_written[of doc "[]"] assms by (simp add: read_per_chat_def to_json_def)

end

text \<open>A chat's overrides are stored as they are: boolean entries under non-empty turn ids.\<close>

definition storable :: "fold_overrides \<Rightarrow> bool" where
  "storable by_turn = (by_turn \<noteq> [] \<and> (\<forall>(t, _)\<in>set by_turn. t \<noteq> '''') \<and> distinct (map fst by_turn))"

lemma valid_turns_written:
  "\<forall>(t, _)\<in>set by_turn. t \<noteq> '''' \<Longrightarrow> distinct (map fst (out @ by_turn))
   \<Longrightarrow> valid_turns (map (\<lambda>(t, b). (t, J_bool b)) by_turn) out = out @ by_turn"
proof (induction by_turn arbitrary: out)
  case (Cons e by_turn)
  obtain t b where e: "e = (t, b)" by (cases e)
  have "AList.update t b out = out @ [(t, b)]"
    using Cons.prems(2) e by (induction out) auto
  with Cons e show ?case by simp
qed simp

interpretation folds: entry_codec "to_json J_bool" valid_overrides storable
proof
  fix by_turn
  assume "storable by_turn"
  then show "valid_overrides (to_json J_bool by_turn) = Some by_turn"
    using valid_turns_written[of by_turn "[]"] by (simp add: storable_def valid_overrides_def to_json_def)
qed

end
