(* ===== verification/FoldFacts.thy ===== *)
theory FoldFacts
  imports FoldState
begin

text \<open>
  \<open>fold-state.ts\<close>: what the reader chose is what a reload shows, a search leaves no fold behind, and
  the bound on stored chats does not evict in the order its comment states.
\<close>

section \<open>Well-formed folds\<close>

definition fold_inv :: "fold_state \<Rightarrow> bool" where
  "fold_inv st =
     (distinct (map fst (fs_overrides st))
      \<and> (\<forall>(c, by_turn)\<in>set (fs_overrides st). c \<noteq> '''' \<and> storable by_turn))"

lemma update_keys: "set (AList.update k v al) \<subseteq> insert (k, v) (set al)"
  by (induction al) auto

lemma fold_inv_update:
  assumes "fold_inv st" and "c \<noteq> ''''" and "storable by_turn"
  shows "fold_inv (st\<lparr>fs_overrides := AList.update c by_turn (fs_overrides st)\<rparr>)"
  using assms update_keys[of c by_turn "fs_overrides st"]
  by (auto simp: fold_inv_def distinct_update)

lemma storable_update:
  assumes "turn \<noteq> ''''" and "distinct (map fst by_turn)" and "\<forall>(t, _)\<in>set by_turn. t \<noteq> ''''"
  shows "storable (AList.update turn b by_turn)"
proof -
  have "AList.update turn b by_turn \<noteq> []" by (cases by_turn) auto
  then show ?thesis
    using assms update_keys[of turn b by_turn] by (auto simp: storable_def distinct_update)
qed

definition turn_keys :: "fold_overrides \<Rightarrow> bool" where
  "turn_keys out = (distinct (map fst out) \<and> (\<forall>(t, _)\<in>set out. t \<noteq> ''''))"

lemma turn_keys_update: "turn_keys out \<Longrightarrow> turn \<noteq> '''' \<Longrightarrow> turn_keys (AList.update turn b out)"
  using update_keys[of turn b out] by (auto simp: turn_keys_def distinct_update)

lemma valid_turns_keys: "turn_keys out \<Longrightarrow> turn_keys (valid_turns es out)"
  by (induction es out rule: valid_turns.induct)
     (auto simp: turn_keys_update split: json.split)

lemma valid_overrides_storable: "valid_overrides v = Some by_turn \<Longrightarrow> storable by_turn"
  using valid_turns_keys[of "[]"]
  by (auto simp: valid_overrides_def storable_def turn_keys_def Let_def split: json.splits if_splits)

lemma read_entries_storable:
  "\<forall>(c, by_turn)\<in>set out. c \<noteq> '''' \<and> storable by_turn
   \<Longrightarrow> \<forall>(c, by_turn)\<in>set (read_entries valid_overrides es out). c \<noteq> '''' \<and> storable by_turn"
proof (induction valid_overrides es out rule: read_entries.induct)
  case (2 chat v rest out)
  show ?case
  proof (cases "chat = '''' \<or> valid_overrides v = None")
    case False
    then obtain by_turn where v: "valid_overrides v = Some by_turn" by auto
    have "\<forall>(c, by_turn)\<in>set (AList.update chat by_turn out). c \<noteq> '''' \<and> storable by_turn"
      using "2.prems" False valid_overrides_storable[OF v] update_keys[of chat by_turn out] by fastforce
    with 2 False v show ?thesis by simp
  qed (use 2 in auto)
qed simp

lemma load_inv: "fold_inv st \<Longrightarrow> fold_inv (load_folds st)"
proof -
  have step: "fold_inv (st\<lparr>fs_overrides := fold (\<lambda>(c, by_turn). AList.update c by_turn) doc (fs_overrides st)\<rparr>)"
    if "fold_inv st" "\<forall>(c, by_turn)\<in>set doc. c \<noteq> '''' \<and> storable by_turn" for doc and st :: fold_state
    using that
  proof (induction doc arbitrary: st)
    case (Cons e doc)
    obtain c by_turn where e: "e = (c, by_turn)" by (cases e)
    with Cons.prems have "fold_inv (st\<lparr>fs_overrides := AList.update c by_turn (fs_overrides st)\<rparr>)"
      by (intro fold_inv_update) auto
    from Cons.IH[OF this] Cons.prems e show ?case by simp
  qed simp
  have "\<forall>(c, by_turn)\<in>set (read_per_chat (fs_storage st) valid_overrides). c \<noteq> '''' \<and> storable by_turn"
    using read_entries_storable[of "[]"]
    by (auto simp: read_per_chat_def split: option.splits json.splits)
  with step[of st] show "fold_inv st \<Longrightarrow> fold_inv (load_folds st)"
    by (auto simp: load_folds_def fold_inv_def)
qed

section \<open>A recorded fold\<close>

definition reboot :: "fold_state \<Rightarrow> fold_state" where
  "reboot st = load_folds (reset_fold_state st)"

lemma fold_update_new:
  "distinct (map fst (out @ doc)) \<Longrightarrow> fold (\<lambda>(c, v). AList.update c v) doc out = out @ doc"
proof (induction doc arbitrary: out)
  case (Cons e doc)
  obtain c v where e: "e = (c, v)" by (cases e)
  have "AList.update c v out = out @ [(c, v)]"
    using Cons.prems e by (induction out) auto
  with Cons e show ?case by simp
qed simp

lemma reboot_stored:
  assumes "\<forall>(c, by_turn)\<in>set doc. c \<noteq> '''' \<and> storable by_turn" and "distinct (map fst doc)"
    and "fs_storage st = Some (folds_json doc)"
  shows "fs_overrides (reboot st) = doc"
  using folds.read_written[OF assms(1,2)] fold_update_new[of "[]" doc] assms(2,3)
  by (simp add: reboot_def reset_fold_state_def load_folds_def folds_json_def)

definition recorded :: "string \<Rightarrow> string \<Rightarrow> bool \<Rightarrow> fold_state \<Rightarrow> (string \<times> fold_overrides) list" where
  "recorded chat turn b st =
     (let doc = fs_overrides (load_folds st)
      in AList.update chat (AList.update turn b (nullish (map_of doc chat) [])) doc)"

lemma set_turn_open_overrides:
  "fs_overrides (fold_set_turn_open writable chat turn b st) = recorded chat turn b st"
  by (simp add: fold_set_turn_open_def recorded_def persist_folds_def Let_def split: option.split)

lemma recorded_inv:
  assumes "fold_inv st" "chat \<noteq> ''''" "turn \<noteq> ''''"
  shows "fold_inv ((load_folds st)\<lparr>fs_overrides := recorded chat turn b st\<rparr>)"
proof -
  let ?doc = "fs_overrides (load_folds st)"
  have inv: "fold_inv (load_folds st)" by (rule load_inv[OF assms(1)])
  have "storable (AList.update turn b (nullish (map_of ?doc chat) []))"
  proof (rule storable_update[OF assms(3)])
    have "storable by_turn" if "map_of ?doc chat = Some by_turn" for by_turn
      using inv map_of_SomeD[OF that] by (auto simp: fold_inv_def)
    then show "distinct (map fst (nullish (map_of ?doc chat) []))"
      "\<forall>(t, _)\<in>set (nullish (map_of ?doc chat) []). t \<noteq> ''''"
      by (cases "map_of ?doc chat"; auto simp: storable_def)+
  qed
  from fold_inv_update[OF inv assms(2) this] show ?thesis by (simp add: recorded_def Let_def)
qed

text \<open>The document a recorded fold writes: the other chats in place, the touched one last, cut from the front.\<close>

definition stored_doc :: "(string \<times> fold_overrides) list \<Rightarrow> string \<Rightarrow> (string \<times> fold_overrides) list" where
  "stored_doc doc chat =
     (let kept = filter (\<lambda>(c, _). c \<noteq> chat) doc @ [(chat, the (map_of doc chat))]
      in drop (length kept - max_chats) kept)"

lemma set_turn_open_storage:
  assumes "fold_inv st" "chat \<noteq> ''''" "turn \<noteq> ''''"
  shows "fs_storage (fold_set_turn_open True chat turn b st) = Some (folds_json (stored_doc (recorded chat turn b st) chat))"
proof -
  have m: "map_of (recorded chat turn b st) chat
      = Some (AList.update turn b (nullish (map_of (fs_overrides (load_folds st)) chat) []))"
    by (simp add: recorded_def update_conv Let_def)
  have "AList.update turn b xs \<noteq> []" for xs by (cases xs) auto
  with m assms(2) show ?thesis
    by (simp add: fold_set_turn_open_def persist_folds_def write_per_chat_def stored_doc_def Let_def
        recorded_def)
qed

lemma map_of_others: "map_of (filter (\<lambda>(c, _). c \<noteq> chat) doc) c = (if c = chat then None else map_of doc c)"
  by (induction doc) auto

lemma stored_doc_facts:
  assumes "distinct (map fst doc)" "\<forall>(c, by_turn)\<in>set doc. c \<noteq> '''' \<and> storable by_turn"
    and "map_of doc chat = Some by_turn"
  shows "distinct (map fst (stored_doc doc chat))" "length (stored_doc doc chat) \<le> max_chats"
    "\<forall>(c, by_turn)\<in>set (stored_doc doc chat). c \<noteq> '''' \<and> storable by_turn"
    "map_of (stored_doc doc chat) chat = map_of doc chat"
    "length doc \<le> max_chats \<Longrightarrow> map_of (stored_doc doc chat) = map_of doc"
proof -
  let ?others = "filter (\<lambda>(c, _). c \<noteq> chat) doc"
  let ?kept = "?others @ [(chat, by_turn)]"
  have doc: "stored_doc doc chat = drop (length ?kept - max_chats) ?kept"
    using assms(3) by (simp add: stored_doc_def Let_def)
  have d: "distinct (map fst ?kept)"
    using assms(1) by (auto simp: distinct_map_filter)
  then show "distinct (map fst (stored_doc doc chat))" unfolding doc drop_map[symmetric] by (rule distinct_drop)
  show "length (stored_doc doc chat) \<le> max_chats" unfolding doc by simp
  have "(chat, by_turn) \<in> set doc" by (rule map_of_SomeD[OF assms(3)])
  then have "\<forall>(c, by_turn)\<in>set ?kept. c \<noteq> '''' \<and> storable by_turn"
    using assms(2) by auto
  then show "\<forall>(c, by_turn)\<in>set (stored_doc doc chat). c \<noteq> '''' \<and> storable by_turn"
    unfolding doc by (meson in_set_dropD)
  have split: "stored_doc doc chat = drop (length ?kept - max_chats) ?others @ [(chat, by_turn)]"
    unfolding doc by (simp add: max_chats_def)
  have "map_of (drop k ?others) chat = None" for k
    by (auto simp: map_of_eq_None_iff dest: in_set_dropD)
  then show "map_of (stored_doc doc chat) chat = map_of doc chat"
    unfolding split by (simp add: map_add_def assms(3))
  show "map_of (stored_doc doc chat) = map_of doc" if len: "length doc \<le> max_chats"
  proof -
    have "length ?others < length doc"
      using map_of_SomeD[OF assms(3)] by (intro length_filter_less[of "(chat, by_turn)"]) auto
    with len have "stored_doc doc chat = ?kept" unfolding doc by simp
    then show ?thesis using assms(3) by (auto simp: map_add_def map_of_others fun_eq_iff split: option.split)
  qed
qed

lemma reboot_set_turn_open:
  assumes "fold_inv st" "chat \<noteq> ''''" "turn \<noteq> ''''"
  shows "fs_overrides (reboot (fold_set_turn_open True chat turn b st)) = stored_doc (recorded chat turn b st) chat"
    and "map_of (stored_doc (recorded chat turn b st) chat) chat = map_of (recorded chat turn b st) chat"
    and "length (stored_doc (recorded chat turn b st) chat) \<le> max_chats"
    and "length (recorded chat turn b st) \<le> max_chats
         \<Longrightarrow> map_of (stored_doc (recorded chat turn b st) chat) = map_of (recorded chat turn b st)"
proof -
  let ?doc = "recorded chat turn b st"
  have inv: "distinct (map fst ?doc)" "\<forall>(c, by_turn)\<in>set ?doc. c \<noteq> '''' \<and> storable by_turn"
    using recorded_inv[OF assms, of b] by (simp_all add: fold_inv_def)
  have m: "map_of ?doc chat
      = Some (AList.update turn b (nullish (map_of (fs_overrides (load_folds st)) chat) []))"
    by (simp add: recorded_def update_conv Let_def)
  note facts = stored_doc_facts[OF inv m]
  from reboot_stored[OF facts(3,1) set_turn_open_storage[OF assms]]
  show "fs_overrides (reboot (fold_set_turn_open True chat turn b st)) = stored_doc ?doc chat" .
  show "map_of (stored_doc ?doc chat) chat = map_of ?doc chat"
    "length (stored_doc ?doc chat) \<le> max_chats"
    "length ?doc \<le> max_chats \<Longrightarrow> map_of (stored_doc ?doc chat) = map_of ?doc"
    using facts(2,4,5) by blast+
qed

lemma recorded_choice: "map_of (nullish (map_of (recorded chat turn b st) chat) []) turn = Some b"
  by (simp add: recorded_def update_conv Let_def)

lemma is_turn_open_answer:
  "fst (is_turn_open s chat t index count)
   = (t_outcome t = O_running \<or> count - 1 \<le> index
      \<or> (case explicit_fold (load_folds s) chat (t_id t) of
           Some b \<Rightarrow> b
         | None \<Rightarrow> search_opened (load_folds s) chat (t_id t)
             \<or> severity_of (Some (t_outcome t)) = Sev_broken))"
  by (simp add: is_turn_open_def open_tail_def Let_def split: option.split)

lemma load_folds_again: "load_folds (load_folds s) = load_folds s"
  by (simp add: load_folds_def)

lemma load_folds_search: "fs_search (load_folds s) = fs_search s"
  by (simp add: load_folds_def)

lemma search_opened_load: "search_opened (load_folds s) chat turn = search_opened s chat turn"
  by (simp add: search_opened_def load_folds_search)

lemma load_folds_searched: "load_folds (s\<lparr>fs_search := x\<rparr>) = (load_folds s)\<lparr>fs_search := x\<rparr>"
  by (simp add: load_folds_def)

lemma open_after_reboot:
  "fst (is_turn_open (reboot st) chat t index count)
   = (t_outcome t = O_running \<or> count - 1 \<le> index
      \<or> (case explicit_fold (reboot st) chat (t_id t) of
           Some b \<Rightarrow> b
         | None \<Rightarrow> severity_of (Some (t_outcome t)) = Sev_broken))"
proof -
  have "\<not> search_opened (reboot st) chat (t_id t)"
    by (simp add: reboot_def search_opened_def load_folds_search reset_fold_state_def)
  moreover have "load_folds (reboot st) = reboot st" by (simp add: reboot_def load_folds_again)
  ultimately show ?thesis by (simp add: is_turn_open_answer split: option.split)
qed

section \<open>Search\<close>

lemma searched_turns:
  "\<exists>S. fold (open_for_search chat) turns s = s\<lparr>fs_search := S\<rparr>
     \<and> set (nullish (map_of S chat) []) = set turns \<union> set (nullish (map_of (fs_search s) chat) [])"
proof (induction turns arbitrary: s)
  case Nil
  show ?case by (intro exI[of _ "fs_search s"]) simp
next
  case (Cons turn turns)
  have one: "set (nullish (map_of (fs_search (open_for_search chat turn s)) chat) [])
      = insert turn (set (nullish (map_of (fs_search s) chat) []))"
    by (simp add: open_for_search_def update_conv Let_def)
  have "(open_for_search chat turn s)\<lparr>fs_search := x\<rparr> = s\<lparr>fs_search := x\<rparr>" for x
    by (simp add: open_for_search_def Let_def)
  with Cons.IH[of "open_for_search chat turn s"] one show ?case by auto
qed

lemma cleared_turns:
  "\<exists>S'. snd (clear_search_opened chat (st\<lparr>fs_search := S\<rparr>)) = st\<lparr>fs_search := S'\<rparr>
      \<and> (\<forall>turn. \<not> search_opened (st\<lparr>fs_search := S'\<rparr>) chat turn)"
  by (cases "nullish (map_of S chat) [] = []")
     (auto simp: clear_search_opened_def search_opened_def delete_conv)

lemma is_turn_open_searched:
  "fst (is_turn_open (s\<lparr>fs_search := x\<rparr>) chat t index count)
   = (t_outcome t = O_running \<or> count - 1 \<le> index
      \<or> (case explicit_fold (load_folds s) chat (t_id t) of
           Some b \<Rightarrow> b
         | None \<Rightarrow> search_opened (s\<lparr>fs_search := x\<rparr>) chat (t_id t)
             \<or> severity_of (Some (t_outcome t)) = Sev_broken))"
  by (simp add: is_turn_open_answer search_opened_load load_folds_searched explicit_fold_def
      split: option.split)
     (simp add: search_opened_def)

lemma update_absent: "c \<notin> set (map fst al) \<Longrightarrow> AList.update c v al = al @ [(c, v)]"
  by (induction al) auto

section \<open>The properties\<close>

definition sample_turn :: turn where
  "sample_turn = \<lparr>t_id = ''t'', t_n = 1, t_trigger = None, t_body = [], t_open_entries = [], t_ts = 0,
                  t_outcome = O_completed, t_rewind_to = None\<rparr>"

text \<open>
  C22. A fold survives a reload: after the reader opens or folds a turn, a page that starts from what was
  stored shows that turn as chosen (a running or newest turn is open whatever was recorded), keeps
  every choice of the touched chat, keeps every choice of every chat while at most a hundred chats
  have one, and never stores more than a hundred.
\<close>

theorem fold_survives_reload:
  assumes "fold_inv st" and "chat \<noteq> ''''" and "t_id t \<noteq> ''''"
  shows "fst (is_turn_open (reboot (fold_set_turn_open True chat (t_id t) b st)) chat t index count)
         = (t_outcome t = O_running \<or> count - 1 \<le> index \<or> b)
       \<and> explicit_fold (reboot (fold_set_turn_open True chat (t_id t) b st)) chat
         = explicit_fold (fold_set_turn_open True chat (t_id t) b st) chat
       \<and> (length (fs_overrides (fold_set_turn_open True chat (t_id t) b st)) \<le> max_chats
          \<longrightarrow> explicit_fold (reboot (fold_set_turn_open True chat (t_id t) b st))
              = explicit_fold (fold_set_turn_open True chat (t_id t) b st))
       \<and> length (fs_overrides (reboot (fold_set_turn_open True chat (t_id t) b st))) \<le> max_chats"
proof -
  let ?st = "fold_set_turn_open True chat (t_id t) b st"
  note stored = reboot_set_turn_open[OF assms, of b]
  have chosen: "explicit_fold (reboot ?st) chat = explicit_fold ?st chat"
    unfolding explicit_fold_def stored(1) stored(2) set_turn_open_overrides by simp
  have "explicit_fold ?st chat (t_id t) = Some b"
    unfolding explicit_fold_def set_turn_open_overrides by (rule recorded_choice)
  with chosen have "explicit_fold (reboot ?st) chat (t_id t) = Some b" by simp
  then have "fst (is_turn_open (reboot ?st) chat t index count)
      = (t_outcome t = O_running \<or> count - 1 \<le> index \<or> b)"
    unfolding open_after_reboot by simp
  moreover have "length (fs_overrides ?st) \<le> max_chats
      \<Longrightarrow> explicit_fold (reboot ?st) = explicit_fold ?st"
    using stored(1,4) unfolding explicit_fold_def set_turn_open_overrides by (simp add: fun_eq_iff)
  ultimately show ?thesis using chosen stored(1,3) by simp
qed

theorem fold_survives_reload_witness:
  "fst (is_turn_open (reboot (fold_set_turn_open True ''c'' (t_id sample_turn) True fold_state_empty))
      ''c'' sample_turn 0 5)"
proof -
  have "fold_inv fold_state_empty" by (simp add: fold_inv_def fold_state_empty_def)
  from fold_survives_reload[OF this, of "''c''" sample_turn True 0 5] show ?thesis
    by (simp add: sample_turn_def)
qed

text \<open>
  A search rearranges nothing: turns opened for hits stay open while the search is, unless the reader
  folded them by hand; closing it leaves every turn of the chat as it was before, and neither the
  search nor its close writes the stored folds.
\<close>

theorem search_leaves_no_fold:
  assumes "map_of (fs_search st) chat = None"
  shows "(\<forall>turn\<in>set turns. explicit_fold (load_folds st) chat turn \<noteq> Some False
            \<longrightarrow> (\<forall>t index count. t_id t = turn
                 \<longrightarrow> fst (is_turn_open (fold (open_for_search chat) turns st) chat t index count)))
       \<and> fst (is_turn_open (snd (clear_search_opened chat (fold (open_for_search chat) turns st))) chat t index count)
         = fst (is_turn_open st chat t index count)
       \<and> fs_storage (snd (clear_search_opened chat (fold (open_for_search chat) turns st))) = fs_storage st
       \<and> fs_overrides (snd (clear_search_opened chat (fold (open_for_search chat) turns st))) = fs_overrides st"
proof -
  obtain S where searched: "fold (open_for_search chat) turns st = st\<lparr>fs_search := S\<rparr>"
    "set (nullish (map_of S chat) []) = set turns"
    using searched_turns[of chat turns st] assms by auto
  then obtain S' where cleared: "snd (clear_search_opened chat (fold (open_for_search chat) turns st))
      = st\<lparr>fs_search := S'\<rparr>" "\<And>turn. \<not> search_opened (st\<lparr>fs_search := S'\<rparr>) chat turn"
    using cleared_turns[where chat = chat and st = st and S = S] by auto
  have "\<not> search_opened st chat turn" for turn
    using assms by (simp add: search_opened_def)
  then show ?thesis
    unfolding cleared(1)
    unfolding searched(1) is_turn_open_searched
    using searched(2) cleared(2)
    by (auto simp: is_turn_open_answer search_opened_load search_opened_def load_folds_search
        split: option.split)
qed

theorem search_leaves_no_fold_witness:
  "fst (is_turn_open
      (snd (clear_search_opened ''c'' (fold (open_for_search ''c'') [''t''] fold_state_empty)))
      ''c'' sample_turn 0 5)
   = fst (is_turn_open fold_state_empty ''c'' sample_turn 0 5)"
  using search_leaves_no_fold[of fold_state_empty "''c''" "[''t'']" sample_turn 0 5]
  by (simp add: fold_state_empty_def)

text \<open>
  Finding. Eviction is not by last touch: a document of a hundred chats whose oldest-listed chat is
  touched again and then joined by a new one loses that chat, the one touched just before. The
  in-memory map \<open>writePerChat\<close> is handed is never reordered, so only the last write's chat moves.
\<close>

theorem eviction_forgets_the_touched:
  assumes "fold_inv st" and "fs_loaded st" and "fs_overrides st = (a, folds) # rest"
    and "length rest = 99" and "new \<noteq> a" and "new \<notin> set (map fst rest)" and "new \<noteq> ''''"
    and "turn \<noteq> ''''" and "turn' \<noteq> ''''"
  shows "explicit_fold (reboot (fold_set_turn_open True new turn' b' (fold_set_turn_open True a turn b st))) a turn = None"
proof -
  let ?st = "fold_set_turn_open True a turn b st"
  have a: "a \<noteq> ''''" "a \<notin> set (map fst rest)" using assms(1,3) by (auto simp: fold_inv_def)
  have load: "load_folds st = st" "load_folds ?st = ?st"
    using assms(2) by (simp_all add: load_folds_def fold_set_turn_open_def persist_folds_def Let_def split: option.split)
  have inv: "fold_inv ?st"
    using recorded_inv[OF assms(1) a(1) assms(8), of b] set_turn_open_overrides[of True a turn b st]
    by (simp add: fold_inv_def)
  have doc: "fs_overrides ?st = (a, AList.update turn b folds) # rest"
    by (simp add: set_turn_open_overrides recorded_def load assms(3))
  have "recorded new turn' b' ?st = (a, AList.update turn b folds) # rest @ [(new, [(turn', b')])]"
    unfolding recorded_def load(2) doc using assms(5,6)
    by (simp add: update_absent map_of_eq_None_iff[THEN iffD2])
  moreover have "filter (\<lambda>(c, _). c \<noteq> new) rest = rest"
    using assms(6) by (force simp: filter_id_conv)
  ultimately have "stored_doc (recorded new turn' b' ?st) new = rest @ [(new, [(turn', b')])]"
    using assms(4-6) by (simp add: stored_doc_def max_chats_def map_add_def map_of_eq_None_iff[THEN iffD2])
  with reboot_set_turn_open(1)[OF inv assms(7,9), of b']
  have "fs_overrides (reboot (fold_set_turn_open True new turn' b' ?st)) = rest @ [(new, [(turn', b')])]" by simp
  then show ?thesis
    using a(2) assms(5) by (simp add: explicit_fold_def map_add_def map_of_eq_None_iff[THEN iffD2])
qed

theorem eviction_forgets_the_touched_witness:
  "\<exists>st. length (fs_overrides st) = 100
     \<and> explicit_fold (reboot (fold_set_turn_open True ''new'' ''t'' True (fold_set_turn_open True ''a'' ''t'' False st))) ''a'' ''t'' = None"
proof -
  let ?rest = "map (\<lambda>i. (replicate (Suc i) (CHR ''c''), [(''t'', True)])) [0..<99]"
  let ?st = "fold_state_empty\<lparr>fs_loaded := True, fs_overrides := (''a'', [(''t'', True)]) # ?rest\<rparr>"
  have keys: "map fst ?rest = map (\<lambda>i. replicate (Suc i) (CHR ''c'')) [0..<99]" by (simp add: comp_def)
  have "inj_on (\<lambda>i. replicate (Suc i) (CHR ''c'')) (set [0..<99])"
    by (rule inj_onI) (metis length_replicate nat.inject)
  then have "distinct (map fst ?rest)" unfolding keys distinct_map by simp
  moreover have other: "''a'' \<notin> set (map fst ?rest)" "''new'' \<notin> set (map fst ?rest)"
    unfolding keys by (auto simp: replicate_Suc)
  ultimately have "fold_inv ?st"
    by (auto simp: fold_inv_def storable_def fold_state_empty_def)
  from eviction_forgets_the_touched[OF this, of "''a''" "[(''t'', True)]" ?rest "''new''" "''t''" "''t''" True False]
    other show ?thesis by (intro exI[of _ ?st]) (simp add: fold_state_empty_def)
qed

end
