(* ===== verification/Diff.thy ===== *)
theory Diff
  imports Prelude
begin

text \<open>
  \<open>diff.ts\<close>: the line diff, its word marks and its window. An array is a list; \<open>DiffLine\<close> is the record
  \<open>diff_line\<close>, with line numbers as naturals and 0 for a side a line is not on; \<open>Map<DiffLine, ...>\<close>, keyed
  by the line object, is keyed by the line's position in the diff. The two dense loops of \<open>lcsTable\<close> are the
  recursion \<open>lcs_table\<close> over the rows from the last to the first, each row built from the last column to
  the first out of the row below. \<open>hirschbergDiff\<close> has no case for an empty old side before a non-empty
  new one and would recurse without end there: it is a \<open>partial_function (option)\<close>, and the facts show
  that the calls the program makes return.
\<close>

section \<open>Lines\<close>

datatype diff_kind = Add | Del | Ctx

record diff_line =
  dl_kind :: diff_kind
  dl_old :: nat
  dl_new :: nat
  dl_text :: string

record diff_stats =
  st_adds :: nat
  st_dels :: nat
  st_ctx :: nat

definition count_line :: "diff_stats \<Rightarrow> diff_line \<Rightarrow> diff_stats" where
  "count_line s l =
     (case dl_kind l of
        Add \<Rightarrow> s\<lparr>st_adds := st_adds s + 1\<rparr>
      | Del \<Rightarrow> s\<lparr>st_dels := st_dels s + 1\<rparr>
      | Ctx \<Rightarrow> s\<lparr>st_ctx := st_ctx s + 1\<rparr>)"

definition stats :: "diff_line list \<Rightarrow> diff_stats" where
  "stats ls = foldl count_line \<lparr>st_adds = 0, st_dels = 0, st_ctx = 0\<rparr> ls"

definition newline :: char where
  "newline = CHR 0x0A"

definition carriage_return :: char where
  "carriage_return = CHR 0x0D"

definition strip_cr :: "string \<Rightarrow> string" where
  "strip_cr l = (if l \<noteq> [] \<and> last l = carriage_return then butlast l else l)"

definition split_lines :: "string \<Rightarrow> string list" where
  "split_lines s =
     (if s = [] then []
      else let raw = split_on newline s;
               ls = (if last s = newline then butlast raw else raw)
           in if carriage_return \<in> set s then map strip_cr ls else ls)"

section \<open>Longest common subsequences\<close>

definition space_threshold :: nat where
  "space_threshold = 4000000"

definition time_budget_cells :: nat where
  "time_budget_cells = 25000000"

text \<open>Row \<open>i\<close> of the table out of row \<open>i + 1\<close>.\<close>

fun table_row :: "'a \<Rightarrow> 'a list \<Rightarrow> nat list \<Rightarrow> nat list" where
  "table_row x [] below = [0]"
| "table_row x (y # ys) below =
     (let rest = table_row x ys (tl below)
      in (if x = y then hd (tl below) + 1 else max (hd below) (hd rest)) # rest)"

fun lcs_table :: "'a list \<Rightarrow> 'a list \<Rightarrow> nat list list" where
  "lcs_table [] b = [replicate (length b + 1) 0]"
| "lcs_table (x # xs) b = (let t = lcs_table xs b in table_row x b (hd t) # t)"

text \<open>\<open>t[i]?.[j] ?? 0\<close>.\<close>

definition cell :: "nat list list \<Rightarrow> nat \<Rightarrow> nat \<Rightarrow> nat" where
  "cell t i j = (if i < length t \<and> j < length (t ! i) then t ! i ! j else 0)"

text \<open>The row \<open>curr\<close> past its first column, out of \<open>prev\<close>.\<close>

fun last_row_step :: "'a \<Rightarrow> 'a list \<Rightarrow> nat list \<Rightarrow> nat \<Rightarrow> nat list" where
  "last_row_step x [] prev left = []"
| "last_row_step x (y # ys) prev left =
     (let v = (if x = y then hd prev + 1 else max left (hd (tl prev)))
      in v # last_row_step x ys (tl prev) v)"

definition slice :: "'a list \<Rightarrow> nat \<Rightarrow> nat \<Rightarrow> 'a list" where
  "slice xs lo hi = drop lo (take hi xs)"

definition lcs_last_row :: "'a list \<Rightarrow> nat \<Rightarrow> nat \<Rightarrow> 'a list \<Rightarrow> nat \<Rightarrow> nat \<Rightarrow> nat list" where
  "lcs_last_row a a_lo a_hi b b_lo b_hi =
     foldl (\<lambda>prev x. 0 # last_row_step x (slice b b_lo b_hi) prev 0)
       (replicate (b_hi - b_lo + 1) 0) (slice a a_lo a_hi)"

section \<open>Edit scripts\<close>

definition del_line :: "nat \<Rightarrow> string \<Rightarrow> diff_line" where
  "del_line old t = \<lparr>dl_kind = Del, dl_old = old, dl_new = 0, dl_text = t\<rparr>"

definition add_line :: "nat \<Rightarrow> string \<Rightarrow> diff_line" where
  "add_line new t = \<lparr>dl_kind = Add, dl_old = 0, dl_new = new, dl_text = t\<rparr>"

definition ctx_line :: "nat \<Rightarrow> nat \<Rightarrow> string \<Rightarrow> diff_line" where
  "ctx_line old new t = \<lparr>dl_kind = Ctx, dl_old = old, dl_new = new, dl_text = t\<rparr>"

definition del_lines :: "string list \<Rightarrow> nat \<Rightarrow> nat \<Rightarrow> nat \<Rightarrow> diff_line list" where
  "del_lines orig offset lo hi = map (\<lambda>i. del_line (offset + i + 1) (orig ! i)) [lo..<hi]"

definition add_lines :: "string list \<Rightarrow> nat \<Rightarrow> nat \<Rightarrow> nat \<Rightarrow> diff_line list" where
  "add_lines orig offset lo hi = map (\<lambda>j. add_line (offset + j + 1) (orig ! j)) [lo..<hi]"

text \<open>The split with the best score, the first of several.\<close>

definition best_split :: "nat list \<Rightarrow> nat list \<Rightarrow> nat \<Rightarrow> nat \<Rightarrow> nat" where
  "best_split fwd rv b_lo b_hi =
     snd (foldl (\<lambda>(score, best) j.
             let s = int (fwd ! (j - b_lo) + rv ! (b_hi - j))
             in if score < s then (s, j) else (score, best))
           (- 1, b_lo) [b_lo..<b_hi + 1])"

definition single_line :: "string list \<Rightarrow> nat \<Rightarrow> string list \<Rightarrow> nat \<Rightarrow> nat \<Rightarrow> string list \<Rightarrow> string list
    \<Rightarrow> nat \<Rightarrow> nat \<Rightarrow> diff_line list" where
  "single_line a a_lo b b_lo b_hi a_orig b_orig a_off b_off =
     (case find_index (\<lambda>j. b ! j = a ! a_lo) [b_lo..<b_hi] of
        None \<Rightarrow> del_line (a_off + a_lo + 1) (a_orig ! a_lo) # add_lines b_orig b_off b_lo b_hi
      | Some k \<Rightarrow>
          add_lines b_orig b_off b_lo (b_lo + k)
          @ ctx_line (a_off + a_lo + 1) (b_off + (b_lo + k) + 1) (a_orig ! a_lo)
            # add_lines b_orig b_off (b_lo + k + 1) b_hi)"

partial_function (option) hirschberg_diff ::
  "string list \<Rightarrow> nat \<Rightarrow> nat \<Rightarrow> string list \<Rightarrow> nat \<Rightarrow> nat \<Rightarrow> string list \<Rightarrow> string list
    \<Rightarrow> nat \<Rightarrow> nat \<Rightarrow> diff_line list option" where
  "hirschberg_diff a a_lo a_hi b b_lo b_hi a_orig b_orig a_off b_off =
     (let m = a_hi - a_lo; n = b_hi - b_lo in
      if n = 0 then Some (del_lines a_orig a_off a_lo a_hi)
      else if m = 1 then Some (single_line a a_lo b b_lo b_hi a_orig b_orig a_off b_off)
      else
        let a_mid = a_lo + m div 2;
            fwd = lcs_last_row a a_lo a_mid b b_lo b_hi;
            a_rev = rev (slice a a_mid a_hi);
            b_rev = rev (slice b b_lo b_hi);
            rv = lcs_last_row a_rev 0 (length a_rev) b_rev 0 (length b_rev);
            best = best_split fwd rv b_lo b_hi
        in Option.bind (hirschberg_diff a a_lo a_mid b b_lo best a_orig b_orig a_off b_off)
             (\<lambda>left. Option.bind (hirschberg_diff a a_mid a_hi b best b_hi a_orig b_orig a_off b_off)
               (\<lambda>right. Some (left @ right))))"

text \<open>The walk over the dense table: \<open>a\<close> and \<open>b\<close> are the whole sides, \<open>a_mid\<close> and \<open>b_mid\<close> the trimmed ones.\<close>

function table_walk :: "string list \<Rightarrow> string list \<Rightarrow> nat \<Rightarrow> string list \<Rightarrow> string list \<Rightarrow> nat list list
    \<Rightarrow> nat \<Rightarrow> nat \<Rightarrow> diff_line list" where
  "table_walk a b p a_mid b_mid t i j =
     (if i < length a_mid \<and> j < length b_mid then
        (if a_mid ! i = b_mid ! j then
           ctx_line (p + i + 1) (p + j + 1) (a ! (p + i)) # table_walk a b p a_mid b_mid t (i + 1) (j + 1)
         else if cell t i (j + 1) \<le> cell t (i + 1) j then
           del_line (p + i + 1) (a ! (p + i)) # table_walk a b p a_mid b_mid t (i + 1) j
         else add_line (p + j + 1) (b ! (p + j)) # table_walk a b p a_mid b_mid t i (j + 1))
      else del_lines a 0 (p + i) (p + length a_mid) @ add_lines b 0 (p + j) (p + length b_mid))"
  by pat_completeness auto

termination
  by (relation "measure (\<lambda>(a, b, p, a_mid, b_mid, t, i, j). (length a_mid - i) + (length b_mid - j))") auto

declare table_walk.simps [simp del]

definition diff_middle :: "string list \<Rightarrow> string list \<Rightarrow> string list \<Rightarrow> string list \<Rightarrow> nat \<Rightarrow> nat
    \<Rightarrow> diff_line list option" where
  "diff_middle a b a_norm b_norm p s =
     (let a_hi = length a - s; b_hi = length b - s; m = a_hi - p; n = b_hi - p in
      if m = 0 \<and> n = 0 then Some []
      else if time_budget_cells < m * n then
        Some (del_lines a 0 p a_hi @ add_lines b 0 p b_hi)
      else if space_threshold < m * n then
        hirschberg_diff (slice a_norm p a_hi) 0 m (slice b_norm p b_hi) 0 n
          (slice a p a_hi) (slice b p b_hi) p p
      else
        let a_mid = slice a_norm p a_hi; b_mid = slice b_norm p b_hi
        in Some (table_walk a b p a_mid b_mid (lcs_table a_mid b_mid) 0 0))"

text \<open>The common prefix's length, at most \<open>k\<close>.\<close>

fun common_prefix :: "nat \<Rightarrow> 'a list \<Rightarrow> 'a list \<Rightarrow> nat" where
  "common_prefix (Suc k) (x # xs) (y # ys) = (if x = y then Suc (common_prefix k xs ys) else 0)"
| "common_prefix _ _ _ = 0"

text \<open>\<open>s.replace(/\s+/g, " ").trim()\<close>.\<close>

fun squeeze :: "bool \<Rightarrow> string \<Rightarrow> string" where
  "squeeze inside [] = []"
| "squeeze inside (c # s) =
     (if js_space c then (if inside then squeeze True s else CHR '' '' # squeeze True s)
      else c # squeeze False s)"

definition normalize_line :: "bool \<Rightarrow> string \<Rightarrow> string" where
  "normalize_line ignore_ws s = (if ignore_ws then js_trim (squeeze False s) else s)"

definition diff_line_arrays :: "string list \<Rightarrow> string list \<Rightarrow> bool \<Rightarrow> diff_line list option" where
  "diff_line_arrays a b ignore_ws =
     (let a_norm = map (normalize_line ignore_ws) a;
          b_norm = map (normalize_line ignore_ws) b;
          max_trim = min (length a) (length b);
          p = common_prefix max_trim a_norm b_norm;
          s = common_prefix (max_trim - p) (rev a_norm) (rev b_norm);
          front = map (\<lambda>k. ctx_line (k + 1) (k + 1) (a ! k)) [0..<p];
          back = map (\<lambda>k. ctx_line (length a - s + k + 1) (length b - s + k + 1) (a ! (length a - s + k))) [0..<s]
      in map_option (\<lambda>middle. front @ middle @ back) (diff_middle a b a_norm b_norm p s))"

definition line_diff :: "string \<Rightarrow> string \<Rightarrow> bool \<Rightarrow> diff_line list option" where
  "line_diff old_text new_text ignore_ws = diff_line_arrays (split_lines old_text) (split_lines new_text) ignore_ws"

definition line_delta :: "string \<Rightarrow> string \<Rightarrow> (nat \<times> nat) option" where
  "line_delta old_text new_text =
     map_option (\<lambda>ls. (st_adds (stats ls), st_dels (stats ls)))
       (diff_line_arrays (split_lines old_text) (split_lines new_text) False)"

end
