(* ===== verification/LcsFacts.thy ===== *)
theory LcsFacts
  imports Diff "HOL-Library.Sublist"
begin

text \<open>
  What the two algorithms of \<open>diff.ts\<close> compute: the length of a longest common subsequence. \<open>lcs\<close> is the
  reference; the dense table holds it for every pair of suffixes, the last row for every prefix of the
  new side, and the best split of the linear-space recursion adds up to it.
\<close>

section \<open>The reference\<close>

fun lcs :: "'a list \<Rightarrow> 'a list \<Rightarrow> nat" where
  "lcs [] ys = 0"
| "lcs (x # xs) [] = 0"
| "lcs (x # xs) (y # ys) =
     (if x = y then lcs xs ys + 1 else max (lcs xs (y # ys)) (lcs (x # xs) ys))"

lemma lcs_Nil2 [simp]: "lcs xs [] = 0"
  by (cases xs) auto

lemma lcs_upper: "subseq zs xs \<Longrightarrow> subseq zs ys \<Longrightarrow> length zs \<le> lcs xs ys"
proof (induction xs ys arbitrary: zs rule: lcs.induct)
  case (3 x xs y ys)
  show ?case
  proof (cases "x = y")
    case True
    show ?thesis
    proof (cases zs)
      case (Cons z zs')
      have "subseq zs' xs" "subseq zs' ys"
        using "3.prems" Cons by (auto split: if_splits dest: subseq_Cons')
      then show ?thesis using "3.IH"(1)[OF True, of zs'] True Cons by simp
    qed simp
  next
    case False
    show ?thesis
    proof (cases "zs \<noteq> [] \<and> hd zs = x")
      case True
      then have "subseq zs ys" using "3.prems"(2) False by (cases zs) (auto split: if_splits)
      then show ?thesis using "3.IH"(3)[OF False "3.prems"(1)] False by simp
    next
      case hd: False
      then have "subseq zs xs" using "3.prems"(1) by (cases zs) (auto split: if_splits)
      then show ?thesis using "3.IH"(2)[OF False _ "3.prems"(2)] False by fastforce
    qed
  qed
qed auto

lemma lcs_attained: "\<exists>zs. subseq zs xs \<and> subseq zs ys \<and> length zs = lcs xs ys"
proof (induction xs ys rule: lcs.induct)
  case (3 x xs y ys)
  show ?case
  proof (cases "x = y")
    case True
    then obtain zs where "subseq zs xs" "subseq zs ys" "length zs = lcs xs ys" using "3.IH"(1) by blast
    then show ?thesis using True by (intro exI[of _ "x # zs"]) simp
  next
    case False
    from "3.IH"(2)[OF False] "3.IH"(3)[OF False] obtain us vs where
      "subseq us xs" "subseq us (y # ys)" "length us = lcs xs (y # ys)"
      "subseq vs (x # xs)" "subseq vs ys" "length vs = lcs (x # xs) ys" by blast
    then show ?thesis
      using False by (cases "lcs xs (y # ys) \<le> lcs (x # xs) ys") (auto simp: max_def)
  qed
qed auto

text \<open>\<open>lcs\<close> is what any argument about common subsequences says it is.\<close>

lemma lcs_eqI:
  assumes "\<And>zs. subseq zs xs \<Longrightarrow> subseq zs ys \<Longrightarrow> \<exists>us. length us = length zs \<and> subseq us xs' \<and> subseq us ys'"
    and "\<And>zs. subseq zs xs' \<Longrightarrow> subseq zs ys' \<Longrightarrow> \<exists>us. length us = length zs \<and> subseq us xs \<and> subseq us ys"
  shows "lcs xs ys = lcs xs' ys'"
proof (rule antisym)
  show "lcs xs ys \<le> lcs xs' ys'"
    using lcs_attained[of xs ys] assms(1) lcs_upper[of _ xs' ys'] by metis
  show "lcs xs' ys' \<le> lcs xs ys"
    using lcs_attained[of xs' ys'] assms(2) lcs_upper[of _ xs ys] by metis
qed

lemma subseq_rev_iff: "subseq (rev xs) (rev ys) \<longleftrightarrow> subseq xs ys"
proof -
  have rev: "subseq xs ys \<Longrightarrow> subseq (rev xs) (rev ys)" for xs ys :: "'a list"
    by (induction xs ys rule: list_emb.induct) auto
  from rev[of xs ys] rev[of "rev xs" "rev ys"] show ?thesis by auto
qed

lemma lcs_rev: "lcs (rev xs) (rev ys) = lcs xs ys"
  by (rule lcs_eqI) (metis length_rev rev_rev_ident subseq_rev_iff)+

lemma lcs_snoc:
  "lcs (xs @ [x]) (ys @ [y]) =
     (if x = y then lcs xs ys + 1 else max (lcs xs (ys @ [y])) (lcs (xs @ [x]) ys))"
  using lcs.simps(3)[of x "rev xs" y "rev ys"] lcs_rev[of "xs @ [x]" "ys @ [y]"]
    lcs_rev[of xs ys] lcs_rev[of xs "ys @ [y]"] lcs_rev[of "xs @ [x]" ys]
  by (cases "x = y") simp_all

lemma lcs_append_le: "lcs a1 b1 + lcs a2 b2 \<le> lcs (a1 @ a2) (b1 @ b2)"
proof -
  obtain us vs where "subseq us a1" "subseq us b1" "length us = lcs a1 b1"
    "subseq vs a2" "subseq vs b2" "length vs = lcs a2 b2"
    using lcs_attained by metis
  then show ?thesis
    using lcs_upper[of "us @ vs" "a1 @ a2" "b1 @ b2"] by (simp add: list_emb_append_mono)
qed

lemma lcs_split: "\<exists>j\<le>length b. lcs (a1 @ a2) b = lcs a1 (take j b) + lcs a2 (drop j b)"
proof -
  obtain zs where zs: "subseq zs (a1 @ a2)" "subseq zs b" "length zs = lcs (a1 @ a2) b"
    using lcs_attained by metis
  from zs(1) obtain us vs where z: "zs = us @ vs" "subseq us a1" "subseq vs a2"
    by (auto simp: subseq_append_iff)
  from zs(2)[unfolded z(1)] obtain bs cs where b: "b = bs @ cs" "subseq us bs" "subseq vs cs"
    by (auto dest: list_emb_appendD)
  have "lcs (a1 @ a2) b \<le> lcs a1 bs + lcs a2 cs"
    using lcs_upper[OF z(2) b(2)] lcs_upper[OF z(3) b(3)] zs(3) z(1) by simp
  with lcs_append_le[of a1 bs a2 cs] b(1) show ?thesis
    by (intro exI[of _ "length bs"]) simp
qed

lemma lcs_same_prefix: "lcs (ps @ xs) (ps @ ys) = length ps + lcs xs ys"
  by (induction ps) auto

lemma lcs_same_suffix: "lcs (xs @ ss) (ys @ ss) = lcs xs ys + length ss"
  using lcs_same_prefix[of "rev ss" "rev xs" "rev ys"] lcs_rev[of "xs @ ss" "ys @ ss"] lcs_rev[of xs ys]
  by simp

section \<open>The dense table\<close>

fun lcs_row :: "'a list \<Rightarrow> 'a list \<Rightarrow> nat list" where
  "lcs_row xs [] = [0]"
| "lcs_row xs (y # ys) = lcs xs (y # ys) # lcs_row xs ys"

lemma lcs_row_hd [simp]: "hd (lcs_row xs ys) = lcs xs ys" "lcs_row xs ys \<noteq> []"
  by (cases ys; simp)+

lemma length_lcs_row [simp]: "length (lcs_row xs ys) = length ys + 1"
  by (induction ys) auto

lemma lcs_row_nth: "j \<le> length ys \<Longrightarrow> lcs_row xs ys ! j = lcs xs (drop j ys)"
  by (induction ys arbitrary: j) (auto simp: nth_Cons split: nat.split)

lemma table_row_lcs: "table_row x ys (lcs_row xs ys) = lcs_row (x # xs) ys"
  by (induction ys) (auto simp: Let_def)

lemma lcs_row_Nil: "replicate (Suc (length ys)) 0 = lcs_row [] ys"
  by (induction ys) auto

lemma lcs_table_hd: "lcs_table xs ys \<noteq> [] \<and> hd (lcs_table xs ys) = lcs_row xs ys"
proof (induction xs)
  case Nil
  then show ?case using lcs_row_Nil[of ys] by simp
qed (simp add: Let_def table_row_lcs)

lemma lcs_table_nth: "i \<le> length xs \<Longrightarrow> lcs_table xs ys ! i = lcs_row (drop i xs) ys"
proof (induction xs arbitrary: i)
  case Nil
  then show ?case using lcs_row_Nil[of ys] by simp
next
  case (Cons x xs)
  then show ?case
    using lcs_table_hd[of xs ys] by (auto simp: Let_def table_row_lcs nth_Cons split: nat.split)
qed

lemma length_lcs_table [simp]: "length (lcs_table xs ys) = length xs + 1"
  by (induction xs) (auto simp: Let_def)

lemma cell_lcs_table:
  "i \<le> length xs \<Longrightarrow> j \<le> length ys \<Longrightarrow> cell (lcs_table xs ys) i j = lcs (drop i xs) (drop j ys)"
  by (simp add: cell_def lcs_table_nth lcs_row_nth)

section \<open>The last row\<close>

fun prefix_row :: "'a list \<Rightarrow> 'a list \<Rightarrow> 'a list \<Rightarrow> nat list" where
  "prefix_row xs pre [] = [lcs xs pre]"
| "prefix_row xs pre (y # ys) = lcs xs pre # prefix_row xs (pre @ [y]) ys"

lemma prefix_row_hd [simp]: "hd (prefix_row xs pre ys) = lcs xs pre"
  by (cases ys) auto

lemma prefix_row_nth: "j \<le> length ys \<Longrightarrow> prefix_row xs pre ys ! j = lcs xs (pre @ take j ys)"
  by (induction ys arbitrary: pre j) (auto simp: nth_Cons split: nat.split)

lemma length_prefix_row [simp]: "length (prefix_row xs pre ys) = length ys + 1"
  by (induction ys arbitrary: pre) auto

lemma last_row_step_lcs:
  "lcs (xs @ [x]) pre # last_row_step x ys (prefix_row xs pre ys) (lcs (xs @ [x]) pre)
   = prefix_row (xs @ [x]) pre ys"
proof (induction ys arbitrary: pre)
  case (Cons y ys)
  show ?case
    using Cons.IH[of "pre @ [y]"] lcs_snoc[of xs x pre y]
    by (cases "x = y") (simp_all add: Let_def max.commute)
qed simp

lemma last_row_foldl:
  "foldl (\<lambda>prev x. 0 # last_row_step x ys prev 0) (prefix_row us [] ys) xs = prefix_row (us @ xs) [] ys"
proof (induction xs arbitrary: us)
  case (Cons x xs)
  then show ?case using last_row_step_lcs[of us x "[]" ys] by simp
qed simp

lemma replicate_prefix_row: "replicate (Suc (length ys)) 0 = prefix_row [] pre ys"
  by (induction ys arbitrary: pre) auto

lemma lcs_last_row_prefix:
  assumes "b_lo \<le> b_hi" "b_hi \<le> length b"
  shows "lcs_last_row a a_lo a_hi b b_lo b_hi = prefix_row (slice a a_lo a_hi) [] (slice b b_lo b_hi)"
proof -
  have "b_hi - b_lo = length (slice b b_lo b_hi)" using assms by (simp add: slice_def)
  then show ?thesis
    using last_row_foldl[of "slice b b_lo b_hi" "[]" "slice a a_lo a_hi"]
      replicate_prefix_row[of "slice b b_lo b_hi" "[]"]
    by (simp add: lcs_last_row_def)
qed

end
