(* ===== verification/DiffFacts.thy ===== *)
theory DiffFacts
  imports LcsFacts
begin

text \<open>
  \<open>diff.ts\<close>: every diff is an edit script between its two sides, and a shortest one whenever the part that
  differs fits the time budget, whichever of the two algorithms made it.
\<close>

section \<open>Slices\<close>

lemma length_slice [simp]: "hi \<le> length xs \<Longrightarrow> length (slice xs lo hi) = hi - lo"
  by (simp add: slice_def)

lemma slice_empty [simp]: "hi \<le> lo \<Longrightarrow> slice xs lo hi = []"
  by (simp add: slice_def)

lemma slice_split: "lo \<le> mid \<Longrightarrow> mid \<le> hi \<Longrightarrow> slice xs lo hi = slice xs lo mid @ slice xs mid hi"
proof -
  assume "lo \<le> mid" "mid \<le> hi"
  then have "take hi xs = take mid xs @ drop mid (take hi xs)"
    using append_take_drop_id[of mid "take hi xs"] by (simp add: min_def)
  moreover have "drop lo (take mid xs @ drop mid (take hi xs)) = drop lo (take mid xs) @ drop mid (take hi xs)"
    if "mid \<le> length xs" using that \<open>lo \<le> mid\<close> by simp
  ultimately show ?thesis
    unfolding slice_def using \<open>lo \<le> mid\<close> by (cases "mid \<le> length xs") (metis, simp)
qed

lemma slice_one: "i < length xs \<Longrightarrow> slice xs i (Suc i) = [xs ! i]"
  by (simp add: slice_def take_Suc_conv_app_nth)

lemma slice_Cons: "i < hi \<Longrightarrow> hi \<le> length xs \<Longrightarrow> slice xs i hi = xs ! i # slice xs (Suc i) hi"
  using slice_split[of i "Suc i" hi xs] slice_one[of i xs] by simp

lemma slice_map [simp]: "slice (map f xs) lo hi = map f (slice xs lo hi)"
  by (simp add: slice_def take_map drop_map)

lemma slice_nth: "i < hi - lo \<Longrightarrow> hi \<le> length xs \<Longrightarrow> slice xs lo hi ! i = xs ! (lo + i)"
  by (simp add: slice_def)

lemma slice_take: "lo \<le> hi \<Longrightarrow> j \<le> hi - lo \<Longrightarrow> take j (slice xs lo hi) = slice xs lo (lo + j)"
  by (auto simp: slice_def take_drop min_def add.commute)

lemma slice_drop: "drop j (slice xs lo hi) = slice xs (lo + j) hi"
  by (simp add: slice_def add.commute)

lemma slice_all [simp]: "slice xs 0 (length xs) = xs"
  by (simp add: slice_def)

lemma slice_thirds:
  assumes "p \<le> q" "q \<le> length xs"
  shows "xs = take p xs @ slice xs p q @ drop q xs"
proof -
  have "take q xs = take p xs @ slice xs p q"
    using slice_split[of 0 p q xs] assms by (simp add: slice_def)
  then show ?thesis using append_take_drop_id[of q xs] by simp
qed

section \<open>Edit scripts\<close>

text \<open>
  A script from line \<open>i\<close> of the old side and line \<open>j\<close> of the new one: the lines it does not add are the
  old side's with their numbers, those it does not delete the new side's, and a context line's two
  lines agree under the comparison \<open>nm\<close>.
\<close>

fun script_from :: "(string \<Rightarrow> string) \<Rightarrow> nat \<Rightarrow> nat \<Rightarrow> string list \<Rightarrow> string list \<Rightarrow> diff_line list \<Rightarrow> bool" where
  "script_from nm i j a b [] = (a = [] \<and> b = [])"
| "script_from nm i j a b (d # ds) =
     (case dl_kind d of
        Ctx \<Rightarrow> a \<noteq> [] \<and> b \<noteq> [] \<and> d = ctx_line (i + 1) (j + 1) (hd a) \<and> nm (hd a) = nm (hd b)
              \<and> script_from nm (i + 1) (j + 1) (tl a) (tl b) ds
      | Del \<Rightarrow> a \<noteq> [] \<and> d = del_line (i + 1) (hd a) \<and> script_from nm (i + 1) j (tl a) b ds
      | Add \<Rightarrow> b \<noteq> [] \<and> d = add_line (j + 1) (hd b) \<and> script_from nm i (j + 1) a (tl b) ds)"

definition ctx_count :: "diff_line list \<Rightarrow> nat" where
  "ctx_count ds = length (filter (\<lambda>d. dl_kind d = Ctx) ds)"

lemma ctx_count_simps [simp]:
  "ctx_count [] = 0" "ctx_count (ds @ es) = ctx_count ds + ctx_count es"
  "ctx_count (d # ds) = (if dl_kind d = Ctx then 1 else 0) + ctx_count ds"
  by (simp_all add: ctx_count_def)

lemma line_kinds [simp]:
  "dl_kind (del_line i t) = Del" "dl_kind (add_line j t) = Add" "dl_kind (ctx_line i j t) = Ctx"
  by (simp_all add: del_line_def add_line_def ctx_line_def)

definition best_script :: "(string \<Rightarrow> string) \<Rightarrow> nat \<Rightarrow> nat \<Rightarrow> string list \<Rightarrow> string list \<Rightarrow> diff_line list \<Rightarrow> bool" where
  "best_script nm i j a b ds = (script_from nm i j a b ds \<and> ctx_count ds = lcs (map nm a) (map nm b))"

lemma script_append:
  "script_from nm i j a b ds \<Longrightarrow> script_from nm (i + length a) (j + length b) a' b' es
   \<Longrightarrow> script_from nm i j (a @ a') (b @ b') (ds @ es)"
proof (induction ds arbitrary: i j a b)
  case (Cons d ds)
  show ?case
  proof (cases "dl_kind d")
    case Ctx
    with Cons.prems have "a \<noteq> []" "b \<noteq> []" by auto
    with Ctx Cons show ?thesis by (cases a; cases b) auto
  next
    case Del
    with Cons.prems have "a \<noteq> []" by auto
    with Del Cons show ?thesis by (cases a) auto
  next
    case Add
    with Cons.prems have "b \<noteq> []" by auto
    with Add Cons show ?thesis by (cases b) auto
  qed
qed simp

lemma script_ctx_le: "script_from nm i j a b ds \<Longrightarrow> ctx_count ds \<le> lcs (map nm a) (map nm b)"
proof -
  have "\<exists>zs. subseq zs (map nm a) \<and> subseq zs (map nm b) \<and> length zs = ctx_count ds"
    if "script_from nm i j a b ds"
    using that
  proof (induction ds arbitrary: i j a b)
    case (Cons d ds)
    show ?case
    proof (cases "dl_kind d")
      case Ctx
      with Cons.prems obtain x a' y b' where s: "a = x # a'" "b = y # b'" "nm x = nm y"
        "script_from nm (i + 1) (j + 1) a' b' ds"
        by (cases a; cases b) auto
      from Cons.IH[OF s(4)] obtain zs where
        "subseq zs (map nm a')" "subseq zs (map nm b')" "length zs = ctx_count ds" by blast
      with Ctx s show ?thesis by (intro exI[of _ "nm x # zs"]) simp
    next
      case Del
      with Cons.prems obtain x a' where s: "a = x # a'" "script_from nm (i + 1) j a' b ds"
        by (cases a) auto
      from Cons.IH[OF s(2)] show ?thesis using Del s by auto
    next
      case Add
      with Cons.prems obtain y b' where s: "b = y # b'" "script_from nm i (j + 1) a b' ds"
        by (cases b) auto
      from Cons.IH[OF s(2)] show ?thesis using Add s by auto
    qed
  qed simp
  then show "script_from nm i j a b ds \<Longrightarrow> ctx_count ds \<le> lcs (map nm a) (map nm b)"
    using lcs_upper by fastforce
qed

lemma script_dels:
  "lo \<le> hi \<Longrightarrow> hi \<le> length orig
   \<Longrightarrow> script_from nm (off + lo) j (slice orig lo hi) [] (del_lines orig off lo hi)"
proof (induction hi)
  case (Suc hi)
  show ?case
  proof (cases "lo \<le> hi")
    case True
    have "script_from nm (off + lo + length (slice orig lo hi)) (j + length ([] :: string list))
        (slice orig hi (Suc hi)) [] [del_line (off + hi + 1) (orig ! hi)]"
      using True Suc.prems by (simp add: slice_one)
    from script_append[OF Suc.IH[OF True] this] Suc.prems True slice_split[of lo hi "Suc hi" orig]
    show ?thesis by (simp add: del_lines_def)
  next
    case False
    then have "lo = Suc hi" using Suc.prems by simp
    then show ?thesis by (simp add: del_lines_def)
  qed
qed (simp add: del_lines_def)

lemma script_adds:
  "lo \<le> hi \<Longrightarrow> hi \<le> length orig
   \<Longrightarrow> script_from nm i (off + lo) [] (slice orig lo hi) (add_lines orig off lo hi)"
proof (induction hi)
  case (Suc hi)
  show ?case
  proof (cases "lo \<le> hi")
    case True
    have "script_from nm (i + length ([] :: string list)) (off + lo + length (slice orig lo hi))
        [] (slice orig hi (Suc hi)) [add_line (off + hi + 1) (orig ! hi)]"
      using True Suc.prems by (simp add: slice_one)
    from script_append[OF Suc.IH[OF True] this] Suc.prems True slice_split[of lo hi "Suc hi" orig]
    show ?thesis by (simp add: add_lines_def)
  next
    case False
    then have "lo = Suc hi" using Suc.prems by simp
    then show ?thesis by (simp add: add_lines_def)
  qed
qed (simp add: add_lines_def)

lemma ctx_count_changes [simp]:
  "ctx_count (del_lines orig off lo hi) = 0" "ctx_count (add_lines orig off lo hi) = 0"
  by (simp_all add: ctx_count_def del_lines_def add_lines_def filter_map comp_def)

lemma script_replace:
  assumes "lo \<le> hi" "hi \<le> length orig" "lo' \<le> hi'" "hi' \<le> length new"
  shows "script_from nm (off + lo) (off' + lo') (slice orig lo hi) (slice new lo' hi')
          (del_lines orig off lo hi @ add_lines new off' lo' hi')"
proof -
  have "script_from nm (off + lo + length (slice orig lo hi)) (off' + lo' + length ([] :: string list))
      [] (slice new lo' hi') (add_lines new off' lo' hi')"
    using script_adds[OF assms(3,4), of nm "off + lo + length (slice orig lo hi)" off'] by simp
  from script_append[OF script_dels[OF assms(1,2)] this] show ?thesis by simp
qed

section \<open>The dense algorithm\<close>

lemma best_Cons_same:
  assumes "nm x = nm y" and "best_script nm (i + 1) (j + 1) a b ds"
  shows "best_script nm i j (x # a) (y # b) (ctx_line (i + 1) (j + 1) x # ds)"
  using assms by (simp add: best_script_def)

lemma best_Cons_del:
  assumes "best_script nm (i + 1) j a b ds" and "lcs (map nm (x # a)) (map nm b) = lcs (map nm a) (map nm b)"
  shows "best_script nm i j (x # a) b (del_line (i + 1) x # ds)"
  using assms by (simp add: best_script_def)

lemma best_Cons_add:
  assumes "best_script nm i (j + 1) a b ds" and "lcs (map nm a) (map nm (y # b)) = lcs (map nm a) (map nm b)"
  shows "best_script nm i j a (y # b) (add_line (j + 1) y # ds)"
  using assms by (simp add: best_script_def)

lemma table_walk_best:
  assumes "p + m \<le> length a" "p + n \<le> length b" "i \<le> m" "j \<le> n"
    and "am = map nm (slice a p (p + m))" "bm = map nm (slice b p (p + n))"
  shows "best_script nm (p + i) (p + j) (slice a (p + i) (p + m)) (slice b (p + j) (p + n))
           (table_walk a b p am bm (lcs_table am bm) i j)"
  using assms(3,4)
proof (induction "(m - i) + (n - j)" arbitrary: i j rule: less_induct)
  case less
  have len: "length am = m" "length bm = n" using assms by simp_all
  show ?case
  proof (cases "i < m \<and> j < n")
    case False
    then have one: "slice a (p + i) (p + m) = [] \<or> slice b (p + j) (p + n) = []"
      using less.prems by auto
    have "script_from nm (0 + (p + i)) (0 + (p + j)) (slice a (p + i) (p + m)) (slice b (p + j) (p + n))
        (del_lines a 0 (p + i) (p + m) @ add_lines b 0 (p + j) (p + n))"
      using less.prems assms(1,2) by (intro script_replace) auto
    moreover have "lcs (map nm (slice a (p + i) (p + m))) (map nm (slice b (p + j) (p + n))) = 0"
      using one by auto
    moreover have "table_walk a b p am bm (lcs_table am bm) i j
        = del_lines a 0 (p + i) (p + m) @ add_lines b 0 (p + j) (p + n)"
      using False len by (subst table_walk.simps) auto
    ultimately show ?thesis unfolding best_script_def by simp
  next
    case True
    have d: "(m - (i + 1)) + (n - (j + 1)) < (m - i) + (n - j)"
      "(m - (i + 1)) + (n - j) < (m - i) + (n - j)" "(m - i) + (n - (j + 1)) < (m - i) + (n - j)"
      using True by linarith+
    have a: "slice a (p + i) (p + m) = a ! (p + i) # slice a (p + (i + 1)) (p + m)"
      using slice_Cons[of "p + i" "p + m" a] True assms(1) by simp
    have b: "slice b (p + j) (p + n) = b ! (p + j) # slice b (p + (j + 1)) (p + n)"
      using slice_Cons[of "p + j" "p + n" b] True assms(2) by simp
    have at: "am ! i = nm (a ! (p + i))" "bm ! j = nm (b ! (p + j))"
      using True assms by (simp_all add: slice_nth)
    have cells: "cell (lcs_table am bm) i' j'
        = lcs (map nm (slice a (p + i') (p + m))) (map nm (slice b (p + j') (p + n)))"
      if "i' \<le> m" "j' \<le> n" for i' j'
      using cell_lcs_table[of i' am j' bm] that len assms(5,6) by (simp add: drop_map slice_drop)
    have step: "table_walk a b p am bm (lcs_table am bm) i j =
        (if am ! i = bm ! j then
           ctx_line (p + i + 1) (p + j + 1) (a ! (p + i)) # table_walk a b p am bm (lcs_table am bm) (i + 1) (j + 1)
         else if cell (lcs_table am bm) i (j + 1) \<le> cell (lcs_table am bm) (i + 1) j then
           del_line (p + i + 1) (a ! (p + i)) # table_walk a b p am bm (lcs_table am bm) (i + 1) j
         else add_line (p + j + 1) (b ! (p + j)) # table_walk a b p am bm (lcs_table am bm) i (j + 1))"
      using True len by (subst table_walk.simps) simp
    show ?thesis
    proof (cases "nm (a ! (p + i)) = nm (b ! (p + j))")
      case same: True
      have "best_script nm (p + i + 1) (p + j + 1) (slice a (p + (i + 1)) (p + m)) (slice b (p + (j + 1)) (p + n))
          (table_walk a b p am bm (lcs_table am bm) (i + 1) (j + 1))"
        using less.hyps[OF d(1)] True by (simp add: add.assoc)
      from best_Cons_same[OF same this] show ?thesis using step same a b at by simp
    next
      case differ: False
      let ?A = "slice a (p + (i + 1)) (p + m)" and ?B = "slice b (p + (j + 1)) (p + n)"
      have lcs: "lcs (map nm (a ! (p + i) # ?A)) (map nm (b ! (p + j) # ?B))
          = max (cell (lcs_table am bm) (i + 1) j) (cell (lcs_table am bm) i (j + 1))"
        using differ cells[of "i + 1" j] cells[of i "j + 1"] True by (simp add: a b)
      show ?thesis
      proof (cases "cell (lcs_table am bm) i (j + 1) \<le> cell (lcs_table am bm) (i + 1) j")
        case del: True
        have "best_script nm (p + i + 1) (p + j) ?A (slice b (p + j) (p + n))
            (table_walk a b p am bm (lcs_table am bm) (i + 1) j)"
          using less.hyps[OF d(2)] True less.prems by (simp add: add.assoc)
        from best_Cons_del[OF this, of "a ! (p + i)"] show ?thesis
          using step differ del a b at lcs cells[of "i + 1" j] True by (simp add: max_def)
      next
        case add: False
        have "best_script nm (p + i) (p + j + 1) (slice a (p + i) (p + m)) ?B
            (table_walk a b p am bm (lcs_table am bm) i (j + 1))"
          using less.hyps[OF d(3)] True less.prems by (simp add: add.assoc)
        from best_Cons_add[OF this, of "b ! (p + j)"] show ?thesis
          using step differ add a b at lcs cells[of i "j + 1"] True by (simp add: max_def)
      qed
    qed
  qed
qed

section \<open>The linear-space algorithm\<close>

lemma argmax_foldl:
  fixes f :: "nat \<Rightarrow> int"
  assumes "foldl (\<lambda>(score, best) j. if score < f j then (f j, j) else (score, best)) (s0, b0) js = (s, b)"
  shows "s0 \<le> s \<and> (\<forall>j\<in>set js. f j \<le> s) \<and> ((s, b) = (s0, b0) \<or> (b \<in> set js \<and> s = f b))"
  using assms
proof (induction js arbitrary: s0 b0)
  case (Cons j js)
  show ?case
  proof (cases "s0 < f j")
    case True
    with Cons.IH[of "f j" j] Cons.prems show ?thesis by auto
  next
    case False
    with Cons.IH[of s0 b0] Cons.prems show ?thesis by auto
  qed
qed simp

lemma best_split_max:
  assumes "lo \<le> hi"
  shows "lo \<le> best_split fwd rv lo hi \<and> best_split fwd rv lo hi \<le> hi
       \<and> (\<forall>j. lo \<le> j \<and> j \<le> hi \<longrightarrow> fwd ! (j - lo) + rv ! (hi - j)
            \<le> fwd ! (best_split fwd rv lo hi - lo) + rv ! (hi - best_split fwd rv lo hi))"
proof -
  let ?f = "\<lambda>j. int (fwd ! (j - lo) + rv ! (hi - j))"
  obtain s b where fold: "foldl (\<lambda>(score, best) j. if score < ?f j then (?f j, j) else (score, best))
      (- 1, lo) [lo..<hi + 1] = (s, b)" by (cases "foldl (\<lambda>(score, best) j. if score < ?f j then (?f j, j)
        else (score, best)) (- 1, lo) [lo..<hi + 1]")
  then have b: "best_split fwd rv lo hi = b" by (simp only: best_split_def Let_def snd_conv)
  note max = argmax_foldl[OF fold]
  have le: "?f j \<le> s" if "lo \<le> j" "j \<le> hi" for j
  proof -
    have "j \<in> set [lo..<hi + 1]" using that by auto
    with max show ?thesis by blast
  qed
  have "s \<noteq> - 1" using le[of lo] assms by simp
  then have "b \<in> set [lo..<hi + 1]" "s = ?f b" using max by auto
  moreover have "fwd ! (j - lo) + rv ! (hi - j) \<le> fwd ! (b - lo) + rv ! (hi - b)"
    if "lo \<le> j" "j \<le> hi" for j
    using le[OF that] \<open>s = ?f b\<close> by linarith
  ultimately show ?thesis unfolding b by auto
qed

lemma single_line_best:
  assumes "a_lo < length a_orig" "b_lo \<le> b_hi" "b_hi \<le> length b_orig"
    and "a = map nm a_orig" "b = map nm b_orig"
  shows "best_script nm (a_off + a_lo) (b_off + b_lo) [a_orig ! a_lo] (slice b_orig b_lo b_hi)
           (single_line a a_lo b b_lo b_hi a_orig b_orig a_off b_off)"
proof (cases "find_index (\<lambda>j. b ! j = a ! a_lo) [b_lo..<b_hi]")
  case None
  then have none: "\<forall>j\<in>{b_lo..<b_hi}. b ! j \<noteq> a ! a_lo" by (simp add: find_index_None)
  have "nm (a_orig ! a_lo) \<notin> set (map nm (slice b_orig b_lo b_hi))"
    using none assms by (auto simp: in_set_conv_nth slice_nth) (metis add.commute atLeastLessThan_iff
        le_add1 less_diff_conv nth_map order.strict_trans2)
  moreover have "x \<notin> set ys \<Longrightarrow> lcs [x] ys = 0" for x :: string and ys by (induction ys) auto
  ultimately have "lcs [nm (a_orig ! a_lo)] (map nm (slice b_orig b_lo b_hi)) = 0" by blast
  moreover have "script_from nm (a_off + a_lo) (b_off + b_lo) [a_orig ! a_lo] (slice b_orig b_lo b_hi)
      (del_line (a_off + a_lo + 1) (a_orig ! a_lo) # add_lines b_orig b_off b_lo b_hi)"
    using script_adds[OF assms(2,3), of nm "a_off + a_lo + 1" b_off] by simp
  ultimately show ?thesis using None by (simp add: best_script_def single_line_def)
next
  case (Some k)
  have k: "k < b_hi - b_lo" "b ! (b_lo + k) = a ! a_lo"
    using find_index_Some[OF Some] by auto
  let ?t = "b_lo + k"
  have same: "nm (a_orig ! a_lo) = nm (b_orig ! ?t)" using k assms by auto
  have b: "slice b_orig b_lo b_hi = slice b_orig b_lo ?t @ b_orig ! ?t # slice b_orig (?t + 1) b_hi"
    using slice_split[of b_lo ?t b_hi b_orig] slice_Cons[of ?t b_hi b_orig] k(1) assms(2,3) by simp
  have "script_from nm (a_off + a_lo) (b_off + b_lo) ([] @ [a_orig ! a_lo])
      (slice b_orig b_lo ?t @ b_orig ! ?t # slice b_orig (?t + 1) b_hi)
      (add_lines b_orig b_off b_lo ?t
       @ ctx_line (a_off + a_lo + 1) (b_off + ?t + 1) (a_orig ! a_lo) # add_lines b_orig b_off (?t + 1) b_hi)"
  proof (rule script_append)
    show "script_from nm (a_off + a_lo) (b_off + b_lo) [] (slice b_orig b_lo ?t) (add_lines b_orig b_off b_lo ?t)"
      using k(1) assms(3) by (intro script_adds) auto
    have "script_from nm (a_off + a_lo + 1) (b_off + (?t + 1)) [] (slice b_orig (?t + 1) b_hi)
        (add_lines b_orig b_off (?t + 1) b_hi)"
      using k(1) assms(3) by (intro script_adds) auto
    then show "script_from nm (a_off + a_lo + length ([] :: string list)) (b_off + b_lo + length (slice b_orig b_lo ?t))
        [a_orig ! a_lo] (b_orig ! ?t # slice b_orig (?t + 1) b_hi)
        (ctx_line (a_off + a_lo + 1) (b_off + ?t + 1) (a_orig ! a_lo) # add_lines b_orig b_off (?t + 1) b_hi)"
      using same k(1) assms(3) by (simp add: add.assoc)
  qed
  then have script: "script_from nm (a_off + a_lo) (b_off + b_lo) [a_orig ! a_lo] (slice b_orig b_lo b_hi)
      (single_line a a_lo b b_lo b_hi a_orig b_orig a_off b_off)"
    using Some b by (simp add: single_line_def)
  have "lcs [nm (a_orig ! a_lo)] ys \<le> 1" for ys
    by (induction ys) auto
  moreover have "ctx_count (single_line a a_lo b b_lo b_hi a_orig b_orig a_off b_off) = 1"
    using Some by (simp add: single_line_def)
  ultimately show ?thesis
    using script script_ctx_le[OF script] unfolding best_script_def by (simp add: le_antisym)
qed

lemma best_append:
  assumes "best_script nm i j a b ds" and "best_script nm (i + length a) (j + length b) a' b' es"
    and "lcs (map nm (a @ a')) (map nm (b @ b')) = lcs (map nm a) (map nm b) + lcs (map nm a') (map nm b')"
  shows "best_script nm i j (a @ a') (b @ b') (ds @ es)"
  using assms script_append[of nm i j a b ds a' b' es] by (simp add: best_script_def)

text \<open>Where the halves are cut, their common subsequences add up to the whole's.\<close>

lemma split_is_best:
  assumes "a_lo \<le> a_mid" "a_mid \<le> a_hi" "b_lo \<le> b_hi" "b_hi \<le> length b"
    and "best = best_split (lcs_last_row a a_lo a_mid b b_lo b_hi)
           (lcs_last_row (rev (slice a a_mid a_hi)) 0 (length (rev (slice a a_mid a_hi)))
              (rev (slice b b_lo b_hi)) 0 (length (rev (slice b b_lo b_hi)))) b_lo b_hi"
  shows "b_lo \<le> best \<and> best \<le> b_hi
       \<and> lcs (slice a a_lo a_hi) (slice b b_lo b_hi)
         = lcs (slice a a_lo a_mid) (slice b b_lo best) + lcs (slice a a_mid a_hi) (slice b best b_hi)"
proof -
  let ?B = "slice b b_lo b_hi" and ?L = "slice a a_lo a_mid" and ?R = "slice a a_mid a_hi"
  let ?fwd = "lcs_last_row a a_lo a_mid b b_lo b_hi"
  let ?rv = "lcs_last_row (rev ?R) 0 (length (rev ?R)) (rev ?B) 0 (length (rev ?B))"
  have len: "length ?B = b_hi - b_lo" using assms(4) by simp
  have fwd: "?fwd ! k = lcs ?L (take k ?B)" if "k \<le> length ?B" for k
    using lcs_last_row_prefix[OF assms(3,4)] prefix_row_nth[OF that, of ?L "[]"] by simp
  have rv: "?rv ! k = lcs ?R (drop (length ?B - k) ?B)" if "k \<le> length ?B" for k
  proof -
    have "?rv = prefix_row (rev ?R) [] (rev ?B)"
      using lcs_last_row_prefix[of 0 "length (rev ?B)" "rev ?B" "rev ?R" 0 "length (rev ?R)"] by (simp only: slice_all)
    then show ?thesis
      using prefix_row_nth[of k "rev ?B" "rev ?R" "[]"] that
        lcs_rev[of ?R "drop (length ?B - k) ?B"] by (simp add: rev_drop)
  qed
  have score: "?fwd ! (j - b_lo) + ?rv ! (b_hi - j) = lcs ?L (slice b b_lo j) + lcs ?R (slice b j b_hi)"
    if "b_lo \<le> j" "j \<le> b_hi" for j
  proof -
    have "length ?B - (b_hi - j) = j - b_lo" using that len by simp
    then show ?thesis
      using fwd[of "j - b_lo"] rv[of "b_hi - j"] that len slice_take[of b_lo b_hi "j - b_lo" b]
        slice_drop[of "j - b_lo" b b_lo b_hi] by simp
  qed
  have bounds: "b_lo \<le> best" "best \<le> b_hi" and
    max: "\<And>j. b_lo \<le> j \<Longrightarrow> j \<le> b_hi \<Longrightarrow> lcs ?L (slice b b_lo j) + lcs ?R (slice b j b_hi)
        \<le> lcs ?L (slice b b_lo best) + lcs ?R (slice b best b_hi)"
    using best_split_max[OF assms(3), of ?fwd ?rv] score unfolding assms(5)[symmetric] by auto
  have whole: "slice a a_lo a_hi = ?L @ ?R" "?B = slice b b_lo best @ slice b best b_hi"
    using slice_split[OF assms(1,2)] slice_split[OF bounds] by blast+
  obtain j where j: "j \<le> length ?B" "lcs (?L @ ?R) ?B = lcs ?L (take j ?B) + lcs ?R (drop j ?B)"
    using lcs_split by blast
  then have "lcs (?L @ ?R) ?B = lcs ?L (slice b b_lo (b_lo + j)) + lcs ?R (slice b (b_lo + j) b_hi)"
    using slice_take[of b_lo b_hi j b] slice_drop[of j b b_lo b_hi] len assms(3) by simp
  also have "\<dots> \<le> lcs ?L (slice b b_lo best) + lcs ?R (slice b best b_hi)"
    using max[of "b_lo + j"] j(1) len assms(3) by simp
  finally have "lcs (?L @ ?R) ?B \<le> lcs ?L (slice b b_lo best) + lcs ?R (slice b best b_hi)" .
  moreover have "lcs ?L (slice b b_lo best) + lcs ?R (slice b best b_hi) \<le> lcs (?L @ ?R) ?B"
    using lcs_append_le[of ?L "slice b b_lo best" ?R "slice b best b_hi"] whole(2) by simp
  ultimately show ?thesis using bounds whole(1) by simp
qed

lemma hirschberg_best:
  assumes "a_hi \<le> length a_orig" "b_hi \<le> length b_orig" "b_lo \<le> b_hi" "a_lo < a_hi"
    and "a = map nm a_orig" "b = map nm b_orig"
  shows "\<exists>ds. hirschberg_diff a a_lo a_hi b b_lo b_hi a_orig b_orig a_off b_off = Some ds
     \<and> best_script nm (a_off + a_lo) (b_off + b_lo) (slice a_orig a_lo a_hi) (slice b_orig b_lo b_hi) ds"
  using assms(1-4)
proof (induction "a_hi - a_lo" arbitrary: a_lo a_hi b_lo b_hi rule: less_induct)
  case less
  consider "b_hi = b_lo" | "b_lo < b_hi" "a_hi = a_lo + 1" | "b_lo < b_hi" "a_lo + 2 \<le> a_hi"
    using less.prems by linarith
  then show ?case
  proof cases
    case 1
    then show ?thesis
      using script_dels[of a_lo a_hi a_orig nm a_off "b_off + b_lo"] less.prems
      by (subst hirschberg_diff.simps) (simp add: best_script_def Let_def)
  next
    case 2
    have "slice a_orig a_lo a_hi = [a_orig ! a_lo]" using 2 less.prems slice_one[of a_lo a_orig] by simp
    then show ?thesis
      using single_line_best[of a_lo a_orig b_lo b_hi b_orig a nm b a_off b_off] 2 less.prems assms(5,6)
      by (subst hirschberg_diff.simps) (simp add: Let_def)
  next
    case 3
    let ?mid = "a_lo + (a_hi - a_lo) div 2"
    let ?R = "rev (slice a ?mid a_hi)" and ?B = "rev (slice b b_lo b_hi)"
    define best where "best = best_split (lcs_last_row a a_lo ?mid b b_lo b_hi)
        (lcs_last_row ?R 0 (length ?R) ?B 0 (length ?B)) b_lo b_hi"
    have mid: "a_lo < ?mid" "?mid < a_hi" using 3(2) by linarith+
    have d: "?mid - a_lo < a_hi - a_lo" "a_hi - ?mid < a_hi - a_lo" using mid by linarith+
    have big: "a_hi - a_lo \<noteq> 1" "b_hi - b_lo \<noteq> 0" using 3 by linarith+
    have hi: "b_hi \<le> length b" using less.prems assms(6) by simp
    have cut: "b_lo \<le> best" "best \<le> b_hi"
      "lcs (slice a a_lo a_hi) (slice b b_lo b_hi)
       = lcs (slice a a_lo ?mid) (slice b b_lo best) + lcs (slice a ?mid a_hi) (slice b best b_hi)"
      using split_is_best[OF less_imp_le[OF mid(1)] less_imp_le[OF mid(2)] less.prems(3) hi best_def] by blast+
    obtain ds where ds: "hirschberg_diff a a_lo ?mid b b_lo best a_orig b_orig a_off b_off = Some ds"
      "best_script nm (a_off + a_lo) (b_off + b_lo) (slice a_orig a_lo ?mid) (slice b_orig b_lo best) ds"
      using less.hyps[OF d(1) _ _ cut(1) mid(1)] mid cut(2) less.prems by fastforce
    obtain es where es: "hirschberg_diff a ?mid a_hi b best b_hi a_orig b_orig a_off b_off = Some es"
      "best_script nm (a_off + ?mid) (b_off + best) (slice a_orig ?mid a_hi) (slice b_orig best b_hi) es"
      using less.hyps[OF d(2) less.prems(1,2) cut(2) mid(2)] by blast
    have ret: "hirschberg_diff a a_lo a_hi b b_lo b_hi a_orig b_orig a_off b_off = Some (ds @ es)"
      using ds(1) es(1) big unfolding best_def by (subst hirschberg_diff.simps) (simp add: Let_def)
    have "best_script nm (a_off + a_lo) (b_off + b_lo) (slice a_orig a_lo ?mid @ slice a_orig ?mid a_hi)
        (slice b_orig b_lo best @ slice b_orig best b_hi) (ds @ es)"
    proof (rule best_append[OF ds(2)])
      show "best_script nm (a_off + a_lo + length (slice a_orig a_lo ?mid)) (b_off + b_lo + length (slice b_orig b_lo best))
          (slice a_orig ?mid a_hi) (slice b_orig best b_hi) es"
        using es(2) mid cut(1,2) less.prems by (simp add: add.assoc)
      show "lcs (map nm (slice a_orig a_lo ?mid @ slice a_orig ?mid a_hi))
          (map nm (slice b_orig b_lo best @ slice b_orig best b_hi))
        = lcs (map nm (slice a_orig a_lo ?mid)) (map nm (slice b_orig b_lo best))
          + lcs (map nm (slice a_orig ?mid a_hi)) (map nm (slice b_orig best b_hi))"
        using cut(3) slice_split[of a_lo ?mid a_hi a] slice_split[of b_lo best b_hi b] mid cut(1,2) assms(5,6)
        by simp
    qed
    then show ?thesis
      using ret slice_split[of a_lo ?mid a_hi a_orig] slice_split[of b_lo best b_hi b_orig] mid cut(1,2) by simp
  qed
qed

section \<open>The whole diff\<close>

lemma common_prefix_facts:
  "common_prefix k xs ys \<le> k \<and> common_prefix k xs ys \<le> length xs \<and> common_prefix k xs ys \<le> length ys
   \<and> take (common_prefix k xs ys) xs = take (common_prefix k xs ys) ys"
  by (induction k xs ys rule: common_prefix.induct) auto

lemma script_ctxs:
  assumes "h \<le> length as" "h \<le> length bs" "\<forall>k<h. nm (as ! k) = nm (bs ! k)"
  shows "script_from nm i j (take h as) (take h bs) (map (\<lambda>k. ctx_line (i + k + 1) (j + k + 1) (as ! k)) [0..<h])"
  using assms
proof (induction h)
  case (Suc h)
  have "script_from nm (i + length (take h as)) (j + length (take h bs)) [as ! h] [bs ! h]
      [ctx_line (i + h + 1) (j + h + 1) (as ! h)]"
    using Suc.prems by simp
  from script_append[OF Suc.IH this] Suc.prems show ?case
    by (simp add: take_Suc_conv_app_nth)
qed simp

lemma diff_middle_script:
  assumes "p + s \<le> length a" "p + s \<le> length b"
  shows "\<exists>ds. diff_middle a b (map nm a) (map nm b) p s = Some ds
     \<and> script_from nm p p (slice a p (length a - s)) (slice b p (length b - s)) ds
     \<and> ((length a - s - p) * (length b - s - p) \<le> time_budget_cells
        \<longrightarrow> best_script nm p p (slice a p (length a - s)) (slice b p (length b - s)) ds)"
proof -
  define m n where mn: "m = length a - s - p" "n = length b - s - p"
  have hi: "length a - s = p + m" "length b - s = p + n" using assms mn by simp_all
  consider "m = 0 \<and> n = 0" | "\<not> (m = 0 \<and> n = 0)" "time_budget_cells < m * n"
    | "\<not> (m = 0 \<and> n = 0)" "m * n \<le> time_budget_cells" "space_threshold < m * n"
    | "\<not> (m = 0 \<and> n = 0)" "m * n \<le> time_budget_cells" "m * n \<le> space_threshold"
    by linarith
  then show ?thesis
  proof cases
    case 1
    then show ?thesis by (simp add: diff_middle_def Let_def hi best_script_def)
  next
    case 2
    have "script_from nm (0 + p) (0 + p) (slice a p (p + m)) (slice b p (p + n))
        (del_lines a 0 p (p + m) @ add_lines b 0 p (p + n))"
      using assms hi by (intro script_replace) auto
    then show ?thesis using 2 by (simp add: diff_middle_def Let_def hi mn[symmetric])
  next
    case 3
    let ?a = "slice a p (p + m)" and ?b = "slice b p (p + n)"
    have len: "length ?a = m" "length ?b = n" using hi by simp_all
    have "0 < m" using 3 by (cases m) auto
    then obtain ds where ds: "hirschberg_diff (map nm ?a) 0 m (map nm ?b) 0 n ?a ?b p p = Some ds"
      "best_script nm (p + 0) (p + 0) (slice ?a 0 m) (slice ?b 0 n) ds"
      using hirschberg_best[of m ?a n ?b 0 0 "map nm ?a" nm "map nm ?b" p p] len by auto
    have "slice ?a 0 m = ?a" "slice ?b 0 n = ?b" using len slice_all by metis+
    with ds 3 show ?thesis
      by (simp add: diff_middle_def Let_def hi mn[symmetric] best_script_def)
  next
    case 4
    have "best_script nm (p + 0) (p + 0) (slice a (p + 0) (p + m)) (slice b (p + 0) (p + n))
        (table_walk a b p (map nm (slice a p (p + m))) (map nm (slice b p (p + n)))
          (lcs_table (map nm (slice a p (p + m))) (map nm (slice b p (p + n)))) 0 0)"
      using hi by (intro table_walk_best) auto
    with 4 show ?thesis
      by (simp add: diff_middle_def Let_def hi mn[symmetric] best_script_def)
  qed
qed

lemma diff_line_arrays_script:
  fixes a b :: "string list"
  assumes "nm = normalize_line ignore_ws"
  shows "\<exists>ds. diff_line_arrays a b ignore_ws = Some ds \<and> script_from nm 0 0 a b ds
     \<and> (length a * length b \<le> time_budget_cells \<longrightarrow> best_script nm 0 0 a b ds)"
proof -
  let ?an = "map nm a" and ?bn = "map nm b"
  define p where p: "p = common_prefix (min (length a) (length b)) ?an ?bn"
  define s where s: "s = common_prefix (min (length a) (length b) - p) (rev ?an) (rev ?bn)"
  have p_le: "p \<le> length a" "p \<le> length b" "take p ?an = take p ?bn"
    using common_prefix_facts[of "min (length a) (length b)" ?an ?bn] by (simp_all add: p)
  have trim: "s \<le> min (length a) (length b) - p" and same: "take s (rev ?an) = take s (rev ?bn)"
    using common_prefix_facts[of "min (length a) (length b) - p" "rev ?an" "rev ?bn"]
    unfolding s by blast+
  have s_le: "p + s \<le> length a" "p + s \<le> length b" using trim p_le by linarith+
  have suffix: "map nm (drop (length a - s) a) = map nm (drop (length b - s) b)"
    using arg_cong[OF same, of rev] by (simp add: take_rev drop_map)
  have prefix: "map nm (take p b) = map nm (take p a)" using p_le(3) by (simp add: take_map)
  have front: "script_from nm 0 0 (take p a) (take p b) (map (\<lambda>k. ctx_line (k + 1) (k + 1) (a ! k)) [0..<p])"
  proof -
    have "\<forall>k<p. nm (a ! k) = nm (b ! k)"
      using p_le by (metis nth_map nth_take order_less_le_trans)
    from script_ctxs[OF p_le(1,2) this, of 0 0] show ?thesis by simp
  qed
  obtain ms where middle: "diff_middle a b ?an ?bn p s = Some ms"
    "script_from nm p p (slice a p (length a - s)) (slice b p (length b - s)) ms"
    "(length a - s - p) * (length b - s - p) \<le> time_budget_cells
     \<Longrightarrow> best_script nm p p (slice a p (length a - s)) (slice b p (length b - s)) ms"
    using diff_middle_script[OF s_le] by blast
  let ?ta = "drop (length a - s) a" and ?tb = "drop (length b - s) b"
  let ?rear = "map (\<lambda>k. ctx_line (length a - s + k + 1) (length b - s + k + 1) (a ! (length a - s + k))) [0..<s]"
  have tail: "script_from nm (length a - s) (length b - s) ?ta ?tb ?rear"
  proof -
    have len: "length ?ta = s" "length ?tb = s" using s_le by simp_all
    have "\<forall>k<s. nm (?ta ! k) = nm (?tb ! k)" using suffix len by (metis nth_map)
    from script_ctxs[of s ?ta ?tb nm "length a - s" "length b - s"] this len s_le
    show ?thesis by simp
  qed
  let ?ds = "map (\<lambda>k. ctx_line (k + 1) (k + 1) (a ! k)) [0..<p] @ ms @ ?rear"
  have a: "a = take p a @ slice a p (length a - s) @ ?ta"
    and b: "b = take p b @ slice b p (length b - s) @ ?tb"
    using s_le by (intro slice_thirds; linarith)+
  have "script_from nm p p (slice a p (length a - s) @ ?ta) (slice b p (length b - s) @ ?tb) (ms @ ?rear)"
    using script_append[OF middle(2), of ?ta ?tb ?rear] tail s_le by simp
  then have script: "script_from nm 0 0 (take p a @ slice a p (length a - s) @ ?ta)
      (take p b @ slice b p (length b - s) @ ?tb) ?ds"
    using script_append[OF front] p_le by simp
  have ret: "diff_line_arrays a b ignore_ws = Some ?ds"
    using middle(1) unfolding diff_line_arrays_def Let_def assms[symmetric] p[symmetric] s[symmetric]
    by simp
  have "ctx_count ?ds = lcs (map nm a) (map nm b)" if "length a * length b \<le> time_budget_cells"
  proof -
    have "(length a - s - p) * (length b - s - p) \<le> length a * length b" by (intro mult_le_mono) auto
    then have "ctx_count ms = lcs (map nm (slice a p (length a - s))) (map nm (slice b p (length b - s)))"
      using middle(3) that by (simp add: best_script_def)
    moreover have "lcs (map nm a) (map nm b) = p + (lcs (map nm (slice a p (length a - s)))
        (map nm (slice b p (length b - s))) + s)"
    proof -
      have "map nm b = map nm (take p a) @ map nm (slice b p (length b - s)) @ map nm ?ta"
        using arg_cong[OF b, of "map nm"] prefix suffix by simp
      then have "lcs (map nm a) (map nm b) = lcs (map nm (take p a) @ map nm (slice a p (length a - s)) @ map nm ?ta)
          (map nm (take p a) @ map nm (slice b p (length b - s)) @ map nm ?ta)"
        using arg_cong[OF a, of "map nm"] by simp
      then show ?thesis
        unfolding lcs_same_prefix lcs_same_suffix using p_le s_le by simp
    qed
    ultimately show ?thesis by (simp add: ctx_count_def filter_map comp_def)

  qed
  with script ret a b show ?thesis by (auto simp: best_script_def)
qed

section \<open>The properties\<close>

lemma stats_counts:
  "st_adds (stats ds) = length (filter (\<lambda>d. dl_kind d = Add) ds)"
  "st_dels (stats ds) = length (filter (\<lambda>d. dl_kind d = Del) ds)"
  "st_ctx (stats ds) = ctx_count ds"
proof -
  have "st_adds (foldl count_line s ds) = st_adds s + length (filter (\<lambda>d. dl_kind d = Add) ds)
      \<and> st_dels (foldl count_line s ds) = st_dels s + length (filter (\<lambda>d. dl_kind d = Del) ds)
      \<and> st_ctx (foldl count_line s ds) = st_ctx s + ctx_count ds" for s
    by (induction ds arbitrary: s) (auto simp: count_line_def split: diff_kind.split)
  then show "st_adds (stats ds) = length (filter (\<lambda>d. dl_kind d = Add) ds)"
    "st_dels (stats ds) = length (filter (\<lambda>d. dl_kind d = Del) ds)" "st_ctx (stats ds) = ctx_count ds"
    by (simp_all add: stats_def)
qed

lemma script_lengths:
  "script_from nm i j a b ds
   \<Longrightarrow> length a = ctx_count ds + length (filter (\<lambda>d. dl_kind d = Del) ds)
     \<and> length b = ctx_count ds + length (filter (\<lambda>d. dl_kind d = Add) ds)"
proof (induction ds arbitrary: i j a b)
  case (Cons d ds)
  then show ?case
    by (cases "dl_kind d"; cases a; cases b) fastforce+
qed simp

lemma script_old_side:
  "script_from nm i j a b ds
   \<Longrightarrow> map (\<lambda>d. (dl_old d, dl_text d)) (filter (\<lambda>d. dl_kind d \<noteq> Add) ds) = enumerate (i + 1) a"
proof (induction ds arbitrary: i j a b)
  case (Cons d ds)
  show ?case
  proof (cases "dl_kind d")
    case Add
    with Cons show ?thesis by auto
  next
    case Del
    with Cons show ?thesis by (cases a) (auto simp: del_line_def)
  next
    case Ctx
    with Cons show ?thesis by (cases a) (auto simp: ctx_line_def)
  qed
qed simp

lemma script_new_side:
  "script_from nm i j a b ds
   \<Longrightarrow> map (\<lambda>d. (dl_new d, nm (dl_text d))) (filter (\<lambda>d. dl_kind d \<noteq> Del) ds) = enumerate (j + 1) (map nm b)"
proof (induction ds arbitrary: i j a b)
  case (Cons d ds)
  show ?case
  proof (cases "dl_kind d")
    case Del
    with Cons show ?thesis by auto
  next
    case Add
    with Cons show ?thesis by (cases b) (auto simp: add_line_def)
  next
    case Ctx
    with Cons show ?thesis by (cases b) (auto simp: ctx_line_def)
  qed
qed simp

text \<open>
  C23. A line diff is an edit script: it always returns, its kept and deleted rows are the old file's
  lines with their numbers, its kept and added rows are the new file's with theirs, compared as the
  options say, and the counts a footer states are the rows of that script.
\<close>

theorem line_diff_is_an_edit_script:
  "\<exists>ds. line_diff old_text new_text ignore_ws = Some ds
     \<and> map (\<lambda>d. (dl_old d, dl_text d)) (filter (\<lambda>d. dl_kind d \<noteq> Add) ds) = enumerate 1 (split_lines old_text)
     \<and> map (\<lambda>d. (dl_new d, normalize_line ignore_ws (dl_text d))) (filter (\<lambda>d. dl_kind d \<noteq> Del) ds)
       = enumerate 1 (map (normalize_line ignore_ws) (split_lines new_text))
     \<and> length (split_lines old_text) = st_ctx (stats ds) + st_dels (stats ds)
     \<and> length (split_lines new_text) = st_ctx (stats ds) + st_adds (stats ds)"
proof -
  obtain ds where "line_diff old_text new_text ignore_ws = Some ds"
    "script_from (normalize_line ignore_ws) 0 0 (split_lines old_text) (split_lines new_text) ds"
    using diff_line_arrays_script[OF refl, where ignore_ws = ignore_ws and a = "split_lines old_text" and b = "split_lines new_text"]
    by (auto simp: line_diff_def)
  then show ?thesis
    using script_old_side script_new_side script_lengths by (fastforce simp: stats_counts)
qed

text \<open>
  C24. A line diff is a shortest one while the two files are within the time budget, whether the dense
  table or the linear-space recursion made it: no sequence of lines common to both is longer than the
  rows it keeps, and the footer's counts are the smallest any script could state.
\<close>

theorem line_diff_is_shortest:
  assumes "length (split_lines old_text) * length (split_lines new_text) \<le> time_budget_cells"
  shows "\<exists>ds. line_diff old_text new_text ignore_ws = Some ds
     \<and> (\<forall>common. subseq common (map (normalize_line ignore_ws) (split_lines old_text))
          \<longrightarrow> subseq common (map (normalize_line ignore_ws) (split_lines new_text))
          \<longrightarrow> length common \<le> st_ctx (stats ds))
     \<and> (\<forall>es. script_from (normalize_line ignore_ws) 0 0 (split_lines old_text) (split_lines new_text) es
          \<longrightarrow> st_adds (stats ds) \<le> st_adds (stats es) \<and> st_dels (stats ds) \<le> st_dels (stats es))
     \<and> (\<not> ignore_ws \<longrightarrow> line_delta old_text new_text = Some (st_adds (stats ds), st_dels (stats ds)))"
proof -
  let ?nm = "normalize_line ignore_ws" and ?a = "split_lines old_text" and ?b = "split_lines new_text"
  obtain ds where ds: "line_diff old_text new_text ignore_ws = Some ds" "best_script ?nm 0 0 ?a ?b ds"
    using diff_line_arrays_script[OF refl, where ignore_ws = ignore_ws and a = ?a and b = ?b] assms by (auto simp: line_diff_def)
  then have ctx: "st_ctx (stats ds) = lcs (map ?nm ?a) (map ?nm ?b)" and script: "script_from ?nm 0 0 ?a ?b ds"
    by (simp_all add: best_script_def stats_counts)
  have "st_adds (stats ds) \<le> st_adds (stats es) \<and> st_dels (stats ds) \<le> st_dels (stats es)"
    if "script_from ?nm 0 0 ?a ?b es" for es
    using script_lengths[OF that] script_lengths[OF script] script_ctx_le[OF that] ctx
    by (simp add: stats_counts)
  moreover have "\<not> ignore_ws \<Longrightarrow> line_delta old_text new_text = Some (st_adds (stats ds), st_dels (stats ds))"
    using ds(1) by (simp add: line_delta_def line_diff_def)
  ultimately show ?thesis using ds(1) ctx lcs_upper by metis
qed

theorem line_diff_is_shortest_witness:
  "\<exists>ds. line_diff [CHR ''a'', newline, CHR ''b''] [CHR ''b''] False = Some ds \<and> 1 \<le> st_ctx (stats ds)"
proof -
  have lines: "split_lines [CHR ''a'', newline, CHR ''b''] = [''a'', ''b'']" "split_lines [CHR ''b''] = [''b'']"
    by code_simp+
  then have "length (split_lines [CHR ''a'', newline, CHR ''b'']) * length (split_lines [CHR ''b''])
      \<le> time_budget_cells" by (simp add: time_budget_cells_def)
  from line_diff_is_shortest[OF this, of False] obtain ds where
    "line_diff [CHR ''a'', newline, CHR ''b''] [CHR ''b''] False = Some ds"
    "\<forall>common. subseq common [''a'', ''b''] \<longrightarrow> subseq common [''b''] \<longrightarrow> length common \<le> st_ctx (stats ds)"
    by (auto simp: lines normalize_line_def)
  moreover from this(2)[rule_format, of "[''b'']"] have "1 \<le> st_ctx (stats ds)" by simp
  ultimately show ?thesis by blast
qed

end
