(* ===== verification/WordFacts.thy ===== *)
theory WordFacts
  imports WordDiff
begin

text \<open>
  \<open>diff.ts\<close>: two lines' word marks cover exactly what the lines do not share, in few, ordered, separate
  ranges; and a window keeps whole hunks from the front of a diff.
\<close>

section \<open>Tokens\<close>

fun consecutive :: "nat \<Rightarrow> word_token list \<Rightarrow> bool" where
  "consecutive i [] = True"
| "consecutive i (t # ts) =
     (wt_start t = i \<and> wt_text t \<noteq> [] \<and> consecutive (i + length (wt_text t)) ts)"

lemma token_at_prefix: "token_at c s @ drop (length (token_at c s) - 1) s = c # s"
  by (simp add: token_at_def dropWhile_eq_drop[symmetric])

lemma split_words_consecutive:
  "consecutive i (split_words_from i s) \<and> concat (map wt_text (split_words_from i s)) = s"
proof (induction i s rule: split_words_from.induct)
  case (2 i c s)
  then show ?case using token_at_prefix[of c s] by (auto simp: Let_def token_at_def)
qed simp

text \<open>Which tokens a walk drops; the others are kept.\<close>

definition dropped :: "word_token list \<Rightarrow> bool list \<Rightarrow> word_token list" where
  "dropped ts keep = map fst (filter (\<lambda>(t, k). \<not> k) (zip ts keep))"

definition kept :: "word_token list \<Rightarrow> bool list \<Rightarrow> string list" where
  "kept ts keep = map (wt_text \<circ> fst) (filter snd (zip ts keep))"

lemma dropped_simps [simp]:
  "dropped [] keep = []" "dropped (t # ts) (k # ks) = (if k then dropped ts ks else t # dropped ts ks)"
  "dropped ts [] = []"
  by (auto simp: dropped_def)

lemma kept_simps [simp]:
  "kept [] keep = []" "kept (t # ts) (k # ks) = (if k then wt_text t # kept ts ks else kept ts ks)"
  "kept ts [] = []"
  by (auto simp: kept_def)

lemma dropped_all: "dropped ts (replicate (length ts) False) = ts \<and> kept ts (replicate (length ts) False) = []"
  by (induction ts) auto

definition ink_of :: "string list \<Rightarrow> nat" where
  "ink_of ws = sum_list (map (\<lambda>w. if js_trim w \<noteq> [] then length w else 0) ws)"

lemma ink_of_Cons: "ink_of (w # ws) = (if js_trim w \<noteq> [] then length w else 0) + ink_of ws"
  by (simp add: ink_of_def)

lemma word_walk_marks:
  assumes "i \<le> length a" "j \<le> length b"
  shows "\<exists>ka kb. length ka = length a - i \<and> length kb = length b - j
     \<and> kept (drop i a) ka = kept (drop j b) kb
     \<and> word_walk a b t i j del add ink
       = (foldl push_char_range del (dropped (drop i a) ka), foldl push_char_range add (dropped (drop j b) kb),
          ink + ink_of (kept (drop i a) ka))"
  using assms
proof (induction a b t i j del add ink rule: word_walk.induct)
  case (1 a b t i j del add ink)
  show ?case
  proof (cases "i < length a \<and> j < length b")
    case False
    then have "word_walk a b t i j del add ink
        = (foldl push_char_range del (drop i a), foldl push_char_range add (drop j b), ink)"
      by (subst word_walk.simps) auto
    moreover have "ink_of (kept (drop i a) (replicate (length (drop i a)) False)) = 0"
      using dropped_all[of "drop i a"] by (simp add: ink_of_def)
    ultimately show ?thesis
      using dropped_all[of "drop i a"] dropped_all[of "drop j b"] length_replicate length_drop
      by (metis add_0_right)

  next
    case True
    then have a: "drop i a = a ! i # drop (i + 1) a" and b: "drop j b = b ! j # drop (j + 1) b"
      by (simp_all add: Cons_nth_drop_Suc)
    show ?thesis
    proof (cases "wt_text (a ! i) = wt_text (b ! j)")
      case same: True
      let ?ink = "if js_trim (wt_text (a ! i)) \<noteq> [] then ink + length (wt_text (a ! i)) else ink"
      from "1.IH"(1)[OF True same] True obtain ka kb where k:
        "length ka = length a - (i + 1)" "length kb = length b - (j + 1)"
        "kept (drop (i + 1) a) ka = kept (drop (j + 1) b) kb"
        "word_walk a b t (i + 1) (j + 1) del add ?ink
         = (foldl push_char_range del (dropped (drop (i + 1) a) ka), foldl push_char_range add (dropped (drop (j + 1) b) kb),
            ?ink + ink_of (kept (drop (i + 1) a) ka))" by auto
      have "word_walk a b t i j del add ink = word_walk a b t (i + 1) (j + 1) del add ?ink"
        using True same by (subst word_walk.simps) simp
      moreover have "length (True # ka) = length a - i" "length (True # kb) = length b - j"
        using k(1,2) True by auto
      moreover have "kept (drop i a) (True # ka) = kept (drop j b) (True # kb)"
        "dropped (drop i a) (True # ka) = dropped (drop (i + 1) a) ka"
        "dropped (drop j b) (True # kb) = dropped (drop (j + 1) b) kb"
        "ink + ink_of (kept (drop i a) (True # ka)) = ?ink + ink_of (kept (drop (i + 1) a) ka)"
        unfolding a b using k(3) same by (simp_all add: ink_of_Cons)
      ultimately show ?thesis using k(4) by metis
    next
      case differ: False
      show ?thesis
      proof (cases "cell t i (j + 1) \<le> cell t (i + 1) j")
        case le: True
        from "1.IH"(2)[OF True differ le] True obtain ka kb where k:
          "length ka = length a - (i + 1)" "length kb = length b - j"
          "kept (drop (i + 1) a) ka = kept (drop j b) kb"
          "word_walk a b t (i + 1) j (push_char_range del (a ! i)) add ink
           = (foldl push_char_range (push_char_range del (a ! i)) (dropped (drop (i + 1) a) ka),
              foldl push_char_range add (dropped (drop j b) kb), ink + ink_of (kept (drop (i + 1) a) ka))" by auto
        have "word_walk a b t i j del add ink = word_walk a b t (i + 1) j (push_char_range del (a ! i)) add ink"
          using True differ le by (subst word_walk.simps) simp
        moreover have "length (False # ka) = length a - i" using k(1) True by auto
        moreover have "kept (drop i a) (False # ka) = kept (drop (i + 1) a) ka"
          "dropped (drop i a) (False # ka) = a ! i # dropped (drop (i + 1) a) ka"
          unfolding a by simp_all
        ultimately show ?thesis using k(2-4) by (metis foldl_Cons)
      next
        case gt: False
        from "1.IH"(3)[OF True differ gt] True obtain ka kb where k:
          "length ka = length a - i" "length kb = length b - (j + 1)"
          "kept (drop i a) ka = kept (drop (j + 1) b) kb"
          "word_walk a b t i (j + 1) del (push_char_range add (b ! j)) ink
           = (foldl push_char_range del (dropped (drop i a) ka),
              foldl push_char_range (push_char_range add (b ! j)) (dropped (drop (j + 1) b) kb),
              ink + ink_of (kept (drop i a) ka))" by auto
        have "word_walk a b t i j del add ink = word_walk a b t i (j + 1) del (push_char_range add (b ! j)) ink"
          using True differ gt by (subst word_walk.simps) simp
        moreover have "length (False # kb) = length b - j" using k(2) True by auto
        moreover have "kept (drop j b) (False # kb) = kept (drop (j + 1) b) kb"
          "dropped (drop j b) (False # kb) = b ! j # dropped (drop (j + 1) b) kb"
          unfolding b by simp_all
        ultimately show ?thesis using k(1,3,4) by (metis foldl_Cons)
      qed
    qed
  qed
qed

section \<open>Ranges\<close>

definition marked :: "char_range list \<Rightarrow> nat \<Rightarrow> bool" where
  "marked rs k = (\<exists>r\<in>set rs. cr_start r \<le> k \<and> k < cr_end r)"

text \<open>Non-empty, in order, with a gap between neighbours, ending by \<open>e\<close>.\<close>

definition separate :: "char_range list \<Rightarrow> nat \<Rightarrow> bool" where
  "separate rs e =
     (sorted_wrt (\<lambda>r q. cr_end r < cr_start q) rs \<and> (\<forall>r\<in>set rs. cr_start r < cr_end r \<and> cr_end r \<le> e))"

lemma separate_mono: "separate rs e \<Longrightarrow> e \<le> e' \<Longrightarrow> separate rs e'"
  by (auto simp: separate_def)

lemma separate_Nil [simp]: "separate [] e"
  by (simp add: separate_def)

lemma separate_snoc:
  "separate (rs @ [r]) e \<longleftrightarrow> separate rs e \<and> (\<forall>q\<in>set rs. cr_end q < cr_start r)
     \<and> cr_start r < cr_end r \<and> cr_end r \<le> e"
  by (auto simp: separate_def sorted_wrt_append)

lemma push_char_range_marks:
  assumes "separate rs i" "wt_start t = i" "wt_text t \<noteq> []"
  shows "separate (push_char_range rs t) (i + length (wt_text t))
     \<and> (\<forall>k. marked (push_char_range rs t) k \<longleftrightarrow> marked rs k \<or> (i \<le> k \<and> k < i + length (wt_text t)))"
proof (cases "rs \<noteq> [] \<and> cr_end (last rs) = i")
  case True
  then obtain qs r where rs: "rs = qs @ [r]" "cr_end r = i" by (cases rs rule: rev_cases) auto
  have "separate qs i" "\<forall>q\<in>set qs. cr_end q < cr_start r" "cr_start r < i"
    using assms(1) rs by (auto simp: separate_snoc)
  then show ?thesis
    using assms rs separate_mono[of qs i]
    by (auto simp: push_char_range_def Let_def separate_snoc marked_def)
next
  case False
  have "cr_end q < i" if "q \<in> set rs" for q
  proof (cases rs rule: rev_cases)
    case (snoc qs r)
    then have "cr_end r < i" "\<forall>q\<in>set qs. cr_end q < cr_start r" "cr_start r < cr_end r"
      using assms(1) False by (auto simp: separate_snoc)
    then show ?thesis using that snoc by fastforce
  qed (use that in simp)
  then show ?thesis
    using assms False separate_mono[OF assms(1)]
    by (auto simp: push_char_range_def Let_def separate_snoc marked_def)
qed

text \<open>The ranges made of the dropped tokens mark those tokens' characters and no others.\<close>

lemma dropped_marks:
  assumes "consecutive i ts" "separate rs i" "length keep = length ts"
  shows "separate (foldl push_char_range rs (dropped ts keep)) (i + length (concat (map wt_text ts)))
     \<and> (\<forall>k < i. marked (foldl push_char_range rs (dropped ts keep)) k = marked rs k)
     \<and> map (\<lambda>k. concat (map wt_text ts) ! k)
         (filter (\<lambda>k. \<not> marked (foldl push_char_range rs (dropped ts keep)) (i + k)) [0..<length (concat (map wt_text ts))])
       = concat (kept ts keep)"
  using assms
proof (induction ts arbitrary: i rs keep)
  case Nil
  then show ?case by simp
next
  case (Cons t ts)
  obtain k ks where keep: "keep = k # ks" "length ks = length ts" using Cons.prems(3) by (cases keep) auto
  let ?n = "length (wt_text t)"
  let ?rs = "if k then rs else push_char_range rs t"
  let ?out = "foldl push_char_range ?rs (dropped ts ks)"
  have t: "wt_start t = i" "wt_text t \<noteq> []" "consecutive (i + ?n) ts" using Cons.prems(1) by auto
  have step: "separate ?rs (i + ?n)"
    "\<And>x. marked ?rs x \<longleftrightarrow> marked rs x \<or> (\<not> k \<and> i \<le> x \<and> x < i + ?n)"
    using push_char_range_marks[OF Cons.prems(2) t(1,2)] separate_mono[OF Cons.prems(2)] by auto
  have upto: "\<not> marked rs x" if "i \<le> x" for x
  proof -
    show ?thesis using that Cons.prems(2) unfolding marked_def separate_def by fastforce
  qed
  note IH = Cons.IH[OF t(3) step(1) keep(2)]
  let ?rest = "concat (map wt_text ts)"
  have first: "marked ?out (i + x) \<longleftrightarrow> \<not> k" if "x < ?n" for x
    using IH step(2) upto that by auto
  have "map (\<lambda>x. (wt_text t @ ?rest) ! x) (filter (\<lambda>x. \<not> marked ?out (i + x)) [0..<?n])
      = (if k then wt_text t else [])"
  proof -
    have "filter (\<lambda>x. \<not> marked ?out (i + x)) [0..<?n] = (if k then [0..<?n] else [])"
      using first by (auto simp: filter_id_conv filter_empty_conv)
    moreover have "map (\<lambda>x. (wt_text t @ ?rest) ! x) [0..<?n] = wt_text t"
      by (rule nth_equalityI) (auto simp: nth_append)
    ultimately show ?thesis by simp
  qed
  moreover have "map (\<lambda>x. (wt_text t @ ?rest) ! x) (filter (\<lambda>x. \<not> marked ?out (i + x)) [?n..<?n + length ?rest])
      = concat (kept ts ks)"
  proof -
    have "[?n..<?n + length ?rest] = map (\<lambda>x. x + ?n) [0..<length ?rest]"
      by (simp add: map_add_upt add.commute)
    then show ?thesis
      using IH by (simp add: filter_map comp_def nth_append add.assoc add.commute add.left_commute)
  qed
  ultimately have "map (\<lambda>x. (wt_text t @ ?rest) ! x)
        (filter (\<lambda>x. \<not> marked ?out (i + x)) [0..<?n + length ?rest])
      = (if k then wt_text t else []) @ concat (kept ts ks)"
    using upt_add_eq_append[of 0 ?n "length ?rest"] by simp
  then show ?case
    using IH step(2) keep(1) by (auto simp: add.assoc)
qed

section \<open>The window\<close>

definition run_wf :: "diff_run \<Rightarrow> bool" where
  "run_wf r = (dr_lines r \<noteq> [] \<and> (\<forall>l\<in>set (dr_lines r). (dl_kind l \<noteq> Ctx) = dr_changed r))"

definition alternating :: "diff_run list \<Rightarrow> bool" where
  "alternating runs = (\<forall>i. Suc i < length runs \<longrightarrow> dr_changed (runs ! i) \<noteq> dr_changed (runs ! Suc i))"

lemma alternating_snoc:
  "alternating (runs @ [r]) \<longleftrightarrow> alternating runs \<and> (runs \<noteq> [] \<longrightarrow> dr_changed (last runs) \<noteq> dr_changed r)"
proof (cases runs rule: rev_cases)
  case (snoc qs q)
  then show ?thesis by (auto simp: alternating_def nth_append less_Suc_eq)
qed (simp add: alternating_def)

lemma diff_runs_wf:
  "concat (map dr_lines (diff_runs ls)) = ls \<and> (\<forall>r\<in>set (diff_runs ls). run_wf r) \<and> alternating (diff_runs ls)"
proof (induction ls rule: rev_induct)
  case Nil
  then show ?case by (simp add: diff_runs_def alternating_def)
next
  case (snoc l ls)
  have step: "diff_runs (ls @ [l]) = push_line (diff_runs ls) l" by (simp add: diff_runs_def)
  show ?case
  proof (cases "diff_runs ls \<noteq> [] \<and> dr_changed (last (diff_runs ls)) = (dl_kind l \<noteq> Ctx)")
    case True
    then obtain qs r where runs: "diff_runs ls = qs @ [r]" by (cases "diff_runs ls" rule: rev_cases) auto
    with snoc True show ?thesis
      unfolding step by (auto simp: push_line_def run_wf_def alternating_snoc)
  next
    case False
    then have "push_line (diff_runs ls) l = diff_runs ls @ [\<lparr>dr_changed = (dl_kind l \<noteq> Ctx), dr_lines = [l]\<rparr>]"
      by (auto simp: push_line_def)
    with snoc False show ?thesis
      unfolding step by (auto simp: run_wf_def alternating_snoc)
  qed
qed

definition changes :: "diff_line list \<Rightarrow> diff_line list" where
  "changes ls = filter (\<lambda>l. dl_kind l \<noteq> Ctx) ls"

lemma changes_append [simp]: "changes (xs @ ys) = changes xs @ changes ys" "changes [] = []"
  by (simp_all add: changes_def)

lemma changes_concat: "changes (concat lss) = concat (map changes lss)"
  by (induction lss) auto

lemma changes_run:
  assumes "run_wf r"
  shows "changes (dr_lines r) = (if dr_changed r then dr_lines r else [])"
  using assms by (auto simp: run_wf_def changes_def filter_id_conv filter_empty_conv)

lemma subseq_ends: "x \<le> y \<Longrightarrow> subseq (take x xs @ drop y xs) xs"
proof -
  assume "x \<le> y"
  then have "drop y xs = drop (y - x) (drop x xs)" by simp
  then have "subseq (drop y xs) (drop x xs)"
    by (metis append_take_drop_id subseq_drop_many subseq_order.refl)
  from list_emb_append_mono[OF subseq_order.refl[of "take x xs"] this] show ?thesis by simp
qed

lemma context_sub:
  assumes "i < length runs"
  shows "subseq (context_of runs c i) (dr_lines (runs ! i))"
proof -
  let ?ls = "dr_lines (runs ! i)"
  let ?head = "if run_changed runs (int i - 1) then take c ?ls else []"
  let ?tail = "if run_changed runs (int i + 1) then slice_last c ?ls else []"
  have "subseq (?head @ ?tail) ?ls" if short: "\<not> length ?ls \<le> length ?head + length ?tail"
  proof -
    have "\<exists>x. ?head = take x ?ls \<and> x \<le> length ?ls \<and> length ?head = x"
      by (cases "c \<le> length ?ls") (auto intro: exI[of _ 0] exI[of _ c] exI[of _ "length ?ls"])
    moreover have "\<exists>y. ?tail = drop y ?ls \<and> y \<le> length ?ls"
      by (auto simp: slice_last_def intro: exI[of _ 0] exI[of _ "length ?ls"])
    ultimately obtain x y where xy: "?head = take x ?ls" "x \<le> length ?ls" "?tail = drop y ?ls" "y \<le> length ?ls"
      by metis
    then have "x \<le> y" using short unfolding xy(1,3) by simp
    from subseq_ends[OF this, of ?ls] show ?thesis unfolding xy(1,3) .
  qed
  then show ?thesis unfolding context_of_def Let_def by auto
qed

lemma slice_last_length: "0 < c \<Longrightarrow> length (slice_last c xs) \<le> c"
  by (simp add: slice_last_def)

lemma context_length:
  assumes "0 < c" shows "length (context_of runs c i) \<le> 2 * c"
proof -
  let ?ls = "dr_lines (runs ! i)"
  have "length (if b then take c ?ls else []) \<le> c" "length (if b then slice_last c ?ls else []) \<le> c" for b
    using slice_last_length[OF assms] by auto
  note sides = this(1)[of "run_changed runs (int i - 1)"] this(2)[of "run_changed runs (int i + 1)"]
  show ?thesis
    unfolding context_of_def Let_def using sides by (auto simp del: length_take)
qed

lemma context_no_changes:
  assumes "i < length runs" "run_wf (runs ! i)" "\<not> dr_changed (runs ! i)"
  shows "changes (context_of runs c i) = []"
proof -
  have "set (context_of runs c i) \<subseteq> set (dr_lines (runs ! i))"
    using context_sub[OF assms(1)] by (fastforce elim: list_emb_set)
  then show ?thesis using assms(2,3) by (auto simp: changes_def run_wf_def filter_empty_conv)
qed

lemma window_from_hunks:
  assumes "\<forall>r\<in>set runs. run_wf r" and "window_from runs m c i out n = (o', k)"
  shows "\<exists>ws. o' = out @ ws \<and> subseq ws (concat (map dr_lines (drop i runs))) \<and> n \<le> k
     \<and> k - n \<le> length (filter dr_changed (drop i runs))
     \<and> changes ws = concat (map dr_lines (take (k - n) (filter dr_changed (drop i runs))))
     \<and> (0 < length (filter dr_changed (drop i runs)) \<longrightarrow> 0 < k)"
  using assms
proof (induction runs m c i out n rule: window_from.induct)
  case (1 runs m c i out n)
  show ?case
  proof (cases "length runs \<le> i")
    case True
    then have "window_from runs m c i out n = (out, n)" by (subst window_from.simps) simp
    with 1 True show ?thesis by simp
  next
    case False
    then have i: "i < length runs" by simp
    then have d: "drop i runs = runs ! i # drop (Suc i) runs" by (simp add: Cons_nth_drop_Suc)
    consider "\<not> dr_changed (runs ! i)"
      | "dr_changed (runs ! i)" "m < length out + length (dr_lines (runs ! i))" "0 < n"
      | "dr_changed (runs ! i)" "\<not> (m < length out + length (dr_lines (runs ! i)) \<and> 0 < n)" by blast
    then show ?thesis
    proof cases
      case 1
      let ?ctx = "context_of runs c i"
      have "window_from runs m c (i + 1) (out @ ?ctx) n = (o', k)"
        using "1.prems"(2) False 1 by (subst (asm) window_from.simps) simp
      from "1.IH"(1)[OF False 1 "1.prems"(1) this] obtain ws where ws:
        "o' = (out @ ?ctx) @ ws" "subseq ws (concat (map dr_lines (drop (i + 1) runs)))" "n \<le> k"
        "k - n \<le> length (filter dr_changed (drop (i + 1) runs))"
        "changes ws = concat (map dr_lines (take (k - n) (filter dr_changed (drop (i + 1) runs))))"
        "0 < length (filter dr_changed (drop (i + 1) runs)) \<longrightarrow> 0 < k" by blast
      have "subseq (?ctx @ ws) (concat (map dr_lines (drop i runs)))"
        using list_emb_append_mono[OF context_sub[OF i, of c] ws(2)] d by simp
      moreover have "changes (?ctx @ ws) = changes ws"
        using context_no_changes[OF i _ 1, of c] "1.prems"(1) i by simp
      ultimately show ?thesis
        using ws 1 d by (intro exI[of _ "?ctx @ ws"]) simp
    next
      case 2
      then have "window_from runs m c i out n = (out, n)" using False by (subst window_from.simps) simp
      with "1.prems"(2) 2(3) show ?thesis by (intro exI[of _ "[]"]) simp
    next
      case 3
      let ?ls = "dr_lines (runs ! i)"
      have "window_from runs m c (i + 1) (out @ ?ls) (n + 1) = (o', k)"
        using "1.prems"(2) False 3 by (subst (asm) window_from.simps) (simp split: if_splits)
      from "1.IH"(2)[OF False _ 3(2) "1.prems"(1) this] 3(1) obtain ws where ws:
        "o' = (out @ ?ls) @ ws" "subseq ws (concat (map dr_lines (drop (i + 1) runs)))" "n + 1 \<le> k"
        "k - (n + 1) \<le> length (filter dr_changed (drop (i + 1) runs))"
        "changes ws = concat (map dr_lines (take (k - (n + 1)) (filter dr_changed (drop (i + 1) runs))))"
        by blast
      have "subseq (?ls @ ws) (concat (map dr_lines (drop i runs)))"
        using ws(2) d by (simp add: subseq_append')
      moreover have "changes (?ls @ ws) = ?ls @ changes ws"
        using changes_run[of "runs ! i"] "1.prems"(1) i 3(1) by simp
      moreover have "k - n = Suc (k - (n + 1))" using ws(3) by simp
      ultimately show ?thesis
        using ws 3(1) d by (intro exI[of _ "?ls @ ws"]) simp
    qed
  qed
qed

lemma window_from_bound:
  assumes "alternating runs" "0 < c"
    and "window_from runs m c i out n = (o', k)"
    and "2 \<le> n \<longrightarrow> length out \<le> m + 2 * c
           \<and> (i < length runs \<and> \<not> dr_changed (runs ! i) \<longrightarrow> length out \<le> m)"
  shows "2 \<le> k \<longrightarrow> length o' \<le> m + 2 * c"
  using assms
proof (induction runs m c i out n rule: window_from.induct)
  case (1 runs m c i out n)
  show ?case
  proof (cases "length runs \<le> i")
    case True
    then have "window_from runs m c i out n = (out, n)" by (subst window_from.simps) simp
    with 1 show ?thesis by simp
  next
    case False
    consider "\<not> dr_changed (runs ! i)"
      | "dr_changed (runs ! i)" "m < length out + length (dr_lines (runs ! i))" "0 < n"
      | "dr_changed (runs ! i)" "\<not> (m < length out + length (dr_lines (runs ! i)) \<and> 0 < n)" by blast
    then show ?thesis
    proof cases
      case ctx: 1
      have "window_from runs m c (i + 1) (out @ context_of runs c i) n = (o', k)"
        using "1.prems"(3) False ctx by (subst (asm) window_from.simps) simp
      moreover have "Suc i < length runs \<Longrightarrow> dr_changed (runs ! Suc i)"
        using "1.prems"(1) ctx by (auto simp: alternating_def)
      ultimately show ?thesis
        using "1.IH"(1)[OF False ctx "1.prems"(1,2)] context_length[OF "1.prems"(2), of runs i]
          "1.prems"(4) False ctx by fastforce
    next
      case 2
      then have "window_from runs m c i out n = (out, n)" using False by (subst window_from.simps) simp
      with "1.prems"(3,4) show ?thesis by simp
    next
      case 3
      have "window_from runs m c (i + 1) (out @ dr_lines (runs ! i)) (n + 1) = (o', k)"
        using "1.prems"(3) False 3 by (subst (asm) window_from.simps) (simp split: if_splits)
      with "1.IH"(2)[OF False _ 3(2) "1.prems"(1,2)] 3 show ?thesis by fastforce
    qed
  qed
qed

section \<open>The properties\<close>

definition unmarked :: "char_range list \<Rightarrow> string \<Rightarrow> string" where
  "unmarked rs s = map (\<lambda>k. s ! k) (filter (\<lambda>k. \<not> marked rs k) [0..<length s])"

lemma trim_ink: "js_trim w \<noteq> [] \<Longrightarrow> \<exists>c\<in>set w. \<not> js_space c"
  by (auto simp: js_trim_def dropWhile_eq_Nil_conv dest: set_dropWhileD)

text \<open>
  Word marks cover what two lines do not share and nothing else: the characters left unmarked in the
  old line spell the text left unmarked in the new one, some of it is not blank, and each side's marks
  are at most eight non-empty ranges in order, separate, and inside the line.
\<close>

theorem word_marks_leave_the_same_text:
  assumes "word_diff_of old_line new_line = Some wd"
  shows "unmarked (wd_del wd) old_line = unmarked (wd_add wd) new_line
     \<and> (\<exists>c\<in>set (unmarked (wd_del wd) old_line). \<not> js_space c)
     \<and> separate (wd_del wd) (length old_line) \<and> separate (wd_add wd) (length new_line)
     \<and> length (wd_del wd) \<le> max_word_runs \<and> length (wd_add wd) \<le> max_word_runs"
proof -
  let ?a = "split_words old_line" and ?b = "split_words new_line"
  let ?t = "lcs_table (map wt_text ?a) (map wt_text ?b)"
  obtain ka kb where k: "length ka = length ?a" "length kb = length ?b" "kept ?a ka = kept ?b kb"
    "word_walk ?a ?b ?t 0 0 [] [] 0
     = (foldl push_char_range [] (dropped ?a ka), foldl push_char_range [] (dropped ?b kb), ink_of (kept ?a ka))"
    using word_walk_marks[of 0 ?a 0 ?b ?t "[]" "[]" 0] by auto
  have wd: "wd_del wd = foldl push_char_range [] (dropped ?a ka)" "wd_add wd = foldl push_char_range [] (dropped ?b kb)"
    "ink_of (kept ?a ka) \<noteq> 0" "length (wd_del wd) \<le> max_word_runs" "length (wd_add wd) \<le> max_word_runs"
    using assms k(4) by (auto simp: word_diff_of_def Let_def split: if_splits)
  have a: "consecutive 0 ?a" "concat (map wt_text ?a) = old_line"
    and b: "consecutive 0 ?b" "concat (map wt_text ?b) = new_line"
    using split_words_consecutive by (simp_all add: split_words_def)
  have del: "separate (wd_del wd) (length old_line)" "unmarked (wd_del wd) old_line = concat (kept ?a ka)"
    using dropped_marks[OF a(1) _ k(1), of "[]"] a(2) wd(1) by (simp_all add: unmarked_def)
  have add: "separate (wd_add wd) (length new_line)" "unmarked (wd_add wd) new_line = concat (kept ?b kb)"
    using dropped_marks[OF b(1) _ k(2), of "[]"] b(2) wd(2) by (simp_all add: unmarked_def)
  have "\<exists>w\<in>set (kept ?a ka). js_trim w \<noteq> []"
    using wd(3) by (auto simp: ink_of_def sum_list_eq_0_iff split: if_splits)
  then have "\<exists>c\<in>set (concat (kept ?a ka)). \<not> js_space c" using trim_ink by fastforce
  with del add wd(4,5) k(3) show ?thesis by simp
qed

theorem word_marks_leave_the_same_text_witness:
  "unmarked [\<lparr>cr_start = 4, cr_end = 5\<rparr>] ''foo(a)'' = unmarked [\<lparr>cr_start = 4, cr_end = 6\<rparr>] ''foo(bc)''"
proof -
  have "word_diff_of ''foo(a)'' ''foo(bc)''
      = Some \<lparr>wd_del = [\<lparr>cr_start = 4, cr_end = 5\<rparr>], wd_add = [\<lparr>cr_start = 4, cr_end = 6\<rparr>]\<rparr>"
    by code_simp
  from word_marks_leave_the_same_text[OF this] show ?thesis by simp
qed

definition hunks :: "diff_line list \<Rightarrow> diff_line list list" where
  "hunks ls = map dr_lines (filter dr_changed (diff_runs ls))"

text \<open>
  A window keeps whole hunks: of a diff that changes anything it keeps the first hunks, at least one,
  each complete, counts the ones it leaves out, draws the diff's own rows in order, and, once it holds
  a second hunk, runs past the row cap by at most the context of one gap.
\<close>

theorem window_keeps_whole_hunks:
  assumes "window_hunks ls max_rows context_rows = (out, omitted)" and "changes ls \<noteq> []"
  shows "subseq out ls \<and> omitted < length (hunks ls)
     \<and> changes out = concat (take (length (hunks ls) - omitted) (hunks ls))
     \<and> (0 < nullish context_rows 2 \<and> 2 \<le> length (hunks ls) - omitted
          \<longrightarrow> length out \<le> nullish max_rows 24 + 2 * nullish context_rows 2)"
proof -
  let ?runs = "diff_runs ls"
  let ?m = "nullish max_rows 24" and ?c = "nullish context_rows 2"
  note wf = diff_runs_wf[of ls]
  have total: "filter dr_changed ?runs \<noteq> []"
  proof
    assume "filter dr_changed ?runs = []"
    then have "\<forall>r\<in>set ?runs. changes (dr_lines r) = []"
      using wf changes_run by (auto simp: filter_empty_conv)
    then have "changes (concat (map dr_lines ?runs)) = []" by (simp add: changes_concat)
    with wf assms(2) show False by simp
  qed
  then obtain k where w: "window_from ?runs ?m ?c 0 [] 0 = (out, k)"
    "omitted = length (filter dr_changed ?runs) - k"
    using assms(1) by (auto simp: window_hunks_def Let_def split: prod.splits if_splits)
  have "subseq out ls" "k \<le> length (filter dr_changed ?runs)" "0 < k"
    "changes out = concat (map dr_lines (take k (filter dr_changed ?runs)))"
    using window_from_hunks[OF _ w(1)] wf total by auto
  moreover have "2 \<le> k \<longrightarrow> length out \<le> ?m + 2 * ?c" if "0 < ?c"
    using window_from_bound[OF _ that w(1)] wf by simp
  ultimately show ?thesis using w(2) by (auto simp: hunks_def take_map)
qed

theorem window_keeps_whole_hunks_witness:
  "subseq (fst (window_hunks [ctx_line 1 1 ''x'', del_line 2 ''y''] None None)) [ctx_line 1 1 ''x'', del_line 2 ''y'']"
proof -
  have "changes [ctx_line 1 1 ''x'', del_line 2 ''y''] \<noteq> []" by (simp add: changes_def)
  from window_keeps_whole_hunks[OF _ this, of None None] show ?thesis
    by (metis prod.collapse)
qed

end
