(* ===== verification/RunTree.thy ===== *)
theory RunTree
  imports RunStatus
begin

text \<open>
  \<open>run-store.ts\<close>, the tree of one run: \<open>RunNode\<close> is \<open>run_node\<close> (its own fields, then its children, absent
  or a list), \<open>RunState\<close> is \<open>run_state\<close>. A progress frame is applied to the cached tree by path. The
  source tells an unchanged node by reference; here \<open>patch\<close> says which of the three it is: nothing found,
  found and unchanged, or rebuilt. A target node, compared by reference in the source, is its position.
\<close>

section \<open>Nodes and runs\<close>

datatype run_node_type = NT_step | NT_sequence | NT_repeat | NT_parallel | NT_watch

datatype completion_signal = CS_success | CS_need_input | CS_error

record 'status node_fields =
  n_id :: string
  n_type :: run_node_type
  n_status :: 'status
  n_agent :: "string option"
  n_model :: "string option"
  n_effort :: "string option"
  n_session :: "string option"
  n_started :: "string option"
  n_ended :: "string option"
  n_iteration :: "nat option"
  n_branch :: "string option"
  n_artifacts :: "(string \<times> string) list option"
  n_output :: "string option"
  n_watch_terminal :: "bool option"
  n_failure :: "string option"
  n_signal :: "completion_signal option"
  n_attempts :: "nat option"

datatype 'status tree_node = Node (node_own: "'status node_fields") (node_children: "'status tree_node list option")

type_synonym run_node = "run_node_status classified tree_node"
type_synonym raw_run_node = "string tree_node"

record pause_detail =
  pd_class :: "string option"
  pd_code :: "string option"
  pd_occurred :: "string option"

record ('status, 'node) run_fields =
  ru_workflow :: string
  ru_name :: "string option"
  ru_label :: "string option"
  ru_status :: 'status
  ru_root :: "'node option"
  ru_pause_reason :: "string option"
  ru_pause_detail :: "pause_detail option"
  ru_stop_initiator :: "string option"
  ru_stop_reason :: "string option"
  ru_parent_session :: "string option"

type_synonym run_state = "(run_status classified option, run_node) run_fields"
type_synonym raw_run_state = "(string option, raw_run_node) run_fields"

definition kids :: "'s tree_node \<Rightarrow> 's tree_node list" where
  "kids n = nullish (node_children n) []"

section \<open>Reading a run off the wire\<close>

definition with_status :: "'b \<Rightarrow> 'a node_fields \<Rightarrow> 'b node_fields" where
  "with_status st f =
     \<lparr>n_id = n_id f, n_type = n_type f, n_status = st, n_agent = n_agent f, n_model = n_model f,
      n_effort = n_effort f, n_session = n_session f, n_started = n_started f, n_ended = n_ended f,
      n_iteration = n_iteration f, n_branch = n_branch f, n_artifacts = n_artifacts f,
      n_output = n_output f, n_watch_terminal = n_watch_terminal f, n_failure = n_failure f,
      n_signal = n_signal f, n_attempts = n_attempts f\<rparr>"

primrec classify_run_node :: "raw_run_node \<Rightarrow> run_node" where
  "classify_run_node (Node own children) =
     Node (with_status (classify_run_node_status (n_status own)) own)
       (map_option (map classify_run_node) children)"

definition classify_run_state :: "raw_run_state \<Rightarrow> run_state" where
  "classify_run_state s =
     \<lparr>ru_workflow = ru_workflow s, ru_name = ru_name s, ru_label = ru_label s,
      ru_status = classify_run_status (ru_status s),
      ru_root = map_option classify_run_node (ru_root s),
      ru_pause_reason = ru_pause_reason s, ru_pause_detail = ru_pause_detail s,
      ru_stop_initiator = ru_stop_initiator s, ru_stop_reason = ru_stop_reason s,
      ru_parent_session = ru_parent_session s\<rparr>"

section \<open>Progress frames\<close>

record run_progress_frame =
  rp_workflow :: string
  rp_path :: "string option"
  rp_status :: "string option"
  rp_started :: "string option"
  rp_ended :: "string option"
  rp_failure :: "string option"

definition node_path_segment :: "'s node_fields \<Rightarrow> 's node_fields option \<Rightarrow> string" where
  "node_path_segment n parent =
     (case (parent, n_iteration n) of
        (Some p, Some i) \<Rightarrow> if n_type p = NT_repeat then ''iter-'' @ number_text i else n_id n
      | _ \<Rightarrow> n_id n)"

definition non_empty :: "string option \<Rightarrow> string option" where
  "non_empty v = (if v = Some '''' then None else v)"

definition node_status_of :: "string option \<Rightarrow> run_node_status classified option" where
  "node_status_of v =
     (case v of
        None \<Rightarrow> None
      | Some w \<Rightarrow> map_option Known (List.find (\<lambda>m. run_node_status_name m = w) run_node_status_members))"

text \<open>A field the frame carries and the node does not already hold.\<close>

definition moves :: "'a option \<Rightarrow> 'a \<Rightarrow> bool" where
  "moves new old = (new \<noteq> None \<and> new \<noteq> Some old)"

definition moves_option :: "'a option \<Rightarrow> 'a option \<Rightarrow> bool" where
  "moves_option new old = (new \<noteq> None \<and> new \<noteq> old)"

definition keep_or :: "'a option \<Rightarrow> 'a option \<Rightarrow> 'a option" where
  "keep_or new old = (case new of None \<Rightarrow> old | Some v \<Rightarrow> Some v)"

datatype 'a patch = Missing | Same | Patched 'a

definition patched_own :: "run_node_status classified node_fields \<Rightarrow> run_progress_frame
    \<Rightarrow> run_node_status classified node_fields" where
  "patched_own n p =
     n\<lparr>n_status := nullish (node_status_of (rp_status p)) (n_status n),
       n_started := keep_or (non_empty (rp_started p)) (n_started n),
       n_ended := keep_or (non_empty (rp_ended p)) (n_ended n),
       n_failure := keep_or (non_empty (rp_failure p)) (n_failure n)\<rparr>"

definition patched_leaf :: "run_node \<Rightarrow> run_progress_frame \<Rightarrow> run_node patch" where
  "patched_leaf node p =
     (let n = node_own node
      in if moves (node_status_of (rp_status p)) (n_status n)
            \<or> moves_option (non_empty (rp_started p)) (n_started n)
            \<or> moves_option (non_empty (rp_ended p)) (n_ended n)
            \<or> moves_option (non_empty (rp_failure p)) (n_failure n)
         then Patched (Node (patched_own n p) (node_children node))
         else Same)"

text \<open>
  \<open>patchNode\<close> and its loop over the children: the loop answers the list with the found child
  replaced, and goes on to the next child where one does not hold the path.
\<close>

fun patch_node :: "run_node \<Rightarrow> run_node_status classified node_fields option \<Rightarrow> string list
      \<Rightarrow> run_progress_frame \<Rightarrow> run_node patch"
  and patch_kids :: "run_node list \<Rightarrow> run_node_status classified node_fields \<Rightarrow> string list
      \<Rightarrow> run_progress_frame \<Rightarrow> run_node list patch" where
  "patch_node node parent [] p = Missing"
| "patch_node (Node own children) parent (head # rest) p =
     (if node_path_segment own parent \<noteq> head then Missing
      else if rest = [] then patched_leaf (Node own children) p
      else case children of
             None \<Rightarrow> Missing
           | Some ks \<Rightarrow>
               (case patch_kids ks own rest p of
                  Missing \<Rightarrow> Missing
                | Same \<Rightarrow> Same
                | Patched ks' \<Rightarrow> Patched (Node own (Some ks'))))"
| "patch_kids [] own rest p = Missing"
| "patch_kids (k # ks) own rest p =
     (case patch_node k (Some own) rest p of
        Same \<Rightarrow> Same
      | Patched k' \<Rightarrow> Patched (k' # ks)
      | Missing \<Rightarrow>
          (case patch_kids ks own rest p of
             Missing \<Rightarrow> Missing
           | Same \<Rightarrow> Same
           | Patched ks' \<Rightarrow> Patched (k # ks')))"

text \<open>The cell of the frame's run, \<open>None\<close> where no state is cached; the answer and the cell after it.\<close>

definition apply_run_progress :: "run_progress_frame \<Rightarrow> run_state option \<Rightarrow> run_state option \<times> bool" where
  "apply_run_progress p cell =
     (if rp_workflow p = '''' \<or> rp_path p = None \<or> rp_path p = Some '''' then (cell, False)
      else case cell of
             None \<Rightarrow> (None, False)
           | Some st \<Rightarrow>
               (case ru_root st of
                  None \<Rightarrow> (cell, False)
                | Some tree \<Rightarrow>
                    (case patch_node tree None (split_on (CHR ''/'') (the (rp_path p))) p of
                       Missing \<Rightarrow> (cell, False)
                     | Same \<Rightarrow> (cell, True)
                     | Patched next \<Rightarrow> (Some (st\<lparr>ru_root := Some next\<rparr>), True))))"

section \<open>Reads of a run\<close>

lemma kid_smaller: "k \<in> set (kids n) \<Longrightarrow> size k < size n"
proof (cases n)
  case (Node own children)
  assume "k \<in> set (kids n)"
  with Node obtain ks where "children = Some ks" "k \<in> set ks" by (cases children) (auto simp: kids_def)
  with Node show ?thesis
    by (auto dest: size_list_estimation'[where f = size and y = "size k"])
qed

function leaf_nodes_of :: "'s tree_node \<Rightarrow> 's tree_node list" where
  "leaf_nodes_of n = (if kids n = [] then [n] else concat (map leaf_nodes_of (kids n)))"
  by pat_completeness auto

termination
  by (relation "measure size") (auto simp: kid_smaller)

declare leaf_nodes_of.simps [simp del]

definition leaf_nodes :: "'s tree_node option \<Rightarrow> 's tree_node list" where
  "leaf_nodes tree = (case tree of None \<Rightarrow> [] | Some n \<Rightarrow> leaf_nodes_of n)"

text \<open>The node at a position, the child indices from the root, and its address.\<close>

fun node_at :: "'s tree_node \<Rightarrow> nat list \<Rightarrow> 's tree_node option" where
  "node_at n [] = Some n"
| "node_at n (i # pos) = (if i < length (kids n) then node_at (kids n ! i) pos else None)"

fun trail_to :: "'s tree_node \<Rightarrow> 's node_fields option \<Rightarrow> nat list \<Rightarrow> string list" where
  "trail_to n parent [] = [node_path_segment (node_own n) parent]"
| "trail_to n parent (i # pos) =
     node_path_segment (node_own n) parent
     # (if i < length (kids n) then trail_to (kids n ! i) (Some (node_own n)) pos else [])"

record node_address =
  na_path :: "string list"
  na_placed :: bool

definition node_address_of :: "'s tree_node option \<Rightarrow> nat list \<Rightarrow> string \<Rightarrow> node_address" where
  "node_address_of tree pos target_id =
     (case tree of
        Some r \<Rightarrow> if node_at r pos \<noteq> None then \<lparr>na_path = trail_to r None pos, na_placed = True\<rparr>
                  else \<lparr>na_path = [target_id], na_placed = False\<rparr>
      | None \<Rightarrow> \<lparr>na_path = [target_id], na_placed = False\<rparr>)"

record run_counters =
  rc_total :: nat
  rc_done :: nat
  rc_failed :: nat
  rc_current :: nat

fun count_node :: "run_node_status classified \<Rightarrow> nat \<Rightarrow> run_counters \<Rightarrow> run_counters" where
  "count_node (Known N_completed) i c = c\<lparr>rc_done := rc_done c + 1\<rparr>"
| "count_node (Known N_skipped) i c = c\<lparr>rc_done := rc_done c + 1\<rparr>"
| "count_node (Known N_failed) i c = c\<lparr>rc_failed := rc_failed c + 1\<rparr>"
| "count_node (Known N_aborted) i c = c\<lparr>rc_failed := rc_failed c + 1\<rparr>"
| "count_node (Known N_pending) i c = c"
| "count_node (Known N_running) i c = (if rc_current c = 0 then c\<lparr>rc_current := i + 1\<rparr> else c)"
| "count_node (Known N_paused) i c = (if rc_current c = 0 then c\<lparr>rc_current := i + 1\<rparr> else c)"
| "count_node Unknown i c = (if rc_current c = 0 then c\<lparr>rc_current := i + 1\<rparr> else c)"

definition run_counters_of :: "run_state option \<Rightarrow> run_counters" where
  "run_counters_of st =
     (let leaves = leaf_nodes (Option.bind st ru_root)
      in foldl (\<lambda>c (i, n). count_node (n_status (node_own n)) i c)
           \<lparr>rc_total = length leaves, rc_done = 0, rc_failed = 0, rc_current = 0\<rparr>
           (enumerate 0 leaves))"

text \<open>
  The clocks. \<open>date_parse\<close> is \<open>Date.parse\<close>, whose answer on arbitrary text the language leaves to the
  implementation (\<open>None\<close> for \<open>NaN\<close>); \<open>now\<close> is \<open>Date.now()\<close>.
\<close>

definition elapsed_ms :: "(string \<Rightarrow> int option) \<Rightarrow> int \<Rightarrow> string option \<Rightarrow> string option \<Rightarrow> int" where
  "elapsed_ms date_parse now started ended =
     (case non_empty started of
        None \<Rightarrow> 0
      | Some s \<Rightarrow>
          (case date_parse s of
             None \<Rightarrow> 0
           | Some from_ms \<Rightarrow>
               (case (case non_empty ended of None \<Rightarrow> Some now | Some e \<Rightarrow> date_parse e) of
                  None \<Rightarrow> 0
                | Some to_ms \<Rightarrow> max 0 (to_ms - from_ms))))"

record run_span =
  rs_first :: "int option"
  rs_last :: int
  rs_running :: bool

definition counts_running :: "run_node_status classified \<Rightarrow> bool" where
  "counts_running status = (status \<in> {Known N_running, Known N_paused, Unknown})"

definition span_step :: "(string \<Rightarrow> int option) \<Rightarrow> run_span \<Rightarrow> run_node \<Rightarrow> run_span" where
  "span_step date_parse acc n =
     (let own = node_own n;
          acc1 = (case Option.bind (non_empty (n_started own)) date_parse of
                    None \<Rightarrow> acc
                  | Some t \<Rightarrow> acc\<lparr>rs_first := Some (case rs_first acc of None \<Rightarrow> t | Some f \<Rightarrow> min f t)\<rparr>)
      in case non_empty (n_ended own) of
           Some e \<Rightarrow>
             (case date_parse e of
                None \<Rightarrow> acc1
              | Some t \<Rightarrow> acc1\<lparr>rs_last := max (rs_last acc1) t\<rparr>)
         | None \<Rightarrow> if counts_running (n_status own) then acc1\<lparr>rs_running := True\<rparr> else acc1)"

definition run_elapsed_ms :: "(string \<Rightarrow> int option) \<Rightarrow> int \<Rightarrow> run_state option \<Rightarrow> int" where
  "run_elapsed_ms date_parse now st =
     (let span = foldl (span_step date_parse) \<lparr>rs_first = None, rs_last = 0, rs_running = False\<rparr>
                   (leaf_nodes (Option.bind st ru_root))
      in case rs_first span of
           None \<Rightarrow> 0
         | Some first \<Rightarrow> max 0 ((if rs_running span \<or> rs_last span = 0 then now else rs_last span) - first))"

definition run_is_live :: "run_state option \<Rightarrow> bool" where
  "run_is_live st =
     (case Option.bind st ru_status of None \<Rightarrow> False | Some status \<Rightarrow> run_status_active status)"

definition text_starts :: "string \<Rightarrow> string \<Rightarrow> bool" where
  "text_starts p s = (take (length p) s = p)"

definition text_ends :: "string \<Rightarrow> string \<Rightarrow> bool" where
  "text_ends p s = (length p \<le> length s \<and> drop (length s - length p) s = p)"

definition is_need_input_pause :: "string option \<Rightarrow> bool" where
  "is_need_input_pause reason =
     (case reason of
        None \<Rightarrow> False
      | Some r \<Rightarrow>
          r \<noteq> ''''
          \<and> (r = ''Step requested user input via send_message.''
             \<or> (text_starts (''Step '' @ [CHR 0x27]) r
                \<and> (text_ends ([CHR 0x27] @ '' is waiting for user input.'') r
                   \<or> text_ends ([CHR 0x27] @ '' is waiting for the next user message.'') r))))"

text \<open>\<open>needInputNode\<close>: depth first, the first match.\<close>

function need_input_node :: "run_node \<Rightarrow> run_node option" where
  "need_input_node n =
     (if n_status (node_own n) = Known N_paused \<and> n_signal (node_own n) = Some CS_need_input then Some n
      else case List.find (\<lambda>r. r \<noteq> None) (map need_input_node (kids n)) of
             Some r \<Rightarrow> r
           | None \<Rightarrow> None)"
  by pat_completeness auto

termination
  by (relation "measure size") (auto simp: kid_smaller)

declare need_input_node.simps [simp del]

definition is_need_input_park :: "run_state option \<Rightarrow> bool" where
  "is_need_input_park st =
     (case st of
        None \<Rightarrow> False
      | Some s \<Rightarrow>
          ru_status s = Some (Known R_paused)
          \<and> (is_need_input_pause (ru_pause_reason s)
             \<or> Option.bind (ru_root s) need_input_node \<noteq> None))"

definition pause_class_label :: "string \<Rightarrow> string option" where
  "pause_class_label cls = (if cls = ''transient-error'' then Some ''after a transient error'' else None)"

definition pause_detail_phrase :: "pause_detail option \<Rightarrow> string option" where
  "pause_detail_phrase detail =
     (case Option.bind detail pd_code of
        None \<Rightarrow> None
      | Some code \<Rightarrow>
          if code = '''' then None
          else let cls = Option.bind detail pd_class;
                   label = pause_class_label (if cls = None \<or> cls = Some '''' then ''transient-error'' else the cls)
               in Some (case label of
                          None \<Rightarrow> ''('' @ code @ '')''
                        | Some l \<Rightarrow> l @ '' ('' @ code @ '')''))"

definition run_label_of :: "run_state option \<Rightarrow> string" where
  "run_label_of st =
     (let label = nullish (Option.bind st ru_label) ''''
      in if label = '''' then nullish (Option.bind st ru_name) '''' else label)"

end
