(* ===== verification/RunTreeFacts.thy ===== *)
theory RunTreeFacts
  imports RunTree
begin

text \<open>
  \<open>run-store.ts\<close>: a progress frame whose path is a node's address changes that node and no other, a
  repeated frame changes nothing, and the counters count every leaf once.
\<close>

section \<open>Addresses\<close>

text \<open>Siblings are told apart by their segments, and no segment holds the separator.\<close>

function sane :: "run_node \<Rightarrow> bool" where
  "sane n =
     (distinct (map (\<lambda>k. node_path_segment (node_own k) (Some (node_own n))) (kids n))
      \<and> (\<forall>k\<in>set (kids n). CHR ''/'' \<notin> set (node_path_segment (node_own k) (Some (node_own n))) \<and> sane k))"
  by pat_completeness auto

termination
  by (relation "measure size") (auto simp: kid_smaller)

declare sane.simps [simp del]

lemma sane_Node:
  "sane (Node own None)"
  "sane (Node own (Some ks)) =
     (distinct (map (\<lambda>k. node_path_segment (node_own k) (Some own)) ks)
      \<and> (\<forall>k\<in>set ks. CHR ''/'' \<notin> set (node_path_segment (node_own k) (Some own)) \<and> sane k))"
  by (subst sane.simps, simp add: kids_def)+

fun replace_at :: "run_node \<Rightarrow> nat list \<Rightarrow> run_node \<Rightarrow> run_node" where
  "replace_at n [] m = m"
| "replace_at n (i # pos) m =
     (if i < length (kids n)
      then Node (node_own n) (Some ((kids n)[i := replace_at (kids n ! i) pos m])) else n)"

lemma kids_Node [simp]: "kids (Node own (Some ks)) = ks" "kids (Node own None) = []"
  by (simp_all add: kids_def)

lemma trail_nonempty [simp]: "trail_to n parent pos \<noteq> []"
  by (cases pos) auto

lemma trail_hd [simp]: "hd (trail_to n parent pos) = node_path_segment (node_own n) parent"
  by (cases pos) auto

lemma patch_other_head:
  "trail \<noteq> [] \<Longrightarrow> hd trail \<noteq> node_path_segment (node_own n) parent \<Longrightarrow> patch_node n parent trail p = Missing"
  by (cases n; cases trail) auto

lemma patch_kids_at:
  assumes "i < length ks" and "\<And>j. j < i \<Longrightarrow> patch_node (ks ! j) (Some own) rest p = Missing"
    and "patch_node (ks ! i) (Some own) rest p \<noteq> Missing"
  shows "patch_kids ks own rest p =
     (case patch_node (ks ! i) (Some own) rest p of
        Missing \<Rightarrow> Missing | Same \<Rightarrow> Same | Patched k' \<Rightarrow> Patched (ks[i := k']))"
  using assms
proof (induction ks arbitrary: i)
  case (Cons k ks)
  show ?case
  proof (cases i)
    case 0
    with Cons.prems show ?thesis by (auto split: patch.split)
  next
    case (Suc j)
    have "patch_node k (Some own) rest p = Missing" using Cons.prems(2)[of 0] Suc by simp
    moreover have "patch_kids ks own rest p =
        (case patch_node (ks ! j) (Some own) rest p of
           Missing \<Rightarrow> Missing | Same \<Rightarrow> Same | Patched k' \<Rightarrow> Patched (ks[j := k']))"
      using Cons.IH[of j] Cons.prems(1,3) Cons.prems(2)[of "Suc _"] Suc by simp
    ultimately show ?thesis using Suc by (auto split: patch.splits)
  qed
qed simp

lemma patched_leaf_found: "patched_leaf n p \<noteq> Missing"
  by (simp add: patched_leaf_def Let_def)

lemma patch_at_address:
  assumes "sane n" and "node_at n pos = Some m"
  shows "patch_node n parent (trail_to n parent pos) p =
     (case patched_leaf m p of Missing \<Rightarrow> Missing | Same \<Rightarrow> Same | Patched m' \<Rightarrow> Patched (replace_at n pos m'))"
  using assms
proof (induction pos arbitrary: n parent)
  case Nil
  then show ?case by (cases n) (auto split: patch.split)
next
  case (Cons i pos)
  obtain own ks where n: "n = Node own (Some ks)" "i < length ks" "node_at (ks ! i) pos = Some m"
    using Cons.prems(2) by (cases n, cases "node_children n") (auto simp: kids_def split: if_splits)
  have sane: "sane (ks ! i)" and seg: "distinct (map (\<lambda>k. node_path_segment (node_own k) (Some own)) ks)"
    using Cons.prems(1) n by (subst (asm) sane.simps, simp)+
  let ?rest = "trail_to (ks ! i) (Some own) pos"
  note IH = Cons.IH[OF sane n(3), of "Some own"]
  have found: "patch_node (ks ! i) (Some own) ?rest p \<noteq> Missing"
    using IH patched_leaf_found[of m p] by (auto split: patch.splits)
  have other: "patch_node (ks ! j) (Some own) ?rest p = Missing" if "j < i" for j
  proof (rule patch_other_head)
    show "hd ?rest \<noteq> node_path_segment (node_own (ks ! j)) (Some own)"
      using seg that n(2) nth_eq_iff_index_eq[OF seg, of i j] by simp
  qed simp
  from patch_kids_at[OF n(2) other found]
  show ?case using IH n(1,2) found by (auto split: patch.splits)
qed

lemma node_at_replace:
  assumes "node_at n pos = Some m" and "node_children m' = node_children m"
  shows "map_option node_own (node_at (replace_at n pos m') q)
       = (if q = pos then Some (node_own m') else map_option node_own (node_at n q))"
  using assms
proof (induction pos arbitrary: n q)
  case Nil
  then show ?case by (cases q) (auto simp: kids_def)
next
  case (Cons i pos)
  have i: "i < length (kids n)" "node_at (kids n ! i) pos = Some m"
    using Cons.prems(1) by (auto split: if_splits)
  show ?case
  proof (cases q)
    case (Cons j q')
    then show ?thesis using i Cons.IH[OF i(2) Cons.prems(2), of q'] by (cases "j = i") auto
  qed (use i in simp)
qed

section \<open>A frame at an address\<close>

lemma sane_segments:
  "sane n \<Longrightarrow> CHR ''/'' \<notin> set (node_path_segment (node_own n) parent)
   \<Longrightarrow> node_at n pos \<noteq> None \<Longrightarrow> \<forall>s\<in>set (trail_to n parent pos). CHR ''/'' \<notin> set s"
proof (induction pos arbitrary: n parent)
  case (Cons i pos)
  have i: "i < length (kids n)" and at: "node_at (kids n ! i) pos \<noteq> None"
    using Cons.prems(3) by (auto split: if_splits)
  have "sane (kids n ! i)" and "CHR ''/'' \<notin> set (node_path_segment (node_own (kids n ! i)) (Some (node_own n)))"
    using Cons.prems(1) i by (subst (asm) sane.simps, simp)+
  with Cons.IH[OF this at] Cons.prems(2) i show ?case by simp
qed simp

lemma stays:
  "\<not> moves v old \<Longrightarrow> nullish v old = old" "\<not> moves_option w kept \<Longrightarrow> keep_or w kept = kept"
  by (auto simp: moves_def moves_option_def keep_or_def split: option.split)

lemma settled [simp]: "\<not> moves v (nullish v old)" "\<not> moves_option w (keep_or w kept)"
  by (auto simp: nullish_def moves_def moves_option_def keep_or_def split: option.split)

lemma patched_leaf_Same: "patched_leaf m p = Same \<Longrightarrow> patched_own (node_own m) p = node_own m"
  by (simp add: patched_leaf_def patched_own_def Let_def stays split: if_splits)

lemma patched_leaf_Patched:
  "patched_leaf m p = Patched m' \<Longrightarrow> m' = Node (patched_own (node_own m) p) (node_children m)"
  by (auto simp: patched_leaf_def Let_def split: if_splits)

text \<open>
  C25. A progress frame whose path is the address of a node that stands in the tree is accepted, and changes the
  status, times and failure of that node's own fields to what the frame says and of no other node in the tree.
  The tree's siblings have different path segments and no segment holds a slash.
\<close>

theorem progress_lands_where_addressed:
  assumes "ru_root st = Some tree" and "sane tree" and "CHR ''/'' \<notin> set (n_id (node_own tree))"
    and "node_at tree pos = Some m" and "rp_workflow p \<noteq> ''''"
    and "rp_path p = Some (join_on (CHR ''/'') (na_path (node_address_of (Some tree) pos target_id)))"
    and "rp_path p \<noteq> Some ''''"
  shows "\<exists>tree'. apply_run_progress p (Some st) = (Some (st\<lparr>ru_root := Some tree'\<rparr>), True)
    \<and> (\<forall>q. map_option node_own (node_at tree' q)
          = (if q = pos then Some (patched_own (node_own m) p) else map_option node_own (node_at tree q)))"
proof -
  have "\<forall>s\<in>set (trail_to tree None pos). CHR ''/'' \<notin> set s"
    using assms by (intro sane_segments) (auto simp: node_path_segment_def)
  with assms have split: "split_on (CHR ''/'') (the (rp_path p)) = trail_to tree None pos"
    by (simp add: node_address_of_def split_join_on)
  have step: "apply_run_progress p (Some st) =
     (case patched_leaf m p of Missing \<Rightarrow> (Some st, False) | Same \<Rightarrow> (Some st, True)
      | Patched m' \<Rightarrow> (Some (st\<lparr>ru_root := Some (replace_at tree pos m')\<rparr>), True))"
    using assms(1,5,6,7) patch_at_address[OF assms(2,4), of None p] split
    by (auto simp add: apply_run_progress_def simp del: split_on.simps split: patch.splits)
  show ?thesis
  proof (cases "patched_leaf m p")
    case Missing
    then show ?thesis using patched_leaf_found by blast
  next
    case Same
    have "st = st\<lparr>ru_root := Some tree\<rparr>" using assms(1) by simp
    moreover have "\<forall>q. map_option node_own (node_at tree q)
          = (if q = pos then Some (patched_own (node_own m) p) else map_option node_own (node_at tree q))"
      using assms(4) patched_leaf_Same[OF Same] by simp
    ultimately show ?thesis using step Same by (intro exI[of _ tree]) simp
  next
    case (Patched m')
    have m': "m' = Node (patched_own (node_own m) p) (node_children m)"
      using patched_leaf_Patched[OF Patched] .
    show ?thesis
      using step Patched node_at_replace[OF assms(4), of m'] m'
      by (intro exI[of _ "replace_at tree pos m'"]) simp
  qed
qed

section \<open>A frame twice\<close>

lemma patched_own_segment [simp]:
  "node_path_segment (patched_own own p) parent = node_path_segment own parent"
  "node_path_segment k (Some (patched_own own p)) = node_path_segment k (Some own)"
  by (simp_all add: node_path_segment_def patched_own_def split: option.split)

lemma patched_leaf_again: "patched_leaf (Node (patched_own own p) ks) p = Same"
  by (simp add: patched_leaf_def patched_own_def Let_def)

lemma patch_again:
  "patch_node n parent trail p = Patched n'
    \<Longrightarrow> patch_node n' parent trail p = Same"
  "patch_kids ks own rest p = Patched ks'
    \<Longrightarrow> patch_kids ks' own rest p = Same"
proof (induction n parent trail p and ks own rest p arbitrary: n' and ks'
    rule: patch_node_patch_kids.induct)
  case (2 own children parent head rest p)
  then show ?case
    by (auto split: if_splits option.splits patch.splits dest!: patched_leaf_Patched simp: patched_leaf_again)
next
  case (4 k ks own rest p)
  then show ?case by (auto split: patch.splits)
qed auto

text \<open>
  Delivering a progress frame again, right after it was applied, changes nothing and gets the same answer,
  and a frame that was refused left the run as it was.
\<close>

theorem progress_twice_is_once:
  "let (cell', ok) = apply_run_progress p cell
   in apply_run_progress p cell' = (cell', ok) \<and> (ok \<or> cell' = cell)"
  by (auto simp: apply_run_progress_def Let_def patch_again split: option.split patch.splits)

section \<open>The counters\<close>

definition counts_done :: "run_node_status classified \<Rightarrow> bool" where
  "counts_done s = (s \<in> {Known N_completed, Known N_skipped})"

definition counts_failed :: "run_node_status classified \<Rightarrow> bool" where
  "counts_failed s = (s \<in> {Known N_failed, Known N_aborted})"

lemma count_node_fields:
  "rc_total (count_node s i c) = rc_total c"
  "rc_done (count_node s i c) = rc_done c + (if counts_done s then 1 else 0)"
  "rc_failed (count_node s i c) = rc_failed c + (if counts_failed s then 1 else 0)"
  "rc_current (count_node s i c) = (if rc_current c = 0 \<and> counts_running s then i + 1 else rc_current c)"
  by (induction s i c rule: count_node.induct)
    (auto simp: counts_done_def counts_failed_def counts_running_def)

lemma count_fold:
  "rc_total (foldl (\<lambda>c (i, n). count_node (f n) i c) c (enumerate k ns)) = rc_total c"
  "rc_done (foldl (\<lambda>c (i, n). count_node (f n) i c) c (enumerate k ns))
     = rc_done c + length (filter (counts_done \<circ> f) ns)"
  "rc_failed (foldl (\<lambda>c (i, n). count_node (f n) i c) c (enumerate k ns))
     = rc_failed c + length (filter (counts_failed \<circ> f) ns)"
  by (induction ns arbitrary: k c) (auto simp: count_node_fields)

lemma current_fold:
  "rc_current (foldl (\<lambda>c (i, n). count_node (f n) i c) c (enumerate k ns)) =
     (if rc_current c \<noteq> 0 then rc_current c
      else let waiting = takeWhile (\<lambda>n. \<not> counts_running (f n)) ns
           in if length waiting = length ns then 0 else k + length waiting + 1)"
  by (induction ns arbitrary: k c) (auto simp: count_node_fields Let_def)

text \<open>
  The counters of a run are the leaves counted: as many in total as the tree has leaves, done those that
  completed or were skipped, failed those that failed or were aborted, and the current step is the one-based
  place of the first leaf that runs, is paused or holds a status this client does not know, zero where there is
  none.
\<close>

theorem counters_count_leaves:
  "run_counters_of st =
     (let states = map (n_status \<circ> node_own) (leaf_nodes (Option.bind st ru_root));
          waiting = takeWhile (\<lambda>s. \<not> counts_running s) states
      in \<lparr>rc_total = length states, rc_done = length (filter counts_done states),
          rc_failed = length (filter counts_failed states),
          rc_current = (if length waiting = length states then 0 else length waiting + 1)\<rparr>)"
  by (rule run_counters.equality)
    (simp_all add: run_counters_of_def Let_def count_fold current_fold filter_map takeWhile_map comp_def)
section \<open>A repeat of two rounds\<close>

definition plain_node :: "string \<Rightarrow> run_node_type \<Rightarrow> nat option \<Rightarrow> run_node_status classified node_fields" where
  "plain_node i t it =
     \<lparr>n_id = i, n_type = t, n_status = Known N_pending, n_agent = None, n_model = None, n_effort = None,
      n_session = None, n_started = None, n_ended = None, n_iteration = it, n_branch = None,
      n_artifacts = None, n_output = None, n_watch_terminal = None, n_failure = None, n_signal = None,
      n_attempts = None\<rparr>"

lemma number_text_digit: "number_text 1 = ''1''" "number_text (Suc 0) = ''1''" "number_text 2 = ''2''"
  by (code_simp, code_simp, code_simp)

definition sample_tree :: run_node where
  "sample_tree =
     Node (plain_node ''main'' NT_sequence None)
       (Some [Node (plain_node ''loop'' NT_repeat None)
                (Some [Node (plain_node ''try'' NT_step (Some 1)) None, Node (plain_node ''try'' NT_step (Some 2)) None])])"

definition sample_run :: run_state where
  "sample_run =
     \<lparr>ru_workflow = ''wf'', ru_name = None, ru_label = None, ru_status = Some (Known R_running),
      ru_root = Some sample_tree, ru_pause_reason = None, ru_pause_detail = None, ru_stop_initiator = None,
      ru_stop_reason = None, ru_parent_session = None\<rparr>"

lemma sample_sane: "sane sample_tree"
  by (simp add: sample_tree_def plain_node_def sane_Node node_path_segment_def number_text_digit)

lemma progress_lands_where_addressed_witness:
  "\<exists>tree'. apply_run_progress
        \<lparr>rp_workflow = ''wf'', rp_path = Some ''main/loop/iter-2'', rp_status = Some ''running'',
         rp_started = None, rp_ended = None, rp_failure = None\<rparr> (Some sample_run)
      = (Some (sample_run\<lparr>ru_root := Some tree'\<rparr>), True)
    \<and> map_option (n_status \<circ> node_own) (node_at tree' [0, 1]) = Some (Known N_running)
    \<and> map_option (n_status \<circ> node_own) (node_at tree' [0, 0]) = Some (Known N_pending)"
proof -
  let ?p = "\<lparr>rp_workflow = ''wf'', rp_path = Some ''main/loop/iter-2'', rp_status = Some ''running'',
         rp_started = None, rp_ended = None, rp_failure = None\<rparr>"
  let ?m = "Node (plain_node ''try'' NT_step (Some 2)) None"
  have at: "node_at sample_tree [0, 1] = Some ?m" by (simp add: sample_tree_def)
  have held: "ru_root sample_run = Some sample_tree" by (simp add: sample_run_def)
  have segment: "CHR ''/'' \<notin> set (n_id (node_own sample_tree))"
    by (simp add: sample_tree_def plain_node_def)
  have "na_path (node_address_of (Some sample_tree) [0, 1] ''x'') = [''main'', ''loop'', ''iter-2'']"
    unfolding node_address_of_def using at
    by (simp add: sample_tree_def plain_node_def node_path_segment_def number_text_digit)
  then have path: "rp_path ?p = Some (join_on (CHR ''/'') (na_path (node_address_of (Some sample_tree) [0, 1] ''x'')))"
    by simp
  from progress_lands_where_addressed[OF held sample_sane segment at _ path]
  obtain tree' where tree':
    "apply_run_progress ?p (Some sample_run) = (Some (sample_run\<lparr>ru_root := Some tree'\<rparr>), True)"
    "\<forall>q. map_option node_own (node_at tree' q)
       = (if q = [0, 1] then Some (patched_own (node_own ?m) ?p) else map_option node_own (node_at sample_tree q))"
    by auto

  have own: "map_option (n_status \<circ> node_own) x = map_option n_status (map_option node_own x)" for x :: "run_node option"
    by (cases x) auto
  have "map_option (n_status \<circ> node_own) (node_at tree' [0, 1]) = Some (Known N_running)"
    "map_option (n_status \<circ> node_own) (node_at tree' [0, 0]) = Some (Known N_pending)"
    unfolding own tree'(2)[rule_format]
    by (simp_all add: patched_own_def plain_node_def sample_tree_def node_status_of_def run_node_status_members_def)
  with tree'(1) show ?thesis by blast
qed
end
