(* ===== verification/RunLog.thy ===== *)
theory RunLog
  imports PageLoad
begin

text \<open>
  A run's own entry log (\<open>run-store.ts\<close>, "The run's entry log"), the range read that repairs a gap in it
  (\<open>run-turn-range.ts\<close>) and the step read that fills a whole turn (\<open>run-step-transcript.ts\<close>). Every map keyed
  by workflow id is an association list; a version cell that is absent reads 0, as the one \<open>logCell\<close> makes
  does. A lane's open entry is seated, and a turn's tails replaced, as the chat's are (\<open>seat_tail\<close>,
  \<open>tails_of\<close>). The observed digest stamps and the repair the module injects are effects in the order of the calls.
\<close>

section \<open>The logs\<close>

record run_log =
  rl_turns :: "(string \<times> turn_state) list"
  rl_order :: "string list"
  rl_holes :: "string list"

record run_logs =
  lg_logs :: "(string \<times> run_log) list"
  lg_versions :: "(string \<times> nat) list"

datatype run_effect =
    Repair_run string string "int option"
  | Observe_run subject_stamp
  | Forget_run_subject string string

definition empty_log :: run_log where
  "empty_log = \<lparr>rl_turns = [], rl_order = [], rl_holes = []\<rparr>"

definition log_of :: "string \<Rightarrow> 'z run_logs_scheme \<Rightarrow> run_log" where
  "log_of wid lg = nullish (map_of (lg_logs lg) wid) empty_log"

definition put_log :: "string \<Rightarrow> run_log \<Rightarrow> 'z run_logs_scheme \<Rightarrow> 'z run_logs_scheme" where
  "put_log wid l lg = lg\<lparr>lg_logs := AList.update wid l (lg_logs lg)\<rparr>"

definition bump_log :: "string \<Rightarrow> 'z run_logs_scheme \<Rightarrow> 'z run_logs_scheme" where
  "bump_log wid lg = lg\<lparr>lg_versions := AList.update wid (nullish (map_of (lg_versions lg) wid) 0 + 1) (lg_versions lg)\<rparr>"

definition run_turn_of :: "string \<Rightarrow> string \<Rightarrow> 'z run_logs_scheme \<Rightarrow> turn_state option" where
  "run_turn_of wid turn_id lg = Option.bind (map_of (lg_logs lg) wid) (\<lambda>l. map_of (rl_turns l) turn_id)"

definition put_run_turn :: "string \<Rightarrow> string \<Rightarrow> turn_state \<Rightarrow> 'z run_logs_scheme \<Rightarrow> 'z run_logs_scheme" where
  "put_run_turn wid turn_id st lg =
     put_log wid ((log_of wid lg)\<lparr>rl_turns := AList.update turn_id st (rl_turns (log_of wid lg))\<rparr>) lg"

definition run_turns :: "string \<Rightarrow> 'z run_logs_scheme \<Rightarrow> (string \<times> turn_state) list" where
  "run_turns wid lg =
     (case map_of (lg_logs lg) wid of
        None \<Rightarrow> []
      | Some l \<Rightarrow>
          concat (map (\<lambda>id1. case map_of (rl_turns l) id1 of None \<Rightarrow> [] | Some t \<Rightarrow> [(id1, t)]) (rl_order l)))"

definition run_turn_holes :: "string \<Rightarrow> 'z run_logs_scheme \<Rightarrow> string list" where
  "run_turn_holes wid lg = (case map_of (lg_logs lg) wid of None \<Rightarrow> [] | Some l \<Rightarrow> rl_holes l)"

definition run_turn_held_seq :: "string \<Rightarrow> string \<Rightarrow> 'z run_logs_scheme \<Rightarrow> int option" where
  "run_turn_held_seq wid turn_id lg =
     (case run_turn_of wid turn_id lg of
        None \<Rightarrow> None
      | Some st \<Rightarrow> if ts_entries st = [] then None else Some (int (length (ts_entries st)) - 1))"

definition clear_run_hole :: "string \<Rightarrow> string \<Rightarrow> 'z run_logs_scheme \<Rightarrow> 'z run_logs_scheme" where
  "clear_run_hole wid turn_id lg =
     (case map_of (lg_logs lg) wid of
        None \<Rightarrow> lg
      | Some l \<Rightarrow>
          if turn_id \<notin> set (rl_holes l) then lg
          else bump_log wid (put_log wid (l\<lparr>rl_holes := filter (\<lambda>t. t \<noteq> turn_id) (rl_holes l)\<rparr>) lg))"

definition run_turn_ref :: "string \<Rightarrow> string \<Rightarrow> string" where
  "run_turn_ref wid turn_id = wid @ ''/'' @ turn_id"

definition int_text :: "int \<Rightarrow> string" where
  "int_text i = (if i < 0 then ''-'' @ number_text (nat (- i)) else number_text (nat i))"

definition turn_version :: "string \<Rightarrow> turn_state \<Rightarrow> string" where
  "turn_version turn_id st = turn_id @ '':'' @ int_text (int (length (ts_entries st)) - 1)"

definition stamp_run_turn :: "string \<Rightarrow> string \<Rightarrow> turn_state \<Rightarrow> run_effect list" where
  "stamp_run_turn wid turn_id st =
     (if ts_close_at st \<noteq> None then []
      else [Observe_run \<lparr>st_kind = ''run_turn'', st_ref = run_turn_ref wid turn_id,
                         st_version = turn_version turn_id st, st_epoch = None\<rparr>])"

type_synonym 'z run_outcome = "'z run_logs_scheme \<times> run_effect list"

definition mark_run_hole :: "string \<Rightarrow> string \<Rightarrow> 'z run_logs_scheme \<Rightarrow> 'z run_outcome" where
  "mark_run_hole wid turn_id lg =
     (let l = log_of wid lg;
          holes = (if turn_id \<in> set (rl_holes l) then rl_holes l else rl_holes l @ [turn_id])
      in (put_log wid (l\<lparr>rl_holes := holes\<rparr>) lg,
          [Repair_run wid turn_id (run_turn_held_seq wid turn_id lg)]))"

text \<open>Every caller of \<open>markRunHole\<close> bumps the log next.\<close>

definition hole_and_bump :: "string \<Rightarrow> string \<Rightarrow> 'z run_logs_scheme \<Rightarrow> 'z run_outcome" where
  "hole_and_bump wid turn_id lg = (case mark_run_hole wid turn_id lg of (lg', es) \<Rightarrow> (bump_log wid lg', es))"

text \<open>What \<open>forgetRun\<close> does to the log; nothing is said of the turns it held.\<close>

definition forget_run_log :: "string \<Rightarrow> 'z run_logs_scheme \<Rightarrow> 'z run_logs_scheme" where
  "forget_run_log wid lg =
     lg\<lparr>lg_logs := AList.delete wid (lg_logs lg), lg_versions := AList.delete wid (lg_versions lg)\<rparr>"

section \<open>The six frames\<close>

definition open_run_turn :: "string \<Rightarrow> entry \<Rightarrow> 'z run_logs_scheme \<Rightarrow> 'z run_outcome" where
  "open_run_turn wid e lg =
     (let l = log_of wid lg in
      if map_of (rl_turns l) (e_turn e) \<noteq> None then (lg, [])
      else (bump_log wid (put_log wid
              (l\<lparr>rl_turns := AList.update (e_turn e) (fresh_turn e) (rl_turns l),
                 rl_order := rl_order l @ [e_turn e]\<rparr>) lg),
            stamp_run_turn wid (e_turn e) (fresh_turn e)))"

definition append_run_entry :: "string \<Rightarrow> entry \<Rightarrow> 'z run_logs_scheme \<Rightarrow> 'z run_outcome" where
  "append_run_entry wid e lg =
     (case map_of (rl_turns (log_of wid lg)) (e_turn e) of
        None \<Rightarrow> hole_and_bump wid (e_turn e) lg
      | Some st \<Rightarrow>
          if e_seq e \<noteq> int (length (ts_entries st)) then
            (if map_option e_id (nth_opt (ts_entries st) (e_seq e)) = Some (e_id e) then (lg, [])
             else hole_and_bump wid (e_turn e) lg)
          else
            let st' = seat_entry e st
            in (bump_log wid (put_run_turn wid (e_turn e) st' lg),
                if entry_kind_of e = K_turn_close
                then [Forget_run_subject ''run_turn'' (run_turn_ref wid (e_turn e))]
                else stamp_run_turn wid (e_turn e) st'))"

definition open_run_entry :: "string \<Rightarrow> open_entry \<Rightarrow> 'z run_logs_scheme \<Rightarrow> 'z run_outcome" where
  "open_run_entry wid oe lg =
     (case run_turn_of wid (oe_turn oe) lg of
        None \<Rightarrow> hole_and_bump wid (oe_turn oe) lg
      | Some st \<Rightarrow> (bump_log wid (put_run_turn wid (oe_turn oe) (seat_tail oe st) lg), []))"

definition adopt_run_open_entries ::
    "string \<Rightarrow> string \<Rightarrow> open_entry list \<Rightarrow> 'z run_logs_scheme \<Rightarrow> 'z run_logs_scheme" where
  "adopt_run_open_entries wid turn_id os lg =
     (case run_turn_of wid turn_id lg of
        None \<Rightarrow> lg
      | Some st \<Rightarrow> bump_log wid (put_run_turn wid turn_id (tails_of turn_id os st) lg))"

definition apply_run_delta ::
    "string \<Rightarrow> string \<Rightarrow> string \<Rightarrow> string \<Rightarrow> int \<Rightarrow> string \<Rightarrow> 'z run_logs_scheme \<Rightarrow> 'z run_outcome" where
  "apply_run_delta wid turn_id entry_id lane n delta lg =
     (case run_turn_of wid turn_id lg of
        None \<Rightarrow> hole_and_bump wid turn_id lg
      | Some st \<Rightarrow>
          (case map_of (ts_open st) lane of
             None \<Rightarrow> hole_and_bump wid turn_id lg
           | Some oe \<Rightarrow>
               if oe_id oe \<noteq> entry_id \<or> n \<noteq> oe_n oe + 1 then hole_and_bump wid turn_id lg
               else (bump_log wid (put_run_turn wid turn_id
                       (st\<lparr>ts_open := AList.update lane (oe\<lparr>oe_text := oe_text oe @ delta, oe_n := n\<rparr>)
                                        (ts_open st)\<rparr>) lg), [])))"

definition seal_run_entry ::
    "string \<Rightarrow> string \<Rightarrow> string \<Rightarrow> string \<Rightarrow> int \<Rightarrow> int \<Rightarrow> int \<Rightarrow> 'z run_logs_scheme \<Rightarrow> 'z run_outcome" where
  "seal_run_entry wid turn_id entry_id lane seq ts n lg =
     (case run_turn_of wid turn_id lg of
        None \<Rightarrow> hole_and_bump wid turn_id lg
      | Some st \<Rightarrow>
          (case map_of (ts_open st) lane of
             None \<Rightarrow> hole_and_bump wid turn_id lg
           | Some oe \<Rightarrow>
               if oe_id oe \<noteq> entry_id \<or> n \<noteq> oe_n oe then hole_and_bump wid turn_id lg
               else append_run_entry wid (sealed_entry oe turn_id lane seq ts)
                      (put_run_turn wid turn_id (st\<lparr>ts_open := AList.delete lane (ts_open st)\<rparr>) lg)))"

end
