(* ===== verification/Trace.thy ===== *)
theory Trace
  imports Prelude
begin

text \<open>
  Runs of a component whose steps answer a state and the effects they ask for, and two contracts over such
  runs: one component simulating another, and a read that coalesces (at most one out, at most one owed).
\<close>

section \<open>Runs\<close>

fun trace :: "('s \<Rightarrow> 'f \<Rightarrow> 's \<times> 'e list) \<Rightarrow> 's \<Rightarrow> 'f list \<Rightarrow> 's \<times> 'e list" where
  "trace step s [] = (s, [])"
| "trace step s (f # fs) =
     (let (s1, es1) = step s f; (s2, es2) = trace step s1 fs in (s2, es1 @ es2))"

lemma trace_Cons:
  "fst (trace step s (f # fs)) = fst (trace step (fst (step s f)) fs)"
  "snd (trace step s (f # fs)) = snd (step s f) @ snd (trace step (fst (step s f)) fs)"
  by (simp_all split: prod.split)

declare trace.simps(2) [simp del]

lemma trace_append:
  "fst (trace step s (fs @ gs)) = fst (trace step (fst (trace step s fs)) gs)"
  "snd (trace step s (fs @ gs)) = snd (trace step s fs) @ snd (trace step (fst (trace step s fs)) gs)"
  by (induction fs arbitrary: s) (simp_all add: trace_Cons)

lemma trace_snoc:
  "fst (trace step s (fs @ [f])) = fst (step (fst (trace step s fs)) f)"
  "snd (trace step s (fs @ [f])) = snd (trace step s fs) @ snd (step (fst (trace step s fs)) f)"
  by (simp_all add: trace_append trace_Cons)

section \<open>A component that does what another does\<close>

text \<open>\<open>view\<close> and \<open>view'\<close> are what an observer sees of the effects.\<close>

locale simulation =
  fixes step :: "'s \<Rightarrow> 'f \<Rightarrow> 's \<times> 'e list" and step' :: "'t \<Rightarrow> 'f \<Rightarrow> 't \<times> 'g list"
    and rel :: "'s \<Rightarrow> 't \<Rightarrow> bool" and ok :: "'f \<Rightarrow> bool"
    and view :: "'e list \<Rightarrow> 'o list" and view' :: "'g list \<Rightarrow> 'o list"
  assumes step_rel: "rel s t \<Longrightarrow> ok f \<Longrightarrow> rel (fst (step s f)) (fst (step' t f))"
    and step_view: "rel s t \<Longrightarrow> ok f \<Longrightarrow> view (snd (step s f)) = view' (snd (step' t f))"
    and view_append: "view (es @ fs) = view es @ view fs" "view' (es' @ fs') = view' es' @ view' fs'"
    and view_Nil: "view [] = []" "view' [] = []"
begin

lemma trace_simulates:
  "rel s t \<Longrightarrow> list_all ok fs
   \<Longrightarrow> rel (fst (trace step s fs)) (fst (trace step' t fs))
     \<and> view (snd (trace step s fs)) = view' (snd (trace step' t fs))"
  by (induction fs arbitrary: s t) (simp_all add: trace_Cons view_append view_Nil step_rel step_view)

end

section \<open>A read that coalesces\<close>

text \<open>
  \<open>out\<close>: a request is in flight. \<open>plain\<close> frames are the ones that do not land it; a frame that \<open>drops\<close> makes the
  component forget that it is out. \<open>sent\<close> counts the requests among the effects.
\<close>

locale single_flight =
  fixes step :: "'s \<Rightarrow> 'f \<Rightarrow> 's \<times> 'e list" and plain drops :: "'f \<Rightarrow> bool"
    and out :: "'s \<Rightarrow> bool" and sent :: "'e list \<Rightarrow> nat"
  assumes sent_Nil: "sent [] = 0" and sent_append: "sent (es @ fs) = sent es + sent fs"
    and plain_out: "plain f \<Longrightarrow> out s \<Longrightarrow> out (fst (step s f)) \<and> sent (snd (step s f)) = 0"
    and plain_idle: "plain f \<Longrightarrow> \<not> out s \<Longrightarrow> sent (snd (step s f)) = (if out (fst (step s f)) then 1 else 0)"
    and drops_quiet: "drops f \<Longrightarrow> sent (snd (step s f)) = 0"
begin

lemma quiet_while_out:
  "out s \<Longrightarrow> list_all plain fs \<Longrightarrow> out (fst (trace step s fs)) \<and> sent (snd (trace step s fs)) = 0"
  by (induction fs arbitrary: s) (simp_all add: trace_Cons sent_Nil sent_append plain_out)

lemma sends_balance:
  "list_all (\<lambda>f. plain f \<or> drops f) fs \<Longrightarrow>
   sent (snd (trace step s fs)) + (if out s then 1 else 0) \<le> 1 + length (filter drops fs)"
proof (induction fs arbitrary: s)
  case (Cons f fs)
  have rest: "sent (snd (trace step (fst (step s f)) fs)) + (if out (fst (step s f)) then 1 else 0) \<le> 1 + length (filter drops fs)"
    using Cons by simp
  show ?case
  proof (cases "drops f")
    case True
    then show ?thesis using rest drops_quiet[of f s] by (simp add: trace_Cons sent_append split: if_splits)
  next
    case False
    then have "plain f" using Cons.prems by simp
    then have "sent (snd (step s f)) + (if out s then 1 else 0) = (if out (fst (step s f)) then 1 else 0)"
      using plain_out[of f s] plain_idle[of f s] by (cases "out s") auto
    then show ?thesis using rest False by (simp add: trace_Cons sent_append)
  qed
qed (simp add: sent_Nil)

lemma storm_sends_once:
  "list_all (\<lambda>f. plain f \<or> drops f) fs \<Longrightarrow> sent (snd (trace step s fs)) \<le> 1 + length (filter drops fs)"
  using sends_balance[of fs s] by simp

end

text \<open>\<open>owed\<close>: another request is due when the one out lands. A frame may ask, may land the request in flight, or is neither.\<close>

locale coalesced_read = single_flight step plain drops out sent
  for step :: "'s \<Rightarrow> 'f \<Rightarrow> 's \<times> 'e list" and plain drops :: "'f \<Rightarrow> bool"
    and out :: "'s \<Rightarrow> bool" and sent :: "'e list \<Rightarrow> nat" +
  fixes asks lands :: "'f \<Rightarrow> bool" and owed :: "'s \<Rightarrow> bool"
  assumes plain_owed: "plain f \<Longrightarrow> out s \<Longrightarrow> owed s \<Longrightarrow> owed (fst (step s f))"
    and ask_idle: "asks f \<Longrightarrow> \<not> out s \<Longrightarrow> 0 < sent (snd (step s f))"
    and ask_out: "asks f \<Longrightarrow> out s \<Longrightarrow> owed (fst (step s f))"
    and asks_plain: "asks f \<Longrightarrow> plain f"
    and lands_owed: "lands f \<Longrightarrow> out s \<Longrightarrow> owed s \<Longrightarrow> sent (snd (step s f)) = 1"
begin

lemma owed_while_out:
  "out s \<Longrightarrow> owed s \<Longrightarrow> list_all plain fs \<Longrightarrow> owed (fst (trace step s fs))"
  by (induction fs arbitrary: s) (simp_all add: trace_Cons plain_out plain_owed)

text \<open>After a frame that asks, a request leaves: at once, or when the one in flight lands.\<close>

lemma ask_is_answered:
  assumes "asks f" and "list_all plain fs" and "lands g"
  shows "0 < sent (snd (trace step s (f # fs @ [g])))"
proof (cases "out s")
  case True
  let ?s1 = "fst (step s f)"
  have s1: "out ?s1" "owed ?s1" using True assms(1) ask_out asks_plain plain_out by auto
  note s2 = quiet_while_out[OF s1(1) assms(2)] owed_while_out[OF s1 assms(2)]
  have "sent (snd (step (fst (trace step ?s1 fs)) g)) = 1" using lands_owed[OF assms(3)] s2 by blast
  then show ?thesis by (simp add: trace_Cons trace_snoc sent_append)
next
  case False
  then show ?thesis using ask_idle[OF assms(1)] by (simp add: trace_Cons sent_append)
qed

end

end
