(* ===== verification/RunLogFacts.thy ===== *)
theory RunLogFacts
  imports RunLog EntryFacts Trace
begin

text \<open>
  A run's log does what a chat's log does with the same frames, reverts aside: the same turns in the same
  order and the same repairs asked for. The last digest stamp it makes of an open turn is that turn's newest
  sealed \<open>seq\<close>.
\<close>

section \<open>Reading what was written\<close>

lemma log_of_bump [simp]: "log_of wid (bump_log w lg) = log_of wid lg"
  by (simp add: log_of_def bump_log_def)

lemma log_of_put [simp]: "log_of wid (put_log w l lg) = (if wid = w then l else log_of wid lg)"
  by (simp add: log_of_def put_log_def map_of_update)

lemma run_turn_of_log: "run_turn_of wid t lg = map_of (rl_turns (log_of wid lg)) t"
  by (cases "map_of (lg_logs lg) wid") (simp_all add: run_turn_of_def log_of_def empty_log_def)

lemma log_of_put_turn [simp]:
  "log_of wid (put_run_turn w t st lg)
     = (if wid = w then (log_of w lg)\<lparr>rl_turns := AList.update t st (rl_turns (log_of w lg))\<rparr> else log_of wid lg)"
  by (simp add: put_run_turn_def)

lemma hole_log [simp]:
  "rl_turns (log_of wid (fst (hole_and_bump w t lg))) = rl_turns (log_of wid lg)"
  "rl_order (log_of wid (fst (hole_and_bump w t lg))) = rl_order (log_of wid lg)"
  "snd (hole_and_bump w t lg) = [Repair_run w t (run_turn_held_seq w t lg)]"
  by (simp_all add: hole_and_bump_def mark_run_hole_def Let_def)

section \<open>The same frames\<close>

fun run_log_step :: "string \<Rightarrow> 'z run_logs_scheme \<Rightarrow> window_frame \<Rightarrow> 'z run_outcome" where
  "run_log_step wid lg (W_open e) = open_run_turn wid e lg"
| "run_log_step wid lg (W_append e) = append_run_entry wid e lg"
| "run_log_step wid lg (W_open_entry oe) = open_run_entry wid oe lg"
| "run_log_step wid lg (W_delta painted t i l n d) = apply_run_delta wid t i l n d lg"
| "run_log_step wid lg (W_seal t i l q ts n) = seal_run_entry wid t i l q ts n lg"

fun chat_log_step :: "session \<Rightarrow> window_frame \<Rightarrow> outcome_of_op" where
  "chat_log_step s (W_open e) = open_turn e s"
| "chat_log_step s (W_append e) = append_entry e s"
| "chat_log_step s (W_open_entry oe) = open_lane_entry oe s"
| "chat_log_step s (W_delta painted t i l n d) = apply_delta painted t i l n d s"
| "chat_log_step s (W_seal t i l q ts n) = seal_entry t i l q ts n s"

definition chat_repairs :: "effect list \<Rightarrow> (string \<times> int option) list" where
  "chat_repairs es = concat (map (\<lambda>e. case e of Repair t a \<Rightarrow> [(t, a)] | _ \<Rightarrow> []) es)"

definition run_repairs :: "run_effect list \<Rightarrow> (string \<times> int option) list" where
  "run_repairs es = concat (map (\<lambda>e. case e of Repair_run w t a \<Rightarrow> [(t, a)] | _ \<Rightarrow> []) es)"

lemma repairs_simps [simp]:
  "chat_repairs [] = []" "run_repairs [] = []"
  "chat_repairs (es @ fs) = chat_repairs es @ chat_repairs fs"
  "run_repairs (ds @ gs) = run_repairs ds @ run_repairs gs"
  "run_repairs (Repair_run w t a # ds) = (t, a) # run_repairs ds"
  "run_repairs (Observe_run st # ds) = run_repairs ds"
  "run_repairs (Forget_run_subject k r # ds) = run_repairs ds"
  by (simp_all add: chat_repairs_def run_repairs_def)

lemma chat_repairs_Cons [simp]:
  "chat_repairs (e # es) = (case e of Repair t a \<Rightarrow> (t, a) # chat_repairs es | _ \<Rightarrow> chat_repairs es)"
  by (simp add: chat_repairs_def split: effect.split)

lemma chat_repairs_publish [simp]:
  "chat_repairs (publish_entry c) = []" "chat_repairs (publish_settled_call st e) = []"
  "chat_repairs (snd (retire_steer_rows e s)) = []"
  by (simp_all add: publish_entry_def publish_settled_call_def retire_steer_rows_def Let_def
      split: option.split)

lemma run_repairs_stamp [simp]: "run_repairs (stamp_run_turn w t st) = []"
  by (simp add: stamp_run_turn_def)

definition holds_entries :: "(string \<times> turn_state) list \<Rightarrow> bool" where
  "holds_entries turns = (\<forall>t st. map_of turns t = Some st \<longrightarrow> ts_entries st \<noteq> [])"

definition same_log :: "string \<Rightarrow> session \<Rightarrow> 'z run_logs_scheme \<Rightarrow> bool" where
  "same_log wid s lg =
     (rl_turns (log_of wid lg) = s_turns s \<and> rl_order (log_of wid lg) = s_turn_order s
      \<and> holds_entries (s_turns s))"

definition keeps_turns :: "window_frame \<Rightarrow> bool" where
  "keeps_turns f = (case f of W_append e \<Rightarrow> entry_kind_of e \<noteq> K_turn_revert | _ \<Rightarrow> True)"

lemma holds_entries_update:
  "holds_entries turns \<Longrightarrow> ts_entries st \<noteq> [] \<Longrightarrow> holds_entries (AList.update t st turns)"
  by (auto simp: holds_entries_def map_of_update split: if_splits)

lemma holds_entriesD: "holds_entries turns \<Longrightarrow> map_of turns t = Some st \<Longrightarrow> ts_entries st \<noteq> []"
  by (auto simp: holds_entries_def)

lemma same_hole:
  "same_log wid s lg \<Longrightarrow> run_turn_held_seq wid t lg =
     (case map_of (s_turns s) t of None \<Rightarrow> None | Some st \<Rightarrow> Some (int (length (ts_entries st)) - 1))"
  by (auto simp: same_log_def run_turn_held_seq_def run_turn_of_log dest: holds_entriesD split: option.split)

lemma stale_turns [simp]:
  "s_turns (mark_window_stale s) = s_turns s" "s_turn_order (mark_window_stale s) = s_turn_order s"
  "s_turns (note_resident_mutation s) = s_turns s"
  "s_turn_order (note_resident_mutation s) = s_turn_order s"
  by (simp_all add: mark_window_stale_def note_resident_mutation_def)

lemma same_hole_step:
  assumes "same_log wid s lg"
  shows "same_log wid (fst (mark_hole t a s)) (fst (hole_and_bump wid t lg))"
    and "a = (case map_of (s_turns s) t of None \<Rightarrow> None | Some st \<Rightarrow> Some (int (length (ts_entries st)) - 1))
      \<Longrightarrow> chat_repairs (snd (mark_hole t a s)) = run_repairs (snd (hole_and_bump wid t lg))"
  using assms same_hole[OF assms, of t] by (simp_all add: same_log_def mark_hole_def)

lemma append_in_turn_log:
  "entry_kind_of e \<noteq> K_turn_revert \<Longrightarrow>
   s_turns (fst (append_in_turn e st s)) = AList.update (e_turn e) (seat_entry e st) (s_turns s)
   \<and> s_turn_order (fst (append_in_turn e st s)) = s_turn_order s
   \<and> chat_repairs (snd (append_in_turn e st s)) = []"
proof -
  assume kind: "entry_kind_of e \<noteq> K_turn_revert"
  let ?s1 = "(note_resident_mutation s)\<lparr>s_turns := AList.update (e_turn e) (seat_entry e st) (s_turns s)\<rparr>"
  obtain s2 ret where r: "retire_steer_rows e ?s1 = (s2, ret)" by (cases "retire_steer_rows e ?s1")
  have "s_turns s2 = s_turns ?s1" "s_turn_order s2 = s_turn_order ?s1" "chat_repairs ret = []"
    using retire_fields(1,2)[of e ?s1] chat_repairs_publish(3)[of e ?s1] r by simp_all
  with kind r show ?thesis by (simp add: append_in_turn_def Let_def)
qed

lemma same_append:
  assumes "same_log wid s lg" and "entry_kind_of e \<noteq> K_turn_revert"
  shows "same_log wid (fst (append_entry e s)) (fst (append_run_entry wid e lg))
    \<and> chat_repairs (snd (append_entry e s)) = run_repairs (snd (append_run_entry wid e lg))"
proof (cases "map_of (s_turns s) (e_turn e)")
  case None
  with assms same_hole_step[OF assms(1), where t = "e_turn e" and a = None] show ?thesis
    by (simp add: append_entry_def append_run_entry_def same_log_def)
next
  case (Some st)
  note run = Some assms(1)[unfolded same_log_def]
  show ?thesis
  proof (cases "e_seq e = int (length (ts_entries st))")
    case True
    have "holds_entries (AList.update (e_turn e) (seat_entry e st) (s_turns s))"
      using run by (intro holds_entries_update) (auto simp: seat_entry_def)
    with run True append_in_turn_log[OF assms(2), of st s] show ?thesis
      by (simp add: append_entry_def append_run_entry_def same_log_def Let_def)
  next
    case False
    with run same_hole_step[OF assms(1), where t = "e_turn e" and a = "Some (int (length (ts_entries st)) - 1)"] assms(1)
    show ?thesis by (simp add: append_entry_def append_run_entry_def)
  qed
qed

lemma same_open:
  assumes "same_log wid s lg"
  shows "same_log wid (fst (open_turn e s)) (fst (open_run_turn wid e lg))
    \<and> chat_repairs (snd (open_turn e s)) = run_repairs (snd (open_run_turn wid e lg))"
proof -
  have "holds_entries (AList.update (e_turn e) (fresh_turn e) (s_turns s))"
    using assms by (intro holds_entries_update) (auto simp: same_log_def fresh_turn_def)
  then show ?thesis
    using assms by (auto simp: open_turn_def open_run_turn_def same_log_def recount_def Let_def)
qed

lemma same_put:
  assumes "same_log wid s lg" and "ts_entries st \<noteq> []"
  shows "same_log wid (with_turn t st s) (put_run_turn wid t st lg)"
  using assms by (simp add: same_log_def with_turn_def holds_entries_update)

lemma same_bump: "same_log wid s (bump_log wid lg) = same_log wid s lg"
  by (simp add: same_log_def)

lemma same_open_entry:
  assumes "same_log wid s lg"
  shows "same_log wid (fst (open_lane_entry oe s)) (fst (open_run_entry wid oe lg))
    \<and> chat_repairs (snd (open_lane_entry oe s)) = run_repairs (snd (open_run_entry wid oe lg))"
proof (cases "map_of (s_turns s) (oe_turn oe)")
  case None
  with assms same_hole_step[OF assms, where t = "oe_turn oe" and a = None] show ?thesis
    by (simp add: open_lane_entry_def open_run_entry_def run_turn_of_log same_log_def)
next
  case (Some st)
  then have "same_log wid (with_turn (oe_turn oe) (seat_tail oe st) s) (put_run_turn wid (oe_turn oe) (seat_tail oe st) lg)"
    using assms by (intro same_put) (auto simp: seat_tail_def Let_def same_log_def dest: holds_entriesD)
  with Some assms show ?thesis
    by (simp add: open_lane_entry_def open_run_entry_def run_turn_of_log same_bump seat_tail_def Let_def same_log_def)
qed

text \<open>A delta or a seal for a turn the log holds: its lane's open entry fits, or there is a hole.\<close>

lemma same_delta:
  assumes "same_log wid s lg"
  shows "same_log wid (fst (apply_delta painted t i l n d s)) (fst (apply_run_delta wid t i l n d lg))
    \<and> chat_repairs (snd (apply_delta painted t i l n d s)) = run_repairs (snd (apply_run_delta wid t i l n d lg))"
proof (cases "map_of (s_turns s) t")
  case None
  with assms same_hole_step[OF assms, where t = t and a = None] show ?thesis
    by (simp add: apply_delta_def apply_run_delta_def run_turn_of_log same_log_def)
next
  case (Some st)
  note hole = same_hole_step[OF assms, where t = t and a = "Some (int (length (ts_entries st)) - 1)"]
  have run: "run_turn_of wid t lg = Some st" using Some assms by (simp add: run_turn_of_log same_log_def)
  have "same_log wid (with_turn t (st\<lparr>ts_open := x\<rparr>) s) (put_run_turn wid t (st\<lparr>ts_open := x\<rparr>) lg)" for x
    using Some assms by (intro same_put) (auto simp: same_log_def dest: holds_entriesD)
  with Some run hole show ?thesis
    by (simp add: apply_delta_def apply_run_delta_def same_bump Let_def split: option.split)
qed

lemma same_seal:
  assumes "same_log wid s lg"
  shows "same_log wid (fst (seal_entry t i l q ts n s)) (fst (seal_run_entry wid t i l q ts n lg))
    \<and> chat_repairs (snd (seal_entry t i l q ts n s)) = run_repairs (snd (seal_run_entry wid t i l q ts n lg))"
proof (cases "map_of (s_turns s) t")
  case None
  with assms same_hole_step[OF assms, where t = t and a = None] show ?thesis
    by (simp add: seal_entry_def seal_run_entry_def run_turn_of_log same_log_def)
next
  case (Some st)
  note hole = same_hole_step[OF assms, where t = t and a = "Some (int (length (ts_entries st)) - 1)"]
  have run: "run_turn_of wid t lg = Some st" using Some assms by (simp add: run_turn_of_log same_log_def)
  have "same_log wid (with_turn t (st\<lparr>ts_open := x\<rparr>) s) (put_run_turn wid t (st\<lparr>ts_open := x\<rparr>) lg)" for x
    using Some assms by (intro same_put) (auto simp: same_log_def dest: holds_entriesD)
  from same_append[OF this]
  have "entry_kind_of e \<noteq> K_turn_revert \<Longrightarrow>
      same_log wid (fst (append_entry e (with_turn t (st\<lparr>ts_open := x\<rparr>) s)))
        (fst (append_run_entry wid e (put_run_turn wid t (st\<lparr>ts_open := x\<rparr>) lg)))
      \<and> chat_repairs (snd (append_entry e (with_turn t (st\<lparr>ts_open := x\<rparr>) s)))
        = run_repairs (snd (append_run_entry wid e (put_run_turn wid t (st\<lparr>ts_open := x\<rparr>) lg)))" for e x .
  moreover have "entry_kind_of (sealed_entry oe t l q ts) \<noteq> K_turn_revert" for oe
    by (cases "oe_kind oe") (simp_all add: sealed_entry_def entry_kind_of_def)
  ultimately show ?thesis
    using Some run hole
    by (auto simp: seal_entry_def seal_run_entry_def Let_def split: option.split prod.split)
      (metis fst_conv snd_conv)+
qed

interpretation run_log: simulation chat_log_step "run_log_step wid" "same_log wid" keeps_turns
  chat_repairs run_repairs for wid
proof
  fix s lg f
  assume "same_log wid s lg" "keeps_turns f"
  then have "same_log wid (fst (chat_log_step s f)) (fst (run_log_step wid lg f))
      \<and> chat_repairs (snd (chat_log_step s f)) = run_repairs (snd (run_log_step wid lg f))"
    by (cases f) (simp_all add: keeps_turns_def same_open same_append same_open_entry same_delta same_seal)
  then show "same_log wid (fst (chat_log_step s f)) (fst (run_log_step wid lg f))"
    and "chat_repairs (snd (chat_log_step s f)) = run_repairs (snd (run_log_step wid lg f))" by auto
qed simp_all

text \<open>
  C26. A run's log is a chat's log: fed the same frames from the same turns, in any order and with any gaps,
  redeliveries and lost opens among them, they hold the same turns in the same order and have asked for the
  same repairs in the same order. A revert, which no run's log carries, is the one frame left out.
\<close>

theorem run_log_refines_chat:
  assumes "rl_turns (log_of wid lg) = s_turns s" and "rl_order (log_of wid lg) = s_turn_order s"
    and "holds_entries (s_turns s)" and "list_all keeps_turns fs"
  shows "rl_turns (log_of wid (fst (trace (run_log_step wid) lg fs))) = s_turns (fst (trace chat_log_step s fs))
    \<and> rl_order (log_of wid (fst (trace (run_log_step wid) lg fs))) = s_turn_order (fst (trace chat_log_step s fs))
    \<and> run_repairs (snd (trace (run_log_step wid) lg fs)) = chat_repairs (snd (trace chat_log_step s fs))"
  using run_log.trace_simulates[where wid = wid and s = s and t = lg and fs = fs] assms by (simp add: same_log_def)
section \<open>What was last said of a turn\<close>

text \<open>The last call to the version map about each ref, of the calls recorded.\<close>

definition last_call :: "(string \<Rightarrow> run_effect option) \<Rightarrow> run_effect \<Rightarrow> string \<Rightarrow> run_effect option" where
  "last_call d e =
     (case e of
        Observe_run st \<Rightarrow> d(st_ref st := Some e)
      | Forget_run_subject k r \<Rightarrow> d(r := Some e)
      | Repair_run w t a \<Rightarrow> d)"

definition last_calls :: "(string \<Rightarrow> run_effect option) \<Rightarrow> run_effect list \<Rightarrow> string \<Rightarrow> run_effect option" where
  "last_calls d es = foldl last_call d es"

definition turn_call :: "string \<Rightarrow> string \<Rightarrow> turn_state \<Rightarrow> run_effect" where
  "turn_call wid t st =
     (if ts_close_at st = None
      then Observe_run \<lparr>st_kind = ''run_turn'', st_ref = run_turn_ref wid t, st_version = turn_version t st, st_epoch = None\<rparr>
      else Forget_run_subject ''run_turn'' (run_turn_ref wid t))"

text \<open>The run's frames and its forgetting.\<close>

datatype kept_frame = Log_frame window_frame | Log_forgotten

fun kept_log_step :: "string \<Rightarrow> 'z run_logs_scheme \<Rightarrow> kept_frame \<Rightarrow> 'z run_outcome" where
  "kept_log_step wid lg (Log_frame f) = run_log_step wid lg f"
| "kept_log_step wid lg Log_forgotten = (forget_run_log wid lg, [])"

definition turn_fits :: "bool \<Rightarrow> string \<Rightarrow> (string \<Rightarrow> run_effect option) \<Rightarrow> string \<Rightarrow> turn_state option \<Rightarrow> bool" where
  "turn_fits kept wid d t held =
     (case held of
        None \<Rightarrow> \<not> kept \<or> d (run_turn_ref wid t) = None
      | Some st \<Rightarrow> d (run_turn_ref wid t) = Some (turn_call wid t st))"

definition calls_fit :: "bool \<Rightarrow> string \<Rightarrow> (string \<Rightarrow> run_effect option) \<Rightarrow> 'z run_logs_scheme \<Rightarrow> bool" where
  "calls_fit kept wid d lg =
     (\<forall>t. turn_fits kept wid d t (map_of (rl_turns (log_of wid lg)) t))"

lemma last_calls_simps [simp]:
  "last_calls d [] = d" "last_calls d (es @ fs) = last_calls (last_calls d es) fs"
  "last_calls d (e # es) = last_calls (last_call d e) es"
  by (simp_all add: last_calls_def)

lemma ref_inj [simp]: "run_turn_ref wid t = run_turn_ref wid u \<longleftrightarrow> t = u"
  by (simp add: run_turn_ref_def)

lemma fit_hole:
  "calls_fit kept wid d lg
   \<Longrightarrow> calls_fit kept wid (last_call d (Repair_run w t' a)) (fst (hole_and_bump wid t lg))"
  by (simp add: calls_fit_def last_call_def)

lemma fit_change:
  assumes "calls_fit kept wid d lg" and "rl_turns (log_of wid lg') = AList.update t st (rl_turns (log_of wid lg))"
    and "\<And>u. u \<noteq> t \<Longrightarrow> d' (run_turn_ref wid u) = d (run_turn_ref wid u)"
    and "d' (run_turn_ref wid t) = Some (turn_call wid t st)"
  shows "calls_fit kept wid d' lg'"
  unfolding calls_fit_def
proof
  fix u
  have "turn_fits kept wid d u (map_of (rl_turns (log_of wid lg)) u)" using assms(1) by (simp add: calls_fit_def)
  then show "turn_fits kept wid d' u (map_of (rl_turns (log_of wid lg')) u)"
    using assms(2,4) assms(3)[of u] by (cases "u = t") (auto simp: turn_fits_def map_of_update split: option.splits)
qed

lemma fit_lookup:
  "calls_fit kept wid d lg \<Longrightarrow> map_of (rl_turns (log_of wid lg)) t = Some st \<Longrightarrow>
   d (run_turn_ref wid t) = Some (turn_call wid t st)"
  by (auto simp: calls_fit_def turn_fits_def dest: spec[of _ t])

text \<open>A turn whose sealed entries and close stay as they are needs no call.\<close>

lemma fit_put:
  assumes "calls_fit kept wid d lg" and "map_of (rl_turns (log_of wid lg)) t = Some st"
    and "ts_entries st' = ts_entries st" and "ts_close_at st' = ts_close_at st"
  shows "calls_fit kept wid d (put_run_turn wid t st' lg)"
  by (rule fit_change[OF assms(1), where t = t and st = st'])
    (use fit_lookup[OF assms(1,2)] assms(3,4) in \<open>simp_all add: turn_call_def turn_version_def\<close>)

lemma fit_bump: "calls_fit kept wid d (bump_log wid lg) = calls_fit kept wid d lg"
  by (simp add: calls_fit_def)

lemma fit_open:
  assumes "calls_fit kept wid d lg"
  shows "calls_fit kept wid (last_calls d (snd (open_run_turn wid e lg))) (fst (open_run_turn wid e lg))"
proof (cases "map_of (rl_turns (log_of wid lg)) (e_turn e)")
  case None
  then show ?thesis
    by (intro fit_change[OF assms, where t = "e_turn e" and st = "fresh_turn e"])
      (simp_all add: open_run_turn_def last_call_def stamp_run_turn_def turn_call_def fresh_turn_def Let_def)
qed (use assms in \<open>simp add: open_run_turn_def Let_def\<close>)

lemma fit_append:
  assumes "calls_fit kept wid d lg"
  shows "calls_fit kept wid (last_calls d (snd (append_run_entry wid e lg))) (fst (append_run_entry wid e lg))"
proof (cases "map_of (rl_turns (log_of wid lg)) (e_turn e)")
  case (Some st)
  show ?thesis
  proof (cases "e_seq e = int (length (ts_entries st))")
    case True
    then show ?thesis using Some fit_lookup[OF assms Some]
      by (intro fit_change[OF assms, where t = "e_turn e" and st = "seat_entry e st"])
        (simp_all add: append_run_entry_def last_call_def stamp_run_turn_def turn_call_def seat_entry_def Let_def)
  qed (use Some assms in \<open>simp add: append_run_entry_def fit_hole\<close>)
qed (use assms in \<open>simp add: append_run_entry_def fit_hole\<close>)

lemma fit_step:
  assumes "calls_fit kept wid d lg"
  shows "calls_fit kept wid (last_calls d (snd (run_log_step wid lg f))) (fst (run_log_step wid lg f))"
proof (cases f)
  case (W_open_entry oe)
  then show ?thesis using assms
    by (auto simp: open_run_entry_def run_turn_of_log fit_hole fit_bump seat_tail_def Let_def
        split: option.split intro: fit_put)
next
  case (W_delta p t i l n d)
  then show ?thesis using assms
    by (auto simp: apply_run_delta_def run_turn_of_log fit_hole fit_bump
        split: option.split intro: fit_put)
next
  case (W_seal t i l q ts n)
  then show ?thesis using assms
    by (auto simp: seal_run_entry_def run_turn_of_log fit_hole
        split: option.split intro!: fit_append intro: fit_put)
qed (use assms fit_open fit_append in auto)

lemma log_of_forgotten [simp]: "log_of wid (forget_run_log wid lg) = empty_log"
  by (simp add: log_of_def forget_run_log_def map_of_delete_if)

lemma fit_trace:
  "calls_fit kept wid d lg
   \<Longrightarrow> calls_fit (kept \<and> Log_forgotten \<notin> set fs) wid (last_calls d (snd (trace (kept_log_step wid) lg fs)))
        (fst (trace (kept_log_step wid) lg fs))"
proof (induction fs arbitrary: kept d lg)
  case (Cons f fs)
  show ?case
  proof (cases f)
    case (Log_frame w)
    with Cons.IH[OF fit_step[OF Cons.prems, of w]] show ?thesis by (simp add: trace_Cons)
  next
    case Log_forgotten
    have "calls_fit False wid d (forget_run_log wid lg)" by (simp add: calls_fit_def turn_fits_def empty_log_def)
    from Cons.IH[OF this] Log_forgotten show ?thesis by (simp add: trace_Cons)
  qed
qed simp

text \<open>
  C27. The stamps are those of what is held. Whatever frames arrive for a run, and however often it is forgotten
  in between, the last call made to the version map about a turn that is held observes, while it is open, the version the
  server would answer for the entries held, and forgets the subject once it is closed. About a turn that is not held
  no call was made, unless the run was forgotten, which drops the log and makes no call.
\<close>

theorem last_stamp_is_current:
  assumes "map_of (lg_logs lg) wid = None" and "trace (kept_log_step wid) lg fs = (lg', es)"
  shows "case run_turn_of wid t lg' of
      Some st \<Rightarrow> last_calls (\<lambda>_. None) es (run_turn_ref wid t) = Some
        (if ts_close_at st = None
         then Observe_run \<lparr>st_kind = ''run_turn'', st_ref = run_turn_ref wid t,
                           st_version = turn_version t st, st_epoch = None\<rparr>
         else Forget_run_subject ''run_turn'' (run_turn_ref wid t))
    | None \<Rightarrow> last_calls (\<lambda>_. None) es (run_turn_ref wid t) = None \<or> Log_forgotten \<in> set fs"
proof -
  have "calls_fit True wid (\<lambda>_. None) lg"
    using assms(1) by (simp add: calls_fit_def turn_fits_def log_of_def empty_log_def)
  from fit_trace[OF this, of fs] have
    "calls_fit (Log_forgotten \<notin> set fs) wid (last_calls (\<lambda>_. None) es) lg'" using assms(2) by simp
  then have "turn_fits (Log_forgotten \<notin> set fs) wid (last_calls (\<lambda>_. None) es) t (run_turn_of wid t lg')"
    by (simp add: calls_fit_def run_turn_of_log)
  then show ?thesis by (auto simp: turn_fits_def turn_call_def split: option.splits)
qed

text \<open>What was said of an open turn stands when its run is forgotten, though nothing of the turn is held.\<close>

lemma forgotten_turn_keeps_its_stamp:
  assumes "trace (kept_log_step wid) lg fs = (lg', es)"
  shows "run_turn_of wid t (fst (trace (kept_log_step wid) lg (fs @ [Log_forgotten]))) = None"
    and "last_calls d (snd (trace (kept_log_step wid) lg (fs @ [Log_forgotten]))) = last_calls d es"
  using assms by (simp_all add: trace_append trace_Cons run_turn_of_log empty_log_def)

section \<open>A step of a run\<close>

definition no_logs :: run_logs where
  "no_logs = \<lparr>lg_logs = [], lg_versions = []\<rparr>"

definition sample_frames :: "window_frame list" where
  "sample_frames =
     [W_open (sample_open ''t1'' 1),
      W_open_entry \<lparr>oe_turn = ''t1'', oe_id = ''a'', oe_lane = None, oe_kind = Open_text, oe_text = [], oe_n = 0\<rparr>,
      W_delta True ''t1'' ''a'' '''' 1 ''hi'',
      W_seal ''t1'' ''a'' '''' 1 5 1,
      W_delta True ''t2'' ''b'' '''' 1 ''lost'']"

lemma sample_frames_keep: "list_all keeps_turns sample_frames"
  by (simp add: sample_frames_def keeps_turns_def)

theorem run_log_refines_chat_witness:
  "run_repairs (snd (trace (run_log_step ''w'') no_logs sample_frames))
     = chat_repairs (snd (trace chat_log_step sample_session sample_frames))
   \<and> rl_turns (log_of ''w'' (fst (trace (run_log_step ''w'') no_logs sample_frames)))
     = s_turns (fst (trace chat_log_step sample_session sample_frames))"
proof -
  have "rl_turns (log_of ''w'' no_logs) = s_turns sample_session"
    "rl_order (log_of ''w'' no_logs) = s_turn_order sample_session" "holds_entries (s_turns sample_session)"
    by (simp_all add: no_logs_def log_of_def empty_log_def sample_session_def row_of_header_def holds_entries_def)
  from run_log_refines_chat[OF this sample_frames_keep] show ?thesis by simp
qed

theorem last_stamp_is_current_witness:
  "last_calls (\<lambda>_. None) (snd (trace (kept_log_step ''w'') no_logs (Log_forgotten # map Log_frame sample_frames)))
       (run_turn_ref ''w'' ''t1'')
     = Some (Observe_run \<lparr>st_kind = ''run_turn'', st_ref = ''w/t1'', st_version = ''t1:1'', st_epoch = None\<rparr>)"
proof -
  have "map_of (lg_logs no_logs) ''w'' = None" by (simp add: no_logs_def)
  note said = last_stamp_is_current[OF this, of "Log_forgotten # map Log_frame sample_frames"]
  have held: "case run_turn_of ''w'' ''t1'' (fst (trace (kept_log_step ''w'') no_logs (Log_forgotten # map Log_frame sample_frames))) of
      Some st \<Rightarrow> ts_close_at st = None \<and> turn_version ''t1'' st = ''t1:1'' | None \<Rightarrow> False"
    by code_simp
  show ?thesis
    using held said[OF prod.collapse[symmetric], of "''t1''"] by (auto simp: run_turn_ref_def split: option.splits)
qed

end
