(* ===== verification/RunRepair.thy ===== *)
theory RunRepair
  imports RunLog Trace
begin

text \<open>
  The two reads that repair a run's log: the range read of one turn (\<open>run-turn-range.ts\<close>) and the step read
  (\<open>run-step-transcript.ts\<close>). Both adopt their answer through the operations the live frames use. A read in
  flight is an entry of \<open>rg_open\<close> (with the \<open>before\<close> its closure holds) or of \<open>sr_open\<close>; the composite key
  \<open>join\<close> makes is the pair. \<open>boot.ts\<close> registers \<open>requestRunTurnRange\<close> as the log's repair, so an operation's
  \<open>Repair_run\<close> effect is that call.
\<close>

section \<open>The range read\<close>

text \<open>A step read's verdict: the wire's three, and this side's two.\<close>

datatype step_state = Step_loading | Step_unaddressable | Step_ready | Step_gone | Step_unavailable

record repair_state = run_logs +
  rg_open :: "((string \<times> string) \<times> int option) list"
  sr_reads :: "((string \<times> string) \<times> step_state) list"
  sr_open :: "(string \<times> string) list"
  sr_version :: nat

datatype range_effect =
    Get_range string string "int option"
  | Get_step string string
  | Log_effect run_effect

type_synonym repair_outcome = "repair_state \<times> range_effect list"

definition request_run_turn_range ::
    "string \<Rightarrow> string \<Rightarrow> int option \<Rightarrow> repair_state \<Rightarrow> repair_outcome" where
  "request_run_turn_range wid turn_id after_seq st =
     (if wid = '''' \<or> turn_id = '''' \<or> map_of (rg_open st) (wid, turn_id) \<noteq> None then (st, [])
      else (st\<lparr>rg_open := AList.update (wid, turn_id) (run_turn_held_seq wid turn_id st) (rg_open st)\<rparr>,
            [Get_range wid turn_id after_seq]))"

text \<open>The effects of an operation on the log, with the repairs it asks for requested.\<close>

definition perform_one :: "repair_state \<Rightarrow> run_effect \<Rightarrow> repair_outcome" where
  "perform_one st e =
     (case e of
        Repair_run w t a \<Rightarrow> request_run_turn_range w t a st
      | _ \<Rightarrow> (st, [Log_effect e]))"

definition performed :: "repair_state \<times> run_effect list \<Rightarrow> repair_outcome" where
  "performed out = trace perform_one (fst out) (snd out)"

definition seat_run_entry :: "string \<Rightarrow> repair_state \<Rightarrow> entry \<Rightarrow> repair_outcome" where
  "seat_run_entry wid st e =
     performed (if entry_kind_of e = K_turn_open then open_run_turn wid e st else append_run_entry wid e st)"

text \<open>The loop over the answer seats this turn's entries and keeps the largest \<open>seq\<close> it saw.\<close>

definition adopt_range ::
    "string \<Rightarrow> string \<Rightarrow> entry list \<Rightarrow> open_entry list \<Rightarrow> int option \<Rightarrow> repair_state \<Rightarrow> repair_outcome" where
  "adopt_range wid turn_id entries os before st =
     (let mine = filter (\<lambda>e. e_turn e = turn_id) entries;
          want = foldl (\<lambda>m e. max m (e_seq e)) (- 1) mine;
          (st1, fs) = trace (seat_run_entry wid) st mine;
          st2 = adopt_run_open_entries wid turn_id os st1
      in case run_turn_held_seq wid turn_id st2 of
           None \<Rightarrow> (st2, fs)
         | Some held \<Rightarrow>
             if 0 \<le> want \<and> held < want then
               (case (if before = None \<or> the before < held
                      then request_run_turn_range wid turn_id (Some held) st2 else (st2, [])) of
                  (st3, gs) \<Rightarrow> (st3, fs @ gs))
             else (clear_run_hole wid turn_id st2, fs))"

text \<open>
  The answer of the read in flight for a turn, \<open>before\<close> being what the read's closure recorded. The read is
  released first; an aborted one commits nothing and an unanswered one leaves its hole.
\<close>

definition settle_range ::
    "string \<Rightarrow> string \<Rightarrow> (entry list \<times> open_entry list) answer \<Rightarrow> int option \<Rightarrow> repair_state \<Rightarrow> repair_outcome" where
  "settle_range wid turn_id ans before st =
     (let st1 = st\<lparr>rg_open := AList.delete (wid, turn_id) (rg_open st)\<rparr>
      in case ans of
           Answered (entries, os) \<Rightarrow> adopt_range wid turn_id entries os before st1
         | _ \<Rightarrow> (st1, []))"

section \<open>The step read\<close>

definition step_read :: "string \<Rightarrow> string \<Rightarrow> repair_state \<Rightarrow> step_state option" where
  "step_read wid path st = map_of (sr_reads st) (wid, path)"

definition clear_step_transcripts :: "repair_state \<Rightarrow> repair_state" where
  "clear_step_transcripts st = st\<lparr>sr_reads := [], sr_open := []\<rparr>"

definition step_settled :: "step_state \<Rightarrow> bool" where
  "step_settled s = (s = Step_ready \<or> s = Step_gone \<or> s = Step_unaddressable)"

definition request_step_transcript :: "string \<Rightarrow> string \<Rightarrow> repair_state \<Rightarrow> repair_outcome" where
  "request_step_transcript wid path st =
     (if wid = '''' \<or> path = '''' then (st, [])
      else if (wid, path) \<in> set (sr_open st) then (st, [])
      else if (case step_read wid path st of None \<Rightarrow> False | Some s \<Rightarrow> step_settled s) then (st, [])
      else (st\<lparr>sr_open := (wid, path) # sr_open st,
               sr_reads := AList.update (wid, path) Step_loading (sr_reads st)\<rparr>, [Get_step wid path]))"

definition reread_step_transcript :: "string \<Rightarrow> string \<Rightarrow> repair_state \<Rightarrow> repair_outcome" where
  "reread_step_transcript wid path st =
     (if (wid, path) \<in> set (sr_open st) then (st, [])
      else request_step_transcript wid path (st\<lparr>sr_reads := AList.delete (wid, path) (sr_reads st)\<rparr>))"

text \<open>The members of a list in the order a \<open>Set\<close> or a \<open>Map\<close> keeps them.\<close>

definition first_seen :: "'a list \<Rightarrow> 'a list" where
  "first_seen xs = rev (remdups (rev xs))"

definition adopt_turn_tails :: "string \<Rightarrow> open_entry list \<Rightarrow> repair_state \<Rightarrow> string \<Rightarrow> repair_state" where
  "adopt_turn_tails wid os st turn_id =
     clear_run_hole wid turn_id
       (adopt_run_open_entries wid turn_id (filter (\<lambda>oe. oe_turn oe = turn_id) os) st)"

definition adopt_step :: "string \<Rightarrow> entry list \<Rightarrow> open_entry list \<Rightarrow> repair_state \<Rightarrow> repair_outcome" where
  "adopt_step wid entries os st =
     (let turns = first_seen (map e_turn entries);
          (st1, fs) = trace (seat_run_entry wid) st entries;
          st2 = foldl (adopt_turn_tails wid os) st1 turns;
          rest = filter (\<lambda>t. t \<notin> set turns) (first_seen (map oe_turn os));
          (st3, gs) = trace (\<lambda>st oe. performed (open_run_entry wid oe st)) st2
                        (concat (map (\<lambda>t. filter (\<lambda>oe. oe_turn oe = t) os) rest))
      in (st3, fs @ gs))"

definition failed_read :: "int \<Rightarrow> step_state" where
  "failed_read status = (if 400 \<le> status \<and> status < 500 then Step_unaddressable else Step_unavailable)"

text \<open>A decoded 2xx answer with its verdict, or a status; a throw is status 0.\<close>

datatype step_answer = Step_answer step_state "entry list" "open_entry list" | Step_failed int

definition settle_step :: "string \<Rightarrow> string \<Rightarrow> step_answer \<Rightarrow> repair_state \<Rightarrow> repair_outcome" where
  "settle_step wid path ans st =
     (let (st1, es, verdict) =
            (case ans of
               Step_answer state entries os \<Rightarrow> (case adopt_step wid entries os st of (st', es) \<Rightarrow> (st', es, state))
             | Step_failed status \<Rightarrow> (st, [], failed_read status))
      in (st1\<lparr>sr_reads := AList.update (wid, path) verdict (sr_reads st1),
              sr_open := filter (\<lambda>k. k \<noteq> (wid, path)) (sr_open st1),
              sr_version := sr_version st1 + 1\<rparr>, es))"

end
