(* ===== verification/RunRepairFacts.thy ===== *)
theory RunRepairFacts
  imports RunRepair RunLogFacts
begin

text \<open>
  The repair of a run's log: an answer that reaches what is held fills the turn and asks for nothing more; an
  answer that leaves the gap it was asked for is asked for again, without end; and a step reads as loading
  exactly while its read is out.
\<close>

section \<open>What the operations leave alone\<close>

lemma log_writes [simp]:
  "rg_open (put_log w l st) = rg_open st" "sr_reads (put_log w l st) = sr_reads st"
  "sr_open (put_log w l st) = sr_open st"
  "rg_open (bump_log w st) = rg_open st" "sr_reads (bump_log w st) = sr_reads st"
  "sr_open (bump_log w st) = sr_open st"
  by (simp_all add: put_log_def bump_log_def)

lemma log_of_reads [simp]:
  "log_of w (st\<lparr>rg_open := x\<rparr>) = log_of w st" "log_of w (st\<lparr>sr_reads := y\<rparr>) = log_of w st"
  "log_of w (st\<lparr>sr_open := z\<rparr>) = log_of w st"
  by (simp_all add: log_of_def)

definition same_reads :: "repair_state \<Rightarrow> repair_state \<Rightarrow> bool" where
  "same_reads st st' = (sr_reads st' = sr_reads st \<and> sr_open st' = sr_open st)"

lemma same_reads_refl [simp]: "same_reads st st"
  by (simp add: same_reads_def)

lemma same_reads_trans: "same_reads a b \<Longrightarrow> same_reads b c \<Longrightarrow> same_reads a c"
  by (simp add: same_reads_def)

lemma operations_reads:
  "same_reads st (fst (hole_and_bump w t st))" "same_reads st (fst (open_run_turn w e st))"
  "same_reads st (fst (append_run_entry w e st))" "same_reads st (fst (open_run_entry w oe st))"
  "same_reads st (adopt_run_open_entries w t os st)" "same_reads st (clear_run_hole w t st)"
  "same_reads st (fst (request_run_turn_range w t a st))"
  by (simp_all add: same_reads_def hole_and_bump_def mark_run_hole_def open_run_turn_def append_run_entry_def
      open_run_entry_def adopt_run_open_entries_def clear_run_hole_def request_run_turn_range_def
      put_run_turn_def Let_def split: option.split)

lemma trace_reads:
  assumes "\<And>st f. same_reads st (fst (step st f))"
  shows "same_reads st (fst (trace step st fs))"
proof (induction fs arbitrary: st)
  case (Cons f fs)
  show ?case unfolding trace_Cons by (rule same_reads_trans[OF assms Cons])
qed simp

lemma perform_one_reads: "same_reads st (fst (perform_one st e))"
  by (simp add: perform_one_def operations_reads split: run_effect.split)

lemma performed_reads: "same_reads st (fst out) \<Longrightarrow> same_reads st (fst (performed out))"
  unfolding performed_def by (rule same_reads_trans[OF _ trace_reads[OF perform_one_reads]])

lemma seat_run_entry_reads: "same_reads st (fst (seat_run_entry w st e))"
  unfolding seat_run_entry_def by (rule performed_reads) (simp add: operations_reads)

lemma seats_reads: "same_reads st (fst (trace (seat_run_entry w) st es))"
  by (rule trace_reads) (rule seat_run_entry_reads)

lemma tails_reads: "same_reads st (fst (trace (\<lambda>st oe. performed (open_run_entry w oe st)) st os))"
  by (rule trace_reads) (rule performed_reads, rule operations_reads)

lemma adopt_tails_reads: "same_reads st (foldl (adopt_turn_tails w os) st ts)"
proof (induction ts arbitrary: st)
  case (Cons t ts)
  have "same_reads st (adopt_turn_tails w os st t)"
    unfolding adopt_turn_tails_def by (rule same_reads_trans[OF operations_reads(5,6)])
  then show ?case using same_reads_trans[OF _ Cons] by simp
qed simp

lemma adopt_step_reads: "same_reads st (fst (adopt_step w es os st))"
  unfolding adopt_step_def Let_def split_beta fst_conv
  by (rule same_reads_trans[OF same_reads_trans[OF seats_reads adopt_tails_reads] tails_reads])

section \<open>Loading is in flight\<close>

datatype step_frame =
    SF_request string string
  | SF_reread string string
  | SF_clear
  | SF_settled string string step_answer
  | SF_range string string "(entry list \<times> open_entry list) answer" "int option"

fun step_read_step :: "repair_state \<Rightarrow> step_frame \<Rightarrow> repair_state" where
  "step_read_step st (SF_request w p) = fst (request_step_transcript w p st)"
| "step_read_step st (SF_reread w p) = fst (reread_step_transcript w p st)"
| "step_read_step st SF_clear = clear_step_transcripts st"
| "step_read_step st (SF_settled w p ans) = fst (settle_step w p ans st)"
| "step_read_step st (SF_range w t ans before) = fst (settle_range w t ans before st)"

text \<open>\<open>loading\<close> is not on the wire.\<close>

fun step_frame_ok :: "step_frame \<Rightarrow> bool" where
  "step_frame_ok (SF_settled w p (Step_answer state es os)) = (state \<noteq> Step_loading)"
| "step_frame_ok _ = True"

definition loading_is_open :: "repair_state \<Rightarrow> bool" where
  "loading_is_open st = (\<forall>k. map_of (sr_reads st) k = Some Step_loading \<longleftrightarrow> k \<in> set (sr_open st))"

lemma same_reads_open: "same_reads st st' \<Longrightarrow> loading_is_open st' = loading_is_open st"
  by (simp add: same_reads_def loading_is_open_def)

lemma settle_range_reads: "same_reads st (fst (settle_range w t ans before st))"
proof -
  have released: "same_reads st (st\<lparr>rg_open := AList.delete (w, t) (rg_open st)\<rparr>)"
    by (simp add: same_reads_def)
  have "same_reads a (fst (adopt_range w t es os before a))" for a es os
  proof -
    let ?b = "adopt_run_open_entries w t os
      (fst (trace (seat_run_entry w) a (filter (\<lambda>e. e_turn e = t) es)))"
    have b: "same_reads a ?b" by (rule same_reads_trans[OF seats_reads operations_reads(5)])
    have "same_reads a (fst (request_run_turn_range w t x ?b))" for x
      by (rule same_reads_trans[OF b operations_reads(7)])
    moreover have "same_reads a (clear_run_hole w t ?b)"
      by (rule same_reads_trans[OF b operations_reads(6)])
    ultimately show ?thesis using b
      by (simp add: adopt_range_def Let_def split_beta split: option.split)
  qed
  then show ?thesis
    using released same_reads_trans by (simp add: settle_range_def Let_def split: answer.split prod.split)
qed

interpretation step_reads: frame_machine step_read_step step_frame_ok loading_is_open
proof
  fix st f
  assume inv: "loading_is_open st" and ok: "step_frame_ok f"
  show "loading_is_open (step_read_step st f)"
  proof (cases f)
    case (SF_range w t ans before)
    then show ?thesis using inv same_reads_open[OF settle_range_reads] by simp
  next
    case (SF_settled w p ans)
    show ?thesis
    proof (cases ans)
      case (Step_answer state es os)
      have "loading_is_open (fst (adopt_step w es os st))"
        using inv same_reads_open[OF adopt_step_reads] by simp
      then show ?thesis using SF_settled Step_answer ok
        by (auto simp: settle_step_def loading_is_open_def map_of_update split: prod.split)
    next
      case (Step_failed status)
      then show ?thesis using SF_settled inv
        by (auto simp: settle_step_def loading_is_open_def map_of_update failed_read_def)
    qed
  qed (use inv in \<open>auto simp: request_step_transcript_def reread_step_transcript_def
      clear_step_transcripts_def loading_is_open_def step_read_def map_of_update map_of_delete_if\<close>)
qed

text \<open>
  Whatever requests, re-reads, page mounts, range answers and step answers arrive, answers from before a
  mount included, a step reads as loading exactly while a read for it counts as out: no card is left loading
  with nothing to end it, and no step is locked out of being asked again.
\<close>

theorem loading_is_in_flight:
  assumes "list_all step_frame_ok fs" and "sr_reads st = []" and "sr_open st = []"
  shows "step_read w p (foldl step_read_step st fs) = Some Step_loading
    \<longleftrightarrow> (w, p) \<in> set (sr_open (foldl step_read_step st fs))"
proof -
  have "loading_is_open st" using assms by (simp add: loading_is_open_def)
  from step_reads.run_inv[OF this assms(1)] show ?thesis by (simp add: loading_is_open_def step_read_def)
qed

section \<open>An answer that reaches what is held\<close>

text \<open>A turn as the server holds it, and a log that holds its first \<open>n\<close> entries.\<close>

definition server_turn :: "string \<Rightarrow> entry list \<Rightarrow> bool" where
  "server_turn t full =
     (full \<noteq> [] \<and> (\<forall>i<length full. e_seq (full ! i) = int i \<and> e_turn (full ! i) = t
                       \<and> (entry_kind_of (full ! i) = K_turn_open \<longleftrightarrow> i = 0)))"

definition holds_prefix :: "string \<Rightarrow> string \<Rightarrow> entry list \<Rightarrow> nat \<Rightarrow> repair_state \<Rightarrow> bool" where
  "holds_prefix w t full n st =
     (n \<le> length full
      \<and> (case run_turn_of w t st of None \<Rightarrow> n = 0 | Some ss \<Rightarrow> 0 < n \<and> ts_entries ss = take n full))"

definition is_get :: "range_effect \<Rightarrow> bool" where
  "is_get e = (case e of Log_effect _ \<Rightarrow> False | _ \<Rightarrow> True)"

lemma performed_quiet:
  "run_repairs es = [] \<Longrightarrow> performed (st, es) = (st, map Log_effect es)"
proof (induction es)
  case (Cons e es)
  then have rest: "trace perform_one st es = (st, map Log_effect es)"
    by (cases e) (simp_all add: performed_def)
  from Cons.prems rest show ?case
    by (cases e) (simp_all add: performed_def perform_one_def trace.simps(2))
qed (simp add: performed_def)

lemma performed_no_get:
  "run_repairs (snd out) = [] \<Longrightarrow> fst (performed out) = fst out \<and> filter is_get (snd (performed out)) = []"
  using performed_quiet[of "snd out" "fst out"] by (simp add: is_get_def filter_empty_conv)

lemma seat_held:
  assumes "server_turn t full" and "holds_prefix w t full n st" and "k < n"
  shows "seat_run_entry w st (full ! k) = (st, [])"
proof -
  obtain ss where ss: "map_of (rl_turns (log_of w st)) t = Some ss" "ts_entries ss = take n full" "n \<le> length full"
    using assms by (auto simp: holds_prefix_def run_turn_of_log split: option.splits)
  have k: "e_turn (full ! k) = t" "e_seq (full ! k) = int k" "k < length full"
    using assms ss by (auto simp: server_turn_def)
  have "nth_opt (take n full) (int k) = Some (full ! k)"
    using assms(3) ss(3) by (simp add: nth_opt_int)
  then have "append_run_entry w (full ! k) st = (st, [])"
    using ss k assms(3) by (simp add: append_run_entry_def)
  moreover have "open_run_turn w (full ! k) st = (st, [])"
    using ss k by (simp add: open_run_turn_def)
  ultimately show ?thesis by (simp add: seat_run_entry_def performed_quiet)
qed

lemma seat_next:
  assumes "server_turn t full" and "holds_prefix w t full n st" and "n < length full"
  shows "holds_prefix w t full (Suc n) (fst (seat_run_entry w st (full ! n)))"
    and "filter is_get (snd (seat_run_entry w st (full ! n))) = []"
proof -
  let ?e = "full ! n"
  have e: "e_turn ?e = t" "e_seq ?e = int n" "entry_kind_of ?e = K_turn_open \<longleftrightarrow> n = 0"
    using assms(1,3) by (auto simp: server_turn_def)
  let ?out = "if entry_kind_of ?e = K_turn_open then open_run_turn w ?e st else append_run_entry w ?e st"
  have "run_repairs (snd ?out) = [] \<and> holds_prefix w t full (Suc n) (fst ?out)"
  proof (cases n)
    case 0
    with assms have "map_of (rl_turns (log_of w st)) t = None"
      by (auto simp: holds_prefix_def run_turn_of_log split: option.splits)
    with 0 e assms(3) show ?thesis
      by (auto simp: open_run_turn_def holds_prefix_def run_turn_of_log fresh_turn_def map_of_update
          take_Suc_conv_app_nth Suc_le_eq Let_def)
  next
    case (Suc m)
    with assms obtain ss where "map_of (rl_turns (log_of w st)) t = Some ss" "ts_entries ss = take n full"
      by (auto simp: holds_prefix_def run_turn_of_log split: option.splits)
    with Suc e assms(3) show ?thesis
      by (auto simp: append_run_entry_def holds_prefix_def run_turn_of_log seat_entry_def map_of_update
          take_Suc_conv_app_nth Let_def)
  qed
  with performed_no_get[of ?out] show "holds_prefix w t full (Suc n) (fst (seat_run_entry w st ?e))"
    and "filter is_get (snd (seat_run_entry w st ?e)) = []"
    unfolding seat_run_entry_def by auto
qed

lemma seats_fill:
  assumes "server_turn t full"
  shows "k \<le> n \<Longrightarrow> holds_prefix w t full n st \<Longrightarrow>
    holds_prefix w t full (length full) (fst (trace (seat_run_entry w) st (drop k full)))
    \<and> filter is_get (snd (trace (seat_run_entry w) st (drop k full))) = []"
proof (induction "length full - k" arbitrary: k n st)
  case 0
  then have "n = length full" by (auto simp: holds_prefix_def)
  with 0 show ?case by simp
next
  case (Suc d)
  then have k: "k < length full" by simp
  then have tail: "drop k full = full ! k # drop (Suc k) full" by (simp add: Cons_nth_drop_Suc)
  have d: "d = length full - Suc k" using Suc.hyps(2) by simp
  show ?case
  proof (cases "k < n")
    case True
    with Suc.hyps(1)[OF d, of n st] Suc.prems seat_held[OF assms Suc.prems(2)]
    show ?thesis by (simp add: tail trace_Cons)
  next
    case False
    with Suc.prems have n: "n = k" by simp
    note seat = seat_next[OF assms Suc.prems(2)[unfolded n] k]
    show ?thesis using Suc.hyps(1)[OF d _ seat(1)] seat(2) by (simp add: tail trace_Cons)
  qed
qed
lemma newest_wanted:
  "(\<forall>e\<in>set es. e_seq e \<le> b) \<Longrightarrow> a \<le> b \<Longrightarrow> foldl (\<lambda>m e. max m (e_seq e)) a es \<le> (b::int)"
  by (induction es arbitrary: a) auto

lemma tails_keep: "ts_entries (tails_of t os ss) = ts_entries ss"
proof -
  have "ts_entries (foldl (\<lambda>st oe. if oe_turn oe = t then seat_tail oe st else st) a os) = ts_entries a" for a
    by (induction os arbitrary: a) (simp_all add: seat_tail_def Let_def)
  then show ?thesis by (simp add: tails_of_def)
qed

lemma tails_replaced: "ts_open (tails_of t os ss) = ts_open (tails_of t os ss')"
proof -
  let ?seat = "\<lambda>st oe. if oe_turn oe = t then seat_tail oe st else st"
  have "ts_open a = ts_open b \<Longrightarrow> ts_open (foldl ?seat a os) = ts_open (foldl ?seat b os)" for a b
  proof (induction os arbitrary: a b)
    case (Cons oe os)
    have "ts_open (?seat a oe) = ts_open (?seat b oe)" using Cons.prems by (simp add: seat_tail_def Let_def)
    from Cons.IH[OF this] show ?case by simp
  qed simp
  from this[of "ss\<lparr>ts_open := []\<rparr>" "ss'\<lparr>ts_open := []\<rparr>"] show ?thesis by (simp add: tails_of_def)
qed

lemma clear_hole_turns:
  "rl_turns (log_of w (clear_run_hole w t st)) = rl_turns (log_of w st)"
proof (cases "map_of (lg_logs st) w")
  case (Some l)
  then have "log_of w st = l" by (simp add: log_of_def)
  with Some show ?thesis by (simp add: clear_run_hole_def)
qed (simp add: clear_run_hole_def)

lemma clear_hole_gone: "t \<notin> set (run_turn_holes w (clear_run_hole w t st))"
  by (cases "map_of (lg_logs st) w")
    (simp_all add: clear_run_hole_def run_turn_holes_def put_log_def bump_log_def map_of_update)

text \<open>
  The range read repairs the turn: where the run holds the first \<open>n\<close> entries of the turn, \<open>n\<close> being 0
  for a turn whose open was lost, an answer that starts at or before the first missing entry and reaches the
  turn's end leaves the whole turn, sealed entries in order under the answer's own open tails, no hole
  marked, and no further read asked for. Entries already held are recognised and skipped.
\<close>

theorem range_answer_fills_the_turn:
  assumes "server_turn t full" and "holds_prefix w t full n st" and "k \<le> n"
    and "settle_range w t (Answered (drop k full, os)) before st = (st', es)"
  shows "(\<exists>ss. run_turn_of w t st' = Some ss \<and> ts_entries ss = full
          \<and> ts_open ss = ts_open (tails_of t os \<lparr>ts_entries = [], ts_open = [], ts_close_at = None\<rparr>))
    \<and> t \<notin> set (run_turn_holes w st') \<and> filter is_get es = []"
proof -
  let ?st = "st\<lparr>rg_open := AList.delete (w, t) (rg_open st)\<rparr>"
  have mine: "filter (\<lambda>e. e_turn e = t) (drop k full) = drop k full"
    using assms(1) by (auto simp: server_turn_def filter_id_conv in_set_conv_nth)
  have "holds_prefix w t full n ?st" using assms(2) by (simp add: holds_prefix_def run_turn_of_log)
  note seats = seats_fill[OF assms(1,3) this]
  define st1 where "st1 = fst (trace (seat_run_entry w) ?st (drop k full))"
  obtain ss where ss: "map_of (rl_turns (log_of w st1)) t = Some ss" "ts_entries ss = full"
    using seats assms(1) by (auto simp: st1_def holds_prefix_def run_turn_of_log server_turn_def split: option.splits)
  let ?st2 = "adopt_run_open_entries w t os st1"
  have st2: "map_of (rl_turns (log_of w ?st2)) t = Some (tails_of t os ss)"
    using ss by (simp add: adopt_run_open_entries_def run_turn_of_log map_of_update)
  have "\<forall>e\<in>set (drop k full). e_seq e \<le> int (length full) - 1"
    using assms(1) by (auto simp: server_turn_def in_set_conv_nth)
  from newest_wanted[OF this, of "- 1"]
  have "foldl (\<lambda>m e. max m (e_seq e)) (- 1) (drop k full) \<le> int (length full) - 1" by simp
  moreover have "run_turn_held_seq w t ?st2 = Some (int (length full) - 1)"
    using st2 ss(2) assms(1) by (simp add: run_turn_held_seq_def run_turn_of_log tails_keep server_turn_def)
  ultimately have "st' = clear_run_hole w t ?st2"
    "es = snd (trace (seat_run_entry w) ?st (drop k full))"
    using assms(4) by (simp_all add: settle_range_def adopt_range_def mine st1_def Let_def split_beta)
  then show ?thesis
    using seats st2 ss(2) clear_hole_turns[of w t ?st2] clear_hole_gone[of t w ?st2] tails_replaced[of t os ss]
    by (simp add: run_turn_of_log tails_keep)
qed

section \<open>An answer that leaves its gap\<close>

text \<open>
  Every entry of the answer lies past the gap, so each is a hole; the first asks for the range again, and
  the guard on progress never comes to speak.
\<close>

definition past_the_gap :: "string \<Rightarrow> nat \<Rightarrow> entry \<Rightarrow> bool" where
  "past_the_gap t n e = (e_turn e = t \<and> entry_kind_of e \<noteq> K_turn_open \<and> int n < e_seq e)"

definition held_length :: "string \<Rightarrow> string \<Rightarrow> nat \<Rightarrow> repair_state \<Rightarrow> bool" where
  "held_length w t n st =
     (0 < n \<and> (\<exists>ss. map_of (rl_turns (log_of w st)) t = Some ss \<and> length (ts_entries ss) = n))"

lemma nth_opt_past: "int (length xs) < i \<Longrightarrow> nth_opt xs i = None"
  by (simp add: nth_opt_def)

lemma seat_past:
  assumes "held_length w t n st" and "past_the_gap t n e"
  shows "seat_run_entry w st e
     = request_run_turn_range w t (Some (int n - 1)) (fst (hole_and_bump w t st))"
proof -
  have "append_run_entry w e st = hole_and_bump w t st"
    using assms by (auto simp: append_run_entry_def held_length_def past_the_gap_def nth_opt_past)
  moreover have "run_turn_held_seq w t st = Some (int n - 1)"
    using assms(1) by (auto simp: held_length_def run_turn_held_seq_def run_turn_of_log)
  ultimately have "seat_run_entry w st e
      = performed (fst (hole_and_bump w t st), [Repair_run w t (Some (int n - 1))])"
    using assms(2) hole_log(3)[of w t st]
    by (metis past_the_gap_def prod.collapse seat_run_entry_def)
  then show ?thesis
    by (simp add: performed_def perform_one_def trace.simps(2) split: prod.split)
qed
lemma held_length_cong: "rl_turns (log_of w st') = rl_turns (log_of w st) \<Longrightarrow> held_length w t n st' = held_length w t n st"
  by (simp add: held_length_def)

lemma request_log [simp]: "log_of v (fst (request_run_turn_range w t a st)) = log_of v st"
  by (simp add: request_run_turn_range_def)

lemma hole_open [simp]: "rg_open (fst (hole_and_bump w t st)) = rg_open st"
  by (simp add: hole_and_bump_def mark_run_hole_def Let_def)

definition range_open :: "string \<Rightarrow> string \<Rightarrow> repair_state \<Rightarrow> bool" where
  "range_open w t st = (map_of (rg_open st) (w, t) \<noteq> None)"

lemma request_again: "range_open w t st \<Longrightarrow> request_run_turn_range w t a st = (st, [])"
  by (simp add: range_open_def request_run_turn_range_def)

lemma seat_past_held:
  "held_length w t n st \<Longrightarrow> past_the_gap t n e \<Longrightarrow> held_length w t n (fst (seat_run_entry w st e))"
  using held_length_cong[of w "fst (seat_run_entry w st e)" st] by (simp add: seat_past)

lemma seats_past_open:
  "held_length w t n st \<Longrightarrow> range_open w t st \<Longrightarrow> list_all (past_the_gap t n) es
   \<Longrightarrow> held_length w t n (fst (trace (seat_run_entry w) st es))
     \<and> range_open w t (fst (trace (seat_run_entry w) st es))
     \<and> filter is_get (snd (trace (seat_run_entry w) st es)) = []"
proof (induction es arbitrary: st)
  case (Cons e es)
  then have e: "past_the_gap t n e" by simp
  have "range_open w t (fst (hole_and_bump w t st))" using Cons.prems(2) by (simp add: range_open_def)
  note swallowed = request_again[OF this] seat_past[OF Cons.prems(1) e]
  have "range_open w t (fst (seat_run_entry w st e))" "snd (seat_run_entry w st e) = []"
    using swallowed Cons.prems(2) by (simp_all add: range_open_def)
  with Cons.IH[OF seat_past_held[OF Cons.prems(1) e]] Cons.prems(3) show ?case by (simp add: trace_Cons)
qed simp

lemma seats_past:
  assumes "held_length w t n st" and "\<not> range_open w t st" and "w \<noteq> ''''" and "t \<noteq> ''''"
    and "list_all (past_the_gap t n) es" and "es \<noteq> []"
  shows "held_length w t n (fst (trace (seat_run_entry w) st es))
     \<and> range_open w t (fst (trace (seat_run_entry w) st es))
     \<and> filter is_get (snd (trace (seat_run_entry w) st es)) = [Get_range w t (Some (int n - 1))]"
proof -
  obtain e rest where es: "es = e # rest" using assms(6) by (cases es) auto
  then have e: "past_the_gap t n e" and rest: "list_all (past_the_gap t n) rest" using assms(5) by simp_all
  have "range_open w t (fst (seat_run_entry w st e))
      \<and> snd (seat_run_entry w st e) = [Get_range w t (Some (int n - 1))]"
    using assms(2-4) unfolding seat_past[OF assms(1) e]
    by (simp add: request_run_turn_range_def range_open_def map_of_update)
  with seats_past_open[OF seat_past_held[OF assms(1) e] _ rest]
  show ?thesis by (simp add: es trace_Cons is_get_def)
qed

lemma adopt_open_held:
  "held_length w t n st \<Longrightarrow> held_length w t n (adopt_run_open_entries w t os st)"
  "range_open w t (adopt_run_open_entries w t os st) = range_open w t st"
  by (auto simp: held_length_def adopt_run_open_entries_def run_turn_of_log map_of_update tails_keep
      range_open_def put_run_turn_def split: option.splits)

lemma wanted_more:
  "es \<noteq> [] \<Longrightarrow> list_all (past_the_gap t n) es \<Longrightarrow> int n < foldl (\<lambda>m e. max m (e_seq e)) (- 1) es"
proof -
  assume es: "es \<noteq> []" "list_all (past_the_gap t n) es"
  have "a \<le> foldl (\<lambda>m e. max m (e_seq e)) a xs" for a :: int and xs
  proof (induction xs arbitrary: a)
    case (Cons x xs)
    show ?case using Cons[of "max a (e_seq x)"] by simp
  qed simp
  note grows = this
  from es show ?thesis
  proof (cases es)
    case (Cons e rest)
    then show ?thesis using es grows[of "max (- 1) (e_seq e)" rest] by (simp add: past_the_gap_def)
  qed simp
qed

lemma range_round:
  assumes "held_length w t n st" and "w \<noteq> ''''" and "t \<noteq> ''''"
    and "list_all (past_the_gap t n) es" and "es \<noteq> []"
  shows "held_length w t n (fst (settle_range w t (Answered (es, os)) before st))
    \<and> filter is_get (snd (settle_range w t (Answered (es, os)) before st)) = [Get_range w t (Some (int n - 1))]"
proof -
  let ?st = "st\<lparr>rg_open := AList.delete (w, t) (rg_open st)\<rparr>"
  have mine: "filter (\<lambda>e. e_turn e = t) es = es"
    using assms(4) by (simp add: filter_id_conv list_all_iff past_the_gap_def)
  have "held_length w t n ?st" "\<not> range_open w t ?st"
    using assms(1) held_length_cong[of w ?st st] by (simp_all add: range_open_def map_of_delete_if)
  note seats = seats_past[OF this assms(2-5)]
  let ?st2 = "adopt_run_open_entries w t os (fst (trace (seat_run_entry w) ?st es))"
  have st2: "held_length w t n ?st2" "range_open w t ?st2" using seats adopt_open_held by simp_all
  have "run_turn_held_seq w t ?st2 = Some (int n - 1)"
    using st2(1) by (auto simp: held_length_def run_turn_held_seq_def run_turn_of_log)
  then show ?thesis
    using seats st2 request_again[OF st2(2)] wanted_more[OF assms(5,4)]
    by (simp add: settle_range_def adopt_range_def mine Let_def split_beta)
qed

text \<open>
  The range read has no end where the server's answer keeps a gap: if every entry of the answer lies past
  the first missing one, as when that entry does not decode, then each of any number of such answers
  sends the same request again at once, for the same turn past the same \<open>seq\<close>. The comment in
  \<open>run-turn-range.ts\<close> has the progress guard stop it; the hole each seated entry marks asks on its own.
\<close>

theorem range_asks_forever:
  assumes "held_length w t n st" and "w \<noteq> ''''" and "t \<noteq> ''''"
    and "list_all (past_the_gap t n) es" and "es \<noteq> []"
  shows "filter is_get (snd (trace
      (\<lambda>st ans. settle_range w t ans (nullish (map_of (rg_open st) (w, t)) None) st) st
      (replicate k (Answered (es, os))))) = replicate k (Get_range w t (Some (int n - 1)))"
  using assms(1)
proof (induction k arbitrary: st)
  case (Suc k)
  note round = range_round[OF Suc.prems assms(2-5), of os "nullish (map_of (rg_open st) (w, t)) None"]
  then show ?case using Suc.IH by (simp add: trace_Cons)
qed simp

section \<open>A step of a run\<close>

definition no_reads :: repair_state where
  "no_reads = \<lparr>lg_logs = [], lg_versions = [], rg_open = [], sr_reads = [], sr_open = [], sr_version = 0\<rparr>"

definition sample_text :: "string \<Rightarrow> int \<Rightarrow> entry" where
  "sample_text t q = \<lparr>e_id = t, e_turn = t, e_lane = None, e_payload = P_text ''hi'', e_seq = q, e_ts = 0\<rparr>"

theorem loading_is_in_flight_witness:
  "step_read ''w'' ''p'' (foldl step_read_step no_reads
      [SF_request ''w'' ''p'', SF_clear, SF_request ''w'' ''p'', SF_settled ''w'' ''p'' (Step_failed 503)])
     = Some Step_loading
   \<longleftrightarrow> (''w'', ''p'') \<in> set (sr_open (foldl step_read_step no_reads
      [SF_request ''w'' ''p'', SF_clear, SF_request ''w'' ''p'', SF_settled ''w'' ''p'' (Step_failed 503)]))"
  by (rule loading_is_in_flight) (simp_all add: no_reads_def)

theorem range_answer_fills_the_turn_witness:
  "let out = settle_range ''w'' ''t'' (Answered ([sample_open ''t'' 1, sample_text ''t'' 1], [])) None no_reads
   in map_option ts_entries (run_turn_of ''w'' ''t'' (fst out)) = Some [sample_open ''t'' 1, sample_text ''t'' 1]
      \<and> filter is_get (snd out) = []"
proof -
  let ?full = "[sample_open ''t'' 1, sample_text ''t'' 1]"
  have "server_turn ''t'' ?full"
    by (auto simp: server_turn_def less_Suc_eq sample_text_def sample_open_def entry_kind_of_def)
  moreover have "holds_prefix ''w'' ''t'' ?full 0 no_reads"
    by (simp add: holds_prefix_def no_reads_def run_turn_of_def)
  moreover obtain st' es where "settle_range ''w'' ''t'' (Answered (?full, [])) None no_reads = (st', es)"
    by (cases "settle_range ''w'' ''t'' (Answered (?full, [])) None no_reads")
  ultimately show ?thesis
    using range_answer_fills_the_turn[of "''t''" ?full "''w''" 0 no_reads 0 "[]" None st' es] by auto
qed

theorem range_asks_forever_witness:
  "filter is_get (snd (trace
      (\<lambda>st ans. settle_range ''w'' ''t'' ans (nullish (map_of (rg_open st) (''w'', ''t'')) None) st)
      (fst (open_run_turn ''w'' (sample_open ''t'' 1) no_reads))
      (replicate 100 (Answered ([sample_text ''t'' 2], []))))) = replicate 100 (Get_range ''w'' ''t'' (Some 0))"
proof -
  have "held_length ''w'' ''t'' 1 (fst (open_run_turn ''w'' (sample_open ''t'' 1) no_reads))"
    by (simp add: held_length_def open_run_turn_def no_reads_def log_of_def empty_log_def fresh_turn_def
        put_log_def bump_log_def Let_def)
  moreover have "list_all (past_the_gap ''t'' 1) [sample_text ''t'' 2]"
    by (simp add: past_the_gap_def sample_text_def entry_kind_of_def)
  ultimately show ?thesis
    using range_asks_forever[of "''w''" "''t''" 1 _ "[sample_text ''t'' 2]" 100 "[]"] by simp
qed
end
