(* ===== verification/RunReads.thy ===== *)
theory RunReads
  imports RunLog RunTree Trace
begin

text \<open>
  \<open>run-store.ts\<close>, the cache: the reads of a run and of its controls, the ladder behind a read that produced
  nothing, forgetting a run, and the inventory of live runs. The maps are the module's, keyed by workflow id.
  \<open>rr_open\<close> is \<open>inFlight\<close>, each id with the cause its read's closure holds; a timer is its delay and the cause
  its callback holds. A request is an effect and its answer an operation. The node plan and the controls are
  passed through unread: they are type parameters. The demands are the registered predicates.
\<close>

section \<open>State\<close>

record run_retry =
  rt_timer :: "(nat \<times> string) option"
  rt_attempts :: nat

record live_row =
  lw_chat :: string
  lw_executing :: bool

record ('plan, 'controls) run_store = run_logs +
  rr_cells :: "(string \<times> run_state option) list"
  rr_open :: "(string \<times> string) list"
  rr_stale :: "(string \<times> string) list"
  rr_answered :: "(string \<times> string) list"
  rr_retries :: "(string \<times> run_retry) list"
  rr_orphans :: "(string \<times> nat \<times> string) list"
  rr_plans :: "(string \<times> 'plan) list"
  rr_controls :: "(string \<times> 'controls option) list"
  rr_controls_open :: "string list"
  rr_controls_stale :: "string list"
  rr_launched :: "(string \<times> string) list"
  rr_live :: "(string \<times> live_row) list"
  rr_live_version :: nat

datatype store_effect =
    Get_run string
  | Get_controls string
  | Get_live string
  | Gave_up string int
  | Note_known string
  | Observe_live "subject_stamp option"

type_synonym ('p, 'c) store_outcome = "('p, 'c) run_store \<times> store_effect list"

definition run_retry_limit :: nat where
  "run_retry_limit = 3"

definition run_retry_base_ms :: nat where
  "run_retry_base_ms = 1000"

definition run_gone_status :: int where
  "run_gone_status = 404"

section \<open>Reading a run\<close>

definition touch_run_cell :: "string \<Rightarrow> ('p, 'c) run_store \<Rightarrow> ('p, 'c) run_store" where
  "touch_run_cell wid st =
     (if map_of (rr_cells st) wid = None then st\<lparr>rr_cells := AList.update wid None (rr_cells st)\<rparr> else st)"

definition peek_run_state :: "string \<Rightarrow> ('p, 'c) run_store \<Rightarrow> run_state option" where
  "peek_run_state wid st = Option.bind (map_of (rr_cells st) wid) (\<lambda>c. c)"

definition store_run_progress :: "run_progress_frame \<Rightarrow> ('p, 'c) run_store \<Rightarrow> ('p, 'c) run_store \<times> bool" where
  "store_run_progress p st =
     (case apply_run_progress p (peek_run_state (rp_workflow p) st) of
        (Some s, True) \<Rightarrow> (st\<lparr>rr_cells := AList.update (rp_workflow p) (Some s) (rr_cells st)\<rparr>, True)
      | (_, ok) \<Rightarrow> (st, ok))"

definition fetch_run :: "string \<Rightarrow> string \<Rightarrow> ('p, 'c) run_store \<Rightarrow> ('p, 'c) store_outcome" where
  "fetch_run wid cause st =
     (st\<lparr>rr_open := AList.update wid cause (rr_open st),
         rr_answered := (if cause \<noteq> '''' then AList.update wid cause (rr_answered st) else rr_answered st)\<rparr>,
      [Get_run wid])"

definition invalidate_run :: "string \<Rightarrow> string \<Rightarrow> ('p, 'c) run_store \<Rightarrow> ('p, 'c) store_outcome" where
  "invalidate_run wid cause st =
     (if wid = '''' then (st, [])
      else if cause \<noteq> '''' \<and> map_of (rr_answered st) wid = Some cause then (st, [])
      else if map_of (rr_open st) wid \<noteq> None then (st\<lparr>rr_stale := AList.update wid cause (rr_stale st)\<rparr>, [])
      else fetch_run wid cause st)"

definition invalidate_cached_runs :: "string \<Rightarrow> ('p, 'c) run_store \<Rightarrow> ('p, 'c) store_outcome" where
  "invalidate_cached_runs cause st =
     trace (\<lambda>st wid. invalidate_run wid cause st) st (map fst (rr_cells st))"

definition cancel_run_retry :: "string \<Rightarrow> ('p, 'c) run_store \<Rightarrow> ('p, 'c) run_store" where
  "cancel_run_retry wid st = st\<lparr>rr_retries := AList.delete wid (rr_retries st)\<rparr>"

text \<open>
  At the limit the ladder is deleted with its timer running, when another read's failure gets there before the armed
  rung fires: nothing holds that timer any more, and it still fires. \<open>rr_orphans\<close> are the timers so left.
\<close>

definition orphaned :: "string \<Rightarrow> run_retry \<Rightarrow> (string \<times> nat \<times> string) list" where
  "orphaned wid ladder = (case rt_timer ladder of None \<Rightarrow> [] | Some (delay, cause) \<Rightarrow> [(wid, delay, cause)])"

definition schedule_run_retry :: "string \<Rightarrow> string \<Rightarrow> int \<Rightarrow> ('p, 'c) run_store \<Rightarrow> ('p, 'c) store_outcome" where
  "schedule_run_retry wid cause status st =
     (let ladder = nullish (map_of (rr_retries st) wid) \<lparr>rt_timer = None, rt_attempts = 0\<rparr>
      in if run_retry_limit \<le> rt_attempts ladder then
           (st\<lparr>rr_retries := AList.delete wid (rr_retries st), rr_orphans := rr_orphans st @ orphaned wid ladder\<rparr>,
            [Gave_up wid status])
         else
           (st\<lparr>rr_retries := AList.update wid
                \<lparr>rt_timer = Some (run_retry_base_ms * 2 ^ rt_attempts ladder, cause),
                 rt_attempts = rt_attempts ladder + 1\<rparr> (rr_retries st)\<rparr>, []))"

text \<open>What the read produced: a state with its plan, or nothing, with a status (0 where none came).\<close>

datatype 'plan inspect = Run_inspect raw_run_state "'plan option" | Run_failed int

definition land_inspect :: "string \<Rightarrow> 'p inspect \<Rightarrow> ('p, 'c) run_store \<Rightarrow> ('p, 'c) run_store" where
  "land_inspect wid ans st =
     (case ans of
        Run_inspect raw plan \<Rightarrow>
          st\<lparr>rr_plans := (case plan of None \<Rightarrow> AList.delete wid (rr_plans st)
                                   | Some p \<Rightarrow> AList.update wid p (rr_plans st)),
             rr_cells := AList.update wid (Some (classify_run_state raw)) (rr_cells st)\<rparr>
      | Run_failed status \<Rightarrow> st)"

definition close_read :: "string \<Rightarrow> string \<Rightarrow> 'p inspect \<Rightarrow> ('p, 'c) run_store \<Rightarrow> ('p, 'c) store_outcome" where
  "close_read wid cause ans st =
     (let st1 = st\<lparr>rr_open := AList.delete wid (rr_open st)\<rparr>
      in case ans of
           Run_inspect raw plan \<Rightarrow> (cancel_run_retry wid st1, [])
         | Run_failed status \<Rightarrow>
             (let st2 = (if cause \<noteq> '''' then st1\<lparr>rr_answered := AList.delete wid (rr_answered st1)\<rparr> else st1)
              in if status = run_gone_status then (cancel_run_retry wid st2, [])
                 else schedule_run_retry wid cause status st2))"

text \<open>The rest of \<open>fetchRun\<close> once its request has settled: the answer, the \<open>finally\<close>, the trailing fetch.\<close>

definition settle_run :: "string \<Rightarrow> 'p inspect \<Rightarrow> ('p, 'c) run_store \<Rightarrow> ('p, 'c) store_outcome" where
  "settle_run wid ans st =
     (case map_of (rr_open st) wid of
        None \<Rightarrow> (st, [])
      | Some cause \<Rightarrow>
          (let (st1, es) = close_read wid cause ans (land_inspect wid ans st)
           in case map_of (rr_stale st1) wid of
                None \<Rightarrow> (st1, es)
              | Some again \<Rightarrow>
                  (let (st2, fs) = fetch_run wid again (st1\<lparr>rr_stale := AList.delete wid (rr_stale st1)\<rparr>)
                   in (st2, es @ fs))))"

definition run_rung_fires :: "string \<Rightarrow> ('p, 'c) run_store \<Rightarrow> ('p, 'c) store_outcome" where
  "run_rung_fires wid st =
     (case map_of (rr_retries st) wid of
        None \<Rightarrow> (st, [])
      | Some ladder \<Rightarrow>
          (case rt_timer ladder of
             None \<Rightarrow> (st, [])
           | Some (delay, cause) \<Rightarrow>
               invalidate_run wid cause
                 (st\<lparr>rr_retries := AList.update wid (ladder\<lparr>rt_timer := None\<rparr>) (rr_retries st)\<rparr>)))"

text \<open>The callback of a timer no ladder holds: it clears the deleted record's timer and asks like any rung.\<close>

definition run_orphan_fires :: "nat \<Rightarrow> ('p, 'c) run_store \<Rightarrow> ('p, 'c) store_outcome" where
  "run_orphan_fires i st =
     (if i < length (rr_orphans st) then
        (case rr_orphans st ! i of
           (wid, delay, cause) \<Rightarrow>
             invalidate_run wid cause (st\<lparr>rr_orphans := take i (rr_orphans st) @ drop (Suc i) (rr_orphans st)\<rparr>))
      else (st, []))"

definition forget_run :: "(string \<Rightarrow> bool) list \<Rightarrow> string \<Rightarrow> ('p, 'c) run_store \<Rightarrow> ('p, 'c) run_store" where
  "forget_run demands wid st =
     (if list_ex (\<lambda>f. f wid) demands then st
      else forget_run_log wid ((cancel_run_retry wid st)
             \<lparr>rr_cells := AList.delete wid (rr_cells st), rr_stale := AList.delete wid (rr_stale st),
              rr_answered := AList.delete wid (rr_answered st), rr_plans := AList.delete wid (rr_plans st),
              rr_controls := AList.delete wid (rr_controls st),
              rr_controls_open := filter (\<lambda>w. w \<noteq> wid) (rr_controls_open st),
              rr_controls_stale := filter (\<lambda>w. w \<noteq> wid) (rr_controls_stale st),
              rr_launched := AList.delete wid (rr_launched st)\<rparr>))"

section \<open>What a run offers\<close>

definition run_controls :: "string \<Rightarrow> ('p, 'c) run_store \<Rightarrow> 'c option" where
  "run_controls wid st = Option.bind (map_of (rr_controls st) wid) (\<lambda>c. c)"

definition fetch_run_controls :: "string \<Rightarrow> ('p, 'c) run_store \<Rightarrow> ('p, 'c) store_outcome" where
  "fetch_run_controls wid st =
     (st\<lparr>rr_controls_open := List.insert wid (rr_controls_open st)\<rparr>, [Get_controls wid])"

definition invalidate_run_controls :: "string \<Rightarrow> ('p, 'c) run_store \<Rightarrow> ('p, 'c) store_outcome" where
  "invalidate_run_controls wid st =
     (if wid = '''' then (st, [])
      else if wid \<in> set (rr_controls_open st)
        then (st\<lparr>rr_controls_stale := List.insert wid (rr_controls_stale st)\<rparr>, [])
      else fetch_run_controls wid st)"

definition settle_controls :: "string \<Rightarrow> 'c option \<Rightarrow> ('p, 'c) run_store \<Rightarrow> ('p, 'c) store_outcome" where
  "settle_controls wid ans st =
     (let st1 = (case ans of None \<Rightarrow> st | Some d \<Rightarrow> st\<lparr>rr_controls := AList.update wid (Some d) (rr_controls st)\<rparr>);
          st2 = st1\<lparr>rr_controls_open := filter (\<lambda>w. w \<noteq> wid) (rr_controls_open st1)\<rparr>
      in if wid \<in> set (rr_controls_stale st2)
         then fetch_run_controls wid (st2\<lparr>rr_controls_stale := filter (\<lambda>w. w \<noteq> wid) (rr_controls_stale st2)\<rparr>)
         else (st2, []))"

section \<open>Which chat launched it, and which runs are live\<close>

definition run_chat_prefix :: string where
  "run_chat_prefix = ''run:''"

definition note_run_chat :: "string \<Rightarrow> string \<Rightarrow> ('p, 'c) run_store \<Rightarrow> ('p, 'c) run_store" where
  "note_run_chat wid chat st =
     (if wid = '''' \<or> chat = '''' \<or> text_starts run_chat_prefix chat then st
      else st\<lparr>rr_launched := AList.update wid chat (rr_launched st)\<rparr>)"

definition run_chat_id :: "string \<Rightarrow> ('p, 'c) run_store \<Rightarrow> string" where
  "run_chat_id wid st = nullish (map_of (rr_launched st) wid) ''''"

definition bump_live_runs :: "('p, 'c) run_store \<Rightarrow> ('p, 'c) run_store" where
  "bump_live_runs st = st\<lparr>rr_live_version := rr_live_version st + 1\<rparr>"

definition note_run_live :: "string \<Rightarrow> string \<Rightarrow> bool \<Rightarrow> ('p, 'c) run_store \<Rightarrow> ('p, 'c) run_store" where
  "note_run_live wid chat executing st =
     (if wid = '''' then st
      else bump_live_runs
             (st\<lparr>rr_live := AList.update wid \<lparr>lw_chat = chat, lw_executing = executing\<rparr> (rr_live st)\<rparr>))"

definition note_run_settled :: "string \<Rightarrow> ('p, 'c) run_store \<Rightarrow> ('p, 'c) run_store" where
  "note_run_settled wid st = bump_live_runs (st\<lparr>rr_live := AList.delete wid (rr_live st)\<rparr>)"

definition any_run_for_chat :: "string \<Rightarrow> (live_row \<Rightarrow> bool) \<Rightarrow> ('p, 'c) run_store \<Rightarrow> bool" where
  "any_run_for_chat chat pass st =
     (chat \<noteq> '''' \<and> list_ex (\<lambda>(wid, r). lw_chat r = chat \<and> pass r) (rr_live st))"

definition has_live_run_for_chat :: "string \<Rightarrow> ('p, 'c) run_store \<Rightarrow> bool" where
  "has_live_run_for_chat chat st = any_run_for_chat chat (\<lambda>_. True) st"

definition live_runs_for_chat :: "string \<Rightarrow> ('p, 'c) run_store \<Rightarrow> (string \<times> live_row) list" where
  "live_runs_for_chat chat st =
     (if chat = '''' then [] else filter (\<lambda>(wid, r). lw_chat r = chat) (rr_live st))"

definition live_run_ids_for_chat :: "string \<Rightarrow> ('p, 'c) run_store \<Rightarrow> string list" where
  "live_run_ids_for_chat chat st = map fst (live_runs_for_chat chat st)"

definition peek_live_run :: "string \<Rightarrow> ('p, 'c) run_store \<Rightarrow> live_row option" where
  "peek_live_run wid st = map_of (rr_live st) wid"

record live_run =
  lv_workflow :: string
  lv_chat :: string
  lv_executing :: bool

text \<open>A row of an adopted inventory; \<open>cause\<close> is \<open>None\<close> where the caller passes none.\<close>

definition adopt_live_row :: "string option \<Rightarrow> ('p, 'c) run_store \<Rightarrow> live_run \<Rightarrow> ('p, 'c) store_outcome" where
  "adopt_live_row cause st r =
     (let wid = lv_workflow r in
      if wid = '''' then (st, [])
      else
        let st1 = note_run_chat wid (lv_chat r)
                    (st\<lparr>rr_live := AList.update wid \<lparr>lw_chat = lv_chat r, lw_executing = lv_executing r\<rparr>
                                    (rr_live st)\<rparr>);
            (st2, es) = (case cause of None \<Rightarrow> (st1, []) | Some c \<Rightarrow> invalidate_run wid c st1)
        in (st2, Note_known wid # es))"

definition adopt_live_runs :: "live_run list \<Rightarrow> string option \<Rightarrow> ('p, 'c) run_store \<Rightarrow> ('p, 'c) store_outcome" where
  "adopt_live_runs rows cause st =
     (let (st1, es) = trace (adopt_live_row cause) (st\<lparr>rr_live := []\<rparr>) rows
      in (bump_live_runs st1, es))"

text \<open>\<open>rebuildLiveRuns\<close> asks; \<open>settle_live_runs\<close> is what its answer, if any, does.\<close>

definition rebuild_live_runs :: "string \<Rightarrow> ('p, 'c) run_store \<Rightarrow> ('p, 'c) store_outcome" where
  "rebuild_live_runs cause st = (st, [Get_live cause])"

definition settle_live_runs ::
    "string \<Rightarrow> (live_run list \<times> subject_stamp option) option \<Rightarrow> ('p, 'c) run_store \<Rightarrow> ('p, 'c) store_outcome" where
  "settle_live_runs cause ans st =
     (case ans of
        None \<Rightarrow> (st, [])
      | Some (rows, subject) \<Rightarrow>
          (let (st1, es) = adopt_live_runs rows (Some cause) st in (st1, es @ [Observe_live subject])))"

definition adopt_connect_runs :: "bool \<Rightarrow> live_run list option \<Rightarrow> ('p, 'c) run_store \<Rightarrow> ('p, 'c) store_outcome" where
  "adopt_connect_runs stated rows st =
     (if \<not> stated then rebuild_live_runs ''connect'' st else adopt_live_runs (nullish rows []) None st)"
end
