(* ===== verification/RunReadFacts.thy ===== *)
theory RunReadFacts
  imports RunReads
begin

text \<open>
  The reads of a run: a storm of invalidations costs one request until it lands, none is lost, one cause costs
  one request however its callers interleave, and the ladder behind failed reads ends. What a read in flight
  does to a run forgotten meanwhile is stated as the code has it.
\<close>

section \<open>Frames\<close>

lemma forget_log_reads [simp]:
  "rr_cells (forget_run_log w st) = rr_cells st" "rr_open (forget_run_log w st) = rr_open st"
  "rr_stale (forget_run_log w st) = rr_stale st" "rr_answered (forget_run_log w st) = rr_answered st"
  "rr_retries (forget_run_log w st) = rr_retries st" "rr_orphans (forget_run_log w st) = rr_orphans st"
  "rr_controls_open (forget_run_log w st) = rr_controls_open st"
  "rr_controls_stale (forget_run_log w st) = rr_controls_stale st"
  by (simp_all add: forget_run_log_def)

datatype ('p, 'c) read_frame =
    RF_invalidate string string
  | RF_cached string
  | RF_settled string "'p inspect"
  | RF_rung string
  | RF_orphan nat
  | RF_progress run_progress_frame
  | RF_touch string
  | RF_adopt "live_run list" "string option"
  | RF_forget "(string \<Rightarrow> bool) list" string
  | RF_controls string
  | RF_controls_settled string "'c option"

fun read_step :: "('p, 'c) run_store \<Rightarrow> ('p, 'c) read_frame \<Rightarrow> ('p, 'c) store_outcome" where
  "read_step st (RF_invalidate w c) = invalidate_run w c st"
| "read_step st (RF_cached c) = invalidate_cached_runs c st"
| "read_step st (RF_settled w ans) = settle_run w ans st"
| "read_step st (RF_rung w) = run_rung_fires w st"
| "read_step st (RF_orphan i) = run_orphan_fires i st"
| "read_step st (RF_progress p) = (fst (store_run_progress p st), [])"
| "read_step st (RF_touch w) = (touch_run_cell w st, [])"
| "read_step st (RF_adopt rows cause) = adopt_live_runs rows cause st"
| "read_step st (RF_forget demands w) = (forget_run demands w st, [])"
| "read_step st (RF_controls w) = invalidate_run_controls w st"
| "read_step st (RF_controls_settled w ans) = settle_controls w ans st"

definition sent_run :: "string \<Rightarrow> store_effect list \<Rightarrow> nat" where
  "sent_run w es = length (filter (\<lambda>e. e = Get_run w) es)"

definition run_out :: "string \<Rightarrow> ('p, 'c) run_store \<Rightarrow> bool" where
  "run_out w st = (map_of (rr_open st) w \<noteq> None)"

definition run_owed :: "string \<Rightarrow> ('p, 'c) run_store \<Rightarrow> bool" where
  "run_owed w st = (map_of (rr_stale st) w \<noteq> None)"

text \<open>Frames that do not land this run's read; and those that do not forget the run either, refused forgets aside.\<close>

fun run_unlanded :: "string \<Rightarrow> ('p, 'c) read_frame \<Rightarrow> bool" where
  "run_unlanded w (RF_settled v ans) = (v \<noteq> w)"
| "run_unlanded w _ = True"

fun forgets :: "string \<Rightarrow> ('p, 'c) read_frame \<Rightarrow> bool" where
  "forgets w (RF_forget demands v) = (v = w \<and> \<not> list_ex (\<lambda>f. f w) demands)"
| "forgets w _ = False"

definition run_plain :: "string \<Rightarrow> ('p, 'c) read_frame \<Rightarrow> bool" where
  "run_plain w f = (run_unlanded w f \<and> \<not> forgets w f)"

lemma sent_run_simps [simp]:
  "sent_run w [] = 0" "sent_run w (es @ fs) = sent_run w es + sent_run w fs"
  "sent_run w (e # es) = (if e = Get_run w then 1 else 0) + sent_run w es"
  by (simp_all add: sent_run_def)

section \<open>Steps that coalesce\<close>

text \<open>
  What a step that does not land the read does to it: with the read out, nothing is sent and what is owed
  stays owed; otherwise one request leaves exactly when the read goes out.
\<close>

definition coalesces :: "string \<Rightarrow> ('p, 'c) run_store \<Rightarrow> ('p, 'c) store_outcome \<Rightarrow> bool" where
  "coalesces w st out =
     (if run_out w st then run_out w (fst out) \<and> sent_run w (snd out) = 0 \<and> (run_owed w st \<longrightarrow> run_owed w (fst out))
      else sent_run w (snd out) = (if run_out w (fst out) then 1 else 0))"

lemma coalesces_then:
  "coalesces w st (st1, es) \<Longrightarrow> coalesces w st1 (st2, fs) \<Longrightarrow> coalesces w st (st2, es @ fs)"
  by (auto simp: coalesces_def split: if_splits)

lemma coalesces_trace:
  assumes "\<And>st f. coalesces w st (step st f)"
  shows "coalesces w st (trace step st fs)"
proof (induction fs arbitrary: st)
  case (Cons f fs)
  obtain st1 es where one: "step st f = (st1, es)" by (cases "step st f")
  obtain st2 gs where two: "trace step st1 fs = (st2, gs)" by (cases "trace step st1 fs")
  show ?case
    using coalesces_then[of w st st1 es st2 gs] assms[of st f] Cons[of st1] one two by (simp add: trace.simps(2))
qed (simp add: coalesces_def)

text \<open>A step that leaves the open and the owed reads alone and asks for nothing.\<close>

lemma coalesces_still:
  "rr_open st' = rr_open st \<Longrightarrow> rr_stale st' = rr_stale st \<Longrightarrow> sent_run w es = 0 \<Longrightarrow> coalesces w st (st', es)"
  by (simp add: coalesces_def run_out_def run_owed_def)

lemma coalesces_invalidate: "coalesces w st (invalidate_run v c st)"
  by (auto simp: coalesces_def invalidate_run_def fetch_run_def run_out_def run_owed_def map_of_update)

lemma coalesces_cached: "coalesces w st (invalidate_cached_runs c st)"
  unfolding invalidate_cached_runs_def by (rule coalesces_trace) (rule coalesces_invalidate)

lemma coalesces_after:
  "rr_open st' = rr_open st \<Longrightarrow> rr_stale st' = rr_stale st \<Longrightarrow> coalesces w st' out \<Longrightarrow> coalesces w st out"
  by (simp only: coalesces_def run_out_def run_owed_def)

lemma orphan_reads [simp]:
  "rr_orphans (note_run_chat v c st) = rr_orphans st" "rr_orphans (bump_live_runs st) = rr_orphans st"
  "rr_orphans (cancel_run_retry v st) = rr_orphans st" "rr_orphans (land_inspect v ans st) = rr_orphans st"
  "rr_orphans (forget_run demands v st) = rr_orphans st" "rr_orphans (touch_run_cell v st) = rr_orphans st"
  "rr_orphans (fst (store_run_progress p st)) = rr_orphans st"
  "rr_orphans (fst (invalidate_run v c st)) = rr_orphans st"
  "rr_orphans (fst (invalidate_run_controls v st)) = rr_orphans st"
  "rr_orphans (fst (settle_controls v d st)) = rr_orphans st"
  by (auto simp: note_run_chat_def bump_live_runs_def cancel_run_retry_def land_inspect_def forget_run_def
      touch_run_cell_def store_run_progress_def invalidate_run_def fetch_run_def invalidate_run_controls_def
      fetch_run_controls_def settle_controls_def Let_def split: inspect.split prod.split option.split bool.split)

lemma note_chat_reads [simp]:
  "rr_open (note_run_chat v c st) = rr_open st" "rr_stale (note_run_chat v c st) = rr_stale st"
  "rr_answered (note_run_chat v c st) = rr_answered st" "rr_retries (note_run_chat v c st) = rr_retries st"
  by (simp_all add: note_run_chat_def)

lemma bump_live_reads [simp]:
  "rr_open (bump_live_runs st) = rr_open st" "rr_stale (bump_live_runs st) = rr_stale st"
  "rr_answered (bump_live_runs st) = rr_answered st" "rr_retries (bump_live_runs st) = rr_retries st"
  by (simp_all add: bump_live_runs_def)

lemma coalesces_row: "coalesces w st (adopt_live_row cause st r)"
proof (cases cause)
  case None
  then show ?thesis by (auto simp: adopt_live_row_def Let_def intro!: coalesces_still)
next
  case (Some c)
  let ?st1 = "note_run_chat (lv_workflow r) (lv_chat r)
    (st\<lparr>rr_live := AList.update (lv_workflow r) \<lparr>lw_chat = lv_chat r, lw_executing = lv_executing r\<rparr> (rr_live st)\<rparr>)"
  have "coalesces w st (invalidate_run (lv_workflow r) c ?st1)"
    by (rule coalesces_after[OF _ _ coalesces_invalidate]) simp_all
  then have "coalesces w st (fst (invalidate_run (lv_workflow r) c ?st1),
      [Note_known (lv_workflow r)] @ snd (invalidate_run (lv_workflow r) c ?st1))"
    by (auto simp: coalesces_def)
  moreover have "coalesces w st (st, [])" by (rule coalesces_still) simp_all
  ultimately show ?thesis using Some by (simp add: adopt_live_row_def Let_def split_beta)
qed

lemma coalesces_adopt: "coalesces w st (adopt_live_runs rows cause st)"
proof -
  have "coalesces w st (trace (adopt_live_row cause) (st\<lparr>rr_live := []\<rparr>) rows)"
    by (rule coalesces_after[OF _ _ coalesces_trace[OF coalesces_row]]) simp_all
  then show ?thesis
    by (auto simp: adopt_live_runs_def coalesces_def run_out_def run_owed_def split_beta)
qed

lemma ladder_reads [simp]:
  "rr_open (cancel_run_retry v st) = rr_open st" "rr_stale (cancel_run_retry v st) = rr_stale st"
  "rr_answered (cancel_run_retry v st) = rr_answered st"
  "rr_open (fst (schedule_run_retry v c s st)) = rr_open st"
  "rr_stale (fst (schedule_run_retry v c s st)) = rr_stale st"
  "rr_answered (fst (schedule_run_retry v c s st)) = rr_answered st"
  "sent_run w (snd (schedule_run_retry v c s st)) = 0"
  by (simp_all add: cancel_run_retry_def schedule_run_retry_def Let_def)

lemma land_reads [simp]:
  "rr_open (land_inspect v ans st) = rr_open st" "rr_stale (land_inspect v ans st) = rr_stale st"
  "rr_answered (land_inspect v ans st) = rr_answered st" "rr_retries (land_inspect v ans st) = rr_retries st"
  by (simp_all add: land_inspect_def split: inspect.split)

lemma close_reads [simp]:
  "rr_open (fst (close_read v c ans st)) = AList.delete v (rr_open st)"
  "rr_stale (fst (close_read v c ans st)) = rr_stale st"
  "sent_run w (snd (close_read v c ans st)) = 0"
  by (auto simp: close_read_def Let_def split: inspect.split)

lemma coalesces_other: "v \<noteq> w \<Longrightarrow> coalesces w st (settle_run v ans st)"
  by (auto simp: settle_run_def coalesces_def run_out_def run_owed_def fetch_run_def split_beta
      map_of_update map_of_delete_if Let_def split: option.split)

lemma coalesces_rung: "coalesces w st (run_rung_fires v st)"
  by (auto simp: run_rung_fires_def intro!: coalesces_still coalesces_after[OF _ _ coalesces_invalidate]
      split: option.split)

lemma still_reads [simp]:
  "rr_open (fst (store_run_progress p st)) = rr_open st" "rr_stale (fst (store_run_progress p st)) = rr_stale st"
  "rr_open (touch_run_cell v st) = rr_open st" "rr_stale (touch_run_cell v st) = rr_stale st"
  "rr_open (fst (invalidate_run_controls v st)) = rr_open st"
  "rr_stale (fst (invalidate_run_controls v st)) = rr_stale st"
  "rr_open (fst (settle_controls v d st)) = rr_open st" "rr_stale (fst (settle_controls v d st)) = rr_stale st"
  "sent_run w (snd (invalidate_run_controls v st)) = 0" "sent_run w (snd (settle_controls v d st)) = 0"
  by (simp_all add: store_run_progress_def touch_run_cell_def invalidate_run_controls_def
      fetch_run_controls_def settle_controls_def Let_def split: prod.split option.split bool.split)

lemma coalesces_orphan: "coalesces w st (run_orphan_fires i st)"
  by (cases "rr_orphans st ! i")
    (auto simp: run_orphan_fires_def intro!: coalesces_still coalesces_after[OF _ _ coalesces_invalidate])

lemma coalesces_step: "run_plain w f \<Longrightarrow> coalesces w st (read_step st f)"
proof (cases f)
  case (RF_forget demands v)
  assume "run_plain w f"
  with RF_forget show ?thesis
    by (auto simp: run_plain_def forget_run_def coalesces_def run_out_def run_owed_def map_of_delete_if cancel_run_retry_def)
next
  case (RF_controls v)
  then show ?thesis
    using coalesces_still[of "fst (invalidate_run_controls v st)" st w "snd (invalidate_run_controls v st)"] by simp
next
  case (RF_controls_settled v d)
  then show ?thesis
    using coalesces_still[of "fst (settle_controls v d st)" st w "snd (settle_controls v d st)"] by simp
qed (simp_all add: run_plain_def coalesces_invalidate coalesces_cached coalesces_other coalesces_rung coalesces_orphan
    coalesces_adopt coalesces_still)

section \<open>The two reads of a run\<close>

fun run_asks :: "string \<Rightarrow> ('p, 'c) read_frame \<Rightarrow> bool" where
  "run_asks w (RF_invalidate v c) = (v = w \<and> c = '''' \<and> w \<noteq> '''')"
| "run_asks w _ = False"

fun run_lands :: "string \<Rightarrow> ('p, 'c) read_frame \<Rightarrow> bool" where
  "run_lands w (RF_settled v ans) = (v = w)"
| "run_lands w _ = False"

lemma lands_sends:
  "run_out w st \<Longrightarrow> run_owed w st \<Longrightarrow> sent_run w (snd (settle_run w ans st)) = 1"
  by (auto simp: run_out_def run_owed_def settle_run_def fetch_run_def Let_def split_beta)

text \<open>Forgetting a run leaves its read in flight, so it does not let a second one out.\<close>

interpretation run_flight: single_flight read_step "run_unlanded w" "\<lambda>_. False" "run_out w" "sent_run w" for w
proof
  fix f :: "('a, 'b) read_frame" and st :: "('a, 'b) run_store"
  assume f: "run_unlanded w f"
  have forgot: "run_out w (forget_run demands v st) = run_out w st" for demands v
    by (simp add: forget_run_def run_out_def cancel_run_retry_def)
  have step: "coalesces w st (read_step st f) \<or> (\<exists>demands v. f = RF_forget demands v)"
    using f coalesces_step[of w f st] by (cases f) (auto simp: run_plain_def)
  show "run_out w st \<Longrightarrow> run_out w (fst (read_step st f)) \<and> sent_run w (snd (read_step st f)) = 0"
    using step forgot by (auto simp: coalesces_def)
  show "\<not> run_out w st \<Longrightarrow> sent_run w (snd (read_step st f)) = (if run_out w (fst (read_step st f)) then 1 else 0)"
    using step forgot by (auto simp: coalesces_def)
qed simp_all

interpretation run_reads: coalesced_read read_step "run_plain w" "\<lambda>_. False" "run_out w" "sent_run w"
  "run_asks w" "run_lands w" "run_owed w" for w
proof
  fix f :: "('a, 'b) read_frame" and st :: "('a, 'b) run_store"
  show "run_asks w f \<Longrightarrow> \<not> run_out w st \<Longrightarrow> 0 < sent_run w (snd (read_step st f))"
    by (cases f) (auto simp: invalidate_run_def fetch_run_def run_out_def)
  show "run_asks w f \<Longrightarrow> run_out w st \<Longrightarrow> run_owed w (fst (read_step st f))"
    by (cases f) (auto simp: invalidate_run_def run_out_def run_owed_def map_of_update)
  show "run_asks w f \<Longrightarrow> run_plain w f" by (cases f) (auto simp: run_plain_def)
  show "run_lands w f \<Longrightarrow> run_out w st \<Longrightarrow> run_owed w st \<Longrightarrow> sent_run w (snd (read_step st f)) = 1"
    by (cases f) (auto simp: lands_sends)
next
  fix f :: "('a, 'b) read_frame" and st :: "('a, 'b) run_store"
  assume plain: "run_plain w f"
  note step = coalesces_step[OF plain, of st, unfolded coalesces_def]
  show "run_out w st \<Longrightarrow> run_out w (fst (read_step st f)) \<and> sent_run w (snd (read_step st f)) = 0"
    using step by simp
  show "run_out w st \<Longrightarrow> run_owed w st \<Longrightarrow> run_owed w (fst (read_step st f))" using step by simp
  show "\<not> run_out w st \<Longrightarrow> sent_run w (snd (read_step st f)) = (if run_out w (fst (read_step st f)) then 1 else 0)"
    using step by simp
qed simp_all

definition sent_controls :: "string \<Rightarrow> store_effect list \<Rightarrow> nat" where
  "sent_controls w es = length (filter (\<lambda>e. e = Get_controls w) es)"

fun controls_unlanded :: "string \<Rightarrow> ('p, 'c) read_frame \<Rightarrow> bool" where
  "controls_unlanded w (RF_controls_settled v ans) = (v \<noteq> w)"
| "controls_unlanded w _ = True"

definition controls_plain :: "string \<Rightarrow> ('p, 'c) read_frame \<Rightarrow> bool" where
  "controls_plain w f = (controls_unlanded w f \<and> \<not> forgets w f)"

fun controls_asks :: "string \<Rightarrow> ('p, 'c) read_frame \<Rightarrow> bool" where
  "controls_asks w (RF_controls v) = (v = w \<and> w \<noteq> '''')"
| "controls_asks w _ = False"

fun controls_lands :: "string \<Rightarrow> ('p, 'c) read_frame \<Rightarrow> bool" where
  "controls_lands w (RF_controls_settled v ans) = (v = w)"
| "controls_lands w _ = False"

definition controls_still :: "string \<Rightarrow> ('p, 'c) run_store \<Rightarrow> ('p, 'c) store_outcome \<Rightarrow> bool" where
  "controls_still w st out =
     (rr_controls_open (fst out) = rr_controls_open st \<and> rr_controls_stale (fst out) = rr_controls_stale st
      \<and> sent_controls w (snd out) = 0)"

lemma sent_controls_simps [simp]:
  "sent_controls w [] = 0" "sent_controls w (es @ fs) = sent_controls w es + sent_controls w fs"
  "sent_controls w (e # es) = (if e = Get_controls w then 1 else 0) + sent_controls w es"
  by (simp_all add: sent_controls_def)

lemma controls_still_trace:
  assumes "\<And>st f. controls_still w st (step st f)"
  shows "controls_still w st (trace step st fs)"
proof (induction fs arbitrary: st)
  case (Cons f fs)
  show ?case
    using Cons[of "fst (step st f)"] assms[of st f] by (simp add: controls_still_def trace_Cons)
qed (simp add: controls_still_def)

lemma controls_still_invalidate: "controls_still w st (invalidate_run v c st)"
  by (simp add: controls_still_def invalidate_run_def fetch_run_def)

lemma controls_still_row: "controls_still w st (adopt_live_row cause st r)"
  using controls_still_invalidate
  by (auto simp: controls_still_def adopt_live_row_def note_run_chat_def Let_def split_beta split: option.split)

lemma controls_still_adopt: "controls_still w st (adopt_live_runs rows cause st)"
proof -
  have "controls_still w (st\<lparr>rr_live := []\<rparr>) (trace (adopt_live_row cause) (st\<lparr>rr_live := []\<rparr>) rows)"
    by (rule controls_still_trace) (rule controls_still_row)
  then show ?thesis
    by (simp add: controls_still_def adopt_live_runs_def bump_live_runs_def split_beta)
qed

lemma controls_still_cached: "controls_still w st (invalidate_cached_runs c st)"
  unfolding invalidate_cached_runs_def by (rule controls_still_trace) (rule controls_still_invalidate)

lemma controls_still_settle: "controls_still w st (settle_run v ans st)"
  by (auto simp: controls_still_def settle_run_def close_read_def land_inspect_def schedule_run_retry_def
      cancel_run_retry_def fetch_run_def Let_def split_beta split: option.split inspect.split)

lemma controls_still_rung: "controls_still w st (run_rung_fires v st)"
  by (auto simp: controls_still_def run_rung_fires_def invalidate_run_def fetch_run_def split: option.split)

lemma controls_still_orphan: "controls_still w st (run_orphan_fires i st)"
  by (auto simp: controls_still_def run_orphan_fires_def invalidate_run_def fetch_run_def split: prod.split)

lemma controls_still_step:
  "(case f of RF_forget _ _ \<Rightarrow> False | RF_controls _ \<Rightarrow> False | RF_controls_settled _ _ \<Rightarrow> False | _ \<Rightarrow> True)
   \<Longrightarrow> controls_still w st (read_step st f)"
  by (cases f)
    (simp_all add: controls_still_invalidate controls_still_cached controls_still_settle controls_still_rung
      controls_still_orphan controls_still_adopt, simp_all add: controls_still_def store_run_progress_def touch_run_cell_def
      split: prod.split option.split bool.split)

lemma settle_controls_sets:
  "set (rr_controls_open (fst (settle_controls v d st)))
     = (if v \<in> set (rr_controls_stale st) then insert v (set (rr_controls_open st)) else set (rr_controls_open st) - {v})"
  "set (rr_controls_stale (fst (settle_controls v d st))) = set (rr_controls_stale st) - {v}"
  "sent_controls w (snd (settle_controls v d st)) = (if w = v \<and> v \<in> set (rr_controls_stale st) then 1 else 0)"
  by (cases d; auto simp: settle_controls_def fetch_run_controls_def Let_def)+

lemma invalidate_controls_sets:
  "set (rr_controls_open (fst (invalidate_run_controls v st)))
     = (if v = '''' then set (rr_controls_open st) else insert v (set (rr_controls_open st)))"
  "set (rr_controls_stale (fst (invalidate_run_controls v st)))
     = (if v \<noteq> '''' \<and> v \<in> set (rr_controls_open st) then insert v (set (rr_controls_stale st))
        else set (rr_controls_stale st))"
  "sent_controls w (snd (invalidate_run_controls v st))
     = (if w = v \<and> v \<noteq> '''' \<and> v \<notin> set (rr_controls_open st) then 1 else 0)"
  by (auto simp: invalidate_run_controls_def fetch_run_controls_def)

lemma forget_controls_sets:
  "w \<noteq> v \<or> list_ex (\<lambda>f. f w) demands \<Longrightarrow>
     (w \<in> set (rr_controls_open (forget_run demands v st))) = (w \<in> set (rr_controls_open st))"
  "w \<noteq> v \<or> list_ex (\<lambda>f. f w) demands \<Longrightarrow>
     (w \<in> set (rr_controls_stale (forget_run demands v st))) = (w \<in> set (rr_controls_stale st))"
  by (auto simp: forget_run_def)

interpretation controls_reads: coalesced_read read_step "controls_plain w" "forgets w"
  "\<lambda>st. w \<in> set (rr_controls_open st)" "sent_controls w"
  "controls_asks w" "controls_lands w" "\<lambda>st. w \<in> set (rr_controls_stale st)" for w
proof
  fix f :: "('a, 'b) read_frame" and st :: "('a, 'b) run_store"
  have still: "controls_still w st (read_step st f) \<or> (\<exists>demands v. f = RF_forget demands v)
      \<or> (\<exists>v. f = RF_controls v) \<or> (\<exists>v d. f = RF_controls_settled v d)"
    using controls_still_step[of f w st] by (cases f) auto
  note defs = controls_still_def forget_controls_sets invalidate_controls_sets settle_controls_sets controls_plain_def
  show "forgets w f \<Longrightarrow> sent_controls w (snd (read_step st f)) = 0" by (cases f) auto
  show "controls_plain w f \<Longrightarrow> w \<in> set (rr_controls_open st) \<Longrightarrow>
      w \<in> set (rr_controls_open (fst (read_step st f))) \<and> sent_controls w (snd (read_step st f)) = 0"
    using still by (auto simp: defs)
  show "controls_plain w f \<Longrightarrow> w \<in> set (rr_controls_open st) \<Longrightarrow> w \<in> set (rr_controls_stale st)
      \<Longrightarrow> w \<in> set (rr_controls_stale (fst (read_step st f)))"
    using still by (auto simp: defs)
  show "controls_plain w f \<Longrightarrow> w \<notin> set (rr_controls_open st) \<Longrightarrow>
      sent_controls w (snd (read_step st f)) = (if w \<in> set (rr_controls_open (fst (read_step st f))) then 1 else 0)"
    using still by (auto simp: defs split: if_splits)
  show "controls_asks w f \<Longrightarrow> w \<notin> set (rr_controls_open st) \<Longrightarrow> 0 < sent_controls w (snd (read_step st f))"
    by (cases f) (auto simp: defs)
  show "controls_asks w f \<Longrightarrow> w \<in> set (rr_controls_open st) \<Longrightarrow> w \<in> set (rr_controls_stale (fst (read_step st f)))"
    by (cases f) (auto simp: defs)
  show "controls_asks w f \<Longrightarrow> controls_plain w f" by (cases f) (auto simp: controls_plain_def)
  show "controls_lands w f \<Longrightarrow> w \<in> set (rr_controls_open st) \<Longrightarrow> w \<in> set (rr_controls_stale st)
      \<Longrightarrow> sent_controls w (snd (read_step st f)) = 1"
    by (cases f) (auto simp: defs)
qed simp_all
section \<open>Properties\<close>

text \<open>
  C28. Between two landings of a run's read, however many frames invalidate the run, cached runs, or adopt an
  inventory naming it, fire rungs or forget it, at most one request for it leaves. Between two landings of
  its controls' read at most one request for them leaves, and one more for each time the run is forgotten:
  forgetting it drops the note that the read is out, where the run's own read keeps its note.
\<close>

theorem storm_costs_one_request:
  assumes "list_all (run_unlanded w) fs" and "list_all (controls_unlanded w) gs"
  shows "sent_run w (snd (trace read_step st fs)) \<le> 1
    \<and> sent_controls w (snd (trace read_step st gs)) \<le> 1 + length (filter (forgets w) gs)"
proof -
  have "list_all (\<lambda>f. controls_plain w f \<or> forgets w f) gs"
    using assms(2) by (auto simp: list_all_iff controls_plain_def)
  then show ?thesis
    using run_flight.storm_sends_once[of w fs st] controls_reads.storm_sends_once[of w gs st] assms(1) by simp
qed

definition no_store :: "(unit, unit) run_store" where
  "no_store =
     \<lparr>lg_logs = [], lg_versions = [], rr_cells = [], rr_open = [], rr_stale = [], rr_answered = [],
      rr_retries = [], rr_orphans = [], rr_plans = [], rr_controls = [], rr_controls_open = [], rr_controls_stale = [],
      rr_launched = [], rr_live = [], rr_live_version = 0\<rparr>"

definition sample_raw :: raw_run_state where
  "sample_raw =
     \<lparr>ru_workflow = ''w'', ru_name = None, ru_label = None, ru_status = None, ru_root = None,
      ru_pause_reason = None, ru_pause_detail = None, ru_stop_initiator = None, ru_stop_reason = None,
      ru_parent_session = None\<rparr>"

definition sample_storm :: "(unit, unit) read_frame list" where
  "sample_storm = replicate 50 (RF_invalidate ''w'' []) @ [RF_cached ''gap'', RF_controls ''w'', RF_controls ''w'']"

lemma sample_storm_plain: "list_all (run_plain ''w'') sample_storm" "list_all (controls_plain ''w'') sample_storm"
  by (simp_all add: sample_storm_def list_all_iff run_plain_def controls_plain_def)

theorem storm_costs_one_request_witness:
  "sent_run ''w'' (snd (trace read_step no_store (sample_storm @ RF_forget [] ''w'' # sample_storm))) \<le> 1
   \<and> sent_controls ''w'' (snd (trace read_step no_store (sample_storm @ RF_forget [] ''w'' # sample_storm))) \<le> 2"
  using storm_costs_one_request[of "''w''" "sample_storm @ RF_forget [] ''w'' # sample_storm"
      "sample_storm @ RF_forget [] ''w'' # sample_storm" no_store]
  by (simp add: sample_storm_def list_all_iff)

text \<open>
  C29. No invalidation is lost while its run is kept: after an uncaused invalidation of a run, whatever arrives
  until its read lands, a forget of the run that is carried out aside, and whatever that read answers, a request
  for the run leaves after the invalidation; and so for its controls. Forgetting a run drops what is owed to it
  with everything else, so that the read in flight is then its last.
\<close>

theorem no_invalidation_is_lost:
  assumes "w \<noteq> ''''" and "list_all (run_plain w) fs" and "list_all (controls_plain w) gs"
  shows "0 < sent_run w (snd (trace read_step st (RF_invalidate w '''' # fs @ [RF_settled w ans])))
    \<and> 0 < sent_controls w (snd (trace read_step st (RF_controls w # gs @ [RF_controls_settled w d])))"
  using run_reads.ask_is_answered[of w "RF_invalidate w ''''" fs "RF_settled w ans" st]
    controls_reads.ask_is_answered[of w "RF_controls w" gs "RF_controls_settled w d" st] assms by simp

theorem no_invalidation_is_lost_witness:
  "0 < sent_run ''w'' (snd (trace read_step no_store
        (RF_invalidate ''w'' [] # sample_storm @ [RF_settled ''w'' (Run_failed 503)])))
   \<and> 0 < sent_controls ''w'' (snd (trace read_step no_store
        (RF_controls ''w'' # sample_storm @ [RF_controls_settled ''w'' None])))"
  by (rule no_invalidation_is_lost[OF _ sample_storm_plain]) simp

section \<open>One cause\<close>

text \<open>
  Frames in which every invalidation of \<open>w\<close> names the cause \<open>c\<close>, its read, when it lands, has answered, and
  it is not forgotten.
\<close>

fun names_only :: "string \<Rightarrow> string \<Rightarrow> ('p, 'c) read_frame \<Rightarrow> bool" where
  "names_only w c (RF_invalidate v d) = (v = w \<longrightarrow> d = c)"
| "names_only w c (RF_cached d) = (d = c)"
| "names_only w c (RF_adopt rows cause) = (cause = None \<or> cause = Some c)"
| "names_only w c (RF_settled v ans) = (v = w \<longrightarrow> (case ans of Run_inspect _ _ \<Rightarrow> True | Run_failed _ \<Rightarrow> False))"
| "names_only w c (RF_forget demands v) = (v \<noteq> w)"
| "names_only w c _ = True"

text \<open>
  Before the cause reaches the run nothing is out or armed; after it the cause stands as answered. No timer is left
  of an earlier ladder of the run.
\<close>

definition cause_held :: "string \<Rightarrow> string \<Rightarrow> bool \<Rightarrow> ('p, 'c) run_store \<Rightarrow> bool" where
  "cause_held w c asked st =
     (map_of (rr_stale st) w = None \<and> map_of (rr_retries st) w = None
      \<and> w \<notin> set (map fst (rr_orphans st))
      \<and> (if asked then map_of (rr_answered st) w = Some c
         else map_of (rr_open st) w = None \<and> map_of (rr_answered st) w \<noteq> Some c))"

definition one_cause :: "string \<Rightarrow> string \<Rightarrow> bool \<Rightarrow> ('p, 'c) store_outcome \<Rightarrow> bool" where
  "one_cause w c asked out =
     (if asked then cause_held w c True (fst out) \<and> sent_run w (snd out) = 0
      else sent_run w (snd out) = 0 \<and> cause_held w c False (fst out)
         \<or> sent_run w (snd out) = 1 \<and> cause_held w c True (fst out))"

lemma one_cause_trace:
  assumes "\<And>st f asked. ok f \<Longrightarrow> cause_held w c asked st \<Longrightarrow> one_cause w c asked (step st f)"
  shows "list_all ok fs \<Longrightarrow> cause_held w c asked st \<Longrightarrow> one_cause w c asked (trace step st fs)"
proof (induction fs arbitrary: asked st)
  case (Cons f fs)
  have f: "one_cause w c asked (step st f)" using Cons.prems assms by simp
  show ?case
  proof (cases "cause_held w c True (fst (step st f)) \<and> sent_run w (snd (step st f)) = (if asked then 0 else 1)")
    case True
    then show ?thesis using Cons.IH[of True "fst (step st f)"] Cons.prems(1)
      by (auto simp: one_cause_def trace_Cons)
  next
    case False
    then have "\<not> asked" "cause_held w c False (fst (step st f))" "sent_run w (snd (step st f)) = 0"
      using f by (auto simp: one_cause_def split: if_splits)
    then show ?thesis using Cons.IH[of False "fst (step st f)"] Cons.prems(1)
      by (auto simp: one_cause_def trace_Cons)
  qed
next
  case Nil
  then show ?case by (cases asked) (simp_all add: one_cause_def)
qed

lemma one_cause_still:
  "cause_held w c asked st \<Longrightarrow> map_of (rr_open st') w = map_of (rr_open st) w
   \<Longrightarrow> map_of (rr_stale st') w = map_of (rr_stale st) w
   \<Longrightarrow> map_of (rr_answered st') w = map_of (rr_answered st) w
   \<Longrightarrow> map_of (rr_retries st') w = map_of (rr_retries st) w
   \<Longrightarrow> w \<in> set (map fst (rr_orphans st')) \<longrightarrow> w \<in> set (map fst (rr_orphans st))
   \<Longrightarrow> sent_run w es = 0 \<Longrightarrow> one_cause w c asked (st', es)"
  by (simp add: one_cause_def cause_held_def)

lemmas one_cause_still_out = one_cause_still[where st' = "fst out" and es = "snd out" for out, unfolded prod.collapse]

lemma one_cause_invalidate:
  assumes "cause_held w c asked st" and "c \<noteq> ''''" and "v = w \<Longrightarrow> d = c"
  shows "one_cause w c asked (invalidate_run v d st)"
proof (cases "v = w")
  case False
  then show ?thesis
    using assms by (auto simp: invalidate_run_def fetch_run_def map_of_update intro!: one_cause_still)
next
  case True
  with assms show ?thesis
    by (auto simp: invalidate_run_def fetch_run_def one_cause_def cause_held_def map_of_update split: if_splits)
qed
lemma note_chat_same [simp]:
  "rr_open (st\<lparr>rr_live := x\<rparr>) = rr_open st" "rr_stale (st\<lparr>rr_live := x\<rparr>) = rr_stale st"
  by simp_all

lemma one_cause_note:
  "one_cause w c asked out \<Longrightarrow> one_cause w c asked (fst out, Note_known v # snd out)"
  by (cases asked) (simp_all add: one_cause_def)

lemma one_cause_row:
  assumes "cause_held w c asked st" and "c \<noteq> ''''" and "cause = None \<or> cause = Some c"
  shows "one_cause w c asked (adopt_live_row cause st r)"
proof -
  let ?st1 = "note_run_chat (lv_workflow r) (lv_chat r)
    (st\<lparr>rr_live := AList.update (lv_workflow r) \<lparr>lw_chat = lv_chat r, lw_executing = lv_executing r\<rparr> (rr_live st)\<rparr>)"
  have st1: "cause_held w c asked ?st1" using assms(1) by (simp add: cause_held_def)
  have invalidated: "one_cause w c asked (invalidate_run (lv_workflow r) c ?st1)"
    by (rule one_cause_invalidate[OF st1 assms(2)]) simp
  have "one_cause w c asked (st, [])" "one_cause w c asked (?st1, [Note_known (lv_workflow r)])"
    using assms(1) by (auto intro: one_cause_still)
  moreover have "one_cause w c asked (fst (invalidate_run (lv_workflow r) c ?st1),
      Note_known (lv_workflow r) # snd (invalidate_run (lv_workflow r) c ?st1))"
    by (rule one_cause_note[OF invalidated])
  ultimately show ?thesis
    using assms(3) by (auto simp: adopt_live_row_def Let_def split_beta)
qed

lemma one_cause_adopt:
  assumes "cause_held w c asked st" and "c \<noteq> ''''" and "cause = None \<or> cause = Some c"
  shows "one_cause w c asked (adopt_live_runs rows cause st)"
proof -
  have "cause_held w c asked (st\<lparr>rr_live := []\<rparr>)" using assms(1) by (simp add: cause_held_def)
  then have "one_cause w c asked (trace (adopt_live_row cause) (st\<lparr>rr_live := []\<rparr>) rows)"
    by (intro one_cause_trace[where ok = "\<lambda>_. True"]) (auto intro: one_cause_row[OF _ assms(2,3)] simp: list_all_iff)
  then show ?thesis
    by (cases asked) (simp_all add: one_cause_def cause_held_def adopt_live_runs_def split_beta)
qed

lemma one_cause_cached:
  assumes "cause_held w c asked st" and "c \<noteq> ''''"
  shows "one_cause w c asked (invalidate_cached_runs c st)"
  unfolding invalidate_cached_runs_def
  using assms(1) by (intro one_cause_trace[where ok = "\<lambda>_. True"])
    (auto intro: one_cause_invalidate[OF _ assms(2)] simp: list_all_iff)

lemma schedule_other [simp]:
  "v \<noteq> w \<Longrightarrow> map_of (rr_retries (fst (schedule_run_retry v c s st))) w = map_of (rr_retries st) w"
  by (simp add: schedule_run_retry_def map_of_update map_of_delete_if Let_def)

lemma cancel_other [simp]:
  "map_of (rr_retries (cancel_run_retry v st)) w = (if v = w then None else map_of (rr_retries st) w)"
  by (simp add: cancel_run_retry_def map_of_delete_if)

lemma close_other:
  "v \<noteq> w \<Longrightarrow> map_of (rr_retries (fst (close_read v d ans st))) w = map_of (rr_retries st) w"
  "v \<noteq> w \<Longrightarrow> map_of (rr_answered (fst (close_read v d ans st))) w = map_of (rr_answered st) w"
  by (auto simp: close_read_def map_of_delete_if Let_def split: inspect.split)

lemma close_orphans:
  "(w, x) \<in> set (rr_orphans (fst (close_read v d ans st))) \<Longrightarrow> w = v \<or> (w, x) \<in> set (rr_orphans st)"
  by (auto simp: close_read_def schedule_run_retry_def orphaned_def Let_def split: inspect.splits option.splits if_splits)

lemma one_cause_settle_other:
  assumes "cause_held w c asked st" and "v \<noteq> w"
  shows "one_cause w c asked (settle_run v ans st)"
proof -
  have "w \<in> fst ` set (rr_orphans st)"
    if "(w, x) \<in> set (rr_orphans (fst (close_read v d ans (land_inspect v ans st))))" for x d
    using close_orphans[OF that] assms(2) by (force simp: image_iff)
  then show ?thesis
    using assms(2)
    by (auto simp: settle_run_def fetch_run_def split_beta map_of_update map_of_delete_if close_other Let_def
        intro!: one_cause_still[OF assms(1)] one_cause_still_out[OF assms(1)] split: option.split)
qed

lemma one_cause_settle:
  assumes "cause_held w c asked st"
  shows "one_cause w c asked (settle_run w (Run_inspect raw plan) st)"
  using assms
  by (auto simp: settle_run_def close_read_def one_cause_def cause_held_def map_of_delete_if split_beta Let_def
      split: option.split)

lemma one_cause_step:
  assumes "names_only w c f" and "cause_held w c asked st" and "c \<noteq> ''''"
  shows "one_cause w c asked (read_step st f)"
proof (cases f)
  case (RF_settled v ans)
  then show ?thesis
    using assms one_cause_settle_other[OF assms(2)] one_cause_settle[OF assms(2)]
    by (cases "v = w"; cases ans) auto
next
  case (RF_rung v)
  have "cause_held w c asked (st\<lparr>rr_retries := AList.update v x (rr_retries st)\<rparr>)" if "v \<noteq> w" for x
    using assms(2) that by (simp add: cause_held_def map_of_update)
  note fired = one_cause_invalidate[OF this assms(3)]
  have "map_of (rr_retries st) w = None" using assms(2) by (simp add: cause_held_def)
  with RF_rung show ?thesis
    by (auto simp: run_rung_fires_def intro!: one_cause_still[OF assms(2)] fired split: option.split)
next
  case (RF_orphan i)
  show ?thesis
  proof (cases "i < length (rr_orphans st)")
    case True
    obtain v d e where o: "rr_orphans st ! i = (v, d, e)" by (cases "rr_orphans st ! i")
    then have "v \<noteq> w" using assms(2) nth_mem[OF True] by (force simp: cause_held_def)
    moreover have "cause_held w c asked (st\<lparr>rr_orphans := take i (rr_orphans st) @ drop (Suc i) (rr_orphans st)\<rparr>)"
      using assms(2) by (auto simp: cause_held_def dest: in_set_takeD in_set_dropD)
    ultimately show ?thesis using RF_orphan True o by (simp add: run_orphan_fires_def one_cause_invalidate[OF _ assms(3)])
  qed (use RF_orphan in \<open>simp add: run_orphan_fires_def one_cause_still[OF assms(2)]\<close>)
next
  case (RF_forget demands v)
  then show ?thesis using assms
    by (auto simp: forget_run_def map_of_delete_if cancel_run_retry_def intro!: one_cause_still[OF assms(2)])
next
  case (RF_progress p)
  then show ?thesis
    by (auto simp: store_run_progress_def intro!: one_cause_still[OF assms(2)] split: prod.split option.split bool.split)
next
  case (RF_touch v)
  then show ?thesis by (auto simp: touch_run_cell_def intro!: one_cause_still[OF assms(2)])
next
  case (RF_controls v)
  then show ?thesis
    by (auto simp: invalidate_run_controls_def fetch_run_controls_def intro!: one_cause_still[OF assms(2)])
next
  case (RF_controls_settled v d)
  then show ?thesis
    by (auto simp: settle_controls_def fetch_run_controls_def Let_def intro!: one_cause_still[OF assms(2)] split: option.split)
qed (use assms in \<open>auto intro: one_cause_invalidate one_cause_cached one_cause_adopt\<close>)

text \<open>
  One cause costs one request: over any frames whose invalidations of a run name one cause, through the
  run itself, the pass over cached runs or an adopted inventory, in any order and with its read landing at any
  moment, one request leaves for the run if any frame named it, and never a second.
\<close>

theorem one_cause_one_request:
  assumes "c \<noteq> ''''" and "list_all (names_only w c) fs"
    and "map_of (rr_open st) w = None" and "map_of (rr_stale st) w = None" and "map_of (rr_retries st) w = None"
    and "map_of (rr_answered st) w \<noteq> Some c" and "w \<notin> set (map fst (rr_orphans st))"
  shows "sent_run w (snd (trace read_step st fs)) \<le> 1
    \<and> (w = '''' \<or> RF_invalidate w c \<notin> set fs \<or> sent_run w (snd (trace read_step st fs)) = 1)"
proof -
  have start: "cause_held w c False st" using assms by (simp add: cause_held_def)
  have all: "cause_held w c asked st' \<Longrightarrow> list_all (names_only w c) gs
      \<Longrightarrow> one_cause w c asked (trace read_step st' gs)" for asked st' gs
    using one_cause_trace[of "names_only w c" w c read_step gs] one_cause_step[OF _ _ assms(1)] by blast
  have "sent_run w (snd (trace read_step st fs)) = 1" if asked: "RF_invalidate w c \<in> set fs" "w \<noteq> ''''"
  proof (rule ccontr)
    assume no: "sent_run w (snd (trace read_step st fs)) \<noteq> 1"
    obtain xs ys where fs: "fs = xs @ RF_invalidate w c # ys" using asked(1) by (auto dest: split_list)
    have "one_cause w c False (trace read_step st xs)" using all[OF start] assms(2) fs by simp
    then have "cause_held w c False (fst (trace read_step st xs))" "sent_run w (snd (trace read_step st xs)) = 0"
      using no all[of True "fst (trace read_step st xs)" "RF_invalidate w c # ys"] assms(2) fs
      by (auto simp: one_cause_def trace_append)
    then have "sent_run w (snd (read_step (fst (trace read_step st xs)) (RF_invalidate w c))) = 1"
      "cause_held w c True (fst (read_step (fst (trace read_step st xs)) (RF_invalidate w c)))"
      using asked(2) assms(1) by (auto simp: invalidate_run_def fetch_run_def cause_held_def map_of_update)
    with all[of True _ ys] no assms(2) fs show False
      using \<open>sent_run w (snd (trace read_step st xs)) = 0\<close>
      by (simp add: one_cause_def trace_append trace_Cons)
  qed
  then show ?thesis using all[OF start assms(2)] by (auto simp: one_cause_def)
qed
definition sample_gap :: "(unit, unit) read_frame list" where
  "sample_gap =
     [RF_touch ''w'', RF_cached ''gap'', RF_settled ''w'' (Run_inspect sample_raw None), RF_invalidate ''w'' ''gap'']"

theorem one_cause_one_request_witness:
  "sent_run ''w'' (snd (trace read_step no_store sample_gap)) = 1"
proof -
  have "list_all (names_only ''w'' ''gap'') sample_gap" "RF_invalidate ''w'' ''gap'' \<in> set sample_gap"
    by (simp_all add: sample_gap_def)
  with one_cause_one_request[of "''gap''" "''w''" sample_gap no_store] show ?thesis by (simp add: no_store_def)
qed

section \<open>The ladder\<close>









section \<open>A read in flight when its run is forgotten\<close>

text \<open>
  Forgetting a run does not reach the read it has in flight: the answer makes a cell for the run again,
  which nothing forgets a second time, and a failure arms a ladder for it, where the comments have a
  forgotten run with nothing left to read.
\<close>

theorem forgotten_run_comes_back:
  assumes "map_of (rr_open st) w = Some c" and "\<not> list_ex (\<lambda>f. f w) demands"
  shows "peek_run_state w (forget_run demands w st) = None
    \<and> map_of (rr_retries (forget_run demands w st)) w = None
    \<and> peek_run_state w (fst (settle_run w (Run_inspect raw plan) (forget_run demands w st)))
        = Some (classify_run_state raw)
    \<and> (status = 404 \<or> map_of (rr_retries (fst (settle_run w (Run_failed status) (forget_run demands w st)))) w
        = Some \<lparr>rt_timer = Some (1000, c), rt_attempts = 1\<rparr>)"
proof -
  let ?st = "forget_run demands w st"
  have gone: "map_of (rr_cells ?st) w = None" "map_of (rr_stale ?st) w = None" "map_of (rr_retries ?st) w = None"
    "map_of (rr_open ?st) w = Some c"
    using assms by (simp_all add: forget_run_def map_of_delete_if cancel_run_retry_def)
  then have "peek_run_state w (fst (settle_run w (Run_inspect raw plan) ?st)) = Some (classify_run_state raw)"
    by (simp add: settle_run_def close_read_def land_inspect_def cancel_run_retry_def peek_run_state_def
        map_of_update Let_def)
  moreover have "status \<noteq> 404 \<Longrightarrow> map_of (rr_retries (fst (settle_run w (Run_failed status) ?st))) w
        = Some \<lparr>rt_timer = Some (1000, c), rt_attempts = 1\<rparr>"
    using gone by (simp add: settle_run_def close_read_def land_inspect_def schedule_run_retry_def
        run_retry_limit_def run_retry_base_ms_def run_gone_status_def map_of_update Let_def)
  ultimately show ?thesis using gone by (auto simp: peek_run_state_def)
qed

theorem forgotten_run_comes_back_witness:
  "map_of (rr_retries (fst (settle_run ''w'' (Run_failed 0)
      (forget_run [] ''w'' (fst (fetch_run ''w'' [] no_store)))))) ''w''
     = Some \<lparr>rt_timer = Some (1000, []), rt_attempts = 1\<rparr>"
  using forgotten_run_comes_back[of "fst (fetch_run ''w'' [] no_store)" "''w''" "[]" "[]"
      sample_raw None 0]
  by (simp add: fetch_run_def no_store_def)
end
