(* ===== verification/TabsSync.thy ===== *)
theory TabsSync
  imports Wire
begin

text \<open>
  \<open>tabs-sync.ts\<close>: the sync half of the tab projection. The collection is the server's; this module decides
  which frames reach the projection, in what order, and when to read the set again, and reconciles the
  mutations this device dispatched. The module's variables are \<open>tabs_sync\<close>; the registered target, the
  callbacks a dispatch hands over and the requests are effects, in the order of the calls. A callback that
  calls back into the module during the call is not modelled. What runs after \<open>await relist()\<close> is
  part of the answer's operation: \<open>ts_draining\<close> between two operations means the drain waits for the list, and
  \<open>ts_ticks\<close> are the verify ticks that wait for it.
\<close>

section \<open>The collection on the wire\<close>

record tab_subject =
  tb_id :: string
  tb_kind :: tab_kind
  tb_ref :: string
  tb_parent :: string
  tb_pinned :: bool
  tb_owns :: bool

record tabs_delta =
  td_changed :: "tab_subject option"
  td_op_id :: "string option"
  td_removed :: "string list option"
  td_order :: "string list option"
  td_version :: nat

record tab_list =
  tl_subject :: "subject_stamp option"
  tl_tabs :: "tab_subject list"
  tl_version :: nat

section \<open>Reordering\<close>

text \<open>\<open>remaining\<close> after the ids of \<open>order\<close> are taken out of it, with what was taken.\<close>

fun take_named :: "string list \<Rightarrow> (string \<times> 'a) list \<Rightarrow> 'a list \<times> (string \<times> 'a) list" where
  "take_named [] remaining = ([], remaining)"
| "take_named (i # order) remaining =
     (case map_of remaining i of
        None \<Rightarrow> take_named order remaining
      | Some item \<Rightarrow> (let (out, left) = take_named order (AList.delete i remaining) in (item # out, left)))"

definition permute :: "'a list \<Rightarrow> ('a \<Rightarrow> string) \<Rightarrow> string list \<Rightarrow> 'a list" where
  "permute items id_of order =
     (let remaining = foldl (\<lambda>m item. AList.update (id_of item) item m) [] items;
          (named, left) = take_named order remaining
      in named @ filter (\<lambda>item. map_of left (id_of item) \<noteq> None) items)"

section \<open>Pending operations\<close>

datatype op_state = Awaiting_response | Confirmed_awaiting_frame | Verifying

text \<open>
  The three kinds, with the fields of their own: an adopt's subject once answered; a remove's tab, the ids
  it took out, its verify attempts and the delay of its timer; a reorder's order.
\<close>

datatype op_kind =
    Op_adopt "tab_subject option"
  | Op_remove string "string list" nat "nat option"
  | Op_reorder "string list"

record pending_op =
  po_state :: op_state
  po_seq :: nat
  po_committed :: "nat option"
  po_kind :: op_kind

record tabs_sync =
  ts_version :: nat
  ts_queue :: "tabs_delta list"
  ts_draining :: bool
  ts_list_out :: bool
  ts_ticks :: "(string \<times> nat) list"
  ts_local_ops :: "(string \<times> int) list"
  ts_pending :: "(string \<times> pending_op) list"
  ts_seq :: nat

datatype tabs_effect =
    Reset_tabs "tab_subject list"
  | Apply_tabs tabs_delta bool
  | On_confirm string
  | Rollback string
  | Removes_settled
  | Get_tabs
  | Observe_tabs "subject_stamp option"

type_synonym tabs_outcome = "tabs_sync \<times> tabs_effect list"

definition op_ttl_ms :: int where
  "op_ttl_ms = 60000"

definition verify_backoff_ms :: "nat list" where
  "verify_backoff_ms = [1000, 2000, 4000, 8000, 16000, 30000]"

definition is_remove :: "pending_op \<Rightarrow> bool" where
  "is_remove p = (case po_kind p of Op_remove _ _ _ _ \<Rightarrow> True | _ \<Rightarrow> False)"

section \<open>Operations this device marked\<close>

definition sweep_ops :: "int \<Rightarrow> (string \<times> int) list \<Rightarrow> (string \<times> int) list" where
  "sweep_ops now ops = filter (\<lambda>(i, at_ms). \<not> at_ms < now - op_ttl_ms) ops"

definition mark_local_op :: "int \<Rightarrow> string \<Rightarrow> tabs_sync \<Rightarrow> tabs_sync" where
  "mark_local_op now op_id st = st\<lparr>ts_local_ops := AList.update op_id now (sweep_ops now (ts_local_ops st))\<rparr>"

definition take_local_op :: "string option \<Rightarrow> tabs_sync \<Rightarrow> tabs_sync \<times> bool" where
  "take_local_op op_id st =
     (case op_id of
        None \<Rightarrow> (st, False)
      | Some i \<Rightarrow> (st\<lparr>ts_local_ops := AList.delete i (ts_local_ops st)\<rparr>, map_of (ts_local_ops st) i \<noteq> None))"

section \<open>Settling an operation\<close>

definition removes_pending :: "tabs_sync \<Rightarrow> bool" where
  "removes_pending st = list_ex (\<lambda>(i, p). is_remove p) (ts_pending st)"

definition retire :: "string \<Rightarrow> tabs_sync \<Rightarrow> tabs_sync" where
  "retire op_id st = st\<lparr>ts_pending := AList.delete op_id (ts_pending st)\<rparr>"

definition note_remove_settled :: "tabs_sync \<Rightarrow> tabs_effect list" where
  "note_remove_settled st = (if removes_pending st then [] else [Removes_settled])"

definition confirm_op :: "string \<Rightarrow> pending_op \<Rightarrow> tabs_sync \<Rightarrow> tabs_outcome" where
  "confirm_op op_id p st =
     (let st1 = retire op_id st
      in (st1, if is_remove p then On_confirm op_id # note_remove_settled st1 else []))"

definition fail_op :: "string \<Rightarrow> pending_op \<Rightarrow> tabs_sync \<Rightarrow> tabs_outcome" where
  "fail_op op_id p st =
     (let st1 = retire op_id st
      in (st1, case po_kind p of
                 Op_remove _ _ _ _ \<Rightarrow> Rollback op_id # note_remove_settled st1
               | Op_reorder _ \<Rightarrow> [Rollback op_id]
               | Op_adopt _ \<Rightarrow> []))"

definition put_op :: "string \<Rightarrow> pending_op \<Rightarrow> tabs_sync \<Rightarrow> tabs_sync" where
  "put_op op_id p st = st\<lparr>ts_pending := AList.update op_id p (ts_pending st)\<rparr>"

text \<open>Transition 4: every confirmed operation the watermark covers, in the order of the map.\<close>

fun absorb_ops :: "(string \<times> pending_op) list \<Rightarrow> tabs_sync \<Rightarrow> tabs_outcome" where
  "absorb_ops [] st = (st, [])"
| "absorb_ops ((i, p) # ps) st =
     (if po_state p = Confirmed_awaiting_frame
         \<and> (case po_committed p of None \<Rightarrow> False | Some v \<Rightarrow> v \<le> ts_version st)
      then (let (st1, es) = confirm_op i p st; (st2, fs) = absorb_ops ps st1 in (st2, es @ fs))
      else absorb_ops ps st)"

definition absorb_committed :: "tabs_sync \<Rightarrow> tabs_outcome" where
  "absorb_committed st = absorb_ops (ts_pending st) st"

section \<open>Dispatch and response\<close>

definition begin_op :: "string \<Rightarrow> op_kind \<Rightarrow> tabs_sync \<Rightarrow> tabs_sync" where
  "begin_op op_id k st =
     (let n = ts_seq st + 1
      in put_op op_id \<lparr>po_state = Awaiting_response, po_seq = n, po_committed = None, po_kind = k\<rparr>
           (st\<lparr>ts_seq := n\<rparr>))"

definition begin_adopt :: "string \<Rightarrow> tabs_sync \<Rightarrow> tabs_sync" where
  "begin_adopt op_id st = begin_op op_id (Op_adopt None) st"

definition begin_remove :: "string \<Rightarrow> string \<Rightarrow> string list \<Rightarrow> tabs_sync \<Rightarrow> tabs_sync" where
  "begin_remove op_id tab captured st = begin_op op_id (Op_remove tab captured 0 None) st"

definition begin_reorder :: "string \<Rightarrow> string list \<Rightarrow> tabs_sync \<Rightarrow> tabs_sync" where
  "begin_reorder op_id order st = begin_op op_id (Op_reorder order) st"

text \<open>\<open>settled\<close>: the response itself says that nothing more is coming.\<close>

definition committed :: "string \<Rightarrow> pending_op \<Rightarrow> nat \<Rightarrow> bool \<Rightarrow> tabs_sync \<Rightarrow> tabs_outcome" where
  "committed op_id p version settled st =
     (let p1 = p\<lparr>po_committed := Some version\<rparr>
      in if settled \<or> version \<le> ts_version st then confirm_op op_id p1 st
         else (put_op op_id (p1\<lparr>po_state := Confirmed_awaiting_frame\<rparr>) st, []))"

definition reorder_committed :: "string \<Rightarrow> nat \<Rightarrow> tabs_sync \<Rightarrow> tabs_outcome" where
  "reorder_committed op_id version st =
     (case map_of (ts_pending st) op_id of
        None \<Rightarrow> (st, [])
      | Some p \<Rightarrow> (case po_kind p of Op_reorder _ \<Rightarrow> committed op_id p version False st | _ \<Rightarrow> (st, [])))"

definition adopt_committed :: "string \<Rightarrow> tab_subject \<Rightarrow> nat \<Rightarrow> bool \<Rightarrow> tabs_sync \<Rightarrow> tabs_outcome" where
  "adopt_committed op_id subject version created st =
     (case map_of (ts_pending st) op_id of
        None \<Rightarrow> (st, [])
      | Some p \<Rightarrow>
          (case po_kind p of
             Op_adopt _ \<Rightarrow> committed op_id (p\<lparr>po_kind := Op_adopt (Some subject)\<rparr>) version (\<not> created) st
           | _ \<Rightarrow> (st, [])))"

definition remove_committed :: "string \<Rightarrow> string list \<Rightarrow> nat \<Rightarrow> tabs_sync \<Rightarrow> tabs_outcome" where
  "remove_committed op_id closed_ids version st =
     (case map_of (ts_pending st) op_id of
        None \<Rightarrow> (st, [])
      | Some p \<Rightarrow>
          (case po_kind p of
             Op_remove tab captured attempts _ \<Rightarrow>
               committed op_id (p\<lparr>po_kind := Op_remove tab captured attempts None\<rparr>) version (closed_ids = []) st
           | _ \<Rightarrow> (st, [])))"

definition op_failed :: "string \<Rightarrow> tabs_sync \<Rightarrow> tabs_outcome" where
  "op_failed op_id st =
     (case map_of (ts_pending st) op_id of None \<Rightarrow> (st, []) | Some p \<Rightarrow> fail_op op_id p st)"

section \<open>Verifying\<close>

definition verify_delay :: "nat \<Rightarrow> nat" where
  "verify_delay attempts = verify_backoff_ms ! min attempts (length verify_backoff_ms - 1)"

definition arm_verify :: "string \<Rightarrow> pending_op \<Rightarrow> tabs_sync \<Rightarrow> tabs_sync" where
  "arm_verify op_id p st =
     (case po_kind p of
        Op_remove tab captured attempts _ \<Rightarrow>
          put_op op_id (p\<lparr>po_kind := Op_remove tab captured attempts (Some (verify_delay attempts))\<rparr>) st
      | _ \<Rightarrow> st)"

definition op_timed_out :: "string \<Rightarrow> tabs_sync \<Rightarrow> tabs_sync" where
  "op_timed_out op_id st =
     (case map_of (ts_pending st) op_id of
        None \<Rightarrow> st
      | Some p \<Rightarrow>
          if \<not> is_remove p \<or> po_state p = Verifying then st
          else arm_verify op_id (p\<lparr>po_state := Verifying\<rparr>) st)"

definition relist :: "tabs_sync \<Rightarrow> tabs_outcome" where
  "relist st = (if ts_list_out st then (st, []) else (st\<lparr>ts_list_out := True\<rparr>, [Get_tabs]))"

definition verify_tick :: "string \<Rightarrow> tabs_sync \<Rightarrow> tabs_outcome" where
  "verify_tick op_id st =
     (case map_of (ts_pending st) op_id of
        None \<Rightarrow> (st, [])
      | Some p \<Rightarrow>
          (case po_kind p of
             Op_remove tab captured attempts (Some _) \<Rightarrow>
               relist (put_op op_id (p\<lparr>po_kind := Op_remove tab captured (attempts + 1) None\<rparr>)
                         (st\<lparr>ts_ticks := ts_ticks st @ [(op_id, po_seq p)]\<rparr>))
           | _ \<Rightarrow> (st, [])))"

text \<open>The tick's \<open>finally\<close>: re-arm where the operation is still the same one and still verifying.\<close>

definition rearm_tick :: "tabs_sync \<Rightarrow> string \<times> nat \<Rightarrow> tabs_sync" where
  "rearm_tick st tick =
     (case map_of (ts_pending st) (fst tick) of
        None \<Rightarrow> st
      | Some p \<Rightarrow> if po_seq p = snd tick \<and> po_state p = Verifying then arm_verify (fst tick) p st else st)"

section \<open>Overlays\<close>

definition predates :: "pending_op \<Rightarrow> nat option \<Rightarrow> bool" where
  "predates p version =
     (case (version, po_committed p) of (Some v, Some c) \<Rightarrow> v < c | _ \<Rightarrow> True)"

definition overlay_order :: "string list \<Rightarrow> nat option \<Rightarrow> tabs_sync \<Rightarrow> string list" where
  "overlay_order ids version st =
     foldl (\<lambda>out (i, p). case po_kind p of
               Op_reorder order \<Rightarrow> if predates p version then permute out (\<lambda>i. i) order else out
             | _ \<Rightarrow> out) ids (ts_pending st)"

text \<open>The newest pending remove that captured the tab, and the reopen that overrides it.\<close>

definition captured_by :: "string \<Rightarrow> tabs_sync \<Rightarrow> int" where
  "captured_by tab st =
     foldl (\<lambda>m (i, p). case po_kind p of
               Op_remove _ captured _ _ \<Rightarrow> if tab \<in> set captured then max m (int (po_seq p)) else m
             | _ \<Rightarrow> m) (- 1) (ts_pending st)"

definition reopens :: "tab_subject \<Rightarrow> int \<Rightarrow> pending_op \<Rightarrow> bool" where
  "reopens changed captured p =
     (case po_kind p of
        Op_adopt (Some s) \<Rightarrow>
          captured < int (po_seq p) \<and> tb_kind s = tb_kind changed \<and> tb_ref s = tb_ref changed \<and> tb_id s = tb_id changed
      | _ \<Rightarrow> False)"

definition suppress_changed :: "tab_subject \<Rightarrow> tabs_sync \<Rightarrow> bool" where
  "suppress_changed changed st =
     (let captured = captured_by (tb_id changed) st
      in if captured < 0 then False
         else \<not> list_ex (\<lambda>(i, p). reopens changed captured p) (ts_pending st))"

definition overlay_frame :: "tabs_delta \<Rightarrow> tabs_sync \<Rightarrow> tabs_delta" where
  "overlay_frame d st =
     (let out = (case td_order d of
                   None \<Rightarrow> d
                 | Some order \<Rightarrow> d\<lparr>td_order := Some (overlay_order order (Some (td_version d)) st)\<rparr>)
      in case td_changed out of
           None \<Rightarrow> out
         | Some changed \<Rightarrow> if suppress_changed changed st then out\<lparr>td_changed := None\<rparr> else out)"

definition drop_captured :: "nat \<Rightarrow> tab_subject list \<Rightarrow> pending_op \<Rightarrow> tab_subject list" where
  "drop_captured version out p =
     (case po_kind p of
        Op_remove _ captured _ _ \<Rightarrow>
          if predates p (Some version) then filter (\<lambda>t. tb_id t \<notin> set captured) out else out
      | _ \<Rightarrow> out)"

definition merge_adopted :: "nat \<Rightarrow> tab_subject list \<Rightarrow> pending_op \<Rightarrow> tab_subject list" where
  "merge_adopted version out p =
     (case po_kind p of
        Op_adopt (Some s) \<Rightarrow>
          if predates p (Some version) \<and> \<not> list_ex (\<lambda>t. tb_id t = tb_id s) out then out @ [s] else out
      | _ \<Rightarrow> out)"

definition overlay_list :: "tab_subject list \<Rightarrow> nat \<Rightarrow> tabs_sync \<Rightarrow> tab_subject list" where
  "overlay_list tabs version st =
     (let ops = map snd (ts_pending st);
          out = foldl (merge_adopted version) (foldl (drop_captured version) tabs ops) ops
      in permute out tb_id (overlay_order (map tb_id out) (Some version) st))"

section \<open>Frames\<close>

definition frame_is_local :: "string option \<Rightarrow> tabs_sync \<Rightarrow> tabs_sync \<times> bool" where
  "frame_is_local op_id st =
     (let (st1, marked) = take_local_op op_id st
      in (st1, marked \<or> (case op_id of None \<Rightarrow> False | Some i \<Rightarrow> map_of (ts_pending st1) i \<noteq> None)))"

definition settle_frame :: "string option \<Rightarrow> tabs_sync \<Rightarrow> tabs_outcome" where
  "settle_frame op_id st =
     (let (st1, es) = (case op_id of
                         None \<Rightarrow> (st, [])
                       | Some i \<Rightarrow> (case map_of (ts_pending st) i of None \<Rightarrow> (st, []) | Some p \<Rightarrow> confirm_op i p st));
          (st2, fs) = absorb_committed st1
      in (st2, es @ fs))"

definition apply_frame :: "tabs_delta \<Rightarrow> tabs_sync \<Rightarrow> tabs_outcome" where
  "apply_frame d st =
     (let (st1, is_local) = frame_is_local (td_op_id d) st;
          st2 = st1\<lparr>ts_version := td_version d\<rparr>;
          (st3, es) = settle_frame (td_op_id d) st2
      in (st3, Apply_tabs (overlay_frame d st2) is_local # es))"

text \<open>The loop over the queue: it stops at a gap with the frames behind it still queued.\<close>

fun drain_queue :: "tabs_delta list \<Rightarrow> tabs_sync \<Rightarrow> tabs_outcome" where
  "drain_queue [] st = (st\<lparr>ts_queue := [], ts_draining := False\<rparr>, [])"
| "drain_queue (d # ds) st =
     (if td_version d \<le> ts_version st then drain_queue ds st
      else if ts_version st + 1 < td_version d then relist (st\<lparr>ts_queue := ds, ts_draining := True\<rparr>)
      else (let (st1, es) = apply_frame d st; (st2, fs) = drain_queue ds st1 in (st2, es @ fs)))"

definition ingest_tabs_changed :: "tabs_delta \<Rightarrow> tabs_sync \<Rightarrow> tabs_outcome" where
  "ingest_tabs_changed d st =
     (let st1 = st\<lparr>ts_queue := ts_queue st @ [d]\<rparr>
      in if ts_draining st1 then (st1, []) else drain_queue (ts_queue st1) st1)"

section \<open>The list\<close>

definition list_tabs :: "tabs_sync \<Rightarrow> tabs_outcome" where
  "list_tabs st = relist st"

definition verifying_removes :: "tabs_sync \<Rightarrow> (string \<times> string) list" where
  "verifying_removes st =
     concat (map (\<lambda>(i, p). case po_kind p of
                             Op_remove tab _ _ _ \<Rightarrow> if po_state p = Verifying then [(i, tab)] else []
                           | _ \<Rightarrow> []) (ts_pending st))"

definition read_list :: "tab_list option \<Rightarrow> tabs_sync \<Rightarrow> tabs_outcome" where
  "read_list ans st =
     (case ans of
        None \<Rightarrow> (st, [])
      | Some l \<Rightarrow>
          if tl_version l < ts_version st then (st, [])
          else
            let settled = verifying_removes st;
                present = (\<lambda>(i, tab). list_ex (\<lambda>t. tb_id t = tab) (tl_tabs l));
                st1 = foldl (\<lambda>st (i, tab). retire i st) (st\<lparr>ts_version := tl_version l\<rparr>) settled;
                confirms = filter (\<lambda>s. \<not> present s) settled;
                rollbacks = filter present settled;
                (st2, es) = absorb_committed st1
            in (st2, Reset_tabs (overlay_list (tl_tabs l) (tl_version l) st1)
                     # map (On_confirm \<circ> fst) confirms @ map (Rollback \<circ> fst) rollbacks
                     @ (if settled \<noteq> [] then note_remove_settled st1 else [])
                     @ es @ [Observe_tabs (tl_subject l)]))"

text \<open>The answer of the list in flight: it is adopted or not, the ticks re-arm, and a waiting drain goes on.\<close>

definition settle_list :: "tab_list option \<Rightarrow> tabs_sync \<Rightarrow> tabs_outcome" where
  "settle_list ans st =
     (if \<not> ts_list_out st then (st, [])
      else
        let (st1, es) = read_list ans st;
            st2 = foldl rearm_tick (st1\<lparr>ts_list_out := False, ts_ticks := []\<rparr>) (ts_ticks st1);
            (st3, fs) = (if ts_draining st2 then drain_queue (ts_queue st2) st2 else (st2, []))
        in (st3, es @ fs))"
end
