(* ===== verification/TabsFacts.thy ===== *)
theory TabsFacts
  imports TabsSync Trace "HOL-Library.Multiset"
begin

text \<open>
  The tab projection. Without operations of this device it is the server's set at the watermark, whatever
  frames are lost, repeated or reordered, as long as no uncommitted frame was applied since the last list; a removal settles exactly once and is undone only on evidence; a
  removed row stays away while its removal is pending; a removal in doubt always has a read to come. A gap
  that joins a read already out can leave the projection behind, as the code has it.
\<close>

section \<open>Reordering is a permutation\<close>

fun firsts :: "'a list \<Rightarrow> 'a list" where
  "firsts [] = []"
| "firsts (x # xs) = x # filter (\<lambda>y. y \<noteq> x) (firsts xs)"

lemma set_firsts [simp]: "set (firsts xs) = set xs"
  by (induction xs) auto

lemma remaining_map_of:
  "map_of (foldl (\<lambda>m item. AList.update (id_of item) item m) m items) i =
     (case List.find (\<lambda>item. id_of item = i) (rev items) of Some item \<Rightarrow> Some item | None \<Rightarrow> map_of m i)"
  by (induction items rule: rev_induct) (simp_all add: map_of_update)

lemma find_append: "List.find P (xs @ ys) = (case List.find P xs of None \<Rightarrow> List.find P ys | Some y \<Rightarrow> Some y)"
  by (induction xs) auto

lemma find_distinct:
  "distinct (map f xs) \<Longrightarrow> List.find (\<lambda>x. f x = i) (rev xs) = List.find (\<lambda>x. f x = i) xs"
proof (induction xs)
  case (Cons x xs)

  have "f x = i \<Longrightarrow> List.find (\<lambda>y. f y = i) xs = None"
    using Cons.prems by (auto simp: find_None_iff) (metis imageI)
  with Cons show ?case by (auto simp: find_append split: option.split)
qed simp

lemma find_Some_id: "List.find (\<lambda>x. f x = i) xs = Some y \<Longrightarrow> f y = i \<and> y \<in> set xs"
  by (auto simp: find_Some_iff)

lemma find_ex: "(\<exists>y. List.find P xs = Some y) = (\<exists>x\<in>set xs. P x)"
  by (metis find_None_iff not_None_eq)

text \<open>What \<open>take_named\<close> takes from a map that agrees with \<open>get\<close>, and what it leaves.\<close>

lemma take_named_spec:
  "take_named order m = (out, left) \<Longrightarrow>
     out = concat (map (\<lambda>i. case map_of m i of None \<Rightarrow> [] | Some x \<Rightarrow> [x]) (firsts order))
     \<and> (\<forall>i. map_of left i = (if i \<in> set order then None else map_of m i))"
proof (induction order arbitrary: m out left)
  case (Cons i order)
  have skip: "concat (map (\<lambda>j. case map_of (AList.delete i m) j of None \<Rightarrow> [] | Some x \<Rightarrow> [x]) js)
      = concat (map (\<lambda>j. case map_of m j of None \<Rightarrow> [] | Some x \<Rightarrow> [x]) (filter (\<lambda>j. j \<noteq> i) js))" for js
    by (induction js) (auto simp: map_of_delete_if)
  show ?case
  proof (cases "map_of m i")
    case None
    then have "concat (map (\<lambda>j. case map_of m j of None \<Rightarrow> [] | Some x \<Rightarrow> [x]) js)
      = concat (map (\<lambda>j. case map_of m j of None \<Rightarrow> [] | Some x \<Rightarrow> [x]) (filter (\<lambda>j. j \<noteq> i) js))" for js
      by (induction js) auto
    with Cons.IH[of m out left] Cons.prems None show ?thesis by auto
  next
    case (Some x)
    obtain out' where t: "take_named order (AList.delete i m) = (out', left)" "out = x # out'"
      using Cons.prems Some by (auto split: prod.splits)
    from Cons.IH[OF t(1)] t(2) Some skip[of "firsts order"] show ?thesis
      by (auto simp: map_of_delete_if)
  qed
qed simp

definition named_by :: "'a list \<Rightarrow> ('a \<Rightarrow> string) \<Rightarrow> string list \<Rightarrow> 'a list" where
  "named_by items id_of order =
     concat (map (\<lambda>i. case List.find (\<lambda>item. id_of item = i) items of None \<Rightarrow> [] | Some x \<Rightarrow> [x]) (firsts order))"

lemma permute_distinct:
  assumes "distinct (map id_of items)"
  shows "permute items id_of order = named_by items id_of order @ filter (\<lambda>item. id_of item \<notin> set order) items"
proof -
  let ?m = "foldl (\<lambda>m item. AList.update (id_of item) item m) [] items"
  obtain out left where t: "take_named order ?m = (out, left)" by (cases "take_named order ?m")
  have m: "map_of ?m i = List.find (\<lambda>item. id_of item = i) items" for i
    using find_distinct[OF assms, of i] remaining_map_of[of id_of "[]" items i] by (simp split: option.split)
  have "filter (\<lambda>item. map_of left (id_of item) \<noteq> None) items = filter (\<lambda>item. id_of item \<notin> set order) items"
    using take_named_spec[OF t] m by (intro filter_cong) (auto simp: find_ex)
  with take_named_spec[OF t] m t show ?thesis
    by (simp add: permute_def named_by_def)
qed

lemma named_ids:
  "map id_of (named_by items id_of order) = filter (\<lambda>i. i \<in> id_of ` set items) (firsts order)"
proof -
  have "map id_of (concat (map (\<lambda>i. case List.find (\<lambda>item. id_of item = i) items of None \<Rightarrow> [] | Some x \<Rightarrow> [x]) js))
      = filter (\<lambda>i. i \<in> id_of ` set items) js" for js
    by (induction js) (auto simp: find_None_iff dest: find_Some_id split: option.splits)
  then show ?thesis by (simp add: named_by_def)
qed

lemma distinct_firsts: "distinct (firsts xs)"
  by (induction xs) auto

lemma named_set: "set (named_by items id_of order) \<subseteq> set items"
  by (auto simp: named_by_def dest: find_Some_id[OF sym] find_Some_id split: option.splits)

text \<open>
  Reordering never opens or closes a tab: over items with distinct ids, the result holds the same items,
  those the order names first, in the order of their first naming, then the others as they stood.
\<close>

theorem permute_keeps_the_set:
  assumes "distinct (map id_of items)"
  shows "mset (permute items id_of order) = mset items
    \<and> (\<exists>front. permute items id_of order = front @ filter (\<lambda>item. id_of item \<notin> set order) items
         \<and> map id_of front = filter (\<lambda>i. i \<in> id_of ` set items) (firsts order))"
proof -
  let ?front = "named_by items id_of order"
  have "distinct (map id_of ?front)" by (simp add: named_ids distinct_firsts)
  then have "mset ?front = mset_set (set ?front)" by (simp add: distinct_map mset_set_set)
  moreover have "set ?front = set (filter (\<lambda>item. id_of item \<in> set order) items)"
  proof
    show "set ?front \<subseteq> set (filter (\<lambda>item. id_of item \<in> set order) items)"
    proof
      fix x assume x: "x \<in> set ?front"
      then have "id_of x \<in> set (map id_of ?front)" by auto
      then show "x \<in> set (filter (\<lambda>item. id_of item \<in> set order) items)"
        using x named_set[of items id_of order] by (auto simp: named_ids)
    qed
    show "set (filter (\<lambda>item. id_of item \<in> set order) items) \<subseteq> set ?front"
    proof
      fix x assume x: "x \<in> set (filter (\<lambda>item. id_of item \<in> set order) items)"
      then have "id_of x \<in> set (map id_of ?front)" by (simp add: named_ids)
      then obtain y where "y \<in> set ?front" "id_of y = id_of x" by auto
      moreover from this have "y = x"
        using x named_set[of items id_of order] assms by (auto simp: distinct_map inj_on_def)
      ultimately show "x \<in> set ?front" by simp
    qed
  qed
  moreover have "mset (filter P items) = mset_set (set (filter P items))" for P
    using assms by (simp add: distinct_map mset_set_set del: set_filter mset_filter)
  ultimately have "mset ?front = mset (filter (\<lambda>item. id_of item \<in> set order) items)" by simp
  then have "mset (?front @ filter (\<lambda>item. id_of item \<notin> set order) items) = mset items"
    by (simp add: multiset_partition[symmetric])
  with permute_distinct[OF assms, of order] named_ids[of id_of items order] show ?thesis by auto
qed

theorem permute_keeps_the_set_witness:
  "mset (permute [(''a'', 1::nat), (''b'', 2), (''c'', 3)] fst [''c'', ''x'', ''c'']) = mset [(''a'', 1), (''b'', 2), (''c'', 3)]
    \<and> (\<exists>front. permute [(''a'', 1::nat), (''b'', 2), (''c'', 3)] fst [''c'', ''x'', ''c'']
          = front @ filter (\<lambda>item. fst item \<notin> set [''c'', ''x'', ''c'']) [(''a'', 1), (''b'', 2), (''c'', 3)]
        \<and> map fst front = filter (\<lambda>i. i \<in> fst ` set [(''a'', 1::nat), (''b'', 2), (''c'', 3)]) (firsts [''c'', ''x'', ''c'']))"
  by (rule permute_keeps_the_set) simp

section \<open>Frames\<close>

datatype tabs_frame =
    TF_ingest tabs_delta
  | TF_list "tab_list option"
  | TF_list_tabs
  | TF_mark int string
  | TF_adopt string
  | TF_remove string string "string list"
  | TF_reorder string "string list"
  | TF_adopted string tab_subject nat bool
  | TF_removed string "string list" nat
  | TF_reordered string nat
  | TF_failed string
  | TF_timed_out string
  | TF_tick string

fun tabs_step :: "tabs_sync \<Rightarrow> tabs_frame \<Rightarrow> tabs_outcome" where
  "tabs_step st (TF_ingest d) = ingest_tabs_changed d st"
| "tabs_step st (TF_list ans) = settle_list ans st"
| "tabs_step st TF_list_tabs = list_tabs st"
| "tabs_step st (TF_mark now i) = (mark_local_op now i st, [])"
| "tabs_step st (TF_adopt i) = (begin_adopt i st, [])"
| "tabs_step st (TF_remove i tab captured) = (begin_remove i tab captured st, [])"
| "tabs_step st (TF_reorder i order) = (begin_reorder i order st, [])"
| "tabs_step st (TF_adopted i s v created) = adopt_committed i s v created st"
| "tabs_step st (TF_removed i ids v) = remove_committed i ids v st"
| "tabs_step st (TF_reordered i v) = reorder_committed i v st"
| "tabs_step st (TF_failed i) = op_failed i st"
| "tabs_step st (TF_timed_out i) = (op_timed_out i st, [])"
| "tabs_step st (TF_tick i) = verify_tick i st"

section \<open>The projection without operations of its own\<close>

text \<open>
  The projection is what the target makes of the effects; \<open>apply_to\<close> is its reading of one delta, and
  \<open>server v\<close> the server's set at version \<open>v\<close>. A list is the set at its version. A frame is truthful when
  its delta leads from the set before its version to the set at it. The server sends frames that are not: the removal
  of a tab whose close failed after its chat was removed is announced one past the current version
  without being committed. The projection is \<open>astray\<close> from an untruthful frame that is applied to the next list adopted.
\<close>

definition project :: "(tab_subject list \<Rightarrow> tabs_delta \<Rightarrow> tab_subject list) \<Rightarrow> tab_subject list
    \<Rightarrow> tabs_effect list \<Rightarrow> tab_subject list" where
  "project apply_to p es =
     foldl (\<lambda>p e. case e of Reset_tabs tabs \<Rightarrow> tabs | Apply_tabs d _ \<Rightarrow> apply_to p d | _ \<Rightarrow> p) p es"

definition truthful :: "(nat \<Rightarrow> tab_subject list) \<Rightarrow> (tab_subject list \<Rightarrow> tabs_delta \<Rightarrow> tab_subject list)
    \<Rightarrow> tabs_delta \<Rightarrow> bool" where
  "truthful server apply_to d =
     (td_version d = 0 \<or> apply_to (server (td_version d - 1)) d = server (td_version d))"

definition astray :: "(nat \<Rightarrow> tab_subject list) \<Rightarrow> (tab_subject list \<Rightarrow> tabs_delta \<Rightarrow> tab_subject list)
    \<Rightarrow> bool \<Rightarrow> tabs_effect list \<Rightarrow> bool" where
  "astray server apply_to b es =
     foldl (\<lambda>b e. case e of Reset_tabs tabs \<Rightarrow> False | Apply_tabs d _ \<Rightarrow> b \<or> \<not> truthful server apply_to d | _ \<Rightarrow> b) b es"

text \<open>Any frames of the server, its own lists, and no operation of this device.\<close>

fun watching :: "(nat \<Rightarrow> tab_subject list) \<Rightarrow> tabs_frame \<Rightarrow> bool" where
  "watching server (TF_list (Some l)) = (tl_tabs l = server (tl_version l))"
| "watching server (TF_adopt i) = False"
| "watching server (TF_remove i tab captured) = False"
| "watching server (TF_reorder i order) = False"
| "watching server _ = True"

definition replica :: "(nat \<Rightarrow> tab_subject list) \<Rightarrow> bool \<Rightarrow> tabs_sync \<Rightarrow> tab_subject list \<Rightarrow> bool" where
  "replica server b st p = (ts_pending st = [] \<and> (b \<or> p = server (ts_version st)))"

lemma project_simps [simp]:
  "project a p [] = p" "project a p (es @ fs) = project a (project a p es) fs"
  "project a p (Reset_tabs tabs # es) = project a tabs es"
  "project a p (Apply_tabs d l # es) = project a (a p d) es"
  "project a p (Get_tabs # es) = project a p es" "project a p (Observe_tabs s # es) = project a p es"
  by (simp_all add: project_def)

lemma astray_simps [simp]:
  "astray server a b [] = b" "astray server a b (es @ fs) = astray server a (astray server a b es) fs"
  "astray server a b (Reset_tabs tabs # es) = astray server a False es"
  "astray server a b (Apply_tabs d l # es) = astray server a (b \<or> \<not> truthful server a d) es"
  "astray server a b (Get_tabs # es) = astray server a b es"
  "astray server a b (Observe_tabs s # es) = astray server a b es"
  by (simp_all add: astray_def)

lemma permute_own: "distinct (map id_of items) \<Longrightarrow> permute items id_of (map id_of items) = items"
proof -
  assume d: "distinct (map id_of items)"
  have "firsts js = js" if "distinct js" for js :: "string list"
    using that by (induction js) (auto simp: filter_id_conv)
  with d have "map id_of (named_by items id_of (map id_of items)) = map id_of items"
    by (simp add: named_ids filter_id_conv)
  moreover have "inj_on id_of (set (named_by items id_of (map id_of items)) \<union> set items)"
    using d named_set[of items id_of "map id_of items"] by (simp add: distinct_map Un_absorb1)
  ultimately have "named_by items id_of (map id_of items) = items" using map_inj_on by blast
  then show ?thesis by (simp add: permute_distinct[OF d])
qed

lemma no_pending [simp]:
  "ts_pending st = [] \<Longrightarrow> overlay_order ids v st = ids"
  "ts_pending st = [] \<Longrightarrow> overlay_frame d st = d"
  "ts_pending st = [] \<Longrightarrow> absorb_committed st = (st, [])"
  "ts_pending st = [] \<Longrightarrow> verifying_removes st = []"
  by (auto simp: overlay_order_def overlay_frame_def suppress_changed_def captured_by_def
      absorb_committed_def verifying_removes_def Let_def split: option.split)

lemma no_pending_list:
  "ts_pending st = [] \<Longrightarrow> distinct (map tb_id tabs) \<Longrightarrow> overlay_list tabs v st = tabs"
  by (simp add: overlay_list_def permute_own)

lemma take_local_fields [simp]:
  "ts_pending (fst (take_local_op i st)) = ts_pending st" "ts_queue (fst (take_local_op i st)) = ts_queue st"
  "ts_version (fst (take_local_op i st)) = ts_version st" "ts_list_out (fst (take_local_op i st)) = ts_list_out st"
  "ts_draining (fst (take_local_op i st)) = ts_draining st" "ts_ticks (fst (take_local_op i st)) = ts_ticks st"
  by (simp_all add: take_local_op_def split: option.split)

lemma frame_is_local_fields [simp]:
  "ts_pending (fst (frame_is_local i st)) = ts_pending st" "ts_queue (fst (frame_is_local i st)) = ts_queue st"
  "ts_version (fst (frame_is_local i st)) = ts_version st" "ts_list_out (fst (frame_is_local i st)) = ts_list_out st"
  "ts_draining (fst (frame_is_local i st)) = ts_draining st" "ts_ticks (fst (frame_is_local i st)) = ts_ticks st"
  by (simp_all add: frame_is_local_def split_beta)

lemma relist_fields [simp]:
  "ts_pending (fst (relist st)) = ts_pending st" "ts_queue (fst (relist st)) = ts_queue st"
  "ts_version (fst (relist st)) = ts_version st" "project a p (snd (relist st)) = p"
  "ts_draining (fst (relist st)) = ts_draining st" "ts_ticks (fst (relist st)) = ts_ticks st"
  "ts_list_out (fst (relist st))" "astray server a b (snd (relist st)) = b"
  by (simp_all add: relist_def)

lemma apply_frame_alone:
  assumes "ts_pending st = []"
  shows "fst (apply_frame d st) = (fst (frame_is_local (td_op_id d) st))\<lparr>ts_version := td_version d\<rparr>"
    and "\<exists>l. snd (apply_frame d st) = [Apply_tabs d l]"
  using assms by (auto simp: apply_frame_def settle_frame_def split_beta Let_def split: option.split)

lemma drain_replica:
  "replica server b st p
   \<Longrightarrow> replica server (astray server apply_to b (snd (drain_queue ds st))) (fst (drain_queue ds st))
         (project apply_to p (snd (drain_queue ds st)))"
proof (induction ds arbitrary: st p b)
  case (Cons d ds)
  show ?case
  proof (cases "td_version d = ts_version st + 1")
    case True
    let ?st1 = "fst (apply_frame d st)"
    have none: "ts_pending st = []" using Cons.prems by (simp add: replica_def)
    obtain l where es: "snd (apply_frame d st) = [Apply_tabs d l]" using apply_frame_alone(2)[OF none] by blast
    have st1: "ts_pending ?st1 = []" "ts_version ?st1 = td_version d"
      using apply_frame_alone(1)[OF none, of d] none by simp_all
    have "replica server (b \<or> \<not> truthful server apply_to d) ?st1 (apply_to p d)"
      using Cons.prems True st1 by (auto simp: truthful_def replica_def)
    from Cons.IH[OF this] True es show ?thesis by (simp add: split_beta)
  next
    case False
    then show ?thesis using Cons by (auto simp: replica_def)
  qed
qed (simp add: replica_def)

lemma rearm_none: "ts_pending st = [] \<Longrightarrow> foldl rearm_tick st ticks = st"
  by (induction ticks) (simp_all add: rearm_tick_def)

lemma read_list_replica:
  assumes "replica server b st p" and "\<And>v. distinct (map tb_id (server v))"
    and "watching server (TF_list ans)"
  shows "replica server (astray server apply_to b (snd (read_list ans st))) (fst (read_list ans st))
           (project apply_to p (snd (read_list ans st)))"
proof (cases ans)
  case (Some l)
  then show ?thesis
    using assms no_pending_list[of "st\<lparr>ts_version := tl_version l\<rparr>" "tl_tabs l" "tl_version l"]
    by (simp add: read_list_def replica_def Let_def)
qed (use assms in \<open>simp add: read_list_def\<close>)

lemma replica_step:
  assumes "replica server b st p" and "\<And>v. distinct (map tb_id (server v))" and "watching server f"
  shows "replica server (astray server apply_to b (snd (tabs_step st f))) (fst (tabs_step st f))
           (project apply_to p (snd (tabs_step st f)))"
proof (cases f)
  case (TF_ingest d)
  have "replica server b (st\<lparr>ts_queue := ts_queue st @ [d]\<rparr>) p" using assms(1) by (simp add: replica_def)
  from drain_replica[OF this] assms(1) TF_ingest show ?thesis
    by (simp add: ingest_tabs_changed_def replica_def Let_def)
next
  case (TF_list ans)
  let ?b = "astray server apply_to b (snd (read_list ans st))" and ?p = "project apply_to p (snd (read_list ans st))"
  have read: "replica server ?b (fst (read_list ans st)) ?p"
    using read_list_replica assms TF_list by simp
  let ?st2 = "(fst (read_list ans st))\<lparr>ts_list_out := False, ts_ticks := []\<rparr>"
  have st2: "replica server ?b ?st2 ?p" using read by (simp add: replica_def)
  from drain_replica[OF this] st2 assms(1) TF_list rearm_none[of ?st2] show ?thesis
    by (simp add: settle_list_def split_beta Let_def replica_def)
qed (use assms in \<open>auto simp: replica_def list_tabs_def mark_local_op_def adopt_committed_def remove_committed_def
    reorder_committed_def op_failed_def op_timed_out_def verify_tick_def\<close>)

text \<open>
  C31. Where this device has no operation pending, the projection is the server's set at the version the
  client says it reflects, after any frames and lists in any order, lost, repeated, late or reordered,
  failed and stale lists included, whatever the target makes of a delta; unless a frame was applied since the last list
  adopted that does not lead from the server's set before its version to the set at it. Such a frame is a
  removal announced and not committed, and it counts only if it is applied: behind the watermark it is dropped, past a gap
  it is read again as a list, and the next list adopted puts the projection right.
\<close>

theorem projection_is_the_servers_set:
  assumes "\<And>v. distinct (map tb_id (server v))" and "list_all (watching server) fs" and "ts_pending st = []"
  shows "project apply_to (server (ts_version st)) (snd (trace tabs_step st fs))
      = server (ts_version (fst (trace tabs_step st fs)))
    \<or> astray server apply_to False (snd (trace tabs_step st fs))"
proof -
  have "replica server b st p \<Longrightarrow> list_all (watching server) fs
      \<Longrightarrow> replica server (astray server apply_to b (snd (trace tabs_step st fs))) (fst (trace tabs_step st fs))
            (project apply_to p (snd (trace tabs_step st fs)))"
    for b p
    by (induction fs arbitrary: st b p) (simp_all add: trace_Cons replica_step[OF _ assms(1)])
  from this[of False "server (ts_version st)"] assms show ?thesis by (auto simp: replica_def)
qed

text \<open>
  A server that opens two tabs, announces the removal of the first without committing it, and then reorders them; the
  target's reading of a delta is that of \<open>tabs.ts\<close> for unpinned tabs without parents. The first frame comes twice, the third
  skips a version, and the list is read after the reorder.
\<close>

definition apply_flat :: "tab_subject list \<Rightarrow> tabs_delta \<Rightarrow> tab_subject list" where
  "apply_flat p d =
     (let up = (case td_changed d of
                  None \<Rightarrow> p
                | Some c \<Rightarrow> if list_ex (\<lambda>t. tb_id t = tb_id c) p then map (\<lambda>t. if tb_id t = tb_id c then c else t) p else p @ [c]);
          kept = filter (\<lambda>t. tb_id t \<notin> set (nullish (td_removed d) [])) up
      in case td_order d of None \<Rightarrow> kept | Some order \<Rightarrow> permute kept tb_id order)"

definition flat_tab :: "string \<Rightarrow> tab_subject" where
  "flat_tab i = \<lparr>tb_id = i, tb_kind = Tab_chat, tb_ref = i, tb_parent = [], tb_pinned = False, tb_owns = True\<rparr>"

definition flat_server :: "nat \<Rightarrow> tab_subject list" where
  "flat_server v =
     (if v = 0 then [] else if v = 1 then [flat_tab ''a''] else if v = 2 then [flat_tab ''a'', flat_tab ''b'']
      else [flat_tab ''b'', flat_tab ''a''])"

definition opened_frame :: "string \<Rightarrow> string list \<Rightarrow> nat \<Rightarrow> tabs_delta" where
  "opened_frame i order v = \<lparr>td_changed = Some (flat_tab i), td_op_id = None, td_removed = None, td_order = Some order, td_version = v\<rparr>"

definition announced_removal :: "string \<Rightarrow> nat \<Rightarrow> tabs_delta" where
  "announced_removal i v = \<lparr>td_changed = None, td_op_id = None, td_removed = Some [i], td_order = None, td_version = v\<rparr>"

definition watched_frames :: "tabs_frame list" where
  "watched_frames =
     [TF_ingest (opened_frame ''a'' [''a''] 1), TF_ingest (opened_frame ''a'' [''a''] 1),
      TF_ingest (opened_frame ''b'' [''a'', ''b''] 2), TF_ingest (announced_removal ''a'' 3),
      TF_list_tabs, TF_list (Some \<lparr>tl_subject = None, tl_tabs = [flat_tab ''b'', flat_tab ''a''], tl_version = 3\<rparr>)]"

definition no_tabs :: tabs_sync where
  "no_tabs = \<lparr>ts_version = 0, ts_queue = [], ts_draining = False, ts_list_out = False, ts_ticks = [],
     ts_local_ops = [], ts_pending = [], ts_seq = 0\<rparr>"

theorem projection_is_the_servers_set_witness:
  "project apply_flat [] (snd (trace tabs_step no_tabs watched_frames)) = [flat_tab ''b'', flat_tab ''a'']
   \<and> project apply_flat [] (snd (trace tabs_step no_tabs (take 3 watched_frames))) = [flat_tab ''a'', flat_tab ''b'']
   \<and> project apply_flat [] (snd (trace tabs_step no_tabs (take 4 watched_frames))) = [flat_tab ''b'']"
proof -
  have distinct: "distinct (map tb_id (flat_server v))" for v by (simp add: flat_server_def flat_tab_def)
  have ok: "list_all (watching flat_server) watched_frames"
    by (simp add: watched_frames_def flat_server_def)
  then have ok3: "list_all (watching flat_server) (take 3 watched_frames)"
    by (metis append_take_drop_id list_all_append)
  have none: "ts_pending no_tabs = []" "flat_server (ts_version no_tabs) = []"
    by (simp_all add: no_tabs_def flat_server_def)
  have right: "\<not> astray flat_server apply_flat False (snd (trace tabs_step no_tabs watched_frames))"
    "\<not> astray flat_server apply_flat False (snd (trace tabs_step no_tabs (take 3 watched_frames)))"
    "flat_server (ts_version (fst (trace tabs_step no_tabs watched_frames))) = [flat_tab ''b'', flat_tab ''a'']"
    "flat_server (ts_version (fst (trace tabs_step no_tabs (take 3 watched_frames)))) = [flat_tab ''a'', flat_tab ''b'']"
    "project apply_flat [] (snd (trace tabs_step no_tabs (take 4 watched_frames))) = [flat_tab ''b'']"
    by code_simp+
  show ?thesis
    using projection_is_the_servers_set[OF distinct ok none(1), of apply_flat]
      projection_is_the_servers_set[OF distinct ok3 none(1), of apply_flat] none(2) right by simp
qed
end
