(* ===== verification/TabsOpFacts.thy ===== *)
theory TabsOpFacts
  imports TabsFacts
begin

text \<open>
  The operations this device dispatched: each removal settles once, by its confirmation or its rollback; a
  rollback needs an answer that says the row is there; a removal in doubt has a read to come.
\<close>

section \<open>Settling once\<close>

definition settled_count :: "string \<Rightarrow> tabs_effect list \<Rightarrow> nat" where
  "settled_count i es = length (filter (\<lambda>e. e = On_confirm i \<or> e = Rollback i) es)"

definition live_remove :: "string \<Rightarrow> tabs_sync \<Rightarrow> nat" where
  "live_remove i st = (if map_of (ts_pending st) i = None then 0 else 1)"

text \<open>Operations have distinct keys, and the one followed is a removal while it is pending.\<close>

definition tracked :: "string \<Rightarrow> tabs_sync \<Rightarrow> bool" where
  "tracked i st =
     (distinct (map fst (ts_pending st)) \<and> (\<forall>p. map_of (ts_pending st) i = Some p \<longrightarrow> is_remove p))"

definition settles_once :: "string \<Rightarrow> tabs_sync \<Rightarrow> tabs_outcome \<Rightarrow> bool" where
  "settles_once i st out =
     (tracked i st \<longrightarrow> tracked i (fst out) \<and> settled_count i (snd out) + live_remove i (fst out) = live_remove i st)"

lemma settled_count_simps [simp]:
  "settled_count i [] = 0" "settled_count i (es @ fs) = settled_count i es + settled_count i fs"
  "settled_count i (e # es) = (if e = On_confirm i \<or> e = Rollback i then 1 else 0) + settled_count i es"
  "settled_count i (note_remove_settled st) = 0" "settled_count i (snd (relist st)) = 0"
  by (simp_all add: settled_count_def note_remove_settled_def relist_def)

lemma settles_then:
  "settles_once i st (st1, es) \<Longrightarrow> settles_once i st1 (st2, fs) \<Longrightarrow> settles_once i st (st2, es @ fs)"
  by (auto simp: settles_once_def)

lemma settles_still:
  "ts_pending st' = ts_pending st \<Longrightarrow> settled_count i es = 0 \<Longrightarrow> settles_once i st (st', es)"
  by (simp add: settles_once_def tracked_def live_remove_def)

lemma settles_same:
  "ts_pending st' = ts_pending st \<Longrightarrow> settles_once i st' out \<Longrightarrow> settles_once i st out"
  by (simp only: settles_once_def tracked_def live_remove_def)

lemma settles_confirm:
  assumes "map_of (ts_pending st) j = Some q" and "is_remove p = is_remove q"
  shows "settles_once i st (confirm_op j p st)"
  using assms by (auto simp: settles_once_def tracked_def live_remove_def confirm_op_def retire_def
      map_of_delete_if distinct_delete Let_def)

lemma settles_fail:
  assumes "map_of (ts_pending st) j = Some p"
  shows "settles_once i st (fail_op j p st)"
  using assms by (auto simp: settles_once_def tracked_def live_remove_def fail_op_def retire_def is_remove_def
      map_of_delete_if distinct_delete Let_def split: op_kind.splits)

lemma settles_put:
  assumes "map_of (ts_pending st) j = Some q" and "is_remove p = is_remove q"
  shows "settles_once i st (put_op j p st, [])"
  using assms by (auto simp: settles_once_def tracked_def live_remove_def put_op_def map_of_update distinct_update)

lemma settles_absorb_ops:
  "distinct (map fst ps) \<Longrightarrow> \<forall>(j, p)\<in>set ps. map_of (ts_pending st) j = Some p
   \<Longrightarrow> settles_once i st (absorb_ops ps st)"
proof (induction ps arbitrary: st)
  case (Cons a ps)
  obtain j p where a: "a = (j, p)" by (cases a)
  obtain st1 es where c: "confirm_op j p st = (st1, es)" by (cases "confirm_op j p st")
  obtain st2 fs where r: "absorb_ops ps st1 = (st2, fs)" by (cases "absorb_ops ps st1")
  have "settles_once i st (st1, es)"
    using settles_confirm[of st j p p i] Cons.prems(2) a c by simp
  moreover have "\<forall>(k, q)\<in>set ps. map_of (ts_pending st1) k = Some q"
    using Cons.prems a c by (auto simp: confirm_op_def retire_def map_of_delete_if Let_def rev_image_eqI)
  then have "settles_once i st1 (st2, fs)" using Cons.IH[of st1] Cons.prems(1) r by simp
  ultimately show ?case
    using Cons a c r settles_then[of i st st1 es st2 fs] by simp
qed (simp add: settles_once_def)

lemma settles_absorb: "settles_once i st (absorb_committed st)"
proof (cases "tracked i st")
  case True
  then show ?thesis
    unfolding absorb_committed_def by (intro settles_absorb_ops) (auto simp: tracked_def)
qed (simp add: settles_once_def)

lemma settles_frame: "settles_once i st (settle_frame j st)"
proof -
  define one where "one = (case j of
      None \<Rightarrow> (st, [])
    | Some k \<Rightarrow> (case map_of (ts_pending st) k of None \<Rightarrow> (st, []) | Some p \<Rightarrow> confirm_op k p st))"
  have "settles_once i st (fst one, snd one)"
    using settles_confirm settles_still by (auto simp: one_def split: option.split)
  from settles_then[OF this, of "fst (absorb_committed (fst one))" "snd (absorb_committed (fst one))"]
  show ?thesis using settles_absorb[of i "fst one"] by (simp add: settle_frame_def one_def split_beta)
qed

lemma settles_apply: "settles_once i st (apply_frame d st)"
proof -
  let ?st2 = "(fst (frame_is_local (td_op_id d) st))\<lparr>ts_version := td_version d\<rparr>"
  have "settles_once i st (settle_frame (td_op_id d) ?st2)"
    by (rule settles_same[OF _ settles_frame]) simp
  then show ?thesis by (simp add: apply_frame_def split_beta settles_once_def Let_def)
qed

lemma settles_drain: "settles_once i st (drain_queue ds st)"
proof (induction ds arbitrary: st)
  case (Cons d ds)
  have "settles_once i st (relist (st\<lparr>ts_queue := ds, ts_draining := True\<rparr>))"
    using settles_still[of "fst (relist (st\<lparr>ts_queue := ds, ts_draining := True\<rparr>))" st i
        "snd (relist (st\<lparr>ts_queue := ds, ts_draining := True\<rparr>))"] by simp
  moreover have "settles_once i st (fst (drain_queue ds (fst (apply_frame d st))),
      snd (apply_frame d st) @ snd (drain_queue ds (fst (apply_frame d st))))"
    using settles_apply[of i st d] Cons[of "fst (apply_frame d st)"] by (intro settles_then) simp_all
  ultimately show ?case using Cons by (simp add: split_beta)
qed (simp add: settles_still)

lemma settles_retire:
  "map_of (ts_pending st) j = Some q \<Longrightarrow> is_remove q
   \<Longrightarrow> settles_once i st (retire j st, if b then [Rollback j] else [On_confirm j])"
  by (auto simp: settles_once_def tracked_def live_remove_def retire_def map_of_delete_if distinct_delete)

lemma settles_perm:
  "(\<And>i. settled_count i es = settled_count i fs) \<Longrightarrow> settles_once i st (st', es) = settles_once i st (st', fs)"
  by (simp add: settles_once_def)

text \<open>The removals in doubt as the list reads them off the map.\<close>

definition in_doubt :: "pending_op \<Rightarrow> string \<Rightarrow> bool" where
  "in_doubt p tab = (po_state p = Verifying \<and> (\<exists>captured a t. po_kind p = Op_remove tab captured a t))"

definition doubts :: "string \<times> pending_op \<Rightarrow> (string \<times> string) list" where
  "doubts = (\<lambda>(j, p). case po_kind p of
     Op_remove tab _ _ _ \<Rightarrow> if po_state p = Verifying then [(j, tab)] else [] | _ \<Rightarrow> [])"

lemma doubts_mem: "(k, tab) \<in> set (doubts (j, p)) \<longleftrightarrow> k = j \<and> in_doubt p tab"
  by (cases "po_kind p") (auto simp: doubts_def in_doubt_def)

lemma doubts_distinct: "distinct (map fst (doubts x))"
  by (cases x; cases "po_kind (snd x)") (simp_all add: doubts_def)

lemma verifying_mem: "(k, tab) \<in> set (concat (map doubts ps)) \<longleftrightarrow> (\<exists>p. (k, p) \<in> set ps \<and> in_doubt p tab)"
proof (induction ps)
  case (Cons x ps)
  then show ?case by (cases x) (simp only: list.map concat.simps set_append Un_iff doubts_mem list.set insert_iff prod.inject, blast)
qed simp

lemma verifying_distinct: "distinct (map fst ps) \<Longrightarrow> distinct (map fst (concat (map doubts ps)))"
proof (induction ps)
  case (Cons x ps)
  obtain j p where x: "x = (j, p)" by (cases x)
  have "k \<noteq> j" if "(k, tab) \<in> set (concat (map doubts ps))" for k tab
  proof -
    from that obtain q where "(k, q) \<in> set ps" unfolding verifying_mem by blast
    then have "k \<in> set (map fst ps)" by force
    with Cons.prems x show ?thesis by auto
  qed
  then have "j \<notin> fst ` set (concat (map doubts ps))" by (metis imageE prod.collapse)
  moreover have "fst ` set (doubts x) \<subseteq> {j}" using doubts_mem x by fastforce
  ultimately have "fst ` set (doubts x) \<inter> fst ` set (concat (map doubts ps)) = {}" by blast
  with Cons doubts_distinct[of x] show ?case by simp
qed simp

lemma verifying_doubts: "verifying_removes st = concat (map doubts (ts_pending st))"
  by (simp add: verifying_removes_def doubts_def)

lemma in_doubt_remove: "in_doubt p tab \<Longrightarrow> is_remove p"
  by (auto simp: in_doubt_def is_remove_def)

lemma verifying_spec:
  assumes "distinct (map fst (ts_pending st))"
  shows "distinct (map fst (verifying_removes st))"
    and "(j, tab) \<in> set (verifying_removes st) \<longleftrightarrow> (\<exists>p. map_of (ts_pending st) j = Some p \<and> in_doubt p tab)"
  unfolding verifying_doubts verifying_mem using verifying_distinct[OF assms] assms by simp_all

lemma settles_retire_all:
  "distinct (map fst ss) \<Longrightarrow> (\<And>j tab. (j, tab) \<in> set ss \<Longrightarrow> \<exists>q. map_of (ts_pending st) j = Some q \<and> is_remove q)
   \<Longrightarrow> settles_once i st (foldl (\<lambda>st (j, tab). retire j st) st ss,
        map (\<lambda>(j, tab). if here (j, tab) then Rollback j else On_confirm j) ss)"
proof (induction ss arbitrary: st)
  case (Cons a ss)
  obtain j tab where a: "a = (j, tab)" by (cases a)
  obtain q where q: "map_of (ts_pending st) j = Some q" "is_remove q"
    using Cons.prems(2)[of j tab] a by auto
  have rest: "\<exists>q. map_of (ts_pending (retire j st)) k = Some q \<and> is_remove q" if k: "(k, tab') \<in> set ss" for k tab'
  proof -
    have "k \<noteq> j" using Cons.prems(1) a k by force
    moreover from Cons.prems(2)[of k tab'] k obtain q' where
      "map_of (ts_pending st) k = Some q'" "is_remove q'" by auto
    ultimately show ?thesis by (simp add: retire_def map_of_delete_if)
  qed
  have "settles_once i (retire j st) (foldl (\<lambda>st (j, tab). retire j st) (retire j st) ss,
        map (\<lambda>(j, tab). if here (j, tab) then Rollback j else On_confirm j) ss)"
    by (rule Cons.IH) (use Cons.prems(1) rest in simp_all)
  from settles_then[OF settles_retire[OF q, of i "here (j, tab)"] this]
  have "settles_once i st (foldl (\<lambda>st (j, tab). retire j st) (retire j st) ss,
      (if here (j, tab) then [Rollback j] else [On_confirm j])
      @ map (\<lambda>(j, tab). if here (j, tab) then Rollback j else On_confirm j) ss)" .
  then show ?case unfolding a by (cases "here (j, tab)") simp_all
qed (simp add: settles_once_def)

lemma split_settled:
  "settled_count i (map (On_confirm \<circ> fst) (filter (\<lambda>s. \<not> here s) ss))
     + settled_count i (map (Rollback \<circ> fst) (filter here ss))
     = settled_count i (map (\<lambda>(j, tab). if here (j, tab) then Rollback j else On_confirm j) ss)"
  by (induction ss) (auto split: if_splits)

lemma settles_read: "settles_once i st (read_list ans st)"
proof (cases "tracked i st")
  case True
  show ?thesis
  proof (cases ans)
    case (Some l)
    let ?st0 = "st\<lparr>ts_version := tl_version l\<rparr>"
    let ?ss = "verifying_removes st"
    let ?here = "\<lambda>(i, tab). list_ex (\<lambda>t. tb_id t = tab) (tl_tabs l)"
    let ?st1 = "foldl (\<lambda>st (j, tab). retire j st) ?st0 ?ss"
    let ?all = "map (\<lambda>(j, tab). if ?here (j, tab) then Rollback j else On_confirm j) ?ss"
    have keys: "distinct (map fst (ts_pending st))" using True by (simp add: tracked_def)
    have spec: "distinct (map fst ?ss)" using verifying_spec(1)[OF keys] .
    have removes: "\<exists>q. map_of (ts_pending ?st0) j = Some q \<and> is_remove q" if "(j, tab) \<in> set ?ss" for j tab
      using verifying_spec(2)[OF keys, of j tab] that in_doubt_remove by auto
    have one: "settles_once i st (?st1, ?all)"
      by (rule settles_same[OF _ settles_retire_all[OF spec removes]]) simp
    have "settles_once i st (fst (absorb_committed ?st1), ?all @ snd (absorb_committed ?st1))"
      by (rule settles_then[OF one]) (simp add: settles_absorb)
    show ?thesis
    proof (cases "tl_version l < ts_version st")
      case False
      have "settled_count i (snd (read_list ans st)) = settled_count i (?all @ snd (absorb_committed ?st1))"
        using Some False split_settled[of i ?here ?ss] by (simp add: read_list_def Let_def split_beta)
      moreover have "fst (read_list ans st) = fst (absorb_committed ?st1)"
        using Some False by (simp add: read_list_def Let_def split_beta)
      ultimately show ?thesis
        using \<open>settles_once i st (fst (absorb_committed ?st1), ?all @ snd (absorb_committed ?st1))\<close>
        by (simp add: settles_once_def)
    qed (use Some in \<open>simp add: read_list_def settles_still\<close>)
  qed (simp add: read_list_def settles_still)
qed (simp add: settles_once_def)

lemma settles_rearm: "settles_once i st (rearm_tick st tick, [])"
  using settles_put[of st "fst tick"] settles_still[of st st i "[]"]
  by (auto simp: rearm_tick_def arm_verify_def is_remove_def split: option.split op_kind.splits)

lemma settles_rearms: "settles_once i st (foldl rearm_tick st ticks, [])"
proof (induction ticks arbitrary: st)
  case (Cons t ticks)
  from settles_then[OF settles_rearm[of i st t] Cons[of "rearm_tick st t"]] show ?case by simp
qed (simp add: settles_still)

lemma settles_list: "settles_once i st (settle_list ans st)"
proof -
  let ?r = "read_list ans st"
  let ?st2 = "foldl rearm_tick ((fst ?r)\<lparr>ts_list_out := False, ts_ticks := []\<rparr>) (ts_ticks (fst ?r))"
  have "settles_once i (fst ?r) (?st2, [])" by (rule settles_same[OF _ settles_rearms]) simp
  from settles_then[OF _ this] have st2: "settles_once i st (?st2, snd ?r)"
    using settles_read[of i st ans] by simp
  from settles_then[OF st2] have "settles_once i st (fst (drain_queue (ts_queue ?st2) ?st2),
      snd ?r @ snd (drain_queue (ts_queue ?st2) ?st2))"
    using settles_drain[of i ?st2 "ts_queue ?st2"] by simp
  with st2 show ?thesis
    using settles_still[of st st i "[]"] by (simp add: settle_list_def split_beta Let_def)
qed

lemma settles_committed:
  assumes "map_of (ts_pending st) j = Some q" and "is_remove p = is_remove q"
  shows "settles_once i st (committed j p v now st)"
  using settles_confirm[OF assms(1)] settles_put[OF assms(1)] assms(2)
  by (simp add: committed_def Let_def is_remove_def)

lemma settles_begin: "j \<noteq> i \<Longrightarrow> settles_once i st (begin_op j k st, [])"
  by (auto simp: settles_once_def tracked_def live_remove_def begin_op_def put_op_def Let_def
      map_of_update distinct_update)

fun begins :: "tabs_frame \<Rightarrow> string option" where
  "begins (TF_adopt i) = Some i"
| "begins (TF_remove i tab captured) = Some i"
| "begins (TF_reorder i order) = Some i"
| "begins _ = None"

lemma settles_ingest: "settles_once i st (ingest_tabs_changed d st)"
proof -
  let ?st1 = "st\<lparr>ts_queue := ts_queue st @ [d]\<rparr>"
  have "settles_once i st (drain_queue (ts_queue ?st1) ?st1)"
    by (rule settles_same[OF _ settles_drain]) simp
  then show ?thesis
    using settles_still[of ?st1 st i "[]"] by (simp add: ingest_tabs_changed_def Let_def)
qed

lemma settles_relist: "ts_pending st' = ts_pending st \<Longrightarrow> settles_once i st (relist st')"
  using settles_still[of "fst (relist st')" st i "snd (relist st')"] by simp

lemma settles_tick: "settles_once i st (verify_tick j st)"
proof (cases "map_of (ts_pending st) j")
  case (Some p)
  have "settles_once i st (relist (put_op j p' (st\<lparr>ts_ticks := x\<rparr>)))" if p': "is_remove p' = is_remove p" for p' x
  proof -
    let ?out = "relist (put_op j p' (st\<lparr>ts_ticks := x\<rparr>))"
    have "settles_once i (put_op j p' st) (fst ?out, snd ?out)"
      using settles_relist[of "put_op j p' (st\<lparr>ts_ticks := x\<rparr>)" "put_op j p' st" i] by (simp add: put_op_def)
    from settles_then[OF settles_put[OF Some p'] this] show ?thesis by simp
  qed
  with Some show ?thesis
    by (simp add: verify_tick_def settles_still is_remove_def split: op_kind.split option.split)
qed (simp add: verify_tick_def settles_still)

lemma settles_timeout: "settles_once i st (op_timed_out j st, [])"
  using settles_put[of st j] settles_still[of st st i "[]"]
  by (auto simp: op_timed_out_def arm_verify_def is_remove_def split: option.split op_kind.splits)

lemma settles_step: "begins f \<noteq> Some i \<Longrightarrow> settles_once i st (tabs_step st f)"
proof (cases f)
  case (TF_adopted j s v created)
  have "settles_once i st (adopt_committed j s v created st)"
    using settles_committed[of st j _ _ i] settles_still[of st st i "[]"]
    by (auto simp: adopt_committed_def is_remove_def split: option.split op_kind.split)
  with TF_adopted show ?thesis by simp
next
  case (TF_removed j ids v)
  have "settles_once i st (remove_committed j ids v st)"
    using settles_committed[of st j _ _ i] settles_still[of st st i "[]"]
    by (auto simp: remove_committed_def is_remove_def split: option.split op_kind.split)
  with TF_removed show ?thesis by simp
next
  case (TF_reordered j v)
  have "settles_once i st (reorder_committed j v st)"
    using settles_committed[of st j _ _ i] settles_still[of st st i "[]"]
    by (auto simp: reorder_committed_def is_remove_def split: option.split op_kind.split)
  with TF_reordered show ?thesis by simp
next
  case (TF_failed j)
  have "settles_once i st (op_failed j st)"
    using settles_fail[of st j _ i] settles_still[of st st i "[]"]
    by (auto simp: op_failed_def split: option.split)
  with TF_failed show ?thesis by simp
qed (auto simp: settles_ingest settles_list list_tabs_def settles_relist mark_local_op_def settles_still
    settles_begin begin_adopt_def begin_remove_def begin_reorder_def settles_timeout settles_tick)

text \<open>
  C32. A removal settles once: from its dispatch on, under any frames in any order, exactly one of its confirmation
  and its rollback runs when it stops being pending, and none before.
\<close>

theorem removal_settles_once:
  assumes "distinct (map fst (ts_pending st))" and "map_of (ts_pending st) i = None"
    and "list_all (\<lambda>f. begins f \<noteq> Some i) fs"
  shows "let (st', es) = trace tabs_step st (TF_remove i tab captured # fs)
    in settled_count i es = (if map_of (ts_pending st') i = None then 1 else 0)"
proof -
  let ?st1 = "begin_remove i tab captured st"
  have run: "settles_once i st0 (trace tabs_step st0 fs)" for st0
    using assms(3)
  proof (induction fs arbitrary: st0)
    case (Cons f fs)
    have "settles_once i st0 (fst (tabs_step st0 f), snd (tabs_step st0 f))"
      using settles_step[of f i st0] Cons.prems by simp
    from settles_then[OF this, of "fst (trace tabs_step (fst (tabs_step st0 f)) fs)"
        "snd (trace tabs_step (fst (tabs_step st0 f)) fs)"]
    show ?case using Cons by (simp add: trace.simps(2) split_beta)
  qed (simp add: settles_still)
  have "tracked i ?st1" "live_remove i ?st1 = 1"
    using assms(1) by (simp_all add: tracked_def live_remove_def begin_remove_def begin_op_def put_op_def Let_def
        map_of_update distinct_update is_remove_def)
  with run[of ?st1] show ?thesis
    by (auto simp: settles_once_def trace_Cons split_beta live_remove_def split: if_splits)
qed

theorem removal_settles_once_witness:
  "let (st', es) = trace tabs_step \<lparr>ts_version = 3, ts_queue = [], ts_draining = False, ts_list_out = False, ts_ticks = [],
        ts_local_ops = [], ts_pending = [], ts_seq = 0\<rparr>
      (TF_remove ''op'' ''t'' [''t''] # [TF_timed_out ''op'', TF_tick ''op'',
         TF_list (Some \<lparr>tl_subject = None, tl_tabs = [], tl_version = 4\<rparr>), TF_failed ''op''])
   in settled_count ''op'' es = (if map_of (ts_pending st') ''op'' = None then 1 else 0)"
  by (rule removal_settles_once) simp_all
end
