(* ===== verification/TabsReadFacts.thy ===== *)
theory TabsReadFacts
  imports TabsOpFacts
begin

text \<open>
  What the list decides: a removal is undone only on an answer that shows its row or on the request's own
  failure, a removed row stays away while its removal is pending, a removal in doubt always has a read to
  come, and a gap that joins a read already out leaves the projection behind.
\<close>

section \<open>Rollbacks\<close>

definition no_rollback :: "tabs_effect list \<Rightarrow> bool" where
  "no_rollback es = (\<forall>i. Rollback i \<notin> set es)"

lemma no_rollback_simps [simp]:
  "no_rollback []" "no_rollback (es @ fs) = (no_rollback es \<and> no_rollback fs)"
  "no_rollback (e # es) = ((case e of Rollback i \<Rightarrow> False | _ \<Rightarrow> True) \<and> no_rollback es)"
  "no_rollback (note_remove_settled st)" "no_rollback (snd (relist st))" "no_rollback (snd (confirm_op i p st))"
  by (auto simp: no_rollback_def note_remove_settled_def relist_def confirm_op_def Let_def split: tabs_effect.split)

lemma no_rollback_absorb_ops: "no_rollback (snd (absorb_ops ps st))"
  by (induction ps arbitrary: st) (auto simp: split_beta)

lemma no_rollback_absorb [simp]: "no_rollback (snd (absorb_committed st))"
  by (simp add: absorb_committed_def no_rollback_absorb_ops)

lemma no_rollback_apply [simp]: "no_rollback (snd (apply_frame d st))"
  by (simp add: apply_frame_def settle_frame_def split_beta Let_def split: option.split)

lemma no_rollback_drain [simp]: "no_rollback (snd (drain_queue ds st))"
  by (induction ds arbitrary: st) (auto simp: split_beta)

lemma no_rollback_committed [simp]: "no_rollback (snd (committed j p v now st))"
  by (simp add: committed_def Let_def)

lemma verifying_in: "(j, tab) \<in> set (verifying_removes st) \<longleftrightarrow> (\<exists>p. (j, p) \<in> set (ts_pending st) \<and> in_doubt p tab)"
  by (simp only: verifying_doubts verifying_mem)

lemma read_rollback:
  assumes "Rollback i \<in> set (snd (read_list ans st))"
  obtains l p tab where "ans = Some l" "ts_version st \<le> tl_version l" "(i, p) \<in> set (ts_pending st)"
    "in_doubt p tab" "tab \<in> tb_id ` set (tl_tabs l)"
proof (cases ans)
  case (Some l)
  let ?here = "\<lambda>(i, tab). list_ex (\<lambda>t. tb_id t = tab) (tl_tabs l)"
  have le: "ts_version st \<le> tl_version l" using assms Some by (auto simp: read_list_def split: if_splits)
  have no: "Rollback i \<notin> set (snd (absorb_committed st'))" "Rollback i \<notin> set (note_remove_settled st')" for st'
    using no_rollback_absorb no_rollback_simps(4) by (auto simp: no_rollback_def)
  have "Rollback i \<in> set (map (Rollback \<circ> fst) (filter ?here (verifying_removes st)))"
    using assms Some le no by (auto simp: read_list_def Let_def split_beta split: if_splits)
  then obtain tab where "(i, tab) \<in> set (verifying_removes st)" "?here (i, tab)" by auto
  moreover from this(1) obtain p where "(i, p) \<in> set (ts_pending st)" "in_doubt p tab"
    unfolding verifying_in by blast
  ultimately show ?thesis using that[of l p tab] Some le by (auto simp: list_ex_iff)
qed (use assms in \<open>simp add: read_list_def\<close>)

text \<open>
  A row comes back only on evidence: a rollback is the request's own failure, or an adopted list in which the
  removal was in doubt and its tab is there.
\<close>

theorem rollback_needs_evidence:
  assumes "Rollback i \<in> set (snd (tabs_step st f))"
  shows "f = TF_failed i
    \<or> (\<exists>l p tab. f = TF_list (Some l) \<and> ts_version st \<le> tl_version l \<and> (i, p) \<in> set (ts_pending st)
         \<and> in_doubt p tab \<and> tab \<in> tb_id ` set (tl_tabs l))"
proof (cases f)
  case (TF_list ans)
  then have "Rollback i \<in> set (snd (read_list ans st))"
    using assms no_rollback_drain by (auto simp: settle_list_def split_beta Let_def no_rollback_def split: if_splits)
  then show ?thesis by (rule read_rollback) (use TF_list in blast)
next
  case (TF_failed j)
  then show ?thesis
    using assms by (auto simp: op_failed_def fail_op_def note_remove_settled_def Let_def split: option.splits op_kind.splits if_splits)
next
  case (TF_ingest d)
  have "no_rollback (snd (tabs_step st f))" unfolding TF_ingest by (simp add: ingest_tabs_changed_def Let_def)
  with assms show ?thesis by (simp add: no_rollback_def)
next
  case (TF_adopted j s v c)
  have "no_rollback (snd (tabs_step st f))"
    unfolding TF_adopted by (simp add: adopt_committed_def split: option.split op_kind.split)
  with assms show ?thesis by (simp add: no_rollback_def)
next
  case (TF_removed j ids v)
  have "no_rollback (snd (tabs_step st f))"
    unfolding TF_removed by (simp add: remove_committed_def split: option.split op_kind.split)
  with assms show ?thesis by (simp add: no_rollback_def)
next
  case (TF_reordered j v)
  have "no_rollback (snd (tabs_step st f))"
    unfolding TF_reordered by (simp add: reorder_committed_def split: option.split op_kind.split)
  with assms show ?thesis by (simp add: no_rollback_def)
next
  case (TF_tick j)
  have "no_rollback (snd (tabs_step st f))"
    unfolding TF_tick by (simp add: verify_tick_def split: option.split op_kind.split)
  with assms show ?thesis by (simp add: no_rollback_def)
qed (use assms in \<open>simp_all add: list_tabs_def relist_def split: if_splits\<close>)

definition sample_removal :: tabs_sync where
  "sample_removal = \<lparr>ts_version = 3, ts_queue = [], ts_draining = False, ts_list_out = True, ts_ticks = [],
     ts_local_ops = [], ts_pending = [(''op'', \<lparr>po_state = Verifying, po_seq = 1, po_committed = None,
       po_kind = Op_remove ''t'' [''t''] 0 (Some 1000)\<rparr>)], ts_seq = 1\<rparr>"

definition sample_tab :: tab_subject where
  "sample_tab = \<lparr>tb_id = ''t'', tb_kind = Tab_chat, tb_ref = ''c'', tb_parent = [], tb_pinned = False, tb_owns = False\<rparr>"

theorem rollback_needs_evidence_witness:
  "let f = TF_list (Some \<lparr>tl_subject = None, tl_tabs = [sample_tab], tl_version = 4\<rparr>)
   in f = TF_failed ''op''
      \<or> (\<exists>l p tab. f = TF_list (Some l) \<and> ts_version sample_removal \<le> tl_version l
           \<and> (''op'', p) \<in> set (ts_pending sample_removal) \<and> in_doubt p tab \<and> tab \<in> tb_id ` set (tl_tabs l))"
  unfolding Let_def by (rule rollback_needs_evidence) code_simp

section \<open>What a frame does to the pending operations\<close>

text \<open>A frame takes operations out and adds none; it keeps the ticks and may start the read.\<close>

definition only_settles :: "tabs_sync \<Rightarrow> tabs_sync \<Rightarrow> bool" where
  "only_settles st st' =
     (set (ts_pending st') \<subseteq> set (ts_pending st)
      \<and> (distinct (map fst (ts_pending st)) \<longrightarrow> distinct (map fst (ts_pending st')))
      \<and> ts_ticks st' = ts_ticks st \<and> (ts_list_out st \<longrightarrow> ts_list_out st'))"

lemma only_settles_refl [simp]: "only_settles st st"
  by (simp add: only_settles_def)

lemma only_settles_trans: "only_settles st st1 \<Longrightarrow> only_settles st1 st2 \<Longrightarrow> only_settles st st2"
  by (auto simp: only_settles_def)

lemma only_settles_retire [simp]: "only_settles st (retire i st)"
  by (auto simp: only_settles_def retire_def AList.delete_eq distinct_delete[unfolded AList.delete_eq])

lemma only_settles_confirm [simp]: "only_settles st (fst (confirm_op i p st))"
  by (simp add: confirm_op_def Let_def)

lemma only_settles_absorb_ops: "only_settles st (fst (absorb_ops ps st))"
proof (induction ps arbitrary: st)
  case (Cons a ps)
  show ?case
    using Cons only_settles_trans[OF only_settles_confirm Cons] by (cases a) (auto simp: split_beta)
qed simp

lemma only_settles_absorb [simp]: "only_settles st (fst (absorb_committed st))"
  by (simp add: absorb_committed_def only_settles_absorb_ops)

lemma only_settles_frame [simp]: "only_settles st (fst (settle_frame j st))"
  using only_settles_trans[OF only_settles_confirm only_settles_absorb]
  by (auto simp: settle_frame_def split_beta split: option.split)

lemma only_settles_start:
  "ts_pending st1 = ts_pending st \<Longrightarrow> ts_ticks st1 = ts_ticks st \<Longrightarrow> (ts_list_out st \<longrightarrow> ts_list_out st1)
   \<Longrightarrow> only_settles st st1"
  by (simp add: only_settles_def)

lemma only_settles_apply [simp]: "only_settles st (fst (apply_frame d st))"
proof -
  let ?st2 = "(fst (frame_is_local (td_op_id d) st))\<lparr>ts_version := td_version d\<rparr>"
  have "only_settles st ?st2" by (rule only_settles_start) simp_all
  from only_settles_trans[OF this only_settles_frame] show ?thesis
    by (simp add: apply_frame_def split_beta Let_def)
qed

lemma only_settles_drain [simp]: "only_settles st (fst (drain_queue ds st))"
proof (induction ds arbitrary: st)
  case (Cons d ds)
  have "only_settles st (fst (relist (st\<lparr>ts_queue := ds, ts_draining := True\<rparr>)))"
    by (rule only_settles_start) simp_all
  then show ?case
    using Cons only_settles_trans[OF only_settles_apply[of st d] Cons[of "fst (apply_frame d st)"]]
    by (simp add: split_beta)
qed (simp add: only_settles_start)

lemma only_settles_retire_all: "only_settles st (foldl (\<lambda>st (j, tab). retire j st) st ss)"
proof (induction ss arbitrary: st)
  case (Cons a ss)
  obtain j tab where "a = (j, tab)" by (cases a)
  with only_settles_trans[OF only_settles_retire[of st j] Cons[of "retire j st"]] show ?case by simp
qed simp

lemma read_list_Some:
  "\<not> tl_version l < ts_version st \<Longrightarrow>
   fst (read_list (Some l) st)
     = fst (absorb_committed (foldl (\<lambda>st (j, tab). retire j st) (st\<lparr>ts_version := tl_version l\<rparr>) (verifying_removes st)))"
  by (simp add: read_list_def Let_def split_beta)

lemma only_settles_read [simp]: "only_settles st (fst (read_list ans st))"
proof (cases "\<exists>l. ans = Some l \<and> \<not> tl_version l < ts_version st")
  case True
  then obtain l where l: "ans = Some l" "\<not> tl_version l < ts_version st" by blast
  have "only_settles st (st\<lparr>ts_version := tl_version l\<rparr>)" by (simp add: only_settles_start)
  from only_settles_trans[OF only_settles_trans[OF this only_settles_retire_all] only_settles_absorb]
  show ?thesis unfolding l(1) read_list_Some[OF l(2)] .
qed (auto simp: read_list_def split: option.split)

section \<open>A removed row stays away\<close>

definition hides :: "string \<Rightarrow> string \<Rightarrow> tabs_sync \<Rightarrow> bool" where
  "hides t i st = (\<exists>p tab captured a tm. (i, p) \<in> set (ts_pending st) \<and> po_kind p = Op_remove tab captured a tm
     \<and> t \<in> set captured \<and> po_committed p = None)"

definition no_reopen :: "string \<Rightarrow> tabs_sync \<Rightarrow> bool" where
  "no_reopen t st = list_all (\<lambda>(j, q). case po_kind q of Op_adopt (Some s) \<Rightarrow> tb_id s \<noteq> t | _ \<Rightarrow> True) (ts_pending st)"

definition shows_tab :: "string \<Rightarrow> tabs_effect \<Rightarrow> bool" where
  "shows_tab t e = (case e of
       Reset_tabs tabs \<Rightarrow> list_ex (\<lambda>x. tb_id x = t) tabs
     | Apply_tabs d _ \<Rightarrow> (case td_changed d of None \<Rightarrow> False | Some c \<Rightarrow> tb_id c = t)
     | _ \<Rightarrow> False)"

lemma hides_before: "only_settles st st' \<Longrightarrow> hides t i st' \<Longrightarrow> hides t i st"
  by (auto simp: only_settles_def hides_def)

lemma no_reopen_after: "only_settles st st' \<Longrightarrow> no_reopen t st \<Longrightarrow> no_reopen t st'"
  by (auto simp: only_settles_def no_reopen_def list_all_iff)

lemma captured_le: "m \<le> foldl (\<lambda>m (i, p). case po_kind p of
     Op_remove _ captured _ _ \<Rightarrow> if tab \<in> set captured then max m (int (po_seq p)) else m | _ \<Rightarrow> m) m ps"
proof (induction ps arbitrary: m)
  case (Cons a ps)
  obtain i p where a: "a = (i, p)" by (cases a)
  let ?m = "case po_kind p of
     Op_remove _ captured _ _ \<Rightarrow> if tab \<in> set captured then max m (int (po_seq p)) else m | _ \<Rightarrow> m"
  have "m \<le> ?m" by (simp split: op_kind.split)
  also note Cons[of ?m]
  finally show ?case by (simp add: a)
qed simp

lemma hides_captured: "hides t i st \<Longrightarrow> 0 \<le> captured_by t st"
proof -
  assume "hides t i st"
  then obtain p tab captured a tm ps qs where p: "ts_pending st = ps @ (i, p) # qs" "po_kind p = Op_remove tab captured a tm"
    "t \<in> set captured" unfolding hides_def by (meson split_list)
  let ?f = "\<lambda>m (i, p). case po_kind p of
     Op_remove _ captured _ _ \<Rightarrow> if t \<in> set captured then max m (int (po_seq p)) else m | _ \<Rightarrow> m"
  have "captured_by t st = foldl ?f (max (foldl ?f (- 1) ps) (int (po_seq p))) qs"
    using p by (simp add: captured_by_def)
  then show ?thesis using captured_le[where tab = t and m = "max (foldl ?f (- 1) ps) (int (po_seq p))" and ps = qs] by simp
qed

lemma hides_suppress: "hides t i st \<Longrightarrow> no_reopen t st \<Longrightarrow> tb_id c = t \<Longrightarrow> suppress_changed c st"
  using hides_captured[of t i st]
  by (fastforce simp: suppress_changed_def Let_def no_reopen_def list_all_iff list_ex_iff reopens_def
      split: op_kind.splits option.splits)

lemma hides_overlay_frame:
  "hides t i st \<Longrightarrow> no_reopen t st \<Longrightarrow> \<not> shows_tab t (Apply_tabs (overlay_frame d st) l)"
  using hides_suppress[of t i st] by (auto simp: shows_tab_def overlay_frame_def Let_def split: option.splits)

lemma take_named_from: "set (fst (take_named order m)) \<subseteq> snd ` set m"
proof (induction order arbitrary: m)
  case (Cons i order)
  show ?case
  proof (cases "map_of m i")
    case (Some x)
    have "set (fst (take_named order (AList.delete i m))) \<subseteq> snd ` set m"
      using Cons[of "AList.delete i m"] by (auto simp: AList.delete_eq)
    moreover have "x \<in> snd ` set m" using map_of_SomeD[OF Some] by force
    ultimately show ?thesis using Some by (simp add: split_beta)
  qed (use Cons in simp)
qed simp

lemma updates_from: "snd ` set (foldl (\<lambda>m item. AList.update (id_of item) item m) m items) \<subseteq> snd ` set m \<union> set items"
proof (induction items arbitrary: m)
  case (Cons x items)
  have "set (AList.update (id_of x) x m) \<subseteq> insert (id_of x, x) (set m)"
    by (induction m) auto
  then have "snd ` set (AList.update (id_of x) x m) \<subseteq> insert x (snd ` set m)" by force
  with Cons[of "AList.update (id_of x) x m"] show ?case by auto
qed simp

lemma permute_from: "set (permute items id_of order) \<subseteq> set items"
proof -
  let ?m = "foldl (\<lambda>m item. AList.update (id_of item) item m) [] items"
  have "set (fst (take_named order ?m)) \<subseteq> set items"
    using take_named_from[of order ?m] updates_from[of id_of "[]" items] by auto
  then show ?thesis by (simp add: permute_def Let_def split_beta)
qed

lemma drop_captured_subset: "set (foldl (drop_captured v) out ops) \<subseteq> set out"
proof (induction ops arbitrary: out)
  case (Cons p ops)
  have "set (drop_captured v out p) \<subseteq> set out" by (auto simp: drop_captured_def split: op_kind.split)
  with Cons[of "drop_captured v out p"] show ?case by simp
qed simp

lemma hides_overlay_list:
  assumes "hides t i st" and "no_reopen t st"
  shows "\<not> shows_tab t (Reset_tabs (overlay_list tabs v st))"
proof -
  let ?ops = "map snd (ts_pending st)"
  obtain p tab captured a tm where p: "p \<in> set ?ops" "po_kind p = Op_remove tab captured a tm"
    "t \<in> set captured" "po_committed p = None" using assms(1) unfolding hides_def by force
  obtain ps qs where "?ops = ps @ p # qs" using p(1) by (meson split_list)
  then have "set (foldl (drop_captured v) tabs ?ops) \<subseteq> set (drop_captured v (foldl (drop_captured v) tabs ps) p)"
    using drop_captured_subset by simp
  then have gone: "t \<notin> tb_id ` set (foldl (drop_captured v) tabs ?ops)"
    using p(2-4) by (auto simp: drop_captured_def predates_def)
  have "t \<notin> tb_id ` set (foldl (merge_adopted v) out ops)"
    if "t \<notin> tb_id ` set out"
      "list_all (\<lambda>q. case po_kind q of Op_adopt (Some s) \<Rightarrow> tb_id s \<noteq> t | _ \<Rightarrow> True) ops" for out ops
    using that
  proof (induction ops arbitrary: out)
    case (Cons q ops)
    have "t \<notin> tb_id ` set (merge_adopted v out q)"
      using Cons.prems by (auto simp: merge_adopted_def split: op_kind.splits option.splits)
    with Cons show ?case by simp
  qed simp
  from this[OF gone, of ?ops] assms(2)
  have "t \<notin> tb_id ` set (foldl (merge_adopted v) (foldl (drop_captured v) tabs ?ops) ?ops)"
    by (simp add: no_reopen_def list.pred_map comp_def case_prod_unfold)
  then have "t \<notin> tb_id ` set (overlay_list tabs v st)"
    using permute_from by (fastforce simp: overlay_list_def Let_def)
  then show ?thesis by (auto simp: shows_tab_def list_ex_iff)
qed

lemma shows_tab_simps [simp]:
  "\<not> shows_tab t (On_confirm i)" "\<not> shows_tab t (Rollback i)" "\<not> shows_tab t Removes_settled"
  "\<not> shows_tab t Get_tabs" "\<not> shows_tab t (Observe_tabs s)"
  by (simp_all add: shows_tab_def)

definition quiet :: "string \<Rightarrow> tabs_effect list \<Rightarrow> bool" where
  "quiet t es = list_all (\<lambda>e. \<not> shows_tab t e) es"

lemma quiet_simps [simp]:
  "quiet t []" "quiet t (es @ fs) = (quiet t es \<and> quiet t fs)" "quiet t (e # es) = (\<not> shows_tab t e \<and> quiet t es)"
  "quiet t (note_remove_settled st)" "quiet t (snd (relist st))" "quiet t (snd (confirm_op i p st))"
  "quiet t (map (On_confirm \<circ> f) xs)" "quiet t (map (Rollback \<circ> f) xs)"
  by (auto simp: quiet_def note_remove_settled_def relist_def confirm_op_def Let_def list_all_iff)

lemma quiet_absorb_ops: "quiet t (snd (absorb_ops ps st))"
  by (induction ps arbitrary: st) (auto simp: split_beta)

lemma quiet_absorb [simp]: "quiet t (snd (absorb_committed st))"
  by (simp add: absorb_committed_def quiet_absorb_ops)

lemma quiet_settle_frame [simp]: "quiet t (snd (settle_frame j st))"
  by (simp add: settle_frame_def split_beta split: option.split)

lemma quiet_committed [simp]: "quiet t (snd (committed j p v now st))"
  by (simp add: committed_def Let_def)

lemma quiet_apply:
  assumes "hides t i (fst (apply_frame d st))" and "no_reopen t st"
  shows "quiet t (snd (apply_frame d st))"
proof -
  let ?st2 = "(fst (frame_is_local (td_op_id d) st))\<lparr>ts_version := td_version d\<rparr>"
  have "hides t i ?st2"
    using assms(1) hides_before[OF only_settles_frame] by (simp add: apply_frame_def split_beta Let_def)
  moreover have "no_reopen t ?st2" using assms(2) by (simp add: no_reopen_def)
  ultimately show ?thesis using hides_overlay_frame by (simp add: apply_frame_def split_beta Let_def)
qed

lemma quiet_drain: "hides t i (fst (drain_queue ds st)) \<Longrightarrow> no_reopen t st \<Longrightarrow> quiet t (snd (drain_queue ds st))"
proof (induction ds arbitrary: st)
  case (Cons d ds)
  show ?case
  proof (cases "td_version d \<le> ts_version st \<or> ts_version st + 1 < td_version d")
    case False
    let ?st1 = "fst (apply_frame d st)"
    have end1: "hides t i (fst (drain_queue ds ?st1))" using Cons.prems(1) False by (simp add: split_beta)
    then have "hides t i ?st1" by (rule hides_before[OF only_settles_drain])
    then have "quiet t (snd (apply_frame d st))" using Cons.prems(2) by (rule quiet_apply)
    moreover have "quiet t (snd (drain_queue ds ?st1))"
      using Cons.IH[OF end1] no_reopen_after[OF only_settles_apply Cons.prems(2)] .
    ultimately show ?thesis using False by (simp add: split_beta)
  qed (use Cons in auto)
qed simp

lemma quiet_read:
  assumes "hides t i (fst (read_list ans st))" and "no_reopen t st"
  shows "quiet t (snd (read_list ans st))"
proof (cases "\<exists>l. ans = Some l \<and> \<not> tl_version l < ts_version st")
  case True
  then obtain l where l: "ans = Some l" "\<not> tl_version l < ts_version st" by blast
  let ?st1 = "foldl (\<lambda>st (j, tab). retire j st) (st\<lparr>ts_version := tl_version l\<rparr>) (verifying_removes st)"
  have "hides t i ?st1"
    using assms(1) hides_before[OF only_settles_absorb] unfolding l(1) read_list_Some[OF l(2)] by blast
  moreover have "no_reopen t ?st1"
    by (rule no_reopen_after[OF only_settles_retire_all]) (use assms(2) in \<open>simp add: no_reopen_def\<close>)
  ultimately have "\<not> shows_tab t (Reset_tabs (overlay_list (tl_tabs l) (tl_version l) ?st1))"
    by (rule hides_overlay_list)
  with l show ?thesis by (simp add: read_list_def Let_def split_beta)
qed (auto simp: read_list_def split: option.split)

lemma hides_rearms: "hides t i (foldl rearm_tick st ticks) \<Longrightarrow> hides t i st"
proof (induction ticks arbitrary: st)
  case (Cons k ticks)
  have "hides t i (rearm_tick st k)" using Cons by simp
  then show ?case
  proof (cases "map_of (ts_pending st) (fst k)")
    case (Some p)
    have upd: "set (AList.update a b al) \<subseteq> insert (a, b) (set al)" for a b and al :: "(string \<times> pending_op) list"
      by (induction al) auto
    from Some have "(fst k, p) \<in> set (ts_pending st)" by (rule map_of_SomeD)
    then show ?thesis
      using \<open>hides t i (rearm_tick st k)\<close> Some upd
      unfolding hides_def rearm_tick_def arm_verify_def put_op_def
      by (fastforce split: if_splits op_kind.splits)
  qed (simp add: rearm_tick_def)
qed simp

lemma reopen_rearm: "no_reopen t st \<Longrightarrow> no_reopen t (rearm_tick st k)"
proof -
  assume n: "no_reopen t st"
  have upd: "set (AList.update a b al) \<subseteq> insert (a, b) (set al)" for a b and al :: "(string \<times> pending_op) list"
    by (induction al) auto
  show ?thesis
    using n subsetD[OF upd]
    by (fastforce simp: rearm_tick_def arm_verify_def put_op_def no_reopen_def list_all_iff split: option.split op_kind.split)
qed

lemma reopen_rearms: "no_reopen t st \<Longrightarrow> no_reopen t (foldl rearm_tick st ticks)"
  by (induction ticks arbitrary: st) (simp_all add: reopen_rearm)

text \<open>
  C33. A closed row does not come back while its close is pending: as long as a removal that took the tab out is
  unconfirmed after a step, and no reopen of it is pending, no delta or snapshot of that step shows it.
\<close>

theorem closed_tab_stays_closed:
  assumes "hides t i (fst (tabs_step st f))" and "no_reopen t st"
  shows "list_all (\<lambda>e. \<not> shows_tab t e) (snd (tabs_step st f))"
proof -
  have "quiet t (snd (tabs_step st f))"
  proof (cases f)
    case (TF_ingest d)
    let ?st1 = "st\<lparr>ts_queue := ts_queue st @ [d]\<rparr>"
    have "no_reopen t ?st1" using assms(2) by (simp add: no_reopen_def)
    with TF_ingest show ?thesis
      using assms(1) quiet_drain[of t i "ts_queue ?st1" ?st1]
      by (simp add: ingest_tabs_changed_def Let_def split: if_splits)
  next
    case (TF_list ans)
    let ?r = "read_list ans st"
    let ?st2 = "foldl rearm_tick ((fst ?r)\<lparr>ts_list_out := False, ts_ticks := []\<rparr>) (ts_ticks (fst ?r))"
    show ?thesis
    proof (cases "ts_list_out st")
      case True
      have end2: "hides t i (if ts_draining ?st2 then fst (drain_queue (ts_queue ?st2) ?st2) else ?st2)"
        using assms(1) TF_list True by (simp add: settle_list_def Let_def split_beta split: if_splits)
      then have st2: "hides t i ?st2" using hides_before[OF only_settles_drain] by (simp split: if_splits)
      then have "hides t i (fst ?r)" using hides_rearms by (fastforce simp: hides_def)
      then have read: "quiet t (snd ?r)" using assms(2) by (rule quiet_read)
      have "no_reopen t ?st2"
        using no_reopen_after[OF only_settles_read assms(2), of ans] by (intro reopen_rearms) (simp add: no_reopen_def)
      then have "ts_draining ?st2 \<Longrightarrow> quiet t (snd (drain_queue (ts_queue ?st2) ?st2))"
        using end2 by (intro quiet_drain[of t i]) simp_all
      with read True TF_list show ?thesis by (simp add: settle_list_def Let_def split_beta)
    qed (use TF_list in \<open>simp add: settle_list_def\<close>)
  qed (simp_all add: list_tabs_def adopt_committed_def remove_committed_def reorder_committed_def op_failed_def
      fail_op_def verify_tick_def Let_def split: option.split op_kind.split)
  then show ?thesis by (simp add: quiet_def)
qed

theorem closed_tab_stays_closed_witness:
  "list_all (\<lambda>e. \<not> shows_tab ''t'' e) (snd (tabs_step sample_removal
     (TF_ingest \<lparr>td_changed = Some sample_tab, td_op_id = None, td_removed = None, td_order = None, td_version = 4\<rparr>)))"
proof (rule closed_tab_stays_closed[where i = "''op''"])
  show "hides ''t'' ''op'' (fst (tabs_step sample_removal
     (TF_ingest \<lparr>td_changed = Some sample_tab, td_op_id = None, td_removed = None, td_order = None, td_version = 4\<rparr>)))"
    unfolding hides_def
    by (simp add: sample_removal_def ingest_tabs_changed_def apply_frame_def frame_is_local_def take_local_op_def
        settle_frame_def absorb_committed_def Let_def)
qed (simp add: no_reopen_def sample_removal_def)
end
