(* ===== verification/TabsWaitFacts.thy ===== *)
theory TabsWaitFacts
  imports TabsReadFacts
begin

text \<open>
  Waiting: a removal in doubt always has a read to come, a waiting drain always waits for a read, and what the
  code does when the list it joins is older than the frame that asked for it.
\<close>

section \<open>A removal in doubt has a read to come\<close>

text \<open>A removal in doubt has its timer armed, at most half a minute away, or one of the given ticks waits for the list.\<close>

definition awaited :: "(string \<times> nat) set \<Rightarrow> string \<times> pending_op \<Rightarrow> bool" where
  "awaited ticks = (\<lambda>(i, p). po_state p = Verifying \<longrightarrow>
     (case po_kind p of
        Op_remove tab captured attempts (Some ms) \<Rightarrow> ms \<le> 30000
      | Op_remove tab captured attempts None \<Rightarrow> (i, po_seq p) \<in> ticks
      | _ \<Rightarrow> False))"

definition waiting :: "tabs_sync \<Rightarrow> (string \<times> nat) set" where
  "waiting st = (if ts_list_out st then set (ts_ticks st) else {})"

definition watched :: "tabs_sync \<Rightarrow> bool" where
  "watched st =
     (distinct (map fst (ts_pending st)) \<and> (ts_draining st \<longrightarrow> ts_list_out st)
      \<and> list_all (awaited (waiting st)) (ts_pending st))"

lemma awaited_mono: "awaited ticks x \<Longrightarrow> ticks \<subseteq> ticks' \<Longrightarrow> awaited ticks' x"
  by (auto simp: awaited_def split: prod.splits op_kind.splits option.splits)

lemma awaited_all_mono: "list_all (awaited T) ps \<Longrightarrow> T \<subseteq> T' \<Longrightarrow> list_all (awaited T') ps"
  using awaited_mono unfolding list_all_iff by blast

lemma watched_same:
  "ts_pending st' = ts_pending st \<Longrightarrow> ts_list_out st' = ts_list_out st \<Longrightarrow> ts_ticks st' = ts_ticks st
   \<Longrightarrow> ts_draining st' = ts_draining st \<Longrightarrow> watched st' = watched st"
  by (simp add: watched_def waiting_def)

lemma watched_fields [simp]:
  "watched (st\<lparr>ts_queue := q\<rparr>) = watched st" "watched (st\<lparr>ts_seq := n\<rparr>) = watched st"
  "watched (st\<lparr>ts_local_ops := ops\<rparr>) = watched st"
  by (rule watched_same; simp)+

lemma watched_only_settles:
  assumes "watched st" and "only_settles st st'" and "ts_draining st' \<longrightarrow> ts_list_out st'"
  shows "watched st'"
proof -
  have "waiting st \<subseteq> waiting st'" using assms(2) by (simp add: only_settles_def waiting_def)
  moreover have "list_all (awaited (waiting st)) (ts_pending st')"
    using assms(1,2) unfolding watched_def only_settles_def list_all_iff by blast
  ultimately have "list_all (awaited (waiting st')) (ts_pending st')" using awaited_all_mono by blast
  then show ?thesis using assms by (simp add: watched_def only_settles_def)
qed

lemma settle_fields [simp]:
  "ts_draining (retire i st) = ts_draining st" "ts_draining (fst (confirm_op i p st)) = ts_draining st"
  "ts_list_out (retire i st) = ts_list_out st" "ts_list_out (fst (confirm_op i p st)) = ts_list_out st"
  by (simp_all add: retire_def confirm_op_def Let_def)

lemma absorb_ops_fields:
  "ts_draining (fst (absorb_ops ps st)) = ts_draining st \<and> ts_list_out (fst (absorb_ops ps st)) = ts_list_out st"
proof (induction ps arbitrary: st)
  case (Cons a ps)
  then show ?case by (cases a) (simp add: split_beta)
qed simp

lemma absorb_fields [simp]:
  "ts_draining (fst (absorb_committed st)) = ts_draining st" "ts_list_out (fst (absorb_committed st)) = ts_list_out st"
  by (simp_all add: absorb_committed_def absorb_ops_fields)

lemma drain_waits: "ts_draining (fst (drain_queue ds st)) \<longrightarrow> ts_list_out (fst (drain_queue ds st))"
  by (induction ds arbitrary: st) (auto simp: split_beta)

lemma watched_drain: "watched st \<Longrightarrow> watched (fst (drain_queue ds st))"
  using watched_only_settles[OF _ only_settles_drain drain_waits] .

lemma retire_all_fields:
  "ts_draining (foldl (\<lambda>st (j, tab). retire j st) st ss) = ts_draining st"
  "ts_list_out (foldl (\<lambda>st (j, tab). retire j st) st ss) = ts_list_out st"
  by (induction ss arbitrary: st) auto

lemma read_fields [simp]:
  "ts_draining (fst (read_list ans st)) = ts_draining st" "ts_list_out (fst (read_list ans st)) = ts_list_out st"
  by (simp_all add: read_list_def Let_def split_beta retire_all_fields split: option.split)

lemma update_set: "set (AList.update a b al) \<subseteq> insert (a, b) (set al)"
  by (induction al) auto

lemma update_all: "list_all P al \<Longrightarrow> P (a, b) \<Longrightarrow> list_all P (AList.update a b al)"
  using update_set unfolding list_all_iff by fastforce

lemma update_others:
  "distinct (map fst al) \<Longrightarrow> list_all (\<lambda>x. fst x \<noteq> a \<longrightarrow> P x) al \<Longrightarrow> P (a, b) \<Longrightarrow> list_all P (AList.update a b al)"
proof (induction al)
  case (Cons x al)
  obtain k v where x: "x = (k, v)" by (cases x)
  show ?case
  proof (cases "k = a")
    case True
    then have "\<forall>y\<in>set al. fst y \<noteq> a" using Cons.prems(1) x by (metis image_eqI distinct.simps(2) list.map(2) fst_conv set_map)
    then show ?thesis using Cons.prems True x by (auto simp: list_all_iff)
  next
    case False
    then show ?thesis using Cons x by simp
  qed
qed simp

lemma verify_delay_bound: "verify_delay attempts \<le> 30000"
proof -
  have "list_all (\<lambda>ms. ms \<le> 30000) verify_backoff_ms" by (simp add: verify_backoff_ms_def)
  then have "n < length verify_backoff_ms \<Longrightarrow> verify_backoff_ms ! n \<le> 30000" for n by (simp only: list_all_length)
  moreover have "min attempts (length verify_backoff_ms - 1) < length verify_backoff_ms"
    by (simp add: verify_backoff_ms_def)
  ultimately show ?thesis unfolding verify_delay_def by blast
qed

text \<open>Re-arming takes the ticks one by one: those already taken left a timer behind.\<close>

lemma arm_verify_put:
  assumes "is_remove p"
  obtains p' where "arm_verify i p st = put_op i p' st" "awaited T (i, p')" "po_seq p' = po_seq p"
  using assms verify_delay_bound
  by (cases "po_kind p") (auto simp: is_remove_def arm_verify_def awaited_def)

lemma rearm_step:
  assumes "distinct (map fst (ts_pending st))" and "list_all (awaited (insert k T)) (ts_pending st)"
  shows "distinct (map fst (ts_pending (rearm_tick st k))) \<and> list_all (awaited T) (ts_pending (rearm_tick st k))"
proof -
  have drop: "awaited (insert k T) (j, q) \<Longrightarrow> (j, po_seq q) \<noteq> k \<or> po_state q \<noteq> Verifying \<Longrightarrow> awaited T (j, q)" for j q
    by (auto simp: awaited_def split: op_kind.splits option.splits)
  show ?thesis
  proof (cases "map_of (ts_pending st) (fst k)")
    case None
    then have "\<forall>x\<in>set (ts_pending st). fst x \<noteq> fst k" by (metis image_eqI map_of_eq_None_iff)
    then have "list_all (awaited T) (ts_pending st)" using assms(2) drop by (fastforce simp: list_all_iff)
    with None assms(1) show ?thesis by (simp add: rearm_tick_def)
  next
    case (Some p)
    have others: "list_all (\<lambda>x. fst x \<noteq> fst k \<longrightarrow> awaited T x) (ts_pending st)"
      using assms(2) drop by (fastforce simp: list_all_iff)
    have mem: "(fst k, p) \<in> set (ts_pending st)" using Some by (rule map_of_SomeD)
    show ?thesis
    proof (cases "po_seq p = snd k \<and> po_state p = Verifying")
      case True
      then have "is_remove p" using mem assms(2) by (fastforce simp: list_all_iff awaited_def is_remove_def split: op_kind.splits)
      then obtain p' where p': "arm_verify (fst k) p st = put_op (fst k) p' st" "awaited T (fst k, p')" by (rule arm_verify_put)
      have "list_all (awaited T) (AList.update (fst k) p' (ts_pending st))"
        by (rule update_others[OF assms(1) others p'(2)])
      with Some True p'(1) assms(1) show ?thesis by (simp add: rearm_tick_def put_op_def distinct_update)
    next
      case False
      have "awaited T x" if "x \<in> set (ts_pending st)" for x
      proof (cases "fst x = fst k")
        case True
        then have "x = (fst k, p)" using that Some assms(1) by (cases x) auto
        then show ?thesis using False drop[of "fst k" p] assms(2) mem by (cases k) (auto simp: list_all_iff)
      qed (use that others in \<open>simp add: list_all_iff\<close>)
      with Some False assms(1) show ?thesis by (auto simp: rearm_tick_def list_all_iff)
    qed
  qed
qed

lemma rearm_all:
  "distinct (map fst (ts_pending st)) \<Longrightarrow> list_all (awaited (set ticks)) (ts_pending st)
   \<Longrightarrow> distinct (map fst (ts_pending (foldl rearm_tick st ticks)))
     \<and> list_all (awaited {}) (ts_pending (foldl rearm_tick st ticks))"
proof (induction ticks arbitrary: st)
  case (Cons k ticks)
  from rearm_step[of st k "set ticks"] Cons show ?case by simp
qed simp

lemma rearm_fields:
  "ts_draining (foldl rearm_tick st ticks) = ts_draining st" "ts_list_out (foldl rearm_tick st ticks) = ts_list_out st"
  by (induction ticks arbitrary: st)
    (auto simp: rearm_tick_def arm_verify_def put_op_def split: option.split op_kind.split)

lemma watched_list: "watched st \<Longrightarrow> watched (fst (settle_list ans st))"
proof (cases "ts_list_out st")
  case True
  assume w: "watched st"
  let ?r = "fst (read_list ans st)"
  let ?st2 = "foldl rearm_tick (?r\<lparr>ts_list_out := False, ts_ticks := []\<rparr>) (ts_ticks ?r)"
  have "watched ?r"
    by (rule watched_only_settles[OF w only_settles_read]) (use True in simp)
  then have "distinct (map fst (ts_pending ?st2)) \<and> list_all (awaited {}) (ts_pending ?st2)"
    using True rearm_all[of "?r\<lparr>ts_list_out := False, ts_ticks := []\<rparr>" "ts_ticks ?r"] by (simp add: watched_def waiting_def)
  have go: "watched (fst (drain_queue ds st'))" if "list_all (awaited {}) (ts_pending st')" "distinct (map fst (ts_pending st'))" for ds st'
  proof -
    have "only_settles st' (fst (drain_queue ds st'))" by simp
    then have "list_all (awaited {}) (ts_pending (fst (drain_queue ds st')))"
      using that(1) unfolding only_settles_def list_all_iff by blast
    then have "list_all (awaited (waiting (fst (drain_queue ds st')))) (ts_pending (fst (drain_queue ds st')))"
      by (rule awaited_all_mono) simp
    with \<open>only_settles st' (fst (drain_queue ds st'))\<close> that(2) drain_waits[of ds st'] show ?thesis
      by (simp add: watched_def only_settles_def)
  qed
  show ?thesis
  proof (cases "ts_draining ?st2")
    case True
    with \<open>ts_list_out st\<close> go[of ?st2 "ts_queue ?st2"]
      \<open>distinct (map fst (ts_pending ?st2)) \<and> list_all (awaited {}) (ts_pending ?st2)\<close>
    show ?thesis by (simp add: settle_list_def split_beta Let_def)
  next
    case False
    with \<open>distinct (map fst (ts_pending ?st2)) \<and> list_all (awaited {}) (ts_pending ?st2)\<close>
    have "watched ?st2" by (simp add: watched_def waiting_def rearm_fields)
    with False \<open>ts_list_out st\<close> show ?thesis by (simp add: settle_list_def split_beta Let_def)
  qed
qed (simp add: settle_list_def)

lemma watched_put:
  assumes "watched st" and "awaited (waiting st) (i, p)"
  shows "watched (put_op i p st)"
proof -
  have "waiting (put_op i p st) = waiting st" by (simp add: waiting_def put_op_def)
  then show ?thesis
    using assms update_all[of "awaited (waiting st)" "ts_pending st" i p]
    by (simp add: watched_def distinct_update) (simp add: put_op_def distinct_update)
qed

lemma watched_committed:
  assumes "watched st"
  shows "watched (fst (committed i p v now st))"
proof (cases "now \<or> v \<le> ts_version st")
  case True
  then show ?thesis
    using watched_only_settles[OF assms only_settles_confirm] assms
    by (auto simp: committed_def Let_def watched_def)
next
  case False
  have "watched (put_op i (p\<lparr>po_committed := Some v, po_state := Confirmed_awaiting_frame\<rparr>) st)"
    by (rule watched_put[OF assms]) (simp add: awaited_def)
  with False show ?thesis by (simp add: committed_def Let_def)
qed

lemma watched_tick: "watched st \<Longrightarrow> watched (fst (verify_tick i st))"
proof (cases "\<exists>p tab captured attempts ms. map_of (ts_pending st) i = Some p
    \<and> po_kind p = Op_remove tab captured attempts (Some ms)")
  case True
  assume w: "watched st"
  from True obtain p tab captured attempts ms where p: "map_of (ts_pending st) i = Some p"
    "po_kind p = Op_remove tab captured attempts (Some ms)" by blast
  let ?p = "p\<lparr>po_kind := Op_remove tab captured (attempts + 1) None\<rparr>"
  let ?st1 = "put_op i ?p (st\<lparr>ts_ticks := ts_ticks st @ [(i, po_seq p)]\<rparr>)"
  let ?T = "set (ts_ticks st @ [(i, po_seq p)])"
  have "waiting st \<subseteq> ?T" by (auto simp: waiting_def)
  then have "list_all (awaited ?T) (ts_pending st)"
    using w awaited_all_mono unfolding watched_def by blast
  then have "list_all (awaited ?T) (AList.update i ?p (ts_pending st))"
    by (rule update_all) (simp add: awaited_def)
  then show ?thesis
    using w p by (simp add: verify_tick_def watched_def waiting_def relist_def put_op_def distinct_update)
next
  case False
  assume "watched st"
  with False show ?thesis by (auto simp: verify_tick_def split: option.split op_kind.split)
qed

lemma watched_relist: "watched st \<Longrightarrow> watched (fst (relist st))"
  using watched_only_settles[of st "fst (relist st)"] by (simp add: only_settles_start)

lemma watched_timeout: "watched st \<Longrightarrow> watched (op_timed_out i st)"
proof (cases "map_of (ts_pending st) i")
  case (Some p)
  assume w: "watched st"
  show ?thesis
  proof (cases "is_remove p \<and> po_state p \<noteq> Verifying")
    case True
    then have "is_remove (p\<lparr>po_state := Verifying\<rparr>)" by (simp add: is_remove_def)
    then obtain p' where "arm_verify i (p\<lparr>po_state := Verifying\<rparr>) st = put_op i p' st"
      "awaited (waiting st) (i, p')" by (rule arm_verify_put)
    with w Some True show ?thesis by (simp add: op_timed_out_def watched_put)
  next
    case False
    with w Some show ?thesis by (auto simp: op_timed_out_def)
  qed
qed (simp add: op_timed_out_def)

lemma watched_begin: "watched st \<Longrightarrow> watched (begin_op i k st)"
proof -
  assume w: "watched st"
  then have "watched (st\<lparr>ts_seq := n\<rparr>)" for n by simp
  from watched_put[OF this] show ?thesis by (simp add: begin_op_def Let_def awaited_def)
qed

lemma watched_step: "watched st \<Longrightarrow> watched (fst (tabs_step st f))"
proof (cases f)
  case (TF_ingest d)
  assume "watched st"
  with TF_ingest watched_drain show ?thesis by (simp add: ingest_tabs_changed_def Let_def)
next
  case (TF_failed i)
  assume w: "watched st"
  have "watched (retire i st)"
    using watched_only_settles[OF w only_settles_retire] w by (simp add: watched_def)
  with w TF_failed show ?thesis by (simp add: op_failed_def fail_op_def Let_def split: option.split)
qed (simp_all add: watched_list watched_relist list_tabs_def mark_local_op_def begin_adopt_def begin_remove_def
    begin_reorder_def watched_begin adopt_committed_def remove_committed_def reorder_committed_def watched_committed
    watched_timeout watched_tick split: option.split op_kind.split)

text \<open>
  C34. A removal in doubt always has a read to come, and a waiting drain always waits for one: after any frames
  from the initial state, each removal in doubt has a timer armed at most half a minute away or a tick
  waiting for the list in flight, and the queue is held back only while a list is out.
\<close>

theorem doubt_always_has_a_read:
  "watched (fst (trace tabs_step \<lparr>ts_version = 0, ts_queue = [], ts_draining = False, ts_list_out = False, ts_ticks = [],
      ts_local_ops = [], ts_pending = [], ts_seq = 0\<rparr> fs))"
proof -
  have "watched st \<Longrightarrow> watched (fst (trace tabs_step st fs))" for st
    by (induction fs arbitrary: st) (simp_all add: trace_Cons watched_step)
  then show ?thesis by (simp add: watched_def)
qed

section \<open>A gap that joins a read already out\<close>

text \<open>
  C35. The frame that shows a gap is taken off the queue before the list is asked for. When a list is already out
  and its answer is older than that frame, the frame is lost: the projection stays at the list's version, with
  nothing queued, nothing asked for and nothing applied, until the server speaks again.
\<close>

theorem gap_on_a_read_already_out:
  assumes "ts_list_out st" and "\<not> ts_draining st" and "ts_queue st = []" and "ts_pending st = []" and "ts_ticks st = []"
    and "ts_version st \<le> tl_version l" and "ts_version st + 1 < td_version d" and "tl_version l < td_version d"
  shows "let (st', es) = trace tabs_step st [TF_ingest d, TF_list (Some l)]
    in ts_version st' = tl_version l \<and> ts_queue st' = [] \<and> \<not> ts_draining st' \<and> \<not> ts_list_out st'
       \<and> Get_tabs \<notin> set es \<and> (\<forall>d' b. Apply_tabs d' b \<notin> set es)"
proof -
  let ?st1 = "st\<lparr>ts_queue := [], ts_draining := True\<rparr>"
  have one: "ingest_tabs_changed d st = (?st1, [])"
    using assms(1-3,7) by (simp add: ingest_tabs_changed_def relist_def)
  have read: "read_list (Some l) ?st1
    = (?st1\<lparr>ts_version := tl_version l\<rparr>, [Reset_tabs (overlay_list (tl_tabs l) (tl_version l) (?st1\<lparr>ts_version := tl_version l\<rparr>)),
         Observe_tabs (tl_subject l)])"
    using assms(4,6) by (simp add: read_list_def Let_def)
  have two: "settle_list (Some l) ?st1
    = (?st1\<lparr>ts_version := tl_version l, ts_list_out := False, ts_draining := False\<rparr>,
       [Reset_tabs (overlay_list (tl_tabs l) (tl_version l) (?st1\<lparr>ts_version := tl_version l\<rparr>)), Observe_tabs (tl_subject l)])"
    using assms(1,4,5) read by (simp add: settle_list_def)
  show ?thesis by (simp add: trace.simps(2) one two)
qed

theorem gap_on_a_read_already_out_witness:
  "let st = \<lparr>ts_version = 3, ts_queue = [], ts_draining = False, ts_list_out = True, ts_ticks = [],
        ts_local_ops = [], ts_pending = [], ts_seq = 0\<rparr>;
       l = \<lparr>tl_subject = None, tl_tabs = [], tl_version = 4\<rparr>;
       d = \<lparr>td_changed = None, td_op_id = None, td_removed = None, td_order = Some [], td_version = 5\<rparr>;
       (st', es) = trace tabs_step st [TF_ingest d, TF_list (Some l)]
   in ts_version st' = tl_version l \<and> ts_queue st' = [] \<and> \<not> ts_draining st' \<and> \<not> ts_list_out st'
      \<and> Get_tabs \<notin> set es \<and> (\<forall>d' b. Apply_tabs d' b \<notin> set es)"
  unfolding Let_def by (rule gap_on_a_read_already_out[unfolded Let_def]) simp_all
end
