(* ===== verification/MdText.thy ===== *)
theory MdText
  imports Prelude
begin

text \<open>
  The text the streaming Markdown parser reads (\<open>smd-parser-types.ts\<close>, \<open>smd-parser-handlers.ts\<close>): a text is
  the list of its code points, as \<open>for (const char of chunk)\<close> gives them. Here are the parser's readings of
  complete strings: word characters, references, table rows, destinations, autolinks. Each regular expression
  of the source is a predicate with the expression in the comment above it.
\<close>

type_synonym utext = "nat list"

definition tx :: "string \<Rightarrow> utext" where
  "tx s = map of_char s"

section \<open>Characters\<close>

abbreviation c_tab :: nat where "c_tab \<equiv> 9"
abbreviation c_nl :: nat where "c_nl \<equiv> 10"
abbreviation c_space :: nat where "c_space \<equiv> 32"
abbreviation c_bang :: nat where "c_bang \<equiv> 33"
abbreviation c_hash :: nat where "c_hash \<equiv> 35"
abbreviation c_dollar :: nat where "c_dollar \<equiv> 36"
abbreviation c_amp :: nat where "c_amp \<equiv> 38"
abbreviation c_lpar :: nat where "c_lpar \<equiv> 40"
abbreviation c_rpar :: nat where "c_rpar \<equiv> 41"
abbreviation c_star :: nat where "c_star \<equiv> 42"
abbreviation c_plus :: nat where "c_plus \<equiv> 43"
abbreviation c_minus :: nat where "c_minus \<equiv> 45"
abbreviation c_dot :: nat where "c_dot \<equiv> 46"
abbreviation c_slash :: nat where "c_slash \<equiv> 47"
abbreviation c_colon :: nat where "c_colon \<equiv> 58"
abbreviation c_semi :: nat where "c_semi \<equiv> 59"
abbreviation c_lt :: nat where "c_lt \<equiv> 60"
abbreviation c_gt :: nat where "c_gt \<equiv> 62"
abbreviation c_at :: nat where "c_at \<equiv> 64"
abbreviation c_lbr :: nat where "c_lbr \<equiv> 91"
abbreviation c_bsl :: nat where "c_bsl \<equiv> 92"
abbreviation c_rbr :: nat where "c_rbr \<equiv> 93"
abbreviation c_und :: nat where "c_und \<equiv> 95"
abbreviation c_tick :: nat where "c_tick \<equiv> 96"
abbreviation c_h :: nat where "c_h \<equiv> 104"
abbreviation c_x :: nat where "c_x \<equiv> 120"
abbreviation c_pipe :: nat where "c_pipe \<equiv> 124"
abbreviation c_tilde :: nat where "c_tilde \<equiv> 126"

definition blank_char :: "nat \<Rightarrow> bool" where
  "blank_char c = (c = c_space \<or> c = c_tab)"

text \<open>\<open>\s\<close> of a Unicode regular expression.\<close>

definition is_space :: "nat \<Rightarrow> bool" where
  "is_space c = ((9 \<le> c \<and> c \<le> 13) \<or> c = 32 \<or> c = 160 \<or> c = 5760 \<or> (8192 \<le> c \<and> c \<le> 8202)
     \<or> c = 8232 \<or> c = 8233 \<or> c = 8239 \<or> c = 8287 \<or> c = 12288 \<or> c = 65279)"

text \<open>ASCII's characters of the classes \<open>P\<close> and \<open>S\<close>.\<close>

definition ascii_mark :: "nat \<Rightarrow> bool" where
  "ascii_mark c = ((33 \<le> c \<and> c \<le> 47) \<or> (58 \<le> c \<and> c \<le> 64) \<or> (91 \<le> c \<and> c \<le> 96) \<or> (123 \<le> c \<and> c \<le> 126))"

text \<open>\<open>NOT_WORD\<close>; \<open>mark\<close> is the Unicode database's answer for a code point past ASCII.\<close>

definition not_word :: "(nat \<Rightarrow> bool) \<Rightarrow> nat \<Rightarrow> bool" where
  "not_word mark c = (is_space c \<or> ascii_mark c \<or> (128 \<le> c \<and> mark c))"

definition ends_with_word_char :: "(nat \<Rightarrow> bool) \<Rightarrow> utext \<Rightarrow> bool" where
  "ends_with_word_char mark s = (s \<noteq> [] \<and> \<not> not_word mark (last s))"

definition is_word_char :: "(nat \<Rightarrow> bool) \<Rightarrow> nat \<Rightarrow> bool" where
  "is_word_char mark c = (\<not> not_word mark c)"

definition is_digit :: "nat \<Rightarrow> bool" where
  "is_digit c = (48 \<le> c \<and> c \<le> 57)"

definition is_hex_digit :: "nat \<Rightarrow> bool" where
  "is_hex_digit c = (is_digit c \<or> (65 \<le> c \<and> c \<le> 70) \<or> (97 \<le> c \<and> c \<le> 102))"

definition is_ascii_alpha :: "nat \<Rightarrow> bool" where
  "is_ascii_alpha c = ((65 \<le> c \<and> c \<le> 90) \<or> (97 \<le> c \<and> c \<le> 122))"

definition is_delimiter :: "nat \<Rightarrow> bool" where
  "is_delimiter c = (c \<in> {32, 58, 59, 41, 44, 33, 46, 63, 93, 10})"

definition is_delimiter_or_number :: "nat \<Rightarrow> bool" where
  "is_delimiter_or_number c = (is_digit c \<or> is_delimiter c)"

text \<open>Whether a backslash before the character consumes it.\<close>

definition is_escaped_char :: "nat \<Rightarrow> bool" where
  "is_escaped_char c = (\<not> (is_digit c \<or> is_ascii_alpha c))"

definition u_starts_with :: "utext \<Rightarrow> utext \<Rightarrow> bool" where
  "u_starts_with s pre = (take (length pre) s = pre)"

definition u_ends_with :: "utext \<Rightarrow> nat \<Rightarrow> bool" where
  "u_ends_with s c = (s \<noteq> [] \<and> last s = c)"

definition is_blank :: "utext \<Rightarrow> bool" where
  "is_blank s = list_all blank_char s"

text \<open>\<open>/^[ \t]+$/\<close>\<close>

definition blank_run :: "utext \<Rightarrow> bool" where
  "blank_run s = (s \<noteq> [] \<and> is_blank s)"

definition trim_blank :: "utext \<Rightarrow> utext" where
  "trim_blank s = rev (dropWhile blank_char (rev (dropWhile blank_char s)))"

definition trim_space :: "utext \<Rightarrow> utext" where
  "trim_space s = rev (dropWhile is_space (rev (dropWhile is_space s)))"

section \<open>Headings\<close>

text \<open>\<open>ATX_CLOSE_TAIL\<close>, \<open>/[ \t]*(?:#+[ \t]*)?$/\<close>, and its removal at the leftmost place it matches.\<close>

definition atx_tail :: "utext \<Rightarrow> bool" where
  "atx_tail s = (let r = dropWhile blank_char s
     in r = [] \<or> (hd r = c_hash \<and> dropWhile blank_char (dropWhile (\<lambda>c. c = c_hash) r) = []))"

fun strip_atx :: "utext \<Rightarrow> utext" where
  "strip_atx [] = []"
| "strip_atx (c # cs) = (if atx_tail (c # cs) then [] else c # strip_atx cs)"

section \<open>Table rows\<close>

text \<open>The characters of \<open>DELIMITER_ROW_CHARS\<close>.\<close>

definition delimiter_row_char :: "nat \<Rightarrow> bool" where
  "delimiter_row_char c = (c \<in> {c_minus, c_space, c_tab, c_pipe, c_colon})"

text \<open>\<open>fence\<close> is the length of the open run of backticks; the cell under way comes before the cells to come.\<close>

function cells_from :: "nat \<Rightarrow> utext \<Rightarrow> utext \<Rightarrow> utext list" where
  "cells_from fence cell [] = (if cell = [] then [] else [cell])"
| "cells_from fence cell (c # cs) =
     (if c = c_bsl \<and> cs \<noteq> [] then cells_from fence (cell @ [c, hd cs]) (tl cs)
      else if c = c_tick then
        (let n = Suc (length (takeWhile (\<lambda>x. x = c_tick) cs));
             fence' = (if fence = 0 then n else if fence = n then 0 else fence)
         in cells_from fence' (cell @ replicate n c_tick) (dropWhile (\<lambda>x. x = c_tick) cs))
      else if c = c_pipe \<and> fence = 0 then cell # cells_from fence [] cs
      else cells_from fence (cell @ [c]) cs)"
  by pat_completeness auto
termination
  by (relation "measure (\<lambda>(fence, cell, s). length s)") (auto simp: less_Suc_eq_le length_dropWhile_le)

definition table_row_cells :: "utext \<Rightarrow> utext list" where
  "table_row_cells row =
     (let body = trim_blank row
      in cells_from 0 [] (if body \<noteq> [] \<and> hd body = c_pipe then tl body else body))"

text \<open>\<open>/^[ \t]*[-*+][ \t]/\<close>\<close>

definition bullet_line :: "utext \<Rightarrow> bool" where
  "bullet_line row =
     (case dropWhile blank_char row of
        a # b # _ \<Rightarrow> a \<in> {c_minus, c_star, c_plus} \<and> blank_char b
      | _ \<Rightarrow> False)"

definition drop_colon :: "utext \<Rightarrow> utext" where
  "drop_colon s = (if s \<noteq> [] \<and> hd s = c_colon then tl s else s)"

text \<open>\<open>/^[ \t]*:?-+:?[ \t]*$/\<close>\<close>

definition delimiter_cell :: "utext \<Rightarrow> bool" where
  "delimiter_cell cell =
     (let s = drop_colon (dropWhile blank_char cell)
      in s \<noteq> [] \<and> hd s = c_minus
         \<and> is_blank (drop_colon (dropWhile (\<lambda>c. c = c_minus) s)))"

definition is_delimiter_row :: "utext \<Rightarrow> utext list \<Rightarrow> nat \<Rightarrow> bool" where
  "is_delimiter_row row cells header_cells =
     (if bullet_line row then False
      else if cells = [] \<or> length cells \<noteq> header_cells then False
      else list_all delimiter_cell cells)"

definition cell_alignment :: "utext \<Rightarrow> utext" where
  "cell_alignment cell =
     (let c = trim_space cell
      in if \<not> (c \<noteq> [] \<and> hd c = c_colon) then (if u_ends_with c c_colon then tx ''right'' else [])
         else if u_ends_with c c_colon then tx ''center'' else tx ''left'')"

fun join_commas :: "utext list \<Rightarrow> utext" where
  "join_commas [] = []"
| "join_commas [s] = s"
| "join_commas (s # t # ss) = s @ 44 # join_commas (t # ss)"

definition column_alignments :: "utext list \<Rightarrow> utext" where
  "column_alignments cells =
     (let out = map cell_alignment cells
      in if list_ex (\<lambda>a. a \<noteq> []) out then join_commas out else [])"

section \<open>Fences\<close>

definition is_fence_close :: "utext \<Rightarrow> nat \<Rightarrow> bool" where
  "is_fence_close line fence_start =
     (let s = (if line \<noteq> [] \<and> hd line = c_nl then tl line else line);
          r = dropWhile (\<lambda>c. c = c_space) s
      in length (takeWhile (\<lambda>c. c = c_space) s) \<le> 3
         \<and> fence_start \<le> length (takeWhile (\<lambda>c. c = c_tick) r)
         \<and> is_blank (dropWhile (\<lambda>c. c = c_tick) r))"

section \<open>Destinations\<close>

record destination =
  d_url :: utext
  d_title :: "utext option"
  d_open :: bool

text \<open>Up to the \<open>>\<close> that ends an angle destination; the rest starts with it, or is empty where there is none.\<close>

fun scan_angle :: "utext \<Rightarrow> utext \<Rightarrow> utext \<times> utext" where
  "scan_angle url [] = (url, [])"
| "scan_angle url [c] = (if c = c_gt then (url, [c]) else (url @ [c], []))"
| "scan_angle url (c # e # cs) =
     (if c = c_gt then (url, c # e # cs)
      else if c = c_bsl then scan_angle (url @ [c, e]) cs
      else scan_angle (url @ [c]) (e # cs))"

text \<open>Up to the blank that ends a bare destination, with the depth of its open parentheses.\<close>

fun scan_bare :: "int \<Rightarrow> utext \<Rightarrow> utext \<Rightarrow> int \<times> utext \<times> utext" where
  "scan_bare depth url [] = (depth, url, [])"
| "scan_bare depth url [c] =
     (if blank_char c then (depth, url, [c])
      else (if c = c_lpar then depth + 1 else if c = c_rpar then depth - 1 else depth, url @ [c], []))"
| "scan_bare depth url (c # e # cs) =
     (if c = c_bsl then scan_bare depth (url @ [c, e]) cs
      else if blank_char c then (depth, url, c # e # cs)
      else scan_bare (if c = c_lpar then depth + 1 else if c = c_rpar then depth - 1 else depth) (url @ [c]) (e # cs))"

text \<open>A title up to its closer, with what follows it.\<close>

fun scan_title :: "nat \<Rightarrow> utext \<Rightarrow> utext \<Rightarrow> utext \<times> utext option" where
  "scan_title close title [] = (title, None)"
| "scan_title close title [c] = (if c = close then (title, Some []) else (title @ [c], None))"
| "scan_title close title (c # e # cs) =
     (if c = c_bsl then scan_title close (title @ (if is_escaped_char e then [e] else [c, e])) cs
      else if c = close then (title, Some (e # cs))
      else scan_title close (title @ [c]) (e # cs))"

definition title_close :: "nat \<Rightarrow> nat option" where
  "title_close c = (if c = 34 then Some 34 else if c = 39 then Some 39 else if c = c_lpar then Some c_rpar else None)"

text \<open>What follows the destination: nothing but blanks, a title, or a run that does not read.\<close>

definition scan_rest :: "utext \<Rightarrow> utext \<Rightarrow> utext \<Rightarrow> destination" where
  "scan_rest run url rest =
     (let whole = \<lparr>d_url = run, d_title = None, d_open = False\<rparr>;
          r = dropWhile blank_char rest
      in case r of
           [] \<Rightarrow> \<lparr>d_url = url, d_title = None, d_open = False\<rparr>
         | c # cs \<Rightarrow>
             (case title_close c of
                None \<Rightarrow> whole
              | Some close \<Rightarrow>
                  if length r = length rest then whole
                  else
                    case scan_title close [] cs of
                      (title, None) \<Rightarrow>
                        if close = c_rpar then \<lparr>d_url = run, d_title = None, d_open = True\<rparr> else whole
                    | (title, Some after) \<Rightarrow>
                        if dropWhile blank_char after = [] then \<lparr>d_url = url, d_title = Some title, d_open = False\<rparr>
                        else whole))"

definition scan_destination :: "utext \<Rightarrow> destination" where
  "scan_destination run =
     (if run \<noteq> [] \<and> hd run = c_lt then
        (case scan_angle [] (tl run) of
           (url, []) \<Rightarrow> \<lparr>d_url = run, d_title = None, d_open = True\<rparr>
         | (url, _ # rest) \<Rightarrow> scan_rest run url rest)
      else
        (case scan_bare 0 [] run of
           (depth, url, rest) \<Rightarrow>
             if 0 < depth then \<lparr>d_url = run, d_title = None, d_open = True\<rparr>
             else scan_rest run url rest))"

section \<open>Bare URLs and autolinks\<close>

definition raw_url_tail :: "nat \<Rightarrow> bool" where
  "raw_url_tail c = (c \<in> {42, 95, 126, 96, 46, 44, 58, 59, 33, 63, 39, 34})"

definition is_cjk_punctuation :: "nat \<Rightarrow> bool" where
  "is_cjk_punctuation c = ((12288 \<le> c \<and> c \<le> 12351) \<or> (65280 \<le> c \<and> c \<le> 65381))"

definition cjk_separator :: "nat \<Rightarrow> bool" where
  "cjk_separator c = (c \<in> {65292, 12289, 65307, 65306, 65380})"

definition url_tail_char :: "nat \<Rightarrow> bool" where
  "url_tail_char c = (raw_url_tail c \<or> is_cjk_punctuation c)"

definition split_raw_url_tail :: "utext \<Rightarrow> utext \<times> utext" where
  "split_raw_url_tail pending =
     (rev (dropWhile url_tail_char (rev pending)), rev (takeWhile url_tail_char (rev pending)))"

text \<open>\<open>BR_CANDIDATE\<close>, \<open>/^<br *\/? *$/\<close>\<close>

definition br_candidate :: "utext \<Rightarrow> bool" where
  "br_candidate s =
     (u_starts_with s (tx ''<br'')
      \<and> (let r = dropWhile (\<lambda>c. c = c_space) (drop 3 s);
             r' = (if r \<noteq> [] \<and> hd r = c_slash then tl r else r)
         in list_all (\<lambda>c. c = c_space) r'))"

definition scheme_char :: "nat \<Rightarrow> bool" where
  "scheme_char c = (is_ascii_alpha c \<or> is_digit c \<or> c \<in> {43, 46, 45})"

text \<open>\<open>URI_AUTOLINK\<close>, \<open>/^[A-Za-z][A-Za-z0-9+.-]{1,31}:[^\s<>]*$/\<close>\<close>

definition uri_autolink :: "utext \<Rightarrow> bool" where
  "uri_autolink s =
     (let scheme = takeWhile (\<lambda>c. c \<noteq> c_colon) s; rest = dropWhile (\<lambda>c. c \<noteq> c_colon) s
      in rest \<noteq> [] \<and> 2 \<le> length scheme \<and> length scheme \<le> 32 \<and> is_ascii_alpha (hd scheme)
         \<and> list_all scheme_char (tl scheme)
         \<and> list_all (\<lambda>c. \<not> is_space c \<and> c \<noteq> c_lt \<and> c \<noteq> c_gt) (tl rest))"

definition email_local_char :: "nat \<Rightarrow> bool" where
  "email_local_char c = (is_ascii_alpha c \<or> is_digit c
     \<or> c \<in> {46, 33, 35, 36, 37, 38, 39, 42, 43, 47, 61, 63, 94, 95, 96, 123, 124, 125, 126, 45})"

definition alnum :: "nat \<Rightarrow> bool" where
  "alnum c = (is_ascii_alpha c \<or> is_digit c)"

definition domain_label :: "utext \<Rightarrow> bool" where
  "domain_label s = (s \<noteq> [] \<and> length s \<le> 63 \<and> alnum (hd s) \<and> alnum (last s)
     \<and> list_all (\<lambda>c. alnum c \<or> c = c_minus) s)"

fun split_at :: "nat \<Rightarrow> utext \<Rightarrow> utext \<Rightarrow> utext list" where
  "split_at d part [] = [part]"
| "split_at d part (c # cs) = (if c = d then part # split_at d [] cs else split_at d (part @ [c]) cs)"

definition email_autolink :: "utext \<Rightarrow> bool" where
  "email_autolink s =
     (let local = takeWhile (\<lambda>c. c \<noteq> c_at) s; rest = dropWhile (\<lambda>c. c \<noteq> c_at) s
      in rest \<noteq> [] \<and> local \<noteq> [] \<and> list_all email_local_char local
         \<and> list_all domain_label (split_at c_dot [] (tl rest)))"

definition autolink_url :: "utext \<Rightarrow> utext option" where
  "autolink_url content =
     (if uri_autolink content then Some content
      else if email_autolink content then Some (tx ''mailto:'' @ content) else None)"

definition can_continue_angle :: "utext \<Rightarrow> nat \<Rightarrow> bool" where
  "can_continue_angle pending c =
     (if c = c_space then br_candidate pending else c \<noteq> c_tab \<and> c \<noteq> c_nl \<and> c \<noteq> c_lt)"
end
