(* ===== verification/MdStack.thy ===== *)
theory MdStack
  imports MdEntities
begin

text \<open>
  The state of the streaming Markdown parser and the operations on its token stack (\<open>smd-parser-types.ts\<close>).
  The renderer's calls are recorded in order in \<open>mp_out\<close>; the parser never reads them. Each call
  returns: that of the document's renderer (\<open>smd-renderer.ts\<close>) throws when a token is added below its root, after an
  underflow, and what the parser records after such a call is not written. \<open>mp_mark\<close> is the
  Unicode database's test for punctuation and symbols past ASCII, the same for every call. The typed arrays
  \<open>tokens\<close> and \<open>spaces\<close> are functions of an index: a write outside of the capacity is dropped, as
  JavaScript drops it, and a read there gives \<open>NO_TOKEN\<close> or 0. \<open>delims\<close> is a plain array, which keeps a
  write at any index.
\<close>

section \<open>Tokens, attributes, renderer calls\<close>

datatype md_token =
    NO_TOKEN | DOCUMENT | PARAGRAPH | HEADING_1 | HEADING_2 | HEADING_3 | HEADING_4 | HEADING_5 | HEADING_6
  | CODE_BLOCK | CODE_FENCE | CODE_INLINE | ITALIC_AST | ITALIC_UND | STRONG_AST | STRONG_UND | STRIKE
  | LINK | RAW_URL | IMAGE | BLOCKQUOTE | LINE_BREAK | RULE | LIST_UNORDERED | LIST_ORDERED | LIST_ITEM
  | CHECKBOX | TABLE | TABLE_ROW | TABLE_CELL | EQUATION_BLOCK | EQUATION_INLINE
  | NEWLINE | MAYBE_URL | MAYBE_TASK | MAYBE_ANGLE | MAYBE_EQ_BLOCK | MAYBE_ENTITY

datatype md_attr = HREF | SRC | LANG | CHECKED | START | UNCLOSED | ALIGN | TITLE

datatype md_call = Add_token md_token | End_token | Add_text utext | Set_attr md_attr utext

definition token_array_cap :: int where
  "token_array_cap = 24"

record md_parser =
  mp_out :: "md_call list"
  mp_mark :: "nat \<Rightarrow> bool"
  text_buf :: utext
  mp_pending :: utext
  mp_tokens :: "int \<Rightarrow> md_token"
  mp_delims :: "int \<Rightarrow> utext"
  mp_len :: int
  mp_token :: md_token
  mp_spaces :: "int \<Rightarrow> nat"
  mp_indent :: utext
  indent_len :: nat
  fence_end :: nat
  fence_start :: nat
  blockquote_idx :: int
  hr_char :: utext
  hr_chars :: nat
  table_state :: nat
  prev_is_word :: bool
  link_depth :: nat
  at_end :: bool
  atx_close :: bool

definition md_parser0 :: "(nat \<Rightarrow> bool) \<Rightarrow> md_parser" where
  "md_parser0 mark = \<lparr>mp_out = [], mp_mark = mark, text_buf = [], mp_pending = [],
     mp_tokens = (\<lambda>i. if i = 0 then DOCUMENT else NO_TOKEN), mp_delims = (\<lambda>i. []), mp_len = 0, mp_token = DOCUMENT,
     mp_spaces = (\<lambda>i. 0), mp_indent = [], indent_len = 0, fence_end = 0, fence_start = 0, blockquote_idx = 0,
     hr_char = [], hr_chars = 0, table_state = 0, prev_is_word = False, link_depth = 0, at_end = False,
     atx_close = False\<rparr>"

section \<open>Calls\<close>

definition emit :: "md_call \<Rightarrow> md_parser \<Rightarrow> md_parser" where
  "emit c p = p\<lparr>mp_out := mp_out p @ [c]\<rparr>"

definition top_token :: "md_parser \<Rightarrow> md_token" where
  "top_token p = mp_tokens p (mp_len p)"

definition buffer :: "utext \<Rightarrow> md_parser \<Rightarrow> md_parser" where
  "buffer s p = p\<lparr>text_buf := text_buf p @ s\<rparr>"

definition prev_is_word_char :: "md_parser \<Rightarrow> bool" where
  "prev_is_word_char p = (if text_buf p = [] then prev_is_word p else ends_with_word_char (mp_mark p) (text_buf p))"

definition emit_leaf :: "md_token \<Rightarrow> md_attr option \<Rightarrow> md_parser \<Rightarrow> md_parser" where
  "emit_leaf t attr p =
     (let p1 = emit (Add_token t) (p\<lparr>prev_is_word := False\<rparr>);
          p2 = (case attr of None \<Rightarrow> p1 | Some a \<Rightarrow> emit (Set_attr a []) p1)
      in emit End_token p2)"

definition add_text :: "md_parser \<Rightarrow> md_parser" where
  "add_text p =
     (if text_buf p = [] then p
      else emit (Add_text (text_buf p))
             (p\<lparr>prev_is_word := ends_with_word_char (mp_mark p) (text_buf p), text_buf := []\<rparr>))"

section \<open>The token stack\<close>

definition end_token :: "md_parser \<Rightarrow> md_parser" where
  "end_token p =
     emit End_token (p\<lparr>prev_is_word := False, mp_len := mp_len p - 1, mp_token := mp_tokens p (mp_len p - 1)\<rparr>)"

definition is_inline_token :: "md_token \<Rightarrow> bool" where
  "is_inline_token t =
     (t \<in> {ITALIC_AST, ITALIC_UND, STRONG_AST, STRONG_UND, STRIKE, CODE_INLINE, LINK, IMAGE, EQUATION_INLINE})"

definition end_token_unresolved :: "md_parser \<Rightarrow> md_parser" where
  "end_token_unresolved p = end_token (emit (Set_attr UNCLOSED (mp_delims p (mp_len p))) p)"

definition end_token_or_unresolved :: "md_parser \<Rightarrow> md_parser" where
  "end_token_or_unresolved p = (if is_inline_token (top_token p) then end_token_unresolved p else end_token p)"

definition has_token_room :: "int \<Rightarrow> int \<Rightarrow> bool" where
  "has_token_room len n = (len + n \<le> token_array_cap - 1)"

definition set_token :: "int \<Rightarrow> md_token \<Rightarrow> (int \<Rightarrow> md_token) \<Rightarrow> int \<Rightarrow> md_token" where
  "set_token i t f = (if 0 \<le> i \<and> i < token_array_cap then f(i := t) else f)"

text \<open>The push, and whether it was not refused.\<close>

definition add_token :: "md_token \<Rightarrow> md_parser \<Rightarrow> md_parser \<times> bool" where
  "add_token t p =
     (let p1 = (if top_token p \<in> {LIST_ORDERED, LIST_UNORDERED} \<and> t \<noteq> LIST_ITEM then end_token p else p)
      in if token_array_cap - 1 \<le> mp_len p1 then (p1, False)
         else (emit (Add_token t)
                 (p1\<lparr>prev_is_word := False, mp_len := mp_len p1 + 1,
                    mp_tokens := set_token (mp_len p1 + 1) t (mp_tokens p1), mp_token := t\<rparr>), True))"

definition set_delim :: "utext \<Rightarrow> md_parser \<Rightarrow> md_parser" where
  "set_delim delim p = p\<lparr>mp_delims := (mp_delims p)(mp_len p := delim)\<rparr>"

definition add_inline_token :: "md_token \<Rightarrow> utext \<Rightarrow> md_parser \<Rightarrow> md_parser" where
  "add_inline_token t delim p =
     (case add_token t p of (p1, True) \<Rightarrow> set_delim delim p1 | (p1, False) \<Rightarrow> buffer delim p1)"

definition idx_of_token :: "md_parser \<Rightarrow> md_token \<Rightarrow> int \<Rightarrow> int" where
  "idx_of_token p t start_idx =
     (case List.find (\<lambda>i. mp_tokens p i = t) [start_idx..mp_len p] of None \<Rightarrow> - 1 | Some i \<Rightarrow> i)"

lemma end_token_len [simp]:
  "mp_len (end_token p) = mp_len p - 1" "mp_len (emit c p) = mp_len p"
  "mp_len (end_token_or_unresolved p) = mp_len p - 1"
  by (simp_all add: end_token_def emit_def end_token_or_unresolved_def end_token_unresolved_def)

text \<open>The loop of both bulk closes.\<close>

function close_to :: "int \<Rightarrow> md_parser \<Rightarrow> md_parser" where
  "close_to len p = (if len < mp_len p then close_to len (end_token_or_unresolved p) else p)"
  by pat_completeness auto
termination
  by (relation "measure (\<lambda>(len, p). nat (mp_len p - len))") auto

declare close_to.simps [simp del]

definition end_tokens_to_len :: "int \<Rightarrow> md_parser \<Rightarrow> md_parser" where
  "end_tokens_to_len len p = close_to len ((add_text p)\<lparr>fence_start := 0\<rparr>)"

fun indent_walk :: "md_parser \<Rightarrow> int list \<Rightarrow> int \<Rightarrow> int \<Rightarrow> int \<times> int" where
  "indent_walk p [] indent idx = (indent, idx)"
| "indent_walk p (i # is) indent idx =
     (let indent' = indent - int (mp_spaces p i)
      in if indent' < 0 then (indent', idx)
         else indent_walk p is indent' (if mp_tokens p i \<in> {CODE_BLOCK, CODE_FENCE, BLOCKQUOTE, LIST_ITEM} then i else idx))"

text \<open>The closes a line of this indent makes, and the indent left over.\<close>

definition end_tokens_to_indent :: "int \<Rightarrow> md_parser \<Rightarrow> md_parser \<times> int" where
  "end_tokens_to_indent indent p =
     (let p1 = add_text p; (left, idx) = indent_walk p1 [0..mp_len p1] indent 0
      in (close_to idx p1, left))"

section \<open>Lists\<close>

datatype list_open = Created | Continued | No_room

text \<open>\<open>list_idx\<close> and \<open>item_idx\<close>: the list that matches and the item the line belongs to, or -1.\<close>

fun list_walk :: "md_parser \<Rightarrow> md_token \<Rightarrow> utext \<Rightarrow> int list \<Rightarrow> int \<times> int \<Rightarrow> int \<times> int" where
  "list_walk p t delim [] (list_idx, item_idx) = (list_idx, item_idx)"
| "list_walk p t delim (i # is) (list_idx, item_idx) =
     (if mp_tokens p i = LIST_ITEM then
        (if indent_len p < mp_spaces p i then (list_idx, - 1)
         else list_walk p t delim is (list_idx, i))
      else if mp_tokens p i = t \<and> mp_delims p i = delim then list_walk p t delim is (i, item_idx)
      else list_walk p t delim is (list_idx, item_idx))"

definition open_list :: "md_token \<Rightarrow> utext \<Rightarrow> md_parser \<Rightarrow> md_parser" where
  "open_list t delim p = set_delim delim (fst (add_token t p))"

definition continue_or_add_list :: "md_token \<Rightarrow> utext \<Rightarrow> md_parser \<Rightarrow> md_parser \<times> list_open" where
  "continue_or_add_list t delim p =
     (let (list_idx, item_idx) = list_walk p t delim [blockquote_idx p + 1..mp_len p] (- 1, - 1)
      in if item_idx = - 1 then
           if list_idx = - 1 then
             if \<not> has_token_room (blockquote_idx p) 2 then (p, No_room)
             else (open_list t delim (end_tokens_to_len (blockquote_idx p) p), Created)
           else if \<not> has_token_room list_idx 1 then (p, No_room)
           else (end_tokens_to_len list_idx p, Continued)
         else if \<not> has_token_room item_idx 2 then (p, No_room)
         else (open_list t delim (end_tokens_to_len item_idx p), Created))"

definition clear_root_pending :: "md_parser \<Rightarrow> md_parser" where
  "clear_root_pending p =
     p\<lparr>mp_indent := [], indent_len := 0, mp_pending := [], prev_is_word := False, link_depth := 0\<rparr>"

text \<open>\<open>spaces\<close> holds bytes, so the column wraps.\<close>

definition set_spaces :: "int \<Rightarrow> nat \<Rightarrow> (int \<Rightarrow> nat) \<Rightarrow> int \<Rightarrow> nat" where
  "set_spaces i n f = (if 0 \<le> i \<and> i < token_array_cap then f(i := n mod 256) else f)"

definition add_list_item :: "nat \<Rightarrow> md_parser \<Rightarrow> md_parser" where
  "add_list_item prefix_length p =
     (let p1 = fst (add_token LIST_ITEM p);
          p2 = p1\<lparr>mp_spaces := set_spaces (mp_len p1) (indent_len p1 + prefix_length) (mp_spaces p1)\<rparr>
      in (clear_root_pending p2)\<lparr>mp_token := MAYBE_TASK\<rparr>)"

definition heading_from_level :: "nat \<Rightarrow> md_token" where
  "heading_from_level level =
     (if level = 1 then HEADING_1 else if level = 2 then HEADING_2 else if level = 3 then HEADING_3
      else if level = 4 then HEADING_4 else if level = 5 then HEADING_5 else HEADING_6)"

section \<open>What a handler does\<close>

text \<open>
  A handler leaves the character to the checks after it, or takes it, or takes it and writes texts: each of
  them is a nested \<open>p.write\<close>, which every handler makes last.
\<close>

datatype md_action = Fall md_parser | Taken md_parser | Writes md_parser "utext list"

definition set_pending :: "utext \<Rightarrow> md_parser \<Rightarrow> md_parser" where
  "set_pending s p = p\<lparr>mp_pending := s\<rparr>"

text \<open>\<open>p.token = p.tokens[p.len]\<close>\<close>

definition resume_token :: "md_parser \<Rightarrow> md_parser" where
  "resume_token p = p\<lparr>mp_token := top_token p\<rparr>"

definition first_is :: "utext \<Rightarrow> nat \<Rightarrow> bool" where
  "first_is s c = (s \<noteq> [] \<and> hd s = c)"
end
