(* ===== verification/MdBlocks.thy ===== *)
theory MdBlocks
  imports MdStack
begin

text \<open>
  The block handlers of \<open>smd-parser-handlers.ts\<close>: what a line starts, headings, tables, code blocks and
  fences, task markers. \<open>pwc\<close> is \<open>pending_with_char\<close>, which the caller reads before the handler runs.
  In the root context a case that breaks answers \<open>Fall\<close> and the line is promoted to a paragraph or to code.
\<close>

section \<open>The root context\<close>

definition root_newline :: "md_parser \<Rightarrow> nat \<Rightarrow> md_action" where
  "root_newline p c =
     (if top_token p = LIST_ITEM \<and> mp_token p = LINE_BREAK then
        Taken (set_pending [c] (clear_root_pending (end_token p)))
      else
        let p1 = (clear_root_pending (end_tokens_to_len (blockquote_idx p) p))\<lparr>blockquote_idx := 0, fence_start := 0\<rparr>;
            p2 = (if has_token_room (mp_len p1) 1 then p1 else buffer [c_nl] p1)
        in Taken (set_pending [c] p2))"

definition root_hash :: "md_parser \<Rightarrow> nat \<Rightarrow> utext \<Rightarrow> md_action" where
  "root_hash p c pwc =
     (if c = c_hash then
        (if length (mp_pending p) < 6 then Taken (set_pending pwc p) else Fall p)
      else if c = c_space \<or> c = c_nl then
        let p1 = fst (end_tokens_to_indent (int (indent_len p)) p);
            (p2, opened) = add_token (heading_from_level (length (mp_pending p1))) p1;
            p3 = (if opened then p2 else buffer (mp_indent p2 @ pwc) p2);
            p4 = clear_root_pending p3
        in Taken (if opened then
                    (if c = c_nl then set_pending [c] (p4\<lparr>atx_close := True\<rparr>) else p4\<lparr>atx_close := True\<rparr>)
                  else p4)
      else Fall p)"

definition root_quote :: "md_parser \<Rightarrow> nat \<Rightarrow> md_action" where
  "root_quote p c =
     (let next_idx = idx_of_token p BLOCKQUOTE (blockquote_idx p + 1)
      in if next_idx = - 1 then
           (case add_token BLOCKQUOTE (end_tokens_to_len (blockquote_idx p) p) of
              (p1, False) \<Rightarrow> Fall p1
            | (p1, True) \<Rightarrow>
                Taken (set_pending [c] (clear_root_pending
                  (p1\<lparr>blockquote_idx := blockquote_idx p1 + 1, fence_start := 0\<rparr>))))
         else Taken (set_pending [c] (clear_root_pending (p\<lparr>blockquote_idx := next_idx\<rparr>))))"

definition root_bullet :: "md_parser \<Rightarrow> utext \<Rightarrow> md_action" where
  "root_bullet p pwc =
     (if \<not> first_is (mp_pending p) c_und \<and> 1 < length (mp_pending p) \<and> mp_pending p ! 1 = c_space then
        (case continue_or_add_list LIST_UNORDERED [] p of
           (p1, No_room) \<Rightarrow> Fall p1
         | (p1, _) \<Rightarrow> Writes (add_list_item 2 p1) [drop 2 pwc])
      else Fall p)"

definition root_rule :: "md_parser \<Rightarrow> nat \<Rightarrow> utext \<Rightarrow> md_action" where
  "root_rule p c pwc =
     (let p1 = (if hr_chars p = 0 then p\<lparr>hr_chars := 1, hr_char := mp_pending p\<rparr> else p)
      in if hr_char p1 = [c] then Taken (set_pending pwc (p1\<lparr>hr_chars := hr_chars p1 + 1\<rparr>))
         else if c = c_space then Taken (set_pending pwc p1)
         else if c = c_nl \<and> 3 \<le> hr_chars p1 then
           Taken ((clear_root_pending (emit_leaf RULE None (fst (end_tokens_to_indent (int (indent_len p1)) p1))))
                    \<lparr>hr_chars := 0\<rparr>)
         else root_bullet (p1\<lparr>hr_chars := 0\<rparr>) pwc)"

definition root_fence :: "md_parser \<Rightarrow> nat \<Rightarrow> utext \<Rightarrow> md_action" where
  "root_fence p c pwc =
     (if length (mp_pending p) < 3 then
        (if c = c_tick then Taken (set_pending pwc (p\<lparr>fence_start := length pwc\<rparr>))
         else Fall (p\<lparr>fence_start := 0\<rparr>))
      else if c = c_tick then
        (if length (mp_pending p) = fence_start p then Taken (set_pending pwc (p\<lparr>fence_start := length pwc\<rparr>))
         else case add_token PARAGRAPH p of
                (p1, True) \<Rightarrow> Writes ((clear_root_pending p1)\<lparr>fence_start := 0\<rparr>) [pwc]
              | (p1, False) \<Rightarrow> Taken ((clear_root_pending (buffer pwc p1))\<lparr>fence_start := 0\<rparr>))
      else if c = c_nl then
        let p1 = fst (end_tokens_to_indent (int (indent_len p)) p)
        in (case add_token CODE_FENCE p1 of
              (p2, False) \<Rightarrow> Taken ((clear_root_pending (buffer (mp_indent p2 @ pwc) p2))\<lparr>fence_start := 0\<rparr>)
            | (p2, True) \<Rightarrow>
                let p3 = (if fence_start p2 < length (mp_pending p2)
                          then emit (Set_attr LANG (drop (fence_start p2) (mp_pending p2))) p2 else p2)
                in Taken ((clear_root_pending p3)\<lparr>fence_end := 0, mp_token := NEWLINE\<rparr>))
      else Taken (set_pending pwc p))"

definition root_plus :: "md_parser \<Rightarrow> nat \<Rightarrow> md_action" where
  "root_plus p c =
     (if c \<noteq> c_space then Fall p
      else case continue_or_add_list LIST_UNORDERED [] p of
             (p1, No_room) \<Rightarrow> Fall p1
           | (p1, _) \<Rightarrow> Taken (add_list_item 2 p1))"

definition root_digit :: "md_parser \<Rightarrow> nat \<Rightarrow> utext \<Rightarrow> md_action" where
  "root_digit p c pwc =
     (let pending = mp_pending p
      in if u_ends_with pending c_dot \<or> u_ends_with pending c_rpar then
           if c \<noteq> c_space then Fall p
           else (case continue_or_add_list LIST_ORDERED [last pending] p of
                   (p1, No_room) \<Rightarrow> Fall p1
                 | (p1, opened) \<Rightarrow>
                     let p2 = (if opened = Created \<and> butlast pending \<noteq> tx ''1''
                               then emit (Set_attr START (butlast pending)) p1 else p1)
                     in Taken (add_list_item (length pending + 1) p2))
         else if c = c_dot \<or> c = c_rpar \<or> (is_digit c \<and> length pending < 9) then Taken (set_pending pwc p)
         else Fall p)"

definition root_table :: "md_parser \<Rightarrow> utext \<Rightarrow> utext \<Rightarrow> md_action" where
  "root_table p header delim =
     (let cells = table_row_cells delim
      in if \<not> is_delimiter_row delim cells (length (table_row_cells header)) then Fall p
         else
           let p1 = end_tokens_to_len (blockquote_idx p) p
           in if \<not> has_token_room (mp_len p1) 3 then Fall p1
              else
                let p2 = fst (add_token TABLE p1);
                    align = column_alignments cells;
                    p3 = (if align \<noteq> [] then emit (Set_attr ALIGN align) p2 else p2);
                    p4 = set_pending [] (fst (add_token TABLE_ROW p3))
                in Writes p4 [drop 1 header @ [c_nl] @ delim @ [c_nl]])"

definition root_pipe :: "md_parser \<Rightarrow> nat \<Rightarrow> utext \<Rightarrow> md_action" where
  "root_pipe p c pwc =
     (let pending = mp_pending p; held = c_nl \<in> set pending
      in if held \<and> c = c_nl then
           root_table p (takeWhile (\<lambda>x. x \<noteq> c_nl) pending) (tl (dropWhile (\<lambda>x. x \<noteq> c_nl) pending))
         else if at_end p then Fall p
         else if \<not> held \<or> delimiter_row_char c then Taken (set_pending pwc p)
         else Fall p)"

definition root_arm :: "md_parser \<Rightarrow> nat \<Rightarrow> nat \<Rightarrow> utext \<Rightarrow> md_action" where
  "root_arm p first c pwc =
     (if first = c_space then
        Taken (p\<lparr>mp_pending := [c], mp_indent := mp_indent p @ [c_space], indent_len := indent_len p + 1\<rparr>)
      else if first = c_tab then
        Taken (p\<lparr>mp_pending := [c], mp_indent := mp_indent p @ [c_tab], indent_len := indent_len p + 4\<rparr>)
      else if first = c_nl then root_newline p c
      else if first = c_hash then root_hash p c pwc
      else if first = c_gt then root_quote p c
      else if first = c_minus \<or> first = c_star \<or> first = c_und then root_rule p c pwc
      else if first = c_tick then root_fence p c pwc
      else if first = c_plus then root_plus p c
      else if is_digit first then root_digit p c pwc
      else if first = c_pipe then root_pipe p c pwc
      else Fall p)"

text \<open>The columns of the indent an indented code block takes: up to its fourth character or its first tab.\<close>

definition code_start :: "utext \<Rightarrow> nat" where
  "code_start indent =
     (let n = length (takeWhile (\<lambda>c. c \<noteq> c_tab) (take 4 indent))
      in if n < length (take 4 indent) then n + 1 else 4)"

definition promote :: "md_parser \<Rightarrow> utext \<Rightarrow> md_action" where
  "promote p pwc =
     (let (p1, pushed, to_write) =
            (if mp_token p = LINE_BREAK then (emit_leaf LINE_BREAK None (resume_token p), True, pwc)
             else if 4 \<le> indent_len p then
               (let (p1, ok) = add_token CODE_BLOCK p in (p1, ok, drop (code_start (mp_indent p)) (mp_indent p) @ pwc))
             else (let (p1, ok) = add_token PARAGRAPH p in (p1, ok, pwc)))
      in if pushed then Writes (clear_root_pending p1) [to_write]
         else
           let utext = mp_indent p1 @ pwc; p2 = buffer utext (clear_root_pending p1)
           in Taken (if u_ends_with utext c_nl then p2\<lparr>blockquote_idx := 0, fence_start := 0\<rparr> else p2))"

definition handle_root_context :: "md_parser \<Rightarrow> nat \<Rightarrow> utext \<Rightarrow> md_action" where
  "handle_root_context p c pwc =
     (case mp_pending p of
        [] \<Rightarrow> Taken (set_pending [c] p)
      | first # _ \<Rightarrow> (case root_arm p first c pwc of Fall p1 \<Rightarrow> promote p1 pwc | a \<Rightarrow> a))"

section \<open>Headings and tables\<close>

definition handle_heading :: "md_parser \<Rightarrow> nat \<Rightarrow> utext \<Rightarrow> md_action" where
  "handle_heading p c pwc =
     (if c = c_nl then
        Fall (if atx_close p \<or> blank_run (mp_pending p)
              then (buffer (strip_atx (mp_pending p)) p)\<lparr>mp_pending := [], atx_close := False\<rparr> else p)
      else if c = c_hash then
        (if atx_close p \<or> blank_run (mp_pending p) then Taken (p\<lparr>mp_pending := pwc, atx_close := True\<rparr>)
         else Fall (p\<lparr>atx_close := False\<rparr>))
      else if blank_char c \<and> atx_close p \<and> c_hash \<in> set (mp_pending p) then Taken (set_pending pwc p)
      else Fall (if \<not> blank_char c then p\<lparr>atx_close := False\<rparr> else p))"

definition handle_table :: "md_parser \<Rightarrow> nat \<Rightarrow> utext \<Rightarrow> md_action" where
  "handle_table p c pwc =
     (if table_state p = 1 then
        (if c = c_nl then Taken (p\<lparr>table_state := 2, mp_pending := []\<rparr>)
         else if delimiter_row_char c then Taken (set_pending pwc p)
         else Fall ((end_token p)\<lparr>table_state := 0\<rparr>))
      else if mp_pending p = [c_pipe] then Writes (set_pending [] (fst (add_token TABLE_ROW p))) [[c]]
      else if mp_pending p = [c_nl] then Writes ((end_token p)\<lparr>mp_pending := [], table_state := 0\<rparr>) [[c]]
      else Fall p)"

definition handle_table_row :: "md_parser \<Rightarrow> nat \<Rightarrow> md_action" where
  "handle_table_row p c =
     (if mp_pending p = [] then Fall p
      else if mp_pending p = [c_pipe] then Writes (set_pending [] (end_token (fst (add_token TABLE_CELL p)))) [[c]]
      else if mp_pending p = [c_nl] then
        Writes ((end_token p)\<lparr>table_state := min (table_state p + 1) 2, mp_pending := []\<rparr>) [[c]]
      else if is_blank (mp_pending p) \<and> c = c_nl then Taken (set_pending [c] p)
      else if is_blank (mp_pending p) \<and> blank_char c then Taken p
      else Writes (fst (add_token TABLE_CELL p)) [[c]])"

definition handle_table_cell :: "md_parser \<Rightarrow> nat \<Rightarrow> md_action" where
  "handle_table_cell p c =
     (if mp_pending p = [c_pipe] then Writes (set_pending [] (end_token (add_text p))) [[c]]
      else if mp_pending p = [c_nl] then Writes (set_pending [c_nl] (end_token (add_text p))) [[c]]
      else Fall p)"

section \<open>Code\<close>

definition handle_code_block :: "md_parser \<Rightarrow> nat \<Rightarrow> utext \<Rightarrow> md_action" where
  "handle_code_block p c pwc =
     (if pwc \<in> {[10, 32, 32, 32, 32], [10, 32, 32, 32, 9], [10, 32, 32, 9], [10, 32, 9], [10, 9]} then
        Taken (set_pending [] (buffer [c_nl] p))
      else if pwc \<in> {[10], [10, 32], [10, 32, 32], [10, 32, 32, 32]} then Taken (set_pending pwc p)
      else if mp_pending p \<noteq> [] then Taken (set_pending [c] (end_token (add_text p)))
      else Taken (buffer [c] p))"

definition handle_code_fence :: "md_parser \<Rightarrow> nat \<Rightarrow> utext \<Rightarrow> md_action" where
  "handle_code_fence p c pwc =
     (if fence_end p = 0 \<and> (c = c_tick \<or> blank_char c) then Taken (set_pending pwc p)
      else if fence_end p = 0 \<and> c = c_nl \<and> is_fence_close (mp_pending p) (fence_start p) then
        Taken ((end_token (add_text p))\<lparr>mp_pending := [], fence_start := 0, fence_end := 0, mp_token := NEWLINE\<rparr>)
      else if c = c_nl then
        Taken ((buffer (mp_pending p) p)\<lparr>mp_pending := [c], mp_token := NEWLINE, fence_end := 0\<rparr>)
      else Taken (set_pending [] (buffer pwc (if fence_end p = 0 then p\<lparr>fence_end := 1\<rparr> else p))))"

definition handle_code_inline :: "md_parser \<Rightarrow> nat \<Rightarrow> utext \<Rightarrow> md_action" where
  "handle_code_inline p c pwc =
     (if c = c_tick then
        (if length pwc = fence_start p + (if first_is (mp_pending p) c_space then 1 else 0)
         then Taken ((end_token (add_text p))\<lparr>mp_pending := [], fence_start := 0\<rparr>)
         else Taken (set_pending pwc p))
      else if c = c_nl then
        Taken (add_text ((buffer (mp_pending p) p)\<lparr>mp_pending := [], mp_token := LINE_BREAK, blockquote_idx := 0\<rparr>))
      else if c = c_space then Taken (set_pending [c] (buffer (mp_pending p) p))
      else Taken (set_pending [] (buffer pwc p)))"

section \<open>Task markers\<close>

definition handle_maybe_task :: "md_parser \<Rightarrow> nat \<Rightarrow> utext \<Rightarrow> md_action" where
  "handle_maybe_task p c pwc =
     (let n = length (mp_pending p)
      in if (n = 0 \<and> c = c_lbr) \<or> (n = 1 \<and> (c = c_space \<or> c = c_x)) \<or> (n = 2 \<and> c = c_rbr) then Taken (set_pending pwc p)
         else if n = 3 \<and> c = c_space then
           Taken (set_pending [c_space]
             (emit_leaf CHECKBOX (if mp_pending p ! 1 = c_x then Some CHECKED else None) p))
         else Writes (set_pending [] (resume_token p)) [pwc])"
end
