(* ===== verification/MdInline.thy ===== *)
theory MdInline
  imports MdBlocks
begin

text \<open>
  The inline handlers of \<open>smd-parser-handlers.ts\<close>: emphasis, equations, URLs, links, the held runs after
  \<open><\<close> and \<open>&\<close>, and the checks every token falls back on.
\<close>

section \<open>Emphasis\<close>

definition handle_strong :: "md_parser \<Rightarrow> nat \<Rightarrow> md_action" where
  "handle_strong p c =
     (let und = (mp_token p = STRONG_UND);
          symbol = (if und then c_und else c_star);
          italic = (if und then ITALIC_UND else ITALIC_AST)
      in if mp_pending p = [symbol] then
           (if c = symbol then Taken (set_pending [] (end_token (add_text p)))
            else if und \<and> prev_is_word_char p then Fall p
            else Taken (set_pending [c] (add_inline_token italic [symbol] (add_text p))))
         else Fall p)"

definition handle_italic :: "md_parser \<Rightarrow> nat \<Rightarrow> utext \<Rightarrow> md_action" where
  "handle_italic p c pwc =
     (let und = (mp_token p = ITALIC_UND);
          symbol = (if und then c_und else c_star);
          strong = (if und then STRONG_UND else STRONG_AST)
      in if mp_pending p = [symbol] then
           (if c = symbol then
              (if mp_tokens p (mp_len p - 1) = strong then Taken (set_pending pwc p)
               else if und \<and> prev_is_word_char p then Taken (set_pending [] (buffer pwc p))
               else Taken (set_pending [] (add_inline_token strong [symbol, symbol] (add_text p))))
            else if und \<and> prev_is_word_char p \<and> is_word_char (mp_mark p) c then
              Taken (set_pending [c] (buffer (mp_pending p) p))
            else Taken (set_pending [c] (end_token (add_text p))))
         else if mp_pending p = [symbol, symbol] then
           (let p1 = end_token (end_token (add_text p))
            in if c \<noteq> symbol then Taken (set_pending [c] (add_inline_token (mp_token p) [symbol] p1))
               else Taken (set_pending [] p1))
         else Fall p)"

definition handle_strike :: "md_parser \<Rightarrow> utext \<Rightarrow> md_action" where
  "handle_strike p pwc =
     (if pwc = [c_tilde, c_tilde] then Taken (set_pending [] (end_token (add_text p))) else Fall p)"

section \<open>Equations\<close>

definition handle_maybe_eq_block :: "md_parser \<Rightarrow> nat \<Rightarrow> md_action" where
  "handle_maybe_eq_block p c =
     (if c = c_nl then
        (case add_token EQUATION_BLOCK (add_text p) of
           (p1, True) \<Rightarrow> Taken (set_pending [] p1)
         | (p1, False) \<Rightarrow> Taken (set_pending [] (buffer (mp_pending p1 @ [c]) (resume_token p1))))
      else
        Writes (set_pending [] (buffer [if first_is (mp_pending p) c_bsl then c_lbr else c_dollar] (resume_token p))) [[c]])"

definition handle_equation_block :: "md_parser \<Rightarrow> utext \<Rightarrow> md_action" where
  "handle_equation_block p pwc =
     (if pwc = [c_bsl, c_rbr] \<or> pwc = [c_dollar] \<or> pwc = [c_dollar, c_dollar]
      then Taken (set_pending [] (end_token (add_text p))) else Fall p)"

definition handle_equation_inline :: "md_parser \<Rightarrow> nat \<Rightarrow> utext \<Rightarrow> md_action" where
  "handle_equation_inline p c pwc =
     (if pwc = [c_bsl, c_rpar] \<or> first_is (mp_pending p) c_dollar
      then Taken (set_pending (if c = c_rpar then [] else [c]) (end_token (add_text p))) else Fall p)"

section \<open>URLs\<close>

definition char_at :: "utext \<Rightarrow> nat \<Rightarrow> nat option" where
  "char_at s i = (if i < length s then Some (s ! i) else None)"

definition handle_maybe_url :: "md_parser \<Rightarrow> nat \<Rightarrow> utext \<Rightarrow> md_action" where
  "handle_maybe_url p c pwc =
     (if pwc = tx ''http://'' \<or> pwc = tx ''https://'' then
        (case add_token RAW_URL (add_text p) of
           (p1, True) \<Rightarrow> Taken (p1\<lparr>mp_pending := pwc, text_buf := pwc\<rparr>)
         | (p1, False) \<Rightarrow> Taken (set_pending [] (buffer pwc (resume_token p1))))
      else if char_at (tx ''http:/'') (length (mp_pending p)) = Some c
              \<or> char_at (tx ''https:/'') (length (mp_pending p)) = Some c then Taken (set_pending pwc p)
      else Writes (resume_token p) [[c]])"

definition end_raw_url :: "md_parser \<Rightarrow> utext \<Rightarrow> md_action" where
  "end_raw_url p trailing =
     (let (url, tail) = split_raw_url_tail (mp_pending p)
      in Writes (set_pending [] (end_token (add_text (emit (Set_attr HREF url) p)))) (map (\<lambda>c. [c]) (tail @ trailing)))"

definition handle_raw_url :: "md_parser \<Rightarrow> nat \<Rightarrow> utext \<Rightarrow> md_action" where
  "handle_raw_url p c pwc =
     (if c = c_space \<or> c = c_nl \<or> c = c_bsl then end_raw_url p [c]
      else if url_tail_char c then
        (if c = c_tick \<and> mp_pending p \<noteq> [] \<and> cjk_separator (last (mp_pending p)) then end_raw_url p [c]
         else Taken (set_pending pwc p))
      else Taken (set_pending pwc (buffer (snd (split_raw_url_tail (mp_pending p)) @ [c]) p)))"

section \<open>Links\<close>

text \<open>The innermost open token of \<open>wanted\<close> reachable through inline tokens, searched downwards, or -1.\<close>

fun enclosing_walk :: "md_parser \<Rightarrow> md_token set \<Rightarrow> int list \<Rightarrow> int" where
  "enclosing_walk p wanted [] = - 1"
| "enclosing_walk p wanted (i # is) =
     (if mp_tokens p i \<in> wanted then i
      else if \<not> is_inline_token (mp_tokens p i) then - 1
      else enclosing_walk p wanted is)"

definition enclosing_idx :: "md_parser \<Rightarrow> md_token set \<Rightarrow> int" where
  "enclosing_idx p wanted = enclosing_walk p wanted (rev [1..mp_len p])"

definition handle_link_or_image :: "md_parser \<Rightarrow> nat \<Rightarrow> utext \<Rightarrow> md_action" where
  "handle_link_or_image p c pwc =
     (let pending = mp_pending p
      in if pending = [c_lbr] then
           Taken (set_pending [c] (buffer pending (p\<lparr>link_depth := link_depth p + 1\<rparr>)))
         else if pending = [c_rbr] then
           (if 0 < link_depth p then Taken (set_pending [c] (buffer pending (p\<lparr>link_depth := link_depth p - 1\<rparr>)))
            else if c = c_lpar then Taken (set_pending pwc (add_text p))
            else Taken (set_pending [c] (buffer [c_rbr] (end_token_unresolved (add_text p)))))
         else if take 2 pending = [c_rbr, c_lpar] then
           (if c \<noteq> c_rpar then Taken (set_pending (pending @ [c]) p)
            else
              let dest = scan_destination (drop 2 pending)
              in if d_open dest then Taken (set_pending (pending @ [c]) p)
                 else
                   let p1 = emit (Set_attr (if mp_token p = LINK then HREF else SRC) (decode_entities (d_url dest))) p;
                       p2 = (case d_title dest of None \<Rightarrow> p1 | Some t \<Rightarrow> emit (Set_attr TITLE (decode_entities t)) p1)
                   in Taken (set_pending [] (end_token p2)))
         else Fall p)"

section \<open>Held runs\<close>

definition handle_maybe_angle :: "md_parser \<Rightarrow> nat \<Rightarrow> utext \<Rightarrow> md_action" where
  "handle_maybe_angle p c pwc =
     (let label = decode_entities (drop 1 (mp_pending p));
          literal = Writes (set_pending (drop 1 (mp_pending p)) (buffer [c_lt] (resume_token p))) [[c]]
      in if c = c_gt then
           (if br_candidate (mp_pending p) then
              Taken (set_pending [] (emit_leaf LINE_BREAK None (resume_token (add_text p))))
            else case autolink_url label of
                   None \<Rightarrow> literal
                 | Some url \<Rightarrow>
                     if enclosing_idx p {LINK, IMAGE} \<noteq> - 1 then literal
                     else
                       let p1 = resume_token (add_text p)
                       in if \<not> has_token_room (mp_len p1) 1 then
                            Taken (set_pending [] (buffer (mp_pending p1 @ [c]) p1))
                          else
                            Taken (set_pending [] (end_token (emit (Set_attr HREF url)
                              (add_text (buffer label (add_inline_token LINK [c_lt] p1)))))))
         else if can_continue_angle (mp_pending p) c then Taken (set_pending pwc p)
         else literal)"

definition handle_maybe_entity :: "md_parser \<Rightarrow> nat \<Rightarrow> utext \<Rightarrow> md_action" where
  "handle_maybe_entity p c pwc =
     (if c = c_semi then
        Taken (set_pending []
          (buffer (case decode_entity (drop 1 (mp_pending p)) of None \<Rightarrow> pwc | Some d \<Rightarrow> [d]) (resume_token p)))
      else if can_continue_entity (mp_pending p) c then Taken (set_pending pwc p)
      else Writes (set_pending [] (buffer (mp_pending p) (resume_token p))) [[c]])"

section \<open>The checks every token falls back on\<close>

definition in_equation :: "md_parser \<Rightarrow> bool" where
  "in_equation p = (mp_token p = EQUATION_BLOCK \<or> mp_token p = EQUATION_INLINE)"

definition is_heading_token :: "md_token \<Rightarrow> bool" where
  "is_heading_token t = (t \<in> {HEADING_1, HEADING_2, HEADING_3, HEADING_4, HEADING_5, HEADING_6})"

definition common_backslash :: "md_parser \<Rightarrow> nat \<Rightarrow> utext \<Rightarrow> md_action" where
  "common_backslash p c pwc =
     (if mp_token p = IMAGE \<or> in_equation p then Fall p
      else if c = c_lpar then Taken (set_pending [] (add_inline_token EQUATION_INLINE [c_bsl, c_lpar] (add_text p)))
      else if c = c_lbr then Taken (p\<lparr>mp_token := MAYBE_EQ_BLOCK, mp_pending := pwc\<rparr>)
      else if c = c_nl then Taken (set_pending [c] (if at_end p then buffer (mp_pending p) p else p))
      else Taken (buffer (if is_digit c \<or> is_ascii_alpha c then pwc else [c]) (set_pending [] p)))"

definition common_newline :: "md_parser \<Rightarrow> nat \<Rightarrow> md_action" where
  "common_newline p c =
     (if mp_token p = IMAGE \<or> in_equation p then Fall p
      else if is_heading_token (mp_token p) then
        Taken (set_pending [c] ((end_tokens_to_len (blockquote_idx p) (add_text p))\<lparr>blockquote_idx := 0\<rparr>))
      else Taken ((add_text p)\<lparr>mp_pending := [c], mp_token := LINE_BREAK, blockquote_idx := 0\<rparr>))"

definition common_lt :: "md_parser \<Rightarrow> utext \<Rightarrow> md_action" where
  "common_lt p pwc =
     (if mp_token p \<noteq> IMAGE \<and> \<not> in_equation p
      then Taken ((add_text p)\<lparr>mp_pending := pwc, mp_token := MAYBE_ANGLE\<rparr>) else Fall p)"

definition common_amp :: "md_parser \<Rightarrow> nat \<Rightarrow> utext \<Rightarrow> md_action" where
  "common_amp p c pwc =
     (if \<not> in_equation p \<and> can_continue_entity (mp_pending p) c
      then Taken ((add_text p)\<lparr>mp_pending := pwc, mp_token := MAYBE_ENTITY\<rparr>) else Fall p)"

definition common_tick :: "md_parser \<Rightarrow> nat \<Rightarrow> utext \<Rightarrow> md_action" where
  "common_tick p c pwc =
     (if mp_token p = IMAGE then Fall p
      else if c = c_nl then Fall (p\<lparr>fence_start := 0\<rparr>)
      else if c = c_tick then Taken (set_pending pwc (p\<lparr>fence_start := fence_start p + 1\<rparr>))
      else
        let p1 = add_text (p\<lparr>fence_start := fence_start p + 1\<rparr>);
            p2 = add_inline_token CODE_INLINE (replicate (fence_start p1) c_tick @ (if c = c_space then [c_space] else [])) p1
        in Taken (set_pending [] (if c \<noteq> c_space then buffer [c] p2 else p2)))"

definition common_emphasis :: "md_parser \<Rightarrow> nat \<Rightarrow> nat \<Rightarrow> utext \<Rightarrow> md_action" where
  "common_emphasis p symbol c pwc =
     (if mp_token p = IMAGE \<or> in_equation p \<or> mp_token p = STRONG_AST then Fall p
      else
        let und = (symbol = c_und);
            italic = (if und then ITALIC_UND else ITALIC_AST);
            strong = (if und then STRONG_UND else STRONG_AST);
            blocked = (und \<and> prev_is_word_char p)
        in if length (mp_pending p) = 1 then
             (if c = symbol then Taken (set_pending pwc p)
              else if c \<noteq> c_space \<and> c \<noteq> c_nl \<and> \<not> blocked then
                Taken (set_pending [c] (add_inline_token italic [symbol] (add_text p)))
              else Fall p)
           else if blocked then Fall p
           else if c = symbol then
             Taken (set_pending [] (add_inline_token italic [symbol] (add_inline_token strong [symbol, symbol] (add_text p))))
           else if c \<noteq> c_space \<and> c \<noteq> c_nl then
             Taken (set_pending [c] (add_inline_token strong [symbol, symbol] (add_text p)))
           else Fall p)"

definition common_tilde :: "md_parser \<Rightarrow> nat \<Rightarrow> utext \<Rightarrow> md_action" where
  "common_tilde p c pwc =
     (if mp_token p = IMAGE \<or> mp_token p = STRIKE then Fall p
      else if mp_pending p = [c_tilde] then (if c = c_tilde then Taken (set_pending pwc p) else Fall p)
      else if c \<noteq> c_space \<and> c \<noteq> c_nl then
        Taken (set_pending [c] (add_inline_token STRIKE [c_tilde, c_tilde] (add_text p)))
      else Fall p)"

definition common_dollar :: "md_parser \<Rightarrow> nat \<Rightarrow> utext \<Rightarrow> md_action" where
  "common_dollar p c pwc =
     (if mp_token p = IMAGE \<or> mp_token p = STRIKE \<or> in_equation p \<or> mp_pending p \<noteq> [c_dollar] then Fall p
      else if c = c_dollar then Taken (p\<lparr>mp_token := MAYBE_EQ_BLOCK, mp_pending := pwc\<rparr>)
      else if is_delimiter_or_number c then Fall p
      else Taken (set_pending [c] (add_inline_token EQUATION_INLINE [c_dollar] (add_text p))))"

definition common_lbr :: "md_parser \<Rightarrow> nat \<Rightarrow> md_action" where
  "common_lbr p c =
     (if mp_token p \<noteq> IMAGE \<and> mp_token p \<noteq> LINK \<and> \<not> in_equation p \<and> c \<noteq> c_rbr \<and> c \<noteq> c_nl
      then Taken ((add_inline_token LINK [c_lbr] (add_text p))\<lparr>link_depth := 0, mp_pending := [c]\<rparr>) else Fall p)"

definition common_rbr :: "md_parser \<Rightarrow> nat \<Rightarrow> utext \<Rightarrow> md_action" where
  "common_rbr p c pwc =
     (if mp_pending p = [c_rbr] \<and> link_depth p = 0 \<and> enclosing_idx p {LINK, IMAGE} \<noteq> - 1
      then handle_link_or_image (end_tokens_to_len (enclosing_idx p {LINK, IMAGE}) (add_text p)) c pwc
      else Fall p)"

definition common_pipe :: "md_parser \<Rightarrow> nat \<Rightarrow> md_action" where
  "common_pipe p c =
     (if mp_pending p = [c_pipe] \<and> enclosing_idx p {TABLE_CELL} \<noteq> - 1
      then handle_table_cell (end_tokens_to_len (enclosing_idx p {TABLE_CELL}) (add_text p)) c
      else Fall p)"

definition common_bang :: "md_parser \<Rightarrow> nat \<Rightarrow> md_action" where
  "common_bang p c =
     (if mp_token p \<noteq> IMAGE \<and> c = c_lbr
      then Taken ((add_inline_token IMAGE [c_bang, c_lbr] (add_text p))\<lparr>link_depth := 0, mp_pending := []\<rparr>) else Fall p)"

definition handle_common :: "md_parser \<Rightarrow> nat \<Rightarrow> utext \<Rightarrow> md_action" where
  "handle_common p c pwc =
     (case mp_pending p of
        [] \<Rightarrow> Fall p
      | f # fs \<Rightarrow>
          if f = c_bsl then common_backslash p c pwc
          else if f = c_nl then common_newline p c
          else if f = c_lt then common_lt p pwc
          else if f = c_amp then common_amp p c pwc
          else if f = c_tick then common_tick p c pwc
          else if f = c_und \<or> f = c_star then common_emphasis p f c pwc
          else if f = c_tilde then common_tilde p c pwc
          else if f = c_dollar then common_dollar p c pwc
          else if f = c_lbr then common_lbr p c
          else if f = c_rbr then common_rbr p c pwc
          else if f = c_pipe then common_pipe p c
          else if f = c_bang then common_bang p c
          else if f = c_space \<and> fs = [] \<and> c = c_space then Taken p
          else Fall p)"
end
