(* ===== verification/MdParser.thy ===== *)
theory MdParser
  imports MdInline "HOL-Library.While_Combinator"
begin

text \<open>
  \<open>parser_write\<close> and \<open>parser_end\<close> (\<open>smd-parser.ts\<close>). The loop over a chunk and the nested writes of its
  handlers are one machine with the stack of the loops under way: \<open>Loop cs\<close> has the characters still to come,
  and \<open>Body c cs\<close> is an iteration that has written its indent and still has to dispatch \<open>c\<close>. A machine
  that never empties its stack is a \<open>parser_write\<close> that does not return, which is the value \<open>None\<close>.
\<close>

section \<open>One character\<close>

definition handle_token :: "md_parser \<Rightarrow> nat \<Rightarrow> utext \<Rightarrow> md_action" where
  "handle_token p c pwc =
     (case mp_token p of
        LINE_BREAK \<Rightarrow> handle_root_context p c pwc
      | DOCUMENT \<Rightarrow> handle_root_context p c pwc
      | BLOCKQUOTE \<Rightarrow> handle_root_context p c pwc
      | LIST_ORDERED \<Rightarrow> handle_root_context p c pwc
      | LIST_UNORDERED \<Rightarrow> handle_root_context p c pwc
      | HEADING_1 \<Rightarrow> handle_heading p c pwc
      | HEADING_2 \<Rightarrow> handle_heading p c pwc
      | HEADING_3 \<Rightarrow> handle_heading p c pwc
      | HEADING_4 \<Rightarrow> handle_heading p c pwc
      | HEADING_5 \<Rightarrow> handle_heading p c pwc
      | HEADING_6 \<Rightarrow> handle_heading p c pwc
      | TABLE \<Rightarrow> handle_table p c pwc
      | TABLE_ROW \<Rightarrow> handle_table_row p c
      | TABLE_CELL \<Rightarrow> handle_table_cell p c
      | CODE_BLOCK \<Rightarrow> handle_code_block p c pwc
      | CODE_FENCE \<Rightarrow> handle_code_fence p c pwc
      | CODE_INLINE \<Rightarrow> handle_code_inline p c pwc
      | MAYBE_TASK \<Rightarrow> handle_maybe_task p c pwc
      | STRONG_AST \<Rightarrow> handle_strong p c
      | STRONG_UND \<Rightarrow> handle_strong p c
      | ITALIC_AST \<Rightarrow> handle_italic p c pwc
      | ITALIC_UND \<Rightarrow> handle_italic p c pwc
      | STRIKE \<Rightarrow> handle_strike p pwc
      | MAYBE_EQ_BLOCK \<Rightarrow> handle_maybe_eq_block p c
      | EQUATION_BLOCK \<Rightarrow> handle_equation_block p pwc
      | EQUATION_INLINE \<Rightarrow> handle_equation_inline p c pwc
      | MAYBE_URL \<Rightarrow> handle_maybe_url p c pwc
      | LINK \<Rightarrow> handle_link_or_image p c pwc
      | IMAGE \<Rightarrow> handle_link_or_image p c pwc
      | RAW_URL \<Rightarrow> handle_raw_url p c pwc
      | MAYBE_ANGLE \<Rightarrow> handle_maybe_angle p c pwc
      | MAYBE_ENTITY \<Rightarrow> handle_maybe_entity p c pwc
      | _ \<Rightarrow> Fall p)"

text \<open>What no handler takes may start a bare URL, or moves \<open>pending\<close> forward.\<close>

definition shift_pending :: "md_parser \<Rightarrow> nat \<Rightarrow> md_parser" where
  "shift_pending p c =
     (let starts_url = (mp_token p \<noteq> IMAGE \<and> mp_token p \<noteq> LINK \<and> \<not> in_equation p \<and> c = c_h
            \<and> (mp_pending p = [c_space] \<or> mp_pending p = []));
          p1 = set_pending [c] (buffer (mp_pending p) p)
      in if starts_url then p1\<lparr>mp_token := MAYBE_URL\<rparr> else p1)"

definition write_char :: "md_parser \<Rightarrow> nat \<Rightarrow> md_action" where
  "write_char p c =
     (let pwc = mp_pending p @ [c]
      in case handle_token p c pwc of
           Fall p1 \<Rightarrow> (case handle_common p1 c pwc of Fall p2 \<Rightarrow> Taken (shift_pending p2 c) | a \<Rightarrow> a)
         | a \<Rightarrow> a)"

section \<open>The loop\<close>

datatype md_frame = Loop utext | Body nat utext

type_synonym md_machine = "md_parser \<times> md_frame list"

definition run_body :: "md_parser \<Rightarrow> nat \<Rightarrow> utext \<Rightarrow> md_frame list \<Rightarrow> md_machine" where
  "run_body p c cs fs =
     (case write_char p c of
        Fall p1 \<Rightarrow> (p1, Loop cs # fs)
      | Taken p1 \<Rightarrow> (p1, Loop cs # fs)
      | Writes p1 ws \<Rightarrow> (p1, map Loop ws @ Loop cs # fs))"

fun md_step :: "md_machine \<Rightarrow> md_machine" where
  "md_step (p, []) = (p, [])"
| "md_step (p, Loop [] # fs) = (add_text p, fs)"
| "md_step (p, Loop (c # cs) # fs) =
     (if mp_token p \<noteq> NEWLINE then run_body p c cs fs
      else if c = c_space then (p\<lparr>indent_len := indent_len p + 1\<rparr>, Loop cs # fs)
      else if c = c_tab then (p\<lparr>indent_len := indent_len p + 4\<rparr>, Loop cs # fs)
      else
        let (p1, indent) = end_tokens_to_indent (int (indent_len p)) p;
            p2 = resume_token (p1\<lparr>indent_len := 0\<rparr>)
        in if 0 < indent then (p2, Loop (replicate (nat indent) c_space) # Body c cs # fs)
           else run_body p2 c cs fs)"
| "md_step (p, Body c cs # fs) = run_body p c cs fs"

definition running :: "md_machine \<Rightarrow> bool" where
  "running m = (snd m \<noteq> [])"

definition parser_write :: "md_parser \<Rightarrow> utext \<Rightarrow> md_parser option" where
  "parser_write p chunk = map_option fst (while_option running md_step (p, [Loop chunk]))"

section \<open>The end of the input\<close>

function end_inline :: "md_parser \<Rightarrow> md_parser" where
  "end_inline p = (if 0 \<le> mp_len p \<and> is_inline_token (top_token p) then end_inline (end_token_unresolved p) else p)"
  by pat_completeness auto
termination
  by (relation "measure (\<lambda>p. nat (mp_len p + 1))") (auto simp: end_token_unresolved_def)

declare end_inline.simps [simp del]

text \<open>What the handlers still hold is literal text; the newline written for them is not.\<close>

definition flush_held :: "md_parser \<Rightarrow> md_parser" where
  "flush_held p =
     (let held = (if u_ends_with (mp_pending p) c_nl then butlast (mp_pending p) else mp_pending p)
      in if held \<noteq> [] then add_text (buffer held (set_pending [] (resume_token p))) else p)"

definition parser_end :: "md_parser \<Rightarrow> md_parser option" where
  "parser_end p =
     (if mp_pending p = [] then Some (end_inline p)
      else map_option (\<lambda>p1. end_inline (flush_held p1)) (parser_write (p\<lparr>at_end := True\<rparr>) [c_nl]))"

definition write_all :: "md_parser \<Rightarrow> utext list \<Rightarrow> md_parser option" where
  "write_all p chunks = foldl (\<lambda>q chunk. Option.bind q (\<lambda>p. parser_write p chunk)) (Some p) chunks"
end
