(* ===== verification/MdInv.thy ===== *)
theory MdInv
  imports MdParser
begin

text \<open>
  The token stack of the Markdown parser: what each operation keeps of the state, and the invariant of the
  stack. The depth stays below the capacity; nothing is held outside of it; the current token is the top of
  the stack or one of those that are never pushed; table tokens have room above them; a fence is only open at
  the top. The depth itself may fall below zero, as it does in the source.
\<close>

section \<open>What the operations keep\<close>

named_theorems md_keep

lemma keep_add_text [simp]:
  "mp_pending (add_text p) = mp_pending p" "mp_indent (add_text p) = mp_indent p" "indent_len (add_text p) = indent_len p"
  "mp_tokens (add_text p) = mp_tokens p" "mp_len (add_text p) = mp_len p" "mp_token (add_text p) = mp_token p"
  "mp_mark (add_text p) = mp_mark p" "text_buf (add_text p) = []" "top_token (add_text p) = top_token p"
  "blockquote_idx (add_text p) = blockquote_idx p" "link_depth (add_text p) = link_depth p"
  "fence_start (add_text p) = fence_start p" "mp_delims (add_text p) = mp_delims p" "at_end (add_text p) = at_end p"
  by (simp_all add: add_text_def emit_def top_token_def)

lemma keep_emit [simp]:
  "mp_pending (emit x p) = mp_pending p" "mp_indent (emit x p) = mp_indent p" "indent_len (emit x p) = indent_len p"
  "mp_tokens (emit x p) = mp_tokens p" "mp_token (emit x p) = mp_token p" "mp_mark (emit x p) = mp_mark p"
  "text_buf (emit x p) = text_buf p" "top_token (emit x p) = top_token p" "blockquote_idx (emit x p) = blockquote_idx p"
  "link_depth (emit x p) = link_depth p" "fence_start (emit x p) = fence_start p" "at_end (emit x p) = at_end p"
  by (simp_all add: emit_def top_token_def)

lemma keep_buffer [simp]:
  "mp_pending (buffer s p) = mp_pending p" "mp_indent (buffer s p) = mp_indent p" "indent_len (buffer s p) = indent_len p"
  "mp_tokens (buffer s p) = mp_tokens p" "mp_len (buffer s p) = mp_len p" "mp_token (buffer s p) = mp_token p"
  "mp_mark (buffer s p) = mp_mark p" "top_token (buffer s p) = top_token p" "blockquote_idx (buffer s p) = blockquote_idx p"
  "text_buf (buffer s p) = text_buf p @ s" "at_end (buffer s p) = at_end p"
  by (simp_all add: buffer_def top_token_def)

lemma keep_set_pending [simp]:
  "mp_pending (set_pending s p) = s" "mp_indent (set_pending s p) = mp_indent p" "indent_len (set_pending s p) = indent_len p"
  "mp_tokens (set_pending s p) = mp_tokens p" "mp_len (set_pending s p) = mp_len p" "mp_token (set_pending s p) = mp_token p"
  "mp_mark (set_pending s p) = mp_mark p" "top_token (set_pending s p) = top_token p"
  "text_buf (set_pending s p) = text_buf p" "at_end (set_pending s p) = at_end p"
  by (simp_all add: set_pending_def top_token_def)

lemma keep_end_token [simp]:
  "mp_pending (end_token p) = mp_pending p" "mp_indent (end_token p) = mp_indent p" "indent_len (end_token p) = indent_len p"
  "mp_tokens (end_token p) = mp_tokens p" "mp_token (end_token p) = mp_tokens p (mp_len p - 1)"
  "mp_mark (end_token p) = mp_mark p" "text_buf (end_token p) = text_buf p" "top_token (end_token p) = mp_tokens p (mp_len p - 1)"
  "blockquote_idx (end_token p) = blockquote_idx p" "at_end (end_token p) = at_end p"
  by (simp_all add: end_token_def top_token_def)

lemma keep_unresolved [simp]:
  "mp_pending (end_token_unresolved p) = mp_pending p" "mp_indent (end_token_unresolved p) = mp_indent p"
  "indent_len (end_token_unresolved p) = indent_len p" "mp_tokens (end_token_unresolved p) = mp_tokens p"
  "mp_token (end_token_unresolved p) = mp_tokens p (mp_len p - 1)" "mp_len (end_token_unresolved p) = mp_len p - 1"
  "mp_mark (end_token_unresolved p) = mp_mark p" "text_buf (end_token_unresolved p) = text_buf p"
  "blockquote_idx (end_token_unresolved p) = blockquote_idx p" "at_end (end_token_unresolved p) = at_end p"
  "top_token (end_token_unresolved p) = mp_tokens p (mp_len p - 1)"
  by (simp_all add: end_token_unresolved_def)

lemma keep_or_unresolved [simp]:
  "mp_pending (end_token_or_unresolved p) = mp_pending p" "mp_indent (end_token_or_unresolved p) = mp_indent p"
  "indent_len (end_token_or_unresolved p) = indent_len p" "mp_tokens (end_token_or_unresolved p) = mp_tokens p"
  "mp_token (end_token_or_unresolved p) = mp_tokens p (mp_len p - 1)" "mp_mark (end_token_or_unresolved p) = mp_mark p"
  "text_buf (end_token_or_unresolved p) = text_buf p" "blockquote_idx (end_token_or_unresolved p) = blockquote_idx p"
  "at_end (end_token_or_unresolved p) = at_end p"
  by (simp_all add: end_token_or_unresolved_def)

lemma keep_close_to [simp]:
  "mp_pending (close_to n p) = mp_pending p" "mp_indent (close_to n p) = mp_indent p" "indent_len (close_to n p) = indent_len p"
  "mp_tokens (close_to n p) = mp_tokens p" "mp_mark (close_to n p) = mp_mark p" "text_buf (close_to n p) = text_buf p"
  "blockquote_idx (close_to n p) = blockquote_idx p" "mp_len (close_to n p) = min (mp_len p) n"
  "mp_token (close_to n p) = (if n < mp_len p then mp_tokens p n else mp_token p)" "at_end (close_to n p) = at_end p"
proof -
  have "mp_pending (close_to n p) = mp_pending p \<and> mp_indent (close_to n p) = mp_indent p
      \<and> indent_len (close_to n p) = indent_len p \<and> mp_tokens (close_to n p) = mp_tokens p \<and> mp_mark (close_to n p) = mp_mark p
      \<and> text_buf (close_to n p) = text_buf p \<and> blockquote_idx (close_to n p) = blockquote_idx p
      \<and> mp_len (close_to n p) = min (mp_len p) n
      \<and> mp_token (close_to n p) = (if n < mp_len p then mp_tokens p n else mp_token p) \<and> at_end (close_to n p) = at_end p"
  proof (induction n p rule: close_to.induct)
    case (1 n p)
    then show ?case
      using close_to.simps[of n p] by (cases "n < mp_len p"; cases "n < mp_len p - 1"; cases "n = mp_len p - 1") auto
  qed
  then show "mp_pending (close_to n p) = mp_pending p" "mp_indent (close_to n p) = mp_indent p" "indent_len (close_to n p) = indent_len p"
    "mp_tokens (close_to n p) = mp_tokens p" "mp_mark (close_to n p) = mp_mark p" "text_buf (close_to n p) = text_buf p"
    "blockquote_idx (close_to n p) = blockquote_idx p" "mp_len (close_to n p) = min (mp_len p) n"
    "mp_token (close_to n p) = (if n < mp_len p then mp_tokens p n else mp_token p)" "at_end (close_to n p) = at_end p"
    by simp_all
qed

lemma keep_to_len [simp]:
  "mp_pending (end_tokens_to_len n p) = mp_pending p" "mp_indent (end_tokens_to_len n p) = mp_indent p"
  "indent_len (end_tokens_to_len n p) = indent_len p" "mp_tokens (end_tokens_to_len n p) = mp_tokens p"
  "mp_mark (end_tokens_to_len n p) = mp_mark p" "text_buf (end_tokens_to_len n p) = []"
  "blockquote_idx (end_tokens_to_len n p) = blockquote_idx p" "mp_len (end_tokens_to_len n p) = min (mp_len p) n"
  "mp_token (end_tokens_to_len n p) = (if n < mp_len p then mp_tokens p n else mp_token p)"
  "at_end (end_tokens_to_len n p) = at_end p"
  by (simp_all add: end_tokens_to_len_def)

lemma keep_resume [simp]:
  "mp_pending (resume_token p) = mp_pending p" "mp_indent (resume_token p) = mp_indent p"
  "indent_len (resume_token p) = indent_len p" "mp_tokens (resume_token p) = mp_tokens p" "mp_len (resume_token p) = mp_len p"
  "mp_token (resume_token p) = top_token p" "mp_mark (resume_token p) = mp_mark p" "text_buf (resume_token p) = text_buf p"
  "top_token (resume_token p) = top_token p" "blockquote_idx (resume_token p) = blockquote_idx p"
  by (simp_all add: resume_token_def top_token_def)

lemma keep_leaf [simp]:
  "mp_pending (emit_leaf t a p) = mp_pending p" "mp_indent (emit_leaf t a p) = mp_indent p"
  "indent_len (emit_leaf t a p) = indent_len p" "mp_tokens (emit_leaf t a p) = mp_tokens p" "mp_len (emit_leaf t a p) = mp_len p"
  "mp_token (emit_leaf t a p) = mp_token p" "mp_mark (emit_leaf t a p) = mp_mark p" "text_buf (emit_leaf t a p) = text_buf p"
  "top_token (emit_leaf t a p) = top_token p" "blockquote_idx (emit_leaf t a p) = blockquote_idx p"
  by (simp_all add: emit_leaf_def Let_def top_token_def split: option.split)

lemma keep_clear [simp]:
  "mp_pending (clear_root_pending p) = []" "mp_indent (clear_root_pending p) = []" "indent_len (clear_root_pending p) = 0"
  "mp_tokens (clear_root_pending p) = mp_tokens p" "mp_len (clear_root_pending p) = mp_len p"
  "mp_token (clear_root_pending p) = mp_token p" "mp_mark (clear_root_pending p) = mp_mark p"
  "text_buf (clear_root_pending p) = text_buf p" "top_token (clear_root_pending p) = top_token p"
  "blockquote_idx (clear_root_pending p) = blockquote_idx p"
  by (simp_all add: clear_root_pending_def top_token_def)

lemma keep_add_token [simp]:
  "mp_pending (fst (add_token t p)) = mp_pending p" "mp_indent (fst (add_token t p)) = mp_indent p"
  "indent_len (fst (add_token t p)) = indent_len p" "mp_mark (fst (add_token t p)) = mp_mark p"
  "text_buf (fst (add_token t p)) = text_buf p" "blockquote_idx (fst (add_token t p)) = blockquote_idx p"
  by (simp_all add: add_token_def Let_def)

lemma keep_set_delim [simp]:
  "mp_pending (set_delim d p) = mp_pending p" "mp_indent (set_delim d p) = mp_indent p" "indent_len (set_delim d p) = indent_len p"
  "mp_tokens (set_delim d p) = mp_tokens p" "mp_len (set_delim d p) = mp_len p" "mp_token (set_delim d p) = mp_token p"
  "mp_mark (set_delim d p) = mp_mark p" "text_buf (set_delim d p) = text_buf p" "top_token (set_delim d p) = top_token p"
  "blockquote_idx (set_delim d p) = blockquote_idx p"
  by (simp_all add: set_delim_def top_token_def)

lemma keep_inline [simp]:
  "mp_pending (add_inline_token t d p) = mp_pending p" "mp_indent (add_inline_token t d p) = mp_indent p"
  "indent_len (add_inline_token t d p) = indent_len p" "mp_mark (add_inline_token t d p) = mp_mark p"
  using keep_add_token[of t p] by (cases "add_token t p"; simp add: add_inline_token_def split: bool.split)+

lemma keep_open_list [simp]:
  "mp_pending (open_list t d p) = mp_pending p" "mp_indent (open_list t d p) = mp_indent p"
  "indent_len (open_list t d p) = indent_len p" "mp_mark (open_list t d p) = mp_mark p"
  "text_buf (open_list t d p) = text_buf p"
  by (simp_all add: open_list_def)

lemma keep_indent [simp]:
  "mp_pending (fst (end_tokens_to_indent n p)) = mp_pending p" "mp_indent (fst (end_tokens_to_indent n p)) = mp_indent p"
  "indent_len (fst (end_tokens_to_indent n p)) = indent_len p" "mp_tokens (fst (end_tokens_to_indent n p)) = mp_tokens p"
  "mp_mark (fst (end_tokens_to_indent n p)) = mp_mark p" "text_buf (fst (end_tokens_to_indent n p)) = []"
  "blockquote_idx (fst (end_tokens_to_indent n p)) = blockquote_idx p"
  by (simp_all add: end_tokens_to_indent_def Let_def split_beta)

lemma keep_list [simp]:
  "mp_pending (fst (continue_or_add_list t d p)) = mp_pending p" "mp_indent (fst (continue_or_add_list t d p)) = mp_indent p"
  "indent_len (fst (continue_or_add_list t d p)) = indent_len p" "mp_mark (fst (continue_or_add_list t d p)) = mp_mark p"
  by (simp_all add: continue_or_add_list_def Let_def split_beta)

lemma keep_item [simp]:
  "mp_pending (add_list_item n p) = []" "mp_indent (add_list_item n p) = []" "indent_len (add_list_item n p) = 0"
  "mp_mark (add_list_item n p) = mp_mark p" "mp_token (add_list_item n p) = MAYBE_TASK"
  "text_buf (add_list_item n p) = text_buf p"
  by (simp_all add: add_list_item_def Let_def)

section \<open>The invariant of the stack\<close>

definition pseudo :: "md_token \<Rightarrow> bool" where
  "pseudo t = (t \<in> {NEWLINE, LINE_BREAK, MAYBE_URL, MAYBE_TASK, MAYBE_ANGLE, MAYBE_EQ_BLOCK, MAYBE_ENTITY})"

definition seated_at :: "(int \<Rightarrow> md_token) \<Rightarrow> int \<Rightarrow> bool" where
  "seated_at f i =
     ((f i = TABLE \<longrightarrow> i \<le> 21) \<and> (f i = TABLE_ROW \<longrightarrow> i \<le> 22)
      \<and> (f i = TABLE_CELL \<longrightarrow> f (i - 1) = TABLE_ROW \<or> i \<le> 0))"

definition stack_ok :: "(int \<Rightarrow> md_token) \<Rightarrow> int \<Rightarrow> bool" where
  "stack_ok f n =
     (n \<le> 23 \<and> (\<forall>i. i < 0 \<or> 24 \<le> i \<longrightarrow> f i = NO_TOKEN) \<and> (\<forall>i. \<not> pseudo (f i))
      \<and> (\<forall>i\<le>n. seated_at f i) \<and> (\<forall>i<n. f i \<noteq> CODE_FENCE))"

definition open_stack :: "md_parser \<Rightarrow> bool" where
  "open_stack p = (stack_ok (mp_tokens p) (mp_len p) \<and> top_token p \<noteq> CODE_FENCE)"

definition current :: "md_parser \<Rightarrow> bool" where
  "current p = (mp_token p \<noteq> NEWLINE
     \<and> (mp_token p = top_token p \<or> pseudo (mp_token p) \<or> (mp_len p < 0 \<and> mp_token p \<noteq> CODE_FENCE)))"

text \<open>In a fence, and on the lines after its opener and its close, the stack alone is constrained.\<close>

definition md_inv :: "md_parser \<Rightarrow> bool" where
  "md_inv p =
     (if mp_token p = CODE_FENCE then stack_ok (mp_tokens p) (mp_len p) \<and> indent_len p = 0 \<and> mp_indent p = []
      else if mp_token p = NEWLINE then stack_ok (mp_tokens p) (mp_len p) \<and> mp_indent p = []
       \<and> (mp_pending p = [] \<or> mp_pending p = [10])
      else open_stack p \<and> current p)"

lemma open_inv: "open_stack p \<Longrightarrow> current p \<Longrightarrow> md_inv p"
  by (auto simp: md_inv_def open_stack_def current_def pseudo_def)

lemma inv_open: "md_inv p \<Longrightarrow> mp_token p \<noteq> CODE_FENCE \<Longrightarrow> mp_token p \<noteq> NEWLINE \<Longrightarrow> open_stack p \<and> current p"
  by (simp add: md_inv_def)

lemma inv_stack: "md_inv p \<Longrightarrow> stack_ok (mp_tokens p) (mp_len p)"
  by (auto simp: md_inv_def open_stack_def split: if_splits)

lemma current_not_fence: "open_stack p \<Longrightarrow> current p \<Longrightarrow> mp_token p \<noteq> CODE_FENCE"
  by (auto simp: open_stack_def current_def pseudo_def)

section \<open>The operations keep it\<close>

lemma open_same:
  "mp_tokens q = mp_tokens p \<Longrightarrow> mp_len q = mp_len p \<Longrightarrow> open_stack q = open_stack p"
  by (simp add: open_stack_def top_token_def)

lemma open_ops [simp]:
  "open_stack (add_text p) = open_stack p" "open_stack (emit x p) = open_stack p" "open_stack (buffer s p) = open_stack p"
  "open_stack (set_pending s p) = open_stack p" "open_stack (resume_token p) = open_stack p"
  "open_stack (emit_leaf t a p) = open_stack p" "open_stack (clear_root_pending p) = open_stack p"
  "open_stack (set_delim d p) = open_stack p"
  by (rule open_same; simp)+

lemma open_fields [simp]:
  "open_stack (p\<lparr>mp_pending := s\<rparr>) = open_stack p" "open_stack (p\<lparr>text_buf := s\<rparr>) = open_stack p"
  "open_stack (p\<lparr>mp_token := t\<rparr>) = open_stack p" "open_stack (p\<lparr>indent_len := n\<rparr>) = open_stack p"
  "open_stack (p\<lparr>blockquote_idx := i\<rparr>) = open_stack p" "open_stack (p\<lparr>fence_start := n\<rparr>) = open_stack p"
  "open_stack (p\<lparr>fence_end := n\<rparr>) = open_stack p" "open_stack (p\<lparr>hr_char := s\<rparr>) = open_stack p"
  "open_stack (p\<lparr>hr_chars := n\<rparr>) = open_stack p" "open_stack (p\<lparr>table_state := n\<rparr>) = open_stack p"
  "open_stack (p\<lparr>link_depth := n\<rparr>) = open_stack p" "open_stack (p\<lparr>atx_close := b\<rparr>) = open_stack p"
  "open_stack (p\<lparr>mp_indent := s\<rparr>) = open_stack p" "open_stack (p\<lparr>mp_spaces := f\<rparr>) = open_stack p"
  "open_stack (p\<lparr>mp_out := es\<rparr>) = open_stack p" "open_stack (p\<lparr>prev_is_word := b\<rparr>) = open_stack p"
  by (rule open_same; simp)+

lemma current_same:
  "mp_tokens q = mp_tokens p \<Longrightarrow> mp_len q = mp_len p \<Longrightarrow> mp_token q = mp_token p \<Longrightarrow> current q = current p"
  by (simp add: current_def top_token_def)

lemma current_ops [simp]:
  "current (add_text p) = current p" "current (emit x p) = current p" "current (buffer s p) = current p"
  "current (set_pending s p) = current p" "current (emit_leaf t a p) = current p" "current (clear_root_pending p) = current p"
  "current (set_delim d p) = current p"
  by (rule current_same; simp)+

lemma current_fields [simp]:
  "current (p\<lparr>mp_pending := s\<rparr>) = current p" "current (p\<lparr>text_buf := s\<rparr>) = current p"
  "current (p\<lparr>indent_len := n\<rparr>) = current p"
  "current (p\<lparr>blockquote_idx := i\<rparr>) = current p" "current (p\<lparr>fence_start := n\<rparr>) = current p"
  "current (p\<lparr>fence_end := n\<rparr>) = current p" "current (p\<lparr>hr_char := s\<rparr>) = current p"
  "current (p\<lparr>hr_chars := n\<rparr>) = current p" "current (p\<lparr>table_state := n\<rparr>) = current p"
  "current (p\<lparr>link_depth := n\<rparr>) = current p" "current (p\<lparr>atx_close := b\<rparr>) = current p"
  "current (p\<lparr>mp_indent := s\<rparr>) = current p" "current (p\<lparr>mp_spaces := f\<rparr>) = current p"
  "current (p\<lparr>mp_out := es\<rparr>) = current p" "current (p\<lparr>prev_is_word := b\<rparr>) = current p"
  by (rule current_same; simp)+

lemma current_pseudo [simp]: "pseudo t \<Longrightarrow> t \<noteq> NEWLINE \<Longrightarrow> current (p\<lparr>mp_token := t\<rparr>)"
  by (simp add: current_def)

lemma pseudo_simps [simp]:
  "pseudo NEWLINE" "pseudo LINE_BREAK" "pseudo MAYBE_URL" "pseudo MAYBE_TASK" "pseudo MAYBE_ANGLE"
  "pseudo MAYBE_EQ_BLOCK" "pseudo MAYBE_ENTITY" "\<not> pseudo NO_TOKEN"
  by (simp_all add: pseudo_def)

lemma stack_token: "stack_ok f n \<Longrightarrow> f i \<noteq> NEWLINE"
  unfolding stack_ok_def by (metis pseudo_simps(1))

lemma open_token [simp]: "open_stack p \<Longrightarrow> mp_tokens p i \<noteq> NEWLINE" "open_stack p \<Longrightarrow> top_token p \<noteq> NEWLINE"
  by (auto simp: open_stack_def top_token_def stack_token)

lemma current_resume [simp]: "open_stack p \<Longrightarrow> current (resume_token p)"
  by (simp add: current_def)

lemma current_end [simp]: "open_stack p \<Longrightarrow> current (end_token p)" "open_stack p \<Longrightarrow> current (end_token_unresolved p)"
  by (simp_all add: current_def)

lemma stack_pop: "stack_ok f n \<Longrightarrow> m \<le> n \<Longrightarrow> stack_ok f m"
  by (auto simp: stack_ok_def)

lemma open_pop: "open_stack p \<Longrightarrow> mp_tokens q = mp_tokens p \<Longrightarrow> mp_len q \<le> mp_len p \<Longrightarrow> open_stack q"
  unfolding open_stack_def stack_ok_def top_token_def by (cases "mp_len q = mp_len p") auto

lemma open_end [simp]: "open_stack p \<Longrightarrow> open_stack (end_token p)" "open_stack p \<Longrightarrow> open_stack (end_token_unresolved p)"
  by (erule open_pop; simp)+

lemma open_close [simp]: "open_stack p \<Longrightarrow> open_stack (close_to n p)"
  by (erule open_pop) simp_all

lemma open_to_len [simp]: "open_stack p \<Longrightarrow> open_stack (end_tokens_to_len n p)"
  by (erule open_pop) simp_all

lemma open_indent [simp]: "open_stack p \<Longrightarrow> open_stack (fst (end_tokens_to_indent n p))"
  by (simp add: end_tokens_to_indent_def Let_def split_beta)

lemma current_close: "open_stack p \<Longrightarrow> current p \<Longrightarrow> current (close_to n p)"
  by (auto simp: current_def top_token_def min_def)

lemma current_to_len [simp]: "open_stack p \<Longrightarrow> current p \<Longrightarrow> current (end_tokens_to_len n p)"
  by (simp add: end_tokens_to_len_def current_close)

lemma current_indent [simp]: "open_stack p \<Longrightarrow> current p \<Longrightarrow> current (fst (end_tokens_to_indent n p))"
  by (simp add: end_tokens_to_indent_def Let_def split_beta current_close)

text \<open>Where a push lands: the list above an item is closed first.\<close>

definition push_at :: "md_token \<Rightarrow> md_parser \<Rightarrow> int" where
  "push_at t p = (if top_token p \<in> {LIST_ORDERED, LIST_UNORDERED} \<and> t \<noteq> LIST_ITEM then mp_len p else mp_len p + 1)"

lemma add_token_len:
  "snd (add_token t p) \<Longrightarrow> mp_len (fst (add_token t p)) = push_at t p"
  "snd (add_token t p) = (push_at t p \<le> 23)"
  "snd (add_token t p) \<Longrightarrow> mp_tokens (fst (add_token t p)) = set_token (push_at t p) t (mp_tokens p)"
  "snd (add_token t p) \<Longrightarrow> mp_token (fst (add_token t p)) = t"
  "\<not> snd (add_token t p) \<Longrightarrow> mp_len p \<le> 23 \<Longrightarrow> fst (add_token t p) = p"
  by (auto simp: add_token_def push_at_def Let_def token_array_cap_def split: if_splits)

lemma set_token_at: "n \<le> 23 \<Longrightarrow> open_stack p \<Longrightarrow> set_token n t (mp_tokens p) n = (if 0 \<le> n then t else NO_TOKEN)"
  by (auto simp: set_token_def token_array_cap_def open_stack_def stack_ok_def)

lemma stack_push:
  assumes "open_stack p" and "\<not> pseudo t"
    and "t = TABLE \<Longrightarrow> push_at t p \<le> 21" and "t = TABLE_ROW \<Longrightarrow> push_at t p \<le> 22"
    and "t = TABLE_CELL \<Longrightarrow> mp_tokens p (push_at t p - 1) = TABLE_ROW \<or> push_at t p \<le> 0"
    and "push_at t p \<le> 23"
  shows "stack_ok (set_token (push_at t p) t (mp_tokens p)) (push_at t p)"
proof -
  let ?n = "push_at t p"
  have "?n - 1 \<le> mp_len p" by (simp add: push_at_def)
  then have old: "\<forall>i<?n. seated_at (mp_tokens p) i \<and> mp_tokens p i \<noteq> CODE_FENCE"
    using assms(1) unfolding open_stack_def stack_ok_def top_token_def
    by (metis order_le_imp_less_or_eq order_trans zle_diff1_eq)
  let ?f = "set_token ?n t (mp_tokens p)"
  have same: "?f i = mp_tokens p i" if "i \<noteq> ?n" for i using that by (simp add: set_token_def)
  have "seated_at ?f i" if "i \<le> ?n" for i
  proof (cases "i = ?n")
    case True
    then show ?thesis
      using set_token_at[OF assms(6,1), of t] same[of "?n - 1"] assms(3-5) by (auto simp: seated_at_def)
  next
    case False
    then show ?thesis using that old same[of i] same[of "i - 1"] by (auto simp: seated_at_def)
  qed
  moreover have "\<forall>i. i < 0 \<or> 24 \<le> i \<longrightarrow> ?f i = NO_TOKEN"
    using assms(1,6) by (auto simp: set_token_def token_array_cap_def open_stack_def stack_ok_def)
  moreover have "\<forall>i. \<not> pseudo (?f i)"
    using assms(1,2) by (auto simp: set_token_def open_stack_def stack_ok_def)
  moreover have "\<forall>i<?n. ?f i \<noteq> CODE_FENCE" using old same by auto
  ultimately show ?thesis using assms(6) by (simp add: stack_ok_def)
qed

lemma open_push:
  assumes "open_stack p" and "\<not> pseudo t" and "t \<noteq> CODE_FENCE"
    and "t = TABLE \<Longrightarrow> push_at t p \<le> 21" and "t = TABLE_ROW \<Longrightarrow> push_at t p \<le> 22"
    and "t = TABLE_CELL \<Longrightarrow> mp_tokens p (push_at t p - 1) = TABLE_ROW \<or> push_at t p \<le> 0"
  shows "open_stack (fst (add_token t p))"
proof (cases "snd (add_token t p)")
  case True
  then have n: "push_at t p \<le> 23" using add_token_len(2) by simp
  show ?thesis
    using True set_token_at[OF n assms(1), of t] assms(3) add_token_len[of t p] stack_push[OF assms(1,2,4-6) n]
    by (simp add: open_stack_def top_token_def)
next
  case False
  have "mp_len p \<le> 23" using assms(1) by (simp add: open_stack_def stack_ok_def)
  with False assms(1) add_token_len(5)[of t p] show ?thesis by simp
qed

lemma current_push: "open_stack p \<Longrightarrow> current p \<Longrightarrow> t \<noteq> CODE_FENCE \<Longrightarrow> t \<noteq> NEWLINE \<Longrightarrow> current (fst (add_token t p))"
proof (cases "snd (add_token t p)")
  case True
  assume "open_stack p" "t \<noteq> CODE_FENCE" "t \<noteq> NEWLINE"
  have "push_at t p \<le> 23" using True add_token_len(2) by simp
  then have "set_token (push_at t p) t (mp_tokens p) (push_at t p) = t \<or> push_at t p < 0"
    by (simp add: set_token_def token_array_cap_def)
  then show ?thesis using True \<open>t \<noteq> CODE_FENCE\<close> \<open>t \<noteq> NEWLINE\<close> add_token_len[of t p] by (auto simp: current_def top_token_def)
next
  case False
  assume "open_stack p" "current p"
  with False add_token_len(5)[of t p] show ?thesis by (simp add: open_stack_def stack_ok_def)
qed

definition plain_token :: "md_token \<Rightarrow> bool" where
  "plain_token t = (\<not> pseudo t \<and> t \<notin> {CODE_FENCE, TABLE, TABLE_ROW, TABLE_CELL})"

lemma open_plain [simp]: "open_stack p \<Longrightarrow> plain_token t \<Longrightarrow> open_stack (fst (add_token t p))"
  by (rule open_push) (auto simp: plain_token_def)

lemma current_plain [simp]: "open_stack p \<Longrightarrow> current p \<Longrightarrow> plain_token t \<Longrightarrow> current (fst (add_token t p))"
  by (rule current_push) (auto simp: plain_token_def)

lemma plain_simps [simp]:
  "plain_token PARAGRAPH" "plain_token CODE_BLOCK" "plain_token BLOCKQUOTE" "plain_token LIST_ITEM" "plain_token LIST_UNORDERED"
  "plain_token LIST_ORDERED" "plain_token (heading_from_level n)" "plain_token CODE_INLINE" "plain_token ITALIC_AST"
  "plain_token ITALIC_UND" "plain_token STRONG_AST" "plain_token STRONG_UND" "plain_token STRIKE" "plain_token LINK"
  "plain_token IMAGE" "plain_token RAW_URL" "plain_token EQUATION_BLOCK" "plain_token EQUATION_INLINE"
  by (simp_all add: plain_token_def pseudo_def heading_from_level_def)

lemma add_inline_cases:
  "add_inline_token t d p = (if snd (add_token t p) then set_delim d (fst (add_token t p)) else buffer d (fst (add_token t p)))"
  by (cases "add_token t p") (auto simp: add_inline_token_def split: bool.split)

lemma open_inline [simp]: "open_stack p \<Longrightarrow> plain_token t \<Longrightarrow> open_stack (add_inline_token t d p)"
  by (simp add: add_inline_cases)

lemma current_inline [simp]: "open_stack p \<Longrightarrow> current p \<Longrightarrow> plain_token t \<Longrightarrow> current (add_inline_token t d p)"
  by (simp add: add_inline_cases)

lemma open_open_list [simp]: "open_stack p \<Longrightarrow> plain_token t \<Longrightarrow> open_stack (open_list t d p)"
  by (simp add: open_list_def)

lemma current_open_list [simp]: "open_stack p \<Longrightarrow> current p \<Longrightarrow> plain_token t \<Longrightarrow> current (open_list t d p)"
  by (simp add: open_list_def)

lemma open_list_op [simp]: "open_stack p \<Longrightarrow> plain_token t \<Longrightarrow> open_stack (fst (continue_or_add_list t d p))"
  by (simp add: continue_or_add_list_def Let_def split_beta)

lemma current_list_op [simp]:
  "open_stack p \<Longrightarrow> current p \<Longrightarrow> plain_token t \<Longrightarrow> current (fst (continue_or_add_list t d p))"
  by (simp add: continue_or_add_list_def Let_def split_beta)

lemma open_item [simp]: "open_stack p \<Longrightarrow> open_stack (add_list_item n p)"
  by (simp add: add_list_item_def Let_def)

lemma current_item [simp]: "current (add_list_item n p)"
  by (simp add: add_list_item_def Let_def)
end
