(* ===== verification/MdSound.thy ===== *)
theory MdSound
  imports MdInv
begin

text \<open>
  Why \<open>parser_write\<close> returns. A character costs its weight while it is in a chunk, in \<open>pending\<close> or in the
  indent, and nothing once it is committed; a tab costs as much as the four spaces a line start turns it into,
  and one more. A handler that writes texts again either has committed something or has moved to a state of a
  lower rank. The rank orders the tokens by what a write may lead to without committing anything.
\<close>

section \<open>Weights and ranks\<close>

definition wt :: "nat \<Rightarrow> nat" where
  "wt c = (if c = c_tab then 5 else 1)"

definition wts :: "utext \<Rightarrow> nat" where
  "wts s = sum_list (map wt s)"

lemma wt_pos [simp]: "0 < wt c" "Suc 0 \<le> wt c"
  by (simp_all add: wt_def)

lemma wts_simps [simp]: "wts [] = 0" "wts (c # s) = wt c + wts s" "wts (s @ t) = wts s + wts t" "wts (rev s) = wts s"
  by (simp_all add: wts_def rev_map[symmetric] sum_list_rev)

lemma wts_pos: "s \<noteq> [] \<Longrightarrow> 0 < wts s"
  by (cases s) simp_all

lemma wts_drop: "wts (drop n s) \<le> wts s"
  by (metis append_take_drop_id le_add2 wts_simps(3))

lemma wts_drop_less: "0 < n \<Longrightarrow> s \<noteq> [] \<Longrightarrow> wts (drop n s) < wts s"
proof -
  assume "0 < n" "s \<noteq> []"
  then have "take n s \<noteq> []" by simp
  then have "0 < wts (take n s)" by (rule wts_pos)
  then show ?thesis by (metis add_less_same_cancel2 append_take_drop_id less_add_same_cancel2 wts_simps(3))
qed

lemma wts_spaces: "wts (replicate n c_space) = n"
  by (induction n) (simp_all add: wt_def)

definition cost :: "md_parser \<Rightarrow> nat" where
  "cost p = wts (mp_pending p) + wts (mp_indent p)"

definition total :: "md_parser \<Rightarrow> nat" where
  "total p = cost p + (if mp_token p = NEWLINE then indent_len p else 0)"

definition stack_rank :: "int \<Rightarrow> md_token \<Rightarrow> utext \<Rightarrow> nat" where
  "stack_rank n t s =
     (if t = RAW_URL then (if fst (split_raw_url_tail s) = [] then 300 + 2 * nat (n + 1) else 10)
      else if t = CODE_FENCE then (if first_is s c_nl then 90 else if s = [] then 104 else 102)
      else if t = DOCUMENT \<or> t = BLOCKQUOTE \<or> t = LIST_ORDERED \<or> t = LIST_UNORDERED then (if s = [] then 62 else 60)
      else if t = TABLE then (if s = [] then 301 + 2 * nat (n + 1) else if first_is s c_nl then 95 else 300 + 2 * nat (n + 1))
      else if t = TABLE_ROW then (if s = [] then 40 else if first_is s c_nl then 12 else 30)
      else if t = TABLE_CELL then (if s = [] then 20 else if s = [c_nl] then 15 else 10)
      else if s = [] then 20 else 10)"

definition rank_of :: "int \<Rightarrow> md_token \<Rightarrow> md_token \<Rightarrow> utext \<Rightarrow> nat" where
  "rank_of n t u s =
     (if t = NEWLINE then (if first_is s c_nl then 101 else 450)
      else if t = LINE_BREAK \<or> t = MAYBE_TASK then 420
      else if t = MAYBE_URL then 1 + stack_rank n u s
      else if t = MAYBE_EQ_BLOCK \<or> t = MAYBE_ANGLE \<or> t = MAYBE_ENTITY then (if s = [] then 410 else 5)
      else stack_rank n t s)"

definition rank :: "md_parser \<Rightarrow> nat" where
  "rank p = rank_of (mp_len p) (mp_token p) (top_token p) (mp_pending p)"

lemma first_is_simps [simp]: "\<not> first_is [] c" "first_is (a # s) c = (a = c)"
  by (simp_all add: first_is_def)

lemma split_tail_append: "fst (split_raw_url_tail s) \<noteq> [] \<Longrightarrow> fst (split_raw_url_tail (s @ t)) \<noteq> []"
  by (auto simp: split_raw_url_tail_def dropWhile_eq_Nil_conv)

lemma stack_rank_append: "stack_rank n t (s @ r) \<le> stack_rank n t s"
proof (cases s)
  case Nil
  then show ?thesis by (simp add: stack_rank_def split_raw_url_tail_def)
next
  case (Cons a s')
  show ?thesis
  proof (cases "t = RAW_URL")
    case True
    then show ?thesis using split_tail_append[of s r] by (auto simp: stack_rank_def)
  next
    case False
    then show ?thesis unfolding Cons by (cases t) (auto simp: stack_rank_def)
  qed
qed

lemma rank_of_append: "rank_of n t u (s @ r) \<le> rank_of n t u s"
  using stack_rank_append[of n t s r] stack_rank_append[of n u s r] by (cases s; cases t) (simp_all add: rank_of_def)

lemma rank_append: "rank (set_pending (mp_pending p @ r) p) \<le> rank p"
  by (simp add: rank_def rank_of_append)

lemma rank_same:
  "mp_pending q = mp_pending p \<Longrightarrow> mp_token q = mp_token p \<Longrightarrow> top_token q = top_token p \<Longrightarrow> mp_len q = mp_len p
   \<Longrightarrow> rank q = rank p"
  by (simp add: rank_def)

section \<open>What a handler owes\<close>

fun sound :: "md_parser \<Rightarrow> nat \<Rightarrow> md_action \<Rightarrow> bool" where
  "sound p c (Fall q) = (md_inv q \<and> \<not> pseudo (mp_token q) \<and> mp_token q \<noteq> CODE_FENCE
     \<and> (total q < total p \<or> (total q = total p \<and> rank q \<le> rank p)))"
| "sound p c (Taken q) = (md_inv q \<and> (total q < total p + wt c \<or> (total q = total p + wt c \<and> rank q \<le> rank p)))"
| "sound p c (Writes q ws) = (md_inv q
     \<and> (total q + sum_list (map wts ws) < total p + wt c
        \<or> (total q + sum_list (map wts ws) = total p + wt c \<and> rank q < rank p)))"

lemma total_open: "open_stack q \<Longrightarrow> current q \<Longrightarrow> total q = cost q"
  by (simp add: total_def current_def)

lemma total_ge: "cost p \<le> total p"
  by (simp add: total_def)

lemma taken_less:
  "open_stack q \<Longrightarrow> current q \<Longrightarrow> cost q < cost p + wt c \<Longrightarrow> sound p c (Taken q)"
  using total_open[of q] total_ge[of p] by (simp add: open_inv)

lemma taken_same:
  "open_stack q \<Longrightarrow> current q \<Longrightarrow> cost q \<le> cost p + wt c \<Longrightarrow> rank q \<le> rank p \<Longrightarrow> sound p c (Taken q)"
  using total_open[of q] total_ge[of p] by (auto simp: open_inv)

lemma writes_less:
  "open_stack q \<Longrightarrow> current q \<Longrightarrow> cost q + sum_list (map wts ws) < cost p + wt c \<Longrightarrow> sound p c (Writes q ws)"
  using total_open[of q] total_ge[of p] by (simp add: open_inv)

lemma writes_lower:
  "open_stack q \<Longrightarrow> current q \<Longrightarrow> cost q + sum_list (map wts ws) \<le> cost p + wt c \<Longrightarrow> rank q < rank p
   \<Longrightarrow> sound p c (Writes q ws)"
  using total_open[of q] total_ge[of p] by (auto simp: open_inv)

lemma falls_same:
  "open_stack q \<Longrightarrow> current q \<Longrightarrow> \<not> pseudo (mp_token q) \<Longrightarrow> cost q \<le> cost p \<Longrightarrow> rank q \<le> rank p \<Longrightarrow> sound p c (Fall q)"
  using total_open[of q] total_ge[of p] current_not_fence[of q] by (auto simp: open_inv)

lemma falls_less:
  "open_stack q \<Longrightarrow> current q \<Longrightarrow> \<not> pseudo (mp_token q) \<Longrightarrow> cost q < cost p \<Longrightarrow> sound p c (Fall q)"
  using total_open[of q] total_ge[of p] current_not_fence[of q] by (auto simp: open_inv)

text \<open>Every handler holds the character by extending \<open>pending\<close>.\<close>

lemma taken_hold:
  assumes "open_stack p" and "current p" and "open_stack q" and "current q" and "mp_pending q = mp_pending p @ [c]"
    and "mp_indent q = mp_indent p" and "mp_token q = mp_token p" and "top_token q = top_token p"
    and "mp_len q = mp_len p"
  shows "sound p c (Taken q)"
proof (rule taken_same[OF assms(3,4)])
  show "cost q \<le> cost p + wt c" using assms by (simp add: cost_def)
  have "rank q = rank (set_pending (mp_pending p @ [c]) p)" using assms by (intro rank_same) simp_all
  then show "rank q \<le> rank p" using rank_append by simp
qed

lemma sound_if: "(b \<Longrightarrow> sound p c x) \<Longrightarrow> (\<not> b \<Longrightarrow> sound p c y) \<Longrightarrow> sound p c (if b then x else y)"
  by simp

lemma fall_if: "(b \<Longrightarrow> sound p c (Fall x)) \<Longrightarrow> (\<not> b \<Longrightarrow> sound p c (Fall y)) \<Longrightarrow> sound p c (Fall (if b then x else y))"
  by simp
end
