(* ===== verification/MdSoundBlocks.thy ===== *)
theory MdSoundBlocks
  imports MdSound
begin

text \<open>The block handlers keep the stack and pay for what they write again.\<close>

declare sound.simps [simp del]

lemma wt_less [simp]: "wt c < wt a + (b + wt c)" "wt c < wt a + b + wt c" "wt c < wt a + wt c"
  by (simp_all add: wt_def)

lemma sound_hold [simp]:
  "open_stack p \<Longrightarrow> current p \<Longrightarrow> sound p c (Taken (set_pending (mp_pending p @ [c]) p))"
  "open_stack p \<Longrightarrow> current p \<Longrightarrow> mp_pending p = f # s \<Longrightarrow> sound p c (Taken (set_pending (f # s @ [c]) p))"
  by (rule taken_hold; simp)+

section \<open>The root context\<close>

text \<open>An arm that breaks leaves what the promotion reads.\<close>

definition arm_sound :: "md_parser \<Rightarrow> nat \<Rightarrow> md_action \<Rightarrow> bool" where
  "arm_sound p c a =
     (case a of
        Fall q \<Rightarrow> open_stack q \<and> current q \<and> mp_pending q = mp_pending p \<and> mp_indent q = mp_indent p
          \<and> (mp_token q = LINE_BREAK \<longrightarrow> mp_token p = LINE_BREAK)
      | _ \<Rightarrow> sound p c a)"

lemma arm_simps [simp]:
  "arm_sound p c (Fall q) = (open_stack q \<and> current q \<and> mp_pending q = mp_pending p \<and> mp_indent q = mp_indent p
     \<and> (mp_token q = LINE_BREAK \<longrightarrow> mp_token p = LINE_BREAK))"
  "arm_sound p c (Taken q) = sound p c (Taken q)" "arm_sound p c (Writes q ws) = sound p c (Writes q ws)"
  by (simp_all add: arm_sound_def)

lemma open_not_pseudo [simp]: "open_stack p \<Longrightarrow> \<not> pseudo (mp_tokens p i)" "open_stack p \<Longrightarrow> \<not> pseudo (top_token p)"
  by (auto simp: open_stack_def stack_ok_def top_token_def)

lemma open_not_break [simp]: "open_stack p \<Longrightarrow> mp_tokens p i \<noteq> LINE_BREAK" "open_stack p \<Longrightarrow> mp_tokens p i \<noteq> MAYBE_TASK"
  using open_not_pseudo(1) pseudo_simps by metis+

lemma open_top [simp]:
  "open_stack p \<Longrightarrow> top_token p \<noteq> LINE_BREAK" "open_stack p \<Longrightarrow> top_token p \<noteq> MAYBE_TASK"
  "open_stack p \<Longrightarrow> top_token p \<noteq> MAYBE_URL" "open_stack p \<Longrightarrow> top_token p \<noteq> MAYBE_ANGLE"
  "open_stack p \<Longrightarrow> top_token p \<noteq> MAYBE_ENTITY" "open_stack p \<Longrightarrow> top_token p \<noteq> MAYBE_EQ_BLOCK"
  using open_not_pseudo(2)[of p] by (auto simp: pseudo_def)

lemma open_refused: "open_stack p \<Longrightarrow> \<not> snd (add_token t p) \<Longrightarrow> fst (add_token t p) = p"
  by (rule add_token_len(5)) (simp_all add: open_stack_def stack_ok_def)

lemma list_no_room: "snd (continue_or_add_list t d p) = No_room \<Longrightarrow> fst (continue_or_add_list t d p) = p"
  by (simp add: continue_or_add_list_def Let_def split_beta split: if_splits)

lemma sound_root_newline:
  assumes "open_stack p" and "current p" and "mp_pending p = f # s"
  shows "arm_sound p c (root_newline p c)"
  using assms by (auto simp: root_newline_def Let_def cost_def intro!: taken_less)

lemma sound_root_hash:
  assumes "open_stack p" and "current p" and "mp_pending p = f # s" and "pwc = mp_pending p @ [c]"
  shows "arm_sound p c (root_hash p c pwc)"
  using assms by (auto simp: root_hash_def Let_def cost_def split_beta intro!: taken_less)

lemma sound_root_quote:
  assumes "open_stack p" and "current p" and "mp_pending p = f # s"
  shows "arm_sound p c (root_quote p c)"
proof -
  let ?p1 = "end_tokens_to_len (blockquote_idx p) p"
  have "sound p c (Taken (set_pending [c] (clear_root_pending (q\<lparr>blockquote_idx := i, fence_start := n\<rparr>))))"
    if "open_stack q" "current q" for q i n
    by (rule taken_less) (use assms that in \<open>simp_all add: cost_def\<close>)
  moreover have "sound p c (Taken (set_pending [c] (clear_root_pending (p\<lparr>blockquote_idx := i\<rparr>))))" for i
    by (rule taken_less) (use assms in \<open>simp_all add: cost_def\<close>)
  moreover have "fst (add_token BLOCKQUOTE ?p1) = ?p1" if "\<not> snd (add_token BLOCKQUOTE ?p1)"
    using assms that by (simp add: open_refused)
  ultimately show ?thesis
    using assms by (cases "add_token BLOCKQUOTE ?p1")
      (auto simp: root_quote_def Let_def split: bool.split dest!: arg_cong[where f = fst] intro: open_plain)
qed

lemma sound_root_bullet:
  assumes "open_stack p" and "current p" and "mp_pending p = f # s" and "pwc = mp_pending p @ [c]"
  shows "arm_sound p c (root_bullet p pwc)"
proof (cases "snd (continue_or_add_list LIST_UNORDERED [] p) = No_room")
  case True
  then show ?thesis using assms list_no_room[OF True]
    by (cases "continue_or_add_list LIST_UNORDERED [] p") (auto simp: root_bullet_def)
next
  case False
  have "sound p c (Writes (add_list_item 2 (fst (continue_or_add_list LIST_UNORDERED [] p))) [drop 2 pwc])"
    by (rule writes_less) (use assms wts_drop_less[of 2 pwc] in \<open>simp_all add: cost_def\<close>)
  with assms False show ?thesis
    by (cases "continue_or_add_list LIST_UNORDERED [] p") (auto simp: root_bullet_def split: list_open.split)
qed

lemma sound_root_rule:
  assumes "open_stack p" and "current p" and "mp_pending p = f # s" and "pwc = mp_pending p @ [c]"
  shows "arm_sound p c (root_rule p c pwc)"
proof -
  define q where "q = (if hr_chars p = 0 then p\<lparr>hr_chars := 1, hr_char := mp_pending p\<rparr> else p)"
  have q: "open_stack q" "current q" "mp_pending q = mp_pending p" "mp_indent q = mp_indent p" "mp_token q = mp_token p"
    "top_token q = top_token p" "indent_len q = indent_len p" "mp_len q = mp_len p"
    using assms(1,2) by (simp_all add: q_def top_token_def)
  have hold: "sound p c (Taken (set_pending pwc (q\<lparr>hr_chars := n\<rparr>)))" "sound p c (Taken (set_pending pwc q))" for n
    by (rule taken_hold; use assms q in \<open>simp add: top_token_def\<close>)+
  have leaf: "sound p c (Taken ((clear_root_pending (emit_leaf RULE None (fst (end_tokens_to_indent i q))))\<lparr>hr_chars := 0\<rparr>))" for i
    by (rule taken_less) (use assms q in \<open>simp_all add: cost_def\<close>)
  have "total (q\<lparr>hr_chars := 0\<rparr>) = total p" "rank (q\<lparr>hr_chars := 0\<rparr>) = rank p"
    using q by (simp_all add: total_def cost_def rank_def top_token_def)
  then have bullet: "arm_sound p c (root_bullet (q\<lparr>hr_chars := 0\<rparr>) pwc)"
    using sound_root_bullet[of "q\<lparr>hr_chars := 0\<rparr>" f s pwc c] q assms
    by (auto simp: arm_sound_def sound.simps split: md_action.splits)
  show ?thesis using hold leaf bullet by (auto simp: root_rule_def Let_def q_def[symmetric])
qed

lemma case_ok: "(case x of (q, True) \<Rightarrow> f q | (q, False) \<Rightarrow> g q) = (if snd x then f (fst x) else g (fst x))"
  by (cases x) (simp split: bool.split)

lemma root_fence_eq:
  "root_fence p c pwc =
     (let r = add_token PARAGRAPH p; p1 = fst (end_tokens_to_indent (int (indent_len p)) p);
          r2 = add_token CODE_FENCE p1; p2 = fst r2
      in if length (mp_pending p) < 3 then
           (if c = c_tick then Taken (set_pending pwc (p\<lparr>fence_start := length pwc\<rparr>)) else Fall (p\<lparr>fence_start := 0\<rparr>))
         else if c = c_tick then
           (if length (mp_pending p) = fence_start p then Taken (set_pending pwc (p\<lparr>fence_start := length pwc\<rparr>))
            else if snd r then Writes ((clear_root_pending (fst r))\<lparr>fence_start := 0\<rparr>) [pwc]
            else Taken ((clear_root_pending (buffer pwc (fst r)))\<lparr>fence_start := 0\<rparr>))
         else if c = c_nl then
           (if snd r2 then
              Taken ((clear_root_pending (if fence_start p2 < length (mp_pending p2)
                       then emit (Set_attr LANG (drop (fence_start p2) (mp_pending p2))) p2 else p2))\<lparr>fence_end := 0, mp_token := NEWLINE\<rparr>)
            else Taken ((clear_root_pending (buffer (mp_indent p2 @ pwc) p2))\<lparr>fence_start := 0\<rparr>))
         else Taken (set_pending pwc p))"
  by (simp only: root_fence_def Let_def case_ok)

lemma sound_root_fence:
  assumes "open_stack p" and "current p" and "mp_pending p = f # s" and "pwc = mp_pending p @ [c]" and "60 \<le> rank p"
  shows "arm_sound p c (root_fence p c pwc)"
proof -
  let ?p1 = "fst (end_tokens_to_indent (int (indent_len p)) p)" and ?r = "add_token PARAGRAPH p"
  let ?r2 = "add_token CODE_FENCE ?p1"
  have para: "sound p c (Writes ((clear_root_pending (fst ?r))\<lparr>fence_start := 0\<rparr>) [pwc])" if "snd ?r"
    by (rule writes_lower)
      (use assms that add_token_len(4)[of PARAGRAPH p] in \<open>simp_all add: cost_def rank_def rank_of_def stack_rank_def\<close>)
  have refused: "sound p c (Taken ((clear_root_pending q)\<lparr>fence_start := 0\<rparr>))" if "open_stack q" "current q" for q
    by (rule taken_less) (use assms that in \<open>simp_all add: cost_def\<close>)
  have fence: "sound p c (Taken (clear_root_pending q\<lparr>fence_end := 0, mp_token := NEWLINE\<rparr>))"
    if "stack_ok (mp_tokens q) (mp_len q)" for q
    using that assms(3) by (simp add: sound.simps md_inv_def total_def cost_def)
  have stack: "stack_ok (mp_tokens (fst ?r2)) (mp_len (fst ?r2))" if "snd ?r2"
    using that stack_push[of ?p1 CODE_FENCE] assms(1) add_token_len[of CODE_FENCE ?p1] by (simp add: pseudo_def)
  have hold: "sound p c (Taken (set_pending pwc (p\<lparr>fence_start := n\<rparr>)))" for n
    by (rule taken_hold) (use assms in \<open>simp_all add: top_token_def\<close>)
  have keep: "sound p c (Taken (set_pending pwc p))" using assms(1,2,4) by simp
  have same: "fst ?r = p" if "\<not> snd ?r" using assms(1) that by (rule open_refused)
  have same2: "fst ?r2 = ?p1" if "\<not> snd ?r2" by (rule open_refused) (use assms(1) that in simp_all)
  show ?thesis
    using assms(1,2) para stack hold keep same same2 refused[of "buffer pwc p"] refused[of "buffer (mp_indent ?p1 @ pwc) ?p1"] fence
    unfolding root_fence_eq Let_def by auto
qed

lemma sound_root_plus:
  assumes "open_stack p" and "current p" and "mp_pending p = f # s"
  shows "arm_sound p c (root_plus p c)"
proof (cases "snd (continue_or_add_list LIST_UNORDERED [] p) = No_room")
  case True
  then show ?thesis using assms list_no_room[OF True]
    by (cases "continue_or_add_list LIST_UNORDERED [] p") (auto simp: root_plus_def)
next
  case False
  have "sound p c (Taken (add_list_item 2 (fst (continue_or_add_list LIST_UNORDERED [] p))))"
    by (rule taken_less) (use assms in \<open>simp_all add: cost_def\<close>)
  with assms False show ?thesis
    by (cases "continue_or_add_list LIST_UNORDERED [] p") (auto simp: root_plus_def split: list_open.split)
qed

lemma sound_root_digit:
  assumes "open_stack p" and "current p" and "mp_pending p = f # s" and "pwc = mp_pending p @ [c]"
  shows "arm_sound p c (root_digit p c pwc)"
proof -
  obtain q b where r: "continue_or_add_list LIST_ORDERED [last (mp_pending p)] p = (q, b)" by fastforce
  then have q: "open_stack q" "current q" using assms open_list_op[of p LIST_ORDERED "[last (mp_pending p)]"]
      current_list_op[of p LIST_ORDERED "[last (mp_pending p)]"] by simp_all
  have item: "sound p c (Taken (add_list_item n q'))" if "open_stack q'" "current q'" for n q'
    by (rule taken_less) (use assms that in \<open>simp_all add: cost_def\<close>)
  have "q = p" if "b = No_room" using r that list_no_room[of LIST_ORDERED "[last (mp_pending p)]" p] by simp
  moreover have "sound p c (Taken (set_pending pwc p))" using assms by simp
  ultimately show ?thesis
    using assms(1,2) q item[of q] item[of "emit (Set_attr START (butlast (mp_pending p))) q"] r
    unfolding root_digit_def Let_def by (cases b) auto
qed

text \<open>A table opens with room for a row and a cell.\<close>

lemma table_push:
  assumes "open_stack p" and "current p" and "has_token_room (mp_len p) 3"
  shows "open_stack (fst (add_token TABLE p))" and "current (fst (add_token TABLE p))" and "mp_len (fst (add_token TABLE p)) \<le> 21"
proof -
  have n: "push_at TABLE p \<le> 21" using assms(3) by (simp add: has_token_room_def token_array_cap_def push_at_def)
  then show "open_stack (fst (add_token TABLE p))" by (intro open_push) (simp_all add: assms pseudo_def)
  show "current (fst (add_token TABLE p))" by (rule current_push) (use assms in simp_all)
  show "mp_len (fst (add_token TABLE p)) \<le> 21" using n add_token_len(1,2)[of TABLE p] by simp
qed

lemma row_push:
  assumes "open_stack p" and "current p" and "mp_len p \<le> 21"
  shows "open_stack (fst (add_token TABLE_ROW p))" and "current (fst (add_token TABLE_ROW p))"
proof -
  have n: "push_at TABLE_ROW p \<le> 22" using assms(3) by (simp add: push_at_def)
  then show "open_stack (fst (add_token TABLE_ROW p))" by (intro open_push) (simp_all add: assms pseudo_def)
  show "current (fst (add_token TABLE_ROW p))" by (rule current_push) (use assms in simp_all)
qed

lemma sound_root_table:
  assumes "open_stack p" and "current p" and "mp_pending p = header @ c_nl # delim" and "header \<noteq> []" and "c = c_nl"
  shows "arm_sound p c (root_table p header delim)"
proof -
  let ?p1 = "end_tokens_to_len (blockquote_idx p) p"
  let ?p2 = "fst (add_token TABLE ?p1)"
  have opened: "sound p c (Writes (set_pending [] (fst (add_token TABLE_ROW q))) [drop 1 header @ [c_nl] @ delim @ [c_nl]])"
    if "open_stack q" "current q" "mp_len q \<le> 21" "mp_indent q = mp_indent p" for q
    by (rule writes_less)
      (use assms row_push[OF that(1-3)] that(4) wts_drop_less[of 1 header] in \<open>simp_all add: cost_def\<close>)
  show ?thesis
  proof (cases "has_token_room (mp_len ?p1) 3")
    case True
    have push: "open_stack ?p2" "current ?p2" "mp_len ?p2 \<le> 21" using table_push[OF _ _ True] assms(1,2) by simp_all
    have ind: "mp_indent ?p2 = mp_indent p" by simp
    let ?p3 = "emit (Set_attr ALIGN (column_alignments (table_row_cells delim))) ?p2"
    note a = opened[OF push ind]
    have b: "sound p c (Writes (set_pending [] (fst (add_token TABLE_ROW ?p3))) [drop 1 header @ [c_nl] @ delim @ [c_nl]])"
      by (rule opened) (use push in simp_all)
    show ?thesis using True a b assms(1,2) unfolding root_table_def Let_def by (simp only: if_True not_True_eq_False if_False arm_simps split: if_split) simp
  next
    case False
    then show ?thesis using assms(1,2) unfolding root_table_def Let_def by simp
  qed
qed

lemma split_first: "x \<in> set s \<Longrightarrow> s = takeWhile (\<lambda>y. y \<noteq> x) s @ x # tl (dropWhile (\<lambda>y. y \<noteq> x) s)"
proof (induction s)
  case (Cons a s)
  then show ?case by (cases "a = x") auto
qed simp

lemma sound_root_pipe:
  assumes "open_stack p" and "current p" and "mp_pending p = f # s" and "f = c_pipe" and "pwc = mp_pending p @ [c]"
  shows "arm_sound p c (root_pipe p c pwc)"
proof -
  let ?s = "mp_pending p" and ?nl = "\<lambda>x. x \<noteq> c_nl"
  have table: "arm_sound p c (root_table p (takeWhile ?nl ?s) (tl (dropWhile ?nl ?s)))" if "c_nl \<in> set ?s" "c = c_nl"
  proof (rule sound_root_table[OF assms(1,2) split_first[OF that(1)] _ that(2)])
    show "takeWhile ?nl ?s \<noteq> []" using assms(3,4) by simp
  qed
  have hold: "sound p c (Taken (set_pending pwc p))" using assms(1,2,5) by simp
  show ?thesis
  proof (cases "c_nl \<in> set ?s \<and> c = c_nl")
    case True
    then show ?thesis using table by (simp add: root_pipe_def Let_def)
  next
    case False
    then have "root_pipe p c pwc = (if at_end p then Fall p else if c_nl \<notin> set ?s \<or> delimiter_row_char c then Taken (set_pending pwc p) else Fall p)"
      unfolding root_pipe_def Let_def by (simp only: if_False)
    then show ?thesis using hold assms(1,2) by simp
  qed
qed

definition root_token :: "md_token \<Rightarrow> bool" where
  "root_token t = (t \<in> {LINE_BREAK, DOCUMENT, BLOCKQUOTE, LIST_ORDERED, LIST_UNORDERED})"

lemma rank_root: "root_token (mp_token p) \<Longrightarrow> mp_pending p = f # s \<Longrightarrow> rank p = (if mp_token p = LINE_BREAK then 420 else 60)"
  by (cases "mp_token p") (simp_all add: root_token_def rank_def rank_of_def stack_rank_def)

lemma arm_if: "(b \<Longrightarrow> arm_sound p c x) \<Longrightarrow> (\<not> b \<Longrightarrow> arm_sound p c y) \<Longrightarrow> arm_sound p c (if b then x else y)"
  by simp

lemma sound_root_arm:
  assumes "open_stack p" and "current p" and "mp_pending p = f # s" and "pwc = mp_pending p @ [c]" and "root_token (mp_token p)"
  shows "arm_sound p c (root_arm p f c pwc)"
proof -
  have blank: "arm_sound p c (Taken (p\<lparr>mp_pending := [c], mp_indent := mp_indent p @ [x], indent_len := n\<rparr>))" if "f = x" for x n
  proof -
    let ?q = "p\<lparr>mp_pending := [c], mp_indent := mp_indent p @ [x], indent_len := n\<rparr>"
    have "rank ?q \<le> rank p" using rank_root[OF assms(5,3)] rank_root[of ?q c "[]"] assms(5) by simp
    then have "sound p c (Taken ?q)" by (intro taken_same) (use assms that in \<open>simp_all add: cost_def\<close>)
    then show ?thesis by simp
  qed
  have "60 \<le> rank p" using rank_root[OF assms(5,3)] by simp
  note arms = sound_root_newline[OF assms(1-3)] sound_root_hash[OF assms(1-4)] sound_root_quote[OF assms(1-3)]
      sound_root_rule[OF assms(1-4)] sound_root_fence[OF assms(1-4) this] sound_root_plus[OF assms(1-3)]
      sound_root_digit[OF assms(1-4)] sound_root_pipe[OF assms(1-3) _ assms(4)]
  have "arm_sound p c (Fall p)" using assms(1,2) by simp
  then show ?thesis unfolding root_arm_def by (intro arm_if arms blank)
qed

lemma stack_rank_le: "n \<le> 23 \<Longrightarrow> stack_rank n t s \<le> 349"
proof -
  assume "n \<le> 23"
  then have "nat (n + 1) \<le> 24" by simp
  then show ?thesis by (simp add: stack_rank_def)
qed

lemma open_len: "open_stack p \<Longrightarrow> mp_len p \<le> 23"
  by (simp add: open_stack_def stack_ok_def)

lemma rank_top: "open_stack q \<Longrightarrow> mp_token r = top_token q \<Longrightarrow> mp_pending r = s \<Longrightarrow> rank r = stack_rank (mp_len r) (top_token q) s"
  using open_not_pseudo(2)[of q] by (auto simp: rank_def rank_of_def pseudo_def)

text \<open>The promotion: a paragraph or code block takes the line, below every root context.\<close>

lemma drop_indent: "wts (drop n (mp_indent p)) \<le> wts (mp_indent p)"
  by (rule wts_drop)

lemma sound_promote:
  assumes "open_stack q" and "current q" and "mp_pending q = mp_pending p" and "mp_indent q = mp_indent p"
    and "mp_token q = LINE_BREAK \<longrightarrow> mp_token p = LINE_BREAK"
    and "mp_pending p = f # s" and "pwc = mp_pending p @ [c]" and "root_token (mp_token p)"
  shows "sound p c (promote q pwc)"
proof -
  have low: "sound p c (Writes (clear_root_pending r) [ws])"
    if "open_stack r" "current r" "rank (clear_root_pending r) < rank p" "wts ws \<le> cost p + wt c" for r ws
    by (rule writes_lower) (use that in \<open>simp_all add: cost_def\<close>)
  have refused: "sound p c (Taken (buffer t (clear_root_pending r)))"
     "sound p c (Taken ((buffer t (clear_root_pending r))\<lparr>blockquote_idx := 0, fence_start := 0\<rparr>))"
    if "open_stack r" "current r" for r t
    by (rule taken_less; use assms that in \<open>simp add: cost_def\<close>)+
  have r: "rank p = (if mp_token p = LINE_BREAK then 420 else 60)" by (rule rank_root[OF assms(8,6)])
  have brk: "rank (clear_root_pending (emit_leaf LINE_BREAK None (resume_token q))) < rank p" if "mp_token q = LINE_BREAK"
  proof -
    have "rank (clear_root_pending (emit_leaf LINE_BREAK None (resume_token q))) = stack_rank (mp_len q) (top_token q) []"
      using rank_top[OF assms(1), of "clear_root_pending (emit_leaf LINE_BREAK None (resume_token q))" "[]"] by simp
    then show ?thesis using that assms(5) r stack_rank_le[of "mp_len q" "top_token q" "[]"] open_len[OF assms(1)] by simp
  qed
  have child: "rank (clear_root_pending (fst (add_token t q))) < rank p" if "snd (add_token t q)" "t = CODE_BLOCK \<or> t = PARAGRAPH" for t
  proof -
    have "rank (clear_root_pending (fst (add_token t q))) = stack_rank (mp_len (fst (add_token t q))) t []"
      using that add_token_len(4)[of t q] by (auto simp: rank_def rank_of_def)
    moreover have "stack_rank n t [] = 20" for n using that(2) by (auto simp: stack_rank_def)
    ultimately show ?thesis by (simp add: r)
  qed
  have costs: "wts pwc \<le> cost p + wt c" "wts (drop n (mp_indent q) @ pwc) \<le> cost p + wt c" for n
    using assms(4,7) wts_drop[of n "mp_indent p"] by (simp_all add: cost_def)
  note a = low[OF _ _ brk costs(1)] low[OF _ _ child costs(2)] low[OF _ _ child costs(1)]
  show ?thesis
    using assms(1,2) a refused unfolding promote_def Let_def split_beta fst_conv snd_conv
    by (cases "mp_token q = LINE_BREAK"; cases "4 \<le> indent_len q") (simp_all add: costs open_refused)
qed

lemma sound_root:
  assumes "open_stack p" and "current p" and "pwc = mp_pending p @ [c]" and "root_token (mp_token p)"
  shows "sound p c (handle_root_context p c pwc)"
proof (cases "mp_pending p")
  case Nil
  then show ?thesis using sound_hold(1)[OF assms(1,2), of c] by (simp add: handle_root_context_def)
next
  case (Cons f s)
  have "arm_sound p c (root_arm p f c pwc)" by (rule sound_root_arm[OF assms(1,2) Cons assms(3,4)])
  then show ?thesis
    using sound_promote[of _ p f s pwc c] Cons assms(3,4)
    by (cases "root_arm p f c pwc") (auto simp: handle_root_context_def)
qed
end
