(* ===== verification/MdSoundTables.thy ===== *)
theory MdSoundTables
  imports MdSoundBlocks
begin

text \<open>Headings, tables, code and task markers keep the stack and pay for what they write again.\<close>

section \<open>Headings\<close>

lemma sound_heading:
  assumes "open_stack p" and "current p" and "pwc = mp_pending p @ [c]" and "is_heading_token (mp_token p)"
  shows "sound p c (handle_heading p c pwc)"
proof -
  have np: "\<not> pseudo (mp_token p)" using assms(4) by (auto simp: is_heading_token_def pseudo_def)
  have keep: "sound p c (Fall (p\<lparr>atx_close := b\<rparr>))" "sound p c (Fall p)" for b
    by (rule falls_same; use assms np in \<open>simp add: cost_def rank_def top_token_def\<close>)+
  have clear: "sound p c (Fall ((buffer w p)\<lparr>mp_pending := [], atx_close := b\<rparr>))" for w b
  proof (cases "mp_pending p = []")
    case True
    have "rank ((buffer w p)\<lparr>mp_pending := [], atx_close := b\<rparr>) = rank p" using True by (intro rank_same) (simp_all add: top_token_def)
    then show ?thesis using assms np by (intro falls_same) (simp_all add: cost_def)
  next
    case False
    then show ?thesis using assms np wts_pos[OF False] by (intro falls_less) (simp_all add: cost_def)
  qed
  have hold: "sound p c (Taken (p\<lparr>mp_pending := pwc, atx_close := True\<rparr>))" "sound p c (Taken (set_pending pwc p))"
    by (rule taken_hold; use assms in \<open>simp add: top_token_def\<close>)+
  show ?thesis using keep clear hold unfolding handle_heading_def by (intro sound_if fall_if)
qed

section \<open>Tables\<close>

lemma rank_table: "mp_token p = TABLE \<Longrightarrow> rank p = (if mp_pending p = [] then 301 + 2 * nat (mp_len p + 1) else if first_is (mp_pending p) c_nl then 95 else 300 + 2 * nat (mp_len p + 1))"
  by (simp add: rank_def rank_of_def stack_rank_def)

lemma rank_row: "mp_token p = TABLE_ROW \<Longrightarrow> rank p = (if mp_pending p = [] then 40 else if first_is (mp_pending p) c_nl then 12 else 30)"
  by (simp add: rank_def rank_of_def stack_rank_def)

lemma rank_cell: "mp_token p = TABLE_CELL \<Longrightarrow> rank p = (if mp_pending p = [] then 20 else if mp_pending p = [c_nl] then 15 else 10)"
  by (simp add: rank_def rank_of_def stack_rank_def)

lemma current_top: "current p \<Longrightarrow> \<not> pseudo (mp_token p) \<Longrightarrow> 0 \<le> mp_len p \<Longrightarrow> mp_token p = top_token p"
  by (simp add: current_def)

lemma seated: "open_stack p \<Longrightarrow> i \<le> mp_len p \<Longrightarrow> seated_at (mp_tokens p) i"
  by (simp add: open_stack_def stack_ok_def)

lemma table_seat:
  assumes "open_stack p" and "current p"
  shows "mp_token p = TABLE \<Longrightarrow> mp_len p \<le> 21" and "mp_token p = TABLE_ROW \<Longrightarrow> mp_len p \<le> 22"
  using current_top[OF assms(2)] seated[OF assms(1) order_refl]
  by (cases "0 \<le> mp_len p"; simp add: seated_at_def top_token_def pseudo_def)+

lemma newline_not_tail: "\<not> url_tail_char c_nl"
  by (simp add: url_tail_char_def raw_url_tail_def is_cjk_punctuation_def)

lemma table_rank_top: "stack_rank (n - 1) t s \<le> stack_rank n TABLE s"
proof (cases "t = RAW_URL")
  case True
  then show ?thesis using newline_not_tail
    by (cases s) (auto simp: stack_rank_def split_raw_url_tail_def dropWhile_eq_Nil_conv nat_le_eq_zle)
next
  case False
  have "nat n \<le> nat (n + 1)" by simp
  then show ?thesis using False by (simp add: stack_rank_def)
qed

lemma sound_table:
  assumes "open_stack p" and "current p" and "pwc = mp_pending p @ [c]" and "mp_token p = TABLE"
  shows "sound p c (handle_table p c pwc)"
proof -
  have seat: "mp_len p \<le> 21" by (rule table_seat(1)[OF assms(1,2,4)])
  have hold: "sound p c (Taken (set_pending pwc p))" using assms by simp
  have clear: "sound p c (Taken (p\<lparr>table_state := 2, mp_pending := []\<rparr>))"
    by (rule taken_less) (use assms(1,2) in \<open>simp_all add: cost_def\<close>)
  have top: "rank (end_token p) \<le> rank p"
    using table_rank_top[of "mp_len p" "mp_tokens p (mp_len p - 1)" "mp_pending p"] assms(1,4)
      rank_top[of "end_token p" "end_token p" "mp_pending p"] by (simp add: rank_def[of p] rank_of_def)
  have same: "rank ((end_token p)\<lparr>table_state := 0\<rparr>) = rank (end_token p)" by (rule rank_same) (simp_all add: top_token_def)
  have fall: "sound p c (Fall ((end_token p)\<lparr>table_state := 0\<rparr>))"
    by (rule falls_same) (use assms(1,2) top same in \<open>simp_all add: cost_def\<close>)
  have row: "sound p c (Writes (set_pending [] (fst (add_token TABLE_ROW p))) [[c]])" if "mp_pending p = [c_pipe]"
    by (rule writes_less) (use row_push[OF assms(1,2) seat] that in \<open>simp_all add: cost_def\<close>)
  have close: "sound p c (Writes ((end_token p)\<lparr>mp_pending := [], table_state := 0\<rparr>) [[c]])" if "mp_pending p = [c_nl]"
    by (rule writes_less) (use assms(1) that in \<open>simp_all add: cost_def\<close>)
  have "sound p c (Fall p)"
    by (rule falls_same) (use assms in \<open>simp_all add: pseudo_def\<close>)
  then show ?thesis unfolding handle_table_def using hold clear fall row close by (intro sound_if)
qed

lemma cell_push:
  assumes "open_stack p" and "current p" and "mp_token p = TABLE_ROW"
  shows "snd (add_token TABLE_CELL p)" and "open_stack (fst (add_token TABLE_CELL p))" and "current (fst (add_token TABLE_CELL p))"
proof -
  have len: "mp_len p \<le> 22" and top: "mp_token p = top_token p \<or> mp_len p < 0"
    using table_seat(2)[OF assms] current_top[OF assms(2)] assms(3) by (auto simp: pseudo_def not_le)
  have at: "push_at TABLE_CELL p = mp_len p + 1 \<or> mp_len p < 0" using top assms(3) by (auto simp: push_at_def)
  then have "push_at TABLE_CELL p \<le> 23" using len by (auto simp: push_at_def)
  then show "snd (add_token TABLE_CELL p)" by (simp add: add_token_len(2))
  show "open_stack (fst (add_token TABLE_CELL p))"
    by (rule open_push) (use assms(1,3) at top in \<open>auto simp: pseudo_def top_token_def push_at_def\<close>)
  show "current (fst (add_token TABLE_CELL p))" by (rule current_push) (use assms in simp_all)
qed

lemma sound_row:
  assumes "open_stack p" and "current p" and "mp_token p = TABLE_ROW"
  shows "sound p c (handle_table_row p c)"
proof -
  let ?c = "fst (add_token TABLE_CELL p)"
  note ok = cell_push(1)[OF assms] and open_cell = cell_push(2)[OF assms] and cur = cell_push(3)[OF assms]
  have "sound p c (Fall p)" by (rule falls_same) (use assms in \<open>simp_all add: pseudo_def\<close>)
  moreover have "sound p c (Writes (set_pending [] (end_token ?c)) [[c]])" if "mp_pending p = [c_pipe]"
    by (rule writes_less) (use open_cell cur that in \<open>simp_all add: cost_def\<close>)
  moreover have "sound p c (Writes ((end_token p)\<lparr>table_state := n, mp_pending := []\<rparr>) [[c]])" if "mp_pending p = [c_nl]" for n
    by (rule writes_less) (use assms(1) that in \<open>simp_all add: cost_def\<close>)
  moreover have "sound p c (Taken (set_pending [c] p))" "sound p c (Taken p)" if "mp_pending p \<noteq> []"
    by (rule taken_less; use assms that wts_pos[OF that] in \<open>simp add: cost_def\<close>)+
  moreover have "sound p c (Writes ?c [[c]])" if "mp_pending p \<noteq> []" "mp_pending p \<noteq> [c_nl]"
  proof (rule writes_lower[OF open_cell cur])
    show "rank ?c < rank p" using that assms(3) ok add_token_len(4)[OF ok] by (simp add: rank_row rank_cell)
  qed (simp add: cost_def)
  ultimately show ?thesis unfolding handle_table_row_def by (intro sound_if)
qed

lemma sound_cell:
  assumes "open_stack p" and "current p" and "mp_token p = TABLE_CELL"
  shows "sound p c (handle_table_cell p c)"
proof -
  have parent: "mp_tokens p (mp_len p - 1) = TABLE_ROW \<or> mp_len p \<le> 0"
    using current_top[OF assms(2)] seated[OF assms(1) order_refl] assms(3)
    by (cases "0 \<le> mp_len p") (auto simp: seated_at_def top_token_def pseudo_def)
  have "sound p c (Fall p)" by (rule falls_same) (use assms in \<open>simp_all add: pseudo_def\<close>)
  moreover have "sound p c (Writes (set_pending [] (end_token (add_text p))) [[c]])" if "mp_pending p = [c_pipe]"
    by (rule writes_less) (use assms that in \<open>simp_all add: cost_def\<close>)
  moreover have "sound p c (Writes (set_pending [c_nl] (end_token (add_text p))) [[c]])" if "mp_pending p = [c_nl]"
  proof (rule writes_lower)
    let ?q = "set_pending [c_nl] (end_token (add_text p))"
    have "rank ?q = stack_rank (mp_len p - 1) (mp_tokens p (mp_len p - 1)) [c_nl]"
      using rank_top[of "end_token p" ?q "[c_nl]"] assms(1) by simp
    also have "\<dots> < 15" using parent
    proof
      assume "mp_len p \<le> 0"
      then have "mp_tokens p (mp_len p - 1) = NO_TOKEN" using assms(1) by (simp add: open_stack_def stack_ok_def)
      then show ?thesis by (simp add: stack_rank_def)
    qed (simp add: stack_rank_def)
    finally show "rank ?q < rank p" using that assms(3) by (simp add: rank_cell)
  qed (use assms that in \<open>simp_all add: cost_def\<close>)
  ultimately show ?thesis unfolding handle_table_cell_def by (intro sound_if)
qed

section \<open>Code\<close>

lemma sound_code_block:
  assumes "open_stack p" and "current p" and "pwc = mp_pending p @ [c]" and "mp_token p = CODE_BLOCK"
  shows "sound p c (handle_code_block p c pwc)"
proof -
  have "sound p c (Taken (set_pending pwc p))" using assms(1-3) by simp
  moreover have "sound p c (Taken (set_pending [] (buffer [c_nl] p)))"
    by (rule taken_less) (use assms in \<open>simp_all add: cost_def\<close>)
  moreover have "sound p c (Taken (set_pending [c] (end_token (add_text p))))" if "mp_pending p \<noteq> []"
    by (rule taken_less) (use assms wts_pos[OF that] in \<open>simp_all add: cost_def\<close>)
  moreover have "sound p c (Taken (buffer [c] p))" 
    by (rule taken_less) (use assms in \<open>simp_all add: cost_def\<close>)
  ultimately show ?thesis unfolding handle_code_block_def by (intro sound_if)
qed

lemma sound_code_inline:
  assumes "open_stack p" and "current p" and "pwc = mp_pending p @ [c]" and "mp_token p = CODE_INLINE"
  shows "sound p c (handle_code_inline p c pwc)"
proof -
  have "sound p c (Taken (set_pending pwc p))" using assms(1-3) by simp
  moreover have "sound p c (Taken ((end_token (add_text p))\<lparr>mp_pending := [], fence_start := 0\<rparr>))"
    by (rule taken_less) (use assms in \<open>simp_all add: cost_def\<close>)
  moreover have "sound p c (Taken (add_text ((buffer (mp_pending p) p)\<lparr>mp_pending := [], mp_token := LINE_BREAK, blockquote_idx := 0\<rparr>)))"
    by (rule taken_less) (use assms in \<open>simp_all add: cost_def\<close>)
  moreover have "sound p c (Taken (set_pending [] (buffer pwc p)))"
    by (rule taken_less) (use assms in \<open>simp_all add: cost_def\<close>)
  moreover have "sound p c (Taken (set_pending [c] (buffer (mp_pending p) p)))"
  proof (cases "mp_pending p")
    case Nil
    then have "set_pending [c] (buffer (mp_pending p) p) = set_pending (mp_pending p @ [c]) p"
      by (simp add: buffer_def)
    then show ?thesis using sound_hold(1)[OF assms(1,2)] by simp
  next
    case (Cons f s)
    then show ?thesis by (intro taken_less) (use assms in \<open>simp_all add: cost_def\<close>)
  qed
  ultimately show ?thesis unfolding handle_code_inline_def by (intro sound_if)
qed

lemma sound_fence:
  assumes "md_inv p" and "mp_token p = CODE_FENCE" and "pwc = mp_pending p @ [c]"
  shows "sound p c (handle_code_fence p c pwc)"
proof -
  have inv: "stack_ok (mp_tokens p) (mp_len p)" "indent_len p = 0" "mp_indent p = []" using assms(1,2) by (simp_all add: md_inv_def)
  have tot: "total p = cost p" by (simp add: total_def assms(2))
  have "sound p c (Taken (set_pending pwc p))"
    using inv assms tot rank_append[of p "[c]"] by (simp add: sound.simps md_inv_def total_def cost_def)
  moreover have "sound p c (Taken ((end_token (add_text p))\<lparr>mp_pending := [], fence_start := 0, fence_end := 0, mp_token := NEWLINE\<rparr>))"
    using inv tot stack_pop[OF inv(1), of "mp_len p - 1"] by (simp add: sound.simps md_inv_def total_def cost_def)
  moreover have "sound p c (Taken ((buffer (mp_pending p) p)\<lparr>mp_pending := [c], mp_token := NEWLINE, fence_end := 0\<rparr>))" if "c = c_nl"
    using inv tot assms(2) that
    by (cases "mp_pending p") (simp_all add: sound.simps md_inv_def total_def cost_def rank_def rank_of_def stack_rank_def)
  moreover have "sound p c (Taken (set_pending [] (buffer pwc q)))" if "q = p \<or> q = p\<lparr>fence_end := 1\<rparr>" for q
    using that inv tot assms(2) by (auto simp: sound.simps md_inv_def total_def cost_def)
  moreover have "sound p c (Taken (set_pending [] (buffer pwc (if b then p\<lparr>fence_end := 1\<rparr> else p))))" for b
    using calculation by simp
  ultimately show ?thesis unfolding handle_code_fence_def by (intro sound_if)
qed

lemma sound_task:
  assumes "open_stack p" and "current p" and "pwc = mp_pending p @ [c]" and "mp_token p = MAYBE_TASK"
  shows "sound p c (handle_maybe_task p c pwc)"
proof -
  have "sound p c (Taken (set_pending pwc p))" using assms(1-3) by simp
  moreover have "sound p c (Taken (set_pending [c_space] (emit_leaf CHECKBOX a p)))"
    if "n = 3 \<and> c = c_space" and "n = length (mp_pending p)" for n a
    by (rule taken_less) (use assms(1,2) that in \<open>cases "mp_pending p"; simp add: cost_def\<close>)+
  moreover have "sound p c (Writes (set_pending [] (resume_token p)) [pwc])"
  proof (rule writes_lower)
    have "rank (set_pending [] (resume_token p)) = stack_rank (mp_len p) (top_token p) []"
      using rank_top[OF assms(1), of "set_pending [] (resume_token p)" "[]"] by simp
    then show "rank (set_pending [] (resume_token p)) < rank p"
      using stack_rank_le[of "mp_len p" "top_token p" "[]"] open_len[OF assms(1)] assms(4) by (simp add: rank_def rank_of_def)
  qed (use assms(1-3) in \<open>simp_all add: cost_def\<close>)
  ultimately show ?thesis unfolding handle_maybe_task_def Let_def by (intro sound_if) simp_all
qed
end
