(* ===== verification/MdSoundInline.thy ===== *)
theory MdSoundInline
  imports MdSoundTables
begin

text \<open>The inline handlers keep the stack and pay for what they write again.\<close>

section \<open>What most handlers do\<close>

text \<open>They commit what was pending and keep at most the character.\<close>

lemma sound_fresh:
  assumes "open_stack q" and "current q" and "mp_indent q = mp_indent p"
    and "mp_pending q = [] \<or> (mp_pending q = [c] \<and> mp_pending p \<noteq> [])"
  shows "sound p c (Taken q)"
proof (rule taken_less[OF assms(1,2)])
  show "cost q < cost p + wt c" using assms(3,4) wts_pos[of "mp_pending p"] by (auto simp: cost_def)
qed

lemma sound_fall: "open_stack p \<Longrightarrow> current p \<Longrightarrow> \<not> pseudo (mp_token p) \<Longrightarrow> sound p c (Fall p)"
  by (rule falls_same) simp_all

lemma sound_keep: "open_stack p \<Longrightarrow> current p \<Longrightarrow> pwc = mp_pending p @ [c] \<Longrightarrow> sound p c (Taken (set_pending pwc p))"
  by simp

lemma inline_pending [simp]:
  "mp_indent (add_inline_token t d p) = mp_indent p" "mp_pending (add_inline_token t d p) = mp_pending p"
  by (simp_all add: add_inline_cases)

section \<open>Emphasis\<close>

lemma sound_strong:
  assumes "open_stack p" and "current p" and "\<not> pseudo (mp_token p)"
  shows "sound p c (handle_strong p c)"
proof -
  have "sound p c (Taken (set_pending [] (end_token (add_text p))))" by (rule sound_fresh) (use assms in simp_all)
  moreover have "sound p c (Taken (set_pending [c] (add_inline_token (if u then ITALIC_UND else ITALIC_AST) d (add_text p))))"
    if "mp_pending p = [x]" for u d x
    by (rule sound_fresh) (use assms that in simp_all)
  ultimately show ?thesis using sound_fall[OF assms] unfolding handle_strong_def Let_def by (intro sound_if)
qed

lemma sound_italic:
  assumes "open_stack p" and "current p" and "mp_token p = ITALIC_AST \<or> mp_token p = ITALIC_UND" and "pwc = mp_pending p @ [c]"
  shows "sound p c (handle_italic p c pwc)"
proof -
  have np: "\<not> pseudo (mp_token p)" and plain: "plain_token (mp_token p)" using assms(3) by (auto simp: pseudo_def)
  have a: "sound p c (Taken (set_pending [] (buffer pwc p)))" by (rule sound_fresh) (use assms in simp_all)
  have b: "sound p c (Taken (set_pending [] (add_inline_token (if u then STRONG_UND else STRONG_AST) d (add_text p))))" for u d
    by (rule sound_fresh) (use assms in simp_all)
  have d: "sound p c (Taken (set_pending [c] (buffer (mp_pending p) p)))" "sound p c (Taken (set_pending [c] (end_token (add_text p))))"
    if "mp_pending p = [x]" for x
    by (rule sound_fresh; use assms that in simp)+
  have e: "sound p c (Taken (set_pending [c] (add_inline_token (mp_token p) d (end_token (end_token (add_text p))))))"
    "sound p c (Taken (set_pending [] (end_token (end_token (add_text p)))))" if "mp_pending p = [x, x]" for x d
    by (rule sound_fresh; use assms that plain in simp)+
  show ?thesis using sound_fall[OF assms(1,2) np] sound_keep[OF assms(1,2,4)] unfolding handle_italic_def Let_def
    by (intro sound_if a b d e)
qed

lemma sound_strike:
  assumes "open_stack p" and "current p" and "\<not> pseudo (mp_token p)"
  shows "sound p c (handle_strike p pwc)"
proof -
  have "sound p c (Taken (set_pending [] (end_token (add_text p))))" by (rule sound_fresh) (use assms in simp_all)
  then show ?thesis using sound_fall[OF assms] unfolding handle_strike_def by (intro sound_if)
qed

section \<open>Equations\<close>

lemma sound_eq_block:
  assumes "open_stack p" and "current p" and "mp_token p = MAYBE_EQ_BLOCK"
  shows "sound p c (handle_maybe_eq_block p c)"
proof -
  let ?r = "add_token EQUATION_BLOCK (add_text p)"
  have a: "sound p c (Taken (set_pending [] (fst ?r)))" by (rule sound_fresh) (use assms in simp_all)
  have b: "sound p c (Taken (set_pending [] (buffer w (resume_token (fst ?r)))))" for w
    by (rule sound_fresh) (use assms in simp_all)
  have d: "sound p c (Writes (set_pending [] (buffer w (resume_token p))) [[c]])" for w
  proof (cases "mp_pending p = []")
    case True
    let ?q = "set_pending [] (buffer w (resume_token p))"
    have "rank ?q = stack_rank (mp_len p) (top_token p) []" using rank_top[OF assms(1), of ?q "[]"] by simp
    then have "rank ?q < rank p"
      using stack_rank_le[of "mp_len p" "top_token p" "[]"] open_len[OF assms(1)] True assms(3) by (simp add: rank_def rank_of_def)
    then show ?thesis by (intro writes_lower) (use assms in \<open>simp_all add: cost_def\<close>)
  next
    case False
    then show ?thesis by (intro writes_less) (use assms wts_pos[OF False] in \<open>simp_all add: cost_def\<close>)
  qed
  show ?thesis unfolding handle_maybe_eq_block_def case_ok by (intro sound_if a b d)
qed

lemma sound_equation:
  assumes "open_stack p" and "current p" and "\<not> pseudo (mp_token p)"
  shows "sound p c (handle_equation_block p pwc)" and "pwc = mp_pending p @ [c] \<Longrightarrow> sound p c (handle_equation_inline p c pwc)"
proof -
  have "sound p c (Taken (set_pending [] (end_token (add_text p))))" by (rule sound_fresh) (use assms in simp_all)
  then show "sound p c (handle_equation_block p pwc)" using sound_fall[OF assms] unfolding handle_equation_block_def by (intro sound_if)
  assume pwc: "pwc = mp_pending p @ [c]"
  have "sound p c (Taken (set_pending (if c = c_rpar then [] else [c]) (end_token (add_text p))))"
    if "pwc = [c_bsl, c_rpar] \<or> first_is (mp_pending p) c_dollar"
    by (rule sound_fresh) (use assms that pwc in \<open>auto simp: first_is_def\<close>)
  then show "sound p c (handle_equation_inline p c pwc)" using sound_fall[OF assms] unfolding handle_equation_inline_def by (intro sound_if)
qed

section \<open>URLs\<close>

lemma rank_raw: "mp_token q = RAW_URL \<Longrightarrow> rank q = (if fst (split_raw_url_tail (mp_pending q)) = [] then 300 + 2 * nat (mp_len q + 1) else 10)"
  by (simp add: rank_def rank_of_def stack_rank_def)

lemma stack_rank_pos: "10 \<le> stack_rank n t s"
  by (simp add: stack_rank_def)

lemma scheme_is_no_tail: "c_h \<in> set s \<Longrightarrow> fst (split_raw_url_tail s) \<noteq> []"
  by (auto simp: split_raw_url_tail_def dropWhile_eq_Nil_conv url_tail_char_def raw_url_tail_def is_cjk_punctuation_def
      intro!: bexI[of _ c_h])

lemma sound_maybe_url:
  assumes "open_stack p" and "current p" and "mp_token p = MAYBE_URL" and "pwc = mp_pending p @ [c]"
  shows "sound p c (handle_maybe_url p c pwc)"
proof -
  let ?r = "add_token RAW_URL (add_text p)"
  have rk: "rank p = 1 + stack_rank (mp_len p) (top_token p) (mp_pending p)" using assms(3) by (simp add: rank_def rank_of_def)
  have a: "sound p c (Taken ((fst ?r)\<lparr>mp_pending := pwc, text_buf := pwc\<rparr>))" if "pwc = tx ''http://'' \<or> pwc = tx ''https://''" "snd ?r"
  proof (rule taken_same)
    have "c_h \<in> set pwc" using that(1) by (auto simp: tx_def)
    then have "rank ((fst ?r)\<lparr>mp_pending := pwc, text_buf := pwc\<rparr>) = 10"
      using that(2) add_token_len(4)[OF that(2)] scheme_is_no_tail by (simp add: rank_raw)
    then show "rank ((fst ?r)\<lparr>mp_pending := pwc, text_buf := pwc\<rparr>) \<le> rank p"
      using rk stack_rank_pos[of "mp_len p" "top_token p" "mp_pending p"] by simp
  qed (use assms in \<open>simp_all add: cost_def\<close>)
  have b: "sound p c (Taken (set_pending [] (buffer pwc (resume_token (fst ?r)))))"
    by (rule sound_fresh) (use assms in simp_all)
  have d: "sound p c (Writes (resume_token p) [[c]])"
  proof (rule writes_lower)
    have "rank (resume_token p) = stack_rank (mp_len p) (top_token p) (mp_pending p)"
      using rank_top[OF assms(1), of "resume_token p"] by simp
    then show "rank (resume_token p) < rank p" using rk by simp
  qed (use assms in \<open>simp_all add: cost_def\<close>)
  show ?thesis unfolding handle_maybe_url_def case_ok by (intro sound_if a b d sound_keep[OF assms(1,2,4)])
qed

lemma url_split_append: "fst (split_raw_url_tail s) @ snd (split_raw_url_tail s) = s"
  unfolding split_raw_url_tail_def fst_conv snd_conv by (metis rev_append rev_rev_ident takeWhile_dropWhile_id)

lemma wts_singles: "sum_list (map wts (map (\<lambda>c. [c]) s)) = wts s" "sum_list (map (wts \<circ> (\<lambda>c. [c])) s) = wts s"
  by (induction s) simp_all

lemma rank_below: "(n < 1 \<Longrightarrow> t = NO_TOKEN) \<Longrightarrow> stack_rank (n - 1) t [] < 300 + 2 * nat (n + 1)"
  by (cases "n < 1") (simp_all add: stack_rank_def nat_add_distrib)

lemma sound_end_url:
  assumes "open_stack p" and "current p" and "mp_token p = RAW_URL"
  shows "sound p c (end_raw_url p [c])"
proof -
  let ?url = "fst (split_raw_url_tail (mp_pending p))" and ?tail = "snd (split_raw_url_tail (mp_pending p))"
  let ?q = "set_pending [] (end_token (add_text (emit (Set_attr HREF ?url) p)))"
  have q: "open_stack ?q" "current ?q" using assms(1,2) by simp_all
  have cost: "wts (mp_pending p) = wts ?url + wts ?tail" by (metis url_split_append wts_simps(3))
  have "sound p c (Writes ?q (map (\<lambda>c. [c]) (?tail @ [c])))"
  proof (cases "?url = []")
    case True
    have "rank ?q = stack_rank (mp_len p - 1) (mp_tokens p (mp_len p - 1)) []" using rank_top[of "end_token p" ?q "[]"] assms(1) by simp
    also have "\<dots> < 300 + 2 * nat (mp_len p + 1)"
      by (rule rank_below) (use assms(1) in \<open>simp add: open_stack_def stack_ok_def\<close>)
    finally have "rank ?q < rank p" using assms(3) True by (simp add: rank_raw)
    then show ?thesis by (intro writes_lower[OF q]) (use cost in \<open>simp_all add: cost_def wts_singles\<close>)
  next
    case False
    then show ?thesis by (intro writes_less[OF q]) (use cost wts_pos[OF False] in \<open>simp_all add: cost_def wts_singles\<close>)
  qed
  then show ?thesis by (simp add: end_raw_url_def Let_def split_beta)
qed

lemma sound_raw_url:
  assumes "open_stack p" and "current p" and "mp_token p = RAW_URL" and "pwc = mp_pending p @ [c]"
  shows "sound p c (handle_raw_url p c pwc)"
proof -
  have "sound p c (Taken (set_pending pwc (buffer w p)))" for w
    by (rule taken_hold) (use assms in simp_all)
  then show ?thesis unfolding handle_raw_url_def
    by (intro sound_if sound_end_url[OF assms(1-3)] sound_keep[OF assms(1,2,4)])
qed

section \<open>Links\<close>

lemma sound_link:
  assumes "open_stack p" and "current p" and "\<not> pseudo (mp_token p)" and "pwc = mp_pending p @ [c]"
  shows "sound p c (handle_link_or_image p c pwc)"
proof -
  have a: "sound p c (Taken (set_pending [c] (buffer w (p\<lparr>link_depth := n\<rparr>))))"
    "sound p c (Taken (set_pending [c] (buffer w (end_token_unresolved (add_text p)))))" if "mp_pending p = [x]" for w n x
    by (rule sound_fresh; use assms that in simp)+
  have b: "sound p c (Taken (set_pending pwc (add_text p)))" by (rule taken_hold) (use assms in simp_all)
  have d: "sound p c (Taken (set_pending [] (end_token
      (case t of None \<Rightarrow> emit x p | Some t \<Rightarrow> emit (Set_attr TITLE (decode_entities t)) (emit x p)))))" for t x
    by (cases t; rule sound_fresh; use assms in simp)
  show ?thesis using sound_keep[OF assms(1,2) refl] unfolding handle_link_or_image_def Let_def
    by (intro sound_if a b d sound_fall[OF assms(1-3)])
qed

section \<open>Held runs\<close>

lemma sound_literal:
  assumes "open_stack p" and "current p" and "mp_token p = MAYBE_ANGLE \<or> mp_token p = MAYBE_ENTITY"
    and "s = drop 1 (mp_pending p) \<or> s = []"
  shows "sound p c (Writes (set_pending s (buffer w (resume_token p))) [[c]])"
proof (cases "mp_pending p = []")
  case True
  let ?q = "set_pending s (buffer w (resume_token p))"
  have "rank ?q = stack_rank (mp_len p) (top_token p) []" using rank_top[OF assms(1), of ?q "[]"] assms(4) True by auto
  then have "rank ?q < rank p"
    using stack_rank_le[of "mp_len p" "top_token p" "[]"] open_len[OF assms(1)] True assms(3) by (auto simp: rank_def rank_of_def)
  then show ?thesis by (intro writes_lower) (use assms True in \<open>auto simp: cost_def\<close>)
next
  case False
  have "wts s < wts (mp_pending p)" using assms(4) wts_drop_less[of 1 "mp_pending p"] wts_pos[OF False] False by auto
  then show ?thesis by (intro writes_less) (use assms in \<open>simp_all add: cost_def\<close>)
qed

lemma sound_angle:
  assumes "open_stack p" and "current p" and "mp_token p = MAYBE_ANGLE" and "pwc = mp_pending p @ [c]"
  shows "sound p c (handle_maybe_angle p c pwc)"
proof -
  have a: "sound p c (Taken (set_pending [] (emit_leaf LINE_BREAK None (resume_token (add_text p)))))"
    "sound p c (Taken (set_pending [] (buffer w (resume_token (add_text p)))))"
    "sound p c (Taken (set_pending [] (end_token (emit x (add_text (buffer w
       (add_inline_token LINK [c_lt] (resume_token (add_text p)))))))))" for w x
    by (rule sound_fresh; use assms in simp)+
  have lit: "sound p c (Writes (set_pending (drop 1 (mp_pending p)) (buffer w (resume_token p))) [[c]])" for w
    by (rule sound_literal) (use assms in simp_all)
  have url: "sound p c (case u of None \<Rightarrow> x | Some v \<Rightarrow> y v)" if "sound p c x" "\<And>v. sound p c (y v)" for u x y
    using that by (cases u) simp_all
  show ?thesis unfolding handle_maybe_angle_def Let_def
    by (intro sound_if url a lit sound_keep[OF assms(1,2,4)])
qed

lemma sound_entity:
  assumes "open_stack p" and "current p" and "mp_token p = MAYBE_ENTITY" and "pwc = mp_pending p @ [c]"
  shows "sound p c (handle_maybe_entity p c pwc)"
proof -
  have a: "sound p c (Taken (set_pending [] (buffer w (resume_token p))))" for w
    by (rule sound_fresh) (use assms in simp_all)
  have b: "sound p c (Writes (set_pending [] (buffer w (resume_token p))) [[c]])" for w
    by (rule sound_literal) (use assms in simp_all)
  show ?thesis unfolding handle_maybe_entity_def by (intro sound_if a b sound_keep[OF assms(1,2,4)])
qed
end
