(* ===== verification/MdReturns.thy ===== *)
theory MdReturns
  imports MdSoundInline
begin

text \<open>
  The checks every token falls back on, one character, and the loop: \<open>parser_write\<close> returns for every chunk,
  and what it returns keeps the stack within its capacity.
\<close>

section \<open>Below a handler that leaves the character\<close>

definition below :: "md_parser \<Rightarrow> md_parser \<Rightarrow> bool" where
  "below q p = (total q < total p \<or> (total q = total p \<and> rank q \<le> rank p))"

lemma below_refl [simp]: "below p p"
  by (simp add: below_def)

lemma sound_below: "below q p \<Longrightarrow> sound q c a \<Longrightarrow> sound p c a"
  by (cases a) (auto simp: sound.simps below_def)

lemma sound_fall_iff: "sound p c (Fall q) = (md_inv q \<and> \<not> pseudo (mp_token q) \<and> mp_token q \<noteq> CODE_FENCE \<and> below q p)"
  by (simp add: sound.simps below_def)

section \<open>Closing to an enclosing token\<close>

lemma enclosing_walk_found:
  "enclosing_walk p wanted is \<noteq> - 1 \<Longrightarrow> enclosing_walk p wanted is \<in> set is \<and> mp_tokens p (enclosing_walk p wanted is) \<in> wanted"
  by (induction "is") (auto split: if_splits)

lemma enclosing_found:
  assumes "enclosing_idx p wanted \<noteq> - 1"
  shows "1 \<le> enclosing_idx p wanted" and "enclosing_idx p wanted \<le> mp_len p" and "mp_tokens p (enclosing_idx p wanted) \<in> wanted"
  using enclosing_walk_found[of p wanted "rev [1..mp_len p]"] assms by (simp_all add: enclosing_idx_def)

lemma to_len_pending [simp]:
  "mp_token (end_tokens_to_len n p) = (if n < mp_len p then mp_tokens p n else mp_token p)"
  "mp_pending (end_tokens_to_len n p) = mp_pending p" "mp_indent (end_tokens_to_len n p) = mp_indent p"
  by (simp_all add: end_tokens_to_len_def)

lemma closed_token:
  assumes "open_stack p" and "current p" and "\<not> pseudo (mp_token p)" and "enclosing_idx p wanted \<noteq> - 1"
  shows "mp_token (end_tokens_to_len (enclosing_idx p wanted) (add_text p)) \<in> wanted"
proof (cases "enclosing_idx p wanted = mp_len p")
  case True
  then have "mp_token p = top_token p" using enclosing_found(1)[OF assms(4)] by (intro current_top[OF assms(2,3)]) simp
  then show ?thesis using enclosing_found(3)[OF assms(4)] True by (simp add: top_token_def)
next
  case False
  then show ?thesis using enclosing_found(2,3)[OF assms(4)] by simp
qed

section \<open>The common checks\<close>

lemma stack_rank_low:
  "p10 \<in> {LINK, IMAGE, TABLE_CELL} \<Longrightarrow> s \<noteq> [] \<Longrightarrow> s \<noteq> [c_nl] \<Longrightarrow> stack_rank n p10 s = 10"
  by (auto simp: stack_rank_def)

lemma rank_plain: "\<not> pseudo (mp_token p) \<Longrightarrow> rank p = stack_rank (mp_len p) (mp_token p) (mp_pending p)"
  by (auto simp: rank_def rank_of_def pseudo_def)

lemma closed_below:
  assumes "open_stack p" and "current p" and "\<not> pseudo (mp_token p)" and "enclosing_idx p wanted \<noteq> - 1"
    and "wanted \<subseteq> {LINK, IMAGE, TABLE_CELL}" and "mp_pending p = [x]" and "x \<noteq> c_nl"
  shows "below (end_tokens_to_len (enclosing_idx p wanted) (add_text p)) p"
proof -
  let ?q = "end_tokens_to_len (enclosing_idx p wanted) (add_text p)"
  have t: "mp_token ?q \<in> {LINK, IMAGE, TABLE_CELL}" using closed_token[OF assms(1-4)] assms(5) by blast
  then have "\<not> pseudo (mp_token ?q)" by (auto simp: pseudo_def)
  then have "rank ?q = 10" using stack_rank_low[OF t, of "mp_pending ?q"] assms(6,7) by (simp add: rank_plain)
  then have "rank ?q \<le> rank p" using rank_plain[OF assms(3)] stack_rank_pos by simp
  moreover have "total ?q = total p" using assms(1,2) total_open[of ?q] total_open[of p] by (simp add: cost_def)
  ultimately show ?thesis by (simp add: below_def)
qed

lemma sound_common_rbr:
  assumes "open_stack p" and "current p" and "\<not> pseudo (mp_token p)" and "pwc = mp_pending p @ [c]"
  shows "sound p c (common_rbr p c pwc)"
proof (cases "mp_pending p = [c_rbr] \<and> link_depth p = 0 \<and> enclosing_idx p {LINK, IMAGE} \<noteq> - 1")
  case True
  let ?q = "end_tokens_to_len (enclosing_idx p {LINK, IMAGE}) (add_text p)"
  have "mp_token ?q \<in> {LINK, IMAGE}" using closed_token[OF assms(1-3)] True by blast
  then have "\<not> pseudo (mp_token ?q)" by (auto simp: pseudo_def)
  then have "sound ?q c (handle_link_or_image ?q c pwc)" by (intro sound_link) (use assms in simp_all)
  moreover have "below ?q p" by (rule closed_below[OF assms(1-3), where x = c_rbr]) (use True in auto)
  ultimately show ?thesis using True by (simp add: common_rbr_def sound_below)
next
  case False
  then show ?thesis using sound_fall[OF assms(1-3)] by (auto simp: common_rbr_def)
qed

lemma sound_common_pipe:
  assumes "open_stack p" and "current p" and "\<not> pseudo (mp_token p)"
  shows "sound p c (common_pipe p c)"
proof (cases "mp_pending p = [c_pipe] \<and> enclosing_idx p {TABLE_CELL} \<noteq> - 1")
  case True
  let ?q = "end_tokens_to_len (enclosing_idx p {TABLE_CELL}) (add_text p)"
  have "mp_token ?q = TABLE_CELL" using closed_token[OF assms(1-3)] True by blast
  then have "sound ?q c (handle_table_cell ?q c)" by (intro sound_cell) (use assms in simp_all)
  moreover have "below ?q p" by (rule closed_below[OF assms(1-3), where x = c_pipe]) (use True in auto)
  ultimately show ?thesis using True by (simp add: common_pipe_def sound_below)
next
  case False
  then show ?thesis using sound_fall[OF assms(1-3)] by (auto simp: common_pipe_def)
qed

lemma stack_rank_pending: "s \<noteq> [] \<Longrightarrow> rank (q\<lparr>mp_token := MAYBE_EQ_BLOCK, mp_pending := s\<rparr>) = 5"
  "s \<noteq> [] \<Longrightarrow> rank (q\<lparr>mp_pending := s, mp_token := MAYBE_ANGLE\<rparr>) = 5"
  "s \<noteq> [] \<Longrightarrow> rank (q\<lparr>mp_pending := s, mp_token := MAYBE_ENTITY\<rparr>) = 5"
  by (simp_all add: rank_def rank_of_def)

lemma sound_common:
  assumes "open_stack p" and "current p" and "\<not> pseudo (mp_token p)" and "pwc = mp_pending p @ [c]"
  shows "sound p c (handle_common p c pwc)"
proof (cases "mp_pending p")
  case Nil
  then show ?thesis using sound_fall[OF assms(1-3)] by (simp add: handle_common_def)
next
  case (Cons f fs)
  have ne: "pwc \<noteq> []" and pe: "mp_pending p \<noteq> []" using assms(4) Cons by simp_all
  have r5: "5 \<le> rank p" using stack_rank_pos[of "mp_len p" "mp_token p" "mp_pending p"] by (simp add: rank_plain[OF assms(3)])
  have fall: "sound p c (Fall p)" "sound p c (Fall (p\<lparr>fence_start := 0\<rparr>))"
    by (rule falls_same; use assms in \<open>simp add: cost_def rank_def top_token_def\<close>)+
  have keep: "sound p c (Taken (set_pending pwc p))" "sound p c (Taken (set_pending pwc (p\<lparr>fence_start := n\<rparr>)))" for n
    by (rule taken_hold; use assms in \<open>simp add: top_token_def\<close>)+
  have inline: "sound p c (Taken (set_pending [] (add_inline_token t d (add_text p))))"
    "sound p c (Taken (set_pending [c] (add_inline_token t d (add_text p))))" if "plain_token t" for t d
    by (rule sound_fresh; use assms that pe in simp)+
  have link: "sound p c (Taken ((add_inline_token t d (add_text p))\<lparr>link_depth := 0, mp_pending := w\<rparr>))"
    if "plain_token t" "w = [] \<or> w = [c]" for t d w
    by (rule sound_fresh) (use assms that pe in auto)
  have held: "sound p c (Taken (p\<lparr>mp_token := MAYBE_EQ_BLOCK, mp_pending := pwc\<rparr>))"
    "sound p c (Taken ((add_text p)\<lparr>mp_pending := pwc, mp_token := MAYBE_ANGLE\<rparr>))"
    "sound p c (Taken ((add_text p)\<lparr>mp_pending := pwc, mp_token := MAYBE_ENTITY\<rparr>))"
    by (rule taken_same; use assms ne r5 in \<open>simp add: cost_def stack_rank_pending\<close>)+
  have backslash: "sound p c (common_backslash p c pwc)"
  proof -
    have "sound p c (Taken (set_pending [c] (if b then buffer (mp_pending p) p else p)))"
      "sound p c (Taken (buffer w (set_pending [] p)))" for b w
      by (rule sound_fresh; use assms pe in simp)+
    then show ?thesis unfolding common_backslash_def by (intro sound_if fall inline held) simp_all
  qed
  have newline: "sound p c (common_newline p c)"
  proof -
    have "sound p c (Taken (set_pending [c] ((end_tokens_to_len n (add_text p))\<lparr>blockquote_idx := 0\<rparr>)))"
      "sound p c (Taken ((add_text p)\<lparr>mp_pending := [c], mp_token := LINE_BREAK, blockquote_idx := 0\<rparr>))" for n
      by (rule sound_fresh; use assms pe in simp)+
    then show ?thesis unfolding common_newline_def by (intro sound_if fall)
  qed
  have tick: "sound p c (common_tick p c pwc)"
  proof -
    have "sound p c (Taken (set_pending [] (if b then buffer w (add_inline_token CODE_INLINE d q) else add_inline_token CODE_INLINE d q)))"
      if "open_stack q" "current q" "mp_indent q = mp_indent p" for b w d q
      by (rule sound_fresh) (use that in simp_all)
    then show ?thesis unfolding common_tick_def Let_def by (intro sound_if fall keep) (use assms(1,2) in simp_all)
  qed
  have emphasis: "sound p c (common_emphasis p x c pwc)" for x
  proof -
    have two: "sound p c (Taken (set_pending [] (add_inline_token t d (add_inline_token u e (add_text p)))))"
      if "plain_token t" "plain_token u" for t d u e by (rule sound_fresh) (use assms that in simp_all)
    show ?thesis unfolding common_emphasis_def Let_def by (intro sound_if fall keep inline two) simp_all
  qed
  have tilde: "sound p c (common_tilde p c pwc)" unfolding common_tilde_def by (intro sound_if fall keep inline) simp
  have dollar: "sound p c (common_dollar p c pwc)" unfolding common_dollar_def by (intro sound_if fall held inline) simp
  have rest: "sound p c (common_lt p pwc)" "sound p c (common_amp p c pwc)" "sound p c (common_lbr p c)" "sound p c (common_bang p c)"
    unfolding common_lt_def common_amp_def common_lbr_def common_bang_def by (intro sound_if fall held link; simp)+
  have space: "sound p c (Taken p)" by (rule taken_less[OF assms(1,2)]) simp
  show ?thesis unfolding handle_common_def Cons list.case
    by (intro sound_if backslash newline tick emphasis tilde dollar rest space fall
        sound_common_rbr[OF assms] sound_common_pipe[OF assms(1-3)])
qed

section \<open>One character\<close>

lemma sound_token:
  assumes "md_inv p" and "mp_token p \<noteq> NEWLINE" and "pwc = mp_pending p @ [c]"
  shows "sound p c (handle_token p c pwc)"
proof (cases "mp_token p = CODE_FENCE")
  case True
  then show ?thesis using sound_fence[OF assms(1) _ assms(3)] by (simp add: handle_token_def)
next
  case False
  then have p: "open_stack p" "current p" using inv_open[OF assms(1)] assms(2) by simp_all
  note rules = sound_root[OF p assms(3)] sound_heading[OF p assms(3)] sound_table[OF p assms(3)] sound_row[OF p] sound_cell[OF p]
    sound_code_block[OF p assms(3)] sound_code_inline[OF p assms(3)] sound_task[OF p assms(3)] sound_strong[OF p]
    sound_italic[OF p _ assms(3)] sound_strike[OF p] sound_eq_block[OF p] sound_equation[OF p] sound_maybe_url[OF p _ assms(3)]
    sound_link[OF p _ assms(3)] sound_raw_url[OF p _ assms(3)] sound_angle[OF p _ assms(3)] sound_entity[OF p _ assms(3)]
    sound_fall[OF p]
  show ?thesis
    by (cases "mp_token p"; unfold handle_token_def; simp only: md_token.case; (rule rules)?)
      (use False assms(2,3) in \<open>simp_all add: root_token_def is_heading_token_def pseudo_def\<close>)
qed

lemma rank_h: "1 + stack_rank n t [c_h] \<le> stack_rank n t []"
  by (simp add: stack_rank_def split_raw_url_tail_def url_tail_char_def raw_url_tail_def is_cjk_punctuation_def)

lemma sound_shift:
  assumes "open_stack p" and "current p" and "\<not> pseudo (mp_token p)"
  shows "sound p c (Taken (shift_pending p c))"
proof (cases "mp_pending p")
  case (Cons f fs)
  then show ?thesis by (intro sound_fresh) (use assms in \<open>simp_all add: shift_pending_def Let_def\<close>)
next
  case Nil
  let ?q = "shift_pending p c"
  have q: "open_stack ?q" "current ?q" "mp_pending ?q = [c]" "mp_indent ?q = mp_indent p" "mp_len ?q = mp_len p"
    using assms by (simp_all add: shift_pending_def Let_def)
  have "rank ?q \<le> rank p"
  proof (cases "mp_token ?q = MAYBE_URL")
    case True
    then have c: "c = c_h" using assms(3) by (auto simp: shift_pending_def Let_def split: if_splits)
    have top: "top_token ?q = top_token p" by (simp add: top_token_def shift_pending_def Let_def)
    have "rank ?q = 1 + stack_rank (mp_len p) (top_token p) [c_h]" using True q c top by (simp add: rank_def rank_of_def)
    also have "\<dots> \<le> stack_rank (mp_len p) (mp_token p) []"
    proof (cases "mp_len p < 0")
      case True
      then have "top_token p = NO_TOKEN" using assms(1) by (simp add: open_stack_def stack_ok_def top_token_def)
      then show ?thesis by (simp add: stack_rank_def split_raw_url_tail_def)
    next
      case False
      then show ?thesis using current_top[OF assms(2,3)] rank_h[of "mp_len p" "mp_token p"] by simp
    qed
    finally show ?thesis by (simp add: rank_plain[OF assms(3)] Nil)
  next
    case False
    then have "rank ?q = rank (set_pending (mp_pending p @ [c]) p)"
      by (intro rank_same) (auto simp: shift_pending_def Let_def Nil split: if_splits)
    then show ?thesis using rank_append by simp
  qed
  then show ?thesis by (intro taken_same[OF q(1,2)]) (simp_all add: cost_def q Nil)
qed

text \<open>A handler that leaves the character leaves \<open>pending\<close> too, or empties it.\<close>

definition leaves :: "md_parser \<Rightarrow> md_action \<Rightarrow> bool" where
  "leaves p a = (case a of Fall q \<Rightarrow> mp_pending q = mp_pending p \<or> mp_pending q = [] | _ \<Rightarrow> True)"

lemma leaves_simps [simp]:
  "leaves p (Taken q)" "leaves p (Writes q ws)" "leaves p (Fall q) = (mp_pending q = mp_pending p \<or> mp_pending q = [])"
  by (simp_all add: leaves_def)

lemma leaves_if: "(b \<Longrightarrow> leaves p x) \<Longrightarrow> (\<not> b \<Longrightarrow> leaves p y) \<Longrightarrow> leaves p (if b then x else y)"
  by simp

lemma leaves_option: "leaves p x \<Longrightarrow> (\<And>v. leaves p (y v)) \<Longrightarrow> leaves p (case u of None \<Rightarrow> x | Some v \<Rightarrow> y v)"
  by (cases u) simp_all

lemma leaves_root: "leaves p (handle_root_context p c pwc)"
proof -
  have "leaves p (promote q pwc)" for q by (simp add: promote_def Let_def split_beta)
  then show ?thesis by (auto simp: handle_root_context_def split: list.splits md_action.splits)
qed

lemma leaves_token: "leaves p (handle_token p c pwc)"
proof -
  have bool: "leaves p (if snd x then f (fst x) else g (fst x))" if "\<And>q. leaves p (f q)" "\<And>q. leaves p (g q)" for x f g
    using that by simp
  have blocks: "leaves p (handle_heading p c pwc)" "leaves p (handle_table p c pwc)" "leaves p (handle_table_row p c)"
    "leaves p (handle_table_cell p c)" "leaves p (handle_code_block p c pwc)" "leaves p (handle_code_inline p c pwc)"
    "leaves p (handle_code_fence p c pwc)" "leaves p (handle_maybe_task p c pwc)"
    unfolding handle_heading_def handle_table_def handle_table_row_def handle_table_cell_def handle_code_block_def
      handle_code_inline_def handle_code_fence_def handle_maybe_task_def Let_def
    by (intro leaves_if; simp)+
  have inlines: "leaves p (handle_strong p c)" "leaves p (handle_italic p c pwc)" "leaves p (handle_strike p pwc)"
    "leaves p (handle_maybe_eq_block p c)" "leaves p (handle_equation_block p pwc)" "leaves p (handle_equation_inline p c pwc)"
    "leaves p (handle_maybe_url p c pwc)" "leaves p (handle_link_or_image p c pwc)" "leaves p (handle_raw_url p c pwc)"
    "leaves p (handle_maybe_angle p c pwc)" "leaves p (handle_maybe_entity p c pwc)"
    unfolding handle_strong_def handle_italic_def handle_strike_def handle_maybe_eq_block_def handle_equation_block_def
      handle_equation_inline_def handle_maybe_url_def handle_link_or_image_def handle_raw_url_def end_raw_url_def
      handle_maybe_angle_def handle_maybe_entity_def Let_def case_ok split_beta
    by (intro leaves_if leaves_option; simp)+
  show ?thesis unfolding handle_token_def
    by (cases "mp_token p") (simp_all only: md_token.case leaves_root blocks inlines leaves_simps simp_thms)
qed

lemma sound_write:
  assumes "md_inv p" and "mp_token p \<noteq> NEWLINE"
  shows "sound p c (write_char p c)" and "write_char p c \<noteq> Fall q"
proof -
  let ?pwc = "mp_pending p @ [c]"
  have first: "sound p c (handle_token p c ?pwc)" by (rule sound_token[OF assms refl])
  have "sound p c (write_char p c) \<and> write_char p c \<noteq> Fall q"
  proof (cases "handle_token p c ?pwc")
    case (Fall p1)
    with first have p1: "open_stack p1" "current p1" "\<not> pseudo (mp_token p1)" "below p1 p"
      using inv_open[of p1] by (auto simp: sound_fall_iff pseudo_def)
    have leave: "mp_pending p1 = mp_pending p \<or> mp_pending p1 = []"
      using leaves_token[of p c ?pwc] Fall by (simp add: leaves_def)
    have common: "sound p1 c (handle_common p1 c ?pwc)"
    proof (cases "mp_pending p1 = []")
      case True
      then show ?thesis using sound_fall[OF p1(1-3)] by (simp add: handle_common_def)
    qed (use sound_common[OF p1(1-3), of ?pwc c] leave in simp)
    show ?thesis
    proof (cases "handle_common p1 c ?pwc")
      case f2: (Fall p2)
      with common have p2: "open_stack p2" "current p2" "\<not> pseudo (mp_token p2)" "below p2 p1"
        using inv_open[of p2] by (auto simp: sound_fall_iff pseudo_def)
      have "sound p c (Taken (shift_pending p2 c))"
        by (rule sound_below[OF p1(4)], rule sound_below[OF p2(4)], rule sound_shift[OF p2(1-3)])
      then show ?thesis using Fall f2 by (simp add: write_char_def Let_def)
    qed (use sound_below[OF p1(4) common] Fall in \<open>simp_all add: write_char_def Let_def\<close>)
  qed (use first in \<open>simp_all add: write_char_def Let_def\<close>)
  then show "sound p c (write_char p c)" "write_char p c \<noteq> Fall q" by simp_all
qed

end
