(* ===== verification/MdCalm.thy ===== *)
theory MdCalm
  imports MdReturns
begin

text \<open>
  Between the indent of a line start and the character after it no newline is dispatched: of what is held only
  the first character can be one, and no handler writes it again. So the state is never at a line start when an
  iteration goes on.
\<close>

definition calm :: "md_parser \<Rightarrow> bool" where
  "calm p = (mp_token p \<noteq> NEWLINE \<and> c_nl \<notin> set (drop 1 (mp_pending p)) \<and> c_nl \<notin> set (mp_indent p)
     \<and> (mp_token p = MAYBE_TASK \<longrightarrow> c_nl \<notin> set (mp_pending p)))"

definition calms :: "md_action \<Rightarrow> bool" where
  "calms a = (case a of Fall q \<Rightarrow> calm q | Taken q \<Rightarrow> calm q | Writes q ws \<Rightarrow> calm q \<and> (\<forall>w\<in>set ws. c_nl \<notin> set w))"

lemma calms_simps [simp]:
  "calms (Fall q) = calm q" "calms (Taken q) = calm q" "calms (Writes q ws) = (calm q \<and> (\<forall>w\<in>set ws. c_nl \<notin> set w))"
  by (simp_all add: calms_def)

lemma calms_if: "(b \<Longrightarrow> calms x) \<Longrightarrow> (\<not> b \<Longrightarrow> calms y) \<Longrightarrow> calms (if b then x else y)"
  by simp

lemma calms_option: "calms x \<Longrightarrow> (\<And>v. calms (y v)) \<Longrightarrow> calms (case u of None \<Rightarrow> x | Some v \<Rightarrow> y v)"
  by (cases u) simp_all

lemma token_push [simp]: "open_stack p \<Longrightarrow> mp_token (fst (add_token t p)) = (if snd (add_token t p) then t else mp_token p)"
  using add_token_len(4)[of t p] open_refused[of p t] by simp

lemma calm_fresh:
  assumes "current q" and "mp_pending q = [] \<or> mp_pending q = [c]" and "c \<noteq> c_nl" and "c_nl \<notin> set (mp_indent q)"
  shows "calm q"
  using assms by (auto simp: calm_def current_def)

lemma calm_cleared:
  assumes "current q" and "mp_indent q = []" and "mp_pending q = [] \<or> mp_pending q = [c]" and "c \<noteq> c_nl"
  shows "calm q"
  using assms by (intro calm_fresh) simp_all

section \<open>The root context\<close>

definition arm_calms :: "md_action \<Rightarrow> bool" where
  "arm_calms a = (case a of Fall q \<Rightarrow> True | _ \<Rightarrow> calms a)"

lemma arm_calms_simps [simp]:
  "arm_calms (Fall q)" "arm_calms (Taken q) = calm q" "arm_calms (Writes q ws) = calms (Writes q ws)"
  by (simp_all add: arm_calms_def)

lemma arm_calms_if: "(b \<Longrightarrow> arm_calms x) \<Longrightarrow> (\<not> b \<Longrightarrow> arm_calms y) \<Longrightarrow> arm_calms (if b then x else y)"
  by simp

lemma item_calm [simp]: "calm (add_list_item n q)"
  by (simp add: add_list_item_def Let_def calm_def)

lemma drop_calm: "c_nl \<notin> set (drop 1 s) \<Longrightarrow> 1 \<le> n \<Longrightarrow> c_nl \<notin> set (drop n s)"
  using set_drop_subset_set_drop[of 1 n s] by blast

lemma bullet_calm: "open_stack p \<Longrightarrow> c_nl \<notin> set (drop 1 pwc) \<Longrightarrow> arm_calms (root_bullet p pwc)"
  unfolding root_bullet_def split_beta
  by (auto split: list_open.split simp: drop_calm)

lemma list_case: "(\<And>q b. arm_calms (f q b)) \<Longrightarrow> arm_calms (case x of (q, b) \<Rightarrow> f q b)"
  by (cases x) simp

lemma calm_root_fence:
  assumes "open_stack p" and "current p" and "c \<noteq> c_nl" and "c_nl \<notin> set (mp_pending p)" and "pwc = mp_pending p @ [c]"
    and "mp_token p \<noteq> MAYBE_TASK" and "c_nl \<notin> set (mp_indent p)"
  shows "arm_calms (root_fence p c pwc)"
proof -
  let ?r = "add_token PARAGRAPH p"
  have pwc: "c_nl \<notin> set pwc" using assms(3-5) by simp
  have hold: "calm (set_pending pwc p)" "calm (set_pending pwc (p\<lparr>fence_start := n\<rparr>))" for n
    using assms(2,6,7) pwc by (auto simp: calm_def current_def dest: in_set_dropD)
  have "calm ((clear_root_pending (fst ?r))\<lparr>fence_start := 0\<rparr>)" "calm ((clear_root_pending (buffer pwc (fst ?r)))\<lparr>fence_start := 0\<rparr>)"
    by (rule calm_cleared[where c = c]; use assms in simp)+
  then show ?thesis using hold pwc assms(3) unfolding root_fence_eq Let_def
    by (intro arm_calms_if) simp_all
qed

lemma calm_arm:
  assumes "open_stack p" and "current p" and "calm p" and "c \<noteq> c_nl" and "pwc = mp_pending p @ [c]" and "mp_pending p = f # s"
    and "root_token (mp_token p)"
  shows "arm_calms (root_arm p f c pwc)"
proof -
  have s: "c_nl \<notin> set s" and pwc: "c_nl \<notin> set (drop 1 pwc)" and ind: "c_nl \<notin> set (mp_indent p)"
    and tok: "mp_token p \<noteq> NEWLINE" "mp_token p \<noteq> MAYBE_TASK"
    using assms by (auto simp: calm_def root_token_def)
  have hold: "calm (q\<lparr>mp_pending := pwc\<rparr>)" if "mp_token q = mp_token p" "mp_indent q = mp_indent p" for q
    using that pwc ind tok by (simp add: calm_def)
  have clear: "calm q" if "open_stack q" "current q" "mp_indent q = []" "mp_pending q = [] \<or> mp_pending q = [c]" for q
    using calm_cleared[OF that(2-4) assms(4)] .
  have blank: "arm_calms (Taken (p\<lparr>mp_pending := [c], mp_indent := mp_indent p @ [x], indent_len := n\<rparr>))" if "x \<noteq> c_nl" for x n
    using that ind tok by (simp add: calm_def)
  have newline: "arm_calms (root_newline p c)"
    unfolding root_newline_def Let_def by (intro arm_calms_if; simp only: arm_calms_simps; rule clear; use assms(1,2) in simp)
  have hash: "arm_calms (root_hash p c pwc)"
    using hold[of p] assms(1,2,4) unfolding root_hash_def Let_def split_beta set_pending_def
    by (intro arm_calms_if; simp add: clear)
  have quote: "arm_calms (root_quote p c)"
    using assms(1,2,4) unfolding root_quote_def Let_def case_ok by (intro arm_calms_if; simp add: clear)
  have rule: "arm_calms (root_rule p c pwc)"
  proof -
    have "arm_calms (if b then x else if b1 then y else if c = c_nl \<and> b2 then z else w)"
      if "arm_calms x" "arm_calms y" "arm_calms w" for b b1 b2 x y z w using that assms(4) by simp
    then show ?thesis unfolding root_rule_def Let_def
      using assms(1,2) pwc hold by (auto simp: set_pending_def bullet_calm)
  qed
  have fence: "arm_calms (root_fence p c pwc)" if "f \<noteq> c_nl"
    using calm_root_fence[OF assms(1,2,4) _ assms(5) tok(2) ind] s that assms(6) by simp
  have plus: "arm_calms (root_plus p c)" unfolding root_plus_def split_beta by (auto split: list_open.split)
  have digit: "arm_calms (root_digit p c pwc)"
    using hold[of p] unfolding root_digit_def Let_def split_beta set_pending_def by (auto split: list_open.split)
  have pipe: "arm_calms (root_pipe p c pwc)"
    using hold[of p] assms(4) unfolding root_pipe_def Let_def set_pending_def by auto
  show ?thesis unfolding root_arm_def
    by (intro arm_calms_if blank newline hash quote rule fence plus digit pipe) simp_all
qed

lemma calm_promote:
  assumes "open_stack q" and "current q" and "c_nl \<notin> set (mp_indent q)" and "c_nl \<notin> set pwc"
  shows "calms (promote q pwc)"
proof -
  have clear: "calm (clear_root_pending r)" "calm (buffer w (clear_root_pending r))"
    "calm ((buffer w (clear_root_pending r))\<lparr>blockquote_idx := 0, fence_start := 0\<rparr>)" if "open_stack r" "current r" for r w
    by (rule calm_cleared[where c = 0]; use that in simp)+
  show ?thesis using assms clear unfolding promote_def Let_def split_beta
    by (auto dest: in_set_dropD)
qed

lemma calm_root:
  assumes "open_stack p" and "current p" and "calm p" and "c \<noteq> c_nl" and "pwc = mp_pending p @ [c]"
    and "root_token (mp_token p)"
  shows "calms (handle_root_context p c pwc)"
proof (cases "mp_pending p")
  case Nil
  then show ?thesis using assms by (simp add: handle_root_context_def calm_def)
next
  case (Cons f s)
  have arm: "arm_calms (root_arm p f c pwc)" by (rule calm_arm[OF assms(1-5) Cons assms(6)])
  show ?thesis
  proof (cases "root_arm p f c pwc")
    case (Fall q)
    have "f \<noteq> c_nl"
      using Fall by (auto simp: root_arm_def root_newline_def Let_def split: if_splits)
    then have "c_nl \<notin> set pwc" using assms(3-5) Cons by (simp add: calm_def)
    moreover have "arm_sound p c (Fall q)" using sound_root_arm[OF assms(1,2) Cons assms(5,6)] Fall by simp
    moreover have "c_nl \<notin> set (mp_indent p)" using assms(3) by (simp add: calm_def)
    ultimately show ?thesis using Fall Cons calm_promote[of q pwc] by (simp add: handle_root_context_def)
  qed (use arm Cons in \<open>simp_all add: handle_root_context_def\<close>)
qed

section \<open>The other handlers\<close>

lemma calm_blocks:
  assumes "open_stack p" and "current p" and "calm p" and "c \<noteq> c_nl" and "pwc = mp_pending p @ [c]"
  shows "mp_token p \<noteq> MAYBE_TASK \<Longrightarrow> calms (handle_heading p c pwc)" and "mp_token p = TABLE \<Longrightarrow> calms (handle_table p c pwc)"
    and "mp_token p = TABLE_ROW \<Longrightarrow> calms (handle_table_row p c)" and "mp_token p = TABLE_CELL \<Longrightarrow> calms (handle_table_cell p c)"
    and "mp_token p = CODE_BLOCK \<Longrightarrow> calms (handle_code_block p c pwc)" and "mp_token p = CODE_INLINE \<Longrightarrow> calms (handle_code_inline p c pwc)"
    and "mp_token p = MAYBE_TASK \<Longrightarrow> calms (handle_maybe_task p c pwc)"
proof -
  have ind: "c_nl \<notin> set (mp_indent p)" and pend: "c_nl \<notin> set (drop 1 (mp_pending p))" and tok: "mp_token p \<noteq> NEWLINE"
    using assms by (simp_all add: calm_def)
  have pwc: "c_nl \<notin> set (drop 1 pwc)" using pend assms(4,5) by (cases "mp_pending p") simp_all
  have fresh: "calm q" if "current q" "mp_indent q = mp_indent p" "mp_pending q = [] \<or> mp_pending q = [c]" for q
    by (rule calm_fresh[OF that(1,3) assms(4)]) (use ind that in simp)
  have hold: "calm q" if "mp_token q = mp_token p" "mp_indent q = mp_indent p" "mp_pending q = pwc" "mp_token p \<noteq> MAYBE_TASK" for q
    using that pwc ind tok by (simp add: calm_def)
  have same: "calm q" if "mp_token q = mp_token p" "mp_indent q = mp_indent p" "mp_pending q = mp_pending p" for q
    using that assms(3) by (simp add: calm_def)
  have calm_buffered: "calm ((buffer w p)\<lparr>mp_pending := [], atx_close := b\<rparr>)" for w b using tok ind by (simp add: calm_def)
  show "calms (handle_heading p c pwc)" if "mp_token p \<noteq> MAYBE_TASK"
    using that assms(4) unfolding handle_heading_def by (intro calms_if; simp add: hold same calm_buffered)
  show "calms (handle_table p c pwc)" if "mp_token p = TABLE"
  proof -
    have "calm ((end_token p)\<lparr>table_state := 0\<rparr>)" using assms(1) pend ind
      by (simp add: calm_def)
    moreover have "calm (set_pending [] (fst (add_token TABLE_ROW p)))" using row_push[OF assms(1,2) table_seat(1)[OF assms(1,2) that]]
      by (intro fresh) simp_all
    ultimately show ?thesis using assms(1,3,4) hold[of "set_pending pwc p"] that unfolding handle_table_def
      by (intro calms_if; simp add: fresh)
  qed
  show "calms (handle_table_row p c)" if "mp_token p = TABLE_ROW"
  proof -
    have "mp_token (fst (add_token TABLE_CELL p)) \<noteq> NEWLINE" "mp_token (fst (add_token TABLE_CELL p)) \<noteq> MAYBE_TASK"
      using assms(1) that by simp_all
    then have "calm (fst (add_token TABLE_CELL p))" using pend ind by (simp add: calm_def)
    moreover have "calm (set_pending [] (end_token (fst (add_token TABLE_CELL p))))"
      by (rule fresh) (use cell_push[OF assms(1,2) that] in simp_all)
    ultimately show ?thesis using assms(1,2,3,4) unfolding handle_table_row_def
      by (intro calms_if; simp add: fresh)
  qed
  show "calms (handle_table_cell p c)" if "mp_token p = TABLE_CELL"
  proof -
    have "calm (set_pending [c_nl] (end_token (add_text p)))" using assms(1) ind by (simp add: calm_def)
    then show ?thesis using assms(1,3,4) unfolding handle_table_cell_def by (intro calms_if; simp add: fresh)
  qed
  show "calms (handle_code_block p c pwc)" if "mp_token p = CODE_BLOCK"
    using assms(1,2,4) that unfolding handle_code_block_def by (intro calms_if; simp add: fresh hold same)
  show "calms (handle_code_inline p c pwc)" if "mp_token p = CODE_INLINE"
    using assms(1,2,4) that unfolding handle_code_inline_def by (intro calms_if; simp add: fresh hold same)
  show "calms (handle_maybe_task p c pwc)" if "mp_token p = MAYBE_TASK"
  proof -
    have none: "c_nl \<notin> set pwc" using assms(3-5) that by (simp add: calm_def)
    then have "calm (set_pending pwc p)" using ind tok by (auto simp: calm_def dest: in_set_dropD)
    moreover have "calm (set_pending [c_space] (emit_leaf CHECKBOX a p))" for a using ind tok by (simp add: calm_def)
    moreover have "calm (set_pending [] (resume_token p))" by (rule fresh) (use assms(1) in simp_all)
    ultimately show ?thesis using none unfolding handle_maybe_task_def Let_def by (intro calms_if; simp)
  qed
qed

lemma calm_fence:
  assumes "calm p" and "mp_token p = CODE_FENCE" and "c \<noteq> c_nl" and "pwc = mp_pending p @ [c]"
  shows "calms (handle_code_fence p c pwc)"
proof -
  have pwc: "c_nl \<notin> set (drop 1 pwc)" using assms by (cases "mp_pending p") (simp_all add: calm_def)
  then have "calm (set_pending pwc p)" "calm (set_pending [] (buffer pwc (if b then p\<lparr>fence_end := 1\<rparr> else p)))" for b
    using assms(1,2) by (simp_all add: calm_def)
  then show ?thesis using assms(3) unfolding handle_code_fence_def by (intro calms_if) simp_all
qed

lemma tail_no_newline: "c_nl \<notin> set (snd (split_raw_url_tail s))"
  using newline_not_tail by (auto simp: split_raw_url_tail_def dest: set_takeWhileD)

lemma calm_inlines:
  assumes "open_stack p" and "current p" and "calm p" and "c \<noteq> c_nl" and "pwc = mp_pending p @ [c]"
    and "mp_token p \<noteq> MAYBE_TASK"
  shows "calms (handle_strong p c)" and "mp_token p = ITALIC_AST \<or> mp_token p = ITALIC_UND \<Longrightarrow> calms (handle_italic p c pwc)"
    and "calms (handle_strike p pwc)" and "calms (handle_maybe_eq_block p c)" and "calms (handle_equation_block p pwc)"
    and "calms (handle_equation_inline p c pwc)" and "calms (handle_maybe_url p c pwc)" and "calms (handle_link_or_image p c pwc)"
    and "calms (handle_raw_url p c pwc)" and "calms (handle_maybe_angle p c pwc)" and "calms (handle_maybe_entity p c pwc)"
proof -
  have ind: "c_nl \<notin> set (mp_indent p)" and pend: "c_nl \<notin> set (drop 1 (mp_pending p))" and tok: "mp_token p \<noteq> NEWLINE"
    using assms by (simp_all add: calm_def)
  have pwc: "c_nl \<notin> set (drop 1 pwc)" using pend assms(4,5) by (cases "mp_pending p") simp_all
  have fresh: "calm q" if "current q" "mp_indent q = mp_indent p" "mp_pending q = [] \<or> mp_pending q = [c]" for q
    by (rule calm_fresh[OF that(1,3) assms(4)]) (use ind that in simp)
  have hold: "calm q" if "mp_token q = mp_token p" "mp_indent q = mp_indent p" "mp_pending q = pwc" for q
    using that pwc ind tok assms(6) by (simp add: calm_def)
  have keep: "calm (set_pending pwc p)" by (rule hold) simp_all
  show "calms (handle_strong p c)" using assms(1-4) unfolding handle_strong_def Let_def by (intro calms_if; simp add: fresh)
  show "calms (handle_strike p pwc)" using assms(1-4) unfolding handle_strike_def Let_def by (intro calms_if; simp add: fresh)
  show "calms (handle_italic p c pwc)" if t: "mp_token p = ITALIC_AST \<or> mp_token p = ITALIC_UND"
  proof -
    have "plain_token (mp_token p)" using t by auto
    then show ?thesis using assms(1-4) keep unfolding handle_italic_def Let_def by (intro calms_if; simp add: fresh)
  qed
  show "calms (handle_maybe_eq_block p c)" using assms(1-4) unfolding handle_maybe_eq_block_def case_ok by (intro calms_if; simp add: fresh)
  show "calms (handle_equation_block p pwc)" using assms(1-4) unfolding handle_equation_block_def by (intro calms_if; simp add: fresh)
  show "calms (handle_equation_inline p c pwc)" using assms(1-4) unfolding handle_equation_inline_def by (intro calms_if; simp add: fresh)
  show "calms (handle_maybe_url p c pwc)"
  proof -
    have "calm ((fst (add_token RAW_URL (add_text p)))\<lparr>mp_pending := pwc, text_buf := pwc\<rparr>)" using assms(1,6) tok pwc ind
      by (simp add: calm_def)
    moreover have "calm (resume_token p)" using assms(1) pend ind by (simp add: calm_def resume_token_def)
    ultimately show ?thesis using assms(1-4) keep unfolding handle_maybe_url_def case_ok by (intro calms_if; simp add: fresh)
  qed
  show "calms (handle_link_or_image p c pwc)"
  proof -
    have "calm (set_pending pwc (add_text p))" by (rule hold) simp_all
    moreover have "calm (set_pending [] (end_token (case t of None \<Rightarrow> emit x p | Some t \<Rightarrow> emit (Set_attr TITLE (decode_entities t)) (emit x p))))"
      for t x by (cases t; rule fresh; use assms(1) in simp)
    ultimately show ?thesis using assms(1-5) keep unfolding handle_link_or_image_def Let_def by (intro calms_if; simp add: fresh)
  qed
  show "calms (handle_raw_url p c pwc)"
  proof -
    have "calms (end_raw_url p [c])" using assms(1,4) tail_no_newline[of "mp_pending p"] unfolding end_raw_url_def Let_def split_beta
      by (auto intro!: fresh)
    moreover have "calm (set_pending pwc (buffer w p))" for w by (rule hold) simp_all
    ultimately show ?thesis using keep unfolding handle_raw_url_def by (intro calms_if; simp)
  qed
  show "calms (handle_maybe_angle p c pwc)"
  proof -
    have "calm (set_pending (drop 1 (mp_pending p)) (buffer w (resume_token p)))" for w
      using assms(1) drop_calm[of "mp_pending p" "Suc (Suc 0)"] pend ind by (simp add: calm_def resume_token_def)
    then show ?thesis using assms(1-4) keep unfolding handle_maybe_angle_def Let_def by (intro calms_if calms_option; simp add: fresh)
  qed
  show "calms (handle_maybe_entity p c pwc)" using assms(1-4) keep unfolding handle_maybe_entity_def by (intro calms_if; simp add: fresh)
qed

section \<open>One character\<close>

lemma calm_closed:
  assumes "open_stack p" and "calm p" and "mp_token p \<noteq> MAYBE_TASK"
  shows "calm (end_tokens_to_len n (add_text p))" and "mp_token (end_tokens_to_len n (add_text p)) \<noteq> MAYBE_TASK"
  using assms by (simp_all add: calm_def)

lemma calm_common:
  assumes "open_stack p" and "current p" and "\<not> pseudo (mp_token p)" and "calm p" and "c \<noteq> c_nl" and "pwc = mp_pending p @ [c]"
  shows "calms (handle_common p c pwc)"
proof (cases "mp_pending p")
  case Nil
  then show ?thesis using assms(4) by (simp add: handle_common_def)
next
  case (Cons f fs)
  have ind: "c_nl \<notin> set (mp_indent p)" and pend: "c_nl \<notin> set (drop 1 (mp_pending p))" and tok: "mp_token p \<noteq> NEWLINE" "mp_token p \<noteq> MAYBE_TASK"
    using assms by (auto simp: calm_def)
  have pwc: "c_nl \<notin> set (drop 1 pwc)" using pend assms(5,6) by (cases "mp_pending p") simp_all
  have fresh: "calm q" if "current q" "mp_indent q = mp_indent p" "mp_pending q = [] \<or> mp_pending q = [c]" for q
    by (rule calm_fresh[OF that(1,3) assms(5)]) (use ind that in simp)
  have hold: "calm q" if "mp_token q = mp_token p \<or> mp_token q \<in> {MAYBE_EQ_BLOCK, MAYBE_ANGLE, MAYBE_ENTITY}"
    "mp_indent q = mp_indent p" "mp_pending q = pwc" for q
    using that pwc ind tok by (auto simp: calm_def)
  have keep: "calm (p\<lparr>fence_start := n\<rparr>)" for n using assms(4) by (simp add: calm_def)
  have rbr: "calms (common_rbr p c pwc)"
    using assms calm_closed[OF assms(1,4) tok(2)] unfolding common_rbr_def
    by (intro calms_if) (simp_all add: calm_inlines(8))
  have pipe: "calms (common_pipe p c)"
  proof (cases "enclosing_idx p {TABLE_CELL} = - 1")
    case False
    then have "mp_token (end_tokens_to_len (enclosing_idx p {TABLE_CELL}) (add_text p)) = TABLE_CELL"
      using closed_token[OF assms(1-3) False] by blast
    then have "calms (handle_table_cell (end_tokens_to_len (enclosing_idx p {TABLE_CELL}) (add_text p)) c)"
      by (intro calm_blocks(4)[OF _ _ _ assms(5) refl]) (use assms(1,2) calm_closed[OF assms(1,4) tok(2)] in simp_all)
    then show ?thesis using assms(4) by (simp add: common_pipe_def)
  qed (use assms(4) in \<open>simp add: common_pipe_def\<close>)
  have backslash: "calms (common_backslash p c pwc)"
    using assms(1,2,4,5) unfolding common_backslash_def by (intro calms_if; simp add: fresh hold)
  have newline: "calms (common_newline p c)"
    using assms(1,2,4,5) unfolding common_newline_def by (intro calms_if; simp add: fresh)
  have tick: "calms (common_tick p c pwc)"
    using assms(1,2,4,5) unfolding common_tick_def Let_def by (intro calms_if; simp add: fresh hold keep)
  have emphasis: "calms (common_emphasis p x c pwc)" for x
    using assms(1,2,4,5) unfolding common_emphasis_def Let_def by (intro calms_if; simp add: fresh hold)
  have rest: "calms (common_tilde p c pwc)" "calms (common_dollar p c pwc)" "calms (common_lt p pwc)" "calms (common_amp p c pwc)"
      "calms (common_lbr p c)" "calms (common_bang p c)"
    using assms(1,2,4,5) unfolding common_tilde_def common_dollar_def common_lt_def common_amp_def common_lbr_def common_bang_def
    by (intro calms_if; simp add: fresh hold)+
  show ?thesis unfolding handle_common_def Cons list.case
    by (intro calms_if backslash newline tick emphasis rest rbr pipe) (use assms(4) in simp_all)
qed

lemma calm_token:
  assumes "md_inv p" and "calm p" and "c \<noteq> c_nl" and "pwc = mp_pending p @ [c]"
  shows "calms (handle_token p c pwc)"
proof (cases "mp_token p = CODE_FENCE")
  case True
  then show ?thesis using calm_fence[OF assms(2) _ assms(3,4)] by (simp add: handle_token_def)
next
  case False
  have n: "mp_token p \<noteq> NEWLINE" using assms(2) by (simp add: calm_def)
  then have p: "open_stack p" "current p" using inv_open[OF assms(1)] False by simp_all
  note rules = calm_root[OF p assms(2-4)] calm_blocks[OF p assms(2-4)] calm_inlines[OF p assms(2-4)]
  show ?thesis
    by (cases "mp_token p"; unfold handle_token_def; simp only: md_token.case; (rule rules)?)
      (use False n assms(2) in \<open>simp_all add: root_token_def\<close>)
qed

lemma calm_write:
  assumes "md_inv p" and "calm p" and "c \<noteq> c_nl"
  shows "calms (write_char p c)"
proof -
  let ?pwc = "mp_pending p @ [c]"
  have first: "calms (handle_token p c ?pwc)" by (rule calm_token[OF assms refl])
  have tok: "mp_token p \<noteq> NEWLINE" using assms(2) by (simp add: calm_def)
  show ?thesis
  proof (cases "handle_token p c ?pwc")
    case (Fall p1)
    with sound_token[OF assms(1) tok refl, of c] have p1: "open_stack p1" "current p1" "\<not> pseudo (mp_token p1)"
      using inv_open[of p1] by (auto simp: sound_fall_iff pseudo_def)
    have leave: "mp_pending p1 = mp_pending p \<or> mp_pending p1 = []"
      using leaves_token[of p c ?pwc] Fall by (simp add: leaves_def)
    have c1: "calm p1" using first Fall by simp
    have common: "calms (handle_common p1 c ?pwc) \<and> sound p1 c (handle_common p1 c ?pwc)"
    proof (cases "mp_pending p1 = []")
      case True
      then show ?thesis using sound_fall[OF p1] c1 by (simp add: handle_common_def)
    qed (use calm_common[OF p1 c1 assms(3), of ?pwc] sound_common[OF p1, of ?pwc c] leave in simp)
    show ?thesis
    proof (cases "handle_common p1 c ?pwc")
      case f2: (Fall p2)
      with common have p2: "current p2" "calm p2" using inv_open[of p2] by (auto simp: sound_fall_iff pseudo_def)
      have "calm (shift_pending p2 c)"
        by (rule calm_fresh[where c = c]) (use p2 assms(3) in \<open>simp_all add: shift_pending_def Let_def calm_def\<close>)
      then show ?thesis using Fall f2 by (simp add: write_char_def Let_def)
    qed (use common Fall in \<open>simp_all add: write_char_def Let_def\<close>)
  qed (use first in \<open>simp_all add: write_char_def Let_def\<close>)
qed
end
