(* ===== verification/MdLoop.thy ===== *)
theory MdLoop
  imports MdCalm
begin

text \<open>
  \<open>parser_write\<close> returns. The work of a machine is what its state and its frames cost; an iteration lowers the
  work, or keeps it and lowers the rank, or keeps both and consumes a character or a frame.
\<close>

section \<open>The measure\<close>

definition frame_cost :: "md_frame \<Rightarrow> nat" where
  "frame_cost f = (case f of Loop cs \<Rightarrow> wts cs | Body c cs \<Rightarrow> wt c + wts cs)"

definition frame_fuel :: "md_frame \<Rightarrow> nat" where
  "frame_fuel f = (case f of Loop cs \<Rightarrow> Suc (length cs) | Body c cs \<Rightarrow> Suc (Suc (length cs)))"

lemma frame_simps [simp]:
  "frame_cost (Loop cs) = wts cs" "frame_cost (Body c cs) = wt c + wts cs"
  "frame_fuel (Loop cs) = Suc (length cs)" "frame_fuel (Body c cs) = Suc (Suc (length cs))"
  by (simp_all add: frame_cost_def frame_fuel_def)

definition work :: "md_machine \<Rightarrow> nat" where
  "work m = total (fst m) + sum_list (map frame_cost (snd m))"

definition fuel :: "md_machine \<Rightarrow> nat" where
  "fuel m = sum_list (map frame_fuel (snd m))"

definition step_order :: "(md_machine \<times> md_machine) set" where
  "step_order = measures [work, \<lambda>m. rank (fst m), fuel]"

lemma step_order_wf: "wf step_order"
  by (simp add: step_order_def)

lemma step_order_iff:
  "(m', m) \<in> step_order =
     (work m' < work m \<or> (work m' = work m \<and> (rank (fst m') < rank (fst m)
        \<or> (rank (fst m') = rank (fst m) \<and> fuel m' < fuel m))))"
  by (simp add: step_order_def)

section \<open>The machine's invariant\<close>

text \<open>At most one iteration is under way, and above it no newline is to come.\<close>

fun no_body :: "md_frame list \<Rightarrow> bool" where
  "no_body [] = True"
| "no_body (Loop w # fs) = no_body fs"
| "no_body (Body c cs # fs) = False"

fun quiet_frames :: "md_frame list \<Rightarrow> bool" where
  "quiet_frames [] = False"
| "quiet_frames (Loop w # fs) = (c_nl \<notin> set w \<and> quiet_frames fs)"
| "quiet_frames (Body c cs # fs) = no_body fs"

definition machine_ok :: "md_machine \<Rightarrow> bool" where
  "machine_ok m = (md_inv (fst m) \<and> (no_body (snd m) \<or> (quiet_frames (snd m) \<and> calm (fst m))))"

lemma no_body_loops [simp]: "no_body (map Loop ws @ fs) = no_body fs"
  by (induction ws) simp_all

lemma quiet_loops [simp]: "quiet_frames (map Loop ws @ fs) = ((\<forall>w\<in>set ws. c_nl \<notin> set w) \<and> quiet_frames fs)"
  by (induction ws) auto

lemma loop_cost: "sum_list (map frame_cost (map Loop ws)) = sum_list (map wts ws)"
  by (induction ws) simp_all

lemma inv_add_text [simp]: "md_inv (add_text p) = md_inv p"
  by (simp add: md_inv_def)

lemma calm_add_text [simp]: "calm (add_text p) = calm p"
  by (simp add: calm_def)

lemma total_add_text [simp]: "total (add_text p) = total p" "rank (add_text p) = rank p"
  by (simp_all add: total_def cost_def rank_def)

section \<open>A dispatch\<close>

lemma body_order:
  assumes "md_inv p" and "mp_token p \<noteq> NEWLINE" and "sum_list (map frame_cost (f # fs)) = wt c + wts cs + sum_list (map frame_cost fs)"
    and "frame_fuel f = Suc (Suc (length cs))"
  shows "(run_body p c cs fs, (p, f # fs)) \<in> step_order"
proof (cases "write_char p c")
  case (Writes q ws)
  have "sound p c (Writes q ws)" using sound_write(1)[OF assms(1,2), of c] Writes by simp
  then show ?thesis using Writes assms(3) loop_cost[of ws]
    by (auto simp: run_body_def step_order_iff work_def sound.simps)
next
  case (Taken q)
  have "sound p c (Taken q)" using sound_write(1)[OF assms(1,2), of c] Taken by simp
  then show ?thesis using Taken assms(3,4)
    by (auto simp: run_body_def step_order_iff work_def fuel_def sound.simps)
qed (use sound_write(2)[OF assms(1,2)] in simp)

lemma body_inv:
  assumes "md_inv p" and "mp_token p \<noteq> NEWLINE"
  shows "md_inv (fst (run_body p c cs fs))"
proof (cases "write_char p c")
  case (Writes q ws)
  have "sound p c (Writes q ws)" using sound_write(1)[OF assms, of c] Writes by simp
  then show ?thesis using Writes by (simp add: run_body_def sound.simps)
next
  case (Taken q)
  have "sound p c (Taken q)" using sound_write(1)[OF assms, of c] Taken by simp
  then show ?thesis using Taken by (simp add: run_body_def sound.simps)
qed (use sound_write(2)[OF assms] in simp)

lemma body_no: "no_body fs \<Longrightarrow> no_body (snd (run_body p c cs fs))"
  by (simp add: run_body_def split: md_action.split)

lemma body_quiet:
  assumes "md_inv p" and "calm p" and "c \<noteq> c_nl" and "c_nl \<notin> set cs" and "quiet_frames fs"
  shows "quiet_frames (snd (run_body p c cs fs)) \<and> calm (fst (run_body p c cs fs))"
  using calm_write[OF assms(1-3)] assms(4,5) by (cases "write_char p c") (simp_all add: run_body_def)

section \<open>A line start\<close>

lemma walk_le: "fst (indent_walk p is n idx) \<le> n"
proof (induction "is" arbitrary: n idx)
  case (Cons i "is")
  let ?m = "n - int (mp_spaces p i)"
  show ?case
  proof (cases "?m < 0")
    case True
    then show ?thesis by (simp add: Let_def)
  next
    case False
    then show ?thesis using order_trans[OF Cons[of ?m]] by (simp add: Let_def)
  qed
qed simp

lemma indent_le: "snd (end_tokens_to_indent n p) \<le> n"
  using walk_le[of "add_text p" "[0..mp_len (add_text p)]" n 0]
  by (simp add: end_tokens_to_indent_def Let_def split_beta)

definition line_start :: "md_parser \<Rightarrow> md_parser" where
  "line_start p = resume_token ((fst (end_tokens_to_indent (int (indent_len p)) p))\<lparr>indent_len := 0\<rparr>)"

lemma indent_stack [simp]:
  "mp_tokens (fst (end_tokens_to_indent n p)) = mp_tokens p" "mp_len (fst (end_tokens_to_indent n p)) \<le> mp_len p"
  by (simp_all add: end_tokens_to_indent_def Let_def split_beta)

lemma line_start_facts:
  assumes "md_inv p" and "mp_token p = NEWLINE"
  shows "md_inv (line_start p)" and "mp_token (line_start p) \<noteq> NEWLINE" and "total (line_start p) + indent_len p = total p"
    and "rank (line_start p) < rank p" and "mp_pending (line_start p) = mp_pending p" and "mp_indent (line_start p) = []"
    and "mp_token (line_start p) \<noteq> MAYBE_TASK"
proof -
  let ?q = "line_start p"
  have stack: "stack_ok (mp_tokens p) (mp_len p)" "mp_indent p = []" using assms by (simp_all add: md_inv_def)
  have q: "mp_pending ?q = mp_pending p" "mp_indent ?q = []" "mp_tokens ?q = mp_tokens p" "mp_len ?q \<le> mp_len p" "indent_len ?q = 0"
    "mp_token ?q = top_token ?q"
    using stack(2) by (simp_all add: line_start_def resume_token_def top_token_def)
  have sq: "stack_ok (mp_tokens ?q) (mp_len ?q)" using stack_pop[OF stack(1) q(4)] q(3) by simp
  have np: "\<not> pseudo (mp_token ?q)" using sq q(6) by (simp add: stack_ok_def top_token_def)
  then show n: "mp_token ?q \<noteq> NEWLINE" and "mp_token ?q \<noteq> MAYBE_TASK" by auto
  show "md_inv ?q" using sq q n by (simp add: md_inv_def open_stack_def current_def)
  show "total ?q + indent_len p = total p" using q assms(2) n stack(2) by (simp add: total_def cost_def)
  have "rank ?q = stack_rank (mp_len ?q) (mp_token ?q) (mp_pending p)" using rank_plain[OF np] q by simp
  moreover have "stack_rank (mp_len ?q) t s \<le> (if first_is s c_nl then 95 else 349)" for t s
  proof (cases "first_is s c_nl")
    case True
    then show ?thesis using newline_not_tail
      by (cases s) (auto simp: stack_rank_def split_raw_url_tail_def dropWhile_eq_Nil_conv)
  next
    case False
    have "mp_len ?q \<le> 23" using sq by (simp add: stack_ok_def)
    then show ?thesis using False stack_rank_le by simp
  qed
  ultimately have "rank ?q \<le> (if first_is (mp_pending p) c_nl then 95 else 349)" by simp
  also have "\<dots> < rank p" using assms(2) by (simp add: rank_def rank_of_def)
  finally show "rank ?q < rank p" .
  show "mp_pending ?q = mp_pending p" "mp_indent ?q = []" by (fact q)+
qed

section \<open>A step\<close>

lemma step_newline:
  "mp_token p = NEWLINE \<Longrightarrow> c \<noteq> c_space \<Longrightarrow> c \<noteq> c_tab \<Longrightarrow>
   md_step (p, Loop (c # cs) # fs) =
     (if 0 < snd (end_tokens_to_indent (int (indent_len p)) p)
      then (line_start p, Loop (replicate (nat (snd (end_tokens_to_indent (int (indent_len p)) p))) c_space) # Body c cs # fs)
      else run_body (line_start p) c cs fs)"
  by (simp add: line_start_def split_beta Let_def)

lemma line_start_calm:
  assumes "md_inv p" and "mp_token p = NEWLINE"
  shows "calm (line_start p)"
  using line_start_facts[OF assms] assms by (auto simp: calm_def md_inv_def)

lemma frames_order:
  assumes "total q + n = total p" and "rank q < rank p" and "wts w \<le> n"
  shows "((q, Loop w # Body c cs # fs), (p, Loop (c # cs) # fs)) \<in> step_order"
  using assms by (auto simp: step_order_iff work_def)

lemma order_trans_start:
  assumes "((run_body q c cs fs), (q, Loop (c # cs) # fs)) \<in> step_order" and "total q \<le> total p" and "rank q < rank p"
  shows "(run_body q c cs fs, (p, Loop (c # cs) # fs)) \<in> step_order"
  using assms by (auto simp: step_order_iff work_def)

lemma step_order_step:
  assumes "machine_ok m" and "running m"
  shows "(md_step m, m) \<in> step_order"
proof -
  obtain p f fs where m: "m = (p, f # fs)" using assms(2) by (cases m) (auto simp: running_def neq_Nil_conv)
  have inv: "md_inv p" using assms(1) m by (simp add: machine_ok_def)
  show ?thesis
  proof (cases f)
    case (Body c cs)
    have "mp_token p \<noteq> NEWLINE" using assms(1) m Body by (auto simp: machine_ok_def calm_def)
    then show ?thesis using body_order[OF inv, of f fs c cs] m Body by simp
  next
    case (Loop w)
    show ?thesis
    proof (cases w)
      case Nil
      then show ?thesis using m Loop by (simp add: step_order_iff work_def fuel_def)
    next
      case (Cons c cs)
      show ?thesis
      proof (cases "mp_token p = NEWLINE \<and> c \<noteq> c_space \<and> c \<noteq> c_tab")
        case True
        let ?i = "snd (end_tokens_to_indent (int (indent_len p)) p)"
        note start = line_start_facts[OF inv]
        have "nat ?i \<le> indent_len p" using indent_le[of "int (indent_len p)" p] by simp
        then have i: "wts (replicate (nat ?i) c_space) \<le> indent_len p" by (simp add: wts_spaces)
        have "(run_body (line_start p) c cs fs, (line_start p, Loop (c # cs) # fs)) \<in> step_order"
          by (rule body_order) (use start True in simp_all)
        then have "(run_body (line_start p) c cs fs, (p, Loop (c # cs) # fs)) \<in> step_order"
          by (rule order_trans_start) (use start True in force)+
        moreover have "((line_start p, Loop (replicate (nat ?i) c_space) # Body c cs # fs), (p, Loop (c # cs) # fs)) \<in> step_order"
          by (rule frames_order[OF _ _ i]) (use start True in simp_all)
        moreover have "md_step m = (if 0 < ?i then (line_start p, Loop (replicate (nat ?i) c_space) # Body c cs # fs)
            else run_body (line_start p) c cs fs)"
          unfolding m Loop Cons by (rule step_newline) (use True in simp_all)
        ultimately show ?thesis unfolding m Loop Cons by simp
      next
        case False
        show ?thesis
        proof (cases "mp_token p = NEWLINE")
          case True
          have "rank (p\<lparr>indent_len := n\<rparr>) = rank p" for n by (rule rank_same) (simp_all add: top_token_def)
          moreover have "total (p\<lparr>indent_len := n\<rparr>) + indent_len p = total p + n" for n
            using True by (simp add: total_def cost_def)
          note this[of "indent_len p + 1"] this[of "indent_len p + 4"]
          ultimately show ?thesis using False True m Loop Cons by (auto simp: step_order_iff work_def fuel_def wt_def)
        next
          case nl: False
          then show ?thesis using body_order[OF inv nl, of f fs c cs] m Loop Cons by simp
        qed
      qed
    qed
  qed
qed

lemma step_keeps:
  assumes "machine_ok m"
  shows "machine_ok (md_step m)"
proof (cases "snd m")
  case Nil
  then show ?thesis using assms by (cases m) simp
next
  case frames: (Cons f fs)
  obtain p where m: "m = (p, f # fs)" using frames by (cases m) simp
  have inv: "md_inv p" and ok: "no_body (f # fs) \<or> (quiet_frames (f # fs) \<and> calm p)" using assms m by (simp_all add: machine_ok_def)
  show ?thesis
  proof (cases f)
    case (Body c cs)
    have fs: "no_body fs" and nl: "mp_token p \<noteq> NEWLINE" using ok Body by (auto simp: calm_def)
    then show ?thesis using body_inv[OF inv nl] body_no[OF fs] m Body by (simp add: machine_ok_def)
  next
    case (Loop w)
    show ?thesis
    proof (cases w)
      case Nil
      then show ?thesis using m Loop inv ok by (auto simp: machine_ok_def)
    next
      case (Cons c cs)
      show ?thesis
      proof (cases "mp_token p = NEWLINE")
        case False
        have "no_body (snd (run_body p c cs fs)) \<or> (quiet_frames (snd (run_body p c cs fs)) \<and> calm (fst (run_body p c cs fs)))"
          using ok body_no body_quiet[OF inv] Loop Cons by auto
        then show ?thesis using False m Loop Cons body_inv[OF inv False] by (simp add: machine_ok_def)
      next
        case True
        then have nb: "no_body fs" using ok Loop by (simp add: calm_def)
        note start = line_start_facts[OF inv True]
        let ?i = "snd (end_tokens_to_indent (int (indent_len p)) p)"
        show ?thesis
        proof (cases "c = c_space \<or> c = c_tab")
          case True
          have "md_inv (p\<lparr>indent_len := n\<rparr>)" for n using inv \<open>mp_token p = NEWLINE\<close> by (simp add: md_inv_def)
          then show ?thesis using True \<open>mp_token p = NEWLINE\<close> nb m Loop Cons by (auto simp: machine_ok_def)
        next
          case False
          have "machine_ok (run_body (line_start p) c cs fs)"
            using body_inv[OF start(1,2)] body_no[OF nb] by (simp add: machine_ok_def)
          moreover have "machine_ok (line_start p, Loop (replicate n c_space) # Body c cs # fs)" for n
            using start(1) nb line_start_calm[OF inv True] by (simp add: machine_ok_def)
          moreover have "md_step m = (if 0 < ?i then (line_start p, Loop (replicate (nat ?i) c_space) # Body c cs # fs)
              else run_body (line_start p) c cs fs)"
            unfolding m Loop Cons by (rule step_newline) (use False True in simp_all)
          ultimately show ?thesis by simp
        qed
      qed
    qed
  qed
qed

section \<open>Writes return\<close>

lemma machine_start: "md_inv p \<Longrightarrow> machine_ok (p, [Loop chunk])"
  by (simp add: machine_ok_def)

lemma loop_returns:
  assumes "machine_ok m"
  shows "\<exists>q. while_option running md_step m = Some (q, []) \<and> md_inv q"
proof -
  have "\<exists>m'. while_option running md_step m = Some m'"
    by (rule wf_rel_while_option_Some[OF step_order_wf, where P = machine_ok])
      (use assms step_order_step step_keeps in auto)
  then obtain q fs where m': "while_option running md_step m = Some (q, fs)" by auto
  have "\<not> running (q, fs)" using while_option_stop[OF m'] .
  moreover have "machine_ok (q, fs)" by (rule while_option_rule[OF step_keeps m' assms])
  ultimately show ?thesis using m' by (simp add: running_def machine_ok_def)
qed

lemma write_returns: "md_inv p \<Longrightarrow> \<exists>q. parser_write p chunk = Some q \<and> md_inv q"
  using loop_returns[OF machine_start[of p chunk]] by (auto simp: parser_write_def)

lemma inv_start: "md_inv (md_parser0 mark)"
  by (simp add: md_inv_def md_parser0_def open_stack_def stack_ok_def seated_at_def top_token_def current_def pseudo_def)

lemma write_all_returns: "md_inv p \<Longrightarrow> \<exists>q. foldl (\<lambda>q chunk. Option.bind q (\<lambda>p. parser_write p chunk)) (Some p) chunks = Some q \<and> md_inv q"
proof (induction chunks arbitrary: p)
  case (Cons chunk chunks)
  obtain q where "parser_write p chunk = Some q" "md_inv q" using write_returns[OF Cons.prems] by blast
  then show ?case using Cons.IH by simp
qed simp

lemma at_end_inv: "md_inv p \<Longrightarrow> md_inv (p\<lparr>at_end := True\<rparr>)"
  by (simp add: md_inv_def open_stack_def current_def top_token_def split: if_splits)

lemma end_returns: "md_inv p \<Longrightarrow> \<exists>q. parser_end p = Some q"
  using write_returns[OF at_end_inv, of p "[c_nl]"] by (auto simp: parser_end_def)

text \<open>
  C4. Whatever chunks the stream brings, every write returns and so does the end, and the token stack never grows
  past the last of its 24 slots. The calls to the renderer are recorded and return, so this is of the parser's own
  loops. Nothing is said of the other end: the stack can fall below its first slot, and the document's renderer throws at
  the next token added there, which ends that write.
\<close>

theorem markdown_parser_returns:
  "\<exists>p. write_all (md_parser0 mark) chunks = Some p \<and> mp_len p < token_array_cap \<and> (\<exists>q. parser_end p = Some q)"
proof -
  obtain p where p: "write_all (md_parser0 mark) chunks = Some p" "md_inv p"
    using write_all_returns[OF inv_start] unfolding write_all_def by blast
  have "mp_len p \<le> 23" using inv_stack[OF p(2)] by (simp add: stack_ok_def)
  then show ?thesis using p end_returns[OF p(2)] by (simp add: token_array_cap_def)
qed

text \<open>
  C36. After any chunks the stack is well typed: it is no higher than its last slot, nothing is held outside of its
  slots, a token that is never pushed is never on it, a table and a row have room above them, a cell is a row's, a
  fence is open only at the top. The current token is the top of the stack, with three exceptions: it may be
  \<open>CODE_FENCE\<close>, on the lines of a fence; it may be one of the tokens that are never pushed, which stand for a construct
  being read; and nothing is said of it once the stack has underflowed, its length below zero.
\<close>

theorem markdown_stack_is_typed:
  "\<exists>p. write_all (md_parser0 mark) chunks = Some p \<and> stack_ok (mp_tokens p) (mp_len p)
     \<and> (mp_token p \<in> {top_token p, CODE_FENCE} \<or> pseudo (mp_token p) \<or> mp_len p < 0)"
proof -
  obtain p where p: "write_all (md_parser0 mark) chunks = Some p" "md_inv p"
    using write_all_returns[OF inv_start] unfolding write_all_def by blast
  have "mp_token p \<in> {top_token p, CODE_FENCE} \<or> pseudo (mp_token p) \<or> mp_len p < 0"
    using inv_open[OF p(2)] by (auto simp: current_def pseudo_def)
  then show ?thesis using p inv_stack[OF p(2)] by blast
qed
end
