(* ===== verification/MdDepth.thy ===== *)
theory MdDepth
  imports MdLoop
begin

text \<open>
  The renderer keeps a stack of its own, which only the calls move. Its depth is the parser's after every
  write, whatever the input: no operation moves one without the other.
\<close>

section \<open>The depth the calls leave\<close>

definition call_step :: "md_call \<Rightarrow> int" where
  "call_step c = (case c of Add_token t \<Rightarrow> 1 | End_token \<Rightarrow> - 1 | _ \<Rightarrow> 0)"

definition call_depth :: "md_call list \<Rightarrow> int" where
  "call_depth cs = sum_list (map call_step cs)"

definition slack :: "md_parser \<Rightarrow> int" where
  "slack p = call_depth (mp_out p) - mp_len p"

lemma depth_simps [simp]: "call_depth [] = 0" "call_depth (cs @ ds) = call_depth cs + call_depth ds" "call_depth (c # cs) = call_step c + call_depth cs"
  by (simp_all add: call_depth_def)

lemma step_simps [simp]: "call_step (Add_token t) = 1" "call_step End_token = - 1" "call_step (Set_attr a s) = 0" "call_step (Add_text s) = 0"
  by (simp_all add: call_step_def)

section \<open>Every operation keeps it\<close>

lemma slack_ops [simp]:
  "slack (buffer s p) = slack p" "slack (set_pending s p) = slack p" "slack (resume_token p) = slack p"
  "slack (clear_root_pending p) = slack p" "slack (set_delim d p) = slack p" "slack (add_text p) = slack p"
  "slack (emit (Set_attr a s) p) = slack p" "slack (emit_leaf t x p) = slack p"
  by (simp_all add: slack_def buffer_def set_pending_def resume_token_def clear_root_pending_def set_delim_def add_text_def
      emit_def emit_leaf_def Let_def split: option.split)

lemma slack_fields [simp]:
  "slack (p\<lparr>mp_pending := s\<rparr>) = slack p" "slack (p\<lparr>text_buf := s\<rparr>) = slack p" "slack (p\<lparr>mp_token := t\<rparr>) = slack p"
  "slack (p\<lparr>indent_len := n\<rparr>) = slack p" "slack (p\<lparr>blockquote_idx := i\<rparr>) = slack p" "slack (p\<lparr>fence_start := n\<rparr>) = slack p"
  "slack (p\<lparr>fence_end := n\<rparr>) = slack p" "slack (p\<lparr>hr_char := s\<rparr>) = slack p" "slack (p\<lparr>hr_chars := n\<rparr>) = slack p"
  "slack (p\<lparr>table_state := n\<rparr>) = slack p" "slack (p\<lparr>link_depth := n\<rparr>) = slack p" "slack (p\<lparr>atx_close := b\<rparr>) = slack p"
  "slack (p\<lparr>mp_indent := s\<rparr>) = slack p" "slack (p\<lparr>mp_spaces := f\<rparr>) = slack p" "slack (p\<lparr>prev_is_word := b\<rparr>) = slack p"
  "slack (p\<lparr>at_end := b\<rparr>) = slack p"
  by (simp_all add: slack_def)

lemma slack_end [simp]:
  "slack (end_token p) = slack p" "slack (end_token_unresolved p) = slack p" "slack (end_token_or_unresolved p) = slack p"
  by (simp_all add: slack_def end_token_def end_token_unresolved_def end_token_or_unresolved_def emit_def)

lemma slack_close [simp]: "slack (close_to n p) = slack p"
  by (induction n p rule: close_to.induct) (simp add: close_to.simps)

lemma slack_bulk [simp]: "slack (end_tokens_to_len n p) = slack p" "slack (fst (end_tokens_to_indent i p)) = slack p"
  by (simp_all add: end_tokens_to_len_def end_tokens_to_indent_def Let_def split_beta)

lemma slack_push [simp]: "slack (fst (add_token t p)) = slack p"
proof -
  define q where "q = (if top_token p \<in> {LIST_ORDERED, LIST_UNORDERED} \<and> t \<noteq> LIST_ITEM then end_token p else p)"
  have "slack q = slack p" by (simp add: q_def)
  then show ?thesis unfolding add_token_def q_def[symmetric] Let_def by (simp add: slack_def emit_def)
qed

lemma slack_inline [simp]: "slack (add_inline_token t d p) = slack p"
  by (simp add: add_inline_cases)

lemma slack_list [simp]: "slack (fst (continue_or_add_list t d p)) = slack p" "slack (add_list_item n p) = slack p" "slack (open_list t d p) = slack p"
  by (simp_all add: continue_or_add_list_def open_list_def add_list_item_def Let_def split_beta)

section \<open>Every handler\<close>

definition state_of :: "md_action \<Rightarrow> md_parser" where
  "state_of a = (case a of Fall q \<Rightarrow> q | Taken q \<Rightarrow> q | Writes q ws \<Rightarrow> q)"

definition level :: "md_parser \<Rightarrow> md_action \<Rightarrow> bool" where
  "level p a = (slack (state_of a) = slack p)"

lemma level_simps [simp]:
  "level p (Fall q) = (slack q = slack p)" "level p (Taken q) = (slack q = slack p)" "level p (Writes q ws) = (slack q = slack p)"
  by (simp_all add: level_def state_of_def)

lemma state_simps [simp]: "state_of (Fall q) = q" "state_of (Taken q) = q" "state_of (Writes q ws) = q"
  by (simp_all add: state_of_def)

lemma level_trans: "level q a \<Longrightarrow> slack q = slack p \<Longrightarrow> level p a"
  by (simp add: level_def)

lemma level_if: "(b \<Longrightarrow> level p x) \<Longrightarrow> (\<not> b \<Longrightarrow> level p y) \<Longrightarrow> level p (if b then x else y)"
  by simp

lemma level_option: "level p x \<Longrightarrow> (\<And>v. level p (y v)) \<Longrightarrow> level p (case u of None \<Rightarrow> x | Some v \<Rightarrow> y v)"
  by (cases u) simp_all

lemma level_list: "(\<And>q b. x = (q, b) \<Longrightarrow> level p (f q b)) \<Longrightarrow> level p (case x of (q, b) \<Rightarrow> f q b)"
  by (cases x) simp

lemma level_arms:
  "level p (root_newline p c)" "level p (root_hash p c pwc)" "level p (root_quote p c)" "level p (root_bullet p pwc)"
  "level p (root_fence p c pwc)" "level p (root_plus p c)" "level p (root_digit p c pwc)" "level p (root_table p h d)"
proof -
  have list: "slack q = slack p" if "continue_or_add_list t d p = (q, b)" for q b t d
    using slack_list(1)[of t d p] that by simp
  show "level p (root_newline p c)" unfolding root_newline_def Let_def by (intro level_if; simp)
  show "level p (root_hash p c pwc)" unfolding root_hash_def Let_def split_beta by (intro level_if; simp)
  show "level p (root_quote p c)" unfolding root_quote_def Let_def case_ok by (intro level_if; simp)
  show "level p (root_bullet p pwc)" unfolding root_bullet_def
    by (intro level_if level_list) (auto simp: list split: list_open.split)
  show "level p (root_fence p c pwc)" unfolding root_fence_eq Let_def by (intro level_if; simp)
  show "level p (root_plus p c)" unfolding root_plus_def
    by (intro level_if level_list) (auto simp: list split: list_open.split)
  show "level p (root_digit p c pwc)" unfolding root_digit_def Let_def
    by (intro level_if level_list) (auto simp: list split: list_open.split)
  show "level p (root_table p h d)" unfolding root_table_def Let_def by (intro level_if; simp)
qed

lemma level_rule: "level p (root_rule p c pwc)"
  unfolding root_rule_def Let_def by (intro level_if level_trans[OF level_arms(4)]; simp)

lemma level_pipe: "level p (root_pipe p c pwc)"
  unfolding root_pipe_def Let_def by (intro level_if level_arms) simp_all

lemma level_promote: "level p (promote p pwc)"
  unfolding promote_def Let_def split_beta by simp

lemma level_root: "level p (handle_root_context p c pwc)"
proof -
  have "level p (root_arm p f c pwc)" for f
    unfolding root_arm_def by (intro level_if level_arms level_rule level_pipe) simp_all
  note arm = this
  show ?thesis
  proof (cases "mp_pending p")
    case (Cons f fs)
    show ?thesis
    proof (cases "root_arm p f c pwc")
      case (Fall q)
      then show ?thesis using arm[of f] level_trans[OF level_promote, of q p pwc] Cons by (simp add: handle_root_context_def)
    qed (use arm[of f] Cons in \<open>simp_all add: handle_root_context_def\<close>)
  qed (simp add: handle_root_context_def)
qed

lemma level_blocks:
  "level p (handle_heading p c pwc)" "level p (handle_table p c pwc)" "level p (handle_table_row p c)"
  "level p (handle_table_cell p c)" "level p (handle_code_block p c pwc)" "level p (handle_code_inline p c pwc)"
  "level p (handle_code_fence p c pwc)" "level p (handle_maybe_task p c pwc)"
  unfolding handle_heading_def handle_table_def handle_table_row_def handle_table_cell_def handle_code_block_def
    handle_code_inline_def handle_code_fence_def handle_maybe_task_def Let_def
  by (intro level_if; simp)+

lemma level_inlines:
  "level p (handle_strong p c)" "level p (handle_italic p c pwc)" "level p (handle_strike p pwc)"
  "level p (handle_maybe_eq_block p c)" "level p (handle_equation_block p pwc)" "level p (handle_equation_inline p c pwc)"
  "level p (handle_maybe_url p c pwc)" "level p (handle_link_or_image p c pwc)" "level p (handle_raw_url p c pwc)"
  "level p (handle_maybe_angle p c pwc)" "level p (handle_maybe_entity p c pwc)"
  unfolding handle_strong_def handle_italic_def handle_strike_def handle_maybe_eq_block_def handle_equation_block_def
    handle_equation_inline_def handle_maybe_url_def handle_link_or_image_def handle_raw_url_def end_raw_url_def
    handle_maybe_angle_def handle_maybe_entity_def Let_def case_ok split_beta
  by (intro level_if level_option; simp split: option.split)+

lemma level_token: "level p (handle_token p c pwc)"
  unfolding handle_token_def
  by (cases "mp_token p") (simp_all only: md_token.case level_root level_blocks level_inlines level_simps simp_thms)

lemma level_common: "level p (handle_common p c pwc)"
proof -
  have rbr: "level p (common_rbr p c pwc)"
    unfolding common_rbr_def by (intro level_if level_trans[OF level_inlines(8)]; simp)
  have pipe: "level p (common_pipe p c)"
    unfolding common_pipe_def by (intro level_if level_trans[OF level_blocks(4)]; simp)
  have rest: "level p (common_backslash p c pwc)" "level p (common_newline p c)" "level p (common_lt p pwc)"
    "level p (common_amp p c pwc)" "level p (common_tick p c pwc)" "level p (common_tilde p c pwc)" "level p (common_dollar p c pwc)"
    "level p (common_lbr p c)" "level p (common_bang p c)"
    unfolding common_backslash_def common_newline_def common_lt_def common_amp_def common_tick_def common_tilde_def
      common_dollar_def common_lbr_def common_bang_def Let_def
    by (intro level_if; simp)+
  have emphasis: "level p (common_emphasis p x c pwc)" for x
    unfolding common_emphasis_def Let_def by (intro level_if; simp)
  show ?thesis unfolding handle_common_def
    by (cases "mp_pending p") (auto intro!: level_if rbr pipe rest emphasis)
qed

lemma level_write: "level p (write_char p c)"
proof -
  let ?pwc = "mp_pending p @ [c]"
  have shift: "slack (shift_pending q c) = slack q" for q by (simp add: shift_pending_def Let_def)
  have first: "level p (handle_token p c ?pwc)" by (rule level_token)
  show ?thesis
  proof (cases "handle_token p c ?pwc")
    case (Fall q)
    have second: "level p (handle_common q c ?pwc)" using level_trans[OF level_common] first Fall by simp
    show ?thesis using first second Fall by (cases "handle_common q c ?pwc") (simp_all add: write_char_def Let_def shift)
  qed (use first in \<open>simp_all add: write_char_def Let_def\<close>)
qed

section \<open>Every write\<close>

lemma slack_body: "slack (fst (run_body p c cs fs)) = slack p"
  using level_write[of p c] by (cases "write_char p c") (simp_all add: run_body_def)

lemma slack_step: "slack (fst (md_step m)) = slack (fst m)"
proof (induction m rule: md_step.induct)
  case (3 p c cs fs)
  then show ?case by (auto simp: slack_body Let_def split_beta)
qed (simp_all add: slack_body)

lemma slack_parser_write: "parser_write p chunk = Some q \<Longrightarrow> slack q = slack p"
proof -
  assume "parser_write p chunk = Some q"
  then obtain fs where "while_option running md_step (p, [Loop chunk]) = Some (q, fs)" by (auto simp: parser_write_def)
  from while_option_rule[OF _ this, of "\<lambda>m. slack (fst m) = slack p"] show ?thesis by (simp add: slack_step)
qed

lemma slack_write_all: "foldl (\<lambda>q chunk. Option.bind q (\<lambda>p. parser_write p chunk)) (Some p) chunks = Some q \<Longrightarrow> slack q = slack p"
proof (induction chunks arbitrary: p)
  case (Cons chunk chunks)
  show ?case
  proof (cases "parser_write p chunk")
    case None
    have "foldl (\<lambda>q chunk. Option.bind q (\<lambda>p. parser_write p chunk)) None chunks = None" by (induction chunks) simp_all
    then show ?thesis using Cons.prems None by simp
  next
    case (Some r)
    then show ?thesis using Cons.prems Cons.IH[of r] slack_parser_write[OF Some] by simp
  qed
qed simp

text \<open>
  C37. After any chunks the renderer's node stack is exactly as deep as the parser's token stack.
\<close>

theorem renderer_depth_is_the_parsers:
  "write_all (md_parser0 mark) chunks = Some p \<Longrightarrow> call_depth (mp_out p) = mp_len p"
  using slack_write_all[of "md_parser0 mark" chunks p] by (simp add: write_all_def slack_def md_parser0_def)

lemma renderer_depth_is_the_parsers_witness:
  "\<exists>p. write_all (md_parser0 (\<lambda>c. False)) [tx ''a *b'', tx ''* c''] = Some p \<and> call_depth (mp_out p) = mp_len p"
proof -
  obtain p where "write_all (md_parser0 (\<lambda>c. False)) [tx ''a *b'', tx ''* c''] = Some p"
    using write_all_returns[OF inv_start] unfolding write_all_def by blast
  then show ?thesis using renderer_depth_is_the_parsers by blast
qed
end
