(* ===== verification/MdDraw.thy ===== *)
theory MdDraw
  imports MdDepth
begin

text \<open>
  What the calls draw. Between two structural calls the renderer appends text to the open node and sets its
  attributes, and neither reads the other: a gap is what is set and the whole text. Two runs draw the same when
  their calls settle to the same gaps. How the text of a gap is cut into calls is not drawn.
\<close>

type_synonym md_gap = "md_call option \<times> (md_attr \<times> utext) list \<times> utext"

fun settle_call :: "md_gap list \<Rightarrow> md_call \<Rightarrow> md_gap list" where
  "settle_call ((c, as, t) # gs) (Add_text s) = (c, as, t @ s) # gs"
| "settle_call ((c, as, t) # gs) (Set_attr a v) = (c, as @ [(a, v)], t) # gs"
| "settle_call gs x = (Some x, [], []) # gs"

text \<open>The gaps, the last first.\<close>

definition settle :: "md_call list \<Rightarrow> md_gap list" where
  "settle cs = foldl settle_call [(None, [], [])] cs"

lemma settle_snoc: "settle (cs @ [x]) = settle_call (settle cs) x"
  by (simp add: settle_def)

lemma settle_nonempty: "settle cs \<noteq> []"
proof (induction cs rule: rev_induct)
  case (snoc x cs)
  then show ?case by (cases "settle cs"; cases x) (auto simp: settle_snoc)
qed (simp add: settle_def)

lemma settle_text: "settle_call (settle_call gs (Add_text s)) (Add_text t) = settle_call gs (Add_text (s @ t))" if "gs \<noteq> []"
  using that by (cases gs) auto

lemma settle_no_text: "settle_call gs (Add_text []) = gs" if "gs \<noteq> []"
  using that by (cases gs) auto

lemma settle_attr: "settle_call (settle_call gs (Add_text s)) (Set_attr a v) = settle_call (settle_call gs (Set_attr a v)) (Add_text s)"
  if "gs \<noteq> []"
  using that by (cases gs) auto

lemma call_nonempty: "gs \<noteq> [] \<Longrightarrow> settle_call gs x \<noteq> []"
  by (cases gs; cases x) auto

section \<open>Two states that draw the same\<close>

definition drawn :: "md_parser \<Rightarrow> md_gap list" where
  "drawn p = settle_call (settle (mp_out p)) (Add_text (text_buf p))"

definition shell :: "md_parser \<Rightarrow> md_parser" where
  "shell p = p\<lparr>mp_out := [], text_buf := [], prev_is_word := False\<rparr>"

definition same :: "md_parser \<Rightarrow> md_parser \<Rightarrow> bool" where
  "same p q = (drawn p = drawn q \<and> shell p = shell q \<and> prev_is_word_char p = prev_is_word_char q)"

text \<open>A structural call needs the text before it to have been drawn.\<close>

definition twin :: "md_parser \<Rightarrow> md_parser \<Rightarrow> bool" where
  "twin p q = (same p q \<and> text_buf p = [] \<and> text_buf q = [])"

lemma same_refl [simp]: "same p p"
  by (simp add: same_def)

lemma same_sym: "same p q \<Longrightarrow> same q p"
  by (simp add: same_def)

lemma same_trans: "same p q \<Longrightarrow> same q r \<Longrightarrow> same p r"
  by (simp add: same_def)

lemma twin_same: "twin p q \<Longrightarrow> same p q"
  by (simp add: twin_def)

lemma same_fields:
  assumes "same p q"
  shows "mp_pending q = mp_pending p" "mp_tokens q = mp_tokens p" "mp_delims q = mp_delims p" "mp_len q = mp_len p"
    "mp_token q = mp_token p" "mp_spaces q = mp_spaces p" "mp_indent q = mp_indent p" "indent_len q = indent_len p"
    "fence_end q = fence_end p" "fence_start q = fence_start p" "blockquote_idx q = blockquote_idx p" "hr_char q = hr_char p"
    "hr_chars q = hr_chars p" "table_state q = table_state p" "link_depth q = link_depth p" "at_end q = at_end p"
    "atx_close q = atx_close p" "mp_mark q = mp_mark p" "top_token q = top_token p" "prev_is_word_char q = prev_is_word_char p"
    "in_equation q = in_equation p"
proof -
  have s: "shell p = shell q" using assms by (simp add: same_def)
  note f = arg_cong[OF s]
  show a: "mp_tokens q = mp_tokens p" "mp_len q = mp_len p" "mp_token q = mp_token p"
    using f[of mp_tokens] f[of mp_len] f[of mp_token] by (simp_all add: shell_def)
  show "mp_pending q = mp_pending p" "mp_delims q = mp_delims p" "mp_spaces q = mp_spaces p" "mp_indent q = mp_indent p"
    "indent_len q = indent_len p" "fence_end q = fence_end p" "fence_start q = fence_start p" "blockquote_idx q = blockquote_idx p"
    "hr_char q = hr_char p" "hr_chars q = hr_chars p" "table_state q = table_state p" "link_depth q = link_depth p"
    "at_end q = at_end p" "atx_close q = atx_close p" "mp_mark q = mp_mark p"
    using f[of mp_pending] f[of mp_delims] f[of mp_spaces] f[of mp_indent] f[of indent_len] f[of fence_end] f[of fence_start]
      f[of blockquote_idx] f[of hr_char] f[of hr_chars] f[of table_state] f[of link_depth] f[of at_end] f[of atx_close] f[of mp_mark]
    by (simp_all add: shell_def)
  show "top_token q = top_token p" "in_equation q = in_equation p" using a by (simp_all add: top_token_def in_equation_def)
  show "prev_is_word_char q = prev_is_word_char p" using assms by (simp add: same_def)
qed

lemma same_add_text: "same p (add_text p)"
proof (cases "text_buf p = []")
  case True
  then show ?thesis by (simp add: add_text_def)
next
  case False
  have "drawn (add_text p) = drawn p"
    using False settle_no_text[OF call_nonempty[OF settle_nonempty]]
    by (simp add: drawn_def add_text_def emit_def settle_snoc)
  then show ?thesis using False by (simp add: same_def shell_def add_text_def emit_def prev_is_word_char_def)
qed

lemma twin_add_text: "same p q \<Longrightarrow> twin (add_text p) (add_text q)"
  using same_trans[OF same_trans[OF same_sym[OF same_add_text]] same_add_text] by (simp add: twin_def)

lemma same_flush: "same p q \<Longrightarrow> same (add_text p) (add_text q)" "same p q \<Longrightarrow> same (add_text p) q"
  using twin_add_text twin_same same_trans same_sym same_add_text by blast+

lemma same_buffer: "same p q \<Longrightarrow> same (buffer s p) (buffer s q)"
proof -
  assume s: "same p q"
  have "drawn (buffer s r) = settle_call (drawn r) (Add_text s)" for r
    by (simp add: drawn_def buffer_def settle_text settle_nonempty)
  moreover have "prev_is_word_char (buffer s r) = (if s = [] then prev_is_word_char r else ends_with_word_char (mp_mark r) s)" for r
    by (auto simp: prev_is_word_char_def buffer_def ends_with_word_char_def)
  moreover have "shell (buffer s r) = shell r" for r by (simp add: shell_def buffer_def)
  ultimately show ?thesis using s same_fields[OF s] by (simp add: same_def)
qed

lemma same_fieldI:
  assumes "same p q" and "\<And>r. drawn (f r) = drawn r" and "\<And>r. prev_is_word_char (f r) = prev_is_word_char r"
    and "\<And>r. shell (f r) = f (shell r)"
  shows "same (f p) (f q)"
  using assms by (simp add: same_def)

lemma same_updates:
  assumes "same p q"
  shows "same (p\<lparr>mp_pending := s\<rparr>) (q\<lparr>mp_pending := s\<rparr>)" "same (p\<lparr>mp_token := t\<rparr>) (q\<lparr>mp_token := t\<rparr>)"
    "same (p\<lparr>indent_len := n\<rparr>) (q\<lparr>indent_len := n\<rparr>)" "same (p\<lparr>blockquote_idx := i\<rparr>) (q\<lparr>blockquote_idx := i\<rparr>)"
    "same (p\<lparr>fence_start := n\<rparr>) (q\<lparr>fence_start := n\<rparr>)" "same (p\<lparr>fence_end := n\<rparr>) (q\<lparr>fence_end := n\<rparr>)"
    "same (p\<lparr>hr_char := s\<rparr>) (q\<lparr>hr_char := s\<rparr>)" "same (p\<lparr>hr_chars := n\<rparr>) (q\<lparr>hr_chars := n\<rparr>)"
    "same (p\<lparr>table_state := n\<rparr>) (q\<lparr>table_state := n\<rparr>)" "same (p\<lparr>link_depth := n\<rparr>) (q\<lparr>link_depth := n\<rparr>)"
    "same (p\<lparr>atx_close := b\<rparr>) (q\<lparr>atx_close := b\<rparr>)" "same (p\<lparr>mp_indent := s\<rparr>) (q\<lparr>mp_indent := s\<rparr>)"
    "same (p\<lparr>mp_spaces := f\<rparr>) (q\<lparr>mp_spaces := f\<rparr>)" "same (p\<lparr>mp_delims := g\<rparr>) (q\<lparr>mp_delims := g\<rparr>)"
    "same (p\<lparr>at_end := b\<rparr>) (q\<lparr>at_end := b\<rparr>)"
  by (rule same_fieldI[OF assms]; simp add: drawn_def prev_is_word_char_def shell_def)+
end
