(* ===== verification/MdPre.thy ===== *)
theory MdPre
  imports MdDraw
begin

text \<open>
  The parser never reads its calls: put before them, other calls stay before them. So two states that differ
  in calls that settle alike go on alike.
\<close>

definition pre :: "md_call list \<Rightarrow> md_parser \<Rightarrow> md_parser" where
  "pre es p = p\<lparr>mp_out := es @ mp_out p\<rparr>"

section \<open>What is read is the same\<close>

lemma pre_reads [simp]:
  "mp_pending (pre es p) = mp_pending p" "mp_tokens (pre es p) = mp_tokens p" "mp_delims (pre es p) = mp_delims p"
  "mp_len (pre es p) = mp_len p" "mp_token (pre es p) = mp_token p" "mp_spaces (pre es p) = mp_spaces p"
  "mp_indent (pre es p) = mp_indent p" "indent_len (pre es p) = indent_len p" "fence_end (pre es p) = fence_end p"
  "fence_start (pre es p) = fence_start p" "blockquote_idx (pre es p) = blockquote_idx p" "hr_char (pre es p) = hr_char p"
  "hr_chars (pre es p) = hr_chars p" "table_state (pre es p) = table_state p" "link_depth (pre es p) = link_depth p"
  "at_end (pre es p) = at_end p" "atx_close (pre es p) = atx_close p" "mp_mark (pre es p) = mp_mark p"
  "text_buf (pre es p) = text_buf p" "prev_is_word (pre es p) = prev_is_word p" "top_token (pre es p) = top_token p"
  "prev_is_word_char (pre es p) = prev_is_word_char p" "in_equation (pre es p) = in_equation p"
  by (simp_all add: pre_def top_token_def prev_is_word_char_def in_equation_def)

lemma pre_updates [simp]:
  "(pre es p)\<lparr>mp_pending := s\<rparr> = pre es (p\<lparr>mp_pending := s\<rparr>)" "(pre es p)\<lparr>text_buf := s\<rparr> = pre es (p\<lparr>text_buf := s\<rparr>)"
  "(pre es p)\<lparr>mp_token := t\<rparr> = pre es (p\<lparr>mp_token := t\<rparr>)" "(pre es p)\<lparr>indent_len := n\<rparr> = pre es (p\<lparr>indent_len := n\<rparr>)"
  "(pre es p)\<lparr>blockquote_idx := i\<rparr> = pre es (p\<lparr>blockquote_idx := i\<rparr>)" "(pre es p)\<lparr>fence_start := n\<rparr> = pre es (p\<lparr>fence_start := n\<rparr>)"
  "(pre es p)\<lparr>fence_end := n\<rparr> = pre es (p\<lparr>fence_end := n\<rparr>)" "(pre es p)\<lparr>hr_char := s\<rparr> = pre es (p\<lparr>hr_char := s\<rparr>)"
  "(pre es p)\<lparr>hr_chars := n\<rparr> = pre es (p\<lparr>hr_chars := n\<rparr>)" "(pre es p)\<lparr>table_state := n\<rparr> = pre es (p\<lparr>table_state := n\<rparr>)"
  "(pre es p)\<lparr>link_depth := n\<rparr> = pre es (p\<lparr>link_depth := n\<rparr>)" "(pre es p)\<lparr>atx_close := b\<rparr> = pre es (p\<lparr>atx_close := b\<rparr>)"
  "(pre es p)\<lparr>mp_indent := s\<rparr> = pre es (p\<lparr>mp_indent := s\<rparr>)" "(pre es p)\<lparr>mp_spaces := f\<rparr> = pre es (p\<lparr>mp_spaces := f\<rparr>)"
  "(pre es p)\<lparr>mp_delims := g\<rparr> = pre es (p\<lparr>mp_delims := g\<rparr>)" "(pre es p)\<lparr>prev_is_word := b\<rparr> = pre es (p\<lparr>prev_is_word := b\<rparr>)"
  "(pre es p)\<lparr>mp_len := k\<rparr> = pre es (p\<lparr>mp_len := k\<rparr>)" "(pre es p)\<lparr>mp_tokens := h\<rparr> = pre es (p\<lparr>mp_tokens := h\<rparr>)"
  by (simp_all add: pre_def)

lemma pre_if [simp]: "(if b then pre es p else pre es q) = pre es (if b then p else q)"
  by simp

section \<open>Every operation\<close>

lemma pre_ops [simp]:
  "emit x (pre es p) = pre es (emit x p)" "buffer s (pre es p) = pre es (buffer s p)"
  "set_pending s (pre es p) = pre es (set_pending s p)" "resume_token (pre es p) = pre es (resume_token p)"
  "clear_root_pending (pre es p) = pre es (clear_root_pending p)" "set_delim d (pre es p) = pre es (set_delim d p)"
  by (simp_all add: pre_def emit_def buffer_def set_pending_def resume_token_def clear_root_pending_def set_delim_def top_token_def)

lemma pre_text [simp]: "add_text (pre es p) = pre es (add_text p)"
  by (simp add: add_text_def)

lemma pre_leaf [simp]: "emit_leaf t a (pre es p) = pre es (emit_leaf t a p)"
  by (cases a) (simp_all add: emit_leaf_def Let_def)

lemma pre_end [simp]: "end_token (pre es p) = pre es (end_token p)" "end_token_unresolved (pre es p) = pre es (end_token_unresolved p)"
  "end_token_or_unresolved (pre es p) = pre es (end_token_or_unresolved p)"
  by (simp_all add: end_token_def end_token_unresolved_def end_token_or_unresolved_def)

lemma pre_close [simp]: "close_to n (pre es p) = pre es (close_to n p)"
proof (induction n p rule: close_to.induct)
  case (1 n p)
  then show ?case by (subst close_to.simps, subst (2) close_to.simps) simp
qed

lemma pre_to_len [simp]: "end_tokens_to_len n (pre es p) = pre es (end_tokens_to_len n p)"
  by (simp add: end_tokens_to_len_def)

lemma indent_walk_reads: "mp_spaces q = mp_spaces p \<Longrightarrow> mp_tokens q = mp_tokens p \<Longrightarrow> indent_walk q is n i = indent_walk p is n i"
  by (induction "is" arbitrary: n i) (simp_all add: Let_def)

lemma pre_indent [simp]: "end_tokens_to_indent n (pre es p) = (pre es (fst (end_tokens_to_indent n p)), snd (end_tokens_to_indent n p))"
  using indent_walk_reads[of "pre es (add_text p)" "add_text p"]
  by (simp add: end_tokens_to_indent_def Let_def split_beta)

lemma pre_push [simp]: "add_token t (pre es p) = (pre es (fst (add_token t p)), snd (add_token t p))"
  by (simp add: add_token_def Let_def)

lemma pre_inline [simp]: "add_inline_token t d (pre es p) = pre es (add_inline_token t d p)"
  by (simp add: add_inline_cases)

lemma list_walk_reads: "mp_tokens q = mp_tokens p \<Longrightarrow> mp_spaces q = mp_spaces p \<Longrightarrow> mp_delims q = mp_delims p \<Longrightarrow> indent_len q = indent_len p
   \<Longrightarrow> list_walk q t d is s = list_walk p t d is s"
  by (induction "is" arbitrary: s) (auto split: prod.splits)

lemma pre_list [simp]:
  "continue_or_add_list t d (pre es p) = (pre es (fst (continue_or_add_list t d p)), snd (continue_or_add_list t d p))"
  "open_list t d (pre es p) = pre es (open_list t d p)"
proof -
  show open_: "open_list t d (pre es q) = pre es (open_list t d q)" for q by (simp add: open_list_def)
  show "continue_or_add_list t d (pre es p) = (pre es (fst (continue_or_add_list t d p)), snd (continue_or_add_list t d p))"
    using list_walk_reads[of "pre es p" p]
    by (simp add: continue_or_add_list_def Let_def split_beta open_)
qed

lemma pre_item [simp]: "add_list_item n (pre es p) = pre es (add_list_item n p)"
  by (simp add: add_list_item_def Let_def)

lemma enclosing_reads: "mp_tokens q = mp_tokens p \<Longrightarrow> enclosing_walk q w is = enclosing_walk p w is"
  by (induction "is") simp_all

lemma pre_searches [simp]: "enclosing_idx (pre es p) w = enclosing_idx p w" "idx_of_token (pre es p) t i = idx_of_token p t i"
  using enclosing_reads[of "pre es p" p] by (simp_all add: enclosing_idx_def idx_of_token_def)

section \<open>Every handler\<close>

fun map_action :: "(md_parser \<Rightarrow> md_parser) \<Rightarrow> md_action \<Rightarrow> md_action" where
  "map_action f (Fall p) = Fall (f p)"
| "map_action f (Taken p) = Taken (f p)"
| "map_action f (Writes p ws) = Writes (f p) ws"

lemma map_action_if [simp]: "map_action f (if b then x else y) = (if b then map_action f x else map_action f y)"
  by simp

lemma map_action_option [simp]: "map_action f (case u of None \<Rightarrow> x | Some v \<Rightarrow> y v) = (case u of None \<Rightarrow> map_action f x | Some v \<Rightarrow> map_action f (y v))"
  by (cases u) simp_all

lemma map_action_list [simp]: "map_action f (case u of Created \<Rightarrow> x | Continued \<Rightarrow> y | No_room \<Rightarrow> z) = (case u of Created \<Rightarrow> map_action f x | Continued \<Rightarrow> map_action f y | No_room \<Rightarrow> map_action f z)"
  by (cases u) simp_all

lemma pre_arms [simp]:
  "root_newline (pre es p) c = map_action (pre es) (root_newline p c)"
  "root_hash (pre es p) c pwc = map_action (pre es) (root_hash p c pwc)"
  "root_quote (pre es p) c = map_action (pre es) (root_quote p c)"
  "root_bullet (pre es p) pwc = map_action (pre es) (root_bullet p pwc)"
  "root_fence (pre es p) c pwc = map_action (pre es) (root_fence p c pwc)"
  "root_plus (pre es p) c = map_action (pre es) (root_plus p c)"
  "root_table (pre es p) h d = map_action (pre es) (root_table p h d)"
  unfolding root_newline_def root_hash_def root_quote_def root_bullet_def root_fence_eq root_plus_def root_table_def
    Let_def case_ok split_beta
  by (simp_all split: list_open.split)

lemma pre_digit [simp]: "root_digit (pre es p) c pwc = map_action (pre es) (root_digit p c pwc)"
  unfolding root_digit_def Let_def split_beta by (simp split: list_open.split)

lemma pre_rule [simp]: "root_rule (pre es p) c pwc = map_action (pre es) (root_rule p c pwc)"
  unfolding root_rule_def Let_def by simp

lemma pre_pipe [simp]: "root_pipe (pre es p) c pwc = map_action (pre es) (root_pipe p c pwc)"
  unfolding root_pipe_def Let_def by simp

lemma pre_promote [simp]: "promote (pre es p) pwc = map_action (pre es) (promote p pwc)"
  unfolding promote_def Let_def split_beta by simp

lemma pre_root [simp]: "handle_root_context (pre es p) c pwc = map_action (pre es) (handle_root_context p c pwc)"
proof -
  have "root_arm (pre es p) f c pwc = map_action (pre es) (root_arm p f c pwc)" for f
    unfolding root_arm_def by simp
  then show ?thesis
    by (cases "mp_pending p"; cases "root_arm p (hd (mp_pending p)) c pwc") (simp_all add: handle_root_context_def)
qed

lemma pre_blocks [simp]:
  "handle_heading (pre es p) c pwc = map_action (pre es) (handle_heading p c pwc)"
  "handle_table (pre es p) c pwc = map_action (pre es) (handle_table p c pwc)"
  "handle_table_row (pre es p) c = map_action (pre es) (handle_table_row p c)"
  "handle_table_cell (pre es p) c = map_action (pre es) (handle_table_cell p c)"
  "handle_code_block (pre es p) c pwc = map_action (pre es) (handle_code_block p c pwc)"
  "handle_code_fence (pre es p) c pwc = map_action (pre es) (handle_code_fence p c pwc)"
  "handle_code_inline (pre es p) c pwc = map_action (pre es) (handle_code_inline p c pwc)"
  "handle_maybe_task (pre es p) c pwc = map_action (pre es) (handle_maybe_task p c pwc)"
  unfolding handle_heading_def handle_table_def handle_table_row_def handle_table_cell_def handle_code_block_def
    handle_code_inline_def handle_code_fence_def handle_maybe_task_def Let_def
  by simp_all

lemma pre_inlines [simp]:
  "handle_strong (pre es p) c = map_action (pre es) (handle_strong p c)"
  "handle_italic (pre es p) c pwc = map_action (pre es) (handle_italic p c pwc)"
  "handle_strike (pre es p) pwc = map_action (pre es) (handle_strike p pwc)"
  "handle_maybe_eq_block (pre es p) c = map_action (pre es) (handle_maybe_eq_block p c)"
  "handle_equation_block (pre es p) pwc = map_action (pre es) (handle_equation_block p pwc)"
  "handle_equation_inline (pre es p) c pwc = map_action (pre es) (handle_equation_inline p c pwc)"
  "handle_maybe_url (pre es p) c pwc = map_action (pre es) (handle_maybe_url p c pwc)"
  "handle_raw_url (pre es p) c pwc = map_action (pre es) (handle_raw_url p c pwc)"
  "handle_maybe_angle (pre es p) c pwc = map_action (pre es) (handle_maybe_angle p c pwc)"
  "handle_maybe_entity (pre es p) c pwc = map_action (pre es) (handle_maybe_entity p c pwc)"
  unfolding handle_strong_def handle_italic_def handle_strike_def handle_maybe_eq_block_def handle_equation_block_def
    handle_equation_inline_def handle_maybe_url_def handle_raw_url_def end_raw_url_def
    handle_maybe_angle_def handle_maybe_entity_def Let_def case_ok split_beta
  by (simp_all split: option.split)

lemma pre_link [simp]: "handle_link_or_image (pre es p) c pwc = map_action (pre es) (handle_link_or_image p c pwc)"
  unfolding handle_link_or_image_def Let_def by (simp split: option.split)

lemma pre_token [simp]: "handle_token (pre es p) c pwc = map_action (pre es) (handle_token p c pwc)"
  by (cases "mp_token p") (simp_all add: handle_token_def)

lemma pre_common [simp]: "handle_common (pre es p) c pwc = map_action (pre es) (handle_common p c pwc)"
proof -
  have arms: "common_backslash (pre es p) c pwc = map_action (pre es) (common_backslash p c pwc)"
    "common_newline (pre es p) c = map_action (pre es) (common_newline p c)"
    "common_lt (pre es p) pwc = map_action (pre es) (common_lt p pwc)"
    "common_amp (pre es p) c pwc = map_action (pre es) (common_amp p c pwc)"
    "common_tick (pre es p) c pwc = map_action (pre es) (common_tick p c pwc)"
    "common_emphasis (pre es p) x c pwc = map_action (pre es) (common_emphasis p x c pwc)"
    "common_tilde (pre es p) c pwc = map_action (pre es) (common_tilde p c pwc)"
    "common_dollar (pre es p) c pwc = map_action (pre es) (common_dollar p c pwc)"
    "common_lbr (pre es p) c = map_action (pre es) (common_lbr p c)"
    "common_rbr (pre es p) c pwc = map_action (pre es) (common_rbr p c pwc)"
    "common_pipe (pre es p) c = map_action (pre es) (common_pipe p c)"
    "common_bang (pre es p) c = map_action (pre es) (common_bang p c)" for x
    unfolding common_backslash_def common_newline_def common_lt_def common_amp_def common_tick_def common_emphasis_def
      common_tilde_def common_dollar_def common_lbr_def common_rbr_def common_pipe_def common_bang_def Let_def
    by simp_all
  show ?thesis by (cases "mp_pending p") (simp_all add: handle_common_def arms)
qed

lemma pre_shift [simp]: "shift_pending (pre es p) c = pre es (shift_pending p c)"
  by (auto simp: shift_pending_def Let_def)

lemma pre_write [simp]: "write_char (pre es p) c = map_action (pre es) (write_char p c)"
proof -
  let ?pwc = "mp_pending p @ [c]"
  show ?thesis
  proof (cases "handle_token p c ?pwc")
    case (Fall q)
    then show ?thesis by (cases "handle_common q c ?pwc") (simp_all add: write_char_def Let_def)
  qed (simp_all add: write_char_def Let_def)
qed

section \<open>Two states with the same text pending\<close>

definition par :: "md_parser \<Rightarrow> md_parser \<Rightarrow> bool" where
  "par p q = (p\<lparr>mp_out := []\<rparr> = q\<lparr>mp_out := []\<rparr> \<and> settle (mp_out p) = settle (mp_out q))"

lemma settle_append: "settle cs = settle ds \<Longrightarrow> settle (cs @ es) = settle (ds @ es)"
  by (simp add: settle_def)

lemma par_pre: "settle es = settle fs \<Longrightarrow> par (pre es p) (pre fs p)"
  using settle_append[of es fs "mp_out p"] by (simp add: par_def pre_def)

lemma pre_whole: "pre (mp_out p) (p\<lparr>mp_out := []\<rparr>) = p"
  by (simp add: pre_def)

lemma par_op:
  assumes "par p q" and "\<And>es r. f (pre es r) = pre es (f r)"
  shows "par (f p) (f q)"
proof -
  let ?r = "p\<lparr>mp_out := []\<rparr>"
  have "f p = pre (mp_out p) (f ?r)" using assms(2)[of "mp_out p" ?r] by (simp add: pre_whole)
  moreover have "f q = pre (mp_out q) (f ?r)" using assms(2)[of "mp_out q" ?r] pre_whole[of q] assms(1) by (simp add: par_def)
  ultimately show ?thesis using par_pre[of "mp_out p" "mp_out q"] assms(1) by (simp add: par_def)
qed

lemma par_same: "par p q \<Longrightarrow> same p q"
proof -
  assume "par p q"
  then have e: "p\<lparr>mp_out := []\<rparr> = q\<lparr>mp_out := []\<rparr>" and s: "settle (mp_out p) = settle (mp_out q)" by (simp_all add: par_def)
  have t: "text_buf p = text_buf q" "prev_is_word p = prev_is_word q" "mp_mark p = mp_mark q"
    using arg_cong[OF e, of text_buf] arg_cong[OF e, of prev_is_word] arg_cong[OF e, of mp_mark] by simp_all
  have "(p\<lparr>mp_out := []\<rparr>)\<lparr>text_buf := [], prev_is_word := False\<rparr> = (q\<lparr>mp_out := []\<rparr>)\<lparr>text_buf := [], prev_is_word := False\<rparr>"
    using e by simp
  then show ?thesis using s t by (simp add: same_def drawn_def shell_def prev_is_word_char_def)
qed

lemma twin_par: "twin p q \<Longrightarrow> par p q"
proof -
  assume t: "twin p q"
  then have s: "drawn p = drawn q" "shell p = shell q" "prev_is_word p = prev_is_word q" "text_buf p = []" "text_buf q = []"
    by (auto simp: twin_def same_def prev_is_word_char_def)
  have "settle (mp_out p) = settle (mp_out q)" using s settle_no_text[OF settle_nonempty] by (simp add: drawn_def)
  have whole: "r\<lparr>mp_out := []\<rparr> = (shell r)\<lparr>prev_is_word := prev_is_word r, text_buf := text_buf r\<rparr>" for r by (simp add: shell_def)
  have "p\<lparr>mp_out := []\<rparr> = q\<lparr>mp_out := []\<rparr>" unfolding whole[of p] whole[of q] s ..
  then show ?thesis using \<open>settle (mp_out p) = settle (mp_out q)\<close> by (simp add: par_def)
qed

lemma par_flush: "same p q \<Longrightarrow> par (add_text p) (add_text q)"
  by (rule twin_par[OF twin_add_text])

text \<open>What a character does to two such states.\<close>

definition par_action :: "md_action \<Rightarrow> md_action \<Rightarrow> bool" where
  "par_action a b = (case (a, b) of (Fall p, Fall q) \<Rightarrow> par p q | (Taken p, Taken q) \<Rightarrow> par p q
     | (Writes p ws, Writes q vs) \<Rightarrow> par p q \<and> ws = vs | _ \<Rightarrow> False)"

lemma par_map: "settle es = settle fs \<Longrightarrow> par_action (map_action (pre es) a) (map_action (pre fs) a)"
  by (cases a) (simp_all add: par_action_def par_pre)

lemma par_handler:
  assumes "par p q" and "\<And>es r. h (pre es r) = map_action (pre es) (h r)"
  shows "par_action (h p) (h q)"
proof -
  let ?r = "p\<lparr>mp_out := []\<rparr>"
  have "h p = map_action (pre (mp_out p)) (h ?r)" using assms(2)[of "mp_out p" ?r] by (simp add: pre_whole)
  moreover have "h q = map_action (pre (mp_out q)) (h ?r)" using assms(2)[of "mp_out q" ?r] pre_whole[of q] assms(1) by (simp add: par_def)
  ultimately show ?thesis using par_map[of "mp_out p" "mp_out q"] assms(1) by (simp add: par_def)
qed

lemma par_write: "par p q \<Longrightarrow> par_action (write_char p c) (write_char q c)"
  by (rule par_handler) simp_all
end
