(* ===== verification/MdSame.thy ===== *)
theory MdSame
  imports MdPre
begin

text \<open>
  Two states that draw the same but cut the text differently go on alike, as long as no structural call comes
  before the text is drawn. The states whose handlers make such calls are \<open>bare\<close>; there the two must have the
  same text pending.
\<close>

section \<open>The states that draw at once\<close>

definition block_token :: "md_token \<Rightarrow> bool" where
  "block_token t = (root_token t \<or> t \<in> {MAYBE_TASK, MAYBE_ANGLE, MAYBE_ENTITY, TABLE, TABLE_ROW})"

definition held_label :: "md_parser \<Rightarrow> bool" where
  "held_label p = (mp_token p \<in> {LINK, IMAGE} \<and> take 2 (mp_pending p) = [c_rbr, c_lpar])"

definition bare :: "md_parser \<Rightarrow> bool" where
  "bare p = (block_token (mp_token p) \<or> held_label p
     \<or> (mp_token p \<in> {MAYBE_URL, MAYBE_EQ_BLOCK} \<and> block_token (top_token p))
     \<or> (mp_token p = MAYBE_URL \<and> top_token p \<in> {LINK, IMAGE}))"

definition fit :: "md_parser \<Rightarrow> md_parser \<Rightarrow> bool" where
  "fit p q = (same p q \<and> (bare p \<longrightarrow> par p q))"

lemma fit_par: "par p q \<Longrightarrow> fit p q"
  by (simp add: fit_def par_same)

lemma fit_same: "same p q \<Longrightarrow> \<not> bare p \<Longrightarrow> fit p q"
  by (simp add: fit_def)

definition fit_action :: "md_action \<Rightarrow> md_action \<Rightarrow> bool" where
  "fit_action a b = (case (a, b) of (Fall p, Fall q) \<Rightarrow> fit p q | (Taken p, Taken q) \<Rightarrow> fit p q
     | (Writes p ws, Writes q vs) \<Rightarrow> fit p q \<and> ws = vs | _ \<Rightarrow> False)"

lemma fit_actionI:
  "fit p q \<Longrightarrow> fit_action (Fall p) (Fall q)" "fit p q \<Longrightarrow> fit_action (Taken p) (Taken q)"
  "fit p q \<Longrightarrow> fit_action (Writes p ws) (Writes q ws)"
  by (simp_all add: fit_action_def)

lemma fit_par_action: "par_action a b \<Longrightarrow> fit_action a b"
  by (cases a; cases b) (simp_all add: par_action_def fit_action_def fit_par)

lemma fit_if: "(b \<Longrightarrow> fit_action x x') \<Longrightarrow> (\<not> b \<Longrightarrow> fit_action y y') \<Longrightarrow> fit_action (if b then x else y) (if b then x' else y')"
  by simp

section \<open>Operations on two states\<close>

lemma same_pending: "same p q \<Longrightarrow> same (set_pending s p) (set_pending s q)"
  using same_updates(1) by (simp add: set_pending_def)

lemma same_resume: "same p q \<Longrightarrow> same (resume_token p) (resume_token q)"
  using same_updates(2)[of p q "top_token p"] same_fields(19)[of p q] by (simp add: resume_token_def)

lemma same_attr: "same p q \<Longrightarrow> same (emit (Set_attr a v) p) (emit (Set_attr a v) q)"
proof -
  assume s: "same p q"
  have "drawn (emit (Set_attr a v) r) = settle_call (drawn r) (Set_attr a v)" for r
    using settle_attr[OF settle_nonempty] by (simp add: drawn_def emit_def settle_snoc)
  moreover have "shell (emit (Set_attr a v) r) = shell r" "prev_is_word_char (emit (Set_attr a v) r) = prev_is_word_char r" for r
    by (simp_all add: shell_def emit_def prev_is_word_char_def)
  ultimately show ?thesis using s by (simp add: same_def)
qed

lemmas same_ops = same_pending same_resume same_attr same_buffer same_updates

lemma par_ops:
  assumes "par p q"
  shows "par (set_pending s p) (set_pending s q)" "par (end_token p) (end_token q)" "par (end_token_unresolved p) (end_token_unresolved q)"
    "par (add_inline_token t d p) (add_inline_token t d q)" "par (buffer s p) (buffer s q)" "par (resume_token p) (resume_token q)"
    "par (end_tokens_to_len n p) (end_tokens_to_len n q)" "par (fst (add_token t p)) (fst (add_token t q))"
    "par (emit x p) (emit x q)"
    "par (p\<lparr>mp_pending := s\<rparr>) (q\<lparr>mp_pending := s\<rparr>)" "par (p\<lparr>mp_token := t\<rparr>) (q\<lparr>mp_token := t\<rparr>)"
    "par (p\<lparr>blockquote_idx := i\<rparr>) (q\<lparr>blockquote_idx := i\<rparr>)" "par (p\<lparr>fence_start := n'\<rparr>) (q\<lparr>fence_start := n'\<rparr>)"
    "par (p\<lparr>fence_end := n'\<rparr>) (q\<lparr>fence_end := n'\<rparr>)" "par (p\<lparr>link_depth := n'\<rparr>) (q\<lparr>link_depth := n'\<rparr>)"
    "par (p\<lparr>text_buf := s\<rparr>) (q\<lparr>text_buf := s\<rparr>)" "par (p\<lparr>indent_len := n'\<rparr>) (q\<lparr>indent_len := n'\<rparr>)"
  using par_op[OF assms, of "set_pending s"] par_op[OF assms, of end_token] par_op[OF assms, of end_token_unresolved]
    par_op[OF assms, of "add_inline_token t d"] par_op[OF assms, of "buffer s"] par_op[OF assms, of resume_token]
    par_op[OF assms, of "end_tokens_to_len n"] par_op[OF assms, of "\<lambda>r. fst (add_token t r)"]
    par_op[OF assms, of "emit x"] par_op[OF assms, of "\<lambda>r. r\<lparr>mp_pending := s\<rparr>"] par_op[OF assms, of "\<lambda>r. r\<lparr>mp_token := t\<rparr>"]
    par_op[OF assms, of "\<lambda>r. r\<lparr>blockquote_idx := i\<rparr>"] par_op[OF assms, of "\<lambda>r. r\<lparr>fence_start := n'\<rparr>"]
    par_op[OF assms, of "\<lambda>r. r\<lparr>fence_end := n'\<rparr>"] par_op[OF assms, of "\<lambda>r. r\<lparr>link_depth := n'\<rparr>"]
    par_op[OF assms, of "\<lambda>r. r\<lparr>text_buf := s\<rparr>"] par_op[OF assms, of "\<lambda>r. r\<lparr>indent_len := n'\<rparr>"]
  by simp_all

lemma push_same: "same p q \<Longrightarrow> snd (add_token t q) = snd (add_token t p)"
  using same_fields[of p q] by (simp add: add_token_len(2) push_at_def)

section \<open>Blocks\<close>

lemma bare_other:
  "\<not> block_token (mp_token p) \<Longrightarrow> mp_token p \<notin> {LINK, IMAGE, MAYBE_URL, MAYBE_EQ_BLOCK} \<Longrightarrow> \<not> bare p"
  by (simp add: bare_def held_label_def)

lemma bare_short: "length (mp_pending p) \<le> 1 \<Longrightarrow> \<not> held_label p"
  by (cases "mp_pending p") (auto simp: held_label_def)

lemma bare_first: "mp_pending p = f # s \<Longrightarrow> f \<noteq> c_rbr \<Longrightarrow> \<not> held_label p"
  by (simp add: held_label_def)

lemma bare_token: "\<not> block_token t \<Longrightarrow> t \<notin> {LINK, IMAGE, MAYBE_URL, MAYBE_EQ_BLOCK} \<Longrightarrow> mp_token r = t \<Longrightarrow> \<not> bare r"
  using bare_other by simp

lemma fit_fall_if: "fit_action (if b then Fall x else Fall y) (if b then Fall x' else Fall y') \<Longrightarrow> fit_action (Fall (if b then x else y)) (Fall (if b then x' else y'))"
  by (cases b) simp_all

lemma fit_taken_if: "fit_action (if b then Taken x else Taken y) (if b then Taken x' else Taken y') \<Longrightarrow> fit_action (Taken (if b then x else y)) (Taken (if b then x' else y'))"
  by (cases b) simp_all

lemmas fit_split = fit_fall_if fit_if

lemma heading_plain: "is_heading_token t \<Longrightarrow> \<not> block_token t \<and> t \<notin> {LINK, IMAGE, MAYBE_URL, MAYBE_EQ_BLOCK}"
  by (auto simp: is_heading_token_def block_token_def root_token_def)

lemma same_heading:
  assumes s: "same p q" and t: "is_heading_token (mp_token p)"
  shows "fit_action (handle_heading p c pwc) (handle_heading q c pwc)"
proof -
  have weak: "\<not> bare r" if "mp_token r = mp_token p" for r
    using heading_plain[OF t] that by (intro bare_token) simp_all
  show ?thesis unfolding handle_heading_def same_fields[OF s]
    by (intro fit_split; (rule fit_actionI, rule fit_same, (intro same_ops s), rule weak, simp))
qed

lemma same_if: "same x x' \<Longrightarrow> same y y' \<Longrightarrow> same (if b then x else y) (if b then x' else y')"
  by simp

lemma par_if: "par x x' \<Longrightarrow> par y y' \<Longrightarrow> par (if b then x else y) (if b then x' else y')"
  by simp

lemmas same_rules = same_ops same_if
lemmas par_rules = fit_par par_ops par_flush par_if same_rules

lemma same_cell:
  assumes s: "same p q" and t: "mp_token p = TABLE_CELL"
  shows "fit_action (handle_table_cell p c) (handle_table_cell q c)"
proof -
  have weak: "\<not> bare p" by (rule bare_token) (simp_all add: t block_token_def root_token_def)
  show ?thesis unfolding handle_table_cell_def same_fields[OF s]
    by (intro fit_split; (rule fit_actionI, ((intro par_rules s; fail) | (intro fit_same s weak))))
qed

lemma same_code:
  assumes s: "same p q"
  shows "mp_token p = CODE_BLOCK \<Longrightarrow> fit_action (handle_code_block p c pwc) (handle_code_block q c pwc)"
    "mp_token p = CODE_FENCE \<Longrightarrow> fit_action (handle_code_fence p c pwc) (handle_code_fence q c pwc)"
    "mp_token p = CODE_INLINE \<Longrightarrow> fit_action (handle_code_inline p c pwc) (handle_code_inline q c pwc)"
proof -
  have weak: "\<not> bare r" if "mp_token r \<in> {CODE_BLOCK, CODE_FENCE, CODE_INLINE, NEWLINE}" for r
    using that by (intro bare_other) (auto simp: block_token_def root_token_def)
  show "mp_token p = CODE_BLOCK \<Longrightarrow> fit_action (handle_code_block p c pwc) (handle_code_block q c pwc)"
    unfolding handle_code_block_def same_fields[OF s]
    by (intro fit_split; (rule fit_actionI, ((intro par_rules s; fail) | (rule fit_same, (intro same_rules s), rule weak, simp))))
  show "mp_token p = CODE_FENCE \<Longrightarrow> fit_action (handle_code_fence p c pwc) (handle_code_fence q c pwc)"
    unfolding handle_code_fence_def same_fields[OF s]
    by (intro fit_split; (rule fit_actionI, ((intro par_rules s; fail) | (rule fit_same, (intro same_rules s; fail), rule weak, simp))))
  show "mp_token p = CODE_INLINE \<Longrightarrow> fit_action (handle_code_inline p c pwc) (handle_code_inline q c pwc)"
    unfolding handle_code_inline_def same_fields[OF s]
    by (intro fit_split; (rule fit_actionI, ((intro par_rules s; fail) | (rule fit_same, (intro same_rules s; fail), rule weak, simp))))
qed

section \<open>Inline\<close>

lemma same_emphasis:
  assumes s: "same p q"
  shows "mp_token p \<in> {STRONG_AST, STRONG_UND} \<Longrightarrow> fit_action (handle_strong p c) (handle_strong q c)"
    "mp_token p \<in> {ITALIC_AST, ITALIC_UND} \<Longrightarrow> fit_action (handle_italic p c pwc) (handle_italic q c pwc)"
    "mp_token p = STRIKE \<Longrightarrow> fit_action (handle_strike p pwc) (handle_strike q pwc)"
    "mp_token p = EQUATION_BLOCK \<Longrightarrow> fit_action (handle_equation_block p pwc) (handle_equation_block q pwc)"
    "mp_token p = EQUATION_INLINE \<Longrightarrow> fit_action (handle_equation_inline p c pwc) (handle_equation_inline q c pwc)"
    "mp_token p = RAW_URL \<Longrightarrow> fit_action (handle_raw_url p c pwc) (handle_raw_url q c pwc)"
proof -
  have weak: "\<not> bare r" if "mp_token r \<in> {STRONG_AST, STRONG_UND, ITALIC_AST, ITALIC_UND, STRIKE, EQUATION_BLOCK, EQUATION_INLINE, RAW_URL}" for r
    using that by (intro bare_other) (auto simp: block_token_def root_token_def)
  show "mp_token p \<in> {STRONG_AST, STRONG_UND} \<Longrightarrow> fit_action (handle_strong p c) (handle_strong q c)"
    unfolding handle_strong_def Let_def same_fields[OF s]
    by (intro fit_split; (rule fit_actionI, ((intro par_rules s; fail) | (rule fit_same, (intro same_rules s; fail), rule weak, auto))))
  show "mp_token p \<in> {ITALIC_AST, ITALIC_UND} \<Longrightarrow> fit_action (handle_italic p c pwc) (handle_italic q c pwc)"
    unfolding handle_italic_def Let_def same_fields[OF s] keep_end_token keep_add_text end_token_len
    by (intro fit_split; (rule fit_actionI, ((intro par_rules s; fail) | (rule fit_same, (intro same_rules s; fail), rule weak, auto))))
  show "mp_token p = STRIKE \<Longrightarrow> fit_action (handle_strike p pwc) (handle_strike q pwc)"
    unfolding handle_strike_def Let_def same_fields[OF s]
    by (intro fit_split; (rule fit_actionI, ((intro par_rules s; fail) | (rule fit_same, (intro same_rules s; fail), rule weak, simp))))
  show "mp_token p = EQUATION_BLOCK \<Longrightarrow> fit_action (handle_equation_block p pwc) (handle_equation_block q pwc)"
    unfolding handle_equation_block_def Let_def same_fields[OF s]
    by (intro fit_split; (rule fit_actionI, ((intro par_rules s; fail) | (rule fit_same, (intro same_rules s; fail), rule weak, simp))))
  show "mp_token p = EQUATION_INLINE \<Longrightarrow> fit_action (handle_equation_inline p c pwc) (handle_equation_inline q c pwc)"
    unfolding handle_equation_inline_def Let_def same_fields[OF s]
    by (intro fit_split; (rule fit_actionI, ((intro par_rules s; fail) | (rule fit_same, (intro same_rules s; fail), rule weak, simp))))
  show "mp_token p = RAW_URL \<Longrightarrow> fit_action (handle_raw_url p c pwc) (handle_raw_url q c pwc)"
    unfolding handle_raw_url_def end_raw_url_def Let_def split_beta same_fields[OF s]
    by (intro fit_split; (rule fit_actionI, ((intro par_rules s; fail) | (rule fit_same, (intro same_rules s; fail), rule weak, simp))))
qed

lemma fit_option:
  "(\<And>v. u = Some v \<Longrightarrow> fit_action (y v) (y' v)) \<Longrightarrow> (u = None \<Longrightarrow> fit_action x x')
   \<Longrightarrow> fit_action (case u of None \<Rightarrow> x | Some v \<Rightarrow> y v) (case u of None \<Rightarrow> x' | Some v \<Rightarrow> y' v)"
  by (cases u) simp_all

lemma same_link:
  assumes s: "same p q" and t: "mp_token p \<in> {LINK, IMAGE}" and h: "\<not> held_label p"
  shows "fit_action (handle_link_or_image p c pwc) (handle_link_or_image q c pwc)"
proof -
  have weak: "\<not> bare r" if "mp_token r = mp_token p" "\<not> held_label r" for r
    using that t by (auto simp: bare_def block_token_def root_token_def)
  have p: "\<not> take 2 (mp_pending p) = [c_rbr, c_lpar]" using h t by (auto simp: held_label_def)
  show ?thesis unfolding handle_link_or_image_def Let_def same_fields[OF s] if_not_P[OF p]
    by (intro fit_split; (rule fit_actionI, ((intro par_rules s; fail) | (rule fit_same, (intro same_rules s; fail), rule weak; use h p in \<open>simp add: held_label_def\<close>))))
qed

lemma same_held:
  assumes s: "same p q" and top: "\<not> pseudo (top_token p)" and b: "\<not> bare p"
  shows "mp_token p = MAYBE_EQ_BLOCK \<Longrightarrow> fit_action (handle_maybe_eq_block p c) (handle_maybe_eq_block q c)"
    "mp_token p = MAYBE_URL \<Longrightarrow> fit_action (handle_maybe_url p c pwc) (handle_maybe_url q c pwc)"
proof -
  note push = push_same[OF twin_same[OF twin_add_text[OF s]]]
  note split = case_ok same_fields[OF s] push keep_add_text keep_add_token
  show "fit_action (handle_maybe_eq_block p c) (handle_maybe_eq_block q c)" if t: "mp_token p = MAYBE_EQ_BLOCK"
  proof -
    have weak: "\<not> bare (set_pending [] (buffer w (resume_token p)))" for w
      using top b t by (auto simp: bare_def held_label_def pseudo_def)
    show ?thesis unfolding handle_maybe_eq_block_def split
      by (intro fit_split; (rule fit_actionI, ((intro par_rules s; fail) | (rule fit_same, (intro same_rules s; fail), rule weak))))
  qed
  show "fit_action (handle_maybe_url p c pwc) (handle_maybe_url q c pwc)" if t: "mp_token p = MAYBE_URL"
  proof -
    have weak: "\<not> bare (resume_token p)" "\<not> bare (set_pending u p)" for u
      using top b t by (auto simp: bare_def held_label_def pseudo_def)
    show ?thesis unfolding handle_maybe_url_def split
      by (intro fit_split; (rule fit_actionI, ((intro par_rules s; fail) | (rule fit_same, (intro same_rules s; fail), rule weak))))
  qed
qed

section \<open>The checks after the handlers\<close>

lemma plain_top:
  assumes "open_stack p" and "current p" and "\<not> pseudo (mp_token p)"
  shows "top_token p = mp_token p \<or> top_token p = NO_TOKEN"
proof (cases "mp_len p < 0")
  case True
  then show ?thesis using assms(1) by (simp add: open_stack_def stack_ok_def top_token_def)
qed (use current_top[OF assms(2,3)] in simp)

lemma same_common:
  assumes s: "same p q" and b: "\<not> bare p" and n: "\<not> pseudo (mp_token p)" and k: "open_stack p" "current p" and w: "pwc = mp_pending p @ [c] \<or> mp_pending p = []"
  shows "fit_action (handle_common p c pwc) (handle_common q c pwc)"
proof (cases "mp_pending p")
  case Nil
  then show ?thesis using fit_same[OF s b] same_fields(1)[OF s] by (simp add: handle_common_def fit_actionI)
next
  case (Cons f fs)
  have top: "\<not> block_token (top_token p)" using plain_top[OF k n] b by (auto simp: bare_def block_token_def root_token_def)
  have weak: "\<not> bare r" if "mp_token r = mp_token p" "\<not> held_label r" for r
    using that b n by (auto simp: bare_def pseudo_def)
  have short: "\<not> held_label r" if "length (mp_pending r) \<le> 1" for r using that by (rule bare_short)
  have fall: "fit_action (Fall p) (Fall q)" by (intro fit_actionI fit_same s b)
  have keep: "fit_action (Taken (set_pending pwc r)) (Taken (set_pending pwc r'))"
    if "f \<noteq> c_rbr" "same r r'" "mp_token r = mp_token p" for r r'
    by (intro fit_actionI fit_same same_rules that weak) (use that Cons w in \<open>simp_all add: held_label_def\<close>)
  have brief: "fit_action (Taken r) (Taken r')" if "same r r'" "mp_token r = mp_token p" "length (mp_pending r) \<le> 1" for r r'
    by (intro fit_actionI fit_same that weak short)
  have eq: "fit_action (Taken (p\<lparr>mp_token := MAYBE_EQ_BLOCK, mp_pending := pwc\<rparr>)) (Taken (q\<lparr>mp_token := MAYBE_EQ_BLOCK, mp_pending := pwc\<rparr>))"
    using top by (intro fit_actionI fit_same same_rules s) (simp add: bare_def held_label_def block_token_def root_token_def top_token_def)
  note flush = par_rules s
  have backslash: "fit_action (common_backslash p c pwc) (common_backslash q c pwc)"
    unfolding common_backslash_def same_fields[OF s]
    by (intro fit_split fall eq; ((rule fit_actionI, (intro flush; fail)) | (rule brief, (intro same_rules s; fail), simp, simp)))
  have start: "fence_start (r\<lparr>fence_start := i\<rparr>) = i" for r :: md_parser and i by simp
  have tick: "fit_action (common_tick p c pwc) (common_tick q c pwc)" if "f = c_tick"
    unfolding common_tick_def Let_def same_fields[OF s] keep_add_text start
    by (intro fit_split fall; ((rule fit_actionI, (intro flush; fail)) | (rule keep, (simp add: that; fail), (intro same_rules s; fail), simp)
        | (intro fit_actionI fit_same same_rules s weak; use Cons that in \<open>simp add: held_label_def\<close>)))
  have emphasis: "fit_action (common_emphasis p f c pwc) (common_emphasis q f c pwc)" if "f \<noteq> c_rbr"
    unfolding common_emphasis_def Let_def same_fields[OF s]
    by (intro fit_split fall; ((rule fit_actionI, (intro flush; fail)) | (rule keep, (rule that), (rule s), simp)))
  have tilde: "fit_action (common_tilde p c pwc) (common_tilde q c pwc)" if "f \<noteq> c_rbr"
    unfolding common_tilde_def Let_def same_fields[OF s]
    by (intro fit_split fall; ((rule fit_actionI, (intro flush; fail)) | (rule keep, (rule that), (rule s), simp)))
  have rest: "fit_action (common_dollar p c pwc) (common_dollar q c pwc)" "fit_action (common_newline p c) (common_newline q c)"
    "fit_action (common_lt p pwc) (common_lt q pwc)" "fit_action (common_amp p c pwc) (common_amp q c pwc)"
    "fit_action (common_lbr p c) (common_lbr q c)" "fit_action (common_bang p c) (common_bang q c)"
    unfolding common_dollar_def common_newline_def common_lt_def common_amp_def common_lbr_def common_bang_def same_fields[OF s]
    by (intro fit_split fall eq; (rule fit_actionI, (intro flush; fail)))+
  have idx: "enclosing_idx q u = enclosing_idx p u" for u
    using enclosing_reads[of q p] same_fields[OF s] by (simp add: enclosing_idx_def)
  have rbr: "fit_action (common_rbr p c pwc) (common_rbr q c pwc)"
    unfolding common_rbr_def same_fields[OF s] idx
    by (intro fit_if fall fit_par_action par_handler[where h = "\<lambda>r. handle_link_or_image r c pwc"] par_ops par_flush s pre_link)
  have pipe: "fit_action (common_pipe p c) (common_pipe q c)"
    unfolding common_pipe_def same_fields[OF s] idx
    by (intro fit_if fall fit_par_action par_handler[where h = "\<lambda>r. handle_table_cell r c"] par_ops par_flush s pre_blocks)
  have space: "fit_action (Taken p) (Taken q)" by (intro fit_actionI fit_same s b)
  show ?thesis unfolding handle_common_def same_fields[OF s] Cons list.case
    by (intro fit_if backslash rest tick emphasis tilde rbr pipe space fall) auto
qed

lemma shift_plain:
  assumes b: "\<not> bare p" and n: "\<not> pseudo (mp_token p)" and k: "open_stack p" "current p"
  shows "\<not> bare (shift_pending p c)"
proof (cases "mp_token (shift_pending p c) = MAYBE_URL")
  case True
  then have t: "mp_token p \<notin> {LINK, IMAGE}" using n by (auto simp: shift_pending_def Let_def pseudo_def split: if_splits)
  have "top_token (shift_pending p c) = top_token p" by (simp add: shift_pending_def Let_def top_token_def)
  then show ?thesis using True t b plain_top[OF k n] by (auto simp: bare_def held_label_def block_token_def root_token_def)
next
  case False
  then have "mp_token (shift_pending p c) = mp_token p" by (auto simp: shift_pending_def Let_def split: if_splits)
  moreover have "\<not> held_label (shift_pending p c)" by (rule bare_short) (simp add: shift_pending_def Let_def)
  ultimately show ?thesis using b n by (auto simp: bare_def pseudo_def)
qed

lemma same_shift:
  assumes s: "same p q" and b: "\<not> bare p" and n: "\<not> pseudo (mp_token p)" and k: "open_stack p" "current p"
  shows "fit (shift_pending p c) (shift_pending q c)"
proof -
  have "same (shift_pending p c) (shift_pending q c)"
    unfolding shift_pending_def Let_def same_fields[OF s] by (intro same_rules s)
  then show ?thesis by (rule fit_same[OF _ shift_plain[OF b n k]])
qed

section \<open>One character\<close>

lemma same_token:
  assumes s: "same p q" and b: "\<not> bare p" and i: "md_inv p"
  shows "fit_action (handle_token p c pwc) (handle_token q c pwc)"
proof -
  have fall: "fit_action (Fall p) (Fall q)" by (intro fit_actionI fit_same s b)
  have top: "\<not> pseudo (top_token p)" using inv_stack[OF i] by (simp add: stack_ok_def top_token_def)
  have held: "\<not> held_label p" using b by (simp add: bare_def)
  show ?thesis
    by (cases "mp_token p"; unfold handle_token_def same_fields(5)[OF s]; simp only: md_token.case;
        (rule fall same_heading[OF s] same_cell[OF s] same_code[OF s] same_emphasis[OF s] same_held[OF s top b] same_link[OF s _ held])?)
      (use b in \<open>simp_all add: is_heading_token_def bare_def block_token_def root_token_def\<close>)
qed

lemma fallen:
  assumes i: "md_inv p" and n: "mp_token p \<noteq> NEWLINE" and f: "handle_token p c (mp_pending p @ [c]) = Fall p1"
  shows "open_stack p1" "current p1" "\<not> pseudo (mp_token p1)" "mp_pending p @ [c] = mp_pending p1 @ [c] \<or> mp_pending p1 = []"
    "sound p1 c (handle_common p1 c (mp_pending p @ [c]))"
proof -
  show p1: "open_stack p1" "current p1" "\<not> pseudo (mp_token p1)"
    using sound_token[OF i n refl, of c] f inv_open[of p1] by (auto simp: sound_fall_iff pseudo_def)
  show w: "mp_pending p @ [c] = mp_pending p1 @ [c] \<or> mp_pending p1 = []"
    using leaves_token[of p c "mp_pending p @ [c]"] f by auto
  show "sound p1 c (handle_common p1 c (mp_pending p @ [c]))"
  proof (cases "mp_pending p1 = []")
    case True
    then show ?thesis using sound_fall[OF p1] by (simp add: handle_common_def)
  qed (use sound_common[OF p1, of _ c] w in simp)
qed

lemma fallen_again:
  assumes "md_inv p" and "mp_token p \<noteq> NEWLINE" and "handle_token p c (mp_pending p @ [c]) = Fall p1"
    and f: "handle_common p1 c (mp_pending p @ [c]) = Fall p2"
  shows "open_stack p2" "current p2" "\<not> pseudo (mp_token p2)"
  using fallen(5)[OF assms(1-3)] f inv_open[of p2] by (auto simp: sound_fall_iff pseudo_def)

lemma fit_write:
  assumes f: "fit p q" and i: "md_inv p" and n: "mp_token p \<noteq> NEWLINE"
  shows "fit_action (write_char p c) (write_char q c)"
proof (cases "bare p")
  case True
  then show ?thesis using f by (intro fit_par_action par_write) (simp add: fit_def)
next
  case False
  let ?pwc = "mp_pending p @ [c]"
  have s: "same p q" using f by (simp add: fit_def)
  have t: "fit_action (handle_token p c ?pwc) (handle_token q c ?pwc)" by (rule same_token[OF s False i])
  show ?thesis
  proof (cases "handle_token p c ?pwc")
    case (Fall p1)
    then obtain q1 where q1: "handle_token q c ?pwc = Fall q1" "fit p1 q1"
      using t by (cases "handle_token q c ?pwc") (auto simp: fit_action_def)
    note p1 = fallen[OF i n Fall]
    have c: "fit_action (handle_common p1 c ?pwc) (handle_common q1 c ?pwc)"
    proof (cases "bare p1")
      case True
      then show ?thesis using q1(2) by (intro fit_par_action par_handler[where h = "\<lambda>r. handle_common r c ?pwc"] pre_common) (simp add: fit_def)
    next
      case False
      then show ?thesis using q1(2) by (intro same_common p1(1-4)) (simp_all add: fit_def)
    qed
    show ?thesis
    proof (cases "handle_common p1 c ?pwc")
      case f2: (Fall p2)
      then obtain q2 where q2: "handle_common q1 c ?pwc = Fall q2" "fit p2 q2"
        using c by (cases "handle_common q1 c ?pwc") (auto simp: fit_action_def)
      note p2 = fallen_again[OF i n Fall f2]
      have "fit (shift_pending p2 c) (shift_pending q2 c)"
      proof (cases "bare p2")
        case True
        then show ?thesis using q2(2) by (intro fit_par par_op[where f = "\<lambda>r. shift_pending r c"] pre_shift) (simp add: fit_def)
      next
        case False
        then show ?thesis using q2(2) by (intro same_shift p2) (simp_all add: fit_def)
      qed
      then show ?thesis using Fall f2 q1(1) q2(1) same_fields(1)[OF s] by (simp add: write_char_def Let_def fit_actionI)
    qed (use Fall q1(1) c same_fields(1)[OF s] in \<open>cases "handle_common q1 c ?pwc"; simp add: write_char_def Let_def fit_action_def\<close>)+
  qed (use t same_fields(1)[OF s] in \<open>cases "handle_token q c ?pwc"; simp add: write_char_def Let_def fit_action_def\<close>)+
qed
end
