(* ===== verification/MdKept.thy ===== *)
theory MdKept
  imports MdSame
begin

text \<open>
  What the token stack upholds: a link is opened over inline content or a paragraph, never over a block that
  waits for its next line; so is a held \<open><\<close> or \<open>&\<close>; and a table on the stack, or left above it, has been drawn.
\<close>

section \<open>The stack\<close>

definition kept_at :: "md_call list \<Rightarrow> (int \<Rightarrow> md_token) \<Rightarrow> int \<Rightarrow> md_token \<Rightarrow> bool" where
  "kept_at es f n t =
     ((\<forall>i. f i \<noteq> MAYBE_ENTITY \<and> f i \<noteq> MAYBE_ANGLE)
      \<and> (t \<in> {MAYBE_ENTITY, MAYBE_ANGLE} \<longrightarrow> \<not> block_token (f n))
      \<and> (\<forall>i. 0 \<le> i \<and> i \<le> n \<and> i < token_array_cap \<and> f i \<in> {LINK, IMAGE} \<longrightarrow> \<not> block_token (f (i - 1)))
      \<and> (\<forall>u\<in>{TABLE, TABLE_ROW}. (t = u \<or> (\<exists>i. f i = u)) \<longrightarrow> Add_token u \<in> set es))"

definition upheld :: "md_parser \<Rightarrow> bool" where
  "upheld p = kept_at (mp_out p) (mp_tokens p) (mp_len p) (mp_token p)"

lemma kept_calls: "kept_at es f n t \<Longrightarrow> set es \<subseteq> set ds \<Longrightarrow> kept_at ds f n t"
  by (auto simp: kept_at_def)

lemma kept_close_at: "kept_at es f n t \<Longrightarrow> m \<le> n \<Longrightarrow> kept_at es f m (f m)"
  by (auto simp: kept_at_def)

lemma kept_token: "kept_at es f n t \<Longrightarrow> u \<notin> {MAYBE_ENTITY, MAYBE_ANGLE, TABLE, TABLE_ROW} \<Longrightarrow> kept_at es f n u"
  by (auto simp: kept_at_def)

lemma kept_held: "kept_at es f n t \<Longrightarrow> \<not> block_token (f n) \<Longrightarrow> u \<in> {MAYBE_ENTITY, MAYBE_ANGLE} \<Longrightarrow> kept_at es f n u"
  by (auto simp: kept_at_def)

lemma kept_push_at:
  assumes k: "kept_at es f n t" and u: "u \<notin> {MAYBE_ENTITY, MAYBE_ANGLE}"
    and l: "u \<in> {LINK, IMAGE} \<Longrightarrow> \<not> block_token (f n)"
  shows "kept_at (es @ [Add_token u]) (set_token (n + 1) u f) (n + 1) u"
proof -
  let ?g = "set_token (n + 1) u f"
  have g: "?g i = f i \<or> (i = n + 1 \<and> ?g i = u)" for i by (simp add: set_token_def)
  have low: "?g i = f i" if "i \<le> n" for i using that by (simp add: set_token_def)
  have held: "?g i \<noteq> MAYBE_ENTITY \<and> ?g i \<noteq> MAYBE_ANGLE" for i
  proof (cases "?g i = u")
    case False
    then have "?g i = f i" using g by blast
    then show ?thesis using k by (simp add: kept_at_def)
  qed (use u in auto)
  have link: "\<not> block_token (?g (i - 1))" if i: "0 \<le> i" "i \<le> n + 1" "i < token_array_cap" "?g i \<in> {LINK, IMAGE}" for i
  proof (cases "i \<le> n")
    case True
    then show ?thesis using i k low[of i] low[of "i - 1"] by (auto simp: kept_at_def)
  next
    case False
    then have "?g i = u" "i - 1 = n" using i by (simp_all add: set_token_def)
    then show ?thesis using l i(4) low[of n] by simp
  qed
  have table: "Add_token v \<in> set (es @ [Add_token u])" if v: "v \<in> {TABLE, TABLE_ROW}" and t: "u = v \<or> (\<exists>i. ?g i = v)" for v
  proof (cases "u = v")
    case False
    then obtain i where "?g i = v" using t by blast
    then have "f i = v" using False g[of i] by auto
    then show ?thesis using k v by (auto simp: kept_at_def)
  qed simp
  show ?thesis unfolding kept_at_def
    by (intro conjI allI ballI impI held[THEN conjunct1] held[THEN conjunct2] link table) (use u in auto)
qed

section \<open>The operations\<close>

lemma kept_ops [simp]:
  "upheld (buffer s p) = upheld p" "upheld (set_pending s p) = upheld p" "upheld (clear_root_pending p) = upheld p" "upheld (set_delim d p) = upheld p"
  by (simp_all add: upheld_def buffer_def set_pending_def clear_root_pending_def set_delim_def)

lemma kept_fields [simp]:
  "upheld (p\<lparr>mp_pending := s\<rparr>) = upheld p" "upheld (p\<lparr>text_buf := s\<rparr>) = upheld p" "upheld (p\<lparr>indent_len := n\<rparr>) = upheld p"
  "upheld (p\<lparr>blockquote_idx := i\<rparr>) = upheld p" "upheld (p\<lparr>fence_start := n\<rparr>) = upheld p" "upheld (p\<lparr>fence_end := n\<rparr>) = upheld p"
  "upheld (p\<lparr>hr_char := s\<rparr>) = upheld p" "upheld (p\<lparr>hr_chars := n\<rparr>) = upheld p" "upheld (p\<lparr>table_state := n\<rparr>) = upheld p"
  "upheld (p\<lparr>link_depth := n\<rparr>) = upheld p" "upheld (p\<lparr>atx_close := b\<rparr>) = upheld p" "upheld (p\<lparr>mp_indent := s\<rparr>) = upheld p"
  "upheld (p\<lparr>mp_spaces := f\<rparr>) = upheld p" "upheld (p\<lparr>prev_is_word := b\<rparr>) = upheld p"
  by (simp_all add: upheld_def)

lemma kept_emit [simp]: "upheld p \<Longrightarrow> upheld (emit x p)"
  by (rule iffD2[OF upheld_def]) (auto simp: upheld_def emit_def intro: kept_calls)

lemma kept_text [simp]: "upheld p \<Longrightarrow> upheld (add_text p)"
  by (simp add: add_text_def)

lemma kept_leaf [simp]: "upheld p \<Longrightarrow> upheld (emit_leaf t a p)"
  by (cases a) (simp_all add: emit_leaf_def Let_def)

lemma kept_set_token [simp]: "upheld p \<Longrightarrow> u \<notin> {MAYBE_ENTITY, MAYBE_ANGLE, TABLE, TABLE_ROW} \<Longrightarrow> upheld (p\<lparr>mp_token := u\<rparr>)"
  by (simp add: upheld_def kept_token)

lemma kept_hold [simp]: "upheld p \<Longrightarrow> \<not> block_token (top_token p) \<Longrightarrow> u \<in> {MAYBE_ENTITY, MAYBE_ANGLE} \<Longrightarrow> upheld (p\<lparr>mp_token := u\<rparr>)"
  by (simp add: upheld_def kept_held top_token_def)

lemma kept_resume [simp]: "upheld p \<Longrightarrow> upheld (resume_token p)"
  by (simp add: upheld_def resume_token_def top_token_def kept_close_at)

lemma kept_end [simp]: "upheld p \<Longrightarrow> upheld (end_token p)" "upheld p \<Longrightarrow> upheld (end_token_unresolved p)" "upheld p \<Longrightarrow> upheld (end_token_or_unresolved p)"
proof -
  show one: "upheld (end_token q)" if "upheld q" for q
    using that kept_calls[OF kept_close_at, of "mp_out q" "mp_tokens q" "mp_len q" _ "mp_len q - 1" "mp_out q @ [End_token]"]
    by (auto simp: upheld_def end_token_def emit_def)
  then show two: "upheld (end_token_unresolved q)" if "upheld q" for q using that by (simp add: end_token_unresolved_def)
  show "upheld p \<Longrightarrow> upheld (end_token_or_unresolved p)" using one two by (simp add: end_token_or_unresolved_def)
qed

lemma kept_close [simp]: "upheld p \<Longrightarrow> upheld (close_to n p)"
proof (induction n p rule: close_to.induct)
  case (1 n p)
  then show ?case by (subst close_to.simps) simp
qed

lemma kept_bulk [simp]: "upheld p \<Longrightarrow> upheld (end_tokens_to_len n p)" "upheld p \<Longrightarrow> upheld (fst (end_tokens_to_indent i p))"
  by (simp_all add: end_tokens_to_len_def end_tokens_to_indent_def Let_def split_beta)

lemma kept_push:
  assumes "upheld p" and "u \<notin> {MAYBE_ENTITY, MAYBE_ANGLE}" and l: "u \<in> {LINK, IMAGE} \<Longrightarrow> \<not> block_token (top_token p)"
  shows "upheld (fst (add_token u p))"
proof -
  let ?b = "top_token p \<in> {LIST_ORDERED, LIST_UNORDERED} \<and> u \<noteq> LIST_ITEM"
  let ?p = "if ?b then end_token p else p"
  have "\<not> block_token (top_token ?p)" if "u \<in> {LINK, IMAGE}"
    using l[OF that] that by (auto simp: block_token_def root_token_def)
  then have "kept_at (mp_out ?p @ [Add_token u]) (set_token (mp_len ?p + 1) u (mp_tokens ?p)) (mp_len ?p + 1) u"
    using assms(1,2) by (intro kept_push_at[where t = "mp_token ?p"]) (simp_all add: upheld_def[symmetric] top_token_def)
  moreover have "upheld ?p" using assms(1) by simp
  ultimately show ?thesis by (simp add: add_token_def Let_def upheld_def emit_def)
qed

lemma kept_plain [simp]: "upheld p \<Longrightarrow> u \<notin> {MAYBE_ENTITY, MAYBE_ANGLE, LINK, IMAGE} \<Longrightarrow> upheld (fst (add_token u p))"
  by (rule kept_push) auto

lemma kept_inline [simp]:
  "upheld p \<Longrightarrow> u \<notin> {MAYBE_ENTITY, MAYBE_ANGLE, LINK, IMAGE} \<Longrightarrow> upheld (add_inline_token u d p)"
  "upheld p \<Longrightarrow> u \<in> {LINK, IMAGE} \<Longrightarrow> \<not> block_token (top_token p) \<Longrightarrow> upheld (add_inline_token u d p)"
  by (auto simp: add_inline_cases intro: kept_push)

lemma kept_list [simp]:
  "upheld p \<Longrightarrow> upheld (add_list_item n p)"
  "upheld p \<Longrightarrow> u \<in> {LIST_ORDERED, LIST_UNORDERED} \<Longrightarrow> upheld (open_list u d p)"
  "upheld p \<Longrightarrow> u \<in> {LIST_ORDERED, LIST_UNORDERED} \<Longrightarrow> upheld (fst (continue_or_add_list u d p))"
proof -
  show "upheld p \<Longrightarrow> upheld (add_list_item n p)" by (simp add: add_list_item_def Let_def)
  show open_: "upheld (open_list u d q)" if "upheld q" "u \<in> {LIST_ORDERED, LIST_UNORDERED}" for q
    using that by (auto simp: open_list_def)
  show "upheld p \<Longrightarrow> u \<in> {LIST_ORDERED, LIST_UNORDERED} \<Longrightarrow> upheld (fst (continue_or_add_list u d p))"
    using open_ by (simp add: continue_or_add_list_def Let_def split_beta)
qed

section \<open>The handlers\<close>

definition keeps :: "md_action \<Rightarrow> bool" where
  "keeps a = upheld (state_of a)"

lemma keeps_simps [simp]: "keeps (Fall q) = upheld q" "keeps (Taken q) = upheld q" "keeps (Writes q ws) = upheld q"
  by (simp_all add: keeps_def)

lemma keeps_if: "(b \<Longrightarrow> keeps x) \<Longrightarrow> (\<not> b \<Longrightarrow> keeps y) \<Longrightarrow> keeps (if b then x else y)"
  by simp

lemma keeps_option: "keeps x \<Longrightarrow> (\<And>v. keeps (y v)) \<Longrightarrow> keeps (case u of None \<Rightarrow> x | Some v \<Rightarrow> y v)"
  by (cases u) simp_all

lemma keeps_list: "(\<And>q b. x = (q, b) \<Longrightarrow> keeps (f q b)) \<Longrightarrow> keeps (case x of (q, b) \<Rightarrow> f q b)"
  by (cases x) simp

lemma heading_level_kept [simp]: "heading_from_level n \<notin> {MAYBE_ENTITY, MAYBE_ANGLE, LINK, IMAGE}"
  by (simp add: heading_from_level_def)

lemma keeps_arms:
  assumes k: "upheld p"
  shows "keeps (root_newline p c)" "keeps (root_hash p c pwc)" "keeps (root_quote p c)" "keeps (root_bullet p pwc)"
    "keeps (root_fence p c pwc)" "keeps (root_plus p c)" "keeps (root_digit p c pwc)" "keeps (root_table p h d)"
proof -
  have list: "continue_or_add_list LIST_UNORDERED d p = (q, b) \<Longrightarrow> upheld q" "continue_or_add_list LIST_ORDERED d p = (q, b) \<Longrightarrow> upheld q" for q b d
    using kept_list(3)[OF k, of LIST_UNORDERED d] kept_list(3)[OF k, of LIST_ORDERED d] by auto
  show "keeps (root_newline p c)" unfolding root_newline_def Let_def by (intro keeps_if; simp add: k)
  show "keeps (root_hash p c pwc)" unfolding root_hash_def Let_def split_beta by (intro keeps_if; simp add: k heading_level_kept[simplified])
  show "keeps (root_quote p c)" unfolding root_quote_def Let_def case_ok by (intro keeps_if; simp add: k)
  show "keeps (root_bullet p pwc)" unfolding root_bullet_def
    by (intro keeps_if keeps_list) (auto simp: k dest: list split: list_open.split)
  show "keeps (root_fence p c pwc)" unfolding root_fence_eq Let_def by (intro keeps_if; simp add: k)
  show "keeps (root_plus p c)" unfolding root_plus_def
    by (intro keeps_if keeps_list) (auto simp: k dest: list split: list_open.split)
  show "keeps (root_digit p c pwc)" unfolding root_digit_def Let_def
    by (intro keeps_if keeps_list) (auto simp: k dest: list split: list_open.split)
  show "keeps (root_table p h d)" unfolding root_table_def Let_def by (intro keeps_if; simp add: k)
qed

lemma keeps_rule: "upheld p \<Longrightarrow> keeps (root_rule p c pwc)"
  unfolding root_rule_def Let_def by (intro keeps_if keeps_arms; simp)

lemma keeps_pipe: "upheld p \<Longrightarrow> keeps (root_pipe p c pwc)"
  unfolding root_pipe_def Let_def by (intro keeps_if keeps_arms) simp_all

lemma keeps_promote: "upheld p \<Longrightarrow> keeps (promote p pwc)"
  unfolding promote_def Let_def split_beta by simp

lemma keeps_root: "upheld p \<Longrightarrow> keeps (handle_root_context p c pwc)"
proof -
  assume k: "upheld p"
  have arm: "keeps (root_arm p f c pwc)" for f
    unfolding root_arm_def by (intro keeps_if keeps_arms keeps_rule keeps_pipe k) (simp_all add: k)
  show ?thesis
  proof (cases "mp_pending p")
    case (Cons f fs)
    show ?thesis
    proof (cases "root_arm p f c pwc")
      case (Fall q)
      then show ?thesis using arm[of f] keeps_promote[of q pwc] Cons by (simp add: handle_root_context_def)
    qed (use arm[of f] Cons in \<open>simp_all add: handle_root_context_def\<close>)
  qed (simp add: handle_root_context_def k)
qed

lemma keeps_blocks:
  assumes "upheld p"
  shows "keeps (handle_heading p c pwc)" "keeps (handle_table p c pwc)" "keeps (handle_table_row p c)"
    "keeps (handle_table_cell p c)" "keeps (handle_code_block p c pwc)" "keeps (handle_code_inline p c pwc)"
    "keeps (handle_code_fence p c pwc)" "keeps (handle_maybe_task p c pwc)"
  unfolding handle_heading_def handle_table_def handle_table_row_def handle_table_cell_def handle_code_block_def
    handle_code_inline_def handle_code_fence_def handle_maybe_task_def Let_def
  by (intro keeps_if; simp add: assms)+

lemma kept_top: "upheld p \<Longrightarrow> mp_token p \<in> {MAYBE_ENTITY, MAYBE_ANGLE} \<Longrightarrow> \<not> block_token (top_token p)"
  by (auto simp: upheld_def kept_at_def top_token_def)

lemma keeps_italic: "upheld p \<Longrightarrow> mp_token p = ITALIC_AST \<or> mp_token p = ITALIC_UND \<Longrightarrow> keeps (handle_italic p c pwc)"
  unfolding handle_italic_def Let_def by (intro keeps_if; auto)

lemma keeps_inlines:
  assumes k: "upheld p"
  shows "keeps (handle_strong p c)" "keeps (handle_strike p pwc)"
    "keeps (handle_maybe_eq_block p c)" "keeps (handle_equation_block p pwc)" "keeps (handle_equation_inline p c pwc)"
    "keeps (handle_maybe_url p c pwc)" "keeps (handle_link_or_image p c pwc)" "keeps (handle_raw_url p c pwc)"
    "keeps (handle_maybe_entity p c pwc)"
  unfolding handle_strong_def handle_strike_def handle_maybe_eq_block_def handle_equation_block_def
    handle_equation_inline_def handle_maybe_url_def handle_link_or_image_def handle_raw_url_def end_raw_url_def
    handle_maybe_entity_def Let_def case_ok split_beta
  by (intro keeps_if keeps_option; simp add: k split: option.split)+

lemma keeps_angle: "upheld p \<Longrightarrow> mp_token p = MAYBE_ANGLE \<Longrightarrow> keeps (handle_maybe_angle p c pwc)"
  unfolding handle_maybe_angle_def Let_def
  by (intro keeps_if keeps_option; simp add: kept_top split: option.split)

lemma keeps_token: "upheld p \<Longrightarrow> keeps (handle_token p c pwc)"
  unfolding handle_token_def
  by (cases "mp_token p"; simp only: md_token.case;
      (intro keeps_root keeps_blocks keeps_inlines keeps_italic keeps_angle)?; simp)

lemma keeps_common:
  assumes k: "upheld p" and t: "\<not> block_token (top_token p)"
  shows "keeps (handle_common p c pwc)"
proof -
  have rbr: "keeps (common_rbr p c pwc)"
    unfolding common_rbr_def by (intro keeps_if keeps_inlines; simp add: k)
  have pipe: "keeps (common_pipe p c)"
    unfolding common_pipe_def by (intro keeps_if keeps_blocks; simp add: k)
  have top: "top_token (r\<lparr>mp_pending := s\<rparr>) = top_token r" for r s by (simp add: top_token_def)
  have rest: "keeps (common_backslash p c pwc)" "keeps (common_newline p c)" "keeps (common_lt p pwc)"
    "keeps (common_amp p c pwc)" "keeps (common_tick p c pwc)" "keeps (common_tilde p c pwc)" "keeps (common_dollar p c pwc)"
    "keeps (common_lbr p c)" "keeps (common_bang p c)"
    unfolding common_backslash_def common_newline_def common_lt_def common_amp_def common_tick_def common_tilde_def
      common_dollar_def common_lbr_def common_bang_def Let_def
    by (intro keeps_if; simp add: k t top)+
  have emphasis: "keeps (common_emphasis p x c pwc)" for x
    unfolding common_emphasis_def Let_def by (intro keeps_if; simp add: k)
  show ?thesis unfolding handle_common_def
    by (cases "mp_pending p") (auto intro!: keeps_if rbr pipe rest emphasis simp: k)
qed

section \<open>One character\<close>

text \<open>A handler that leaves the character is not one of a block's.\<close>

definition fall_plain :: "md_action \<Rightarrow> bool" where
  "fall_plain a = (case a of Fall q \<Rightarrow> \<not> bare q \<and> \<not> block_token (mp_token q) | _ \<Rightarrow> True)"

lemma fall_plain_simps [simp]:
  "fall_plain (Taken q)" "fall_plain (Writes q ws)" "fall_plain (Fall q) = (\<not> bare q \<and> \<not> block_token (mp_token q))"
  by (simp_all add: fall_plain_def)

lemma fall_plain_if: "(b \<Longrightarrow> fall_plain x) \<Longrightarrow> (\<not> b \<Longrightarrow> fall_plain y) \<Longrightarrow> fall_plain (if b then x else y)"
  by simp

lemma fall_plain_option: "fall_plain x \<Longrightarrow> (\<And>v. fall_plain (y v)) \<Longrightarrow> fall_plain (case u of None \<Rightarrow> x | Some v \<Rightarrow> y v)"
  by (cases u) simp_all

lemma promote_takes: "promote p pwc \<noteq> Fall q"
  by (simp add: promote_def Let_def split_beta)

lemma root_takes: "handle_root_context p c pwc \<noteq> Fall q"
  using promote_takes by (auto simp: handle_root_context_def split: list.splits md_action.splits)

lemma plain_tokens:
  "mp_token r = t \<Longrightarrow> t \<notin> {LINK, IMAGE, MAYBE_URL, MAYBE_EQ_BLOCK} \<Longrightarrow> \<not> block_token t \<Longrightarrow> \<not> bare r \<and> \<not> block_token (mp_token r)"
  using bare_token by blast

lemma fall_inlines:
  assumes "\<not> block_token (mp_token p)" and "mp_token p \<notin> {LINK, IMAGE, MAYBE_URL, MAYBE_EQ_BLOCK}"
  shows "fall_plain (handle_heading p c pwc)" "fall_plain (handle_table_cell p c)" "fall_plain (handle_code_block p c pwc)"
    "fall_plain (handle_code_inline p c pwc)" "fall_plain (handle_code_fence p c pwc)" "fall_plain (handle_strong p c)"
    "fall_plain (handle_strike p pwc)" "fall_plain (handle_equation_block p pwc)" "fall_plain (handle_equation_inline p c pwc)"
    "fall_plain (handle_raw_url p c pwc)" "fall_plain (handle_italic p c pwc)" "fall_plain (Fall p)"
proof -
  have plain: "\<not> bare r" "\<not> block_token (mp_token r)" if "mp_token r = mp_token p" for r
    using plain_tokens[OF that assms(2,1)] by simp_all
  then have fall: "fall_plain (Fall r)" if "mp_token r = mp_token p" for r using that by simp
  show "fall_plain (handle_heading p c pwc)" "fall_plain (handle_table_cell p c)" "fall_plain (handle_code_block p c pwc)"
    "fall_plain (handle_code_inline p c pwc)" "fall_plain (handle_code_fence p c pwc)" "fall_plain (handle_strong p c)"
    "fall_plain (handle_strike p pwc)" "fall_plain (handle_equation_block p pwc)" "fall_plain (handle_equation_inline p c pwc)"
    "fall_plain (handle_raw_url p c pwc)" "fall_plain (handle_italic p c pwc)"
    unfolding handle_heading_def handle_table_cell_def handle_code_block_def handle_code_inline_def handle_code_fence_def
      handle_strong_def handle_strike_def handle_equation_block_def handle_equation_inline_def handle_raw_url_def end_raw_url_def
      handle_italic_def Let_def split_beta
    by (intro fall_plain_if; (rule fall_plain_simps fall)?; simp)+
  show "fall_plain (Fall p)" by (rule fall) simp
qed

lemma fall_held:
  "fall_plain (handle_maybe_eq_block p c)" "fall_plain (handle_maybe_url p c pwc)" "fall_plain (handle_maybe_task p c pwc)"
  "fall_plain (handle_maybe_angle p c pwc)" "fall_plain (handle_maybe_entity p c pwc)"
  unfolding handle_maybe_eq_block_def handle_maybe_url_def handle_maybe_task_def handle_maybe_angle_def handle_maybe_entity_def
    case_ok Let_def
  by (intro fall_plain_if fall_plain_option; simp split: option.split)+

lemma fall_link:
  assumes "mp_token p \<in> {LINK, IMAGE}"
  shows "fall_plain (handle_link_or_image p c pwc)"
proof -
  have "\<not> bare p" if "take 2 (mp_pending p) \<noteq> [c_rbr, c_lpar]"
    using assms that by (auto simp: bare_def held_label_def block_token_def root_token_def)
  moreover have "\<not> block_token (mp_token p)" using assms by (auto simp: block_token_def root_token_def)
  ultimately show ?thesis unfolding handle_link_or_image_def Let_def by (intro fall_plain_if; simp)
qed

lemma kept_fall:
  assumes "mp_token p \<notin> {TABLE, TABLE_ROW}" and f: "handle_token p c pwc = Fall q"
  shows "\<not> bare q \<and> \<not> block_token (mp_token q)"
proof -
  have root: "fall_plain (handle_root_context p c pwc)"
    using root_takes by (cases "handle_root_context p c pwc") auto
  have "fall_plain (handle_token p c pwc)"
    using assms(1) by (cases "mp_token p"; simp only: handle_token_def md_token.case;
      (intro root fall_inlines fall_held fall_link)?; simp add: block_token_def root_token_def)
  then show ?thesis using f by simp
qed

lemma keeps_write:
  assumes "upheld p" and "md_inv p" and "mp_token p \<noteq> NEWLINE" and "mp_token p \<notin> {TABLE, TABLE_ROW}"
  shows "keeps (write_char p c)"
proof -
  let ?pwc = "mp_pending p @ [c]"
  have first: "keeps (handle_token p c ?pwc)" by (rule keeps_token[OF assms(1)])
  show ?thesis
  proof (cases "handle_token p c ?pwc")
    case (Fall p1)
    have p1: "upheld p1" "open_stack p1" "current p1" "\<not> pseudo (mp_token p1)" "\<not> block_token (mp_token p1)"
      using first fallen(1-3)[OF assms(2,3) Fall] kept_fall[OF assms(4) Fall] Fall by simp_all
    have "\<not> block_token (top_token p1)" using plain_top[OF p1(2-4)] p1(5) by (auto simp: block_token_def root_token_def)
    then have second: "keeps (handle_common p1 c ?pwc)" by (rule keeps_common[OF p1(1)])
    then show ?thesis using Fall
      by (cases "handle_common p1 c ?pwc") (simp_all add: write_char_def Let_def shift_pending_def)
  qed (use first in \<open>simp_all add: write_char_def Let_def\<close>)
qed
end
