(* ===== verification/MdDry.thy ===== *)
theory MdDry
  imports MdKept
begin

text \<open>
  In the loop of a chunk, the states that draw at once hold no text, as long as no table is open and no push is
  refused: so the end of a chunk, which draws the text held, changes nothing for them.
\<close>

definition dry :: "md_parser \<Rightarrow> bool" where
  "dry p = (bare p \<longrightarrow> text_buf p = [])"

definition dries :: "md_action \<Rightarrow> bool" where
  "dries a = (case a of Taken q \<Rightarrow> dry q | _ \<Rightarrow> True)"

lemma dries_simps [simp]: "dries (Fall q)" "dries (Writes q ws)" "dries (Taken q) = dry q"
  by (simp_all add: dries_def)

lemma dryI: "text_buf p = [] \<Longrightarrow> dry p" "\<not> bare p \<Longrightarrow> dry p"
  by (simp_all add: dry_def)

lemma dries_text: "text_buf q = [] \<Longrightarrow> dries (Taken q)"
  by (simp add: dry_def)

lemma dries_if: "(b \<Longrightarrow> dries x) \<Longrightarrow> (\<not> b \<Longrightarrow> dries y) \<Longrightarrow> dries (if b then x else y)"
  by simp

lemma dries_option: "dries x \<Longrightarrow> (\<And>v. dries (y v)) \<Longrightarrow> dries (case u of None \<Rightarrow> x | Some v \<Rightarrow> y v)"
  by (cases u) simp_all

lemma dries_list: "(\<And>q b. x = (q, b) \<Longrightarrow> dries (f q b)) \<Longrightarrow> dries (case x of (q, b) \<Rightarrow> f q b)"
  by (cases x) simp

section \<open>Blocks\<close>

lemma room: "mp_len p \<le> 22 \<Longrightarrow> snd (add_token t p)"
  by (simp add: add_token_len(2) push_at_def)

lemma text_list: "text_buf p = [] \<Longrightarrow> text_buf (fst (continue_or_add_list t d p)) = []"
  by (simp add: continue_or_add_list_def Let_def split_beta)

lemma indent_room: "mp_len p \<le> 22 \<Longrightarrow> mp_len (fst (end_tokens_to_indent n p)) \<le> 22"
  by (rule order_trans[OF indent_stack(2)])

lemma dries_arms:
  assumes t: "text_buf p = []" and r: "mp_len p \<le> 22"
  shows "dries (root_newline p c)" "dries (root_hash p c pwc)" "dries (root_quote p c)" "dries (root_bullet p pwc)"
    "dries (root_fence p c pwc)" "dries (root_plus p c)" "dries (root_digit p c pwc)" "dries (root_table p h d)"
proof -
  have list: "continue_or_add_list u d p = (q, b) \<Longrightarrow> text_buf q = []" for q b u d
    using text_list[OF t, of u d] by simp
  have line: "snd (add_token u (fst (end_tokens_to_indent n p)))" for u n
    using room[OF indent_room[OF r]] .
  show "dries (root_newline p c)" unfolding root_newline_def Let_def
    by (intro dries_if dries_text; use t r in \<open>simp add: has_token_room_def token_array_cap_def\<close>)
  show "dries (root_hash p c pwc)" unfolding root_hash_def Let_def split_beta
    by (intro dries_if dries_text; simp add: line dry_def t)
  show "dries (root_quote p c)" unfolding root_quote_def Let_def case_ok
    by (intro dries_if dries_text; simp add: dry_def t)
  show "dries (root_bullet p pwc)" unfolding root_bullet_def
    by (intro dries_if dries_list) (auto split: list_open.split)
  show "dries (root_fence p c pwc)" unfolding root_fence_eq Let_def
    by (intro dries_if dries_text; simp add: line room[OF r] dry_def t)
  show "dries (root_plus p c)" unfolding root_plus_def
    by (intro dries_if dries_list) (auto dest: list intro!: dryI(1) split: list_open.split)
  show "dries (root_digit p c pwc)" unfolding root_digit_def Let_def
    by (intro dries_if dries_list) (auto simp: t dest: list intro!: dryI(1) split: list_open.split)
  show "dries (root_table p h d)" unfolding root_table_def Let_def by (intro dries_if; simp)
qed

lemma dries_rule: "text_buf p = [] \<Longrightarrow> dries (root_rule p c pwc)"
  unfolding root_rule_def Let_def root_bullet_def
  by (intro dries_if dries_list) (auto simp: dry_def split: list_open.split)

lemma dries_pipe: "text_buf p = [] \<Longrightarrow> mp_len p \<le> 22 \<Longrightarrow> dries (root_pipe p c pwc)"
  unfolding root_pipe_def Let_def by (intro dries_if dries_arms) (simp_all add: dry_def)

lemma dries_promote: "mp_len p \<le> 22 \<Longrightarrow> dries (promote p pwc)"
  using room[of p] by (simp add: promote_def Let_def split_beta)

text \<open>A line that starts no block leaves room for a paragraph.\<close>

definition slim :: "md_action \<Rightarrow> bool" where
  "slim a = (case a of Fall q \<Rightarrow> mp_len q \<le> 22 | _ \<Rightarrow> True)"

lemma slim_simps [simp]: "slim (Taken q)" "slim (Writes q ws)" "slim (Fall q) = (mp_len q \<le> 22)"
  by (simp_all add: slim_def)

lemma slim_if: "(b \<Longrightarrow> slim x) \<Longrightarrow> (\<not> b \<Longrightarrow> slim y) \<Longrightarrow> slim (if b then x else y)"
  by simp

lemma slim_list: "(\<And>q b. x = (q, b) \<Longrightarrow> slim (f q b)) \<Longrightarrow> slim (case x of (q, b) \<Rightarrow> f q b)"
  by (cases x) simp

lemma no_room_same: "continue_or_add_list t d p = (q, No_room) \<Longrightarrow> q = p"
  by (auto simp: continue_or_add_list_def Let_def split_beta split: if_splits)

lemma slim_bullet: "mp_len p \<le> 22 \<Longrightarrow> slim (root_bullet p pwc)"
  unfolding root_bullet_def by (intro slim_if slim_list) (auto dest: no_room_same split: list_open.split)

lemma slim_arms:
  assumes r: "mp_len p \<le> 22"
  shows "slim (root_newline p c)" "slim (root_hash p c pwc)" "slim (root_quote p c)" "slim (root_rule p c pwc)"
    "slim (root_fence p c pwc)" "slim (root_plus p c)" "slim (root_digit p c pwc)" "slim (root_pipe p c pwc)"
proof -
  have quote: "snd (add_token BLOCKQUOTE (end_tokens_to_len n p))" for n by (rule room) (use r in simp)
  show "slim (root_newline p c)" unfolding root_newline_def Let_def by (intro slim_if; simp)
  show "slim (root_hash p c pwc)" unfolding root_hash_def Let_def split_beta by (intro slim_if; simp add: r)
  show "slim (root_quote p c)" unfolding root_quote_def Let_def case_ok by (intro slim_if; simp add: quote)
  show "slim (root_rule p c pwc)" unfolding root_rule_def Let_def by (intro slim_if slim_bullet; simp add: r)
  show "slim (root_fence p c pwc)" unfolding root_fence_eq Let_def by (intro slim_if; simp add: r)
  show "slim (root_plus p c)" unfolding root_plus_def
    by (intro slim_if slim_list) (use r in \<open>auto dest: no_room_same split: list_open.split\<close>)
  show "slim (root_digit p c pwc)" unfolding root_digit_def Let_def
    by (intro slim_if slim_list) (use r in \<open>auto dest: no_room_same split: list_open.split\<close>)
  show "slim (root_pipe p c pwc)" unfolding root_pipe_def root_table_def Let_def by (intro slim_if; simp add: r min.coboundedI1)
qed

lemma dries_root: "text_buf p = [] \<Longrightarrow> mp_len p \<le> 22 \<Longrightarrow> dries (handle_root_context p c pwc)"
proof -
  assume p: "text_buf p = []" "mp_len p \<le> 22"
  have arm: "dries (root_arm p f c pwc)" for f
    unfolding root_arm_def by (intro dries_if dries_arms dries_rule dries_pipe p) (simp_all add: dry_def p)
  have slim: "slim (root_arm p f c pwc)" for f
    unfolding root_arm_def by (intro slim_if slim_arms p) (simp_all add: p)
  show ?thesis
  proof (cases "mp_pending p")
    case (Cons f fs)
    show ?thesis
    proof (cases "root_arm p f c pwc")
      case (Fall q)
      then show ?thesis using slim[of f] dries_promote[of q pwc] Cons by (simp add: handle_root_context_def)
    qed (use arm[of f] Cons in \<open>simp_all add: handle_root_context_def\<close>)
  qed (simp add: handle_root_context_def dry_def p)
qed

lemma dries_blocks:
  shows "is_heading_token (mp_token p) \<Longrightarrow> dries (handle_heading p c pwc)" "dries (handle_table_cell p c)"
    "mp_token p = CODE_BLOCK \<Longrightarrow> dries (handle_code_block p c pwc)" "mp_token p = CODE_FENCE \<Longrightarrow> dries (handle_code_fence p c pwc)"
    "mp_token p = CODE_INLINE \<Longrightarrow> dries (handle_code_inline p c pwc)" "text_buf p = [] \<Longrightarrow> dries (handle_maybe_task p c pwc)"
proof -
  have plain: "dry r" if "mp_token r \<in> {CODE_BLOCK, CODE_FENCE, CODE_INLINE, NEWLINE}" for r
    by (rule dryI(2), rule bare_other) (use that in \<open>auto simp: block_token_def root_token_def\<close>)
  have heading: "dry r" if "is_heading_token (mp_token p)" "mp_token r = mp_token p" for r
    using bare_token[of "mp_token p" r] heading_plain[OF that(1)] that(2) by (simp add: dry_def)
  show "is_heading_token (mp_token p) \<Longrightarrow> dries (handle_heading p c pwc)"
    unfolding handle_heading_def by (intro dries_if; simp add: heading)
  show "dries (handle_table_cell p c)" by (simp add: handle_table_cell_def)
  show "mp_token p = CODE_BLOCK \<Longrightarrow> dries (handle_code_block p c pwc)"
    unfolding handle_code_block_def by (intro dries_if; simp only: dries_simps; ((rule plain, simp; fail) | (rule dryI(1), simp; fail) | (rule plain, simp)))
  show "mp_token p = CODE_FENCE \<Longrightarrow> dries (handle_code_fence p c pwc)"
    unfolding handle_code_fence_def by (intro dries_if; simp only: dries_simps; ((rule plain, simp; fail) | (rule dryI(1), simp; fail) | (rule plain, simp)))
  show "mp_token p = CODE_INLINE \<Longrightarrow> dries (handle_code_inline p c pwc)"
    unfolding handle_code_inline_def by (intro dries_if; simp only: dries_simps; ((rule plain, simp; fail) | (rule dryI(1), simp; fail) | (rule plain, simp)))
  show "text_buf p = [] \<Longrightarrow> dries (handle_maybe_task p c pwc)"
    unfolding handle_maybe_task_def Let_def by (intro dries_if; simp add: dry_def)
qed

section \<open>Inline\<close>

lemma inline_text: "mp_len p \<le> 22 \<Longrightarrow> text_buf p = [] \<Longrightarrow> text_buf (add_inline_token t d p) = []"
  using room[of p t] by (simp add: add_inline_cases set_delim_def)

lemma inline_token: "mp_len p \<le> 22 \<Longrightarrow> mp_token (add_inline_token t d p) = t"
  using room[of p t] by (simp add: add_inline_cases add_token_len(4))

lemma dries_emphasis:
  assumes r: "mp_len p \<le> 22"
  shows "mp_token p \<in> {STRONG_AST, STRONG_UND} \<Longrightarrow> dries (handle_strong p c)"
    "mp_token p \<in> {ITALIC_AST, ITALIC_UND} \<Longrightarrow> dries (handle_italic p c pwc)"
    "dries (handle_strike p pwc)" "dries (handle_equation_block p pwc)" "dries (handle_equation_inline p c pwc)"
    "mp_token p = RAW_URL \<Longrightarrow> dries (handle_raw_url p c pwc)" "dries (handle_maybe_eq_block p c)"
proof -
  have plain: "dry s" if "mp_token s \<in> {ITALIC_AST, ITALIC_UND, RAW_URL}" for s
    by (rule dryI(2), rule bare_other) (use that in \<open>auto simp: block_token_def root_token_def\<close>)
  show "mp_token p \<in> {STRONG_AST, STRONG_UND} \<Longrightarrow> dries (handle_strong p c)"
    unfolding handle_strong_def Let_def by (intro dries_if dries_text; simp add: inline_text r)
  show "mp_token p \<in> {ITALIC_AST, ITALIC_UND} \<Longrightarrow> dries (handle_italic p c pwc)"
    unfolding handle_italic_def Let_def
    by (intro dries_if; (simp only: dries_simps)?; ((rule plain, auto; fail) | (rule dryI(1), use r in \<open>simp add: inline_text\<close>; fail)))
  show "dries (handle_strike p pwc)" "dries (handle_equation_block p pwc)" "dries (handle_equation_inline p c pwc)"
    unfolding handle_strike_def handle_equation_block_def handle_equation_inline_def by (intro dries_if dries_text; simp)+
  show "mp_token p = RAW_URL \<Longrightarrow> dries (handle_raw_url p c pwc)"
    unfolding handle_raw_url_def end_raw_url_def Let_def split_beta by (intro dries_if; simp add: plain)
  show "dries (handle_maybe_eq_block p c)"
    unfolding handle_maybe_eq_block_def Let_def case_ok by (intro dries_if dries_text; simp add: room r)
qed

lemma dries_url:
  assumes r: "mp_len p \<le> 22" and t: "mp_token p = MAYBE_URL" and d: "dry p"
  shows "dries (handle_maybe_url p c pwc)"
proof -
  have raw: "dry s" if "mp_token s = RAW_URL" for s
    by (rule dryI(2), rule bare_other) (use that in \<open>simp_all add: block_token_def root_token_def\<close>)
  have keep: "dry (set_pending w p)" for w
    using d t by (simp add: dry_def bare_def held_label_def)
  show ?thesis unfolding handle_maybe_url_def case_ok
    by (intro dries_if; simp add: keep room r; intro raw; simp add: add_token_len(4) room r)
qed

lemma link_parent:
  assumes "upheld p" and "open_stack p" and "current p" and "mp_token p \<in> {LINK, IMAGE}"
  shows "\<not> block_token (mp_tokens p (mp_len p - 1))"
proof (cases "0 \<le> mp_len p")
  case True
  have "mp_len p < token_array_cap" using assms(2) by (simp add: open_stack_def stack_ok_def token_array_cap_def)
  moreover have "mp_tokens p (mp_len p) \<in> {LINK, IMAGE}"
    using assms(3,4) True by (auto simp: current_def top_token_def pseudo_def)
  ultimately show ?thesis using assms(1) True by (simp add: upheld_def kept_at_def)
next
  case False
  then have "mp_tokens p (mp_len p - 1) = NO_TOKEN" using assms(2) by (simp add: open_stack_def stack_ok_def)
  then show ?thesis by (simp add: block_token_def root_token_def)
qed

lemma dry_stack:
  assumes "open_stack p" and "\<not> block_token (mp_tokens p i)" and "mp_token s = mp_tokens p i" and "length (mp_pending s) \<le> 1"
  shows "dry s"
proof -
  have "\<not> pseudo (mp_tokens p i)" using assms(1) by (simp add: open_stack_def stack_ok_def)
  then have "\<not> bare s" using assms(2,3) bare_short[OF assms(4)] by (auto simp: bare_def pseudo_def)
  then show ?thesis by (rule dryI)
qed

lemma dries_link:
  assumes k: "upheld p" "open_stack p" "current p" and t: "mp_token p \<in> {LINK, IMAGE}" and d: "dry p"
  shows "dries (handle_link_or_image p c pwc)"
proof -
  have held: "text_buf p = []" if "take 2 (mp_pending p) = [c_rbr, c_lpar]"
    using d t that by (auto simp: dry_def bare_def held_label_def)
  have "dry s" if "mp_token s = mp_token p" "length (mp_pending s) \<le> 1" for s
    using that t bare_short[of s] by (auto intro!: dryI(2) simp: bare_def block_token_def root_token_def)
  note short = this
  have up: "dry (set_pending [c] (buffer [c_rbr] (end_token_unresolved (add_text p))))"
    by (rule dry_stack[OF k(2) link_parent[OF k t]]) simp_all
  show ?thesis unfolding handle_link_or_image_def Let_def
    by (intro dries_if; simp only: dries_simps; ((rule up) | (rule short, simp, simp; fail)
      | (rule dryI(1), simp add: held split: option.split; fail)))
qed

lemma dries_angle: "text_buf p = [] \<Longrightarrow> mp_len p \<le> 22 \<Longrightarrow> dries (handle_maybe_angle p c pwc)"
  unfolding handle_maybe_angle_def Let_def
  by (intro dries_if dries_option; simp add: has_token_room_def token_array_cap_def dry_def split: option.split)

lemma dries_entity:
  assumes k: "upheld p" "open_stack p" and t: "mp_token p = MAYBE_ENTITY" and d: "text_buf p = []"
  shows "dries (handle_maybe_entity p c pwc)"
proof -
  have up: "dry (set_pending [] (buffer w (resume_token p)))" for w
    using kept_top[OF k(1)] t by (intro dry_stack[OF k(2), of "mp_len p"]) (simp_all add: top_token_def)
  show ?thesis unfolding handle_maybe_entity_def by (intro dries_if; simp add: up) (simp add: dry_def d)
qed

section \<open>One character\<close>

lemma dries_token:
  assumes d: "dry p" and k: "upheld p" and i: "md_inv p" "mp_token p \<noteq> NEWLINE" and t: "mp_token p \<notin> {TABLE, TABLE_ROW}"
    and r: "mp_len p \<le> 22"
  shows "dries (handle_token p c pwc)"
proof (cases "mp_token p = CODE_FENCE")
  case True
  then show ?thesis using dries_blocks(4) by (simp add: handle_token_def)
next
  case False
  then have p: "open_stack p" "current p" using inv_open[OF i(1)] i(2) by simp_all
  have none: "text_buf p = []" if "block_token (mp_token p)" using d that by (simp add: dry_def bare_def)
  note rules = dries_root[OF none r] dries_blocks(1-5) dries_blocks(6)[OF none] dries_emphasis[OF r] dries_url[OF r _ d]
    dries_link[OF k p _ d] dries_angle[OF none r] dries_entity[OF k p(1) _ none]
  show ?thesis
    by (cases "mp_token p"; simp only: handle_token_def md_token.case; (rule rules dries_simps(1))?)
      (use False i t in \<open>simp_all add: block_token_def root_token_def is_heading_token_def\<close>)
qed

lemma dries_common:
  assumes b: "\<not> bare p" and n: "\<not> pseudo (mp_token p)" and p: "upheld p" "open_stack p" "current p" and r: "mp_len p \<le> 22"
    and w: "pwc = mp_pending p @ [c] \<or> mp_pending p = []"
  shows "dries (handle_common p c pwc) \<and> fall_plain (handle_common p c pwc)"
proof -
  have self: "fall_plain (Fall p)" "fall_plain (Fall (p\<lparr>fence_start := i\<rparr>))" for i
    using b by (simp_all add: bare_def held_label_def top_token_def)
  let ?i = "enclosing_idx p {LINK, IMAGE}"
  let ?l = "end_tokens_to_len ?i (add_text p)"
  let ?j = "enclosing_idx p {TABLE_CELL}"
  have link: "upheld ?l" "open_stack ?l" "current ?l" "mp_token ?l \<in> {LINK, IMAGE}" "dry ?l" if "?i \<noteq> - 1"
    using p closed_token[OF p(2,3) n that] by (simp_all add: dry_def)
  have rbr: "dries (common_rbr p c pwc)" "fall_plain (common_rbr p c pwc)"
    unfolding common_rbr_def by (intro dries_if dries_link link dries_simps fall_plain_if fall_link self; simp)+
  have pipe: "dries (common_pipe p c)" "fall_plain (common_pipe p c)"
    unfolding common_pipe_def handle_table_cell_def by (intro dries_if fall_plain_if self; simp)+
  have inline: "text_buf (add_inline_token t d (add_text q)) = []" if "mp_len q \<le> 22" for t d q
    using that by (simp add: inline_text)
  have top: "\<not> block_token (top_token p)" using plain_top[OF p(2,3) n] b by (auto simp: bare_def block_token_def root_token_def)
  have weak: "dry s" if "mp_token s = mp_token p" "\<not> held_label s" for s
    using that b n by (auto intro!: dryI(2) simp: bare_def pseudo_def)
  have short: "dries (Taken s)" if "mp_token s = mp_token p" "length (mp_pending s) \<le> 1" for s
    using weak[OF that(1) bare_short[OF that(2)]] by simp
  have grow: "dries (Taken (set_pending pwc s))" if "mp_token s = mp_token p" "mp_pending p = f # fs" "f \<noteq> c_rbr" for s f fs
  proof -
    have "\<not> held_label (set_pending pwc s)" using w that(2,3) by (simp add: held_label_def)
    then show ?thesis using weak[of "set_pending pwc s"] that(1) by simp
  qed
  have eq: "dries (Taken (p\<lparr>mp_token := MAYBE_EQ_BLOCK, mp_pending := s\<rparr>))" for s
    using top by (auto intro!: dryI(2) simp: bare_def held_label_def top_token_def block_token_def root_token_def)
  have quiet: "dries (common_backslash p c pwc)" "dries (common_newline p c)" "dries (common_lt p pwc)" "dries (common_amp p c pwc)"
    "dries (common_dollar p c pwc)" "dries (common_lbr p c)" "dries (common_bang p c)"
    unfolding common_backslash_def common_newline_def common_lt_def common_amp_def common_dollar_def common_lbr_def common_bang_def
    by (intro dries_if eq dries_simps; ((rule dries_text, simp add: inline r; fail) | (rule short; simp)))+
  have code: "dry s" if "mp_token s \<in> {CODE_INLINE, STRONG_AST, STRONG_UND}" for s
    by (rule dryI(2), rule bare_other) (use that in \<open>auto simp: block_token_def root_token_def\<close>)
  have tick: "dries (common_tick p c pwc)" if "mp_pending p = c_tick # fs" for fs
    unfolding common_tick_def Let_def
    by (intro dries_if dries_simps grow[OF _ that]; ((simp; fail) | (simp; intro conjI impI; rule code; simp add: inline_token r)))
  have emphasis: "dries (common_emphasis p f c pwc)" if "mp_pending p = f # fs" "f \<noteq> c_rbr" for f fs
  proof -
    have two: "dries (Taken (set_pending [] (add_inline_token t d (add_inline_token u e (add_text p)))))"
      if "t \<in> {ITALIC_AST, ITALIC_UND}" "u \<in> {STRONG_AST, STRONG_UND}" for t u d e
    proof -
      let ?q = "add_inline_token u e (add_text p)"
      have q: "mp_token ?q = u" "text_buf ?q = []" using r by (simp_all add: inline_token inline_text)
      have len: "mp_len ?q \<le> 23"
        using room[of "add_text p" u] r by (simp add: add_inline_cases add_token_len(1) push_at_def)
      show ?thesis
      proof (cases "snd (add_token t ?q)")
        case True
        then show ?thesis using q by (simp add: add_inline_cases set_delim_def dry_def)
      next
        case False
        have "mp_token (set_pending [] (add_inline_token t d ?q)) = u"
          using add_token_len(5)[OF False len] False q by (simp add: add_inline_cases[of t])
        then show ?thesis using code that by simp
      qed
    qed
    show ?thesis unfolding common_emphasis_def Let_def
      by (intro dries_if dries_simps grow[OF _ that] two; ((rule dries_text, simp add: inline r; fail) | simp))
  qed
  have tilde: "dries (common_tilde p c pwc)" if "mp_pending p = f # fs" "f \<noteq> c_rbr" for f fs
    unfolding common_tilde_def
    by (intro dries_if dries_simps grow[OF _ that]; ((rule dries_text, simp add: inline r; fail) | simp))
  have falls: "fall_plain (common_backslash p c pwc)" "fall_plain (common_newline p c)" "fall_plain (common_lt p pwc)" "fall_plain (common_amp p c pwc)"
    "fall_plain (common_dollar p c pwc)" "fall_plain (common_lbr p c)" "fall_plain (common_bang p c)" "fall_plain (common_tick p c pwc)"
    "fall_plain (common_emphasis p x c pwc)" "fall_plain (common_tilde p c pwc)" for x
    unfolding common_backslash_def common_newline_def common_lt_def common_amp_def common_dollar_def common_lbr_def common_bang_def
      common_tick_def common_emphasis_def common_tilde_def Let_def
    by (intro fall_plain_if self fall_plain_simps; simp)+
  show ?thesis
  proof (cases "mp_pending p")
    case Nil
    then show ?thesis using self by (simp add: handle_common_def)
  next
    case (Cons f fs)
    have "dries (Taken p)" using b by (simp add: dry_def)
    then have "dries (handle_common p c pwc)" unfolding handle_common_def Cons list.case
      by (intro dries_if quiet tick emphasis[OF Cons] tilde[OF Cons] rbr pipe dries_simps) (use Cons in auto)
    moreover have "fall_plain (handle_common p c pwc)" unfolding handle_common_def Cons list.case
      by (intro fall_plain_if falls rbr pipe self fall_plain_simps)
    ultimately show ?thesis by simp
  qed
qed

text \<open>The stack a handler falls with is no deeper.\<close>

definition still :: "md_parser \<Rightarrow> md_action \<Rightarrow> bool" where
  "still p a = (case a of Fall q \<Rightarrow> mp_len q = mp_len p | _ \<Rightarrow> True)"

lemma still_simps [simp]: "still p (Taken q)" "still p (Writes q ws)" "still p (Fall q) = (mp_len q = mp_len p)"
  by (simp_all add: still_def)

lemma still_if: "(b \<Longrightarrow> still p x) \<Longrightarrow> (\<not> b \<Longrightarrow> still p y) \<Longrightarrow> still p (if b then x else y)"
  by simp

lemma still_option: "still p x \<Longrightarrow> (\<And>v. still p (y v)) \<Longrightarrow> still p (case u of None \<Rightarrow> x | Some v \<Rightarrow> y v)"
  by (cases u) simp_all

lemma still_handlers:
  "still p (handle_heading p c pwc)" "still p (handle_table_cell p c)" "still p (handle_code_block p c pwc)"
  "still p (handle_code_inline p c pwc)" "still p (handle_code_fence p c pwc)" "still p (handle_strong p c)"
  "still p (handle_strike p pwc)" "still p (handle_equation_block p pwc)" "still p (handle_equation_inline p c pwc)"
  "still p (handle_raw_url p c pwc)" "still p (handle_italic p c pwc)" "still p (handle_link_or_image p c pwc)"
  "still p (handle_maybe_eq_block p c)" "still p (handle_maybe_url p c pwc)" "still p (handle_maybe_task p c pwc)"
  "still p (handle_maybe_angle p c pwc)" "still p (handle_maybe_entity p c pwc)"
  unfolding handle_heading_def handle_table_cell_def handle_code_block_def handle_code_inline_def handle_code_fence_def
    handle_strong_def handle_strike_def handle_equation_block_def handle_equation_inline_def handle_raw_url_def end_raw_url_def
    handle_italic_def handle_link_or_image_def handle_maybe_eq_block_def handle_maybe_url_def handle_maybe_task_def
    handle_maybe_angle_def handle_maybe_entity_def case_ok Let_def split_beta
  by (intro still_if still_option; simp split: option.split)+

lemma fall_depth:
  assumes f: "handle_token p c pwc = Fall q" and "mp_token p \<notin> {TABLE, TABLE_ROW}"
  shows "mp_len q = mp_len p"
proof -
  have root: "still p (handle_root_context p c pwc)"
    using root_takes by (cases "handle_root_context p c pwc") auto
  have "still p (handle_token p c pwc)"
    using assms(2) by (cases "mp_token p"; simp only: handle_token_def md_token.case; (intro root still_handlers)?; simp)
  then show ?thesis using f by simp
qed

lemma dries_write:
  assumes d: "dry p" and k: "upheld p" and i: "md_inv p" "mp_token p \<noteq> NEWLINE" and t: "mp_token p \<notin> {TABLE, TABLE_ROW}"
    and r: "mp_len p \<le> 22"
  shows "dries (write_char p c)"
proof -
  let ?pwc = "mp_pending p @ [c]"
  have first: "dries (handle_token p c ?pwc)" by (rule dries_token[OF assms])
  show ?thesis
  proof (cases "handle_token p c ?pwc")
    case (Fall p1)
    note open_ = fallen[OF i Fall]
    have p1: "\<not> bare p1" "upheld p1" "mp_len p1 \<le> 22"
      using kept_fall[OF t Fall] keeps_token[OF k, of c ?pwc] fall_depth[OF Fall t] Fall r by simp_all
    have second: "dries (handle_common p1 c ?pwc)" "fall_plain (handle_common p1 c ?pwc)"
      using dries_common[OF p1(1) open_(3) p1(2) open_(1,2) p1(3) open_(4)] by simp_all
    show ?thesis
    proof (cases "handle_common p1 c ?pwc")
      case f2: (Fall p2)
      then have "\<not> bare (shift_pending p2 c)"
        using second(2) fallen_again[OF i Fall f2] by (intro shift_plain) simp_all
      then show ?thesis using Fall f2 by (simp add: write_char_def Let_def dry_def)
    qed (use Fall second(1) in \<open>simp_all add: write_char_def Let_def\<close>)
  qed (use first in \<open>simp_all add: write_char_def Let_def\<close>)
qed
end
