(* ===== verification/MdChunks.thy ===== *)
theory MdChunks
  imports MdDry
begin

text \<open>
  Where the chunks end does not show. The machine that writes the chunks one after the other is followed by the
  one that writes the whole text: each step of the first is a step of the second, but for the end of a chunk,
  where only the first draws the text it holds.
\<close>

section \<open>A step on the frame on top\<close>

definition go :: "md_parser \<Rightarrow> nat \<Rightarrow> md_parser \<times> utext list" where
  "go p c = (case write_char p c of Fall q \<Rightarrow> (q, []) | Taken q \<Rightarrow> (q, []) | Writes q ws \<Rightarrow> (q, ws))"

lemma run_body_go: "run_body p c cs fs = (fst (go p c), map Loop (snd (go p c)) @ Loop cs # fs)"
  by (simp add: run_body_def go_def split: md_action.split)

definition columns :: "md_parser \<Rightarrow> int" where
  "columns p = snd (end_tokens_to_indent (int (indent_len p)) p)"

text \<open>The state after the step, and the frames put in place of the one on top.\<close>

definition top_step :: "md_parser \<Rightarrow> md_frame \<Rightarrow> md_parser \<times> md_frame list" where
  "top_step p f = (case f of
       Body c cs \<Rightarrow> (fst (go p c), map Loop (snd (go p c)) @ [Loop cs])
     | Loop [] \<Rightarrow> (add_text p, [])
     | Loop (c # cs) \<Rightarrow>
         if mp_token p \<noteq> NEWLINE then (fst (go p c), map Loop (snd (go p c)) @ [Loop cs])
         else if c = c_space then (p\<lparr>indent_len := indent_len p + 1\<rparr>, [Loop cs])
         else if c = c_tab then (p\<lparr>indent_len := indent_len p + 4\<rparr>, [Loop cs])
         else if 0 < columns p then (line_start p, [Loop (replicate (nat (columns p)) c_space), Body c cs])
         else (fst (go (line_start p) c), map Loop (snd (go (line_start p) c)) @ [Loop cs]))"

lemma step_top: "md_step (p, f # fs) = (fst (top_step p f), snd (top_step p f) @ fs)"
proof (cases f)
  case (Loop w)
  then show ?thesis
    by (cases w) (simp_all add: top_step_def run_body_go step_newline columns_def split_beta Let_def line_start_def)
qed (simp add: top_step_def run_body_go)

fun extend :: "utext \<Rightarrow> md_frame \<Rightarrow> md_frame" where
  "extend ys (Loop cs) = Loop (cs @ ys)"
| "extend ys (Body c cs) = Body c (cs @ ys)"

lemma top_more:
  assumes "f \<noteq> Loop []"
  obtains N g where "snd (top_step p f) = N @ [g]" "\<And>ys. top_step p (extend ys f) = (fst (top_step p f), N @ [extend ys g])"
proof (cases f)
  case (Body c cs)
  show ?thesis by (rule that[of "map Loop (snd (go p c))" "Loop cs"]) (simp_all add: Body top_step_def)
next
  case (Loop w)
  then obtain c cs where w: "f = Loop (c # cs)" using assms by (cases w) auto
  show ?thesis
  proof (cases "mp_token p \<noteq> NEWLINE")
    case True
    show ?thesis by (rule that[of "map Loop (snd (go p c))" "Loop cs"]) (simp_all add: w True top_step_def)
  next
    case nl: False
    show ?thesis
    proof (cases "c = c_space \<or> c = c_tab")
      case True
      then show ?thesis using nl by (intro that[of "[]" "Loop cs"]) (auto simp: w top_step_def)
    next
      case False
      show ?thesis
      proof (cases "0 < columns p")
        case True
        then show ?thesis using nl False
          by (intro that[of "[Loop (replicate (nat (columns p)) c_space)]" "Body c cs"]) (simp_all add: w top_step_def)
      next
        case flat: False
        then show ?thesis using nl False
          by (intro that[of "map Loop (snd (go (line_start p) c))" "Loop cs"]) (simp_all add: w top_step_def)
      qed
    qed
  qed
qed

section \<open>Both machines take it alike\<close>

definition ready :: "md_parser \<Rightarrow> md_frame \<Rightarrow> bool" where
  "ready p f = (md_inv p \<and> (case f of Body c cs \<Rightarrow> mp_token p \<noteq> NEWLINE | Loop w \<Rightarrow> True))"

lemma machine_ready: "machine_ok (p, f # fs) \<Longrightarrow> ready p f"
  by (cases f) (auto simp: ready_def machine_ok_def calm_def)

lemma go_fit:
  assumes "fit p q" and "md_inv p" and "mp_token p \<noteq> NEWLINE"
  shows "fit (fst (go p c)) (fst (go q c)) \<and> snd (go q c) = snd (go p c)"
  using fit_write[OF assms, of c] by (cases "write_char p c"; cases "write_char q c") (simp_all add: fit_action_def go_def)

lemma text_twice: "add_text (add_text p) = add_text p"
  by (simp add: add_text_def emit_def)

lemma indent_text: "end_tokens_to_indent n (add_text p) = end_tokens_to_indent n p"
  by (simp add: end_tokens_to_indent_def text_twice Let_def)

lemma line_fit:
  assumes s: "same p q"
  shows "fit (line_start p) (line_start q) \<and> columns q = columns p"
proof -
  let ?n = "int (indent_len p)"
  note par = par_flush[OF s]
  have line: "line_start r = resume_token ((fst (end_tokens_to_indent ?n (add_text r)))\<lparr>indent_len := 0\<rparr>)" if "same p r" for r
    using same_fields(8)[OF that] by (simp add: line_start_def indent_text)
  have "par (line_start p) (line_start q)"
    unfolding line[OF s] line[OF same_refl]
    by (rule par_op[OF par, where f = "\<lambda>r. resume_token ((fst (end_tokens_to_indent ?n r))\<lparr>indent_len := 0\<rparr>)"]) simp
  moreover have "columns q = columns p"
  proof -
    let ?h = "\<lambda>r. snd (end_tokens_to_indent ?n r)"
    let ?r = "(add_text p)\<lparr>mp_out := []\<rparr>"
    have "?h (add_text p) = ?h ?r" using pre_indent[of ?n "mp_out (add_text p)" ?r] by (simp only: pre_whole snd_conv)
    moreover have "?h (add_text q) = ?h ?r"
      using pre_indent[of ?n "mp_out (add_text q)" "(add_text q)\<lparr>mp_out := []\<rparr>"] par by (simp only: pre_whole snd_conv par_def)
    ultimately show ?thesis using same_fields(8)[OF s] by (simp add: columns_def indent_text)
  qed
  ultimately show ?thesis by (simp add: fit_par)
qed

lemma top_fit:
  assumes f: "fit p q" and r: "ready p f"
  shows "fit (fst (top_step p f)) (fst (top_step q f)) \<and> snd (top_step q f) = snd (top_step p f)"
proof -
  have s: "same p q" and i: "md_inv p" using f r by (simp_all add: fit_def ready_def)
  have t: "mp_token q = mp_token p" "indent_len q = indent_len p" using same_fields[OF s] by simp_all
  show ?thesis
  proof (cases f)
    case (Body c cs)
    then show ?thesis using go_fit[OF assms(1) i, of c] r by (simp add: top_step_def ready_def)
  next
    case (Loop w)
    show ?thesis
    proof (cases w)
      case Nil
      then show ?thesis using Loop fit_par[OF par_flush[OF s]] by (simp add: top_step_def)
    next
      case (Cons c cs)
      have indent: "fit (p\<lparr>indent_len := n\<rparr>) (q\<lparr>indent_len := n\<rparr>)" if "mp_token p = NEWLINE" for n
        by (intro fit_same same_ops s bare_other) (simp_all add: that block_token_def root_token_def)
      have start: "mp_token p = NEWLINE \<Longrightarrow> md_inv (line_start p)" "mp_token p = NEWLINE \<Longrightarrow> mp_token (line_start p) \<noteq> NEWLINE"
        using line_start_facts(1,2)[OF i] by simp_all
      show ?thesis
        using go_fit[OF assms(1) i, of c] indent line_fit[OF s] go_fit[of "line_start p" "line_start q" c] start
        by (simp add: Loop Cons top_step_def t)
    qed
  qed
qed

section \<open>What holds along the way\<close>

definition clear :: "md_parser \<Rightarrow> bool" where
  "clear p = (mp_len p \<le> 22 \<and> mp_token p \<notin> {TABLE, TABLE_ROW} \<and> (\<forall>i. mp_tokens p i \<notin> {TABLE, TABLE_ROW}))"

lemma clear_line: "clear p \<Longrightarrow> clear (line_start p)"
proof -
  assume "clear p"
  moreover have "mp_len (line_start p) \<le> mp_len p" "mp_tokens (line_start p) = mp_tokens p" "mp_token (line_start p) = mp_tokens p (mp_len (line_start p))"
    by (simp_all add: line_start_def resume_token_def top_token_def)
  ultimately show ?thesis by (simp add: clear_def)
qed

lemma kept_line: "upheld p \<Longrightarrow> upheld (line_start p)"
  by (simp add: line_start_def)

lemma kept_go:
  assumes "upheld p" and "clear p" and "md_inv p" and "mp_token p \<noteq> NEWLINE"
  shows "upheld (fst (go p c))"
  using keeps_write[OF assms(1,3,4), of c] assms(2) by (cases "write_char p c") (simp_all add: go_def clear_def)

lemma kept_step:
  assumes k: "upheld p" and c: "clear p" and r: "ready p f"
  shows "upheld (fst (top_step p f))"
proof (cases f)
  case (Body x cs)
  then show ?thesis using kept_go[OF k c, of x] r by (simp add: top_step_def ready_def)
next
  case (Loop w)
  have i: "md_inv p" using r by (simp add: ready_def)
  show ?thesis
  proof (cases w)
    case (Cons x cs)
    show ?thesis using kept_go[OF k c i, of x] kept_go[OF kept_line[OF k] clear_line[OF c], of x] line_start_facts(1,2)[OF i] kept_line[OF k] k
      by (simp add: Loop Cons top_step_def)
  qed (simp add: Loop top_step_def k)
qed

definition speaks :: "md_action \<Rightarrow> bool" where
  "speaks a = (case a of Writes q ws \<Rightarrow> ws \<noteq> [] | _ \<Rightarrow> True)"

lemma speaks_simps [simp]: "speaks (Fall q)" "speaks (Taken q)" "speaks (Writes q ws) = (ws \<noteq> [])"
  by (simp_all add: speaks_def)

lemma speaks_if: "(b \<Longrightarrow> speaks x) \<Longrightarrow> (\<not> b \<Longrightarrow> speaks y) \<Longrightarrow> speaks (if b then x else y)"
  by simp

lemma speaks_option: "speaks x \<Longrightarrow> (\<And>v. speaks (y v)) \<Longrightarrow> speaks (case u of None \<Rightarrow> x | Some v \<Rightarrow> y v)"
  by (cases u) simp_all

lemma speaks_list: "(\<And>q b. x = (q, b) \<Longrightarrow> speaks (f q b)) \<Longrightarrow> speaks (case x of (q, b) \<Rightarrow> f q b)"
  by (cases x) simp

lemma speaks_arms:
  "speaks (root_newline p c)" "speaks (root_hash p c pwc)" "speaks (root_quote p c)" "speaks (root_bullet p pwc)"
  "speaks (root_fence p c pwc)" "speaks (root_plus p c)" "speaks (root_digit p c pwc)" "speaks (root_table p h d)"
proof -
  show "speaks (root_newline p c)" unfolding root_newline_def Let_def by (intro speaks_if; simp)
  show "speaks (root_hash p c pwc)" unfolding root_hash_def Let_def split_beta by (intro speaks_if; simp)
  show "speaks (root_quote p c)" unfolding root_quote_def Let_def case_ok by (intro speaks_if; simp)
  show "speaks (root_bullet p pwc)" unfolding root_bullet_def by (intro speaks_if speaks_list) (auto split: list_open.split)
  show "speaks (root_fence p c pwc)" unfolding root_fence_eq Let_def by (intro speaks_if; simp)
  show "speaks (root_plus p c)" unfolding root_plus_def by (intro speaks_if speaks_list) (auto split: list_open.split)
  show "speaks (root_digit p c pwc)" unfolding root_digit_def Let_def by (intro speaks_if speaks_list) (auto split: list_open.split)
  show "speaks (root_table p h d)" unfolding root_table_def Let_def by (intro speaks_if; simp)
qed

lemma speaks_root: "speaks (handle_root_context p c pwc)"
proof -
  have rule: "speaks (root_rule p c pwc)" unfolding root_rule_def Let_def by (intro speaks_if speaks_arms speaks_simps)
  have pipe: "speaks (root_pipe p c pwc)" unfolding root_pipe_def Let_def by (intro speaks_if speaks_arms speaks_simps)
  have arm: "speaks (root_arm p f c pwc)" for f
    unfolding root_arm_def by (intro speaks_if speaks_arms rule pipe speaks_simps)
  have "speaks (promote q pwc)" for q by (simp add: promote_def Let_def split_beta)
  then show ?thesis
    using arm[of "hd (mp_pending p)"] by (auto simp: handle_root_context_def split: list.splits md_action.splits)
qed

lemma speaks_handlers:
  "speaks (handle_heading p c pwc)" "speaks (handle_table p c pwc)" "speaks (handle_table_row p c)" "speaks (handle_table_cell p c)"
  "speaks (handle_code_block p c pwc)" "speaks (handle_code_inline p c pwc)" "speaks (handle_code_fence p c pwc)" "speaks (handle_strong p c)"
  "speaks (handle_strike p pwc)" "speaks (handle_equation_block p pwc)" "speaks (handle_equation_inline p c pwc)"
  "speaks (handle_raw_url p c pwc)" "speaks (handle_italic p c pwc)" "speaks (handle_link_or_image p c pwc)"
  "speaks (handle_maybe_eq_block p c)" "speaks (handle_maybe_url p c pwc)" "speaks (handle_maybe_task p c pwc)"
  "speaks (handle_maybe_angle p c pwc)" "speaks (handle_maybe_entity p c pwc)"
  unfolding handle_heading_def handle_table_def handle_table_row_def handle_table_cell_def handle_code_block_def handle_code_inline_def
    handle_code_fence_def handle_strong_def handle_strike_def handle_equation_block_def handle_equation_inline_def handle_raw_url_def
    end_raw_url_def handle_italic_def handle_link_or_image_def handle_maybe_eq_block_def handle_maybe_url_def handle_maybe_task_def
    handle_maybe_angle_def handle_maybe_entity_def case_ok Let_def split_beta
  by (intro speaks_if speaks_option; simp split: option.split)+

lemma speaks_write: "speaks (write_char p c)"
proof -
  let ?pwc = "mp_pending p @ [c]"
  have first: "speaks (handle_token p c ?pwc)"
    by (cases "mp_token p"; simp only: handle_token_def md_token.case; (intro speaks_root speaks_handlers)?; simp)
  have arms: "speaks (common_backslash q c ?pwc)" "speaks (common_newline q c)" "speaks (common_lt q ?pwc)" "speaks (common_amp q c ?pwc)"
    "speaks (common_tick q c ?pwc)" "speaks (common_emphasis q x c ?pwc)" "speaks (common_tilde q c ?pwc)" "speaks (common_dollar q c ?pwc)"
    "speaks (common_lbr q c)" "speaks (common_rbr q c ?pwc)" "speaks (common_pipe q c)" "speaks (common_bang q c)" for q x
    unfolding common_backslash_def common_newline_def common_lt_def common_amp_def common_tick_def
      common_emphasis_def common_tilde_def common_dollar_def common_lbr_def common_rbr_def common_pipe_def common_bang_def Let_def
    by (intro speaks_if speaks_handlers speaks_simps)+
  have second: "speaks (handle_common q c ?pwc)" for q
    by (cases "mp_pending q"; simp only: handle_common_def list.case; intro speaks_if arms speaks_simps)
  show ?thesis
  proof (cases "handle_token p c ?pwc")
    case (Fall q)
    then show ?thesis using second[of q] by (cases "handle_common q c ?pwc") (simp_all add: write_char_def Let_def)
  qed (use first in \<open>simp_all add: write_char_def Let_def\<close>)
qed

lemma dry_go:
  assumes "dry p" and "upheld p" and "clear p" and "md_inv p" and "mp_token p \<noteq> NEWLINE" and "snd (go p c) = []"
  shows "dry (fst (go p c))"
proof -
  have "dries (write_char p c)" using assms(1-5) by (intro dries_write) (simp_all add: clear_def)
  then show ?thesis using speaks_write[of p c] assms(6) sound_write(2)[OF assms(4,5), of c]
    by (cases "write_char p c") (auto simp: go_def)
qed

lemma dry_step:
  assumes d: "dry p" and k: "upheld p" and c: "clear p" and r: "ready p f" and f: "f \<noteq> Loop []" and one: "snd (top_step p f) = [g]"
  shows "dry (fst (top_step p f))"
proof -
  have i: "md_inv p" using r by (simp add: ready_def)
  show ?thesis
  proof (cases f)
    case (Body x cs)
    then show ?thesis using dry_go[OF d k c i, of x] one r by (simp add: top_step_def ready_def)
  next
    case (Loop w)
    then obtain x cs where w: "w = x # cs" using f by (cases w) auto
    show ?thesis
    proof (cases "mp_token p = NEWLINE")
      case False
      then show ?thesis using dry_go[OF d k c i, of x] one by (simp add: Loop w top_step_def)
    next
      case True
      have "\<not> bare (p\<lparr>indent_len := n\<rparr>)" for n
        by (rule bare_other) (simp_all add: True block_token_def root_token_def)
      moreover have "dry (line_start p)" by (rule dryI) (simp add: line_start_def)
      ultimately show ?thesis
        using dry_go[OF _ kept_line[OF k] clear_line[OF c] line_start_facts(1,2)[OF i True], of x] one True
        by (auto simp: Loop w top_step_def dry_def split: if_splits)
    qed
  qed
qed

section \<open>The two runs\<close>

lemma run_step: "running m \<Longrightarrow> while_option running md_step m = while_option running md_step (md_step m)"
  using while_option_unfold[of running md_step m] by simp

lemma run_stop: "while_option running md_step (p, []) = Some (p, [])"
  by (subst while_option_unfold) (simp add: running_def)

lemma running_frames [simp]: "running (p, f # fs)"
  by (simp add: running_def)

lemma fit_flush: "fit p q \<Longrightarrow> dry p \<Longrightarrow> fit (add_text p) q"
proof -
  assume f: "fit p q" and d: "dry p"
  have "bare (add_text p) = bare p" by (simp add: bare_def held_label_def)
  moreover have "add_text p = p" if "bare p" using d that by (simp add: dry_def add_text_def)
  ultimately show ?thesis using f same_flush(2)[of p q] by (auto simp: fit_def)
qed

lemma clear_same: "same p q \<Longrightarrow> clear p = clear q"
  using same_fields[of p q] by (simp add: clear_def)

definition clear_run :: "md_machine \<Rightarrow> bool" where
  "clear_run m = (\<forall>k. clear (fst ((md_step ^^ k) m)))"

lemma clear_run_now: "clear_run (q, fs) \<Longrightarrow> clear q"
  unfolding clear_run_def by (drule spec[of _ 0]) simp

lemma clear_run_step: "clear_run m \<Longrightarrow> clear_run (md_step m)"
  unfolding clear_run_def
proof
  fix k assume "\<forall>k. clear (fst ((md_step ^^ k) m))"
  then have "clear (fst ((md_step ^^ Suc k) m))" by blast
  then show "clear (fst ((md_step ^^ k) (md_step m)))" by (simp only: funpow_Suc_right comp_apply)
qed

lemma extend_nothing: "extend [] f = f"
  by (cases f) simp_all

lemma ready_extend: "ready p (extend ys f) = ready p f"
  by (cases f) (simp_all add: ready_def)

lemma extend_empty: "f \<noteq> Loop [] \<Longrightarrow> extend ys f \<noteq> Loop []"
  by (cases f) simp_all

lemma top_popped: "snd (top_step p f) = [] \<Longrightarrow> f = Loop []"
  using top_more[of f p] by (metis Nil_is_append_conv not_Cons_self2)

lemma chunks_follow:
  assumes "machine_ok (p, N @ f # map Loop xs)" and "machine_ok (q, N @ [extend (concat xs) f])" and "fit p q" and "upheld p"
    and "N = [] \<longrightarrow> dry p" and "clear_run (q, N @ [extend (concat xs) f])"
    and "while_option running md_step (p, N @ f # map Loop xs) = Some (p', fs)"
    and "while_option running md_step (q, N @ [extend (concat xs) f]) = Some (q', gs)"
  shows "par p' q'"
  using assms
proof (induction "(p, N @ f # map Loop xs)" arbitrary: p N f xs q rule: wf_induct_rule[OF step_order_wf])
  case 1
  let ?a = "(p, N @ f # map Loop xs)" and ?b = "(q, N @ [extend (concat xs) f])"
  note ok = "1.prems"(1,2) and fit = "1.prems"(3) and upheld = "1.prems"(4)
  have s: "same p q" using fit by (simp add: fit_def)
  have clear: "clear p" "clear_run (md_step ?b)"
    using clear_run_now[OF "1.prems"(6)] clear_same[OF s] clear_run_step[OF "1.prems"(6)] by simp_all
  have ran: "running ?a" "running ?b" by (cases N; simp)+
  have less: "(md_step ?a, ?a) \<in> step_order" by (rule step_order_step[OF ok(1) ran(1)])
  have runs: "while_option running md_step (md_step ?a) = Some (p', fs)" "while_option running md_step (md_step ?b) = Some (q', gs)"
    using "1.prems"(7,8) run_step[OF ran(1)] run_step[OF ran(2)] by simp_all
  have oks: "machine_ok (md_step ?a)" "machine_ok (md_step ?b)" using step_keeps ok by blast+
  show ?case
  proof (cases N)
    case (Cons n N')
    have r: "ready p n" using machine_ready ok(1) Cons by simp
    let ?p = "fst (top_step p n)" and ?q = "fst (top_step q n)" and ?N = "snd (top_step p n) @ N'"
    have f: "fit ?p ?q" "snd (top_step q n) = snd (top_step p n)" using top_fit[OF fit r] by simp_all
    have a: "md_step ?a = (?p, ?N @ f # map Loop xs)" by (simp add: Cons step_top)
    have b: "md_step ?b = (?q, ?N @ [extend (concat xs) f])" by (simp add: Cons step_top f(2))
    have "dry ?p" if "?N = []" using top_popped[of p n] that by (simp add: top_step_def dry_def)
    then show ?thesis
      using "1.hyps"[OF less[unfolded a] oks(1)[unfolded a] oks(2)[unfolded b] f(1) kept_step[OF upheld clear(1) r] _ clear(2)[unfolded b]
          runs(1)[unfolded a] runs(2)[unfolded b]] by blast
  next
    case Nil
    have d: "dry p" using "1.prems"(5) Nil by simp
    show ?thesis
    proof (cases "f = Loop []")
      case f: True
      show ?thesis
      proof (cases xs)
        case xs: Nil
        have "md_step ?a = (add_text p, [])" "md_step ?b = (add_text q, [])" by (simp_all add: Nil f xs)
        then show ?thesis using runs par_flush[OF s] by (simp add: run_stop)
      next
        case xs: (Cons y ys)
        have a: "md_step ?a = (add_text p, [] @ Loop y # map Loop ys)" by (simp add: Nil f xs)
        have b: "?b = (q, [] @ [extend (concat ys) (Loop y)])" by (simp add: Nil f xs)
        have "dry (add_text p)" by (rule dryI) simp
        then show ?thesis
          using "1.hyps"[OF less[unfolded a] oks(1)[unfolded a] ok(2)[unfolded b] fit_flush[OF fit d] kept_text[OF upheld] _
              "1.prems"(6)[unfolded b] runs(1)[unfolded a] "1.prems"(8)[unfolded b]] by blast
      qed
    next
      case f: False
      let ?ys = "concat xs"
      obtain M g where p: "snd (top_step p f) = M @ [g]" "\<And>ys. top_step p (extend ys f) = (fst (top_step p f), M @ [extend ys g])"
        using top_more[OF f, of p] by blast
      have r: "ready p f" using machine_ready ok(1) Nil by simp
      let ?p = "fst (top_step p f)" and ?q = "fst (top_step q (extend ?ys f))"
      have q: "fit ?p ?q" "snd (top_step q (extend ?ys f)) = M @ [extend ?ys g]"
        using top_fit[OF fit, of "extend ?ys f"] r by (simp_all add: ready_extend p(2))
      have a: "md_step ?a = (?p, M @ g # map Loop xs)" by (simp add: Nil step_top p(1))
      have b: "md_step ?b = (?q, M @ [extend ?ys g])" by (simp add: Nil step_top q(2))
      have "dry ?p" if "M = []" using dry_step[OF d upheld clear(1) r f] p(1) that by simp
      then show ?thesis
        using "1.hyps"[OF less[unfolded a] oks(1)[unfolded a] oks(2)[unfolded b] q(1) kept_step[OF upheld clear(1) r] _ clear(2)[unfolded b]
            runs(1)[unfolded a] runs(2)[unfolded b]] by blast
    qed
  qed
qed
end
