(* ===== verification/MdFlaws.thy ===== *)
theory MdFlaws
  imports MdDepth
begin

text \<open>
  Inputs on which the parser does something other than its comments and tests promise, each computed on the
  model.
\<close>

lemma replicate_step: "replicate (numeral k) x = x # replicate (pred_numeral k) x"
  by (simp add: numeral_eq_Suc)

lemmas md_defs =
  tx_def blank_char_def is_space_def ascii_mark_def not_word_def ends_with_word_char_def is_word_char_def
  is_digit_def is_hex_digit_def is_ascii_alpha_def is_delimiter_def is_delimiter_or_number_def is_escaped_char_def
  u_starts_with_def u_ends_with_def is_blank_def blank_run_def trim_blank_def trim_space_def atx_tail_def
  delimiter_row_char_def table_row_cells_def bullet_line_def drop_colon_def delimiter_cell_def is_delimiter_row_def
  cell_alignment_def column_alignments_def is_fence_close_def title_close_def scan_rest_def scan_destination_def
  raw_url_tail_def is_cjk_punctuation_def cjk_separator_def url_tail_char_def split_raw_url_tail_def br_candidate_def
  scheme_char_def uri_autolink_def email_local_char_def alnum_def domain_label_def email_autolink_def
  autolink_url_def can_continue_angle_def max_entity_name_length_def named_entities_def xml_entities_def
  lookup_named_def scalar_or_replacement_def digit_value_def ref_digits_value_def decode_entity_def
  can_continue_entity_def reference_body_def token_array_cap_def md_parser0_def emit_def top_token_def buffer_def
  prev_is_word_char_def emit_leaf_def add_text_def end_token_def is_inline_token_def end_token_unresolved_def
  end_token_or_unresolved_def has_token_room_def set_token_def add_token_def set_delim_def add_inline_token_def
  idx_of_token_def end_tokens_to_len_def end_tokens_to_indent_def open_list_def continue_or_add_list_def
  clear_root_pending_def set_spaces_def add_list_item_def heading_from_level_def set_pending_def resume_token_def
  first_is_def root_newline_def root_hash_def root_quote_def root_bullet_def root_rule_def root_fence_def
  root_plus_def root_digit_def root_table_def root_pipe_def root_arm_def code_start_def promote_def
  handle_root_context_def handle_heading_def handle_table_def handle_table_row_def handle_table_cell_def
  handle_code_block_def handle_code_fence_def handle_code_inline_def handle_maybe_task_def handle_strong_def
  handle_italic_def handle_strike_def handle_maybe_eq_block_def handle_equation_block_def handle_equation_inline_def
  char_at_def handle_maybe_url_def end_raw_url_def handle_raw_url_def enclosing_idx_def handle_link_or_image_def
  handle_maybe_angle_def handle_maybe_entity_def in_equation_def is_heading_token_def common_backslash_def
  common_newline_def common_lt_def common_amp_def common_tick_def common_emphasis_def common_tilde_def
  common_dollar_def common_lbr_def common_rbr_def common_pipe_def common_bang_def handle_common_def handle_token_def
  shift_pending_def write_char_def run_body_def running_def parser_write_def flush_held_def parser_end_def
  write_all_def

lemmas md_exec = md_defs close_to.simps end_inline.simps while_option_unfold[of running md_step]

lemmas md_run = md_exec replicate_step upto_rec_numeral upto.simps

text \<open>
  A \<open><\<close> recovered between two emphasis stars leaves both stars pending, and the emphasis handler then closes
  two tokens where one is open: the paragraph is closed, and a second time so is what is above the document, so
  the renderer's stack falls below its root.
\<close>

theorem angle_recovery_underflows:
  "\<exists>p. write_all (md_parser0 mark) [tx ''*<** <** y''] = Some p \<and> call_depth (take 10 (mp_out p)) = - 1"
proof -
  have "map_option mp_out (write_all (md_parser0 mark) [tx ''*<** <** y'']) =
      Some [Add_token PARAGRAPH, Add_token ITALIC_AST, Add_text [c_lt], End_token, End_token, Add_token ITALIC_AST,
        Add_text [c_space], Add_text [c_lt], End_token, End_token, Add_token ITALIC_AST, Add_text [c_space]]"
    by (simp add: md_run)
  then obtain p where "write_all (md_parser0 mark) [tx ''*<** <** y''] = Some p"
    "mp_out p = [Add_token PARAGRAPH, Add_token ITALIC_AST, Add_text [c_lt], End_token, End_token, Add_token ITALIC_AST,
        Add_text [c_space], Add_text [c_lt], End_token, End_token, Add_token ITALIC_AST, Add_text [c_space]]"
    by auto
  then show ?thesis by simp
qed

text \<open>
  The marker handler stays in place after a task box, so a bracket the item's text starts with is read as
  the rest of a second box: \<open>- [ ] x] d\<close> draws two boxes and loses \<open>x]\<close>.
\<close>

theorem task_marker_is_read_twice:
  "map_option (\<lambda>p. (mp_out p, mp_pending p)) (write_all (md_parser0 mark) [tx ''- [ ] x] d'']) =
     Some ([Add_token LIST_UNORDERED, Add_token LIST_ITEM, Add_token CHECKBOX, End_token,
            Add_token CHECKBOX, Set_attr CHECKED [], End_token, Add_text [c_space]], tx ''d'')"
  by (simp add: md_run)

abbreviation drawn_table :: "md_call list" where
  "drawn_table \<equiv> [Add_token TABLE, Add_token TABLE_ROW, Add_token TABLE_CELL, Add_text (tx ''a''), End_token,
     Add_token TABLE_CELL, Add_text (tx ''b''), End_token, End_token]"

text \<open>
  Text on the line after a table's delimiter row is buffered with the table still open, and is drawn inside
  of the table or after it as the chunks fall.
\<close>

theorem table_text_moves_with_the_chunks:
  "map_option mp_out (write_all (md_parser0 mark)
       [tx ''|a|b|'' @ [c_nl] @ tx ''|-|-|'' @ [c_nl] @ tx ''['' @ [c_nl] @ [c_nl]]) =
     Some (drawn_table @ [End_token, Add_text [c_lbr]])
   \<and> map_option mp_out (write_all (md_parser0 mark)
       [tx ''|a|b|'' @ [c_nl] @ tx ''|-|-|'' @ [c_nl] @ tx ''['' @ [c_nl], [c_nl]]) =
     Some (drawn_table @ [Add_text [c_lbr], End_token])"
  by (simp add: md_run)

text \<open>The columns of a list item outlive it, and a later line is measured against them.\<close>

lemma stale_columns_close_an_item:
  "map_option mp_out (write_all (md_parser0 mark)
       [tx ''x'' @ [c_nl, c_nl] @ tx ''> - b'' @ [c_nl] @ tx ''>   # h'' @ [c_nl]]) =
     Some (Add_token PARAGRAPH # Add_text (tx ''x'') # End_token # quote @ [Add_token HEADING_1, Add_text (tx ''h'')])"
  "map_option mp_out (write_all (md_parser0 mark)
       [tx ''- a'' @ [c_nl, c_nl] @ tx ''> - b'' @ [c_nl] @ tx ''>   # h'' @ [c_nl]]) =
     Some (Add_token LIST_UNORDERED # Add_token LIST_ITEM # Add_text (tx ''a'') # End_token # End_token
       # quote @ [End_token, End_token, Add_token HEADING_1, Add_text (tx ''h'')])"
  if "quote = [Add_token BLOCKQUOTE, Add_token LIST_UNORDERED, Add_token LIST_ITEM, Add_text (tx ''b'')]"
  by (simp_all add: that md_run)

lemma fence_tab_is_drawn_as_spaces:
  "map_option mp_out (write_all (md_parser0 mark) [tx ''```'' @ [c_nl, c_tab] @ tx ''a'']) =
     Some [Add_token CODE_FENCE, Add_text (tx ''    a'')]"
  by (simp add: md_run)
end
