(* ===== verification/MdCuts.thy ===== *)
theory MdCuts
  imports MdChunks MdFlaws
begin

text \<open>
  The chunks a text is cut into do not show in what is drawn, for a text that opens no table and nests less
  than 23 deep. For the others they may: see \<open>MdFlaws\<close>.
\<close>

section \<open>One machine for all the chunks\<close>

lemma run_append:
  assumes "machine_ok (p, fs)" and "while_option running md_step (p, fs) = Some (r, hs)"
  shows "while_option running md_step (p, fs @ gs) = while_option running md_step (r, gs)"
  using assms
proof (induction "(p, fs)" arbitrary: p fs rule: wf_induct_rule[OF step_order_wf])
  case 1
  show ?case
  proof (cases fs)
    case Nil
    then show ?thesis using "1.prems"(2) by (simp add: run_stop)
  next
    case (Cons f fs')
    have a: "md_step (p, fs) = (fst (top_step p f), snd (top_step p f) @ fs')" using Cons by (simp add: step_top)
    have "(md_step (p, fs), (p, fs)) \<in> step_order" by (rule step_order_step[OF "1.prems"(1)]) (simp add: Cons)
    moreover have "machine_ok (md_step (p, fs))" by (rule step_keeps[OF "1.prems"(1)])
    moreover have "while_option running md_step (md_step (p, fs)) = Some (r, hs)"
      using "1.prems"(2) run_step[of "(p, fs)"] Cons by simp
    ultimately have "while_option running md_step (fst (top_step p f), (snd (top_step p f) @ fs') @ gs) = while_option running md_step (r, gs)"
      unfolding a by (rule "1.hyps")
    then show ?thesis using run_step[of "(p, fs @ gs)"] by (simp add: Cons step_top)
  qed
qed

lemma write_all_cons: "write_all p (chunk # chunks) = Option.bind (parser_write p chunk) (\<lambda>r. write_all r chunks)"
proof -
  have "foldl (\<lambda>q chunk. Option.bind q (\<lambda>p. parser_write p chunk)) None chunks = None" by (induction chunks) simp_all
  then show ?thesis by (cases "parser_write p chunk") (simp_all add: write_all_def)
qed

lemma write_all_run: "md_inv p \<Longrightarrow> write_all p chunks = Some r \<Longrightarrow> while_option running md_step (p, map Loop chunks) = Some (r, [])"
proof (induction chunks arbitrary: p)
  case Nil
  then show ?case by (simp add: write_all_def run_stop)
next
  case (Cons chunk chunks)
  obtain p1 where p1: "parser_write p chunk = Some p1" "md_inv p1" using write_returns[OF Cons.prems(1)] by blast
  then obtain hs where "while_option running md_step (p, [Loop chunk]) = Some (p1, hs)" by (auto simp: parser_write_def)
  then have "while_option running md_step (p, [Loop chunk] @ map Loop chunks) = while_option running md_step (p1, map Loop chunks)"
    by (rule run_append[OF machine_start[OF Cons.prems(1)]])
  then show ?case using Cons.IH[OF p1(2)] Cons.prems(2) p1(1) by (simp add: write_all_cons)
qed

section \<open>Calls before a state\<close>

definition pre_machine :: "md_call list \<Rightarrow> md_machine \<Rightarrow> md_machine" where
  "pre_machine es m = (pre es (fst m), snd m)"

lemma pre_line [simp]: "line_start (pre es p) = pre es (line_start p)" "columns (pre es p) = columns p"
  by (simp_all add: line_start_def columns_def)

lemma pre_go [simp]: "go (pre es p) c = (pre es (fst (go p c)), snd (go p c))"
  by (cases "write_char p c") (simp_all add: go_def)

lemma pre_step: "md_step (pre_machine es m) = pre_machine es (md_step m)"
proof (cases m)
  case (Pair p fs)
  show ?thesis
  proof (cases fs)
    case (Cons f gs)
    have "top_step (pre es p) f = (pre es (fst (top_step p f)), snd (top_step p f))"
      by (simp add: top_step_def split: md_frame.split list.split)
    then show ?thesis by (simp add: Pair Cons pre_machine_def step_top)
  qed (simp add: Pair pre_machine_def)
qed

lemma pre_run: "while_option running md_step (pre_machine es m) = map_option (pre_machine es) (while_option running md_step m)"
  by (rule while_option_commute[symmetric]) (simp_all add: pre_step, simp add: running_def pre_machine_def)

lemma pre_parser_write: "parser_write (pre es p) chunk = map_option (pre es) (parser_write p chunk)"
  using pre_run[of es "(p, [Loop chunk])"] by (simp add: parser_write_def pre_machine_def option.map_comp comp_def)

lemma pre_end_inline: "end_inline (pre es p) = pre es (end_inline p)"
proof (induction p rule: end_inline.induct)
  case (1 p)
  then show ?case by (subst end_inline.simps, subst (2) end_inline.simps) simp
qed

lemma pre_flush: "flush_held (pre es p) = pre es (flush_held p)"
  by (simp add: flush_held_def Let_def)

lemma pre_parser_end: "parser_end (pre es p) = map_option (pre es) (parser_end p)"
proof -
  have "(pre es p)\<lparr>at_end := b\<rparr> = pre es (p\<lparr>at_end := b\<rparr>)" for b by (simp add: pre_def)
  then show ?thesis
    by (simp add: parser_end_def pre_end_inline pre_flush pre_parser_write option.map_comp comp_def)
qed

lemma par_end: "par p q \<Longrightarrow> map_option (\<lambda>r. settle (mp_out r)) (parser_end p) = map_option (\<lambda>r. settle (mp_out r)) (parser_end q)"
proof -
  assume p: "par p q"
  let ?r = "p\<lparr>mp_out := []\<rparr>"
  have e: "pre (mp_out p) ?r = p" "pre (mp_out q) ?r = q" using p pre_whole[of p] pre_whole[of q] by (simp_all only: par_def)
  have "parser_end p = map_option (pre (mp_out p)) (parser_end ?r)" "parser_end q = map_option (pre (mp_out q)) (parser_end ?r)"
    using pre_parser_end[of "mp_out p" ?r] pre_parser_end[of "mp_out q" ?r] by (simp_all only: e)
  moreover have "settle (mp_out (pre (mp_out p) r)) = settle (mp_out (pre (mp_out q) r))" for r
    using p settle_append[of "mp_out p" "mp_out q" "mp_out r"] by (simp add: pre_def par_def)
  ultimately show ?thesis by (simp only: option.map_comp comp_def)
qed

section \<open>What the calls say of the stack\<close>

lemma step_calls: "\<exists>es. mp_out (fst (md_step m)) = mp_out (fst m) @ es"
proof -
  let ?m = "(\<lambda>(p, fs). (p\<lparr>mp_out := []\<rparr>, fs)) m"
  have "m = pre_machine (mp_out (fst m)) ?m" by (cases m) (simp add: pre_machine_def pre_whole)
  then have "md_step m = pre_machine (mp_out (fst m)) (md_step ?m)" using pre_step by metis
  then show ?thesis by (simp add: pre_machine_def pre_def)
qed

lemma run_calls:
  assumes "while_option running md_step m = Some m'"
  shows "\<exists>es. mp_out (fst m') = mp_out (fst m) @ es"
proof (rule while_option_rule[OF _ assms, of "\<lambda>m' :: md_machine. \<exists>es. mp_out (fst m') = mp_out (fst m) @ es"])
  fix n :: md_machine
  assume "\<exists>es. mp_out (fst n) = mp_out (fst m) @ es"
  then show "\<exists>es. mp_out (fst (md_step n)) = mp_out (fst m) @ es" using step_calls[of n] by auto
qed simp

text \<open>Calls that open no table and nest less than 23 deep.\<close>

definition plain_calls :: "md_call list \<Rightarrow> bool" where
  "plain_calls cs = (list_all (\<lambda>n. call_depth (take n cs) \<le> 22) [0..<Suc (length cs)]
     \<and> Add_token TABLE \<notin> set cs \<and> Add_token TABLE_ROW \<notin> set cs)"

lemma plain_prefix: "plain_calls (cs @ ds) \<Longrightarrow> call_depth cs \<le> 22 \<and> Add_token TABLE \<notin> set cs \<and> Add_token TABLE_ROW \<notin> set cs"
proof -
  assume p: "plain_calls (cs @ ds)"
  have "length cs \<in> set [0..<Suc (length (cs @ ds))]" by simp
  then have "call_depth (take (length cs) (cs @ ds)) \<le> 22" using p unfolding plain_calls_def list_all_iff by blast
  then show ?thesis using p by (simp add: plain_calls_def)
qed

lemma clear_now:
  assumes "upheld p" and "slack p = 0" and "plain_calls (mp_out p @ es)"
  shows "clear p"
  using assms(1,2) plain_prefix[OF assms(3)] by (auto simp: clear_def upheld_def kept_at_def slack_def)

lemma plain_clear:
  assumes "machine_ok m" and "upheld (fst m)" and "slack (fst m) = 0" and "while_option running md_step m = Some m'"
    and "plain_calls (mp_out (fst m'))"
  shows "clear_run m"
  using assms
proof (induction m rule: wf_induct_rule[OF step_order_wf])
  case (1 m)
  have c: "clear (fst m)" using run_calls[OF "1.prems"(4)] clear_now[OF "1.prems"(2,3)] "1.prems"(5) by auto
  show ?case
  proof (cases "running m")
    case False
    then have "md_step m = m" by (cases m) (simp add: running_def)
    then have "(md_step ^^ k) m = m" for k by (induction k) simp_all
    then show ?thesis using c by (simp add: clear_run_def)
  next
    case True
    obtain p f fs where m: "m = (p, f # fs)" using True by (cases m) (auto simp: running_def neq_Nil_conv)
    have "upheld (fst (md_step m))"
      using kept_step[of p f] "1.prems"(1,2) c machine_ready[of p f fs] by (simp add: m step_top)
    moreover have "slack (fst (md_step m)) = 0" using slack_step "1.prems"(3) by simp
    moreover have "while_option running md_step (md_step m) = Some m'" using "1.prems"(4) run_step[OF True] by simp
    ultimately have next_: "clear_run (md_step m)"
      using "1.IH" step_order_step[OF "1.prems"(1) True] step_keeps[OF "1.prems"(1)] "1.prems"(5) by blast
    have "clear (fst ((md_step ^^ k) m))" for k
    proof (cases k)
      case (Suc n)
      then have "(md_step ^^ k) m = (md_step ^^ n) (md_step m)" by (simp add: funpow_Suc_right del: funpow.simps)
      then show ?thesis using next_ by (simp add: clear_run_def)
    qed (simp add: c)
    then show ?thesis by (simp add: clear_run_def)
  qed
qed

lemma kept_start: "upheld (md_parser0 mark)"
  by (simp add: upheld_def kept_at_def md_parser0_def)

lemma start_quiet: "dry (md_parser0 mark)" "slack (md_parser0 mark) = 0" "add_text (md_parser0 mark) = md_parser0 mark"
  by (simp_all add: dry_def slack_def add_text_def md_parser0_def)

text \<open>
  C3. A text streamed in any chunks ends in the state the whole text ends in, and draws the same: the same
  structural calls, with the same text and the same attributes between them, also after the end.
\<close>

theorem chunks_do_not_show:
  assumes "write_all (md_parser0 mark) [concat chunks] = Some q" and "plain_calls (mp_out q)"
  shows "\<exists>p. write_all (md_parser0 mark) chunks = Some p \<and> settle (mp_out p) = settle (mp_out q)
     \<and> p\<lparr>mp_out := []\<rparr> = q\<lparr>mp_out := []\<rparr>
     \<and> map_option (\<lambda>r. settle (mp_out r)) (parser_end p) = map_option (\<lambda>r. settle (mp_out r)) (parser_end q)"
proof -
  let ?p = "md_parser0 mark"
  obtain p where p: "write_all ?p chunks = Some p" using write_all_returns[OF inv_start] unfolding write_all_def by blast
  have whole: "while_option running md_step (?p, [Loop (concat chunks)]) = Some (q, [])"
    using write_all_run[OF inv_start assms(1)] by simp
  have "par p q"
  proof (cases chunks)
    case Nil
    then have "p = ?p" using p by (simp add: write_all_def)
    moreover have "q = ?p" using whole Nil run_step[of "(?p, [Loop []])"] by (simp add: run_stop start_quiet(3))
    ultimately show ?thesis by (simp add: par_def)
  next
    case (Cons x xs)
    have run: "clear_run (?p, [] @ [extend (concat xs) (Loop x)])"
      using plain_clear[OF machine_start[OF inv_start] _ _ whole] kept_start start_quiet(2) assms(2) by (simp add: Cons)
    have ok: "machine_ok (?p, [] @ Loop x # map Loop xs)" using inv_start no_body_loops[of "x # xs" "[]"] by (simp add: machine_ok_def)
    have whole_ok: "machine_ok (?p, [] @ [extend (concat xs) (Loop x)])" using machine_start[OF inv_start] by simp
    have fit: "fit ?p ?p" by (rule fit_par) (simp add: par_def)
    have chunk_run: "while_option running md_step (?p, [] @ Loop x # map Loop xs) = Some (p, [])"
      using write_all_run[OF inv_start p] by (simp add: Cons)
    have whole_run: "while_option running md_step (?p, [] @ [extend (concat xs) (Loop x)]) = Some (q, [])"
      using whole by (simp add: Cons)
    show ?thesis
      by (rule chunks_follow[OF ok whole_ok fit kept_start _ run chunk_run whole_run]) (simp add: start_quiet(1))
  qed
  then show ?thesis using p par_end[OF \<open>par p q\<close>] unfolding par_def by blast
qed

text \<open>A link cut inside of its label and inside of its destination, in a heading.\<close>

lemma chunks_do_not_show_witness:
  "\<exists>p q. write_all (md_parser0 (\<lambda>c. False)) [tx ''# a [b'', tx ''c](u'', tx ''v) d''] = Some p
     \<and> write_all (md_parser0 (\<lambda>c. False)) [tx ''# a [bc](uv) d''] = Some q
     \<and> settle (mp_out p) = settle (mp_out q)"
proof -
  let ?cs = "[tx ''# a [b'', tx ''c](u'', tx ''v) d'']"
  let ?calls = "[Add_token HEADING_1, Add_text (tx ''a ''), Add_token LINK, Add_text (tx ''bc''), Set_attr HREF (tx ''uv''),
     End_token, Add_text [c_space]]"
  have whole: "concat ?cs = tx ''# a [bc](uv) d''" by (simp add: tx_def)
  have "map_option mp_out (write_all (md_parser0 (\<lambda>c. False)) [tx ''# a [bc](uv) d'']) = Some ?calls"
    by (simp add: md_run)
  then obtain q where q: "write_all (md_parser0 (\<lambda>c. False)) [tx ''# a [bc](uv) d''] = Some q" "mp_out q = ?calls" by auto
  have "plain_calls (mp_out q)" unfolding q(2) by (simp add: plain_calls_def upt_rec_numeral)
  then show ?thesis using chunks_do_not_show[of "\<lambda>c. False" ?cs q] q(1) unfolding whole by blast
qed
end
