(* ===== verification/MathLatex.thy ===== *)
theory MathLatex
  imports MdText
begin

text \<open>
  The converter of LaTeX to MathML (\<open>mathml.ts\<close>). A source is the list of its UTF-16 code units. An element is
  its tag, its attributes and its children. The parser moves a cursor over the tokens: here a parse takes the
  tokens from the cursor on and answers those it leaves. The tables are objects read with brackets, so a name
  that is not a key of the table may be one that every object inherits.
\<close>

section \<open>Objects read with brackets\<close>

text \<open>What every object inherits; each is a function but \<open>__proto__\<close>.\<close>

definition object_prototype :: "string list" where
  "object_prototype = [''constructor'', ''__defineGetter__'', ''__defineSetter__'', ''hasOwnProperty'',
     ''__lookupGetter__'', ''__lookupSetter__'', ''isPrototypeOf'', ''propertyIsEnumerable'', ''toString'',
     ''valueOf'', ''__proto__'', ''toLocaleString'']"

datatype js_slot = Own utext | Inherited utext | Undefined

definition read_key :: "(string \<times> utext) list \<Rightarrow> utext \<Rightarrow> js_slot" where
  "read_key table key =
     (case map_of (map (\<lambda>(k, v). (tx k, v)) table) key of
        Some v \<Rightarrow> Own v
      | None \<Rightarrow> if key \<in> set (map tx object_prototype) then Inherited key else Undefined)"

definition has_name :: "string list \<Rightarrow> utext \<Rightarrow> bool" where
  "has_name names key = (key \<in> set (map tx names))"

section \<open>Symbol tables\<close>

definition ident_cmds :: "(string \<times> utext) list" where
  "ident_cmds = [
    (''alpha'', [945]), (''beta'', [946]), (''gamma'', [947]), (''delta'', [948]), (''epsilon'', [949]),
    (''varepsilon'', [949]), (''zeta'', [950]), (''eta'', [951]), (''theta'', [952]), (''vartheta'', [977]),
    (''iota'', [953]), (''kappa'', [954]), (''lambda'', [955]), (''mu'', [956]), (''nu'', [957]),
    (''xi'', [958]), (''pi'', [960]), (''varpi'', [982]), (''rho'', [961]), (''varrho'', [1009]),
    (''sigma'', [963]), (''varsigma'', [962]), (''tau'', [964]), (''upsilon'', [965]), (''phi'', [966]),
    (''varphi'', [981]), (''chi'', [967]), (''psi'', [968]), (''omega'', [969]), (''Gamma'', [915]),
    (''Delta'', [916]), (''Theta'', [920]), (''Lambda'', [923]), (''Xi'', [926]), (''Pi'', [928]),
    (''Sigma'', [931]), (''Upsilon'', [933]), (''Phi'', [934]), (''Psi'', [936]), (''Omega'', [937]),
    (''infty'', [8734]), (''partial'', [8706]), (''nabla'', [8711]), (''emptyset'', [8709]),
    (''varnothing'', [8709]), (''aleph'', [8501]), (''hbar'', [8463]), (''ell'', [8467])]"

definition op_cmds :: "(string \<times> utext) list" where
  "op_cmds = [
    (''times'', [215]), (''cdot'', [8901]), (''div'', [247]), (''pm'', [177]), (''mp'', [8723]),
    (''leq'', [8804]), (''le'', [8804]), (''geq'', [8805]), (''ge'', [8805]), (''neq'', [8800]),
    (''ne'', [8800]), (''approx'', [8776]), (''equiv'', [8801]), (''sim'', [8764]), (''simeq'', [8771]),
    (''cong'', [8773]), (''propto'', [8733]), (''to'', [8594]), (''rightarrow'', [8594]),
    (''leftarrow'', [8592]), (''leftrightarrow'', [8596]), (''Rightarrow'', [8658]), (''Leftarrow'', [8656]),
    (''Leftrightarrow'', [8660]), (''mapsto'', [8614]), (''in'', [8712]), (''notin'', [8713]),
    (''ni'', [8715]), (''subset'', [8834]), (''subseteq'', [8838]), (''supset'', [8835]),
    (''supseteq'', [8839]), (''cup'', [8746]), (''cap'', [8745]), (''setminus'', [8726]),
    (''forall'', [8704]), (''exists'', [8707]), (''nexists'', [8708]), (''neg'', [172]), (''land'', [8743]),
    (''wedge'', [8743]), (''lor'', [8744]), (''vee'', [8744]), (''oplus'', [8853]), (''ominus'', [8854]),
    (''otimes'', [8855]), (''ast'', [8727]), (''star'', [8902]), (''circ'', [8728]), (''bullet'', [8729]),
    (''ldots'', [8230]), (''dots'', [8230]), (''cdots'', [8943]), (''vdots'', [8942]), (''ddots'', [8945]),
    (''angle'', [8736]), (''perp'', [8869]), (''parallel'', [8741]), (''prime'', [8242]),
    (''bmod'', tx ''mod''), (''lceil'', [8968]), (''rceil'', [8969]), (''lfloor'', [8970]),
    (''rfloor'', [8971]), (''langle'', [10216]), (''rangle'', [10217])]"

definition func_cmds :: "string list" where
  "func_cmds = [
    ''sin'', ''cos'', ''tan'', ''cot'', ''sec'', ''csc'', ''arcsin'', ''arccos'', ''arctan'', ''sinh'',
    ''cosh'', ''tanh'', ''log'', ''ln'', ''exp'', ''det'', ''gcd'', ''deg'', ''dim'', ''ker'', ''arg'']"

definition underover_cmds :: "(string \<times> utext) list" where
  "underover_cmds = [
    (''sum'', [8721]), (''prod'', [8719]), (''coprod'', [8720]), (''bigcup'', [8899]), (''bigcap'', [8898]),
    (''lim'', tx ''lim''), (''limsup'', tx ''lim sup''), (''liminf'', tx ''lim inf''), (''max'', tx ''max''),
    (''min'', tx ''min''), (''sup'', tx ''sup''), (''inf'', tx ''inf'')]"

definition integral_cmds :: "(string \<times> utext) list" where
  "integral_cmds = [
    (''int'', [8747]), (''iint'', [8748]), (''iiint'', [8749]), (''oint'', [8750])]"

definition space_cmds :: "(string \<times> utext) list" where
  "space_cmds = [
    ('','', tx ''0.167em''), ('':'', tx ''0.222em''), ('';'', tx ''0.278em''), (''!'', tx ''-0.167em''),
    ('' '', tx ''0.25em''), (''thinspace'', tx ''0.167em''), (''enspace'', tx ''0.5em''),
    (''quad'', tx ''1em''), (''qquad'', tx ''2em'')]"

definition text_cmds :: "string list" where
  "text_cmds = [
    ''text'', ''textrm'', ''mathrm'', ''operatorname'']"

definition delims :: "(string \<times> utext) list" where
  "delims = [
    (''('', tx ''(''), ('')'', tx '')''), (''['', tx ''[''), ('']'', tx '']''), (''|'', tx ''|''),
    (''{'', tx ''{''), (''}'', tx ''}''), (''.'', []), (''langle'', [10216]), (''rangle'', [10217]),
    (''lceil'', [8968]), (''rceil'', [8969]), (''lfloor'', [8970]), (''rfloor'', [8971]),
    (''vert'', tx ''|''), (''Vert'', [8214])]"

definition rejected_chars :: "nat list" where
  "rejected_chars = [38, 35, 37, 36]"

definition max_src :: nat where
  "max_src = 4096"

definition max_depth :: nat where
  "max_depth = 32"

section \<open>Tokens\<close>

datatype tok_kind = Cmd | Raw | Num | Ident | Op | Open | Close | Obrack | Cbrack | Sup | Sub

record tok =
  tk_kind :: tok_kind
  tk_text :: utext

definition token :: "tok_kind \<Rightarrow> utext \<Rightarrow> tok" where
  "token k v = \<lparr>tk_kind = k, tk_text = v\<rparr>"

definition latex_alpha :: "nat \<Rightarrow> bool" where
  "latex_alpha c = ((97 \<le> c \<and> c \<le> 122) \<or> (65 \<le> c \<and> c \<le> 90))"

definition latex_digit :: "nat \<Rightarrow> bool" where
  "latex_digit c = (48 \<le> c \<and> c \<le> 57)"

text \<open>From the opening brace on: the text of the group and what follows it. \<open>text\<close> is read, the brace not in it.\<close>

fun braced_from :: "nat \<Rightarrow> utext \<Rightarrow> utext \<Rightarrow> (utext \<times> utext) option" where
  "braced_from depth read [] = None"
| "braced_from depth read (c # cs) =
     (if c = 123 then braced_from (depth + 1) (if depth = 0 then read else read @ [c]) cs
      else if c = 125 then
        (if depth = 1 then Some (read, cs) else braced_from (depth - 1) (read @ [c]) cs)
      else braced_from depth (read @ [c]) cs)"

definition read_braced :: "utext \<Rightarrow> (utext \<times> utext) option" where
  "read_braced src =
     (let s = dropWhile (\<lambda>c. c = 32 \<or> c = 10 \<or> c = 9) src
      in if s \<noteq> [] \<and> hd s = 123 then braced_from 0 [] s else None)"

text \<open>A run of digits, where a point belongs to it when a digit follows.\<close>

fun read_num :: "utext \<Rightarrow> utext \<times> utext" where
  "read_num [] = ([], [])"
| "read_num (c # cs) =
     (if latex_digit c then (let (v, rest) = read_num cs in (c # v, rest))
      else if c = 46 \<and> cs \<noteq> [] \<and> latex_digit (hd cs) then
        (case cs of [] \<Rightarrow> ([], c # cs) | d # ds \<Rightarrow> let (v, rest) = read_num ds in (c # d # v, rest))
      else ([], c # cs))"

lemma read_num_length: "length (snd (read_num s)) \<le> length s"
proof (induction s rule: read_num.induct)
  case (2 c cs)
  show ?case
  proof (cases "latex_digit c")
    case True
    then show ?thesis using 2(1) by (simp add: split_beta)
  next
    case False
    show ?thesis
    proof (cases "c = 46 \<and> cs \<noteq> [] \<and> latex_digit (hd cs)")
      case True
      then obtain d ds where "cs = d # ds" by (cases cs) auto
      then show ?thesis using False True 2(2)[of d ds] by (simp add: split_beta le_SucI)
    qed (use False in auto)
  qed
qed simp

lemma braced_length: "braced_from d r s = Some (t, rest) \<Longrightarrow> length rest \<le> length s"
  by (induction d r s rule: braced_from.induct) (auto split: if_splits simp: le_SucI)

lemma read_braced_length: "read_braced s = Some (t, rest) \<Longrightarrow> length rest \<le> length s"
proof -
  let ?s = "dropWhile (\<lambda>c. c = 32 \<or> c = 10 \<or> c = 9) s"
  assume "read_braced s = Some (t, rest)"
  then have "braced_from 0 [] ?s = Some (t, rest)" by (simp add: read_braced_def Let_def split: if_splits)
  then have "length rest \<le> length ?s" by (rule braced_length)
  then show ?thesis using length_dropWhile_le[of "\<lambda>c. c = 32 \<or> c = 10 \<or> c = 9" s] by simp
qed

definition symbol_kind :: "nat \<Rightarrow> tok_kind" where
  "symbol_kind c =
     (if c = 123 then Open else if c = 125 then Close else if c = 91 then Obrack else if c = 93 then Cbrack
      else if c = 94 then Sup else if c = 95 then Sub else Op)"

definition latex_blank :: "nat \<Rightarrow> bool" where
  "latex_blank c = (c = 32 \<or> c = 10 \<or> c = 9 \<or> c = 13)"

function tokenize :: "utext \<Rightarrow> tok list option" where
  "tokenize [] = Some []"
| "tokenize (c # cs) =
     (if latex_blank c then tokenize cs
      else if c = c_bsl then
        (let name = takeWhile latex_alpha cs; rest = dropWhile latex_alpha cs
         in if name = [] then
              (case cs of [] \<Rightarrow> None | d # ds \<Rightarrow> map_option (\<lambda>ts. token Cmd [d] # ts) (tokenize ds))
            else if has_name text_cmds name then
              (case read_braced rest of
                 None \<Rightarrow> None
               | Some (arg, after) \<Rightarrow> map_option (\<lambda>ts. token Cmd name # token Raw arg # ts) (tokenize after))
            else map_option (\<lambda>ts. token Cmd name # ts) (tokenize rest))
      else if latex_digit c then
        (let (v, rest) = read_num cs in map_option (\<lambda>ts. token Num (c # v) # ts) (tokenize rest))
      else if latex_alpha c then map_option (\<lambda>ts. token Ident [c] # ts) (tokenize cs)
      else if c \<in> set rejected_chars then None
      else map_option (\<lambda>ts. token (symbol_kind c) [c] # ts) (tokenize cs))"
  by pat_completeness auto
termination
proof (relation "measure length", goal_cases)
  case (4 c cs name rest u arg after)
  have "length after \<le> length rest" using read_braced_length 4 by auto
  then show ?case using 4 length_dropWhile_le[of latex_alpha cs] by simp
next
  case (6 c cs p v rest)
  then have "snd (read_num cs) = rest" by (metis snd_conv)
  then show ?case using read_num_length[of cs] by (simp add: less_Suc_eq_le)
qed (auto simp: less_Suc_eq_le length_dropWhile_le)
end
