(* ===== verification/MathParser.thy ===== *)
theory MathParser
  imports MathLatex
begin

text \<open>
  The parser of \<open>mathml.ts\<close>. A parse goes down by one call of \<open>parseAtom\<close> inside of another, which the
  functions below take as \<open>atom\<close>: a parse of the tokens left at a depth of groups. \<open>parse_atom\<close> ties the knot
  with a bound on the nesting, and \<open>No_fuel\<close> is what a call past the bound answers. A \<open>null\<close> is \<open>Unsupported\<close>; a \<open>TypeError\<close>, which the source
  does not mean to throw, is \<open>Type_error\<close>.
\<close>

section \<open>Elements\<close>

datatype mnode = Elem string "(string \<times> utext) list" "mnode list" | Txt utext

datatype math_fail = Unsupported | Type_error | No_fuel

definition mel :: "string \<Rightarrow> mnode list \<Rightarrow> mnode" where
  "mel tag children = Elem tag [] children"

definition set_attribute :: "string \<Rightarrow> utext \<Rightarrow> mnode \<Rightarrow> mnode" where
  "set_attribute k v n = (case n of Elem t as cs \<Rightarrow> Elem t (as @ [(k, v)]) cs | Txt s \<Rightarrow> Txt s)"

definition row :: "mnode list \<Rightarrow> mnode" where
  "row items = (case items of [only] \<Rightarrow> only | _ \<Rightarrow> mel ''mrow'' items)"

text \<open>A parsed atom, and whether its scripts stack.\<close>

type_synonym atom = "mnode \<times> bool"

definition plain :: "mnode \<Rightarrow> atom" where
  "plain n = (n, False)"

text \<open>What a browser spells for the source of a built-in function.\<close>

definition native_text :: "utext \<Rightarrow> utext" where
  "native_text name = (if name = tx ''__proto__'' then tx ''[object Object]''
     else tx ''function '' @ (if name = tx ''constructor'' then tx ''Object'' else name) @ tx ''() { [native code] }'')"

section \<open>Attaching scripts\<close>

definition attach_scripts :: "bool \<Rightarrow> atom \<Rightarrow> mnode option \<Rightarrow> mnode option \<Rightarrow> mnode" where
  "attach_scripts display base lower upper =
     (let stacked = display \<and> snd base
      in case (lower, upper) of
           (None, None) \<Rightarrow> fst base
         | (Some b, Some p) \<Rightarrow> mel (if stacked then ''munderover'' else ''msubsup'') [fst base, b, p]
         | (Some b, None) \<Rightarrow> mel (if stacked then ''munder'' else ''msub'') [fst base, b]
         | (None, Some p) \<Rightarrow> mel (if stacked then ''mover'' else ''msup'') [fst base, p])"

section \<open>Commands without arguments\<close>

text \<open>The tables, in the order they are read.\<close>

definition symbol_command :: "utext \<Rightarrow> math_fail + atom" where
  "symbol_command name =
     (case read_key space_cmds name of
        Own w \<Rightarrow> Inr (plain (set_attribute ''width'' w (mel ''mspace'' [])))
      | Inherited k \<Rightarrow> Inr (plain (set_attribute ''width'' (native_text k) (mel ''mspace'' [])))
      | Undefined \<Rightarrow>
     (case read_key underover_cmds name of
        Own v \<Rightarrow> Inr (mel ''mo'' [Txt v], True)
      | Inherited k \<Rightarrow> Inl Type_error
      | Undefined \<Rightarrow>
     (case read_key integral_cmds name of
        Own v \<Rightarrow> Inr (plain (mel ''mo'' [Txt v]))
      | Inherited k \<Rightarrow> Inl Type_error
      | Undefined \<Rightarrow>
     (case read_key ident_cmds name of
        Own v \<Rightarrow> Inr (plain (mel ''mi'' [Txt v]))
      | Inherited k \<Rightarrow> Inl Type_error
      | Undefined \<Rightarrow>
     (case read_key op_cmds name of
        Own v \<Rightarrow> Inr (plain (mel ''mo'' [Txt v]))
      | Inherited k \<Rightarrow> Inl Type_error
      | Undefined \<Rightarrow>
          if has_name func_cmds name then Inr (plain (mel ''mi'' [Txt name])) else Inl Unsupported)))))"

definition fence_command :: "tok list \<Rightarrow> math_fail + (atom \<times> tok list)" where
  "fence_command ts =
     (case ts of
        [] \<Rightarrow> Inl Unsupported
      | d # rest \<Rightarrow>
          (case read_key delims (tk_text d) of
             Undefined \<Rightarrow> Inl Unsupported
           | Inherited k \<Rightarrow> Inl Type_error
           | Own v \<Rightarrow>
               if v = [] then Inr (plain (mel ''mrow'' []), rest)
               else Inr (plain (set_attribute ''stretchy'' (tx ''true'') (mel ''mo'' [Txt v])), rest)))"

definition text_command :: "utext \<Rightarrow> tok list \<Rightarrow> math_fail + (atom \<times> tok list)" where
  "text_command name ts =
     (case ts of
        [] \<Rightarrow> Inl Unsupported
      | arg # rest \<Rightarrow>
          if tk_kind arg \<noteq> Raw then Inl Unsupported
          else if name = tx ''text'' \<or> name = tx ''textrm'' then Inr (plain (mel ''mtext'' [Txt (tk_text arg)]), rest)
          else Inr (plain (set_attribute ''mathvariant'' (tx ''normal'') (mel ''mi'' [Txt (tk_text arg)])), rest))"

section \<open>The parser\<close>

type_synonym 'a parse = "math_fail + ('a \<times> tok list)"

definition then_parse :: "'a parse \<Rightarrow> ('a \<Rightarrow> tok list \<Rightarrow> 'b parse) \<Rightarrow> 'b parse" where
  "then_parse p f = (case p of Inl e \<Rightarrow> Inl e | Inr (x, ts) \<Rightarrow> f x ts)"

type_synonym atom_parser = "nat \<Rightarrow> tok list \<Rightarrow> atom parse"

text \<open>The loop of \<open>parseSeq\<close>; an item takes a token at least, so the tokens bound its rounds.\<close>

primrec seq_loop :: "nat \<Rightarrow> (tok list \<Rightarrow> mnode parse) \<Rightarrow> tok_kind option \<Rightarrow> tok list \<Rightarrow> mnode list parse" where
  "seq_loop 0 item stop ts = Inl No_fuel"
| "seq_loop (Suc n) item stop ts =
     (if ts = [] \<or> stop = Some (tk_kind (hd ts)) then Inr ([], ts)
      else then_parse (item ts) (\<lambda>x ts1. then_parse (seq_loop n item stop ts1) (\<lambda>xs ts2. Inr (x # xs, ts2))))"

text \<open>An opening brace is \<open>parseGroup\<close>'s, as it is in \<open>parseAtom\<close>.\<close>

definition parse_arg :: "(tok list \<Rightarrow> atom parse) \<Rightarrow> tok list \<Rightarrow> mnode parse" where
  "parse_arg atom ts =
     (case ts of
        [] \<Rightarrow> Inl Unsupported
      | t # rest \<Rightarrow>
          if tk_kind t = Num \<and> 1 < length (tk_text t) then
            Inr (mel ''mn'' [Txt (take 1 (tk_text t))], token Num (drop 1 (tk_text t)) # rest)
          else then_parse (atom ts) (\<lambda>a ts1. Inr (fst a, ts1)))"

text \<open>The loop of \<open>applyScripts\<close>: each round fills one of the two.\<close>

function apply_scripts :: "bool \<Rightarrow> (tok list \<Rightarrow> mnode parse) \<Rightarrow> atom \<Rightarrow> mnode option \<Rightarrow> mnode option \<Rightarrow> tok list \<Rightarrow> mnode parse" where
  "apply_scripts display arg base lower upper ts =
     (if ts \<noteq> [] \<and> tk_kind (hd ts) = Sub \<and> lower = None then
        then_parse (arg (tl ts)) (\<lambda>b ts1. apply_scripts display arg base (Some b) upper ts1)
      else if ts \<noteq> [] \<and> tk_kind (hd ts) = Sup \<and> upper = None then
        then_parse (arg (tl ts)) (\<lambda>p ts1. apply_scripts display arg base lower (Some p) ts1)
      else Inr (attach_scripts display base lower upper, ts))"
  by pat_completeness auto
termination
  by (relation "measure (\<lambda>(d, g, b, l, u, ts). (if l = None then 1 else 0) + (if u = None then 1 else 0))") auto

declare apply_scripts.simps [simp del]

definition parse_item :: "bool \<Rightarrow> (tok list \<Rightarrow> atom parse) \<Rightarrow> tok list \<Rightarrow> mnode parse" where
  "parse_item display atom ts =
     then_parse (atom ts) (\<lambda>base ts1. apply_scripts display (parse_arg atom) base None None ts1)"

definition parse_seq :: "bool \<Rightarrow> (tok list \<Rightarrow> atom parse) \<Rightarrow> tok_kind option \<Rightarrow> tok list \<Rightarrow> mnode list parse" where
  "parse_seq display atom stop ts = seq_loop (Suc (length ts)) (parse_item display atom) stop ts"

section \<open>Groups and commands\<close>

definition parse_group :: "bool \<Rightarrow> atom_parser \<Rightarrow> nat \<Rightarrow> tok list \<Rightarrow> mnode parse" where
  "parse_group display atom depth ts =
     (if max_depth \<le> depth then Inl Unsupported
      else then_parse (parse_seq display (atom (depth + 1)) (Some Close) (tl ts))
             (\<lambda>items ts1. case ts1 of
                [] \<Rightarrow> Inl Unsupported
              | t # rest \<Rightarrow> if tk_kind t \<noteq> Close then Inl Unsupported
                            else Inr (if items = [] then mel ''mrow'' [] else row items, rest)))"

text \<open>The root's index in brackets, when there is one.\<close>

definition root_index :: "bool \<Rightarrow> (tok list \<Rightarrow> atom parse) \<Rightarrow> tok list \<Rightarrow> mnode option parse" where
  "root_index display atom ts =
     (if ts \<noteq> [] \<and> tk_kind (hd ts) = Obrack then
        then_parse (parse_seq display atom (Some Cbrack) (tl ts))
          (\<lambda>items ts1. case ts1 of
             [] \<Rightarrow> Inl Unsupported
           | t # rest \<Rightarrow> if tk_kind t \<noteq> Cbrack then Inl Unsupported
                         else Inr (Some (if items = [] then mel ''mrow'' [] else row items), rest))
      else Inr (None, ts))"

definition parse_command :: "bool \<Rightarrow> (tok list \<Rightarrow> atom parse) \<Rightarrow> utext \<Rightarrow> tok list \<Rightarrow> atom parse" where
  "parse_command display atom name ts =
     (if name = tx ''frac'' \<or> name = tx ''dfrac'' \<or> name = tx ''tfrac'' then
        then_parse (parse_arg atom ts)
          (\<lambda>num ts1. then_parse (parse_arg atom ts1) (\<lambda>den ts2. Inr (plain (mel ''mfrac'' [num, den]), ts2)))
      else if name = tx ''sqrt'' then
        then_parse (root_index display atom ts)
          (\<lambda>index ts1. then_parse (parse_arg atom ts1)
             (\<lambda>arg ts2. Inr (plain (case index of None \<Rightarrow> mel ''msqrt'' [arg] | Some i \<Rightarrow> mel ''mroot'' [arg, i]), ts2)))
      else if name = tx ''left'' \<or> name = tx ''right'' then fence_command ts
      else if has_name text_cmds name then text_command name ts
      else case symbol_command name of Inl e \<Rightarrow> Inl e | Inr a \<Rightarrow> Inr (a, ts))"

primrec parse_atom :: "nat \<Rightarrow> bool \<Rightarrow> atom_parser" where
  "parse_atom 0 display = (\<lambda>depth ts. Inl No_fuel)"
| "parse_atom (Suc n) display = (\<lambda>depth ts.
     case ts of
       [] \<Rightarrow> Inl Unsupported
     | t # rest \<Rightarrow>
         (case tk_kind t of
            Num \<Rightarrow> Inr (plain (mel ''mn'' [Txt (tk_text t)]), rest)
          | Ident \<Rightarrow> Inr (plain (mel ''mi'' [Txt (tk_text t)]), rest)
          | Op \<Rightarrow> Inr (plain (mel ''mo'' [Txt (if tk_text t = [39] then [8242] else tk_text t)]), rest)
          | Obrack \<Rightarrow> Inr (plain (mel ''mo'' [Txt (tk_text t)]), rest)
          | Cbrack \<Rightarrow> Inr (plain (mel ''mo'' [Txt (tk_text t)]), rest)
          | Open \<Rightarrow> then_parse (parse_group display (parse_atom n display) depth ts) (\<lambda>g ts1. Inr (plain g, ts1))
          | Cmd \<Rightarrow> parse_command display (parse_atom n display depth) (tk_text t) rest
          | Close \<Rightarrow> Inl Unsupported
          | Sup \<Rightarrow> Inl Unsupported
          | Sub \<Rightarrow> Inl Unsupported
          | Raw \<Rightarrow> Inl Unsupported))"

text \<open>An atom in an atom has a token less before it, so the tokens bound the nesting: \<open>MathFacts\<close>.\<close>

definition latex_to_mathml :: "utext \<Rightarrow> bool \<Rightarrow> math_fail + mnode" where
  "latex_to_mathml src display =
     (if src = [] \<or> max_src < length src \<or> list_all is_space src then Inl Unsupported
      else case tokenize src of
             None \<Rightarrow> Inl Unsupported
           | Some toks \<Rightarrow>
               if toks = [] then Inl Unsupported
               else (case parse_seq display (parse_atom (Suc (length toks)) display 0) None toks of
                       Inl e \<Rightarrow> Inl e
                     | Inr (items, rest) \<Rightarrow>
                         if items = [] \<or> rest \<noteq> [] then Inl Unsupported
                         else (let math = mel ''math'' [row items]
                               in Inr (if display then set_attribute ''display'' (tx ''block'') math else math))))"
end
