(* ===== verification/MathFacts.thy ===== *)
theory MathFacts
  imports MathParser
begin

text \<open>
  What a conversion keeps: it ends, the tree is one that MathML has a meaning for, and the brace tokens it accepts, those a
  \<open>\left\<close> or \<open>\right\<close> takes aside, are balanced and nest no deeper than the ceiling.
\<close>

section \<open>Braces and trees\<close>

text \<open>The braces of the tokens, but for the one a \<open>\left\<close> or a \<open>\right\<close> takes as its delimiter.\<close>

function braces :: "tok list \<Rightarrow> tok_kind list" where
  "braces [] = []"
| "braces (t # ts) =
     (if tk_kind t = Cmd \<and> (tk_text t = tx ''left'' \<or> tk_text t = tx ''right'') then braces (tl ts)
      else if tk_kind t = Open \<or> tk_kind t = Close then tk_kind t # braces ts
      else braces ts)"
  by pat_completeness auto
termination by (relation "measure length") auto

text \<open>The depth after them, from a depth before; none when they go below zero or above the ceiling.\<close>

fun brace_depth :: "nat \<Rightarrow> tok_kind list \<Rightarrow> nat option" where
  "brace_depth d [] = Some d"
| "brace_depth d (Open # ks) = (if max_depth \<le> d then None else brace_depth (d + 1) ks)"
| "brace_depth d (Close # ks) = (if d = 0 then None else brace_depth (d - 1) ks)"
| "brace_depth d (k # ks) = brace_depth d ks"

lemma brace_depth_append: "brace_depth d ks = Some e \<Longrightarrow> brace_depth d (ks @ ls) = brace_depth e ls"
  by (induction d ks rule: brace_depth.induct) (auto split: if_splits)

definition arity :: "string \<Rightarrow> nat \<Rightarrow> bool" where
  "arity tag n =
     (if tag \<in> {''mfrac'', ''msub'', ''msup'', ''munder'', ''mover'', ''mroot''} then n = 2
      else if tag \<in> {''msubsup'', ''munderover''} then n = 3
      else if tag \<in> {''msqrt'', ''math''} then n = 1
      else tag = ''mrow'' \<or> (tag = ''mspace'' \<and> n = 0))"

text \<open>The arity of every element is MathML's, and text is in the token elements alone.\<close>

fun well_formed :: "mnode \<Rightarrow> bool" where
  "well_formed (Txt s) = False"
| "well_formed (Elem tag as cs) =
     (if tag \<in> {''mn'', ''mi'', ''mo'', ''mtext''} then (case cs of [Txt s] \<Rightarrow> True | _ \<Rightarrow> False)
      else arity tag (length cs) \<and> list_all well_formed cs)"

lemma well_formed_row: "list_all well_formed items \<Longrightarrow> well_formed (row items)"
  by (auto simp: row_def mel_def arity_def split: list.split)

lemma well_formed_attr [simp]: "well_formed (set_attribute k v n) = well_formed n"
  by (cases n) (simp_all add: set_attribute_def)

lemma well_formed_scripts:
  "well_formed (fst base) \<Longrightarrow> pred_option well_formed l \<Longrightarrow> pred_option well_formed u
   \<Longrightarrow> well_formed (attach_scripts display base l u)"
  by (cases l; cases u) (auto simp: attach_scripts_def Let_def mel_def arity_def)

section \<open>What a parse takes\<close>

definition eats :: "nat \<Rightarrow> tok list \<Rightarrow> tok list \<Rightarrow> bool" where
  "eats d ts ts' = (length ts' \<le> length ts \<and> (\<exists>pre. braces ts = pre @ braces ts' \<and> brace_depth d pre = Some d))"

lemma eats_refl [simp]: "eats d ts ts"
  by (auto simp: eats_def)

lemma eats_trans: "eats d a b \<Longrightarrow> eats d b c \<Longrightarrow> eats d a c"
  unfolding eats_def using brace_depth_append by (metis append.assoc order_trans)

lemma eats_length: "eats d a b \<Longrightarrow> length b \<le> length a"
  by (simp add: eats_def)

lemma eats_plain: "tk_kind t \<notin> {Open, Close, Cmd} \<Longrightarrow> eats d (t # ts) ts"
  by (auto simp: eats_def)

lemma eats_cmd: "tk_kind t = Cmd \<Longrightarrow> tk_text t \<noteq> tx ''left'' \<Longrightarrow> tk_text t \<noteq> tx ''right'' \<Longrightarrow> eats d (t # ts) ts"
  by (auto simp: eats_def)

lemma eats_fence: "tk_kind t = Cmd \<Longrightarrow> tk_text t = tx ''left'' \<or> tk_text t = tx ''right'' \<Longrightarrow> eats d (t # u # ts) ts"
  by (auto simp: eats_def)

lemma eats_num: "tk_kind t = Num \<Longrightarrow> tk_kind u = Num \<Longrightarrow> eats d (t # ts) (u # ts)"
  by (auto simp: eats_def)

lemma eats_group:
  assumes "eats (d + 1) ts (u # rest)" and "tk_kind t = Open" and "tk_kind u = Close" and "d < max_depth"
  shows "eats d (t # ts) rest"
proof -
  obtain pre where pre: "braces ts = pre @ Close # braces rest" "brace_depth (d + 1) pre = Some (d + 1)"
    using assms(1,3) by (auto simp: eats_def)
  have "brace_depth d (Open # pre @ [Close]) = Some d"
    using brace_depth_append[OF pre(2), of "[Close]"] assms(4) by simp
  then show ?thesis using assms(1-3) pre(1) by (auto simp: eats_def intro!: exI[of _ "Open # pre @ [Close]"])
qed

text \<open>A parse at a depth: what it takes is balanced, its value is good, and it takes a token when \<open>strict\<close>.\<close>

definition good_parse :: "bool \<Rightarrow> nat \<Rightarrow> ('a \<Rightarrow> bool) \<Rightarrow> (tok list \<Rightarrow> 'a parse) \<Rightarrow> bool" where
  "good_parse strict d Q p = (\<forall>ts x ts'. p ts = Inr (x, ts') \<longrightarrow> eats d ts ts' \<and> Q x \<and> (strict \<longrightarrow> length ts' < length ts))"

lemma good_parseD: "good_parse strict d Q p \<Longrightarrow> p ts = Inr (x, ts') \<Longrightarrow> eats d ts ts' \<and> Q x \<and> (strict \<longrightarrow> length ts' < length ts)"
  by (simp add: good_parse_def)

lemma then_parse_Inr: "(then_parse p f = Inr r) = (\<exists>x ts. p = Inr (x, ts) \<and> f x ts = Inr r)"
  by (auto simp: then_parse_def split: sum.split)

abbreviation good_atom :: "nat \<Rightarrow> (tok list \<Rightarrow> atom parse) \<Rightarrow> bool" where
  "good_atom d \<equiv> good_parse True d (\<lambda>a. well_formed (fst a))"

lemma good_arg: "good_atom d atom \<Longrightarrow> good_parse False d well_formed (parse_arg atom)"
  unfolding good_parse_def
proof (intro allI impI)
  fix ts x ts'
  assume a: "\<forall>ts x ts'. atom ts = Inr (x, ts') \<longrightarrow> eats d ts ts' \<and> well_formed (fst x) \<and> (True \<longrightarrow> length ts' < length ts)"
    and p: "parse_arg atom ts = Inr (x, ts')"
  obtain t rest where ts: "ts = t # rest" using p by (cases ts) (simp_all add: parse_arg_def)
  show "eats d ts ts' \<and> well_formed x \<and> (False \<longrightarrow> length ts' < length ts)"
  proof (cases "tk_kind t = Num \<and> 1 < length (tk_text t)")
    case True
    then show ?thesis using p eats_num[of t "token Num (drop 1 (tk_text t))" d rest]
      by (auto simp: ts parse_arg_def mel_def token_def)
  next
    case False
    then show ?thesis using p a by (fastforce simp: ts parse_arg_def then_parse_Inr)
  qed
qed

lemma good_scripts:
  assumes "good_parse False d well_formed arg" and "well_formed (fst base)" and "pred_option well_formed l" and "pred_option well_formed u"
    and "apply_scripts display arg base l u ts = Inr (x, ts')"
  shows "eats d ts ts' \<and> well_formed x"
  using assms
proof (induction display arg base l u ts rule: apply_scripts.induct)
  case (1 display arg base l u ts)
  note IH = 1(1,2) and arg = 1(3) and wf = 1(4-6) and run = 1(7)
  show ?case
  proof (cases "ts \<noteq> [] \<and> tk_kind (hd ts) = Sub \<and> l = None")
    case True
    then obtain b ts1 where b: "arg (tl ts) = Inr (b, ts1)" "apply_scripts display arg base (Some b) u ts1 = Inr (x, ts')"
      using run[unfolded apply_scripts.simps[of display arg base l u ts]] True by (auto simp: then_parse_Inr)
    have g: "eats d (tl ts) ts1" "well_formed b" using good_parseD[OF arg b(1)] by simp_all
    have "eats d ts1 ts' \<and> well_formed x" by (rule IH(1)[OF True arg wf(1) _ wf(3) b(2)]) (simp add: g(2))
    moreover have "eats d ts (tl ts)" using True eats_plain[of "hd ts" d "tl ts"] by (cases ts) auto
    ultimately show ?thesis using g(1) eats_trans by blast
  next
    case no: False
    show ?thesis
    proof (cases "ts \<noteq> [] \<and> tk_kind (hd ts) = Sup \<and> u = None")
      case True
      then obtain b ts1 where b: "arg (tl ts) = Inr (b, ts1)" "apply_scripts display arg base l (Some b) ts1 = Inr (x, ts')"
        using run[unfolded apply_scripts.simps[of display arg base l u ts] if_not_P[OF no]] True by (auto simp: then_parse_Inr)
      have g: "eats d (tl ts) ts1" "well_formed b" using good_parseD[OF arg b(1)] by simp_all
      have "eats d ts1 ts' \<and> well_formed x" by (rule IH(2)[OF no True arg wf(1,2) _ b(2)]) (simp add: g(2))
      moreover have "eats d ts (tl ts)" using True eats_plain[of "hd ts" d "tl ts"] by (cases ts) auto
      ultimately show ?thesis using g(1) eats_trans by blast
    next
      case False
      then show ?thesis using run[unfolded apply_scripts.simps[of display arg base l u ts] if_not_P[OF no]] well_formed_scripts[OF wf] by auto
    qed
  qed
qed

lemma good_item: "good_atom d atom \<Longrightarrow> good_parse True d well_formed (parse_item display atom)"
  unfolding good_parse_def[of True d well_formed]
proof (intro allI impI)
  fix ts x ts'
  assume g: "good_atom d atom" and p: "parse_item display atom ts = Inr (x, ts')"
  obtain base ts1 where b: "atom ts = Inr (base, ts1)" "apply_scripts display (parse_arg atom) base None None ts1 = Inr (x, ts')"
    using p by (auto simp: parse_item_def then_parse_Inr)
  have a: "eats d ts ts1" "well_formed (fst base)" "length ts1 < length ts" using good_parseD[OF g b(1)] by simp_all
  have s: "eats d ts1 ts' \<and> well_formed x" by (rule good_scripts[OF good_arg[OF g] a(2) _ _ b(2)]) simp_all
  then show "eats d ts ts' \<and> well_formed x \<and> (True \<longrightarrow> length ts' < length ts)"
    using a eats_trans[of d ts ts1 ts'] eats_length[of d ts1 ts'] by auto
qed

lemma good_loop:
  assumes "good_parse True d well_formed item" and "seq_loop n item stop ts = Inr (xs, ts')"
  shows "eats d ts ts' \<and> list_all well_formed xs \<and> (ts' = [] \<or> stop = Some (tk_kind (hd ts')))"
  using assms(2)
proof (induction n arbitrary: ts xs)
  case (Suc n)
  show ?case
  proof (cases "ts = [] \<or> stop = Some (tk_kind (hd ts))")
    case True
    then show ?thesis using Suc.prems by auto
  next
    case False
    then obtain x ts1 ys where x: "item ts = Inr (x, ts1)" "seq_loop n item stop ts1 = Inr (ys, ts')" "xs = x # ys"
      using Suc.prems by (auto simp: then_parse_Inr)
    then show ?thesis using good_parseD[OF assms(1) x(1)] Suc.IH[OF x(2)] eats_trans by auto
  qed
qed simp

lemma good_seq:
  assumes "good_atom d atom" and "parse_seq display atom stop ts = Inr (xs, ts')"
  shows "eats d ts ts' \<and> list_all well_formed xs \<and> (ts' = [] \<or> stop = Some (tk_kind (hd ts')))"
  using good_loop[OF good_item[OF assms(1)]] assms(2) unfolding parse_seq_def .

lemma row_or_empty: "list_all well_formed items \<Longrightarrow> well_formed (if items = [] then mel ''mrow'' [] else row items)"
  using well_formed_row by (simp add: mel_def arity_def)

lemma good_group:
  assumes "good_atom (d + 1) (atom (d + 1))" and "ts = t # rest" and "tk_kind t = Open"
    and "parse_group display atom d ts = Inr (x, ts')"
  shows "eats d ts ts' \<and> well_formed x \<and> length ts' < length ts"
proof -
  have d: "d < max_depth" using assms(4) by (auto simp: parse_group_def split: if_splits)
  then obtain items ts1 where s: "parse_seq display (atom (d + 1)) (Some Close) rest = Inr (items, ts1)"
    "(case ts1 of [] \<Rightarrow> Inl Unsupported
        | u # r \<Rightarrow> if tk_kind u \<noteq> Close then Inl Unsupported else Inr (if items = [] then mel ''mrow'' [] else row items, r)) = Inr (x, ts')"
    using assms(2,4) by (auto simp: parse_group_def then_parse_Inr)
  then obtain u where u: "ts1 = u # ts'" "tk_kind u = Close" "x = (if items = [] then mel ''mrow'' [] else row items)"
    by (cases ts1) (auto split: if_splits)
  note g = good_seq[OF assms(1) s(1)]
  have "eats d (t # rest) ts'" using eats_group[of d rest u ts' t] g u(1,2) assms(3) d by simp
  moreover have "well_formed x" using row_or_empty g u(3) by simp
  moreover have "length ts' < length ts" using eats_length[of "d + 1" rest ts1] g u(1) assms(2) by simp
  ultimately show ?thesis using assms(2) by simp
qed

lemma good_index:
  assumes "good_atom d atom" and "root_index display atom ts = Inr (i, ts')"
  shows "eats d ts ts' \<and> pred_option well_formed i"
proof (cases "ts \<noteq> [] \<and> tk_kind (hd ts) = Obrack")
  case True
  then obtain t rest where ts: "ts = t # rest" "tk_kind t = Obrack" by (cases ts) auto
  obtain items ts1 where s: "parse_seq display atom (Some Cbrack) rest = Inr (items, ts1)"
    "(case ts1 of [] \<Rightarrow> Inl Unsupported
        | u # r \<Rightarrow> if tk_kind u \<noteq> Cbrack then Inl Unsupported else Inr (Some (if items = [] then mel ''mrow'' [] else row items), r)) = Inr (i, ts')"
    using assms(2) True ts by (auto simp: root_index_def then_parse_Inr)
  then obtain u where u: "ts1 = u # ts'" "tk_kind u = Cbrack" "i = Some (if items = [] then mel ''mrow'' [] else row items)"
    by (cases ts1) (auto split: if_splits)
  note g = good_seq[OF assms(1) s(1)]
  have "eats d ts rest" "eats d ts1 ts'" using eats_plain[of t d rest] eats_plain[of u d ts'] ts u by simp_all
  then have "eats d ts ts'" using g eats_trans by blast
  then show ?thesis using row_or_empty g u(3) by simp
next
  case False
  then show ?thesis using assms(2) by (auto simp: root_index_def)
qed

lemma good_symbol: "symbol_command name = Inr a \<Longrightarrow> well_formed (fst a)"
  by (auto simp: symbol_command_def plain_def mel_def set_attribute_def arity_def split: js_slot.splits if_splits)

lemma good_command:
  assumes "good_atom d atom" and "tk_kind t = Cmd" and "parse_command display atom (tk_text t) ts = Inr (a, ts')"
  shows "eats d (t # ts) ts' \<and> well_formed (fst a) \<and> length ts' < length (t # ts)"
proof -
  note arg = good_parseD[OF good_arg[OF assms(1)]]
  consider (frac) "tk_text t = tx ''frac'' \<or> tk_text t = tx ''dfrac'' \<or> tk_text t = tx ''tfrac''"
    | (sqrt) "tk_text t = tx ''sqrt''" | (fence) "tk_text t = tx ''left'' \<or> tk_text t = tx ''right''"
    | (literal) "tk_text t \<notin> {tx ''frac'', tx ''dfrac'', tx ''tfrac'', tx ''sqrt'', tx ''left'', tx ''right''}" "has_name text_cmds (tk_text t)"
    | (symbol) "tk_text t \<notin> {tx ''frac'', tx ''dfrac'', tx ''tfrac'', tx ''sqrt'', tx ''left'', tx ''right''}" "\<not> has_name text_cmds (tk_text t)"
    by blast
  then have "eats d (t # ts) ts' \<and> well_formed (fst a) \<and> length ts' \<le> length ts"
  proof cases
    case frac
    then obtain n ts1 m where p: "parse_arg atom ts = Inr (n, ts1)" "parse_arg atom ts1 = Inr (m, ts')" "a = plain (mel ''mfrac'' [n, m])"
      using assms(3) by (auto simp: parse_command_def then_parse_Inr)
    have "eats d (t # ts) ts" by (rule eats_cmd) (use frac assms(2) in \<open>auto simp: tx_def\<close>)
    then have "eats d (t # ts) ts'" using arg[OF p(1)] arg[OF p(2)] eats_trans by blast
    moreover have "length ts' \<le> length ts"
      using arg[OF p(1)] arg[OF p(2)] eats_length[of d ts ts1] eats_length[of d ts1 ts'] by linarith
    moreover have "well_formed (fst a)" using arg[OF p(1)] arg[OF p(2)] p(3) by (simp add: plain_def mel_def arity_def)
    ultimately show ?thesis by simp
  next
    case sqrt
    then obtain i ts1 r where p: "root_index display atom ts = Inr (i, ts1)" "parse_arg atom ts1 = Inr (r, ts')"
        "a = plain (case i of None \<Rightarrow> mel ''msqrt'' [r] | Some j \<Rightarrow> mel ''mroot'' [r, j])"
      using assms(3) by (auto simp: parse_command_def then_parse_Inr tx_def)
    have "eats d (t # ts) ts" by (rule eats_cmd) (use sqrt assms(2) in \<open>auto simp: tx_def\<close>)
    then have "eats d (t # ts) ts'" using arg[OF p(2)] good_index[OF assms(1) p(1)] eats_trans by blast
    moreover have "length ts' \<le> length ts"
      using arg[OF p(2)] good_index[OF assms(1) p(1)] eats_length[of d ts ts1] eats_length[of d ts1 ts'] by linarith
    moreover have "well_formed (fst a)" using arg[OF p(2)] good_index[OF assms(1) p(1)] p(3)
      by (cases i) (simp_all add: plain_def mel_def arity_def)
    ultimately show ?thesis by simp
  next
    case fence
    then have "fence_command ts = Inr (a, ts')" using assms(3) by (auto simp: parse_command_def tx_def)
    then obtain u where "ts = u # ts'" "well_formed (fst a)"
      by (auto simp: fence_command_def plain_def mel_def set_attribute_def arity_def split: list.splits js_slot.splits if_splits)
    then show ?thesis using eats_fence[OF assms(2) fence] by simp
  next
    case literal
    then have "text_command (tk_text t) ts = Inr (a, ts')" using assms(3) by (auto simp: parse_command_def)
    then obtain u where u: "ts = u # ts'" "tk_kind u = Raw" "well_formed (fst a)"
      by (auto simp: text_command_def plain_def mel_def set_attribute_def arity_def split: list.splits if_splits)
    have "eats d (t # ts) ts" by (rule eats_cmd) (use literal assms(2) in auto)
    moreover have "eats d ts ts'" using u eats_plain[of u d ts'] by simp
    ultimately show ?thesis using u eats_trans by auto
  next
    case symbol
    then have s: "symbol_command (tk_text t) = Inr a" "ts' = ts" using assms(3) by (auto simp: parse_command_def split: sum.splits)
    have "eats d (t # ts) ts" by (rule eats_cmd) (use symbol assms(2) in auto)
    then show ?thesis using good_symbol[OF s(1)] s(2) by simp
  qed
  then show ?thesis by simp
qed

lemma good_parse_atom: "good_atom d (parse_atom n display d)"
proof (induction n arbitrary: d)
  case 0
  then show ?case by (simp add: good_parse_def)
next
  case (Suc n)
  show ?case
    unfolding good_parse_def
  proof (intro allI impI)
    fix ts a ts'
    assume p: "parse_atom (Suc n) display d ts = Inr (a, ts')"
    obtain t rest where ts: "ts = t # rest" using p by (cases ts) simp_all
    have "eats d ts ts' \<and> well_formed (fst a) \<and> length ts' < length ts"
    proof (cases "tk_kind t")
      case Open
      then obtain g where g: "parse_group display (parse_atom n display) d ts = Inr (g, ts')" "a = plain g"
        using p by (auto simp: ts then_parse_Inr)
      show ?thesis using good_group[OF Suc.IH ts Open g(1)] g(2) by (simp add: plain_def)
    next
      case Cmd
      then have "parse_command display (parse_atom n display d) (tk_text t) rest = Inr (a, ts')" using p by (simp add: ts)
      then show ?thesis using good_command[OF Suc.IH Cmd] ts by simp
    qed (use p eats_plain[of t d rest] in \<open>simp_all add: ts plain_def mel_def\<close>, auto)
    then show "eats d ts ts' \<and> well_formed (fst a) \<and> (True \<longrightarrow> length ts' < length ts)" by simp
  qed
qed

text \<open>
  A conversion ends: every call of \<open>parseAtom\<close> in another is past a token of it, so the fuel
  \<open>latex_to_mathml\<close> gives is never used up.
\<close>

definition no_stall :: "nat \<Rightarrow> (tok list \<Rightarrow> 'a parse) \<Rightarrow> bool" where
  "no_stall n p = (\<forall>ts. length ts < n \<longrightarrow> p ts \<noteq> Inl No_fuel)"

lemma no_stallD: "no_stall n p \<Longrightarrow> length ts < n \<Longrightarrow> p ts \<noteq> Inl No_fuel"
  by (simp add: no_stall_def)

lemma then_parse_stall: "(then_parse p f = Inl No_fuel) = (p = Inl No_fuel \<or> (\<exists>x ts. p = Inr (x, ts) \<and> f x ts = Inl No_fuel))"
  by (auto simp: then_parse_def split: sum.split)

text \<open>A parse of what a good parse leaves has no more tokens than it.\<close>

lemma good_leaves: "good_parse strict d Q p \<Longrightarrow> p ts = Inr (x, ts') \<Longrightarrow> length ts' \<le> length ts"
  by (auto dest!: good_parseD eats_length)

lemma good_strict: "good_parse True d Q p \<Longrightarrow> p ts = Inr (x, ts') \<Longrightarrow> length ts' < length ts"
  by (auto dest!: good_parseD)

lemma arg_no_stall: "no_stall n atom \<Longrightarrow> no_stall n (parse_arg atom)"
  by (auto simp: no_stall_def parse_arg_def then_parse_stall split: list.split)

lemma scripts_no_stall:
  assumes "good_parse False d well_formed arg" and "no_stall n arg" and "length ts < n"
  shows "apply_scripts display arg base l u ts \<noteq> Inl No_fuel"
  using assms
proof (induction display arg base l u ts rule: apply_scripts.induct)
  case (1 display arg base l u ts)
  have arg: "arg (tl ts) \<noteq> Inl No_fuel" using 1(4,5) by (auto simp: no_stall_def)
  have left: "length r < n" if "arg (tl ts) = Inr (x, r)" for x r
    using good_leaves[OF 1(3) that] 1(5) by (simp add: less_diff_conv)
  show ?case
    using 1(1)[OF _ 1(3,4) left] 1(2)[OF _ _ 1(3,4) left] arg
    by (subst apply_scripts.simps) (auto simp: then_parse_stall)
qed

lemma item_no_stall:
  assumes "good_atom d atom" and "no_stall n atom"
  shows "no_stall n (parse_item display atom)"
  unfolding no_stall_def parse_item_def
proof (intro allI impI notI)
  fix ts assume ts: "length ts < n"
    and p: "then_parse (atom ts) (\<lambda>base ts1. apply_scripts display (parse_arg atom) base None None ts1) = Inl No_fuel"
  then obtain base ts1 where b: "atom ts = Inr (base, ts1)" "apply_scripts display (parse_arg atom) base None None ts1 = Inl No_fuel"
    using no_stallD[OF assms(2) ts] by (auto simp: then_parse_stall)
  have "length ts1 < n" using good_leaves[OF assms(1) b(1)] ts by simp
  then show False using scripts_no_stall[OF good_arg[OF assms(1)] arg_no_stall[OF assms(2)]] b(2) by blast
qed

lemma loop_no_stall:
  assumes "good_parse True d Q item" and "no_stall n item"
  shows "length ts < m \<Longrightarrow> length ts < n \<Longrightarrow> seq_loop m item stop ts \<noteq> Inl No_fuel"
proof (induction m arbitrary: ts)
  case (Suc m)
  have "seq_loop m item stop ts1 \<noteq> Inl No_fuel" if "item ts = Inr (x, ts1)" for x ts1
    using Suc.IH[of ts1] good_strict[OF assms(1) that] Suc.prems by simp
  then show ?case using no_stallD[OF assms(2) Suc.prems(2)] by (auto simp: then_parse_stall)
qed simp

lemma seq_no_stall:
  assumes "good_atom d atom" and "no_stall n atom"
  shows "no_stall n (parse_seq display atom stop)"
  using loop_no_stall[OF good_item[OF assms(1)] item_no_stall[OF assms]] by (simp add: no_stall_def parse_seq_def del: seq_loop.simps)

lemma group_no_stall:
  assumes "good_atom (d + 1) (atom (d + 1))" and "no_stall n (atom (d + 1))" and "length ts < n"
  shows "parse_group display atom d (t # ts) \<noteq> Inl No_fuel"
  using no_stallD[OF seq_no_stall[OF assms(1,2)] assms(3)]
  by (auto simp: parse_group_def then_parse_stall split: list.splits if_splits)

lemma index_no_stall:
  assumes "good_atom d atom" and "no_stall n atom"
  shows "no_stall n (root_index display atom)"
  using no_stallD[OF seq_no_stall[OF assms]]
  by (auto simp: no_stall_def root_index_def then_parse_stall split: list.splits if_splits)

lemma symbol_no_stall: "symbol_command name \<noteq> Inl No_fuel"
  by (auto simp: symbol_command_def split: js_slot.splits)

lemma command_no_stall:
  assumes "good_atom d atom" and "no_stall n atom" and ts: "length ts < n"
  shows "parse_command display atom name ts \<noteq> Inl No_fuel"
proof -
  note arg = no_stallD[OF arg_no_stall[OF assms(2)]]
  have a: "parse_arg atom r \<noteq> Inl No_fuel" if "parse_arg atom ts = Inr (x, r)" for x r
    using arg[of r] good_leaves[OF good_arg[OF assms(1)] that] ts by simp
  have i: "parse_arg atom r \<noteq> Inl No_fuel" if "root_index display atom ts = Inr (x, r)" for x r
    using arg[of r] good_index[OF assms(1) that] eats_length[of d ts r] ts by simp
  show ?thesis
    using a i arg[OF ts] no_stallD[OF index_no_stall[OF assms(1,2)] ts] symbol_no_stall[of name]
    by (auto simp: parse_command_def then_parse_stall fence_command_def text_command_def
        split: list.splits js_slot.splits sum.splits if_splits)
qed

lemma atom_no_stall: "no_stall n (parse_atom n display d)"
proof (induction n arbitrary: d)
  case 0
  then show ?case by (simp add: no_stall_def)
next
  case (Suc n)
  show ?case
    unfolding no_stall_def
  proof (intro allI impI)
    fix ts :: "tok list"
    assume l: "length ts < Suc n"
    show "parse_atom (Suc n) display d ts \<noteq> Inl No_fuel"
    proof (cases ts)
      case (Cons t rest)
      then have r: "length rest < n" using l by simp
      show ?thesis
        using group_no_stall[of d "parse_atom n display", OF good_parse_atom Suc.IH r] command_no_stall[OF good_parse_atom Suc.IH r] Cons
        by (cases "tk_kind t") (auto simp: then_parse_stall)
    qed simp
  qed
qed

lemma top_no_stall: "parse_seq display (parse_atom (Suc (length toks)) display 0) stop toks \<noteq> Inl No_fuel"
  by (rule no_stallD[OF seq_no_stall[OF good_parse_atom atom_no_stall]]) simp

text \<open>
  C12. A conversion ends: whatever the source, the parser's calls stay within the bound the model gives them.
\<close>
theorem conversion_ends: "latex_to_mathml src display \<noteq> Inl No_fuel"
  using top_no_stall by (auto simp: latex_to_mathml_def Let_def split: option.split sum.split)

text \<open>
  C11. A converted formula is a \<open>math\<close> element of one child whose elements all have the number of children MathML
  gives them and hold text only in token elements. The braces that are tokens of the source are balanced and never
  more than thirty-two open, leaving out one that a \<open>\left\<close> or a \<open>\right\<close> takes as its delimiter. The braces inside
  the argument of \<open>\text\<close> and its like are no tokens: the argument is kept as it is, and they are neither counted
  nor bounded. So a converted source need not have balanced braces, where the header of \<open>mathml.ts\<close> says that any
  unbalanced brace fails the conversion.
\<close>
theorem converted_tree_is_mathml:
  assumes "latex_to_mathml src display = Inr tree"
  shows "\<exists>child as. tree = Elem ''math'' as [child] \<and> well_formed tree \<and>
     (\<exists>toks. tokenize src = Some toks \<and> brace_depth 0 (braces toks) = Some 0)"
proof -
  obtain toks items where t: "tokenize src = Some toks"
    "parse_seq display (parse_atom (Suc (length toks)) display 0) None toks = Inr (items, [])"
    "tree = (if display then set_attribute ''display'' (tx ''block'') (mel ''math'' [row items]) else mel ''math'' [row items])"
    using assms by (auto simp: latex_to_mathml_def Let_def split: if_splits option.splits sum.splits)
  have g: "eats 0 toks [] \<and> list_all well_formed items" using good_seq[OF good_parse_atom t(2)] by simp
  have "well_formed tree" using well_formed_row[of items] g t(3) by (auto simp: mel_def arity_def)
  moreover have "brace_depth 0 (braces toks) = Some 0" using g by (auto simp: eats_def)
  ultimately show ?thesis using t(1,3) by (auto simp: mel_def set_attribute_def)
qed

text \<open>The definitions a concrete conversion unfolds.\<close>

lemmas math_run = latex_to_mathml_def is_space_def parse_seq_def parse_item_def then_parse_def parse_command_def
  fence_command_def read_key_def delims_def tx_def token_def object_prototype_def plain_def mel_def set_attribute_def
  parse_arg_def apply_scripts.simps attach_scripts_def latex_blank_def latex_alpha_def has_name_def text_cmds_def
  max_src_def latex_digit_def symbol_kind_def rejected_chars_def row_def native_text_def symbol_command_def space_cmds_def
  parse_group_def root_index_def max_depth_def read_num.simps

definition cube_root_half :: utext where
  "cube_root_half = c_bsl # tx ''frac{x_1^2}{'' @ c_bsl # tx ''sqrt[3]{2}}''"

lemma cube_root_half_converts:
  "latex_to_mathml cube_root_half True = Inr (Elem ''math'' [(''display'', tx ''block'')] [Elem ''mfrac'' []
     [Elem ''msubsup'' [] [Elem ''mi'' [] [Txt (tx ''x'')], Elem ''mn'' [] [Txt (tx ''1'')], Elem ''mn'' [] [Txt (tx ''2'')]],
      Elem ''mroot'' [] [Elem ''mn'' [] [Txt (tx ''2'')], Elem ''mn'' [] [Txt (tx ''3'')]]]])"
  by (simp add: math_run cube_root_half_def)

lemma converted_tree_is_mathml_witness:
  "\<exists>tree child as. latex_to_mathml cube_root_half True = Inr tree \<and> tree = Elem ''math'' as [child] \<and> well_formed tree"
  using converted_tree_is_mathml[OF cube_root_half_converts] cube_root_half_converts by blast

text \<open>
  A name every object inherits is no key of the tables and is found in them all the same: after \<open>\left\<close> the
  conversion throws a \<open>TypeError\<close> instead of leaving the formula as it is, and as a command of its own the name is drawn as a space whose width is
  the source of a function. Also, a \<open>\left\<close> takes a brace that opens no group, so the formula's braces need not balance.
\<close>
theorem inherited_name_is_found:
  "latex_to_mathml (c_bsl # tx ''left'' @ c_bsl # tx ''toString x'') True = Inl Type_error
   \<and> latex_to_mathml (c_bsl # tx ''toString'') False
       = Inr (Elem ''math'' [] [Elem ''mspace'' [(''width'', tx ''function toString() { [native code] }'')] []])
   \<and> latex_to_mathml (c_bsl # tx ''left{x'') False
       = Inr (Elem ''math'' [] [Elem ''mrow'' [] [Elem ''mo'' [(''stretchy'', tx ''true'')] [Txt (tx ''{'')], Elem ''mi'' [] [Txt (tx ''x'')]]])"
  by (simp add: math_run)
end
