(* ===== verification/Conflict.thy ===== *)
theory Conflict
  imports MdText
begin

text \<open>
  Merge conflicts (\<open>conflict.ts\<close>). A text is the list of its UTF-16 code units, as \<open>MdText\<close> has it. The lines
  are read at an index by the source; the search for a hunk's other markers is over the lines left.
\<close>

section \<open>Hunks\<close>

record hunk =
  h_start :: nat
  h_end :: nat
  h_our_label :: utext
  h_their_label :: utext
  h_ours :: "utext list"
  h_theirs :: "utext list"

record conflict_file =
  cf_lines :: "utext list"
  cf_newline :: bool
  cf_hunks :: "hunk list"

section \<open>Markers\<close>

text \<open>What a regular expression's dot leaves out.\<close>

definition line_break :: "nat \<Rightarrow> bool" where
  "line_break c = (c = 10 \<or> c = 13 \<or> c = 8232 \<or> c = 8233)"

text \<open>Seven times \<open>c\<close> and \<open>( .*)?$\<close>: the group, empty when there is none.\<close>

definition marker :: "nat \<Rightarrow> utext \<Rightarrow> utext option" where
  "marker c line =
     (if take 7 line \<noteq> replicate 7 c then None
      else case drop 7 line of
             [] \<Rightarrow> Some []
           | s # rest \<Rightarrow> if s = 32 \<and> \<not> list_ex line_break rest then Some (s # rest) else None)"

definition head_rx :: "utext \<Rightarrow> utext option" where
  "head_rx = marker c_lt"

definition base_rx :: "utext \<Rightarrow> bool" where
  "base_rx line = (marker c_pipe line \<noteq> None)"

definition sep_rx :: "utext \<Rightarrow> bool" where
  "sep_rx line = (line = replicate 7 61)"

definition end_rx :: "utext \<Rightarrow> utext option" where
  "end_rx = marker c_gt"

section \<open>Parsing\<close>

text \<open>The inner loop from line \<open>j\<close> on: the base marker, the separator and the end, each with its line.\<close>

fun find_marks :: "nat \<Rightarrow> nat option \<Rightarrow> nat option \<Rightarrow> utext list \<Rightarrow> nat option \<times> nat option \<times> nat option" where
  "find_marks j base sep [] = (base, sep, None)"
| "find_marks j base sep (l # ls) =
     (if sep = None \<and> base = None \<and> base_rx l then find_marks (j + 1) (Some j) sep ls
      else if sep = None \<and> sep_rx l then find_marks (j + 1) base (Some j) ls
      else if sep \<noteq> None \<and> end_rx l \<noteq> None then (base, sep, Some j)
      else if sep = None \<and> head_rx l \<noteq> None then (base, sep, None)
      else find_marks (j + 1) base sep ls)"

lemma find_marks_end: "find_marks j base sep ls = (b, s, Some e) \<Longrightarrow> j \<le> e"
  by (induction j base sep ls rule: find_marks.induct) (auto split: if_splits)

text \<open>\<open>lines.slice(a, b)\<close>\<close>

definition line_slice :: "nat \<Rightarrow> nat \<Rightarrow> utext list \<Rightarrow> utext list" where
  "line_slice a b lines = take (b - a) (drop a lines)"

definition label_of :: "utext option \<Rightarrow> utext" where
  "label_of lab = trim_space (case lab of None \<Rightarrow> [] | Some g \<Rightarrow> g)"

function hunks_from :: "utext list \<Rightarrow> nat \<Rightarrow> hunk list" where
  "hunks_from lines i =
     (if length lines \<le> i then []
      else case head_rx (lines ! i) of
             None \<Rightarrow> hunks_from lines (i + 1)
           | Some our \<Rightarrow>
               (case find_marks (i + 1) None None (drop (i + 1) lines) of
                  (base, Some sep, Some e) \<Rightarrow>
                    \<lparr>h_start = i, h_end = e, h_our_label = label_of (Some our),
                     h_their_label = label_of (end_rx (lines ! e)),
                     h_ours = line_slice (i + 1) (case base of None \<Rightarrow> sep | Some b \<Rightarrow> b) lines,
                     h_theirs = line_slice (sep + 1) e lines\<rparr> # hunks_from lines (e + 1)
                | _ \<Rightarrow> hunks_from lines (i + 1)))"
  by pat_completeness auto
termination
  by (relation "measure (\<lambda>(lines, i). length lines - i)") (auto dest!: find_marks_end[OF sym])

declare hunks_from.simps [simp del]

definition parse_conflicts :: "utext \<Rightarrow> conflict_file" where
  "parse_conflicts content =
     (let trailing = content \<noteq> [] \<and> last content = c_nl;
          body = (if trailing then butlast content else content);
          lines = (if body = [] then [] else split_on c_nl body)
      in \<lparr>cf_lines = lines, cf_newline = trailing, cf_hunks = hunks_from lines 0\<rparr>)"

section \<open>Resolving\<close>

datatype resolution = Ours | Theirs | Both

definition join_file :: "utext list \<Rightarrow> bool \<Rightarrow> utext" where
  "join_file lines trailing = join_on c_nl lines @ (if trailing then [c_nl] else [])"

definition hunk_side :: "resolution \<Rightarrow> hunk \<Rightarrow> utext list" where
  "hunk_side r h = (case r of Ours \<Rightarrow> h_ours h | Theirs \<Rightarrow> h_theirs h | Both \<Rightarrow> h_ours h @ h_theirs h)"

text \<open>The lines with a hunk replaced, which \<open>resolveHunk\<close> and an accepted suggestion both build.\<close>

definition splice_hunk :: "utext list \<Rightarrow> hunk \<Rightarrow> utext list \<Rightarrow> utext list" where
  "splice_hunk lines h replacement = take (h_start h) lines @ replacement @ drop (h_end h + 1) lines"

definition resolve_hunk :: "conflict_file \<Rightarrow> nat \<Rightarrow> resolution \<Rightarrow> utext" where
  "resolve_hunk f n r =
     (if length (cf_hunks f) \<le> n then join_file (cf_lines f) (cf_newline f)
      else join_file (splice_hunk (cf_lines f) (cf_hunks f ! n) (hunk_side r (cf_hunks f ! n))) (cf_newline f))"
end
