(* ===== verification/ConflictEditor.thy ===== *)
theory ConflictEditor
  imports Conflict
begin

text \<open>
  One file in the editor's conflict mode (\<open>editor-conflict.ts\<close>, with the input handler of \<open>editor-core.ts\<close> and
  the adoption of the disk's bytes of \<open>editor-openers.ts\<close>). The generation counter kept by path is the file's;
  a diff's source is not looked into; the frame a keystroke queues is the file's as long as it is on the pane. A
  request for a suggestion is an effect that \<open>request_suggestion\<close> returns, and what its dispatch resolves to is
  given to \<open>answer_suggestion\<close>.
\<close>

section \<open>State\<close>

record suggestion =
  sg_loading :: bool
  sg_preview :: "utext option"
  sg_error :: utext

datatype file_mode = Edit_mode bool | Diff_mode | Conflict_mode conflict_file | Image_mode

record editor_file =
  ef_original :: utext
  ef_current :: utext
  ef_hash :: utext
  ef_error :: utext
  ef_mode :: file_mode
  ef_suggestions :: "nat \<rightharpoonup> suggestion"
  ef_gen :: nat
  ef_active :: bool
  ef_reparse :: bool

record suggest_request =
  sr_gen :: nat
  sr_index :: nat
  sr_hunk :: hunk
  sr_ours :: utext
  sr_theirs :: utext
  sr_context :: utext

text \<open>An answer's \<open>output\<close> and \<open>error\<close>; no answer is the \<open>null\<close> of a dispatch that failed.\<close>

record suggest_reply =
  rp_output :: "utext option"
  rp_error :: "utext option"

definition conflict_of :: "editor_file \<Rightarrow> conflict_file option" where
  "conflict_of s = (case ef_mode s of Conflict_mode f \<Rightarrow> Some f | _ \<Rightarrow> None)"

definition hunk_at :: "editor_file \<Rightarrow> nat \<Rightarrow> hunk option" where
  "hunk_at s n = (case conflict_of s of
     None \<Rightarrow> None
   | Some f \<Rightarrow> if n < length (cf_hunks f) then Some (cf_hunks f ! n) else None)"

section \<open>Generations\<close>

definition bump_suggestion_gen :: "editor_file \<Rightarrow> editor_file" where
  "bump_suggestion_gen s = s\<lparr>ef_gen := ef_gen s + 1\<rparr>"

definition cancelled :: suggestion where
  "cancelled = \<lparr>sg_loading = False, sg_preview = None, sg_error = tx ''cancelled''\<rparr>"

definition abort_suggestion :: "editor_file \<Rightarrow> editor_file" where
  "abort_suggestion s = bump_suggestion_gen
     (s\<lparr>ef_suggestions := (\<lambda>k. map_option (\<lambda>e. if sg_loading e then cancelled else e) (ef_suggestions s k))\<rparr>)"

section \<open>The mode and its overlay\<close>

definition render_conflict_mode :: "editor_file \<Rightarrow> editor_file" where
  "render_conflict_mode s =
     (case conflict_of s of
        None \<Rightarrow> s\<lparr>ef_mode := Conflict_mode (parse_conflicts (ef_current s))\<rparr>
      | Some f \<Rightarrow> s)"

datatype overlay_entry =
    Status nat
  | Hunk_row nat hunk bool "utext option" utext
  | Preview_row nat utext

text \<open>The status is the number its text says.\<close>

definition hunk_entries :: "(nat \<rightharpoonup> suggestion) \<Rightarrow> nat \<Rightarrow> hunk \<Rightarrow> overlay_entry list" where
  "hunk_entries sg i h =
     (case sg (h_start h) of
        None \<Rightarrow> [Hunk_row i h False None []]
      | Some e \<Rightarrow> Hunk_row i h (sg_loading e) (sg_preview e) (sg_error e)
          # (case sg_preview e of None \<Rightarrow> [] | Some p \<Rightarrow> [Preview_row (h_start h) p]))"

definition overlay_entries :: "conflict_file \<Rightarrow> (nat \<rightharpoonup> suggestion) \<Rightarrow> overlay_entry list" where
  "overlay_entries f sg =
     Status (length (cf_hunks f)) # concat (map (\<lambda>i. hunk_entries sg i (cf_hunks f ! i)) [0..<length (cf_hunks f)])"

definition conflict_overlay :: "editor_file \<Rightarrow> overlay_entry list" where
  "conflict_overlay s =
     (case conflict_of s of
        None \<Rightarrow> []
      | Some f \<Rightarrow> if cf_hunks f = [] then [] else overlay_entries f (ef_suggestions s))"

section \<open>Resolutions\<close>

text \<open>What \<open>applyResolution\<close> and \<open>acceptSuggestion\<close> do with the text they made.\<close>

definition take_resolved :: "utext \<Rightarrow> editor_file \<Rightarrow> editor_file" where
  "take_resolved content s =
     (let parsed = parse_conflicts content
      in s\<lparr>ef_current := content, ef_suggestions := Map.empty,
           ef_mode := (if cf_hunks parsed = [] then Edit_mode False else Conflict_mode parsed)\<rparr>)"

definition apply_resolution :: "nat \<Rightarrow> resolution \<Rightarrow> editor_file \<Rightarrow> editor_file" where
  "apply_resolution n r s =
     (case conflict_of s of
        None \<Rightarrow> s
      | Some f \<Rightarrow> take_resolved (resolve_hunk f n r) s)"

section \<open>Suggestions\<close>

definition build_hunk_context :: "conflict_file \<Rightarrow> hunk \<Rightarrow> utext" where
  "build_hunk_context f h =
     (let before = line_slice (h_start h - 10) (h_start h) (cf_lines f);
          after = line_slice (h_end h + 1) (min (length (cf_lines f)) (h_end h + 11)) (cf_lines f)
      in if before = [] \<and> after = [] then []
         else join_on c_nl (before @ tx ''/* ...conflict hunk... */'' # after))"

definition busy_or_shown :: "suggestion option \<Rightarrow> bool" where
  "busy_or_shown e = (case e of None \<Rightarrow> False | Some x \<Rightarrow> sg_loading x \<or> sg_preview x \<noteq> None)"

definition request_suggestion :: "nat \<Rightarrow> editor_file \<Rightarrow> editor_file \<times> suggest_request option" where
  "request_suggestion n s =
     (case (conflict_of s, hunk_at s n) of
        (Some f, Some h) \<Rightarrow>
          if busy_or_shown (ef_suggestions s (h_start h)) then (s, None)
          else (let s1 = bump_suggestion_gen s;
                    s2 = s1\<lparr>ef_suggestions := (ef_suggestions s1)(h_start h \<mapsto> \<lparr>sg_loading = True, sg_preview = None, sg_error = []\<rparr>)\<rparr>
                in (s2, Some \<lparr>sr_gen = ef_gen s1, sr_index = n, sr_hunk = h, sr_ours = join_on c_nl (h_ours h),
                              sr_theirs = join_on c_nl (h_theirs h), sr_context = build_hunk_context f h\<rparr>))
      | _ \<Rightarrow> (s, None))"

definition suggestion_of :: "suggest_reply option \<Rightarrow> suggestion" where
  "suggestion_of reply =
     (let failed = (\<lambda>e. \<lparr>sg_loading = False, sg_preview = None, sg_error = (case e of None \<Rightarrow> tx ''generation failed'' | Some x \<Rightarrow> x)\<rparr>)
      in case reply of
           None \<Rightarrow> failed None
         | Some r \<Rightarrow> (case rp_output r of
               None \<Rightarrow> failed (rp_error r)
             | Some out \<Rightarrow> \<lparr>sg_loading = False, sg_preview = Some out, sg_error = []\<rparr>))"

definition answer_suggestion :: "suggest_request \<Rightarrow> suggest_reply option \<Rightarrow> editor_file \<Rightarrow> editor_file" where
  "answer_suggestion req reply s =
     (if sr_gen req \<noteq> ef_gen s \<or> conflict_of s = None \<or> \<not> ef_active s then s
      else if map_option h_start (hunk_at s (sr_index req)) \<noteq> Some (h_start (sr_hunk req)) then s
      else s\<lparr>ef_suggestions := (ef_suggestions s)(h_start (sr_hunk req) \<mapsto> suggestion_of reply)\<rparr>)"

definition accept_suggestion :: "nat \<Rightarrow> editor_file \<Rightarrow> editor_file" where
  "accept_suggestion n s =
     (case (conflict_of s, hunk_at s n) of
        (Some f, Some h) \<Rightarrow>
          (case Option.bind (ef_suggestions s (h_start h)) sg_preview of
             None \<Rightarrow> s
           | Some p \<Rightarrow> take_resolved
               (join_file (splice_hunk (cf_lines f) h (if p = [] then [] else split_on c_nl p)) (cf_newline f)) s)
      | _ \<Rightarrow> s)"

definition reject_suggestion :: "nat \<Rightarrow> editor_file \<Rightarrow> editor_file" where
  "reject_suggestion line s = s\<lparr>ef_suggestions := (ef_suggestions s)(line := None)\<rparr>"

section \<open>Typing, the disk and the pane\<close>

definition input_text :: "utext \<Rightarrow> editor_file \<Rightarrow> editor_file" where
  "input_text content s =
     (let s1 = s\<lparr>ef_current := content\<rparr>
      in if conflict_of s1 \<noteq> None \<and> \<not> ef_reparse s1 then s1\<lparr>ef_reparse := True\<rparr> else s1)"

text \<open>The frame reads the file that is on the pane then.\<close>

definition reparse_frame :: "editor_file \<Rightarrow> editor_file" where
  "reparse_frame s =
     (let s1 = s\<lparr>ef_reparse := False\<rparr>
      in if ef_active s1 \<and> conflict_of s1 \<noteq> None then s1\<lparr>ef_mode := Conflict_mode (parse_conflicts (ef_current s1))\<rparr> else s1)"

definition adopt_disk_bytes :: "utext \<Rightarrow> utext \<Rightarrow> editor_file \<Rightarrow> editor_file" where
  "adopt_disk_bytes content hash s =
     (let s1 = s\<lparr>ef_original := content, ef_current := content, ef_hash := hash, ef_error := []\<rparr>;
          parsed = parse_conflicts content
      in case ef_mode s of
           Edit_mode e \<Rightarrow> if cf_hunks parsed \<noteq> [] then s1\<lparr>ef_mode := Conflict_mode parsed\<rparr> else s1
         | Conflict_mode f \<Rightarrow> s1\<lparr>ef_mode := (if cf_hunks parsed \<noteq> [] then Conflict_mode parsed else Edit_mode False)\<rparr>
         | _ \<Rightarrow> s1)"

text \<open>
  Another file's activation, and this one's again; an activation aborts the suggestions of the file on the pane. The read
  back of the text area into the file that \<open>saveCurrentState\<close> makes first is left out: it differs from the buffer only where
  the text area normalises line ends.
\<close>

definition leave_file :: "editor_file \<Rightarrow> editor_file" where
  "leave_file s = (abort_suggestion s)\<lparr>ef_active := False\<rparr>"

definition show_file :: "editor_file \<Rightarrow> editor_file" where
  "show_file s = (let s1 = (if ef_active s then abort_suggestion s else s)\<lparr>ef_active := True\<rparr> in if conflict_of s1 = None then s1 else render_conflict_mode s1)"

section \<open>Events\<close>

datatype editor_event =
    Resolve nat resolution
  | Suggest nat
  | Answer suggest_request "suggest_reply option"
  | Accept nat
  | Reject nat
  | Input utext
  | Frame
  | Leave
  | Show
  | Disk utext utext

definition editor_step :: "editor_event \<Rightarrow> editor_file \<Rightarrow> editor_file" where
  "editor_step e s =
     (case e of
        Resolve n r \<Rightarrow> apply_resolution n r s
      | Suggest n \<Rightarrow> fst (request_suggestion n s)
      | Answer req reply \<Rightarrow> answer_suggestion req reply s
      | Accept n \<Rightarrow> accept_suggestion n s
      | Reject line \<Rightarrow> reject_suggestion line s
      | Input content \<Rightarrow> input_text content s
      | Frame \<Rightarrow> reparse_frame s
      | Leave \<Rightarrow> leave_file s
      | Show \<Rightarrow> show_file s
      | Disk content hash \<Rightarrow> adopt_disk_bytes content hash s)"
end
