(* ===== verification/ConflictFacts.thy ===== *)
theory ConflictFacts
  imports Conflict
begin

text \<open>
  Which texts the parser reads as conflicts: a file is a sequence of lines and clashes, and the parser finds exactly the
  clashes. From this: a text read and joined again is the text, and a resolution replaces its clash by a side
  and leaves the others.
\<close>

section \<open>Files as pieces\<close>

text \<open>A clash: the opening line, our lines, the ancestor with its marker, their lines and the closing line.\<close>

datatype piece =
    Plain utext
  | Clash utext "utext list" "(utext \<times> utext list) option" "utext list" utext

definition ancestor_lines :: "(utext \<times> utext list) option \<Rightarrow> utext list" where
  "ancestor_lines base = (case base of None \<Rightarrow> [] | Some (m, ls) \<Rightarrow> m # ls)"

definition separator :: utext where
  "separator = replicate 7 61"

text \<open>From the line after the opening one to the closing one.\<close>

definition clash_tail :: "utext list \<Rightarrow> (utext \<times> utext list) option \<Rightarrow> utext list \<Rightarrow> utext \<Rightarrow> utext list" where
  "clash_tail ours base theirs fin = ours @ ancestor_lines base @ separator # theirs @ [fin]"

definition piece_lines :: "piece \<Rightarrow> utext list" where
  "piece_lines p = (case p of Plain l \<Rightarrow> [l] | Clash first ours base theirs fin \<Rightarrow> first # clash_tail ours base theirs fin)"

definition pieces_lines :: "piece list \<Rightarrow> utext list" where
  "pieces_lines ps = concat (map piece_lines ps)"

definition body_line :: "utext \<Rightarrow> bool" where
  "body_line l = (head_rx l = None \<and> \<not> sep_rx l)"

definition clash_body :: "utext list \<Rightarrow> (utext \<times> utext list) option \<Rightarrow> utext list \<Rightarrow> utext \<Rightarrow> bool" where
  "clash_body ours base theirs fin =
     (list_all (\<lambda>l. body_line l \<and> \<not> base_rx l) ours
      \<and> (case base of None \<Rightarrow> True | Some (m, ls) \<Rightarrow> base_rx m \<and> list_all body_line ls)
      \<and> list_all (\<lambda>l. end_rx l = None) theirs \<and> end_rx fin \<noteq> None)"

text \<open>An opening line may be a plain one, when no clash starts with it.\<close>

fun pieces_ok :: "piece list \<Rightarrow> bool" where
  "pieces_ok [] = True"
| "pieces_ok (Plain l # ps) =
     ((head_rx l \<noteq> None \<longrightarrow> (\<nexists>ours base theirs fin rest.
         pieces_lines ps = clash_tail ours base theirs fin @ rest \<and> clash_body ours base theirs fin)) \<and> pieces_ok ps)"
| "pieces_ok (Clash first ours base theirs fin # ps) = (head_rx first \<noteq> None \<and> clash_body ours base theirs fin \<and> pieces_ok ps)"

fun pieces_hunks :: "nat \<Rightarrow> piece list \<Rightarrow> hunk list" where
  "pieces_hunks i [] = []"
| "pieces_hunks i (Plain l # ps) = pieces_hunks (i + 1) ps"
| "pieces_hunks i (Clash first ours base theirs fin # ps) =
     (let e = i + length (clash_tail ours base theirs fin)
      in \<lparr>h_start = i, h_end = e, h_our_label = label_of (head_rx first), h_their_label = label_of (end_rx fin),
          h_ours = ours, h_theirs = theirs\<rparr> # pieces_hunks (e + 1) ps)"

section \<open>The search for the marks\<close>

lemma seven: "replicate 7 c = [c, c, c, c, c, c, c]"
  by (simp add: eval_nat_numeral)

lemma end_not_others: "end_rx l \<noteq> None \<Longrightarrow> head_rx l = None \<and> \<not> sep_rx l \<and> \<not> base_rx l"
  by (auto simp: end_rx_def head_rx_def sep_rx_def base_rx_def marker_def split: if_splits)

lemma base_not_sep: "base_rx l \<Longrightarrow> \<not> sep_rx l \<and> head_rx l = None"
  by (auto simp: end_rx_def head_rx_def sep_rx_def base_rx_def marker_def split: if_splits)

lemma separator_rx [simp]: "sep_rx separator" "\<not> base_rx separator" "head_rx separator = None" "sep_rx l = (l = separator)"
  by (auto simp: sep_rx_def separator_def base_rx_def head_rx_def marker_def)

lemma marks_ours: "list_all (\<lambda>l. body_line l \<and> \<not> base_rx l) ours
   \<Longrightarrow> find_marks j None None (ours @ ls) = find_marks (j + length ours) None None ls"
  by (induction ours arbitrary: j) (auto simp: body_line_def)

lemma marks_ancestor: "list_all body_line anc \<Longrightarrow> find_marks j (Some b) None (anc @ ls) = find_marks (j + length anc) (Some b) None ls"
  by (induction anc arbitrary: j) (auto simp: body_line_def)

lemma marks_theirs: "list_all (\<lambda>l. end_rx l = None) theirs
   \<Longrightarrow> find_marks j b (Some s) (theirs @ ls) = find_marks (j + length theirs) b (Some s) ls"
  by (induction theirs arbitrary: j) auto

lemma marks_clash:
  assumes "clash_body ours base theirs fin"
  shows "find_marks j None None (clash_tail ours base theirs fin @ ls) =
    (if base = None then None else Some (j + length ours), Some (j + length ours + length (ancestor_lines base)),
     Some (j + length ours + length (ancestor_lines base) + 1 + length theirs))"
  using assms marks_ours marks_ancestor marks_theirs
  by (cases base) (auto simp: clash_body_def clash_tail_def ancestor_lines_def)

text \<open>The converse: marks that are found are a clash's.\<close>

lemma marks_after_sep:
  "find_marks j b (Some s) ls = (b', s', Some e) \<Longrightarrow>
   \<exists>theirs fin rest. ls = theirs @ fin # rest \<and> list_all (\<lambda>l. end_rx l = None) theirs \<and> end_rx fin \<noteq> None"
proof (induction ls arbitrary: j)
  case (Cons l ls)
  show ?case
  proof (cases "end_rx l = None")
    case True
    then obtain theirs fin rest where "ls = theirs @ fin # rest" "list_all (\<lambda>l. end_rx l = None) theirs" "end_rx fin \<noteq> None"
      using Cons.IH[of "j + 1"] Cons.prems by auto
    then show ?thesis using True by (intro exI[of _ "l # theirs"]) auto
  next
    case False
    then have "l # ls = [] @ l # ls \<and> list_all (\<lambda>l. end_rx l = None) [] \<and> end_rx l \<noteq> None" by simp
    then show ?thesis by blast
  qed
qed simp

lemma marks_after_base:
  "find_marks j (Some b) None ls = (b', Some s, Some e) \<Longrightarrow>
   \<exists>anc theirs fin rest. ls = anc @ separator # theirs @ fin # rest \<and> list_all body_line anc
     \<and> list_all (\<lambda>l. end_rx l = None) theirs \<and> end_rx fin \<noteq> None"
proof (induction ls arbitrary: j)
  case (Cons l ls)
  show ?case
  proof (cases "sep_rx l")
    case True
    then obtain theirs fin rest where "ls = theirs @ fin # rest" "list_all (\<lambda>l. end_rx l = None) theirs" "end_rx fin \<noteq> None"
      using Cons.prems marks_after_sep[of "j + 1" "Some b" j ls b' "Some s" e] by auto
    then have "l # ls = [] @ separator # theirs @ fin # rest \<and> list_all body_line [] \<and> list_all (\<lambda>l. end_rx l = None) theirs
      \<and> end_rx fin \<noteq> None" using True by simp
    then show ?thesis by blast
  next
    case False
    then have l: "head_rx l = None" "find_marks (j + 1) (Some b) None ls = (b', Some s, Some e)"
      using Cons.prems by (auto split: if_splits)
    then obtain anc theirs fin rest where "ls = anc @ separator # theirs @ fin # rest" "list_all body_line anc"
      "list_all (\<lambda>l. end_rx l = None) theirs" "end_rx fin \<noteq> None" using Cons.IH by blast
    then have "l # ls = (l # anc) @ separator # theirs @ fin # rest \<and> list_all body_line (l # anc) \<and> list_all (\<lambda>l. end_rx l = None) theirs
      \<and> end_rx fin \<noteq> None" using l False by (simp add: body_line_def)
    then show ?thesis by blast
  qed
qed simp

lemma marks_are_a_clash:
  "find_marks j None None ls = (b', Some s, Some e) \<Longrightarrow>
   \<exists>ours base theirs fin rest. ls = clash_tail ours base theirs fin @ rest \<and> clash_body ours base theirs fin"
proof (induction ls arbitrary: j)
  case (Cons l ls)
  consider (base) "base_rx l" | (sep) "\<not> base_rx l" "sep_rx l" | (body) "\<not> base_rx l" "\<not> sep_rx l" by blast
  then show ?case
  proof cases
    case base
    then obtain anc theirs fin rest where r: "ls = anc @ separator # theirs @ fin # rest" "list_all body_line anc"
      "list_all (\<lambda>l. end_rx l = None) theirs" "end_rx fin \<noteq> None"
      using Cons.prems marks_after_base[of "j + 1" j ls b' s e] by auto
    show ?thesis
      by (rule exI[of _ "[]"], rule exI[of _ "Some (l, anc)"], rule exI[of _ theirs], rule exI[of _ fin], rule exI[of _ rest])
        (use r base in \<open>simp add: clash_tail_def ancestor_lines_def clash_body_def\<close>)
  next
    case sep
    then obtain theirs fin rest where r: "ls = theirs @ fin # rest" "list_all (\<lambda>l. end_rx l = None) theirs" "end_rx fin \<noteq> None"
      using Cons.prems marks_after_sep[of "j + 1" None j ls b' "Some s" e] by auto
    show ?thesis
      by (rule exI[of _ "[]"], rule exI[of _ None], rule exI[of _ theirs], rule exI[of _ fin], rule exI[of _ rest])
        (use r sep in \<open>simp add: clash_tail_def ancestor_lines_def clash_body_def\<close>)
  next
    case body
    then have l: "head_rx l = None" "find_marks (j + 1) None None ls = (b', Some s, Some e)"
      using Cons.prems by (auto split: if_splits)
    then obtain ours base theirs fin rest where r: "ls = clash_tail ours base theirs fin @ rest" "clash_body ours base theirs fin"
      using Cons.IH by blast
    show ?thesis
      by (rule exI[of _ "l # ours"], rule exI[of _ base], rule exI[of _ theirs], rule exI[of _ fin], rule exI[of _ rest])
        (use r l body in \<open>simp add: clash_tail_def clash_body_def body_line_def\<close>)
  qed
qed simp

section \<open>A file is its pieces\<close>

lemma pieces_lines_simps [simp]:
  "pieces_lines [] = []" "pieces_lines (Plain l # ps) = l # pieces_lines ps"
  "pieces_lines (Clash a ours base theirs z # ps) = a # clash_tail ours base theirs z @ pieces_lines ps"
  "pieces_lines (ps @ qs) = pieces_lines ps @ pieces_lines qs"
  by (simp_all add: pieces_lines_def piece_lines_def)

lemma hunks_plain:
  assumes "length pre < length ls" and "\<nexists>b s e. head_rx (ls ! length pre) \<noteq> None \<and> find_marks (length pre + 1) None None (drop (length pre + 1) ls) = (b, Some s, Some e)"
  shows "hunks_from ls (length pre) = hunks_from ls (length pre + 1)"
  using assms by (subst hunks_from.simps) (auto split: option.splits prod.splits)

lemma hunks_clash:
  assumes "head_rx f \<noteq> None" and "clash_body ours base theirs z"
  shows "hunks_from (pre @ f # clash_tail ours base theirs z @ rest) (length pre) =
    (let e = length pre + length (clash_tail ours base theirs z)
     in \<lparr>h_start = length pre, h_end = e, h_our_label = label_of (head_rx f), h_their_label = label_of (end_rx z),
         h_ours = ours, h_theirs = theirs\<rparr> # hunks_from (pre @ f # clash_tail ours base theirs z @ rest) (e + 1))"
  (is "hunks_from ?ls ?i = _")
proof -
  have m: "find_marks (?i + 1) None None (drop (?i + 1) ?ls) =
    (if base = None then None else Some (?i + 1 + length ours), Some (?i + 1 + length ours + length (ancestor_lines base)),
     Some (?i + length (clash_tail ours base theirs z)))"
    using marks_clash[OF assms(2), of "?i + 1" rest] by (simp add: clash_tail_def)
  have z: "?ls ! (?i + length (clash_tail ours base theirs z)) = z"
    by (simp add: clash_tail_def nth_append)
  have o: "line_slice (?i + 1) (case if base = None then None else Some (?i + 1 + length ours) of
      None \<Rightarrow> ?i + 1 + length ours + length (ancestor_lines base) | Some b \<Rightarrow> b) ?ls = ours"
    by (cases base) (simp_all add: line_slice_def clash_tail_def ancestor_lines_def)
  have t: "line_slice (?i + 1 + length ours + length (ancestor_lines base) + 1) (?i + length (clash_tail ours base theirs z)) ?ls = theirs"
    by (simp add: line_slice_def clash_tail_def)
  show ?thesis
    using assms(1) m o t z by (subst hunks_from.simps) (auto simp: Let_def)
qed

lemma pieces_hunks_at: "pieces_ok ps \<Longrightarrow> hunks_from (pre @ pieces_lines ps) (length pre) = pieces_hunks (length pre) ps"
proof (induction ps arbitrary: pre rule: pieces_ok.induct)
  case 1
  then show ?case by (simp add: hunks_from.simps)
next
  case (2 l ps)
  have "\<nexists>b s e. head_rx l \<noteq> None \<and> find_marks (length pre + 1) None None (pieces_lines ps) = (b, Some s, Some e)"
    using 2 marks_are_a_clash[of "length pre + 1" "pieces_lines ps"] by fastforce
  then have "hunks_from (pre @ pieces_lines (Plain l # ps)) (length pre) = hunks_from (pre @ pieces_lines (Plain l # ps)) (length pre + 1)"
    by (intro hunks_plain) auto
  then show ?case using 2(1)[of "pre @ [l]"] 2(2) by simp
next
  case (3 f ours base theirs z ps)
  then show ?case
    using hunks_clash[of f ours base theirs z pre "pieces_lines ps"] 3(1)[of "pre @ f # clash_tail ours base theirs z"]
    by (simp add: Let_def)
qed

lemma pieces_hunks_from: "pieces_ok ps \<Longrightarrow> hunks_from (pieces_lines ps) 0 = pieces_hunks 0 ps"
  using pieces_hunks_at[of ps "[]"] by simp

lemma lines_have_pieces: "\<exists>ps. pieces_ok ps \<and> pieces_lines ps = ls"
proof (induction "length ls" arbitrary: ls rule: less_induct)
  case less
  show ?case
  proof (cases ls)
    case Nil
    then show ?thesis by (intro exI[of _ "[]"]) simp
  next
    case (Cons l r)
    show ?thesis
    proof (cases "head_rx l \<noteq> None \<and> (\<exists>ours base theirs z rest. r = clash_tail ours base theirs z @ rest \<and> clash_body ours base theirs z)")
      case True
      then obtain ours base theirs z rest where c: "r = clash_tail ours base theirs z @ rest" "clash_body ours base theirs z" by blast
      then obtain ps where "pieces_ok ps" "pieces_lines ps = rest" using less[of rest] Cons by auto
      then show ?thesis using c True Cons by (intro exI[of _ "Clash l ours base theirs z # ps"]) simp
    next
      case False
      obtain ps where ps: "pieces_ok ps" "pieces_lines ps = r" using less[of r] Cons by auto
      then have "pieces_ok (Plain l # ps)" unfolding pieces_ok.simps using False by blast
      then show ?thesis using ps Cons by (intro exI[of _ "Plain l # ps"]) simp
    qed
  qed
qed

section \<open>Texts and lines\<close>

lemma join_split_on: "join_on c (split_on c s) = s"
proof (induction s)
  case (Cons a s)
  then show ?case using split_on_nonempty[of c s] by (cases "(c, split_on c s)" rule: join_on.cases) auto
qed simp

lemma split_on_lines: "l \<in> set (split_on c s) \<Longrightarrow> c \<notin> set l"
  by (induction s arbitrary: l) (auto split: if_splits list.splits)

text \<open>
  C9. The parser reads a file as its grammar does: the lines are plain ones and clashes, the hunks are the clashes with
  their sides and labels and the ancestor's lines in neither side, an opening line is passed over only when no clash
  starts with it; and the lines joined again are the text.
\<close>
theorem conflicts_are_read:
  "\<exists>ps. pieces_ok ps \<and> cf_lines (parse_conflicts content) = pieces_lines ps
     \<and> cf_hunks (parse_conflicts content) = pieces_hunks 0 ps
     \<and> join_file (cf_lines (parse_conflicts content)) (cf_newline (parse_conflicts content)) = content"
proof -
  obtain ps where ps: "pieces_ok ps" "pieces_lines ps = cf_lines (parse_conflicts content)" using lines_have_pieces by blast
  have "cf_hunks (parse_conflicts content) = hunks_from (pieces_lines ps) 0"
    using ps(2) by (simp add: parse_conflicts_def Let_def)
  moreover have "join_file (cf_lines (parse_conflicts content)) (cf_newline (parse_conflicts content)) = content"
    by (auto simp: parse_conflicts_def Let_def join_file_def join_split_on snoc_eq_iff_butlast)
  ultimately show ?thesis using ps pieces_hunks_from by metis
qed

section \<open>Lines that end in a carriage return\<close>

definition crlf_text :: "utext list \<Rightarrow> utext" where
  "crlf_text ls = concat (map (\<lambda>l. l @ [13, c_nl]) ls)"

lemma crlf_text_joined: "ls \<noteq> [] \<Longrightarrow> crlf_text ls = join_on c_nl (map (\<lambda>l. l @ [13]) ls) @ [c_nl]"
proof (induction ls)
  case (Cons l ls)
  then show ?case by (cases ls) (simp_all add: crlf_text_def)
qed simp

lemma marker_last:
  assumes "marker c m \<noteq> None" and "c \<noteq> 13"
  shows "last m \<noteq> 13"
proof -
  have m: "m = replicate 7 c @ drop 7 m"
    using assms(1) append_take_drop_id[of 7 m] by (metis marker_def)
  show ?thesis
  proof (cases "drop 7 m")
    case Nil
    then have "last m = c" using m by (metis append_Nil2 last_replicate zero_neq_numeral)
    then show ?thesis using assms(2) by simp
  next
    case (Cons s r)
    then have "last m = last (s # r)" using m by (metis last_appendR list.distinct(1))
    moreover have "s = 32" "\<not> list_ex line_break r" using assms(1) Cons by (auto simp: marker_def split: if_splits)
    ultimately show ?thesis by (cases "r = []") (auto simp: list_ex_iff line_break_def dest: last_in_set)
  qed
qed

lemma return_is_no_marker: "head_rx (l @ [13]) = None"
  using marker_last[of c_lt "l @ [13]"] unfolding head_rx_def by fastforce

lemma no_head_no_hunk: "\<forall>l\<in>set ls. head_rx l = None \<Longrightarrow> hunks_from ls i = []"
proof (induction "length ls - i" arbitrary: i)
  case (Suc n)
  then show ?case by (subst hunks_from.simps) auto
qed (simp add: hunks_from.simps)

text \<open>
  In a text whose lines end in CR LF no conflict is found, whatever its lines are.
\<close>
theorem crlf_conflicts_are_missed:
  assumes "\<forall>l\<in>set ls. c_nl \<notin> set l"
  shows "cf_hunks (parse_conflicts (crlf_text ls)) = []"
proof (cases "ls = []")
  case True
  then show ?thesis by (simp add: crlf_text_def parse_conflicts_def hunks_from.simps)
next
  case False
  let ?L = "map (\<lambda>l. l @ [13]) ls"
  have "join_on c_nl ?L \<noteq> []" using False by (cases "(c_nl, ?L)" rule: join_on.cases) auto
  moreover have "split_on c_nl (join_on c_nl ?L) = ?L" by (rule split_join_on) (use False assms in auto)
  ultimately have "cf_hunks (parse_conflicts (crlf_text ls)) = hunks_from ?L 0"
    using False by (simp add: parse_conflicts_def Let_def crlf_text_joined)
  then show ?thesis using no_head_no_hunk[of ?L 0] return_is_no_marker by simp
qed

lemma crlf_conflicts_are_missed_witness:
  "cf_hunks (parse_conflicts (crlf_text [tx ''<<<<<<< HEAD'', tx ''a'', tx ''======='', tx ''b'', tx ''>>>>>>> them''])) = []"
  by (rule crlf_conflicts_are_missed) (simp add: tx_def)

text \<open>
  Resolving one clash of a file leaves the others, when no opening line stands outside of a clash or on their
  side of the one resolved.
\<close>

section \<open>Files without stray openers\<close>

definition tidy_piece :: "piece \<Rightarrow> bool" where
  "tidy_piece p = (case p of Plain l \<Rightarrow> head_rx l = None
     | Clash f ours base theirs z \<Rightarrow> head_rx f \<noteq> None \<and> clash_body ours base theirs z)"

lemma tidy_piece_simps [simp]:
  "tidy_piece (Plain l) = (head_rx l = None)"
  "tidy_piece (Clash f ours base theirs z) = (head_rx f \<noteq> None \<and> clash_body ours base theirs z)"
  by (simp_all add: tidy_piece_def)

lemma tidy_ok: "list_all tidy_piece ps \<Longrightarrow> pieces_ok ps"
  by (induction ps rule: pieces_ok.induct) auto

lemma pieces_hunks_append:
  "pieces_hunks i (ps @ qs) = pieces_hunks i ps @ pieces_hunks (i + length (pieces_lines ps)) qs"
proof (induction i ps rule: pieces_hunks.induct)
  case (3 i f ours base theirs z ps)
  then show ?case by (simp add: Let_def ac_simps)
qed simp_all

lemma last_blank_piece:
  assumes "list_all tidy_piece ps" and "pieces_lines ps = ls @ [[]]"
  shows "\<exists>qs. ps = qs @ [Plain []] \<and> pieces_lines qs = ls"
proof (cases ps rule: rev_cases)
  case (snoc qs p)
  show ?thesis
  proof (cases p)
    case (Plain l)
    then show ?thesis using snoc assms(2) by simp
  next
    case (Clash f ours base theirs z)
    have "last (pieces_lines ps) = z" using snoc Clash by (simp add: clash_tail_def)
    moreover have "z \<noteq> []" using assms(1) snoc Clash by (auto simp: clash_body_def end_rx_def marker_def)
    ultimately show ?thesis using assms(2) by simp
  qed
qed (use assms in simp)

text \<open>A blank line at the end holds no hunk.\<close>

lemma blank_end_has_no_hunk:
  assumes "list_all tidy_piece ps" and "pieces_lines ps = ls @ [[]]"
  shows "hunks_from ls 0 = pieces_hunks 0 ps"
proof -
  obtain qs where qs: "ps = qs @ [Plain []]" "pieces_lines qs = ls" using last_blank_piece[OF assms] by blast
  then have "pieces_ok qs" using assms(1) by (intro tidy_ok) simp
  then show ?thesis using pieces_hunks_from[of qs] qs by (simp add: pieces_hunks_append)
qed

section \<open>Joined lines read again\<close>

lemma join_on_snoc: "join_on c (xs @ [x]) = (if xs = [] then x else join_on c xs @ c # x)"
  by (induction c xs rule: join_on.induct) auto

lemma join_on_empty: "join_on c xs = [] \<Longrightarrow> xs = [] \<or> xs = [[]]"
  by (cases "(c, xs)" rule: join_on.cases) auto

lemma hunks_of_joined:
  assumes "list_all tidy_piece ps" and "\<forall>l\<in>set (pieces_lines ps). c_nl \<notin> set l"
  shows "cf_hunks (parse_conflicts (join_file (pieces_lines ps) newline)) = pieces_hunks 0 ps"
proof -
  let ?L = "pieces_lines ps"
  have all: "hunks_from ?L 0 = pieces_hunks 0 ps" by (rule pieces_hunks_from[OF tidy_ok[OF assms(1)]])
  have none: "hunks_from [] 0 = []" by (simp add: hunks_from.simps)
  have blank: "hunks_from ls 0 = pieces_hunks 0 ps" if "?L = ls @ [[]]" for ls
    using blank_end_has_no_hunk[OF assms(1) that] .
  have split: "(if join_on c_nl ls = [] then [] else split_on c_nl (join_on c_nl ls)) = (if ls = [[]] then [] else ls)"
    if "\<forall>l\<in>set ls. c_nl \<notin> set l" for ls :: "utext list"
  proof (cases "ls = [] \<or> ls = [[]]")
    case False
    then have "join_on c_nl ls \<noteq> []" and "split_on c_nl (join_on c_nl ls) = ls"
      using join_on_empty[of c_nl ls] split_join_on[of ls c_nl] that by blast+
    then show ?thesis using False by simp
  qed auto
  have lines: "hunks_from (if ?L = [[]] then [] else ?L) 0 = pieces_hunks 0 ps"
    using all blank[of "[]"] none by auto
  show ?thesis
  proof (cases "newline \<or> join_on c_nl ?L = [] \<or> last (join_on c_nl ?L) \<noteq> c_nl")
    case True
    then show ?thesis using lines split[of ?L] assms(2) by (auto simp: parse_conflicts_def Let_def join_file_def)
  next
    case False
    then have ne: "?L \<noteq> []" by auto
    then obtain ls l where L: "?L = ls @ [l]" by (cases ?L rule: rev_cases) auto
    have l: "l = []"
      using False L assms(2) by (auto simp: join_on_snoc split: if_splits dest: last_in_set)
    have ls: "ls \<noteq> []" using False L l by auto
    have j: "join_on c_nl ?L = join_on c_nl ls @ [c_nl]" using L l ls by (simp add: join_on_snoc)
    have "hunks_from (if ls = [[]] then [] else ls) 0 = pieces_hunks 0 ps"
    proof (cases "ls = [[]]")
      case True
      have "hunks_from [[]] 0 = []" by (simp add: hunks_from.simps head_rx_def marker_def)
      then show ?thesis using True blank[of ls] L l none by simp
    qed (use blank[of ls] L l in simp)
    moreover have "cf_hunks (parse_conflicts (join_file ?L newline)) =
        hunks_from (if join_on c_nl ls = [] then [] else split_on c_nl (join_on c_nl ls)) 0"
      using False j by (simp add: parse_conflicts_def Let_def join_file_def)
    moreover have "\<forall>l\<in>set ls. c_nl \<notin> set l" using assms(2) L by simp
    ultimately show ?thesis using split[of ls] by presburger
  qed
qed

lemma parsed_lines: "l \<in> set (cf_lines (parse_conflicts content)) \<Longrightarrow> c_nl \<notin> set l"
  using split_on_lines by (fastforce simp: parse_conflicts_def Let_def split: if_splits)

section \<open>One clash resolved\<close>

definition side_of :: "resolution \<Rightarrow> utext list \<Rightarrow> utext list \<Rightarrow> utext list" where
  "side_of r ours theirs = (case r of Ours \<Rightarrow> ours | Theirs \<Rightarrow> theirs | Both \<Rightarrow> ours @ theirs)"

lemma spliced_clash:
  assumes "cf_lines (parse_conflicts content) = pieces_lines (as @ Clash f ours base theirs z # bs)"
    and "list_all tidy_piece (as @ Clash f ours base theirs z # bs)"
  shows "resolve_hunk (parse_conflicts content) (length (pieces_hunks 0 as)) r =
    join_file (pieces_lines (as @ map Plain (side_of r ours theirs) @ bs)) (cf_newline (parse_conflicts content))"
proof -
  have plain: "pieces_lines (map Plain ls) = ls" for ls by (induction ls) auto
  have "cf_hunks (parse_conflicts content) = hunks_from (cf_lines (parse_conflicts content)) 0"
    by (simp add: parse_conflicts_def Let_def)
  then have "cf_hunks (parse_conflicts content) = pieces_hunks 0 (as @ Clash f ours base theirs z # bs)"
    using pieces_hunks_from[OF tidy_ok[OF assms(2)]] assms(1) by simp
  then show ?thesis
    by (cases r) (simp_all add: resolve_hunk_def assms(1) pieces_hunks_append Let_def splice_hunk_def hunk_side_def side_of_def plain nth_append)
qed

lemma resolved_hunks:
  assumes "cf_lines (parse_conflicts content) = pieces_lines (as @ Clash f ours base theirs z # bs)"
    and "list_all tidy_piece (as @ Clash f ours base theirs z # bs)"
    and "list_all (\<lambda>l. head_rx l = None) (side_of r ours theirs)"
  shows "cf_hunks (parse_conflicts (join_file (pieces_lines (as @ map Plain (side_of r ours theirs) @ bs)) newline)) =
    pieces_hunks 0 (as @ map Plain (side_of r ours theirs) @ bs)"
proof (rule hunks_of_joined)
  show "list_all tidy_piece (as @ map Plain (side_of r ours theirs) @ bs)" using assms(2,3) by (auto simp: list_all_iff)
  have plain: "set (pieces_lines (map Plain ls)) = set ls" for ls by (induction ls) auto
  show "\<forall>l\<in>set (pieces_lines (as @ map Plain (side_of r ours theirs) @ bs)). c_nl \<notin> set l"
  proof
    fix l assume "l \<in> set (pieces_lines (as @ map Plain (side_of r ours theirs) @ bs))"
    then have "l \<in> set (cf_lines (parse_conflicts content))"
      using plain unfolding assms(1) by (cases r) (auto simp: side_of_def clash_tail_def)
    then show "c_nl \<notin> set l" by (rule parsed_lines)
  qed
qed

lemma side_has_no_opener:
  assumes "clash_body ours base theirs z" and "list_all (\<lambda>l. head_rx l = None) theirs"
  shows "list_all (\<lambda>l. head_rx l = None) (side_of r ours theirs)"
  using assms by (cases r) (auto simp: side_of_def clash_body_def body_line_def list_all_iff)

text \<open>Text without a closing newline does not end in a blank line, so that a joined file is read back line by line.\<close>

lemma last_line_not_blank:
  assumes "cf_lines (parse_conflicts content) = ls @ [l]" and "\<not> cf_newline (parse_conflicts content)"
  shows "l \<noteq> []"
proof
  assume "l = []"
  have c: "content \<noteq> []" "last content \<noteq> c_nl" "split_on c_nl content = ls @ [l]"
    using assms by (auto simp: parse_conflicts_def Let_def split: if_splits)
  have "join_on c_nl (ls @ [l]) = content" using c(3) join_split_on[of c_nl content] by simp
  then show False using c(1,2) \<open>l = []\<close> by (auto simp: join_on_snoc split: if_splits)
qed

lemma joined_lines_read:
  assumes "\<forall>l\<in>set ls. c_nl \<notin> set l" and "ls \<noteq> []" and "newline \<and> ls \<noteq> [[]] \<or> last ls \<noteq> []"
  shows "cf_lines (parse_conflicts (join_file ls newline)) = ls \<and> cf_newline (parse_conflicts (join_file ls newline)) = newline"
proof -
  have ne: "join_on c_nl ls \<noteq> []" using join_on_empty[of c_nl ls] assms(2,3) by auto
  have sp: "split_on c_nl (join_on c_nl ls) = ls" using assms(1,2) by (simp add: split_join_on)
  show ?thesis
  proof (cases newline)
    case True
    then show ?thesis using ne sp by (simp add: parse_conflicts_def join_file_def Let_def)
  next
    case False
    obtain xs x where x: "ls = xs @ [x]" using assms(2) by (cases ls rule: rev_cases) auto
    have "last (join_on c_nl ls) \<noteq> c_nl"
      using False assms(1,3) x by (auto simp: join_on_snoc dest: last_in_set)
    then show ?thesis using ne sp False by (simp add: parse_conflicts_def join_file_def Let_def)
  qed
qed

text \<open>
  C10. In a file whose opening lines all start clashes, resolving a clash whose sides hold no opening line puts
  the side in its place, with no marker and no ancestor line, and the new text has exactly the other clashes as its hunks.
\<close>
theorem resolution_leaves_the_others:
  assumes "cf_lines (parse_conflicts content) = pieces_lines (as @ Clash f ours base theirs z # bs)"
    and "list_all tidy_piece (as @ Clash f ours base theirs z # bs)" and "list_all (\<lambda>l. head_rx l = None) theirs"
  shows "resolve_hunk (parse_conflicts content) (length (pieces_hunks 0 as)) r =
      join_file (pieces_lines (as @ map Plain (side_of r ours theirs) @ bs)) (cf_newline (parse_conflicts content))
    \<and> cf_hunks (parse_conflicts (resolve_hunk (parse_conflicts content) (length (pieces_hunks 0 as)) r)) =
      pieces_hunks 0 (as @ map Plain (side_of r ours theirs) @ bs)"
proof -
  have "list_all (\<lambda>l. head_rx l = None) (side_of r ours theirs)"
    using assms(2,3) side_has_no_opener[of ours base theirs z] by simp
  then show ?thesis unfolding spliced_clash[OF assms(1,2)] using resolved_hunks[OF assms(1,2)] by blast
qed

text \<open>A file with a clash in the style of \<open>diff3\<close> between two lines.\<close>

definition sample_ours :: "utext list" where "sample_ours = [tx ''ours'']"
definition sample_base :: "(utext \<times> utext list) option" where "sample_base = Some (tx ''||||||| base'', [tx ''old''])"
definition sample_theirs :: "utext list" where "sample_theirs = [tx ''theirs'']"

definition sample_clash :: piece where
  "sample_clash = Clash (tx ''<<<<<<< HEAD'') sample_ours sample_base sample_theirs (tx ''>>>>>>> them'')"

definition sample_conflict :: utext where
  "sample_conflict = join_file (pieces_lines [Plain (tx ''a''), sample_clash, Plain (tx ''b'')]) True"

lemma separator_text: "separator = tx ''=======''"
  by (simp add: separator_def tx_def seven)

lemma resolution_leaves_the_others_witness:
  "resolve_hunk (parse_conflicts sample_conflict) 0 Both = tx ''a'' @ [c_nl] @ tx ''ours'' @ [c_nl] @ tx ''theirs'' @ [c_nl] @ tx ''b'' @ [c_nl]
   \<and> cf_hunks (parse_conflicts (resolve_hunk (parse_conflicts sample_conflict) 0 Both)) = []"
proof -
  note defs = sample_conflict_def sample_clash_def sample_ours_def sample_base_def sample_theirs_def tx_def
  have "cf_lines (parse_conflicts sample_conflict) =
      pieces_lines ([Plain (tx ''a'')] @ Clash (tx ''<<<<<<< HEAD'') sample_ours sample_base sample_theirs (tx ''>>>>>>> them'') # [Plain (tx ''b'')])"
    by (simp add: defs parse_conflicts_def join_file_def clash_tail_def ancestor_lines_def separator_text Let_def)
  note r = resolution_leaves_the_others[OF this, of Both]
  have "list_all tidy_piece ([Plain (tx ''a'')] @ Clash (tx ''<<<<<<< HEAD'') sample_ours sample_base sample_theirs (tx ''>>>>>>> them'') # [Plain (tx ''b'')])"
    "list_all (\<lambda>l. head_rx l = None) sample_theirs"
    by (simp_all add: defs head_rx_def end_rx_def base_rx_def sep_rx_def marker_def clash_body_def body_line_def line_break_def seven separator_text)
  note out = r[OF this]
  have nl: "cf_newline (parse_conflicts sample_conflict)" by (simp add: sample_conflict_def parse_conflicts_def join_file_def Let_def)
  show ?thesis
  proof
    show "resolve_hunk (parse_conflicts sample_conflict) 0 Both = tx ''a'' @ [c_nl] @ tx ''ours'' @ [c_nl] @ tx ''theirs'' @ [c_nl] @ tx ''b'' @ [c_nl]"
      using conjunct1[OF out] nl by (simp add: sample_ours_def sample_theirs_def side_of_def join_file_def tx_def)
    show "cf_hunks (parse_conflicts (resolve_hunk (parse_conflicts sample_conflict) 0 Both)) = []"
      using conjunct2[OF out] by (simp add: sample_ours_def sample_theirs_def side_of_def)
  qed
qed
end
