(* ===== verification/ConflictEditorFacts.thy ===== *)
theory ConflictEditorFacts
  imports ConflictEditor ConflictFacts
begin

text \<open>
  What the conflict mode keeps: its hunks are those of the text on the pane as long as the file stays there. What it does
  not: a suggestion in flight does not belong to its hunk but to a line and a generation.
\<close>

section \<open>The hunks are the text's\<close>

lemmas editor_defs = editor_step_def apply_resolution_def take_resolved_def request_suggestion_def bump_suggestion_gen_def
  answer_suggestion_def accept_suggestion_def reject_suggestion_def input_text_def reparse_frame_def abort_suggestion_def
  render_conflict_mode_def show_file_def adopt_disk_bytes_def conflict_of_def hunk_at_def Let_def

definition overlay_fits :: "editor_file \<Rightarrow> bool" where
  "overlay_fits s = (case conflict_of s of None \<Rightarrow> True | Some f \<Rightarrow> ef_reparse s \<or> f = parse_conflicts (ef_current s))"

lemma step_fits: "overlay_fits s \<and> ef_active s \<Longrightarrow> e \<noteq> Leave \<Longrightarrow> overlay_fits (editor_step e s) \<and> ef_active (editor_step e s)"
  by (cases e) (auto simp: overlay_fits_def editor_defs split: file_mode.splits option.splits if_splits)

text \<open>
  C38. As long as the file stays on the pane, the hunks the overlay offers are those of the text in the buffer, unless a
  frame that reads them again is queued.
\<close>
theorem hunks_are_the_buffers:
  assumes "overlay_fits s" and "ef_active s" and "Leave \<notin> set es"
  shows "overlay_fits (fold editor_step es s)"
proof -
  have "overlay_fits (fold editor_step es s) \<and> ef_active (fold editor_step es s)"
    using assms by (induction es arbitrary: s) (auto simp: step_fits)
  then show ?thesis by simp
qed

section \<open>Requests that overtake\<close>

lemma requested:
  assumes "request_suggestion n s = (s', Some r)"
  shows "\<exists>h. hunk_at s n = Some h \<and> sr_hunk r = h \<and> sr_index r = n \<and> sr_gen r = ef_gen s + 1 \<and> ef_gen s' = ef_gen s + 1
    \<and> ef_suggestions s' = (ef_suggestions s)(h_start h \<mapsto> \<lparr>sg_loading = True, sg_preview = None, sg_error = []\<rparr>)
    \<and> ef_mode s' = ef_mode s"
  using assms by (auto simp: request_suggestion_def bump_suggestion_gen_def Let_def split: option.splits if_splits)

lemma request_refused: "hunk_at s n = Some h \<Longrightarrow> busy_or_shown (ef_suggestions s (h_start h)) \<Longrightarrow> request_suggestion n s = (s, None)"
  by (auto simp: request_suggestion_def split: option.splits)

lemma late_answer: "sr_gen r \<noteq> ef_gen s \<Longrightarrow> answer_suggestion r x s = s"
  by (simp add: answer_suggestion_def)

lemma answer_elsewhere:
  "h_start (sr_hunk r) \<noteq> k \<Longrightarrow> ef_suggestions (answer_suggestion r x s) k = ef_suggestions s k"
  "ef_gen (answer_suggestion r x s) = ef_gen s"
  "ef_mode (answer_suggestion r x s) = ef_mode s"
  by (simp_all add: answer_suggestion_def)

text \<open>
  The events that can end a line's loading state: a resolution or an acceptance clears the map, a rejection of that
  line its entry, leaving or showing the file aborts what loads, and an answer to a later request for that line; while the
  line is loading no such request is made.
\<close>

fun ends_loading :: "nat \<Rightarrow> nat \<Rightarrow> editor_event \<Rightarrow> bool" where
  "ends_loading k g (Answer r x) = (h_start (sr_hunk r) = k \<and> g < sr_gen r)"
| "ends_loading k g (Reject line) = (line = k)"
| "ends_loading k g (Suggest n) = False"
| "ends_loading k g (Input content) = False"
| "ends_loading k g Frame = False"
| "ends_loading k g (Disk content hash) = False"
| "ends_loading k g e = True"

definition stuck :: "nat \<Rightarrow> nat \<Rightarrow> editor_file \<Rightarrow> bool" where
  "stuck k g s = (ef_suggestions s k = Some \<lparr>sg_loading = True, sg_preview = None, sg_error = []\<rparr> \<and> g < ef_gen s)"

interpretation overtaken: frame_machine "\<lambda>s e. editor_step e s" "\<lambda>e. \<not> ends_loading k g e" "stuck k g" for k g
proof
  fix s e assume s: "stuck k g s" and e: "\<not> ends_loading k g e"
  show "stuck k g (editor_step e s)"
  proof (cases e)
    case (Suggest n)
    show ?thesis
    proof (cases "snd (request_suggestion n s)")
      case None
      then have "fst (request_suggestion n s) = s"
        by (auto simp: request_suggestion_def Let_def split: option.splits if_splits)
      then show ?thesis using Suggest s by (simp add: editor_step_def)
    next
      case (Some r)
      then have "request_suggestion n s = (fst (request_suggestion n s), Some r)" by (simp add: prod_eq_iff)
      from requested[OF this] s show ?thesis by (auto simp: Suggest editor_step_def stuck_def)
    qed
  next
    case (Answer r x)
    then show ?thesis
      using s e late_answer[of r s x] answer_elsewhere(1)[of r k x s] answer_elsewhere(2)[of r x s] by (auto simp: editor_step_def stuck_def)
  qed (use s e in \<open>auto simp: editor_defs stuck_def split: file_mode.splits option.splits if_splits\<close>)
qed

text \<open>
  C39. A suggestion asked for while another is in flight leaves that one busy: whatever is typed, repainted, read from
  the disk, asked for or answered after it, in whatever order and the overtaken request's own answer among it, the line stays
  loading and a new request for a hunk on that line is refused. Only a resolution, an accepted suggestion, the rejection of that
  line's entry, and leaving or showing the file clear it.
\<close>
theorem overtaken_suggestion_stays_busy:
  assumes "request_suggestion a s = (s1, Some ra)" and "request_suggestion b s1 = (s2, Some rb)"
    and "list_all (\<lambda>e. \<not> ends_loading (h_start (sr_hunk ra)) (sr_gen ra) e) es"
    and "map_option h_start (hunk_at (foldl (\<lambda>s e. editor_step e s) s2 es) n) = Some (h_start (sr_hunk ra))"
  shows "ef_suggestions (foldl (\<lambda>s e. editor_step e s) s2 es) (h_start (sr_hunk ra))
           = Some \<lparr>sg_loading = True, sg_preview = None, sg_error = []\<rparr>
    \<and> request_suggestion n (foldl (\<lambda>s e. editor_step e s) s2 es) = (foldl (\<lambda>s e. editor_step e s) s2 es, None)"
proof -
  obtain ha where a: "sr_hunk ra = ha" "sr_gen ra = ef_gen s + 1" "ef_gen s1 = ef_gen s + 1"
      "ef_suggestions s1 (h_start ha) = Some \<lparr>sg_loading = True, sg_preview = None, sg_error = []\<rparr>"
    using requested[OF assms(1)] by auto
  obtain hb where b: "hunk_at s1 b = Some hb" "ef_gen s2 = ef_gen s1 + 1"
      "ef_suggestions s2 = (ef_suggestions s1)(h_start hb \<mapsto> \<lparr>sg_loading = True, sg_preview = None, sg_error = []\<rparr>)"
    using requested[OF assms(2)] by auto
  have "h_start hb \<noteq> h_start ha"
    using assms(2) request_refused[of s1 b hb] b(1) a(4) by (auto simp: busy_or_shown_def)
  then have "stuck (h_start (sr_hunk ra)) (sr_gen ra) s2" using a b by (simp add: stuck_def)
  from overtaken.run_inv[OF this assms(3)] show ?thesis
    using assms(4) request_refused[of "foldl (\<lambda>s e. editor_step e s) s2 es" n] by (auto simp: stuck_def busy_or_shown_def)
qed

section \<open>A clash resolved under its request\<close>

lemma lines_without_the_clash:
  assumes "cf_lines (parse_conflicts content) = pieces_lines (as @ Clash f ours base theirs z # Clash f' ours' base' theirs' z' # bs)"
    and "clash_body ours' base' theirs' z'"
  shows "cf_lines (parse_conflicts (join_file (pieces_lines (as @ Clash f' ours' base' theirs' z' # bs)) (cf_newline (parse_conflicts content))))
           = pieces_lines (as @ Clash f' ours' base' theirs' z' # bs)
    \<and> cf_newline (parse_conflicts (join_file (pieces_lines (as @ Clash f' ours' base' theirs' z' # bs)) (cf_newline (parse_conflicts content))))
           = cf_newline (parse_conflicts content)"
proof (rule joined_lines_read)
  let ?L = "pieces_lines (as @ Clash f' ours' base' theirs' z' # bs)"
  show "\<forall>l\<in>set ?L. c_nl \<notin> set l"
    using parsed_lines[of _ content] unfolding assms(1) by auto
  show "?L \<noteq> []" by simp
  have "length ?L \<noteq> length [[]]" by (simp add: clash_tail_def)
  then have "?L \<noteq> [[]]" by metis
  moreover have "last ?L \<noteq> []" if "\<not> cf_newline (parse_conflicts content)"
  proof (cases "pieces_lines bs" rule: rev_cases)
    case Nil
    then show ?thesis using assms(2) by (auto simp: clash_tail_def clash_body_def end_rx_def marker_def)
  next
    case (snoc xs x)
    then have "cf_lines (parse_conflicts content)
        = (pieces_lines (as @ [Clash f ours base theirs z, Clash f' ours' base' theirs' z']) @ xs) @ [x]"
      by (simp add: assms(1))
    from last_line_not_blank[OF this that] snoc show ?thesis by simp
  qed
  ultimately show "cf_newline (parse_conflicts content) \<and> ?L \<noteq> [[]] \<or> last ?L \<noteq> []" by blast
qed

definition reply_lines :: "utext \<Rightarrow> utext list" where
  "reply_lines out = (if out = [] then [] else split_on c_nl out)"

text \<open>
  C40. A suggestion whose clash is resolved to nothing while it is in flight lands on the clash right after it: in a file whose opening
  lines all start clashes, the next clash takes the resolved one's index and line, the answer is drawn at it as its preview,
  and accepting it puts the first clash's merge in the place of the second clash's two sides.
\<close>
theorem suggestion_lands_on_the_next_hunk:
  assumes "conflict_of s = Some (parse_conflicts content)" and "ef_active s"
    and "cf_lines (parse_conflicts content) = pieces_lines (as @ Clash f ours base theirs z # Clash f' ours' base' theirs' z' # bs)"
    and "list_all tidy_piece (as @ Clash f ours base theirs z # Clash f' ours' base' theirs' z' # bs)"
    and "side_of r ours theirs = []"
    and "request_suggestion (length (pieces_hunks 0 as)) s = (s1, Some req)"
    and "rp_output reply = Some out"
    and "s2 = answer_suggestion req (Some reply) (apply_resolution (length (pieces_hunks 0 as)) r s1)"
  shows "ef_current s2 = join_file (pieces_lines (as @ Clash f' ours' base' theirs' z' # bs)) (cf_newline (parse_conflicts content))
    \<and> Preview_row (length (pieces_lines as)) out \<in> set (conflict_overlay s2)
    \<and> ef_current (accept_suggestion (length (pieces_hunks 0 as)) s2)
        = join_file (pieces_lines as @ reply_lines out @ pieces_lines bs) (cf_newline (parse_conflicts content))"
proof -
  let ?n = "length (pieces_hunks 0 as)" and ?line = "length (pieces_lines as)"
  let ?ps = "as @ Clash f' ours' base' theirs' z' # bs"
  define new where "new = join_file (pieces_lines ?ps) (cf_newline (parse_conflicts content))"
  have resolved: "resolve_hunk (parse_conflicts content) ?n r = new"
    using spliced_clash[OF assms(3,4), of r] assms(5) by (simp add: new_def)
  have hunks: "cf_hunks (parse_conflicts new) = pieces_hunks 0 ?ps"
    using resolved_hunks[OF assms(3,4), of r] assms(5) by (simp add: new_def)
  have lines: "cf_lines (parse_conflicts new) = pieces_lines ?ps"
      "cf_newline (parse_conflicts new) = cf_newline (parse_conflicts content)"
    using lines_without_the_clash[OF assms(3)] assms(4) by (simp_all add: new_def)
  define moved where "moved = pieces_hunks 0 ?ps ! ?n"
  have at: "?n < length (pieces_hunks 0 ?ps)" "h_start moved = ?line"
      "h_end moved + 1 = ?line + length (piece_lines (Clash f' ours' base' theirs' z'))"
    by (simp_all add: moved_def pieces_hunks_append nth_append Let_def piece_lines_def)
  have old: "cf_hunks (parse_conflicts content) = pieces_hunks 0 (as @ Clash f ours base theirs z # Clash f' ours' base' theirs' z' # bs)"
    using pieces_hunks_from[OF tidy_ok[OF assms(4)]] assms(3) by (simp add: parse_conflicts_def Let_def)
  obtain h where h: "hunk_at s ?n = Some h" "sr_hunk req = h" "sr_index req = ?n" "sr_gen req = ef_gen s1" "ef_mode s1 = ef_mode s"
    using requested[OF assms(6)] by auto
  have start: "h_start h = ?line"
    using h(1) assms(1) by (auto simp: hunk_at_def old pieces_hunks_append nth_append Let_def split: if_splits)
  have active: "ef_active s1"
    using assms(2,6) by (auto simp: request_suggestion_def bump_suggestion_gen_def Let_def split: option.splits if_splits)
  define s' where "s' = apply_resolution ?n r s1"
  have "conflict_of s1 = Some (parse_conflicts content)" using assms(1) h(5) by (simp add: conflict_of_def)
  then have s': "ef_current s' = new" "conflict_of s' = Some (parse_conflicts new)" "ef_gen s' = ef_gen s1" "ef_active s'"
    using at(1) active by (auto simp: s'_def apply_resolution_def resolved take_resolved_def conflict_of_def Let_def hunks)
  have s2: "s2 = s'\<lparr>ef_suggestions := (ef_suggestions s')(?line \<mapsto> \<lparr>sg_loading = False, sg_preview = Some out, sg_error = []\<rparr>)\<rparr>"
    using at h(2,3,4) start s' assms(7,8)
    by (simp add: s'_def[symmetric] answer_suggestion_def hunk_at_def hunks suggestion_of_def moved_def)
  have c2: "conflict_of s2 = Some (parse_conflicts new)" "ef_current s2 = new"
    using s'(1,2) by (simp_all add: s2 conflict_of_def)
  have shown: "ef_suggestions s2 ?line = Some \<lparr>sg_loading = False, sg_preview = Some out, sg_error = []\<rparr>" by (simp add: s2)
  then have "Preview_row ?line out \<in> set (hunk_entries (ef_suggestions s2) ?n moved)"
    by (simp add: hunk_entries_def at(2))
  then have "Preview_row ?line out \<in> set (conflict_overlay s2)"
    using at(1) c2(1) by (force simp: conflict_overlay_def overlay_entries_def hunks moved_def)
  moreover have "splice_hunk (pieces_lines ?ps) moved xs = pieces_lines as @ xs @ pieces_lines bs" for xs
    unfolding splice_hunk_def at(2,3) by (simp add: piece_lines_def)
  then have "ef_current (accept_suggestion ?n s2) = join_file (pieces_lines as @ reply_lines out @ pieces_lines bs) (cf_newline (parse_conflicts content))"
    using at(1,2) c2(1) shown
    by (simp add: accept_suggestion_def hunk_at_def hunks take_resolved_def lines reply_lines_def Let_def moved_def[symmetric]
        del: pieces_lines_simps)
  ultimately show ?thesis using c2(2) by (simp add: new_def)
qed

section \<open>Concrete files\<close>

text \<open>Two clashes one after the other, the first one with nothing on our side.\<close>

definition two_clashes :: utext where
  "two_clashes = join_file (pieces_lines
     [Clash (tx ''<<<<<<< a'') [] None [tx ''x''] (tx ''>>>>>>> b''),
      Clash (tx ''<<<<<<< a'') [tx ''o''] None [tx ''t''] (tx ''>>>>>>> b'')]) True"

definition opened_file :: "utext \<Rightarrow> editor_file" where
  "opened_file content = \<lparr>ef_original = content, ef_current = content, ef_hash = [], ef_error = [],
     ef_mode = Conflict_mode (parse_conflicts content), ef_suggestions = Map.empty, ef_gen = 0, ef_active = True, ef_reparse = False\<rparr>"

lemmas conflict_run = two_clashes_def join_file_def clash_tail_def ancestor_lines_def separator_def seven tx_def

lemmas conflict_parse = parse_conflicts_def Let_def hunks_from.simps marker_def head_rx_def base_rx_def sep_rx_def end_rx_def
  line_break_def label_of_def trim_space_def is_space_def line_slice_def

lemma two_clashes_parsed:
  "parse_conflicts two_clashes = \<lparr>cf_lines = [tx ''<<<<<<< a'', separator, tx ''x'', tx ''>>>>>>> b'',
       tx ''<<<<<<< a'', tx ''o'', separator, tx ''t'', tx ''>>>>>>> b''], cf_newline = True, cf_hunks =
     [\<lparr>h_start = 0, h_end = 3, h_our_label = tx ''a'', h_their_label = tx ''b'', h_ours = [], h_theirs = [tx ''x'']\<rparr>,
      \<lparr>h_start = 4, h_end = 8, h_our_label = tx ''a'', h_their_label = tx ''b'', h_ours = [tx ''o''], h_theirs = [tx ''t'']\<rparr>]\<rparr>"
  by (simp add: conflict_run conflict_parse)

definition second_clash :: utext where
  "second_clash = join_file [tx ''<<<<<<< a'', tx ''o'', separator, tx ''t'', tx ''>>>>>>> b''] True"

lemma first_resolved: "resolve_hunk (parse_conflicts two_clashes) 0 Ours = second_clash"
  by (simp add: two_clashes_parsed resolve_hunk_def splice_hunk_def hunk_side_def second_clash_def)

definition merge_reply :: "suggest_reply option" where
  "merge_reply = Some \<lparr>rp_output = Some (tx ''x''), rp_error = None\<rparr>"

text \<open>
  What is typed into a conflicted file is lost when the file is left before the next frame: the frame reads the other file, the hunks stay
  those of the text before, and the next resolution writes that text's lines.
\<close>
theorem typed_text_is_lost:
  assumes "conflict_of s = Some f"
  shows "ef_current (fold editor_step [Input content, Leave, Frame, Show, Resolve n r] s) = resolve_hunk f n r"
  using assms by (auto simp: editor_defs leave_file_def split: file_mode.splits)

lemma typed_text_is_lost_witness:
  "ef_current (fold editor_step [Input (tx ''text'' @ two_clashes), Leave, Frame, Show, Resolve 0 Ours] (opened_file two_clashes)) = second_clash"
  unfolding first_resolved[symmetric] by (rule typed_text_is_lost) (simp add: opened_file_def conflict_of_def)

lemma first_asked:
  "\<exists>s1 ra. request_suggestion 0 (opened_file two_clashes) = (s1, Some ra) \<and> h_start (sr_hunk ra) = 0 \<and> sr_gen ra = 1
     \<and> conflict_of s1 = Some (parse_conflicts two_clashes) \<and> ef_suggestions s1 4 = None"
  by (simp add: request_suggestion_def bump_suggestion_gen_def opened_file_def conflict_of_def hunk_at_def busy_or_shown_def
      two_clashes_parsed Let_def)

lemma overtaken_suggestion_stays_busy_witness:
  "\<exists>s1 ra s2 rb. request_suggestion 0 (opened_file two_clashes) = (s1, Some ra) \<and> request_suggestion 1 s1 = (s2, Some rb)
     \<and> (let s3 = foldl (\<lambda>s e. editor_step e s) s2 [Answer rb merge_reply, Suggest 0, Answer ra merge_reply]
        in request_suggestion 0 s3 = (s3, None))"
proof -
  obtain s1 ra where a: "request_suggestion 0 (opened_file two_clashes) = (s1, Some ra)" "h_start (sr_hunk ra) = 0" "sr_gen ra = 1"
      "conflict_of s1 = Some (parse_conflicts two_clashes)" "ef_suggestions s1 4 = None"
    using first_asked by blast
  then obtain s2 rb where b: "request_suggestion 1 s1 = (s2, Some rb)"
    by (simp add: request_suggestion_def hunk_at_def busy_or_shown_def two_clashes_parsed Let_def)
  have rb: "h_start (sr_hunk rb) = 4" "ef_mode s2 = ef_mode s1"
    using requested[OF b] a(4) by (auto simp: hunk_at_def two_clashes_parsed)
  let ?es = "[Answer rb merge_reply, Suggest 0, Answer ra merge_reply]"
  let ?s3 = "foldl (\<lambda>s e. editor_step e s) s2 ?es"
  have "ef_mode (fst (request_suggestion n t)) = ef_mode t" for n t
    by (auto simp: request_suggestion_def bump_suggestion_gen_def Let_def split: option.splits if_splits)
  then have "ef_mode ?s3 = ef_mode s1" by (simp add: editor_step_def answer_elsewhere(3) rb(2))
  then have "map_option h_start (hunk_at ?s3 0) = Some (h_start (sr_hunk ra))"
    using a(2,4) by (simp add: hunk_at_def conflict_of_def two_clashes_parsed split: file_mode.splits)
  from overtaken_suggestion_stays_busy[OF a(1) b _ this] rb(1) a(2) have "request_suggestion 0 ?s3 = (?s3, None)" by simp
  then show ?thesis using a(1) b by (intro exI[of _ s1] exI[of _ ra] exI[of _ s2] exI[of _ rb]) (simp add: Let_def)
qed

lemma suggestion_lands_on_the_next_hunk_witness:
  "\<exists>s1 req. request_suggestion 0 (opened_file two_clashes) = (s1, Some req)
     \<and> ef_current (accept_suggestion 0 (answer_suggestion req merge_reply (apply_resolution 0 Ours s1))) = tx ''x'' @ [c_nl]"
proof -
  obtain s1 ra where a: "request_suggestion 0 (opened_file two_clashes) = (s1, Some ra)" using first_asked by blast
  let ?A = "Clash (tx ''<<<<<<< a'') [] None [tx ''x''] (tx ''>>>>>>> b'')" and ?B = "Clash (tx ''<<<<<<< a'') [tx ''o''] None [tx ''t''] (tx ''>>>>>>> b'')"
  have lines: "cf_lines (parse_conflicts two_clashes) = pieces_lines ([] @ ?A # ?B # [])"
    unfolding two_clashes_parsed by (simp add: clash_tail_def ancestor_lines_def)
  have tidy: "list_all tidy_piece ([] @ ?A # ?B # [])"
    by (simp add: tx_def head_rx_def end_rx_def base_rx_def sep_rx_def marker_def clash_body_def body_line_def line_break_def seven separator_text)
  have "ef_current (accept_suggestion (length (pieces_hunks 0 [])) (answer_suggestion ra merge_reply (apply_resolution (length (pieces_hunks 0 [])) Ours s1)))
      = join_file (pieces_lines [] @ reply_lines (tx ''x'') @ pieces_lines []) (cf_newline (parse_conflicts two_clashes))"
    using suggestion_lands_on_the_next_hunk[OF _ _ lines tidy, of "opened_file two_clashes" Ours s1 ra
        "\<lparr>rp_output = Some (tx ''x''), rp_error = None\<rparr>" "tx ''x''"] a
    by (simp add: opened_file_def conflict_of_def side_of_def merge_reply_def)
  then have "ef_current (accept_suggestion 0 (answer_suggestion ra merge_reply (apply_resolution 0 Ours s1))) = tx ''x'' @ [c_nl]"
    by (simp add: reply_lines_def join_file_def two_clashes_parsed tx_def)
  then show ?thesis using a by blast
qed

lemma hunks_are_the_buffers_witness:
  "overlay_fits (fold editor_step [Input (tx ''a''), Frame, Suggest 0, Resolve 0 Ours] (opened_file two_clashes))"
  by (rule hunks_are_the_buffers) (simp_all add: overlay_fits_def opened_file_def conflict_of_def)
end
