(* ===== verification/ServedUrl.thy ===== *)
theory ServedUrl
  imports UriCodec MdText
begin

text \<open>
  Links and image sources (\<open>utils-url.ts\<close>, with \<open>extOf\<close> and \<open>isViewableImage\<close> of \<open>file-extensions.ts\<close>). A text is the list of its
  Unicode scalar values, as in \<open>UriCodec\<close>. \<open>toLowerCase\<close> is Unicode's table, a parameter \<open>lower\<close>.
\<close>

section \<open>Schemes\<close>

definition c0_control :: "nat \<Rightarrow> bool" where
  "c0_control c = (c \<le> 31)"

definition ascii_alpha :: "nat \<Rightarrow> bool" where
  "ascii_alpha c = ((97 \<le> c \<and> c \<le> 122) \<or> (65 \<le> c \<and> c \<le> 90))"

definition lower_alpha :: "nat \<Rightarrow> bool" where
  "lower_alpha c = (97 \<le> c \<and> c \<le> 122)"

definition lower_scheme_char :: "nat \<Rightarrow> bool" where
  "lower_scheme_char c = (lower_alpha c \<or> (48 \<le> c \<and> c \<le> 57) \<or> c = c_plus \<or> c = c_dot \<or> c = c_minus)"

text \<open>\<open>/^[a-z][a-z0-9+.-]*:/\<close>, the colon left out.\<close>

definition scheme_rx :: "utext \<Rightarrow> utext option" where
  "scheme_rx s =
     (let name = takeWhile lower_scheme_char s; rest = dropWhile lower_scheme_char s
      in if name \<noteq> [] \<and> lower_alpha (hd name) \<and> rest \<noteq> [] \<and> hd rest = c_colon then Some name else None)"

definition is_safe_url :: "(utext \<Rightarrow> utext) \<Rightarrow> utext \<Rightarrow> bool" where
  "is_safe_url lower url =
     (case scheme_rx (lower (trim_space (filter (\<lambda>c. \<not> c0_control c) url))) of
        None \<Rightarrow> True
      | Some scheme \<Rightarrow> scheme = tx ''http'' \<or> scheme = tx ''https'' \<or> scheme = tx ''mailto'')"

section \<open>Served files\<close>

definition file_download_url :: "utext \<Rightarrow> utext" where
  "file_download_url path = tx ''/api/file/download?path='' @ encode_uri_component path"

definition served_roots :: "utext list" where
  "served_roots = [tx ''/workspace/'', tx ''/uploads/'']"

definition url_starts_with :: "utext \<Rightarrow> utext \<Rightarrow> bool" where
  "url_starts_with s pre = (take (length pre) s = pre)"

definition is_served_path :: "utext \<Rightarrow> bool" where
  "is_served_path path = list_ex (url_starts_with path) served_roots"

definition dot_segment :: "utext \<Rightarrow> bool" where
  "dot_segment seg = (seg = [c_dot] \<or> seg = [c_dot, c_dot])"

definition served_path :: "utext \<Rightarrow> utext option" where
  "served_path dest =
     (let path = safe_decode (trim_space dest)
      in if \<not> is_served_path path \<or> list_ex dot_segment (split_on c_slash path) then None else Some path)"

text \<open>After the last of the characters; the whole text when there is none.\<close>

definition after_last :: "nat \<Rightarrow> utext \<Rightarrow> utext" where
  "after_last c s = rev (takeWhile (\<lambda>x. x \<noteq> c) (rev s))"

text \<open>A dot that starts the last segment opens no extension.\<close>

definition ext_of :: "(utext \<Rightarrow> utext) \<Rightarrow> utext \<Rightarrow> utext" where
  "ext_of lower path =
     (let name = after_last c_slash path
      in if c_dot \<notin> set (tl name) then [] else lower (after_last c_dot name))"

definition viewable_image_exts :: "string list" where
  "viewable_image_exts = [''png'', ''jpg'', ''jpeg'', ''gif'', ''webp'', ''svg'', ''avif'', ''ico'', ''bmp'']"

definition is_viewable_image :: "(utext \<Rightarrow> utext) \<Rightarrow> utext \<Rightarrow> bool" where
  "is_viewable_image lower path = (ext_of lower path \<in> set (map tx viewable_image_exts))"

definition rewrite_served_image_src :: "(utext \<Rightarrow> utext) \<Rightarrow> utext \<Rightarrow> utext" where
  "rewrite_served_image_src lower src =
     (case served_path src of
        None \<Rightarrow> src
      | Some path \<Rightarrow> if is_viewable_image lower path then file_download_url path else src)"

section \<open>Routes\<close>

record file_route =
  fr_path :: utext
  fr_line :: "nat option"

definition line_digits :: "utext \<Rightarrow> nat" where
  "line_digits ds = foldl (\<lambda>n d. 10 * n + (d - 48)) 0 ds"

definition max_safe_line :: nat where
  "max_safe_line = 9007199254740991"

definition line_number :: "utext option \<Rightarrow> nat option" where
  "line_number digits =
     (case digits of
        None \<Rightarrow> None
      | Some ds \<Rightarrow> if line_digits ds \<le> max_safe_line \<and> 0 < line_digits ds then Some (line_digits ds) else None)"

text \<open>\<open>/:(\d+)$/\<close>: what is before the match, and the digits.\<close>

definition digits_suffix :: "utext \<Rightarrow> (utext \<times> utext) option" where
  "digits_suffix s =
     (let ds = rev (takeWhile is_digit (rev s)); before = take (length s - length ds) s
      in if ds \<noteq> [] \<and> before \<noteq> [] \<and> last before = c_colon then Some (butlast before, ds) else None)"

text \<open>\<open>/:(\d+)(?::\d+)?$/\<close>, which matches at the leftmost place it can: at the line when a column follows.\<close>

definition line_suffix :: "utext \<Rightarrow> (utext \<times> utext) option" where
  "line_suffix s =
     (case digits_suffix s of
        None \<Rightarrow> None
      | Some (before, ds) \<Rightarrow> (case digits_suffix before of None \<Rightarrow> Some (before, ds) | Some m \<Rightarrow> Some m))"

text \<open>\<open>/^#L(\d+)$/\<close>\<close>

definition fragment_line :: "utext \<Rightarrow> utext option" where
  "fragment_line s =
     (if take 2 s = tx ''#L'' \<and> drop 2 s \<noteq> [] \<and> list_all is_digit (drop 2 s) then Some (drop 2 s) else None)"

definition served_file_route :: "utext \<Rightarrow> file_route option" where
  "served_file_route dest =
     (let trimmed = trim_space dest;
          before = takeWhile (\<lambda>c. c \<noteq> c_hash) trimmed;
          fragment = dropWhile (\<lambda>c. c \<noteq> c_hash) trimmed
      in if 63 \<in> set before then None
         else case served_path before of
                None \<Rightarrow> None
              | Some decoded \<Rightarrow>
                  (let (path, digits) =
                         (if fragment \<noteq> [] then (decoded, fragment_line fragment)
                          else case line_suffix decoded of None \<Rightarrow> (decoded, None) | Some (p, ds) \<Rightarrow> (p, Some ds))
                   in if path \<noteq> [] \<and> last path = c_slash then None
                      else Some \<lparr>fr_path = path, fr_line = line_number digits\<rparr>))"

section \<open>What a browser reads as the scheme\<close>

text \<open>
  The URL standard's parser: C0 controls and spaces are stripped at both ends, tabs and line breaks are removed, and the
  scheme is what is before a colon, a letter and then letters, digits, \<open>+\<close>, \<open>-\<close> and \<open>.\<close>, in lower case.
\<close>

definition ascii_lower :: "nat \<Rightarrow> nat" where
  "ascii_lower c = (if 65 \<le> c \<and> c \<le> 90 then c + 32 else c)"

definition url_scheme_char :: "nat \<Rightarrow> bool" where
  "url_scheme_char c = (ascii_alpha c \<or> (48 \<le> c \<and> c \<le> 57) \<or> c = c_plus \<or> c = c_dot \<or> c = c_minus)"

definition c0_or_space :: "nat \<Rightarrow> bool" where
  "c0_or_space c = (c \<le> 32)"

definition url_input :: "utext \<Rightarrow> utext" where
  "url_input u = filter (\<lambda>c. c \<noteq> 9 \<and> c \<noteq> 10 \<and> c \<noteq> 13) (rev (dropWhile c0_or_space (rev (dropWhile c0_or_space u))))"

definition browser_scheme :: "utext \<Rightarrow> utext option" where
  "browser_scheme u =
     (let name = takeWhile url_scheme_char (url_input u); rest = dropWhile url_scheme_char (url_input u)
      in if name \<noteq> [] \<and> ascii_alpha (hd name) \<and> rest \<noteq> [] \<and> hd rest = c_colon then Some (map ascii_lower name) else None)"

lemma strip_end:
  obtains e where "s = rev (dropWhile P (rev s)) @ e" and "list_all P e"
proof
  show "s = rev (dropWhile P (rev s)) @ rev (takeWhile P (rev s))"
    by (metis rev_append rev_rev_ident takeWhile_dropWhile_id)
  show "list_all P (rev (takeWhile P (rev s)))"
    by (auto simp: list_all_iff dest: set_takeWhileD)
qed

lemma trim_keeps_head:
  assumes "list_all is_space sp" and "p \<noteq> []" and "\<not> is_space (hd p)" and "\<not> is_space (last p)"
  shows "\<exists>t. trim_space (sp @ p @ r) = p @ t"
proof -
  have d: "dropWhile is_space (sp @ p @ r) = p @ r"
    using assms(1-3) by (cases p) (auto simp: list_all_iff dropWhile_append1)
  have "\<exists>t. rev (dropWhile is_space (rev r @ rev p)) = p @ t"
  proof (cases "list_all is_space r")
    case True
    have "dropWhile is_space (rev r @ rev p) = rev p"
      using True assms(2,4) dropWhile_append2[of "rev r" is_space "rev p"] by (cases p rule: rev_cases) (auto simp: list_all_iff)
    then show ?thesis by simp
  next
    case False
    then obtain x where "x \<in> set (rev r)" "\<not> is_space x" by (auto simp: list_all_iff)
    then show ?thesis by (simp add: dropWhile_append1)
  qed
  then show ?thesis by (simp add: trim_space_def d)
qed

text \<open>
  C8. An accepted URL has, read by a browser, no scheme or one of the three: whatever controls, spaces and line breaks it
  holds, anywhere, and whatever the case of its letters.
\<close>
theorem safe_url_has_a_safe_scheme:
  assumes lower: "\<And>a s. list_all (\<lambda>c. c < 128) a \<Longrightarrow> \<exists>t. lower (a @ s) = map ascii_lower a @ t"
    and safe: "is_safe_url lower u" and "browser_scheme u = Some scheme"
  shows "scheme \<in> {tx ''http'', tx ''https'', tx ''mailto''}"
proof -
  let ?keep = "\<lambda>c. \<not> c0_control c"
  define w where "w = dropWhile c0_or_space u"
  define m where "m = rev (dropWhile c0_or_space (rev w))"
  obtain name rest where n: "url_input u = name @ c_colon # rest" "name \<noteq> []" "ascii_alpha (hd name)"
      "list_all url_scheme_char name" "scheme = map ascii_lower name"
  proof -
    let ?n = "takeWhile url_scheme_char (url_input u)" and ?r = "dropWhile url_scheme_char (url_input u)"
    have c: "?n \<noteq> []" "ascii_alpha (hd ?n)" "?r \<noteq> []" "hd ?r = c_colon" "scheme = map ascii_lower ?n"
      using assms(3) by (auto simp: browser_scheme_def Let_def split: if_splits)
    then have "url_input u = ?n @ c_colon # tl ?r" by (metis list.collapse takeWhile_dropWhile_id)
    moreover have "list_all url_scheme_char ?n" by (auto simp: list_all_iff dest: set_takeWhileD)
    ultimately show thesis using c that by blast
  qed
  obtain e where e: "w = m @ e" unfolding m_def using strip_end by blast
  have keep: "filter ?keep u = filter ?keep (takeWhile c0_or_space u) @ filter ?keep m @ filter ?keep e"
    using e unfolding w_def by (metis filter_append takeWhile_dropWhile_id)
  have "filter ?keep m = filter ?keep (url_input u)"
    unfolding url_input_def m_def w_def filter_filter by (rule filter_cong) (auto simp: c0_control_def)
  moreover have "filter ?keep name = name"
    using n(4) by (auto simp: list_all_iff url_scheme_char_def ascii_alpha_def c0_control_def filter_id_conv)
  ultimately have m: "filter ?keep m = name @ c_colon # filter ?keep rest" using n(1) by (simp add: c0_control_def)
  have "list_all is_space (filter ?keep (takeWhile c0_or_space u))"
    by (auto simp: list_all_iff c0_control_def c0_or_space_def is_space_def dest: set_takeWhileD)
  then obtain t where t: "trim_space (filter ?keep u) = (name @ [c_colon]) @ t"
    using trim_keeps_head[of "filter ?keep (takeWhile c0_or_space u)" "name @ [c_colon]" "filter ?keep rest @ filter ?keep e"] n(2,3)
    by (auto simp: keep m is_space_def ascii_alpha_def)
  have "list_all (\<lambda>c. c < 128) (name @ [c_colon])"
    using n(4) by (auto simp: list_all_iff url_scheme_char_def ascii_alpha_def)
  then obtain t' where l: "lower (trim_space (filter ?keep u)) = map ascii_lower name @ c_colon # t'"
    using lower[of "name @ [c_colon]" t] by (auto simp: t ascii_lower_def)
  have "\<forall>c\<in>set (map ascii_lower name). lower_scheme_char c"
    using n(4) by (auto simp: list_all_iff url_scheme_char_def ascii_alpha_def ascii_lower_def lower_scheme_char_def lower_alpha_def)
  then have all: "lower_scheme_char c" if "c \<in> set (map ascii_lower name)" for c using that by blast
  have stop: "\<not> lower_scheme_char c_colon" by (simp add: lower_scheme_char_def lower_alpha_def)
  have "takeWhile lower_scheme_char (map ascii_lower name @ c_colon # t') = map ascii_lower name"
    "dropWhile lower_scheme_char (map ascii_lower name @ c_colon # t') = c_colon # t'"
    using takeWhile_append2[of "map ascii_lower name" lower_scheme_char] dropWhile_append2[of "map ascii_lower name" lower_scheme_char]
      all stop by simp_all
  moreover have "lower_alpha (hd (map ascii_lower name))"
    using n(2,3) by (auto simp: hd_map ascii_alpha_def ascii_lower_def lower_alpha_def)
  ultimately have "scheme_rx (lower (trim_space (filter ?keep u))) = Some (map ascii_lower name)"
    using n(2) by (simp add: scheme_rx_def l)
  then show ?thesis using safe n(5) by (simp add: is_safe_url_def)
qed

lemma safe_url_has_a_safe_scheme_witness:
  "browser_scheme (tx ''  HT'' @ [10] @ tx ''TPS:x'') = Some (tx ''https'')
   \<and> tx ''https'' \<in> {tx ''http'', tx ''https'', tx ''mailto''}"
proof -
  let ?u = "tx ''  HT'' @ [10] @ tx ''TPS:x''"
  have b: "browser_scheme ?u = Some (tx ''https'')"
    by (simp add: browser_scheme_def url_input_def url_scheme_char_def ascii_alpha_def c0_or_space_def ascii_lower_def tx_def)
  moreover have "is_safe_url (map ascii_lower) ?u"
    by (simp add: is_safe_url_def scheme_rx_def trim_space_def is_space_def c0_control_def ascii_lower_def lower_scheme_char_def
        lower_alpha_def tx_def)
  ultimately show ?thesis using safe_url_has_a_safe_scheme[of "map ascii_lower" ?u "tx ''https''"] by auto
qed

section \<open>A line at the end of a link\<close>

lemma split_on_both: "split_on c (a @ c # b) = split_on c a @ split_on c b"
  by (induction a) (auto simp: split_on_nonempty split: list.splits)

lemma starts_longer: "url_starts_with s pre \<Longrightarrow> url_starts_with (s @ t) pre"
  unfolding url_starts_with_def
  by (cases "length pre \<le> length s") (auto dest: arg_cong[where f = length])

lemma served_longer: "is_served_path p \<Longrightarrow> is_served_path (p @ t)"
  using starts_longer by (auto simp: is_served_path_def list_ex_iff)

lemma digits_taken:
  assumes "list_all is_digit ds" and "ds \<noteq> []"
  shows "digits_suffix (p @ c_colon # ds) = Some (p, ds)"
proof -
  have "takeWhile is_digit (rev (p @ c_colon # ds)) = rev ds"
    using assms(1) takeWhile_append2[of "rev ds" is_digit "c_colon # rev p"] by (simp add: list_all_iff is_digit_def)
  then show ?thesis using assms(2) by (simp add: digits_suffix_def)
qed

lemma dot_ends_no_digits: "digits_suffix (p @ [c_dot]) = None"
  by (simp add: digits_suffix_def is_digit_def)

text \<open>
  A link's line is taken off its path after the dot segments are looked for, and after decoding. Whatever served path comes before
  and whatever digits come after, a link without query or fragment that decodes to a last segment \<open>..:digits\<close> is
  accepted, and its route's path ends in the segment \<open>..\<close>, which as a link of its own is refused.
\<close>
theorem line_suffix_uncovers_dots:
  assumes "is_served_path (p @ tx ''/..'')" and "\<not> list_ex dot_segment (split_on c_slash p)"
    and "ds \<noteq> []" and "list_all is_digit ds"
    and "trim_space dest = dest" and "c_hash \<notin> set dest" and "63 \<notin> set dest"
    and "safe_decode dest = p @ tx ''/..:'' @ ds"
  shows "served_file_route dest = Some \<lparr>fr_path = p @ tx ''/..'', fr_line = line_number (Some ds)\<rparr>
    \<and> (safe_decode (trim_space dots) = p @ tx ''/..'' \<longrightarrow> served_path dots = None)"
proof -
  let ?q = "p @ tx ''/..:'' @ ds"
  have q: "?q = (p @ tx ''/..'') @ c_colon # ds" "?q = p @ c_slash # c_dot # c_dot # c_colon # ds"
      "p @ tx ''/..'' = p @ [c_slash, c_dot, c_dot]"
    by (simp_all add: tx_def)
  have digits: "\<forall>d\<in>set ds. d \<noteq> c_slash" using assms(4) by (auto simp: list_all_iff is_digit_def)
  then have "split_on c_slash (c_dot # c_dot # c_colon # ds) = [c_dot # c_dot # c_colon # ds]"
    by (intro split_on_plain) auto
  then have "\<not> list_ex dot_segment (split_on c_slash ?q)"
    using assms(2) by (simp add: q(2) split_on_both dot_segment_def)
  moreover have "is_served_path ?q" unfolding q(1) using assms(1) by (rule served_longer)
  ultimately have path: "served_path dest = Some ?q" using assms(5,8) by (simp add: served_path_def)
  have "digits_suffix (p @ tx ''/..'') = None"
    using dot_ends_no_digits[of "p @ [c_slash, c_dot]"] by (simp add: q(3))
  then have "line_suffix ?q = Some (p @ tx ''/..'', ds)"
    using digits_taken[OF assms(4,3), of "p @ tx ''/..''"] by (simp add: line_suffix_def q(1))
  moreover have "\<forall>c\<in>set dest. c \<noteq> c_hash" using assms(6) by blast
  then have "takeWhile (\<lambda>c. c \<noteq> c_hash) dest = dest" "dropWhile (\<lambda>c. c \<noteq> c_hash) dest = []"
    unfolding takeWhile_eq_all_conv dropWhile_eq_Nil_conv by blast+
  ultimately have "served_file_route dest = Some \<lparr>fr_path = p @ tx ''/..'', fr_line = line_number (Some ds)\<rparr>"
    using path assms(5,7) by (simp add: served_file_route_def Let_def q(3) del: takeWhile_eq_all_conv dropWhile_eq_Nil_conv)
  moreover have "dot_segment [c_dot, c_dot]" by (simp add: dot_segment_def)
  then have "list_ex dot_segment (split_on c_slash (p @ tx ''/..''))"
    by (simp add: q(3) split_on_both)
  ultimately show ?thesis by (simp add: served_path_def)
qed

lemma line_suffix_uncovers_dots_witness:
  "served_file_route (tx ''/workspace/..%3A12'') = Some \<lparr>fr_path = tx ''/workspace/..'', fr_line = Some 12\<rparr>
   \<and> served_path (tx ''/workspace/..'') = None"
proof -
  have "safe_decode (tx ''/workspace/..%3A12'') = tx ''/workspace'' @ tx ''/..:'' @ tx ''12''"
    by (simp add: safe_decode_def nullish_def tx_def take_sequence_def hex_value_def tail_count_def)
  moreover have "safe_decode (trim_space (tx ''/workspace/..'')) = tx ''/workspace'' @ tx ''/..''"
    by (simp add: safe_decode_def nullish_def tx_def trim_space_def is_space_def)
  ultimately show ?thesis
    using line_suffix_uncovers_dots[of "tx ''/workspace''" "tx ''12''" "tx ''/workspace/..%3A12''" "tx ''/workspace/..''"]
    by (simp add: is_served_path_def served_roots_def url_starts_with_def dot_segment_def trim_space_def is_space_def
        is_digit_def line_number_def line_digits_def max_safe_line_def tx_def)
qed
end
