(* ===== verification/EventGate.thy ===== *)
theory EventGate
  imports Wire Trace
begin

text \<open>
  The event stream's half of the tab (\<open>sse-adapter.ts\<close>): the gate that holds frames until the chat store is there, the
  delivery of a frame and of its stamp, what a frame that does not decode still asks for, and the answer to a
  digest. The stream, the digest and the version map are the library \<open>@cplieger/sse\<close>'s: calls to it are effects. What
  the stores answer is a \<open>store_view\<close>, an argument.
\<close>

section \<open>Frames and events\<close>

record 'p server_event =
  ev_type :: string
  ev_chat :: string
  ev_subject :: "subject_stamp option"
  ev_payload :: 'p

datatype wire_value = V_object "(string \<times> wire_value) list" | V_text string | V_null | V_other

text \<open>A frame's data decodes to an event, or not; then it is a JSON value all the same, or nothing.\<close>

datatype 'p frame = Decoded "'p server_event" | Undecoded "wire_value option"

record store_view =
  sv_loaded :: "string \<Rightarrow> bool"
  sv_holding :: "string \<Rightarrow> string"
  sv_entries :: "string \<Rightarrow> string \<Rightarrow> nat option"
  sv_run :: "string \<Rightarrow> bool"
  sv_run_seq :: "string \<Rightarrow> string \<Rightarrow> nat option"

datatype 'p gate_effect =
    Handle "'p server_event"
  | Observe subject_stamp
  | Stamp_action "subject_stamp option" string
  | Ask_turn string string
  | Ask_run_turn string string
  | Reject_frame

definition run_turn_workflow :: "string \<Rightarrow> string" where
  "run_turn_workflow ref = (if CHR 0x2F \<in> set ref then takeWhile (\<lambda>c. c \<noteq> CHR 0x2F) ref else [])"

definition run_turn_id :: "string \<Rightarrow> string" where
  "run_turn_id ref = (if CHR 0x2F \<in> set ref then tl (dropWhile (\<lambda>c. c \<noteq> CHR 0x2F) ref) else [])"

section \<open>Delivery\<close>

definition projection_held :: "store_view \<Rightarrow> subject_stamp \<Rightarrow> bool" where
  "projection_held v stamp =
     (if st_kind stamp = ''chat'' then sv_loaded v (st_ref stamp)
      else if st_kind stamp = ''live_turn'' then
        (let chat = sv_holding v (st_ref stamp) in chat \<noteq> [] \<and> sv_loaded v chat)
      else if st_kind stamp = ''run_turn'' then sv_run v (run_turn_workflow (st_ref stamp))
      else True)"

definition next_run_token :: "string \<Rightarrow> nat \<Rightarrow> string" where
  "next_run_token cause n = cause @ '':'' @ number_text (n + 1)"

text \<open>
  \<open>after e\<close> is what the stores answer once the handlers of \<open>e\<close> have run. It is a function of the event alone, where the
  stores' answer is of the moment as well: nothing is assumed of the payload, so two frames that are met by different
  stores are two events, as if each carried its number in the stream, and the statements, which are over every \<open>after\<close> and
  every payload, cover any answers the stores give frame by frame. The number is \<open>runSeq\<close>.
\<close>

definition deliver :: "('p server_event \<Rightarrow> store_view) \<Rightarrow> nat \<Rightarrow> 'p server_event \<Rightarrow> nat \<times> 'p gate_effect list" where
  "deliver after n e =
     (if ev_type e = ''subject_changed'' then (n + 1, [Stamp_action (ev_subject e) (next_run_token ''subject_changed'' n)])
      else (n, Handle e # (case ev_subject e of
                  None \<Rightarrow> []
                | Some stamp \<Rightarrow> if projection_held (after e) stamp then [Observe stamp] else [])))"

section \<open>The gate\<close>

definition max_pending_frames :: nat where
  "max_pending_frames = 2000"

record 'p gate =
  gt_hydrated :: bool
  gt_pending :: "'p server_event list"
  gt_timer :: bool
  gt_run_seq :: nat

definition hold_until_hydrated :: "'p gate \<Rightarrow> 'p gate" where
  "hold_until_hydrated g = g\<lparr>gt_hydrated := False, gt_pending := [], gt_timer := True\<rparr>"

definition mark_hydrated :: "('p server_event \<Rightarrow> store_view) \<Rightarrow> 'p gate \<Rightarrow> 'p gate \<times> 'p gate_effect list" where
  "mark_hydrated after g =
     (let g1 = g\<lparr>gt_timer := False\<rparr>
      in if gt_hydrated g1 then (g1, [])
         else (let (n, es) = trace (deliver after) (gt_run_seq g1) (gt_pending g1)
               in (g1\<lparr>gt_hydrated := True, gt_pending := [], gt_run_seq := n\<rparr>, es)))"

definition hydrate_timeout :: "('p server_event \<Rightarrow> store_view) \<Rightarrow> 'p gate \<Rightarrow> 'p gate \<times> 'p gate_effect list" where
  "hydrate_timeout after g = (if gt_timer g \<and> \<not> gt_hydrated g then mark_hydrated after g else (g, []))"

section \<open>Frames that do not decode\<close>

definition raw_field :: "wire_value \<Rightarrow> string \<Rightarrow> wire_value option" where
  "raw_field v key = (case v of V_object fs \<Rightarrow> map_of fs key | _ \<Rightarrow> None)"

definition raw_text :: "wire_value option \<Rightarrow> string option" where
  "raw_text v = (case v of Some (V_text s) \<Rightarrow> Some s | _ \<Rightarrow> None)"

text \<open>The first of \<open>turn\<close>, \<open>entry.turn\<close> and \<open>open.turn\<close> that is a text.\<close>

definition raw_turn_id :: "wire_value option \<Rightarrow> string" where
  "raw_turn_id payload =
     (case payload of
        None \<Rightarrow> []
      | Some p \<Rightarrow>
          (case raw_text (raw_field p ''turn'') of
             Some t \<Rightarrow> t
           | None \<Rightarrow>
               (case raw_text (Option.bind (raw_field p ''entry'') (\<lambda>v. raw_field v ''turn'')) of
                  Some t \<Rightarrow> t
                | None \<Rightarrow> nullish (raw_text (Option.bind (raw_field p ''open'') (\<lambda>v. raw_field v ''turn''))) [])))"

definition raw_workflow_id :: "wire_value option \<Rightarrow> string" where
  "raw_workflow_id payload = nullish (raw_text (Option.bind payload (\<lambda>v. raw_field v ''workflow_id''))) []"

text \<open>Reading a field of \<open>null\<close> throws, and is caught as a frame that is not JSON.\<close>

definition salvage_undecodable :: "wire_value option \<Rightarrow> 'p gate_effect list" where
  "salvage_undecodable data =
     (case data of
        None \<Rightarrow> []
      | Some V_null \<Rightarrow> []
      | Some v \<Rightarrow>
          (let chat = nullish (raw_text (raw_field v ''chat_id'')) [];
               turn = raw_turn_id (raw_field v ''payload'');
               workflow = raw_workflow_id (raw_field v ''payload'')
           in if turn = [] then []
              else if chat \<noteq> [] then [Ask_turn chat turn]
              else if workflow \<noteq> [] then [Ask_run_turn workflow turn]
              else []))"

definition take_stream_frame :: "('p server_event \<Rightarrow> store_view) \<Rightarrow> 'p gate \<Rightarrow> 'p frame \<Rightarrow> 'p gate \<times> 'p gate_effect list" where
  "take_stream_frame after g f =
     (case f of
        Undecoded data \<Rightarrow> (g, salvage_undecodable data @ [Reject_frame])
      | Decoded e \<Rightarrow>
          if \<not> gt_hydrated g then
            (let g1 = g\<lparr>gt_pending := gt_pending g @ [e]\<rparr>
             in if max_pending_frames \<le> length (gt_pending g1) then mark_hydrated after g1 else (g1, []))
          else (let (n, es) = deliver after (gt_run_seq g) e in (g\<lparr>gt_run_seq := n\<rparr>, es)))"

datatype 'p gate_event = Arrives "'p frame" | Hydrated | Timeout

definition gate_step :: "('p server_event \<Rightarrow> store_view) \<Rightarrow> 'p gate \<Rightarrow> 'p gate_event \<Rightarrow> 'p gate \<times> 'p gate_effect list" where
  "gate_step after g s =
     (case s of
        Arrives f \<Rightarrow> take_stream_frame after g f
      | Hydrated \<Rightarrow> mark_hydrated after g
      | Timeout \<Rightarrow> hydrate_timeout after g)"

section \<open>A stamp's action\<close>

datatype request =
    Load_list
  | List_tabs
  | Load_messages string
  | Turn_range string string "nat option"
  | Run_turn_range string string "nat option"
  | Invalidate_runs string
  | Rebuild_runs string
  | Fetch_catalog

definition newest_held_seq :: "store_view \<Rightarrow> string \<Rightarrow> string \<Rightarrow> nat option" where
  "newest_held_seq v chat turn = (case sv_entries v chat turn of None \<Rightarrow> None | Some n \<Rightarrow> if n = 0 then None else Some (n - 1))"

text \<open>The requests, and whether the subject reaches a client only through a hello.\<close>

definition run_stamp_action :: "store_view \<Rightarrow> string \<Rightarrow> string \<Rightarrow> string \<Rightarrow> request list \<times> bool" where
  "run_stamp_action v kind ref token =
     (if kind = ''chats'' then ([Load_list], False)
      else if kind = ''tabs'' then ([List_tabs], False)
      else if kind = ''chat'' then ([Load_messages ref], False)
      else if kind = ''live_turn'' then
        (let chat = sv_holding v ref in (if chat \<noteq> [] then [Turn_range chat ref (newest_held_seq v chat ref)] else [], False))
      else if kind = ''run_turn'' then
        (let workflow = run_turn_workflow ref; turn = run_turn_id ref
         in (if workflow \<noteq> [] \<and> turn \<noteq> [] then [Run_turn_range workflow turn (sv_run_seq v workflow turn)] else [], False))
      else if kind = ''runs'' then ([Invalidate_runs token, Rebuild_runs token], False)
      else if kind = ''catalog'' then ([Fetch_catalog], False)
      else if kind = ''pending'' \<or> kind = ''status'' then ([], True)
      else ([], False))"

section \<open>Verdicts\<close>

type_synonym subject = "string \<times> string"

datatype verdict_effect = Forget subject | Drop_chat string | Refetch subject

definition subject_key :: "subject \<Rightarrow> string" where
  "subject_key s = fst s @ CHR 0x00 # snd s"

definition refetch :: "subject \<Rightarrow> string list \<times> verdict_effect list \<Rightarrow> string list \<times> verdict_effect list" where
  "refetch s acc =
     (if subject_key s \<in> set (fst acc) then acc else (subject_key s # fst acc, snd acc @ [Refetch s]))"

definition verdict_removed :: "subject \<Rightarrow> string list \<times> verdict_effect list \<Rightarrow> string list \<times> verdict_effect list" where
  "verdict_removed s acc =
     (let acc1 = (fst acc, snd acc @ [Forget s])
      in if fst s = ''chat'' then (fst acc1, snd acc1 @ [Drop_chat (snd s)])
         else if fst s = ''live_turn'' \<or> fst s = ''run_turn'' then refetch s acc1
         else acc1)"

definition apply_verdict :: "subject list \<Rightarrow> subject list \<Rightarrow> verdict_effect list" where
  "apply_verdict changed removed = snd (fold verdict_removed removed (fold refetch changed ([], [])))"

text \<open>Whether a refetch that succeeded is one of \<open>pending\<close> or \<open>status\<close>: those ask for nothing and cannot fail.\<close>

definition verdict_moved :: "verdict_effect list \<Rightarrow> bool" where
  "verdict_moved es = list_ex (\<lambda>e. case e of Refetch s \<Rightarrow> fst s = ''pending'' \<or> fst s = ''status'' | _ \<Rightarrow> False) es"

definition is_wake :: "string \<Rightarrow> bool" where
  "is_wake cause = (cause = ''visible'' \<or> cause = ''pageshow'' \<or> cause = ''online'')"

datatype revalidate_effect =
    Page_resumed
  | Reconcile string
  | Digest_check
  | Bind_epoch string
  | Verdict verdict_effect
  | Reconnect

definition hello_if_moved :: "string \<Rightarrow> bool \<Rightarrow> revalidate_effect list" where
  "hello_if_moved cause moved = (if moved \<and> cause \<noteq> ''hello'' then [Reconnect] else [])"

text \<open>\<open>revalidate\<close> up to the digest, and after its answer. \<open>held\<close> is the snapshot's.\<close>

definition revalidate :: "string \<Rightarrow> bool \<Rightarrow> subject list \<Rightarrow> revalidate_effect list" where
  "revalidate cause full held =
     (if is_wake cause then [Page_resumed] else [])
     @ (if full then [Reconcile (''full:'' @ cause)] else if held = [] then [] else [Digest_check])"

datatype digest_result = Must_refetch string | Verdict_of "subject list" "subject list"

definition digest_answer :: "string \<Rightarrow> digest_result \<Rightarrow> revalidate_effect list" where
  "digest_answer cause r =
     (case r of
        Must_refetch epoch \<Rightarrow> [Bind_epoch epoch, Reconcile ''must_refetch'']
      | Verdict_of changed removed \<Rightarrow>
          (let es = apply_verdict changed removed in map Verdict es @ hello_if_moved cause (verdict_moved es)))"

text \<open>The worker's run in a tab: \<open>dropped\<close> is what the epoch's bind dropped, \<open>has\<close> the tab's map.\<close>

definition tab_revalidate ::
  "string \<Rightarrow> bool \<Rightarrow> string option \<Rightarrow> nat \<Rightarrow> bool \<Rightarrow> (subject \<Rightarrow> bool) \<Rightarrow> subject list \<Rightarrow> subject list \<Rightarrow> revalidate_effect list" where
  "tab_revalidate cause full epoch dropped visible has changed removed =
     (case epoch of None \<Rightarrow> [] | Some e \<Rightarrow> [Bind_epoch e])
     @ (if is_wake cause \<and> visible then [Page_resumed] else [])
     @ (if full \<or> (epoch \<noteq> None \<and> 0 < dropped) then [Reconcile (''full:'' @ cause)]
        else map Verdict (apply_verdict (filter has changed) (filter (\<lambda>s. fst s = ''chat'' \<or> has s) removed)))"
end
