(* ===== verification/EventGateFacts.thy ===== *)
theory EventGateFacts
  imports EventGate
begin

text \<open>
  The gate delays and neither loses, repeats nor reorders: what is delivered is what a stream without it would deliver. A
  stamp is recorded right after the event it came with was handled. A verdict refetches each subject once.
\<close>

section \<open>The gate is a delay\<close>

fun arrived :: "'p gate_event list \<Rightarrow> 'p server_event list" where
  "arrived [] = []"
| "arrived (Arrives (Decoded e) # ss) = e # arrived ss"
| "arrived (s # ss) = arrived ss"

text \<open>Without what a frame that does not decode asks for.\<close>

definition delivery :: "'p gate_effect \<Rightarrow> bool" where
  "delivery e = (case e of Handle x \<Rightarrow> True | Observe x \<Rightarrow> True | Stamp_action x t \<Rightarrow> True | _ \<Rightarrow> False)"

lemma arrived_append: "arrived (ss @ ts) = arrived ss @ arrived ts"
  by (induction ss rule: arrived.induct) simp_all

lemma delivered_are_deliveries: "filter delivery (snd (trace (deliver after) n es)) = snd (trace (deliver after) n es)"
  by (induction es arbitrary: n) (auto simp: trace_Cons deliver_def delivery_def split: option.splits)

lemma salvage_delivers_nothing: "filter delivery (salvage_undecodable data) = []"
  by (auto simp: salvage_undecodable_def delivery_def Let_def split: option.splits wire_value.splits)

definition gate_ok :: "'p gate \<Rightarrow> bool" where
  "gate_ok g = ((gt_hydrated g \<longrightarrow> gt_pending g = []) \<and> length (gt_pending g) < max_pending_frames)"

text \<open>A step: what is delivered and then what is still held are what was held and then what arrives.\<close>

lemma mark_hydrated_delivers:
  "trace (deliver after) (gt_run_seq g) (gt_pending g) = (n, es) \<Longrightarrow> gt_hydrated g \<longrightarrow> gt_pending g = []
   \<Longrightarrow> snd (mark_hydrated after g) = es \<and> gt_pending (fst (mark_hydrated after g)) = [] \<and> gt_hydrated (fst (mark_hydrated after g))
     \<and> gt_run_seq (fst (mark_hydrated after g)) = n"
  by (auto simp: mark_hydrated_def Let_def)

lemma gate_step_delays:
  assumes "gate_ok g"
  shows "gate_ok (fst (gate_step after g s)) \<and>
    trace (deliver after) (gt_run_seq g) (gt_pending g @ arrived [s]) =
      (let (n, es) = trace (deliver after) (gt_run_seq (fst (gate_step after g s))) (gt_pending (fst (gate_step after g s)))
       in (n, filter delivery (snd (gate_step after g s)) @ es))"
proof -
  have hyd: "gate_ok (fst (mark_hydrated after h)) \<and> trace (deliver after) (gt_run_seq h) (gt_pending h) =
      (let (n, es) = trace (deliver after) (gt_run_seq (fst (mark_hydrated after h))) (gt_pending (fst (mark_hydrated after h)))
       in (n, filter delivery (snd (mark_hydrated after h)) @ es))"
    if "gt_hydrated h \<longrightarrow> gt_pending h = []" for h
  proof -
    obtain n es where t: "trace (deliver after) (gt_run_seq h) (gt_pending h) = (n, es)" by fastforce
    show ?thesis
      using mark_hydrated_delivers[OF t that] delivered_are_deliveries[of after "gt_run_seq h" "gt_pending h"] t
      by (simp add: gate_ok_def max_pending_frames_def)
  qed
  have idle: "gate_ok g \<and> trace (deliver after) (gt_run_seq g) (gt_pending g) =
      (let (n, es) = trace (deliver after) (gt_run_seq g) (gt_pending g) in (n, filter delivery [] @ es))"
    using assms by (simp add: split_beta)
  show ?thesis
  proof (cases s)
    case Hydrated
    then show ?thesis using hyd[of g] assms by (simp add: gate_step_def gate_ok_def)
  next
    case Timeout
    then show ?thesis using hyd[of g] idle assms by (simp add: gate_step_def hydrate_timeout_def gate_ok_def)
  next
    case (Arrives f)
    show ?thesis
    proof (cases f)
      case (Undecoded data)
      then show ?thesis using Arrives assms
        by (simp add: gate_step_def take_stream_frame_def salvage_delivers_nothing delivery_def split_beta)
    next
      case (Decoded e)
      show ?thesis
      proof (cases "gt_hydrated g")
        case True
        then have p: "gt_pending g = []" using assms by (simp add: gate_ok_def)
        obtain n es where d: "deliver after (gt_run_seq g) e = (n, es)" by fastforce
        have "filter delivery es = es"
          using delivered_are_deliveries[of after "gt_run_seq g" "[e]"] d by (simp add: trace_Cons)
        moreover have "trace (deliver after) (gt_run_seq g) [e] = (n, es)" using d by (simp add: trace.simps)
        ultimately show ?thesis using Arrives Decoded True p d assms
          by (simp add: gate_step_def take_stream_frame_def gate_ok_def)
      next
        case False
        let ?h = "g\<lparr>gt_pending := gt_pending g @ [e]\<rparr>"
        show ?thesis
        proof (cases "max_pending_frames \<le> length (gt_pending ?h)")
          case True
          then show ?thesis using hyd[of ?h] Arrives Decoded False by (simp add: gate_step_def take_stream_frame_def)
        next
          case fits: False
          then show ?thesis using Arrives Decoded False by (simp add: gate_step_def take_stream_frame_def gate_ok_def split_beta)
        qed
      qed
    qed
  qed
qed

lemma gate_delays:
  assumes "gate_ok g"
  shows "gate_ok (fst (trace (gate_step after) g ss)) \<and>
    trace (deliver after) (gt_run_seq g) (gt_pending g @ arrived ss) =
      (let (n, es) = trace (deliver after) (gt_run_seq (fst (trace (gate_step after) g ss))) (gt_pending (fst (trace (gate_step after) g ss)))
       in (n, filter delivery (snd (trace (gate_step after) g ss)) @ es))"
proof (induction ss rule: rev_induct)
  case Nil
  then show ?case using assms by (simp add: split_beta)
next
  case (snoc s ss)
  let ?g = "fst (trace (gate_step after) g ss)"
  have d: "trace (deliver after) m (xs @ ys) = (fst (trace (deliver after) (fst (trace (deliver after) m xs)) ys),
      snd (trace (deliver after) m xs) @ snd (trace (deliver after) (fst (trace (deliver after) m xs)) ys))" for m xs ys
    by (simp add: prod_eq_iff trace_append)
  have IH: "gate_ok ?g" "fst (trace (deliver after) (gt_run_seq g) (gt_pending g @ arrived ss)) = fst (trace (deliver after) (gt_run_seq ?g) (gt_pending ?g))"
    "snd (trace (deliver after) (gt_run_seq g) (gt_pending g @ arrived ss)) =
      filter delivery (snd (trace (gate_step after) g ss)) @ snd (trace (deliver after) (gt_run_seq ?g) (gt_pending ?g))"
    using snoc by (simp_all add: split_beta Let_def)
  note st = gate_step_delays[OF IH(1), of after s]
  have a: "arrived (ss @ [s]) = arrived ss @ arrived [s]" by (rule arrived_append)
  have "trace (deliver after) (gt_run_seq g) (gt_pending g @ arrived (ss @ [s])) =
      (fst (trace (deliver after) (gt_run_seq ?g) (gt_pending ?g @ arrived [s])),
       filter delivery (snd (trace (gate_step after) g ss)) @ snd (trace (deliver after) (gt_run_seq ?g) (gt_pending ?g @ arrived [s])))"
    unfolding a append_assoc[symmetric]
    by (subst (1) d, subst (1) d, subst (2) d) (simp add: IH(2,3))
  then show ?case using st by (simp add: trace_snoc split_beta Let_def)
qed

text \<open>
  C5. The gate is a delay: at any moment what was delivered, followed by what is held, is what a stream without the gate would have
  delivered for the frames that decoded, in their order and each once; an open gate holds nothing and a closed one less than its ceiling.
\<close>
theorem gate_is_a_delay:
  "let (g', es) = trace (gate_step after) (hold_until_hydrated g) ss
   in snd (trace (deliver after) (gt_run_seq g) (arrived ss)) =
        filter delivery es @ snd (trace (deliver after) (gt_run_seq g') (gt_pending g'))
      \<and> (if gt_hydrated g' then gt_pending g' = [] else length (gt_pending g') < max_pending_frames)"
proof -
  have "gate_ok (hold_until_hydrated g)" by (simp add: gate_ok_def hold_until_hydrated_def max_pending_frames_def)
  note d = gate_delays[OF this, of after ss]
  have "gt_run_seq (hold_until_hydrated g) = gt_run_seq g" "gt_pending (hold_until_hydrated g) = []"
    by (simp_all add: hold_until_hydrated_def)
  then show ?thesis using d by (auto simp: split_beta Let_def gate_ok_def)
qed

section \<open>Stamps\<close>

definition stamps_follow :: "('p server_event \<Rightarrow> store_view) \<Rightarrow> 'p gate_effect list \<Rightarrow> bool" where
  "stamps_follow after es = (\<forall>a st b. es = a @ Observe st # b \<longrightarrow>
     (\<exists>c e. a = c @ [Handle e] \<and> ev_subject e = Some st \<and> ev_type e \<noteq> ''subject_changed'' \<and> projection_held (after e) st))"

lemma stamps_follow_none: "list_all (\<lambda>e. \<forall>st. e \<noteq> Observe st) es \<Longrightarrow> stamps_follow after es"
  by (auto simp: stamps_follow_def)

lemma stamps_follow_append:
  assumes "stamps_follow after xs" and "stamps_follow after ys"
  shows "stamps_follow after (xs @ ys)"
  unfolding stamps_follow_def
proof (intro allI impI)
  fix a st b
  assume "xs @ ys = a @ Observe st # b"
  then consider us where "xs = a @ Observe st # us" | us where "ys = us @ Observe st # b" "a = xs @ us"
    by (auto simp: append_eq_append_conv2 append_eq_Cons_conv)
  then show "\<exists>c e. a = c @ [Handle e] \<and> ev_subject e = Some st \<and> ev_type e \<noteq> ''subject_changed'' \<and> projection_held (after e) st"
  proof cases
    case 1
    then show ?thesis using assms(1) by (auto simp: stamps_follow_def)
  next
    case 2
    then obtain c e where "us = c @ [Handle e]" "ev_subject e = Some st" "ev_type e \<noteq> ''subject_changed''" "projection_held (after e) st"
      using assms(2) unfolding stamps_follow_def by blast
    then show ?thesis using 2 by (intro exI[of _ "xs @ c"] exI[of _ e]) simp
  qed
qed

lemma deliver_stamps: "stamps_follow after (snd (deliver after n e))"
proof (cases "ev_type e = ''subject_changed''")
  case True
  then show ?thesis by (intro stamps_follow_none) (simp add: deliver_def)
next
  case False
  then show ?thesis
    by (auto simp: stamps_follow_def deliver_def Cons_eq_append_conv split: option.splits if_splits)
qed

lemma trace_stamps: "stamps_follow after (snd (trace (deliver after) n es))"
  by (induction es arbitrary: n) (auto simp: trace_Cons stamps_follow_none intro!: stamps_follow_append deliver_stamps)

lemma hydrated_stamps: "stamps_follow after (snd (mark_hydrated after g))"
  using trace_stamps by (auto simp: mark_hydrated_def Let_def split_beta stamps_follow_none)

lemma salvage_stamps: "stamps_follow after (salvage_undecodable data @ [Reject_frame])"
  by (rule stamps_follow_none) (auto simp: salvage_undecodable_def Let_def split: option.splits wire_value.splits)

lemma step_stamps: "stamps_follow after (snd (gate_step after g s))"
  using hydrated_stamps deliver_stamps salvage_stamps
  by (auto simp: gate_step_def hydrate_timeout_def take_stream_frame_def Let_def split_beta stamps_follow_none
      split: gate_event.splits frame.splits)

lemma gate_stamps: "stamps_follow after (snd (trace (gate_step after) g ss))"
  by (induction ss arbitrary: g) (auto simp: trace_Cons stamps_follow_none intro!: stamps_follow_append step_stamps)

text \<open>
  C6. A stamp is recorded only right after the event it came with was handled, when the projection it certifies is held then; the stamp of a frame
  that was refused or did not decode never is.
\<close>
theorem stamp_follows_its_state:
  assumes "snd (trace (gate_step after) g ss) = a @ Observe st # b"
  shows "\<exists>c e. a = c @ [Handle e] \<and> ev_subject e = Some st \<and> ev_type e \<noteq> ''subject_changed'' \<and> projection_held (after e) st"
  using gate_stamps[of after g ss] assms unfolding stamps_follow_def by blast

definition sample_event :: "string \<Rightarrow> unit server_event" where
  "sample_event kind = \<lparr>ev_type = ''chats'', ev_chat = [], ev_subject =
     Some \<lparr>st_kind = kind, st_ref = ''c'', st_version = ''1'', st_epoch = None\<rparr>, ev_payload = ()\<rparr>"

definition empty_stores :: "unit server_event \<Rightarrow> store_view" where
  "empty_stores e = \<lparr>sv_loaded = (\<lambda>c. False), sv_holding = (\<lambda>t. []), sv_entries = (\<lambda>c t. None), sv_run = (\<lambda>w. False), sv_run_seq = (\<lambda>w t. None)\<rparr>"

definition closed_gate :: "unit gate" where
  "closed_gate = \<lparr>gt_hydrated = False, gt_pending = [], gt_timer = True, gt_run_seq = 0\<rparr>"

lemma stamp_follows_its_state_witness:
  "snd (trace (gate_step empty_stores) closed_gate [Arrives (Decoded (sample_event ''chat'')), Arrives (Decoded (sample_event ''chats'')), Hydrated])
     = [Handle (sample_event ''chat''), Handle (sample_event ''chats''), Observe (the (ev_subject (sample_event ''chats'')))]
   \<and> (\<exists>c e. [Handle (sample_event ''chat''), Handle (sample_event ''chats'')] = c @ [Handle e]
        \<and> ev_subject e = Some (the (ev_subject (sample_event ''chats''))) \<and> ev_type e \<noteq> ''subject_changed''
        \<and> projection_held (empty_stores e) (the (ev_subject (sample_event ''chats''))))"
proof -
  have t: "snd (trace (gate_step empty_stores) closed_gate [Arrives (Decoded (sample_event ''chat'')), Arrives (Decoded (sample_event ''chats'')), Hydrated])
     = [Handle (sample_event ''chat''), Handle (sample_event ''chats'')] @ Observe (the (ev_subject (sample_event ''chats''))) # []"
    by (simp add: trace.simps gate_step_def take_stream_frame_def mark_hydrated_def deliver_def projection_held_def closed_gate_def
        sample_event_def empty_stores_def max_pending_frames_def Let_def)
  show ?thesis using t stamp_follows_its_state[OF t] by simp
qed

section \<open>Verdicts\<close>

fun refetched :: "verdict_effect list \<Rightarrow> subject list" where
  "refetched [] = []"
| "refetched (Refetch s # es) = s # refetched es"
| "refetched (e # es) = refetched es"

fun forgotten :: "verdict_effect list \<Rightarrow> subject list" where
  "forgotten [] = []"
| "forgotten (Forget s # es) = s # forgotten es"
| "forgotten (e # es) = forgotten es"

fun dropped_chats :: "verdict_effect list \<Rightarrow> string list" where
  "dropped_chats [] = []"
| "dropped_chats (Drop_chat c # es) = c # dropped_chats es"
| "dropped_chats (e # es) = dropped_chats es"

lemma refetched_append [simp]: "refetched (es @ fs) = refetched es @ refetched fs"
  by (induction es rule: refetched.induct) simp_all

lemma forgotten_append [simp]: "forgotten (es @ fs) = forgotten es @ forgotten fs"
  by (induction es rule: forgotten.induct) simp_all

lemma dropped_chats_append [simp]: "dropped_chats (es @ fs) = dropped_chats es @ dropped_chats fs"
  by (induction es rule: dropped_chats.induct) simp_all

definition turn_subject :: "subject \<Rightarrow> bool" where
  "turn_subject s = (fst s = ''live_turn'' \<or> fst s = ''run_turn'')"

definition fetched_ok :: "string list \<times> verdict_effect list \<Rightarrow> bool" where
  "fetched_ok acc = (distinct (map subject_key (refetched (snd acc))) \<and> set (fst acc) = set (map subject_key (refetched (snd acc))))"

lemma refetch_step:
  "fetched_ok acc \<Longrightarrow> fetched_ok (refetch s acc) \<and> set (fst (refetch s acc)) = insert (subject_key s) (set (fst acc))
     \<and> forgotten (snd (refetch s acc)) = forgotten (snd acc) \<and> dropped_chats (snd (refetch s acc)) = dropped_chats (snd acc)"
  by (auto simp: refetch_def fetched_ok_def)

lemma refetch_all:
  "fetched_ok acc \<Longrightarrow> fetched_ok (fold refetch ss acc) \<and> set (fst (fold refetch ss acc)) = set (fst acc) \<union> set (map subject_key ss)
     \<and> forgotten (snd (fold refetch ss acc)) = forgotten (snd acc) \<and> dropped_chats (snd (fold refetch ss acc)) = dropped_chats (snd acc)"
proof (induction ss arbitrary: acc)
  case (Cons s ss)
  then show ?case using refetch_step[OF Cons.prems, of s] Cons.IH[of "refetch s acc"] by auto
qed simp

lemma removed_step:
  assumes "fetched_ok acc"
  shows "fetched_ok (verdict_removed s acc)
     \<and> set (fst (verdict_removed s acc)) = set (fst acc) \<union> (if turn_subject s then {subject_key s} else {})
     \<and> forgotten (snd (verdict_removed s acc)) = forgotten (snd acc) @ [s]
     \<and> dropped_chats (snd (verdict_removed s acc)) = dropped_chats (snd acc) @ (if fst s = ''chat'' then [snd s] else [])"
proof -
  have "fetched_ok (fst acc, snd acc @ [Forget s])" using assms by (simp add: fetched_ok_def)
  note r = refetch_step[OF this, of s]
  show ?thesis using assms r by (auto simp: verdict_removed_def turn_subject_def fetched_ok_def Let_def)
qed

lemma removed_all:
  "fetched_ok acc \<Longrightarrow> fetched_ok (fold verdict_removed ss acc)
     \<and> set (fst (fold verdict_removed ss acc)) = set (fst acc) \<union> set (map subject_key (filter turn_subject ss))
     \<and> forgotten (snd (fold verdict_removed ss acc)) = forgotten (snd acc) @ ss
     \<and> dropped_chats (snd (fold verdict_removed ss acc)) = dropped_chats (snd acc) @ map snd (filter (\<lambda>s. fst s = ''chat'') ss)"
proof (induction ss arbitrary: acc)
  case (Cons s ss)
  then show ?case using removed_step[OF Cons.prems, of s] Cons.IH[of "verdict_removed s acc"] by auto
qed simp

text \<open>
  C7. A verdict refetches each changed subject and each removed turn exactly once, and nothing else; it forgets every removed
  subject and drops exactly the removed chats, in the verdict's order.
\<close>
theorem verdict_refetches_once:
  "let es = apply_verdict changed removed
   in distinct (map subject_key (refetched es))
      \<and> set (map subject_key (refetched es)) = set (map subject_key (changed @ filter turn_subject removed))
      \<and> forgotten es = removed \<and> dropped_chats es = map snd (filter (\<lambda>s. fst s = ''chat'') removed)"
proof -
  have s: "fetched_ok ([], [])" by (simp add: fetched_ok_def)
  let ?c = "fold refetch changed ([], [])" and ?r = "fold verdict_removed removed (fold refetch changed ([], []))"
  have c: "fetched_ok ?c" "set (fst ?c) = set (map subject_key changed)" "forgotten (snd ?c) = []" "dropped_chats (snd ?c) = []"
    using refetch_all[OF s, of changed] by simp_all
  have r: "fetched_ok ?r" "set (fst ?r) = set (fst ?c) \<union> set (map subject_key (filter turn_subject removed))"
    "forgotten (snd ?r) = removed" "dropped_chats (snd ?r) = map snd (filter (\<lambda>s. fst s = ''chat'') removed)"
    using removed_all[OF c(1), of removed] c(3,4) by simp_all
  have "set (map subject_key (refetched (snd ?r))) = set (map subject_key (changed @ filter turn_subject removed))"
    using r(1,2) c(2) unfolding fetched_ok_def by simp
  then show ?thesis using r(1,3,4) unfolding fetched_ok_def apply_verdict_def Let_def by blast
qed
end
