(* ===== verification/Spec2Isabelle.thy ===== *)
theory Spec2Isabelle
  imports Wire TurnSeverity EntryIds TurnFacts RenderCause ToolCalls Session Status DockFacts
    EntryFacts PageFacts ListLoad BlockWindowFacts BlockHeights RouteFacts PushSubject FoldFacts
    WordFacts RunTreeFacts RunLogFacts RunRepairFacts RunReadFacts TabsWaitFacts
    MdCuts MathFacts ConflictEditorFacts ServedUrl EventGateFacts
begin

text \<open>
  The client of marotte: a browser tab that mirrors chats held by a server.

  \<^bold>\<open>The program.\<close> The server keeps each chat as a log of turns, and a turn as a log of entries. A tab
  reads pages of it over HTTP and then follows it over an event stream: entries arrive sealed, or open with
  text that grows by deltas until a seal. The client keeps the window it holds in \<open>store.ts\<close>, repairs holes
  it finds by reading a range again (\<open>store-load.ts\<close>), projects the window to the turns a view draws
  (\<open>turns.ts\<close>), plans which of them are mounted (\<open>block-window.ts\<close>) and schedules repaints by cause. Beside
  the transcript there are the steers waiting in the dock, the folds a reader set, the workflow runs, the
  address bar, notifications and diffs. All sources are under \<open>src/static-src/\<close>.

  \<^bold>\<open>Conventions\<close> (\<open>Prelude\<close>). A \<open>Map\<close> is an association list with distinct keys, in the order JavaScript
  iterates it; \<open>undefined\<close> is \<open>None\<close>; an index out of range gives \<open>None\<close> or what the source writes for it.
  A handler answers the new state and the list of effects it asks for (repaints, reads, signals), in the
  order of the calls. \<open>frame_machine\<close> is the interface of a state stepped by frames, with an invariant that
  every accepted frame keeps; the entry log, the dock, the page walk, the render causes and live tool calls are instances.
  A \<open>string\<close> stands for text where only equality and ASCII structure matter; the URL codec works on lists of
  Unicode code points.

  \<^bold>\<open>Theories and what they model.\<close>
  \<^item> \<open>Wire\<close>: the enums, payloads, entries and open entries of \<open>types.ts\<close> and \<open>wire/types.gen.ts\<close>.
  \<^item> \<open>TurnSeverity\<close> (\<open>turn-severity.ts\<close>), \<open>EntryIds\<close> (\<open>entry-ids.ts\<close>).
  \<^item> \<open>Turns\<close>, \<open>TurnFacts\<close> (\<open>turns.ts\<close>): what is drawn, the projection and its keyed read, the ledger, the
    fold and the face. The keyed read of one turn is the projection's, and the ledger is a count.
  \<^item> \<open>RenderCause\<close> (\<open>store.ts\<close>, the cause accumulator): no repaint is lost and the flushed pass covers every
    cause merged into it.
  \<^item> \<open>ToolCalls\<close> (\<open>store.ts\<close>): folds of live tool calls, settled values, publication at mounted cards.
  \<^item> \<open>Session\<close> (\<open>store.ts\<close>): a chat's row, its headers, liveness, residency, eviction.
  \<^item> \<open>RunStatus\<close>, \<open>Status\<close> (\<open>run-status.ts\<close>, \<open>chat-settled.ts\<close>, \<open>handlers/turn.ts\<close>): dots and the cue.
  \<^item> \<open>Dock\<close>, \<open>DockFacts\<close> (\<open>store.ts\<close>): steers sent, queued, adopted, retired, cleared and restored. Rows are
    unique by id, and no step brings back a row that the log shows delivered.
  \<^item> \<open>EntryLog\<close>, \<open>EntryFacts\<close> (\<open>store.ts\<close>): opening a turn, appending, streaming, sealing, reverting. The
    invariant of the window, the exact effect of a revert, and that replays change nothing. \<open>chat_step\<close> puts the dock's
    frames and the log's in one machine: a delivered steer stays out of the dock while the turn that holds it stays.
  \<^item> \<open>PageLoad\<close>, \<open>PageFacts\<close> (\<open>store-load.ts\<close>): pages, merges and repairs. Reading a page is replaying it
    live, open tails and spent reverts included; a newest page's window, turn by turn; a repair leaves what in-order
    delivery would have left. An entry sealed while the page that shows it open is read is held twice.
  \<^item> \<open>ListLoad\<close> (\<open>store-load.ts\<close>): the chat list and its retry ladder.
  \<^item> \<open>BlockWindow\<close>, \<open>BlockWindowFacts\<close> (\<open>block-window.ts\<close>), \<open>BlockHeights\<close> (\<open>block-heights.ts\<close>): prices,
    slices and the residency plan, with its bounds and maximality.
  \<^item> \<open>UriCodec\<close>, \<open>RoutePath\<close>, \<open>RouteFacts\<close> (\<open>route-path.ts\<close>): \<open>encodeURIComponent\<close>, \<open>decodeURIComponent\<close>,
    the parser and the builder, and their round trips. \<open>PushSubject\<close> (\<open>push-subject.ts\<close>): notification
    targets.
  \<^item> \<open>FoldState\<close>, \<open>FoldFacts\<close> (\<open>fold-state.ts\<close>, \<open>per-chat-store.ts\<close>): folds and their stored document;
    \<open>entry_codec\<close> is the contract of a value the store writes and reads back.
  \<^item> \<open>Diff\<close>, \<open>LcsFacts\<close>, \<open>DiffFacts\<close>, \<open>WordDiff\<close>, \<open>WordFacts\<close> (\<open>diff.ts\<close>): the line diff is an edit script, a
    shortest one within its time budget; word marks and the window of whole hunks.
  \<^item> \<open>RunTree\<close>, \<open>RunTreeFacts\<close> (\<open>run-store.ts\<close>): a run's tree, progress frames, addresses and counters.
  \<^item> \<open>Trace\<close>: runs of a component that answers effects, and two contracts over them: \<open>simulation\<close> (one component
    does what another does) and \<open>single_flight\<close> (at most one request out), which \<open>coalesced_read\<close> extends (at most one
    owed, and none lost).
  \<^item> \<open>RunLog\<close>, \<open>RunLogFacts\<close> (\<open>run-store.ts\<close>): a run's entry log, which simulates the chat's, and the digest
    stamps it makes: the calls to the version map are effects, and the last one about a turn held is current. \<open>RunRepair\<close>, \<open>RunRepairFacts\<close> (\<open>run-turn-range.ts\<close>, \<open>run-step-transcript.ts\<close>): the range
    read and the step read.
  \<^item> \<open>RunReads\<close>, \<open>RunReadFacts\<close> (\<open>run-store.ts\<close>): the reads of a run and of its controls, the retry ladder with
    the timers a ladder leaves behind (\<open>rr_orphans\<close>), forgetting, and the inventory of live runs.
  \<^item> \<open>TabsSync\<close>, \<open>TabsFacts\<close>, \<open>TabsOpFacts\<close>, \<open>TabsReadFacts\<close>, \<open>TabsWaitFacts\<close> (\<open>tabs-sync.ts\<close>): the frames
    of the tab collection, the operations this device dispatched and the list that settles them. The projection
    is the server's set unless an uncommitted frame was applied since the last list, a removal settles once and on evidence, its row stays away, a doubt has a read to come.
  \<^item> \<open>MdText\<close>, \<open>MdEntities\<close>, \<open>MdStack\<close>, \<open>MdBlocks\<close>, \<open>MdInline\<close>, \<open>MdParser\<close> (\<open>smd-parser-types.ts\<close>,
    \<open>smd-entities.ts\<close>, \<open>smd-parser-handlers.ts\<close>, \<open>smd-parser.ts\<close>): the streaming Markdown parser, from its
    readings of complete strings to its write loop. \<open>MdInv\<close> has the invariant of the token stack; \<open>MdSound\<close>,
    \<open>MdSoundBlocks\<close>, \<open>MdSoundTables\<close>, \<open>MdSoundInline\<close>, \<open>MdReturns\<close> what each handler owes to the measure under
    which a write returns, \<open>MdCalm\<close> that no line starts between an indent and the character after it, and
    \<open>MdLoop\<close> that every write returns. \<open>MdDepth\<close>: the renderer's depth is the parser's. \<open>MdFlaws\<close>: inputs the
    parser mistreats. \<open>MdDraw\<close> says when two runs draw the same, \<open>MdPre\<close> that the parser never reads its
    calls, \<open>MdSame\<close> that a character keeps two states alike, \<open>MdKept\<close> and \<open>MdDry\<close> what holds where a chunk may
    end, \<open>MdChunks\<close> and \<open>MdCuts\<close> that a text in chunks is the text: a chunk's end moves no text over a
    structural call, only over a bare URL's \<open>HREF\<close>, which the renderer sets without reading the text.
  \<^item> \<open>MathLatex\<close>, \<open>MathParser\<close>, \<open>MathFacts\<close> (\<open>mathml.ts\<close>): the tokens and tables of the LaTeX
    converter, its parser, what a parse takes and builds (brace tokens that balance, those a \<open>\left\<close> takes aside; trees MathML has a meaning for) and that it ends.
    A table is read with brackets, so names that every object inherits are found in it.
  \<^item> \<open>Conflict\<close>, \<open>ConflictFacts\<close> (\<open>conflict.ts\<close>): merge conflicts read and resolved. A file is a
    sequence of plain lines and clashes, which is what the parser finds, and a resolution leaves the other clashes.
    \<open>ConflictEditor\<close>, \<open>ConflictEditorFacts\<close> (\<open>editor-conflict.ts\<close>, parts of \<open>editor-core.ts\<close> and
    \<open>editor-openers.ts\<close>): a file in conflict mode, its suggestions in flight, and where they end up. The
    read back of the text area on an activation is not modelled.
  \<^item> \<open>ServedUrl\<close> (\<open>utils-url.ts\<close>): safe schemes, against a browser's reading of the scheme, served files and their routes.
  \<^item> \<open>EventGate\<close>, \<open>EventGateFacts\<close> (\<open>sse-adapter.ts\<close>): frames held until the chat store is there, delivery and stamps,
    and what a digest's verdict has read again. The gate is a delay, a stamp follows its state, a verdict asks once.

  \<^bold>\<open>Termination and bounds.\<close> A write of the Markdown parser is a machine with the stack of its nested loops,
  run by \<open>while_option\<close>; \<open>MdLoop\<close> shows that it always stops. \<open>grow_window\<close> ends because each step spends an
  ordinal of a finite range; \<open>ladder_delays\<close> takes the rungs it may look at as fuel, and any number from three on gives the whole
  ladder; so does \<open>run_ladder_delays\<close>. \<open>parse_atom\<close> takes the nesting it may reach as fuel, one more than the tokens, and \<open>seq_loop\<close>
  the rounds; \<open>conversion_ends\<close> states that neither runs out.
  \<open>hirschberg_diff\<close> is partial, as the source has no case for an empty old side; \<open>line_diff_is_an_edit_script\<close>
  states that every call the program makes returns. Every other recursion is total by structure or a measure.
  Sizes the source fixes (\<open>space_threshold\<close>, \<open>time_budget_cells\<close>, \<open>max_chats\<close>, ...) are definitions with its
  values; JavaScript numbers that count are \<open>int\<close> or \<open>nat\<close>, and line numbers in a URL are rounded as
  \<open>parseInt\<close> rounds them.

  \<^bold>\<open>Not modelled.\<close> The DOM: the transcript renderer (\<open>messages.ts\<close>, \<open>messages-blocks.ts\<close>), tabs and panes
  (\<open>tabs.ts\<close>) and the Markdown renderer (\<open>smd-renderer.ts\<close>), whose results are document nodes: its calls are recorded, and one
  that throws, after the token stack fell below its first slot, is not told from one that returns. Generated decoders:
  the models take decoded values. Browser I/O (fetch, the event stream, the service worker, storage): an
  answer is an argument, storage is a value. A URL's dot segments, which the browser resolves before
  \<open>parseRoute\<close> sees the path. \<open>Date.parse\<close> and the clock are parameters, and so is the lower case of a letter past ASCII. Of the editor only the conflict mode is modelled. The Go server.
\<close>

end
